(* ===== verification/Prelude.thy ===== *)
theory Prelude
  imports Main "HOL-Library.Word"
begin

text \<open>
  Shared vocabulary of the development: the C integer types, the ways a C function can end
  (return, abort, undefined behaviour, never), the state monad the stateful code is written in
  with its weakest-precondition calculus, and checked access to byte arrays.
  No definition here models a line of the program; the theories of the components do.
\<close>

unbundle bit_operations_syntax

section \<open>C types\<close>

type_synonym u8 = "8 word"
type_synonym u16 = "16 word"
type_synonym u32 = "32 word"
type_synonym u64 = "64 word"
type_synonym bytes = "8 word list"

text \<open>
  A C \<open>int\<close> is an \<open>int\<close> within the 32-bit range.  Conversions from unsigned values wrap
  (\<open>int_of_u32\<close>), signed arithmetic that leaves the range is undefined behaviour
  (\<open>int_in_range\<close> guards it).
\<close>

definition int_of_u32 :: "u32 \<Rightarrow> int" where
  "int_of_u32 w = sint w"

definition u32_of_int :: "int \<Rightarrow> u32" where
  "u32_of_int i = word_of_int i"

definition int_in_range :: "int \<Rightarrow> bool" where
  "int_in_range i \<longleftrightarrow> - 2147483648 \<le> i \<and> i < 2147483648"

named_theorems c_int_simps \<open>conversions between int and u32\<close>

lemma int_of_u32_range [simp]: "int_in_range (int_of_u32 w)"
  using sint_range_size [of w] by (simp add: int_in_range_def int_of_u32_def word_size)

lemma u32_of_int_of_u32 [simp]: "u32_of_int (int_of_u32 w) = w"
  by (simp add: int_of_u32_def u32_of_int_def)

lemma int_of_u32_small [c_int_simps]:
  assumes "unat w < 2147483648"
  shows "int_of_u32 w = int (unat w)"
proof -
  have "int (unat w) < 2147483648" using assms by linarith
  then have "uint w < 2147483648" by simp
  moreover have "- 2147483648 \<le> uint w" by (rule order_trans [OF _ uint_ge_0]) simp
  ultimately have "signed_take_bit 31 (uint w) = uint w"
    by (simp add: signed_take_bit_int_eq_self_iff)
  then show ?thesis by (simp add: int_of_u32_def sint_uint)
qed

lemma unat_u32_of_int [c_int_simps]:
  "0 \<le> i \<Longrightarrow> i < 4294967296 \<Longrightarrow> unat (u32_of_int i) = nat i"
  by (simp add: u32_of_int_def unat_eq_nat_uint uint_word_of_int del: nat_uint_eq)

lemma int_of_u32_of_int [c_int_simps]: "int_in_range i \<Longrightarrow> int_of_u32 (u32_of_int i) = i"
  by (simp only: int_of_u32_def u32_of_int_def sint_sbintrunc')
    (simp add: int_in_range_def signed_take_bit_int_eq_self)

section \<open>How a C function ends\<close>

text \<open>
  \<open>Abort\<close>: \<open>abort()\<close>; \<open>AssertFail\<close>: a failed \<open>assert\<close>; \<open>OutOfBounds\<close>: an access outside
  the object a pointer points into; \<open>SignedOverflow\<close>: signed arithmetic outside the range of
  \<open>int\<close>; \<open>NullDeref\<close>: an access through a null pointer or a call of an unset function pointer;
  \<open>UseAfterFree\<close>: an access to an object that has been freed.
  The last four are undefined behaviour in C; the model stops there.
\<close>

datatype fault = Abort | AssertFail | OutOfBounds | SignedOverflow | NullDeref | UseAfterFree

text \<open>
  A computation over a state: \<open>None\<close> when it never returns, \<open>Some (Inl f)\<close> when it ends in
  the fault \<open>f\<close>, \<open>Some (Inr (a, s'))\<close> when it returns \<open>a\<close> in the state \<open>s'\<close>.
\<close>

type_synonym ('s, 'a) vm = "'s \<Rightarrow> (fault + 'a \<times> 's) option"

definition ret :: "'a \<Rightarrow> ('s, 'a) vm" where
  "ret a = (\<lambda>s. Some (Inr (a, s)))"

definition fault :: "fault \<Rightarrow> ('s, 'a) vm" where
  "fault f = (\<lambda>s. Some (Inl f))"

definition bnd :: "('s, 'a) vm \<Rightarrow> ('a \<Rightarrow> ('s, 'b) vm) \<Rightarrow> ('s, 'b) vm" where
  "bnd m k = (\<lambda>s. Option.bind (m s) (\<lambda>r. case r of Inl f \<Rightarrow> Some (Inl f) | Inr p \<Rightarrow> k (fst p) (snd p)))"

definition andthen :: "('s, 'a) vm \<Rightarrow> ('s, 'b) vm \<Rightarrow> ('s, 'b) vm" where
  "andthen m k = bnd m (\<lambda>_. k)"

definition gets :: "('s \<Rightarrow> 'a) \<Rightarrow> ('s, 'a) vm" where
  "gets f = (\<lambda>s. Some (Inr (f s, s)))"

definition modify :: "('s \<Rightarrow> 's) \<Rightarrow> ('s, unit) vm" where
  "modify f = (\<lambda>s. Some (Inr ((), f s)))"

definition guard :: "fault \<Rightarrow> bool \<Rightarrow> ('s, unit) vm" where
  "guard f b = (if b then ret () else fault f)"

definition lift :: "fault + 'a \<Rightarrow> ('s, 'a) vm" where
  "lift r = (\<lambda>s. Some (case r of Inl f \<Rightarrow> Inl f | Inr a \<Rightarrow> Inr (a, s)))"

text \<open>Signed arithmetic: the value if it is an \<open>int\<close>, undefined behaviour otherwise.\<close>

definition cint :: "int \<Rightarrow> ('s, int) vm" where
  "cint i = (if int_in_range i then ret i else fault SignedOverflow)"

lemma vm_run [simp]:
  "ret a s = Some (Inr (a, s))"
  "fault f s = Some (Inl f)"
  "gets g s = Some (Inr (g s, s))"
  "modify h s = Some (Inr ((), h s))"
  "lift (Inl f) s = Some (Inl f)"
  "lift (Inr a) s = Some (Inr (a, s))"
  by (simp_all add: ret_def fault_def gets_def modify_def lift_def)

lemma bnd_run:
  "m s = None \<Longrightarrow> bnd m k s = None"
  "m s = Some (Inl f) \<Longrightarrow> bnd m k s = Some (Inl f)"
  "m s = Some (Inr (a, s')) \<Longrightarrow> bnd m k s = k a s'"
  by (simp_all add: bnd_def)

lemma andthen_run:
  "m s = None \<Longrightarrow> andthen m k s = None"
  "m s = Some (Inl f) \<Longrightarrow> andthen m k s = Some (Inl f)"
  "m s = Some (Inr (a, s')) \<Longrightarrow> andthen m k s = k s'"
  by (simp_all add: andthen_def bnd_def)

lemma bnd_assoc: "bnd (bnd m k) h = bnd m (\<lambda>a. bnd (k a) h)"
proof
  fix s
  show "bnd (bnd m k) h s = bnd m (\<lambda>a. bnd (k a) h) s"
    by (cases "m s") (auto simp: bnd_def split: sum.splits)
qed

lemma bnd_ret: "bnd (ret a) k = k a"
  by (simp add: fun_eq_iff bnd_run)

lemma bnd_at: "m s = bnd m' k' s' \<Longrightarrow> bnd m k s = bnd m' (\<lambda>a. bnd (k' a) k) s'"
  by (simp add: bnd_assoc [symmetric]) (simp add: bnd_def)

lemma guard_run [simp]: "guard f True s = Some (Inr ((), s))" "guard f False s = Some (Inl f)"
  by (simp_all add: guard_def)

lemma cint_run: "int_in_range i \<Longrightarrow> cint i s = Some (Inr (i, s))"
  by (simp add: cint_def)

text \<open>A computation on a part of the state.\<close>

definition zoom :: "('s \<Rightarrow> 'b) \<Rightarrow> ('b \<Rightarrow> 's \<Rightarrow> 's) \<Rightarrow> ('b, 'a) vm \<Rightarrow> ('s, 'a) vm" where
  "zoom get put m = (\<lambda>s. case m (get s) of None \<Rightarrow> None | Some (Inl f) \<Rightarrow> Some (Inl f)
     | Some (Inr p) \<Rightarrow> Some (Inr (fst p, put (snd p) s)))"

lemma zoom_run:
  "m (get s) = Some (Inr (a, b)) \<Longrightarrow> zoom get put m s = Some (Inr (a, put b s))"
  "m (get s) = Some (Inl f) \<Longrightarrow> zoom get put m s = Some (Inl f)"
  "m (get s) = None \<Longrightarrow> zoom get put m s = None"
  by (simp_all add: zoom_def)

text \<open>Signed division, which truncates towards zero.\<close>

definition cdiv :: "int \<Rightarrow> int \<Rightarrow> int" where
  "cdiv a b = (if a < 0 then - ((- a) div b) else a div b)"

section \<open>Loops\<close>

text \<open>
  A C loop over local variables \<open>x\<close>: one pass of the body ends with new values of the variables
  (\<open>Again\<close>) or leaves the loop with a result (\<open>Done\<close>).  A loop that is never left is \<open>None\<close>.
\<close>

datatype ('x, 'a) step = Again 'x | Done 'a

lemma bnd_mono [partial_function_mono]:
  assumes "\<And>a t. mono_option (\<lambda>f. k f a t)"
  shows "mono_option (\<lambda>f. bnd m (k f) s)"
proof (cases "m s")
  case None
  then show ?thesis by (simp add: bnd_def monotone_on_def flat_ord_def)
next
  case (Some r)
  then show ?thesis using assms
    by (cases r) (simp_all add: bnd_def monotone_on_def flat_ord_def)
qed

lemma step_run_mono [partial_function_mono]:
  assumes "\<And>x. mono_option (\<lambda>f. F f x s)" and "\<And>a. mono_option (\<lambda>f. G f a s)"
  shows "mono_option (\<lambda>f. (case r of Again x \<Rightarrow> F f x | Done a \<Rightarrow> G f a) s)"
  using assms by (cases r) simp_all

partial_function (option) loop ::
  "('x \<Rightarrow> ('s, ('x, 'a) step) vm) \<Rightarrow> 'x \<Rightarrow> 's \<Rightarrow> (fault + 'a \<times> 's) option" where
  "loop body x s = bnd (body x) (\<lambda>r. case r of Again x' \<Rightarrow> loop body x' | Done a \<Rightarrow> ret a) s"

lemma loop_again: "body x s = Some (Inr (Again x', s')) \<Longrightarrow> loop body x s = loop body x' s'"
  by (subst loop.simps) (simp add: bnd_run)

lemma loop_done: "body x s = Some (Inr (Done a, s')) \<Longrightarrow> loop body x s = Some (Inr (a, s'))"
  by (subst loop.simps) (simp add: bnd_run)

lemma loop_fault: "body x s = Some (Inl f) \<Longrightarrow> loop body x s = Some (Inl f)"
  by (subst loop.simps) (simp add: bnd_run)

lemma loop_induct:
  assumes step: "\<And>f b x s r. (\<And>b x s r. f b x s = Some r \<Longrightarrow> P b x s r) \<Longrightarrow>
      bnd (b x) (\<lambda>r. case r of Again x' \<Rightarrow> f b x' | Done a \<Rightarrow> ret a) s = Some r \<Longrightarrow> P b x s r"
    and ret: "loop body x s = Some r"
  shows "P body x s r"
proof -
  have "(case ((body, x), s) of (y, s) \<Rightarrow> (case y of (b, x) \<Rightarrow> P b x) s) r"
    by (rule loop.raw_induct [where P = P and xa = "((body, x), s)" and y = r], rule step)
      (use ret in auto)
  then show ?thesis by simp
qed

text \<open>A loop whose body always goes round again never returns.\<close>

lemma loop_diverges:
  assumes "D x s"
    and again: "\<And>x s. D x s \<Longrightarrow> \<exists>x' s'. body x s = Some (Inr (Again x', s')) \<and> D x' s'"
  shows "loop body x s = None"
proof (rule ccontr)
  assume "loop body x s \<noteq> None"
  then obtain r where r: "loop body x s = Some r" by blast
  have "body = body \<longrightarrow> \<not> D x s"
  proof (rule loop_induct [where P = "\<lambda>b x s r. b = body \<longrightarrow> \<not> D x s", OF _ r])
    fix f b x s r
    assume IH: "\<And>b x s r. f b x s = Some r \<Longrightarrow> b = body \<longrightarrow> \<not> D x s"
      and eq: "bnd (b x) (\<lambda>r. case r of Again x' \<Rightarrow> f b x' | Done a \<Rightarrow> ret a) s = Some r"
    show "b = body \<longrightarrow> \<not> D x s"
      using eq IH again [of x s] by (auto simp: bnd_run)
  qed
  with assms(1) show False by blast
qed

text \<open>A loop whose body returns and decreases a measure returns.\<close>

lemma loop_returns:
  assumes "P x s"
    and body: "\<And>x s. P x s \<Longrightarrow> body x s \<noteq> None"
    and decr: "\<And>x s x' s'. P x s \<Longrightarrow> body x s = Some (Inr (Again x', s')) \<Longrightarrow> P x' s' \<and> \<mu> x' s' < (\<mu> x s :: nat)"
  shows "loop body x s \<noteq> None"
  using assms(1)
proof (induction "\<mu> x s" arbitrary: x s rule: less_induct)
  case less
  obtain r where r: "body x s = Some r" using body [OF less.prems] by blast
  show ?case
  proof (cases r)
    case (Inl f)
    with r show ?thesis by (simp add: loop_fault)
  next
    case (Inr p)
    then obtain st s' where p: "body x s = Some (Inr (st, s'))" using r by (cases p) simp
    show ?thesis
    proof (cases st)
      case (Again x')
      with p decr [OF less.prems] less.hyps show ?thesis by (simp add: loop_again)
    next
      case (Done a)
      with p show ?thesis by (simp add: loop_done)
    qed
  qed
qed

section \<open>Weakest preconditions\<close>

text \<open>
  \<open>wlp m Q F s\<close>: if \<open>m\<close> returns from \<open>s\<close> then \<open>Q\<close> holds of the value and the new state,
  and if it faults then \<open>F\<close> holds of the fault.  With \<open>F = (\<lambda>_. False)\<close> it says that \<open>m\<close>
  cannot fault.  Termination is stated separately (\<open>returns\<close>).
\<close>

definition wlp :: "('s, 'a) vm \<Rightarrow> ('a \<Rightarrow> 's \<Rightarrow> bool) \<Rightarrow> (fault \<Rightarrow> bool) \<Rightarrow> 's \<Rightarrow> bool" where
  "wlp m Q F s = (case m s of None \<Rightarrow> True | Some (Inl f) \<Rightarrow> F f | Some (Inr p) \<Rightarrow> Q (fst p) (snd p))"

definition returns :: "('s, 'a) vm \<Rightarrow> 's \<Rightarrow> bool" where
  "returns m s \<longleftrightarrow> m s \<noteq> None"

named_theorems wlp_simps \<open>weakest preconditions of the primitives\<close>

lemma wlp_ret [wlp_simps]: "wlp (ret a) Q F s = Q a s"
  by (simp add: wlp_def)

lemma wlp_fault [wlp_simps]: "wlp (fault f) Q F s = F f"
  by (simp add: wlp_def)

lemma wlp_gets [wlp_simps]: "wlp (gets g) Q F s = Q (g s) s"
  by (simp add: wlp_def)

lemma wlp_modify [wlp_simps]: "wlp (modify h) Q F s = Q () (h s)"
  by (simp add: wlp_def)

lemma wlp_guard [wlp_simps]: "wlp (guard f b) Q F s = (if b then Q () s else F f)"
  by (simp add: wlp_def)

lemma wlp_cint [wlp_simps]:
  "wlp (cint i) Q F s = (if int_in_range i then Q i s else F SignedOverflow)"
  by (simp add: wlp_def cint_def)

lemma wlp_lift [wlp_simps]:
  "wlp (lift r) Q F s = (case r of Inl f \<Rightarrow> F f | Inr a \<Rightarrow> Q a s)"
  by (simp add: wlp_def lift_def split: sum.splits)

lemma wlp_bnd [wlp_simps]: "wlp (bnd m k) Q F s = wlp m (\<lambda>a. wlp (k a) Q F) F s"
  by (simp add: wlp_def bnd_def split: option.splits sum.splits)

lemma wlp_andthen [wlp_simps]: "wlp (andthen m k) Q F s = wlp m (\<lambda>_. wlp k Q F) F s"
  by (simp add: andthen_def wlp_bnd)

lemma wlp_if [wlp_simps]:
  "wlp (if b then m else m') Q F s = (if b then wlp m Q F s else wlp m' Q F s)"
  by simp

lemma wlp_mono:
  assumes "wlp m Q F s" and "\<And>a t. Q a t \<Longrightarrow> Q' a t" and "\<And>f. F f \<Longrightarrow> F' f"
  shows "wlp m Q' F' s"
  using assms by (auto simp: wlp_def split: option.splits sum.splits)

lemma wlp_conj: "wlp m (\<lambda>a t. Q a t \<and> Q' a t) F s \<longleftrightarrow> wlp m Q F s \<and> wlp m Q' F s"
  by (auto simp: wlp_def split: option.splits sum.splits)

lemma wlp_D:
  "wlp m Q F s \<Longrightarrow> m s = Some (Inr (a, t)) \<Longrightarrow> Q a t"
  "wlp m Q F s \<Longrightarrow> m s = Some (Inl f) \<Longrightarrow> F f"
  by (simp_all add: wlp_def)

lemma wlp_triv: "(\<And>a t. Q a t) \<Longrightarrow> wlp m Q (\<lambda>_. True) s"
  by (simp add: wlp_def split: option.splits sum.splits)

text \<open>Keeping an invariant, whatever the result.\<close>

definition keeps :: "('s \<Rightarrow> bool) \<Rightarrow> ('s, 'a) vm \<Rightarrow> bool" where
  "keeps I m \<longleftrightarrow> (\<forall>s. I s \<longrightarrow> wlp m (\<lambda>_. I) (\<lambda>_. True) s)"

lemma wlp_keeps:
  assumes "keeps K m" and "K s" and "\<And>a t. K t \<Longrightarrow> Q a t"
  shows "wlp m Q (\<lambda>_. True) s"
  using assms unfolding keeps_def by (blast intro: wlp_mono)

named_theorems keeps_intros \<open>rules for keeping an invariant\<close>

lemma keepsI: "(\<And>s. I s \<Longrightarrow> wlp m (\<lambda>_. I) (\<lambda>_. True) s) \<Longrightarrow> keeps I m"
  by (simp add: keeps_def)

lemma keepsD: "keeps I m \<Longrightarrow> I s \<Longrightarrow> m s = Some (Inr (a, t)) \<Longrightarrow> I t"
  unfolding keeps_def by (drule spec [of _ s]) (simp add: wlp_def)

lemma keeps_wlp: "keeps I m \<Longrightarrow> I s \<Longrightarrow> wlp m (\<lambda>_. I) (\<lambda>_. True) s"
  by (simp add: keeps_def)

lemma keeps_ret [keeps_intros]: "keeps I (ret a)"
  by (simp add: keeps_def wlp_simps)

lemma keeps_fault [keeps_intros]: "keeps I (fault f)"
  by (simp add: keeps_def wlp_simps)

lemma keeps_gets [keeps_intros]: "keeps I (gets g)"
  by (simp add: keeps_def wlp_simps)

lemma keeps_guard [keeps_intros]: "keeps I (guard f b)"
  by (simp add: keeps_def wlp_simps)

lemma keeps_cint [keeps_intros]: "keeps I (cint i)"
  by (simp add: keeps_def wlp_simps)

lemma keeps_lift [keeps_intros]: "keeps I (lift r)"
  by (simp add: keeps_def wlp_simps split: sum.splits)

lemma keeps_modify: "(\<And>s. I s \<Longrightarrow> I (h s)) \<Longrightarrow> keeps I (modify h)"
  by (simp add: keeps_def wlp_simps)

lemma wlp_zoom [wlp_simps]:
  "wlp (zoom get put m) Q F s = wlp m (\<lambda>a b. Q a (put b s)) F (get s)"
  by (simp add: wlp_def zoom_def split: option.splits sum.splits)

lemma keeps_zoom:
  assumes "\<And>s b. I s \<Longrightarrow> I (put b s)"
  shows "keeps I (zoom get put m)"
  using assms by (simp add: keeps_def wlp_def zoom_def split: option.splits sum.splits)

lemma keeps_bnd [keeps_intros]:
  assumes "keeps I m" and "\<And>a. keeps I (k a)"
  shows "keeps I (bnd m k)"
  using assms unfolding keeps_def wlp_bnd by (blast intro: wlp_mono)

lemma keeps_andthen [keeps_intros]: "keeps I m \<Longrightarrow> keeps I k \<Longrightarrow> keeps I (andthen m k)"
  by (simp add: andthen_def keeps_bnd)

lemma keeps_if [keeps_intros]:
  "(b \<Longrightarrow> keeps I m) \<Longrightarrow> (\<not> b \<Longrightarrow> keeps I m') \<Longrightarrow> keeps I (if b then m else m')"
  by simp

lemma keeps_case_option [keeps_intros]:
  "(r = None \<Longrightarrow> keeps I m) \<Longrightarrow> (\<And>a. r = Some a \<Longrightarrow> keeps I (k a)) \<Longrightarrow>
     keeps I (case r of None \<Rightarrow> m | Some a \<Rightarrow> k a)"
  by (cases r) simp_all

lemma keeps_case_prod [keeps_intros]:
  "(\<And>a b. p = (a, b) \<Longrightarrow> keeps I (k a b)) \<Longrightarrow> keeps I (case p of (a, b) \<Rightarrow> k a b)"
  by (cases p) simp

lemma keeps_let [keeps_intros]: "(\<And>a. a = x \<Longrightarrow> keeps I (k a)) \<Longrightarrow> keeps I (let a = x in k a)"
  by simp

text \<open>Computations whose value, if they return, always has a property.\<close>

definition yields :: "('a \<Rightarrow> bool) \<Rightarrow> ('s, 'a) vm \<Rightarrow> bool" where
  "yields P m \<longleftrightarrow> (\<forall>s. wlp m (\<lambda>a _. P a) (\<lambda>_. True) s)"

named_theorems yields_intros \<open>rules for the values a computation returns\<close>

lemma yields_ret [yields_intros]: "P a \<Longrightarrow> yields P (ret a)"
  by (simp add: yields_def wlp_ret)

lemma yields_fault [yields_intros]: "yields P (fault f)"
  by (simp add: yields_def wlp_fault)

lemma yields_bnd [yields_intros]: "(\<And>a. yields P (k a)) \<Longrightarrow> yields P (bnd m k)"
  by (simp add: yields_def wlp_bnd wlp_triv)

lemma yields_andthen [yields_intros]: "yields P k \<Longrightarrow> yields P (andthen m k)"
  by (simp add: andthen_def yields_bnd)

lemma yields_if [yields_intros]:
  "(b \<Longrightarrow> yields P m) \<Longrightarrow> (\<not> b \<Longrightarrow> yields P m') \<Longrightarrow> yields P (if b then m else m')"
  by simp

lemma yields_case_option [yields_intros]:
  "(r = None \<Longrightarrow> yields P m) \<Longrightarrow> (\<And>a. r = Some a \<Longrightarrow> yields P (k a)) \<Longrightarrow>
     yields P (case r of None \<Rightarrow> m | Some a \<Rightarrow> k a)"
  by (cases r) simp_all

lemma yields_case_prod [yields_intros]:
  "(\<And>a b. p = (a, b) \<Longrightarrow> yields P (k a b)) \<Longrightarrow> yields P (case p of (a, b) \<Rightarrow> k a b)"
  by (cases p) simp

lemma yields_let [yields_intros]: "(\<And>a. a = x \<Longrightarrow> yields P (k a)) \<Longrightarrow> yields P (let a = x in k a)"
  by simp

lemma yields_seq: "yields Q m \<Longrightarrow> (\<And>a. Q a \<Longrightarrow> yields P (k a)) \<Longrightarrow> yields P (bnd m k)"
  by (fastforce simp: yields_def wlp_bnd elim: wlp_mono)

text \<open>Computations that always end, in a value or in a fault.\<close>

definition total :: "('s, 'a) vm \<Rightarrow> bool" where
  "total m \<longleftrightarrow> (\<forall>s. returns m s)"

named_theorems total_intros \<open>rules for computations without unbounded loops\<close>

lemma total_basic [total_intros]:
  "total (ret a)" "total (fault f)" "total (gets g)" "total (guard f b)" "total (cint i)"
  by (simp_all add: total_def returns_def guard_def cint_def)

lemma total_modify [total_intros]: "total (modify h)"
  by (simp add: total_def returns_def)

lemma total_lift [total_intros]: "total (lift r)"
  by (simp add: total_def returns_def lift_def)

lemma total_bnd [total_intros]: "total m \<Longrightarrow> (\<And>a. total (k a)) \<Longrightarrow> total (bnd m k)"
  by (simp add: total_def returns_def bnd_def split: bind_splits sum.splits)

lemma total_andthen [total_intros]: "total m \<Longrightarrow> total k \<Longrightarrow> total (andthen m k)"
  by (simp add: andthen_def total_bnd)

lemma total_if [total_intros]:
  "(b \<Longrightarrow> total m) \<Longrightarrow> (\<not> b \<Longrightarrow> total m') \<Longrightarrow> total (if b then m else m')"
  by simp

lemma total_case_option [total_intros]:
  "(r = None \<Longrightarrow> total m) \<Longrightarrow> (\<And>a. r = Some a \<Longrightarrow> total (k a)) \<Longrightarrow>
     total (case r of None \<Rightarrow> m | Some a \<Rightarrow> k a)"
  by (cases r) simp_all

lemma total_case_prod [total_intros]:
  "(\<And>a b. p = (a, b) \<Longrightarrow> total (k a b)) \<Longrightarrow> total (case p of (a, b) \<Rightarrow> k a b)"
  by (cases p) simp

lemma total_let [total_intros]: "(\<And>a. a = x \<Longrightarrow> total (k a)) \<Longrightarrow> total (let a = x in k a)"
  by simp

text \<open>A total computation that cannot fault has a result, of which its postcondition holds.\<close>

lemma total_result:
  assumes "total m" and "wlp m Q (\<lambda>_. False) s"
  shows "\<exists>a t. m s = Some (Inr (a, t)) \<and> Q a t"
proof -
  obtain r where "m s = Some r" using assms(1) by (auto simp: total_def returns_def)
  with assms(2) show ?thesis by (auto simp: wlp_def split: sum.splits)
qed

text \<open>The loop rule: \<open>J\<close> holds of the loop variables and the state before every pass.\<close>

lemma wlp_loop:
  assumes "J x s"
    and "\<And>x s. J x s \<Longrightarrow> wlp (body x) (\<lambda>r t. case r of Again x' \<Rightarrow> J x' t | Done a \<Rightarrow> Q a t) F s"
  shows "wlp (loop body x) Q F s"
proof -
  let ?R = "\<lambda>r. case r of Inl f \<Rightarrow> F f | Inr p \<Rightarrow> Q (fst p) (snd p)"
  have "b = body \<longrightarrow> J x s \<longrightarrow> ?R r" if ret: "loop b x s = Some r" for b x s r
  proof (rule loop_induct [where P = "\<lambda>b x s r. b = body \<longrightarrow> J x s \<longrightarrow> ?R r", OF _ ret])
    fix f b x s r
    assume IH: "\<And>b x s r. f b x s = Some r \<Longrightarrow> b = body \<longrightarrow> J x s \<longrightarrow> ?R r"
      and eq: "bnd (b x) (\<lambda>r. case r of Again x' \<Rightarrow> f b x' | Done a \<Rightarrow> ret a) s = Some r"
    show "b = body \<longrightarrow> J x s \<longrightarrow> ?R r"
      using eq assms(2) [of x s] IH [of body]
      by (fastforce simp: bnd_def wlp_def split: option.splits sum.splits step.splits bind_splits)
  qed
  with assms(1) show ?thesis by (auto simp: wlp_def split: option.splits sum.splits)
qed

lemma keeps_loop [keeps_intros]:
  assumes "\<And>x. keeps I (body x)"
  shows "keeps I (loop body x)"
proof (rule keepsI)
  fix s
  assume "I s"
  then show "wlp (loop body x) (\<lambda>_. I) (\<lambda>_. True) s"
  proof (rule wlp_loop [where J = "\<lambda>_. I"])
    fix x s
    assume "I s"
    then have "wlp (body x) (\<lambda>_. I) (\<lambda>_. True) s" by (rule keeps_wlp [OF assms])
    then show "wlp (body x) (\<lambda>r t. case r of Again x' \<Rightarrow> I t | Done a \<Rightarrow> I t) (\<lambda>_. True) s"
      by (rule wlp_mono) (auto split: step.splits)
  qed
qed

text \<open>A loop ends when its body does and decreases a measure of its variables.\<close>

lemma total_loop:
  assumes "\<And>x. total (body x)"
    and "\<And>x. yields (\<lambda>r. case r of Again x' \<Rightarrow> \<mu> x' < (\<mu> x :: nat) | Done _ \<Rightarrow> True) (body x)"
  shows "total (loop body x)"
proof -
  have "loop body x s \<noteq> None" for s
  proof (rule loop_returns [where P = "\<lambda>_ _. True" and \<mu> = "\<lambda>x _. \<mu> x"])
    show "body x s \<noteq> None" for x s using assms(1) by (simp add: total_def returns_def)
    show "True \<and> \<mu> x' < \<mu> x" if "body x s = Some (Inr (Again x', s'))" for x s x' s'
      using assms(2) [of x] that by (auto simp: yields_def wlp_def dest!: spec [of _ s])
  qed simp
  then show ?thesis by (simp add: total_def returns_def)
qed

section \<open>Byte arrays\<close>

text \<open>
  \<open>peek a off n\<close> reads \<open>n\<close> bytes of the array \<open>a\<close> from index \<open>off\<close>; \<open>poke a off bs\<close> stores
  \<open>bs\<close> there.  Both fault outside the array.  An index is an \<open>int\<close>, because pointer
  arithmetic in the source can move a pointer below the start of its object.
\<close>

definition in_array :: "'a list \<Rightarrow> int \<Rightarrow> nat \<Rightarrow> bool" where
  "in_array a off n \<longleftrightarrow> 0 \<le> off \<and> off + int n \<le> int (length a)"

definition blit :: "'a list \<Rightarrow> nat \<Rightarrow> 'a list \<Rightarrow> 'a list" where
  "blit a off xs = take off a @ xs @ drop (off + length xs) a"

text \<open>
  \<open>malloc\<close> with unspecified contents \<open>junk\<close>.  A negative \<open>int\<close> becomes an enormous \<open>size_t\<close>, for
  which \<open>malloc\<close> returns a null pointer: an array that may not be accessed.
\<close>

definition malloc :: "(nat \<Rightarrow> u8) \<Rightarrow> int \<Rightarrow> bytes" where
  "malloc junk n = map junk [0..<nat n]"

definition peek :: "bytes \<Rightarrow> int \<Rightarrow> nat \<Rightarrow> fault + bytes" where
  "peek a off n = (if n = 0 then Inr []
     else if in_array a off n then Inr (take n (drop (nat off) a)) else Inl OutOfBounds)"

definition poke :: "bytes \<Rightarrow> int \<Rightarrow> bytes \<Rightarrow> fault + bytes" where
  "poke a off bs = (if bs = [] then Inr a
     else if in_array a off (length bs) then Inr (blit a (nat off) bs) else Inl OutOfBounds)"

lemma length_malloc [simp]: "length (malloc junk n) = nat n"
  by (simp add: malloc_def)

lemma length_blit [simp]: "off + length xs \<le> length a \<Longrightarrow> length (blit a off xs) = length a"
  by (simp add: blit_def)

lemma blit_Nil [simp]: "blit a off [] = a"
  by (simp add: blit_def)

lemma nth_blit:
  assumes "off + length xs \<le> length a" and "i < length a"
  shows "blit a off xs ! i = (if off \<le> i \<and> i < off + length xs then xs ! (i - off) else a ! i)"
  using assms by (auto simp: blit_def nth_append min_def)

lemma take_drop_blit [simp]:
  "off + length xs \<le> length a \<Longrightarrow> take (length xs) (drop off (blit a off xs)) = xs"
  by (simp add: blit_def)

lemma blit_blit_append:
  assumes "off + length xs + length ys \<le> length a"
  shows "blit (blit a off xs) (off + length xs) ys = blit a off (xs @ ys)"
  using assms by (simp add: blit_def ac_simps)

lemma blit_0_full: "length xs = length a \<Longrightarrow> blit a 0 xs = xs"
  by (simp add: blit_def)

lemma poke_length: "poke a off bs = Inr a' \<Longrightarrow> length a' = length a"
  by (auto simp: poke_def in_array_def split: if_splits)

lemma poke_peek:
  "poke a off bs = Inr a' \<Longrightarrow> peek a' off (length bs) = Inr bs"
  by (auto simp: poke_def peek_def in_array_def split: if_splits)

lemma poke_ok: "in_array a off (length bs) \<Longrightarrow> poke a off bs = Inr (blit a (nat off) bs)"
  by (simp add: poke_def)

lemma poke_nat: "off + length bs \<le> length a \<Longrightarrow> poke a (int off) bs = Inr (blit a off bs)"
  by (simp add: poke_def in_array_def)

lemma peek_nat: "off + n \<le> length a \<Longrightarrow> peek a (int off) n = Inr (take n (drop off a))"
  by (simp add: peek_def in_array_def)

lemma peek_ok: "in_array a off n \<Longrightarrow> peek a off n = Inr (take n (drop (nat off) a))"
  by (simp add: peek_def)

text \<open>Arrays of blocks of equal length.\<close>

lemma concat_uniform:
  assumes "\<forall>x \<in> set xs. length x = m" and "k < length xs"
  shows "take m (drop (m * k) (concat xs)) = xs ! k"
    and "length d = m \<Longrightarrow> concat (xs[k := d]) = blit (concat xs) (m * k) d"
    and "length (concat xs) = m * length xs"
proof -
  have "take m (drop (m * k) (concat xs)) = xs ! k
    \<and> (length d = m \<longrightarrow> concat (xs[k := d]) = blit (concat xs) (m * k) d) \<and> length (concat xs) = m * length xs"
    using assms
  proof (induction xs arbitrary: k)
    case (Cons x xs)
    show ?case
    proof (cases k)
      case 0
      then show ?thesis using Cons by (cases xs) (auto simp: blit_def)
    next
      case (Suc j)
      with Cons have "j < length xs" and x: "length x = m" by simp_all
      with Cons.IH [of j] Cons.prems(1) Suc show ?thesis by (simp add: blit_def add.commute)
    qed
  qed simp
  then show "take m (drop (m * k) (concat xs)) = xs ! k"
    "length d = m \<Longrightarrow> concat (xs[k := d]) = blit (concat xs) (m * k) d"
    "length (concat xs) = m * length xs" by blast+
qed

section \<open>Alignment\<close>

lemma and3_mod: "((a :: u32) AND 3 = 0) \<longleftrightarrow> unat a mod 4 = 0"
proof -
  have "a AND 3 = a mod 4"
    using take_bit_eq_mask [of 2 a] by (simp add: mask_eq_exp_minus_1 take_bit_eq_mod)
  then have "unat (a AND 3) = unat a mod 4" by (simp only: unat_mod) simp
  then show ?thesis by (metis unat_eq_zero)
qed

lemma and1_mod: "((a :: u32) AND 1 = 0) \<longleftrightarrow> unat a mod 2 = 0"
proof -
  have "a AND 1 = a mod 2"
    using take_bit_eq_mask [of 1 a] by (simp add: mask_eq_exp_minus_1 take_bit_eq_mod)
  then have "unat (a AND 1) = unat a mod 2" by (simp only: unat_mod) simp
  then show ?thesis by (metis unat_eq_zero)
qed

lemma dvd4_mod: "(k :: nat) mod 4294967296 mod 4 = k mod 4"
  by (rule mod_mod_cancel) simp

lemma dvd2_mod: "(k :: nat) mod 4294967296 mod 2 = k mod 2"
  by (rule mod_mod_cancel) simp

lemma aligned_add: "(a :: u32) AND 3 = 0 \<Longrightarrow> b AND 3 = 0 \<Longrightarrow> (a + b) AND 3 = 0"
  unfolding and3_mod by (simp add: unat_word_ariths dvd4_mod) presburger

lemma aligned_mult: "(x * 8 :: u32) AND 3 = 0"
  unfolding and3_mod by (simp add: unat_word_ariths dvd4_mod)

end
