(* ===== verification/Cutils.thy ===== *)
theory Cutils
  imports Prelude
begin

text \<open>
  Model of \<open>src/src/cutils.h\<close> and \<open>src/src/cutils.c\<close>: little- and big-endian access to byte
  arrays, small integer helpers, bounded C strings and growable buffers.  The byte-order
  functions are instances of one interface, the locale \<open>codec\<close>, whose lemmas the device models
  use for every field they store in or load from guest or configuration memory.
\<close>

unbundle bit_operations_syntax

section \<open>Integer helpers\<close>

definition max_int :: "int \<Rightarrow> int \<Rightarrow> int" where
  "max_int a b = (if a > b then a else b)"

definition min_int :: "int \<Rightarrow> int \<Rightarrow> int" where
  "min_int a b = (if a < b then a else b)"

definition bswap_32 :: "u32 \<Rightarrow> u32" where
  "bswap_32 v = drop_bit 24 (v AND 0xff000000) OR drop_bit 8 (v AND 0x00ff0000)
     OR push_bit 8 (v AND 0x0000ff00) OR push_bit 24 (v AND 0x000000ff)"

text \<open>The host is little-endian (\<open>WORDS_BIGENDIAN\<close> is not defined).\<close>

definition cpu_to_be32 :: "u32 \<Rightarrow> u32" where
  "cpu_to_be32 v = bswap_32 v"

text \<open>The loop of \<open>ctz32\<close> from bit \<open>i\<close> on, with \<open>n\<close> bits left to try.\<close>

fun ctz32_loop :: "u32 \<Rightarrow> nat \<Rightarrow> nat \<Rightarrow> nat" where
  "ctz32_loop a i 0 = 32"
| "ctz32_loop a i (Suc n) = (if drop_bit i a AND 1 \<noteq> 0 then i else ctz32_loop a (Suc i) n)"

definition ctz32 :: "u32 \<Rightarrow> nat" where
  "ctz32 a = (if a = 0 then 32 else ctz32_loop a 0 32)"

text \<open>\<open>malloc\<close> does not fail in the model; \<open>mallocz\<close> zeroes what it returns.\<close>

definition mallocz :: "nat \<Rightarrow> bytes" where
  "mallocz n = replicate n 0"

section \<open>Byte order\<close>

text \<open>A pointer argument is the list of bytes from the pointer on.\<close>

definition get_le16 :: "bytes \<Rightarrow> u16" where
  "get_le16 p = ucast (p ! 0) OR push_bit 8 (ucast (p ! 1))"

definition get_le32 :: "bytes \<Rightarrow> u32" where
  "get_le32 p = ucast (p ! 0) OR push_bit 8 (ucast (p ! 1)) OR push_bit 16 (ucast (p ! 2))
     OR push_bit 24 (ucast (p ! 3))"

definition get_le64 :: "bytes \<Rightarrow> u64" where
  "get_le64 p = ucast (get_le32 p) OR push_bit 32 (ucast (get_le32 (drop 4 p)))"

definition put_le16 :: "u16 \<Rightarrow> bytes" where
  "put_le16 v = [ucast v, ucast (drop_bit 8 v)]"

definition put_le32 :: "u32 \<Rightarrow> bytes" where
  "put_le32 v = [ucast v, ucast (drop_bit 8 v), ucast (drop_bit 16 v), ucast (drop_bit 24 v)]"

definition put_le64 :: "u64 \<Rightarrow> bytes" where
  "put_le64 v = put_le32 (ucast v) @ put_le32 (ucast (drop_bit 32 v))"

definition get_be32 :: "bytes \<Rightarrow> u32" where
  "get_be32 d = push_bit 24 (ucast (d ! 0)) OR push_bit 16 (ucast (d ! 1))
     OR push_bit 8 (ucast (d ! 2)) OR ucast (d ! 3)"

definition put_be32 :: "u32 \<Rightarrow> bytes" where
  "put_be32 v = [ucast (drop_bit 24 v), ucast (drop_bit 16 v), ucast (drop_bit 8 v), ucast v]"

definition put_be64 :: "u64 \<Rightarrow> bytes" where
  "put_be64 v = put_be32 (ucast (drop_bit 32 v)) @ put_be32 (ucast v)"

text \<open>
  What a user of a byte-order pair relies on: a fixed width, and each direction undoing the
  other.
\<close>

locale codec =
  fixes enc :: "'w \<Rightarrow> bytes" and dec :: "bytes \<Rightarrow> 'w" and width :: nat
  assumes enc_length: "length (enc w) = width"
    and dec_enc: "dec (enc w @ rest) = w"
    and enc_dec: "width \<le> length bs \<Longrightarrow> enc (dec bs) = take width bs"
begin

lemma dec_take: "width \<le> length bs \<Longrightarrow> dec (take width bs) = dec bs"
  using dec_enc [of "dec bs" "[]"] by (simp add: enc_dec)

lemma enc_inject: "enc v = enc w \<longleftrightarrow> v = w"
  by (metis append_Nil2 dec_enc)

lemma dec_blit:
  assumes "off + width \<le> length a"
  shows "dec (drop off (blit a off (enc w))) = w"
  using assms enc_length dec_enc by (simp add: blit_def)

lemma poke_dec:
  assumes "poke a off (enc w) = Inr a'" and "0 < width"
  shows "dec (drop (nat off) a') = w"
  using assms enc_length [of w] dec_blit
  by (cases "enc w = []") (auto simp: poke_def in_array_def split: if_splits)

end

lemma list_len2: "2 \<le> length xs \<Longrightarrow> \<exists>a b r. xs = a # b # r"
  by (cases xs; cases "tl xs") auto

lemma list_len4: "4 \<le> length xs \<Longrightarrow> \<exists>a b c d r. xs = a # b # c # d # r"
  using list_len2 [of xs] list_len2 [of "drop 2 xs"] by fastforce

lemma u8_bit_high [simp]: "8 \<le> n \<Longrightarrow> \<not> bit (a :: u8) n"
  by (auto dest: bit_imp_le_length)

lemma u8_bit_low: "bit (a :: u8) n \<Longrightarrow> n < 8"
  using u8_bit_high not_less by blast

interpretation le16: codec put_le16 get_le16 2
proof
  fix w :: u16 and rest
  show "length (put_le16 w) = 2" by (simp add: put_le16_def)
  show "get_le16 (put_le16 w @ rest) = w"
    by (rule bit_word_eqI) (auto simp: put_le16_def get_le16_def bit_simps)
next
  fix bs :: bytes
  assume "2 \<le> length bs"
  then obtain a b r where "bs = a # b # r" using list_len2 by blast
  then show "put_le16 (get_le16 bs) = take 2 bs"
    by (auto simp: put_le16_def get_le16_def intro!: bit_word_eqI simp: bit_simps)
qed

interpretation le32: codec put_le32 get_le32 4
proof
  fix w :: u32 and rest
  show "length (put_le32 w) = 4" by (simp add: put_le32_def)
  show "get_le32 (put_le32 w @ rest) = w"
  proof (rule bit_word_eqI)
    fix n :: nat
    assume "n < LENGTH(32)"
    then show "bit (get_le32 (put_le32 w @ rest)) n = bit w n"
      by (cases "n < 8"; cases "n < 16"; cases "n < 24")
        (auto simp: put_le32_def get_le32_def bit_simps)
  qed
next
  fix bs :: bytes
  assume "4 \<le> length bs"
  then obtain a b c d r where "bs = a # b # c # d # r" using list_len4 by blast
  then show "put_le32 (get_le32 bs) = take 4 bs"
    by (auto simp: put_le32_def get_le32_def intro!: bit_word_eqI simp: bit_simps)
qed

interpretation be32: codec put_be32 get_be32 4
proof
  fix w :: u32 and rest
  show "length (put_be32 w) = 4" by (simp add: put_be32_def)
  show "get_be32 (put_be32 w @ rest) = w"
  proof (rule bit_word_eqI)
    fix n :: nat
    assume "n < LENGTH(32)"
    then show "bit (get_be32 (put_be32 w @ rest)) n = bit w n"
      by (cases "n < 8"; cases "n < 16"; cases "n < 24")
        (auto simp: put_be32_def get_be32_def bit_simps)
  qed
next
  fix bs :: bytes
  assume "4 \<le> length bs"
  then obtain a b c d r where "bs = a # b # c # d # r" using list_len4 by blast
  then show "put_be32 (get_be32 bs) = take 4 bs"
    by (auto simp: put_be32_def get_be32_def intro!: bit_word_eqI simp: bit_simps)
qed

lemma u64_halves: "ucast (ucast v :: u32) OR push_bit 32 (ucast (ucast (drop_bit 32 v) :: u32)) = (v :: u64)"
  by (rule bit_word_eqI) (auto simp: bit_simps)

lemma u64_low: "ucast (ucast (lo :: u32) OR push_bit 32 (ucast (hi :: u32)) :: u64) = lo"
  by (rule bit_word_eqI) (auto simp: bit_simps)

lemma u64_high: "ucast (drop_bit 32 (ucast (lo :: u32) OR push_bit 32 (ucast (hi :: u32)) :: u64)) = hi"
  by (rule bit_word_eqI) (auto simp: bit_simps dest: bit_imp_le_length)

interpretation le64: codec put_le64 get_le64 8
proof
  fix w :: u64 and rest
  show len: "length (put_le64 w) = 8" by (simp add: put_le64_def le32.enc_length)
  show "get_le64 (put_le64 w @ rest) = w"
    by (simp add: put_le64_def get_le64_def le32.dec_enc le32.enc_length u64_halves)
next
  fix bs :: bytes
  assume "8 \<le> length bs"
  moreover from this have "take 8 bs = take 4 bs @ take 4 (drop 4 bs)"
    using take_add [of 4 4 bs] by simp
  ultimately show "put_le64 (get_le64 bs) = take 8 bs"
    unfolding put_le64_def get_le64_def u64_low u64_high by (simp add: le32.enc_dec)
qed

section \<open>C strings\<close>

text \<open>
  A C string is the bytes before the first NUL.  Running off the end of the array that holds it
  is an access out of bounds.
\<close>

definition cstr :: "bytes \<Rightarrow> bytes" where
  "cstr p = takeWhile (\<lambda>c. c \<noteq> 0) p"

text \<open>The digits \<open>%u\<close> prints.\<close>

fun dec_digits :: "nat \<Rightarrow> bytes" where
  "dec_digits n = (if n < 10 then [of_nat (48 + n)] else dec_digits (n div 10) @ [of_nat (48 + n mod 10)])"

declare dec_digits.simps [simp del]

definition strlen :: "bytes \<Rightarrow> fault + nat" where
  "strlen p = (if 0 \<in> set p then Inr (length (cstr p)) else Inl OutOfBounds)"

text \<open>\<open>pstrcpy\<close>: the loop with the write position \<open>q\<close>; \<open>lim\<close> is \<open>buf_size - 1\<close>.\<close>

fun pstrcpy_loop :: "bytes \<Rightarrow> int \<Rightarrow> int \<Rightarrow> int \<Rightarrow> bytes \<Rightarrow> fault + bytes" where
  "pstrcpy_loop buf base q lim [] = Inl OutOfBounds"
| "pstrcpy_loop buf base q lim (c # str) =
     (if c = 0 \<or> q \<ge> lim then poke buf (base + q) [0]
      else case poke buf (base + q) [c] of
             Inl f \<Rightarrow> Inl f
           | Inr buf' \<Rightarrow> pstrcpy_loop buf' base (q + 1) lim str)"

definition pstrcpy :: "bytes \<Rightarrow> int \<Rightarrow> int \<Rightarrow> bytes \<Rightarrow> fault + bytes" where
  "pstrcpy buf base buf_size str =
     (if buf_size \<le> 0 then Inr buf else pstrcpy_loop buf base 0 (buf_size - 1) str)"

definition pstrcat :: "bytes \<Rightarrow> int \<Rightarrow> bytes \<Rightarrow> fault + bytes" where
  "pstrcat buf buf_size s =
     (case strlen buf of Inl f \<Rightarrow> Inl f
      | Inr len \<Rightarrow> (if int len < buf_size then pstrcpy buf (int len) (buf_size - int len) s
                    else Inr buf))"

text \<open>\<open>strstart\<close> returns the rest of \<open>str\<close> after the prefix \<open>val\<close>, \<open>None\<close> for the result 0.\<close>

fun strstart :: "bytes \<Rightarrow> bytes \<Rightarrow> fault + bytes option" where
  "strstart p [] = Inl OutOfBounds"
| "strstart p (q # qs) =
     (if q = 0 then Inr (Some p)
      else case p of [] \<Rightarrow> Inl OutOfBounds
           | c # p' \<Rightarrow> (if c \<noteq> q then Inr None else strstart p' qs))"

lemma cstr_Cons [simp]: "cstr (c # p) = (if c = 0 then [] else c # cstr p)"
  by (simp add: cstr_def)

lemma cstr_Nil [simp]: "cstr [] = []"
  by (simp add: cstr_def)

lemma pstrcpy_loop_result:
  assumes "0 \<in> set str" and "0 \<le> q" and "q \<le> lim" and "0 \<le> base"
    and "base + lim < int (length buf)"
  shows "pstrcpy_loop buf base q lim str =
    Inr (blit buf (nat (base + q)) (take (nat (lim - q)) (cstr str) @ [0]))"
  using assms
proof (induction str arbitrary: buf q)
  case Nil
  then show ?case by simp
next
  case (Cons c str)
  show ?case
  proof (cases "c = 0 \<or> q \<ge> lim")
    case True
    with Cons.prems show ?thesis by (auto simp: poke_def in_array_def)
  next
    case False
    define b where "b = blit buf (nat (base + q)) [c]"
    have p: "poke buf (base + q) [c] = Inr b"
      using Cons.prems False by (auto simp: poke_def in_array_def b_def)
    have "length b = length buf"
      using Cons.prems False by (simp add: b_def nat_less_iff Suc_le_eq)
    then have IH: "pstrcpy_loop b base (q + 1) lim str =
      Inr (blit b (nat (base + (q + 1))) (take (nat (lim - (q + 1))) (cstr str) @ [0]))"
      using Cons.prems False by (intro Cons.IH) auto
    have n: "nat (base + (q + 1)) = nat (base + q) + length [c]"
      and t: "nat (lim - q) = Suc (nat (lim - (q + 1)))"
      using Cons.prems False by auto
    have "nat (base + q) + 1 + (nat (lim - (q + 1)) + 1) \<le> length buf"
      using Cons.prems False by arith
    then have "nat (base + q) + length [c] + length (take (nat (lim - (q + 1))) (cstr str) @ [0])
      \<le> length buf"
      by simp
    from blit_blit_append [OF this] show ?thesis
      using False p IH unfolding n t b_def by simp
  qed
qed

lemma pstrcpy_result:
  assumes "0 \<in> set str" and "0 < buf_size" and "0 \<le> base"
    and "base + buf_size \<le> int (length buf)"
  shows "pstrcpy buf base buf_size str =
    Inr (blit buf (nat base) (take (nat (buf_size - 1)) (cstr str) @ [0]))"
  using assms by (simp add: pstrcpy_def pstrcpy_loop_result)

lemma cstr_split: "0 \<in> set p \<Longrightarrow> \<exists>r. p = cstr p @ 0 # r \<and> 0 \<notin> set (cstr p)"
  by (induction p) auto

lemma cstr_append: "0 \<notin> set xs \<Longrightarrow> cstr (xs @ ys) = xs @ cstr ys"
  by (induction xs) auto

lemma cstr_no_nul [simp]: "0 \<notin> set (cstr p)"
  by (induction p) auto

lemma cstr_take_no_nul: "0 \<notin> set (take n (cstr p))"
  by (metis cstr_no_nul in_set_takeD)

lemma cstr_blit:
  assumes "0 \<notin> set xs" and "0 \<notin> set (take off a)" and "off \<le> length a"
  shows "cstr (blit a off (xs @ [0])) = take off a @ xs"
  using assms by (simp add: blit_def cstr_append)

text \<open>
  \<open>pstrcat\<close> appends as much of the second string as fits into a buffer of \<open>buf_size\<close> bytes with
  its terminating null, and writes nowhere else.
\<close>

theorem pstrcat_result:
  assumes "0 \<in> set s" and "0 \<in> set buf" and "int (length (cstr buf)) < buf_size"
    and "buf_size \<le> int (length buf)"
  shows "\<exists>buf'. pstrcat buf buf_size s = Inr buf' \<and> length buf' = length buf
    \<and> cstr buf' = take (nat (buf_size - 1)) (cstr buf @ cstr s)"
proof -
  let ?n = "length (cstr buf)"
  let ?x = "take (nat (buf_size - int ?n - 1)) (cstr s)"
  have len: "?n + length (?x @ [0]) \<le> length buf"
    using assms(3,4) by simp
  have r: "pstrcat buf buf_size s = Inr (blit buf ?n (?x @ [0]))"
    using assms by (simp add: pstrcat_def strlen_def pstrcpy_result)
  obtain r where "buf = cstr buf @ 0 # r" using cstr_split assms(2) by blast
  then have "take ?n buf = cstr buf" by (metis append_eq_conv_conj)
  then have "cstr (blit buf ?n (?x @ [0])) = cstr buf @ ?x"
    using len by (subst cstr_blit) (auto simp: cstr_take_no_nul)
  moreover have "cstr buf @ ?x = take (nat (buf_size - 1)) (cstr buf @ cstr s)"
  proof -
    have "nat (buf_size - 1) - ?n = nat (buf_size - int ?n - 1)" and "?n \<le> nat (buf_size - 1)"
      using assms(3) by auto
    then show ?thesis by simp
  qed
  moreover have "length (blit buf ?n (?x @ [0])) = length buf"
    using len by (rule length_blit)
  ultimately show ?thesis using r by simp
qed

theorem pstrcat_result_witness:
  "\<exists>buf'. pstrcat [97, 98, 0, 0, 0] 5 [99, 100, 101, 0] = Inr buf' \<and> cstr buf' = [97, 98, 99, 100]"
  using pstrcat_result [of "[99, 100, 101, 0]" "[97, 98, 0, 0, 0]" 5] by auto

lemma strstart_iff:
  assumes "0 \<in> set str" and "0 \<in> set val"
  shows "\<exists>r. strstart str val = Inr r \<and> (r \<noteq> None) = (\<exists>rest. cstr str = cstr val @ rest)
    \<and> (\<forall>p. r = Some p \<longrightarrow> cstr str = cstr val @ cstr p)"
  using assms
proof (induction str val rule: strstart.induct)
  case (1 p)
  then show ?case by simp
next
  case (2 p q qs)
  show ?case
  proof (cases p)
    case Nil
    with 2 show ?thesis by simp
  next
    case (Cons c p')
    with 2 show ?thesis by (cases "q = 0"; cases "c = q") auto
  qed
qed

section \<open>Growable buffers\<close>

record dynbuf =
  dbuf :: bytes
  dsize :: u64
  allocated_size :: u64

definition dbuf_init :: dynbuf where
  "dbuf_init = \<lparr>dbuf = [], dsize = 0, allocated_size = 0\<rparr>"

text \<open>
  \<open>realloc\<close> keeps the common prefix; the bytes beyond it are whatever the allocator left there
  (\<open>fresh\<close>).  \<open>max_int\<close> truncates both sizes to \<open>int\<close>, as the call in \<open>dbuf_write\<close> does.
\<close>

definition realloc :: "(nat \<Rightarrow> u8) \<Rightarrow> bytes \<Rightarrow> nat \<Rightarrow> bytes" where
  "realloc fresh buf n = take n buf @ map fresh [length buf..<n]"

definition dbuf_reserve :: "(nat \<Rightarrow> u8) \<Rightarrow> dynbuf \<Rightarrow> u64 \<Rightarrow> dynbuf" where
  "dbuf_reserve fresh s new_size =
     (if new_size > allocated_size s then
        let new_size = word_of_int (max_int (int_of_u32 (ucast new_size))
                         (int_of_u32 (ucast (allocated_size s * 3 div 2)))) :: u64
        in s\<lparr>dbuf := realloc fresh (dbuf s) (unat new_size), allocated_size := new_size\<rparr>
      else s)"

definition dbuf_write :: "(nat \<Rightarrow> u8) \<Rightarrow> dynbuf \<Rightarrow> u64 \<Rightarrow> bytes \<Rightarrow> fault + dynbuf" where
  "dbuf_write fresh s offset data =
     (let end = offset + of_nat (length data);
          s1 = dbuf_reserve fresh s end
      in case poke (dbuf s1) (int (unat offset)) data of
           Inl f \<Rightarrow> Inl f
         | Inr b \<Rightarrow> Inr (s1\<lparr>dbuf := b, dsize := (if end > dsize s1 then end else dsize s1)\<rparr>))"

definition dbuf_putc :: "(nat \<Rightarrow> u8) \<Rightarrow> dynbuf \<Rightarrow> u8 \<Rightarrow> fault + dynbuf" where
  "dbuf_putc fresh s c = dbuf_write fresh s (dsize s) [c]"

definition dbuf_putstr :: "(nat \<Rightarrow> u8) \<Rightarrow> dynbuf \<Rightarrow> bytes \<Rightarrow> fault + dynbuf" where
  "dbuf_putstr fresh s str =
     (if 0 \<in> set str then dbuf_write fresh s (dsize s) (cstr str) else Inl OutOfBounds)"

definition dbuf_free :: "dynbuf \<Rightarrow> dynbuf" where
  "dbuf_free s = dbuf_init"

definition dbuf_inv :: "dynbuf \<Rightarrow> bool" where
  "dbuf_inv s \<longleftrightarrow> length (dbuf s) = unat (allocated_size s) \<and> unat (dsize s) \<le> unat (allocated_size s)"

definition dbuf_content :: "dynbuf \<Rightarrow> bytes" where
  "dbuf_content s = take (unat (dsize s)) (dbuf s)"

lemma length_realloc [simp]: "length (realloc fresh b n) = n"
  by (simp add: realloc_def)

lemma take_realloc: "m \<le> length b \<Longrightarrow> m \<le> n \<Longrightarrow> take m (realloc fresh b n) = take m b"
  by (simp add: realloc_def)

lemma unat_u64_add_small:
  "unat (a :: u64) + n < 18446744073709551616 \<Longrightarrow> unat (a + of_nat n) = unat a + n"
  by (simp add: unat_word_ariths unat_of_nat)

lemma max_int_nat: "max_int (int m) (int n) = int (max m n)"
  by (simp add: max_int_def max_def)

lemma grown_size:
  fixes a e :: u64
  assumes "unat e < 2147483648" and "unat a < 1431655765"
  shows "unat (word_of_int (max_int (int_of_u32 (ucast e)) (int_of_u32 (ucast (a * 3 div 2)))) :: u64)
    = max (unat e) (unat a * 3 div 2)"
proof -
  have e: "unat (ucast e :: u32) = unat e"
    using assms(1) by (simp add: unsigned_ucast_eq take_bit_nat_eq_self)
  have m: "unat (a * 3 div 2) = unat a * 3 div 2"
    using assms(2) by (simp add: unat_div unat_word_ariths)
  then have a: "unat (ucast (a * 3 div 2) :: u32) = unat a * 3 div 2"
    using assms(2) by (simp add: unsigned_ucast_eq take_bit_nat_eq_self)
  have "max_int (int_of_u32 (ucast e)) (int_of_u32 (ucast (a * 3 div 2)))
    = int (max (unat e) (unat a * 3 div 2))"
    using assms e a by (simp add: int_of_u32_small max_int_nat del: of_nat_unat of_nat_max)
  then show ?thesis using assms by (simp add: unat_of_nat max_def del: of_nat_max)
qed

text \<open>
  A write at the end of a growable buffer appends the data to its contents and keeps it well
  formed, however often the buffer has to grow, as long as the sizes stay within an \<open>int\<close>.
\<close>

theorem dbuf_append:
  assumes inv: "dbuf_inv s" and len: "unat (dsize s) + length data < 2147483648"
    and al: "unat (allocated_size s) < 1431655765"
  shows "\<exists>s'. dbuf_write fresh s (dsize s) data = Inr s' \<and> dbuf_inv s'
    \<and> dbuf_content s' = dbuf_content s @ data \<and> unat (dsize s') = unat (dsize s) + length data"
proof -
  define e :: u64 where "e = dsize s + of_nat (length data)"
  have ue: "unat e = unat (dsize s) + length data"
    using len by (simp add: e_def unat_u64_add_small)
  define s1 where "s1 = dbuf_reserve fresh s e"
  have grow: "unat (word_of_int (max_int (int_of_u32 (ucast e))
      (int_of_u32 (ucast (allocated_size s * 3 div 2)))) :: u64) = max (unat e) (unat (allocated_size s) * 3 div 2)"
    using len al ue by (intro grown_size) simp_all
  have l1: "length (dbuf s1) = unat (allocated_size s1)" and e1: "unat e \<le> unat (allocated_size s1)"
    and d1: "dsize s1 = dsize s"
    and t1: "take (unat (dsize s)) (dbuf s1) = take (unat (dsize s)) (dbuf s)"
    using inv ue grow
    by (auto simp: s1_def dbuf_reserve_def Let_def dbuf_inv_def word_less_nat_alt not_less
        intro!: take_realloc)
  have p: "poke (dbuf s1) (int (unat (dsize s))) data = Inr (blit (dbuf s1) (unat (dsize s)) data)"
    using l1 e1 ue by (intro poke_nat) simp
  have "(if e > dsize s1 then e else dsize s1) = e"
    using ue d1 by (auto simp: word_less_nat_alt word_unat_eq_iff not_less)
  with p have w: "dbuf_write fresh s (dsize s) data =
      Inr (s1\<lparr>dbuf := blit (dbuf s1) (unat (dsize s)) data, dsize := e\<rparr>)"
    by (simp only: dbuf_write_def e_def [symmetric] s1_def [symmetric] Let_def sum.case)
  have "take (unat e) (blit (dbuf s1) (unat (dsize s)) data) = take (unat (dsize s)) (dbuf s1) @ data"
    using l1 e1 ue by (simp add: blit_def)
  with w l1 e1 ue t1 show ?thesis
    by (simp add: dbuf_inv_def dbuf_content_def)
qed

theorem dbuf_append_witness:
  "\<exists>s'. dbuf_write (\<lambda>_. 0) dbuf_init 0 [1, 2, 3] = Inr s' \<and> dbuf_content s' = [1, 2, 3]"
  using dbuf_append [of dbuf_init "[1, 2, 3]" "\<lambda>_. 0"] by (auto simp: dbuf_init_def dbuf_inv_def dbuf_content_def)

end
