(* ===== verification/Fmem.thy ===== *)
theory Fmem
  imports Cutils
begin

text \<open>
  Model of \<open>src/src/fmem.h\<close>: access to the FPGA's memory through the \<open>fmem\<close> character device.
  The two \<open>ioctl\<close> requests are served by a kernel driver outside the repository, so they are
  parameters (\<open>fmem_ops\<close>) over an abstract device state; \<open>fmem_ram\<close> states what the code relies
  on, that the device is a byte-addressed little-endian memory.
\<close>

unbundle bit_operations_syntax

section \<open>The driver\<close>

text \<open>
  \<open>ioctl_read offset width\<close> returns the error code and the data word of the request,
  \<open>ioctl_write offset data width\<close> the error code.
\<close>

record 'm fmem_ops =
  ioctl_read :: "u32 \<Rightarrow> u32 \<Rightarrow> 'm \<Rightarrow> (int \<times> u32) \<times> 'm"
  ioctl_write :: "u32 \<Rightarrow> u32 \<Rightarrow> u32 \<Rightarrow> 'm \<Rightarrow> int \<times> 'm"

section \<open>Reads and writes\<close>

definition fmem_read :: "'m fmem_ops \<Rightarrow> u32 \<Rightarrow> u8 \<Rightarrow> 'm \<Rightarrow> u32 \<times> 'm" where
  "fmem_read ops offset width m =
     (let adr_mask = NOT 3;
          ((error, wide), m') = ioctl_read ops (offset AND adr_mask) 4 m;
          dat_mask = (if width = 2 then 0xFFFF else if width = 1 then 0xFF else - 1)
      in if error = 0
         then (drop_bit (unat (offset AND NOT adr_mask) * 8) wide AND dat_mask, m')
         else (0, m'))"

definition fmem_read8 :: "'m fmem_ops \<Rightarrow> u32 \<Rightarrow> 'm \<Rightarrow> u8 \<times> 'm" where
  "fmem_read8 ops offset m = map_prod ucast id (fmem_read ops offset 1 m)"

definition fmem_read16 :: "'m fmem_ops \<Rightarrow> u32 \<Rightarrow> 'm \<Rightarrow> u16 \<times> 'm" where
  "fmem_read16 ops offset m = map_prod ucast id (fmem_read ops offset 2 m)"

definition fmem_read32 :: "'m fmem_ops \<Rightarrow> u32 \<Rightarrow> 'm \<Rightarrow> u32 \<times> 'm" where
  "fmem_read32 ops offset m = fmem_read ops offset 4 m"

definition fmem_read64 :: "'m fmem_ops \<Rightarrow> u32 \<Rightarrow> 'm \<Rightarrow> u64 \<times> 'm" where
  "fmem_read64 ops offset m =
     (let (hi, m1) = fmem_read32 ops (offset + 4) m;
          (lo, m2) = fmem_read32 ops offset m1
      in (push_bit 32 (ucast hi) OR ucast lo, m2))"

text \<open>The result is the error code, converted to \<open>uint64_t\<close>.\<close>

definition fmem_write :: "'m fmem_ops \<Rightarrow> u32 \<Rightarrow> u32 \<Rightarrow> u8 \<Rightarrow> 'm \<Rightarrow> u64 \<times> 'm" where
  "fmem_write ops offset data width m =
     map_prod word_of_int id (ioctl_write ops offset data (ucast width) m)"

definition fmem_write8 :: "'m fmem_ops \<Rightarrow> u32 \<Rightarrow> u8 \<Rightarrow> 'm \<Rightarrow> u64 \<times> 'm" where
  "fmem_write8 ops offset data m = fmem_write ops offset (ucast data) 1 m"

definition fmem_write16 :: "'m fmem_ops \<Rightarrow> u32 \<Rightarrow> u16 \<Rightarrow> 'm \<Rightarrow> u64 \<times> 'm" where
  "fmem_write16 ops offset data m = fmem_write ops offset (ucast data) 2 m"

definition fmem_write32 :: "'m fmem_ops \<Rightarrow> u32 \<Rightarrow> u32 \<Rightarrow> 'm \<Rightarrow> u64 \<times> 'm" where
  "fmem_write32 ops offset data m = fmem_write ops offset data 4 m"

definition fmem_write64 :: "'m fmem_ops \<Rightarrow> u32 \<Rightarrow> u64 \<Rightarrow> 'm \<Rightarrow> u64 \<times> 'm" where
  "fmem_write64 ops offset data m =
     (let (e, m1) = fmem_write32 ops offset (ucast data) m;
          error = int_of_u32 (ucast e)
      in if error \<noteq> 0 then (word_of_int error, m1)
         else fmem_write32 ops (offset + 4) (ucast (drop_bit 32 data)) m1)"

section \<open>The device as a memory\<close>

type_synonym ram = "u32 \<Rightarrow> u8"

text \<open>\<open>store f a bs\<close>: the memory \<open>f\<close> with the bytes \<open>bs\<close> stored from address \<open>a\<close> on.\<close>

fun store :: "ram \<Rightarrow> u32 \<Rightarrow> bytes \<Rightarrow> ram" where
  "store f a [] = f"
| "store f a (b # bs) = store (f(a := b)) (a + 1) bs"

text \<open>
  What the code relies on of the driver: an aligned 32-bit read returns the four bytes at the
  address and changes nothing; a naturally aligned write of 1, 2 or 4 bytes stores the low bytes
  of the data, little-endian, and nothing else.  \<open>mem\<close> reads the bytes off the device state.
\<close>

definition fmem_ram :: "'m fmem_ops \<Rightarrow> ('m \<Rightarrow> ram) \<Rightarrow> bool" where
  "fmem_ram ops mem \<longleftrightarrow>
     (\<forall>a m. a AND 3 = 0 \<longrightarrow>
        ioctl_read ops a 4 m = ((0, get_le32 [mem m a, mem m (a + 1), mem m (a + 2), mem m (a + 3)]), m))
   \<and> (\<forall>a d m. fst (ioctl_write ops a d 1 m) = 0
        \<and> mem (snd (ioctl_write ops a d 1 m)) = store (mem m) a (take 1 (put_le32 d)))
   \<and> (\<forall>a d m. a AND 1 = 0 \<longrightarrow> fst (ioctl_write ops a d 2 m) = 0
        \<and> mem (snd (ioctl_write ops a d 2 m)) = store (mem m) a (take 2 (put_le32 d)))
   \<and> (\<forall>a d m. a AND 3 = 0 \<longrightarrow> fst (ioctl_write ops a d 4 m) = 0
        \<and> mem (snd (ioctl_write ops a d 4 m)) = store (mem m) a (put_le32 d))"

text \<open>A driver with that behaviour: the device state is the memory itself.\<close>

definition flat_ram :: "ram fmem_ops" where
  "flat_ram = \<lparr>ioctl_read = (\<lambda>a w m. ((0, get_le32 [m a, m (a + 1), m (a + 2), m (a + 3)]), m)),
               ioctl_write = (\<lambda>a d w m. (0, store m a (take (unat w) (put_le32 d))))\<rparr>"

lemma flat_ram: "fmem_ram flat_ram id"
  by (simp add: fmem_ram_def flat_ram_def put_le32_def)

lemma fmem_ram_read:
  "fmem_ram ops mem \<Longrightarrow> a AND 3 = 0 \<Longrightarrow>
     ioctl_read ops a 4 m = ((0, get_le32 [mem m a, mem m (a + 1), mem m (a + 2), mem m (a + 3)]), m)"
  by (simp add: fmem_ram_def)

lemma fmem_ram_write:
  assumes "fmem_ram ops mem"
  shows "mem (snd (ioctl_write ops a d 1 m)) = store (mem m) a (take 1 (put_le32 d))"
    and "a AND 1 = 0 \<Longrightarrow> mem (snd (ioctl_write ops a d 2 m)) = store (mem m) a (take 2 (put_le32 d))"
    and "a AND 3 = 0 \<Longrightarrow> mem (snd (ioctl_write ops a d 4 m)) = store (mem m) a (put_le32 d)"
  using assms by (simp_all add: fmem_ram_def)

subsection \<open>Alignment\<close>

lemma byte_mask: "(0xFF :: u32) = mask 8"
  by (simp add: mask_eq_exp_minus_1)

lemma half_mask: "(0xFFFF :: u32) = mask 16"
  by (simp add: mask_eq_exp_minus_1)

lemma and_not3: "((a :: u32) AND NOT 3) AND 3 = 0"
  by (simp add: and.assoc)

lemma split_low2: "(a AND NOT 3) + (a AND 3) = (a :: u32)"
proof -
  have "(a AND NOT 3) + (a AND 3) = (a AND NOT 3) OR (a AND 3)"
    by (rule disjunctive_add_eq_or) (simp add: and.assoc and.left_commute)
  also have "\<dots> = a" by (rule bit_word_eqI) (auto simp: bit_simps)
  finally show ?thesis .
qed

lemma low2_cases: "(a AND 3 = 0) \<or> (a AND 3 = 1) \<or> (a AND 3 = 2) \<or> (a AND 3 = (3 :: u32))"
proof -
  have "unat (a AND 3) \<le> unat (3 :: u32)"
    by (rule word_and_le1 [THEN word_le_nat_alt [THEN iffD1]])
  then have "unat (a AND 3) \<in> {0, 1, 2, 3}" by auto
  then show ?thesis by (auto simp: word_unat_eq_iff)
qed

lemma low1_low2: "a AND 1 = 0 \<Longrightarrow> (a AND 3 = 0) \<or> (a AND 3 = (2 :: u32))"
proof -
  assume h: "a AND 1 = 0"
  have "a AND 1 = (a AND 3) AND 1" by (simp add: and.assoc)
  with h low2_cases [of a] show ?thesis by auto
qed

text \<open>A read of any width looks at the aligned word around its address.\<close>

lemma fmem_read_word:
  assumes "fmem_ram ops mem"
  shows "fmem_read ops a w m =
    (drop_bit (unat (a AND 3) * 8) (get_le32 (map (\<lambda>i. mem m ((a AND NOT 3) + i)) [0, 1, 2, 3]))
       AND (if w = 2 then 0xFFFF else if w = 1 then 0xFF else - 1), m)"
proof -
  let ?b = "a AND NOT 3"
  have "ioctl_read ops ?b 4 m =
      ((0, get_le32 [mem m ?b, mem m (?b + 1), mem m (?b + 2), mem m (?b + 3)]), m)"
    by (rule fmem_ram_read [OF assms and_not3])
  then show ?thesis by (simp add: fmem_read_def)
qed

lemma fmem_read8_ram:
  assumes "fmem_ram ops mem"
  shows "fmem_read8 ops a m = (mem m a, m)"
proof -
  let ?b = "a AND NOT 3"
  have pick: "ucast (drop_bit (unat k * 8) (get_le32 (map f [0, 1, 2, 3])) AND 0xFF) = f k"
    if "k = 0 \<or> k = 1 \<or> k = 2 \<or> k = (3 :: u32)" for k and f :: "u32 \<Rightarrow> u8"
    unfolding byte_mask using that
    by (elim disjE) (auto simp: get_le32_def bit_simps intro!: bit_word_eqI)
  have "fmem_read8 ops a m = (mem m (?b + (a AND 3)), m)"
    unfolding fmem_read8_def fmem_read_word [OF assms] using pick [OF low2_cases, of a "\<lambda>i. mem m (?b + i)"] by simp
  then show ?thesis by (simp only: split_low2)
qed

lemma fmem_read16_ram:
  assumes "fmem_ram ops mem" and "a AND 1 = 0"
  shows "fmem_read16 ops a m = (get_le16 [mem m a, mem m (a + 1)], m)"
proof -
  let ?b = "a AND NOT 3"
  have pick: "ucast (drop_bit (unat k * 8) (get_le32 (map f [0, 1, 2, 3])) AND 0xFFFF) = get_le16 [f k, f (k + 1)]"
    if "k = 0 \<or> k = (2 :: u32)" for k and f :: "u32 \<Rightarrow> u8"
    unfolding half_mask using that
    by (elim disjE) (auto simp: get_le16_def get_le32_def bit_simps intro!: bit_word_eqI)
  have "fmem_read16 ops a m = (get_le16 [mem m (?b + (a AND 3)), mem m (?b + ((a AND 3) + 1))], m)"
    unfolding fmem_read16_def fmem_read_word [OF assms(1)]
    using pick [OF low1_low2 [OF assms(2)], of "\<lambda>i. mem m (?b + i)"] by simp
  then show ?thesis by (simp only: split_low2 add.assoc [symmetric])
qed

lemma fmem_read32_ram:
  assumes "fmem_ram ops mem" and "a AND 3 = 0"
  shows "fmem_read32 ops a m = (get_le32 [mem m a, mem m (a + 1), mem m (a + 2), mem m (a + 3)], m)"
  using split_low2 [of a] assms
  by (simp add: fmem_read32_def fmem_read_def fmem_ram_read [OF assms])

lemma take1_put_le32: "take 1 (put_le32 (ucast (b :: u8))) = [b]"
  by (simp add: put_le32_def, rule bit_word_eqI, simp add: bit_simps)

lemma fmem_write8_ram:
  assumes "fmem_ram ops mem"
  shows "mem (snd (fmem_write8 ops a b m)) = store (mem m) a [b]"
  using fmem_ram_write(1) [OF assms, of a "ucast b" m]
  unfolding take1_put_le32 by (simp add: fmem_write8_def fmem_write_def)

lemma take2_put_le32: "take 2 (put_le32 (ucast (w :: u16))) = put_le16 w"
  by (auto simp: put_le32_def put_le16_def bit_simps intro!: bit_word_eqI)

lemma fmem_write16_ram:
  "fmem_ram ops mem \<Longrightarrow> a AND 1 = 0 \<Longrightarrow> mem (snd (fmem_write16 ops a w m)) = store (mem m) a (put_le16 w)"
  by (simp add: fmem_write16_def fmem_write_def fmem_ram_write take2_put_le32)

lemma fmem_write32_ram:
  "fmem_ram ops mem \<Longrightarrow> a AND 3 = 0 \<Longrightarrow> mem (snd (fmem_write32 ops a w m)) = store (mem m) a (put_le32 w)"
  by (simp add: fmem_write32_def fmem_write_def fmem_ram_write)

text \<open>
  A 16-bit read whose address is the last byte of a 32-bit word misses its upper byte: the code
  reads one aligned word only.
\<close>

lemma fmem_read16_misaligned:
  assumes "fmem_ram ops mem" and "a AND 3 = 3"
  shows "fmem_read16 ops a m = (ucast (mem m a), m)"
proof -
  let ?b = "a AND NOT 3"
  have pick: "ucast (drop_bit (unat (3 :: u32) * 8) (get_le32 (map f [0, 1, 2, 3])) AND 0xFFFF) = (ucast (f 3) :: u16)"
    for f :: "u32 \<Rightarrow> u8"
    unfolding half_mask
    by (auto simp: get_le32_def bit_simps dest: u8_bit_low intro!: bit_word_eqI)
  have "fmem_read16 ops a m = (ucast (mem m (?b + (a AND 3))), m)"
    unfolding fmem_read16_def fmem_read_word [OF assms(1)] assms(2)
    using pick [of "\<lambda>i. mem m (?b + i)"] by simp
  then show ?thesis by (simp only: split_low2)
qed

subsection \<open>Stored bytes\<close>

lemma store_append: "store f a (xs @ ys) = store (store f a xs) (a + of_nat (length xs)) ys"
  by (induction xs arbitrary: f a) (simp_all add: add.assoc)

lemma store_other:
  "(\<And>i. i < length bs \<Longrightarrow> x \<noteq> a + of_nat i) \<Longrightarrow> store f a bs x = f x"
proof (induction bs arbitrary: f a)
  case Nil
  then show ?case by simp
next
  case (Cons b bs)
  have "x \<noteq> a" using Cons.prems [of 0] by simp
  moreover have "store (f(a := b)) (a + 1) bs x = (f(a := b)) x"
    using Cons.prems [of "Suc i" for i] by (intro Cons.IH) (auto simp: add.assoc)
  ultimately show ?case by simp
qed

lemma store_here:
  "i < length bs \<Longrightarrow> length bs \<le> 4294967296 \<Longrightarrow> store f a bs (a + of_nat i) = bs ! i"
proof (induction bs arbitrary: f a i)
  case Nil
  then show ?case by simp
next
  case (Cons b bs)
  show ?case
  proof (cases i)
    case 0
    have "a \<noteq> a + 1 + of_nat j" if "j < length bs" for j
    proof
      assume "a = a + 1 + of_nat j"
      then have "(of_nat (Suc j) :: u32) = 0" by (simp add: add.assoc)
      then have "4294967296 dvd Suc j" by (simp only: word_of_nat_eq_0_iff) simp
      then show False using that Cons.prems by (auto dest: dvd_imp_le)
    qed
    then have "store (f(a := b)) (a + 1) bs a = b" by (subst store_other) auto
    then show ?thesis using 0 by simp
  next
    case (Suc j)
    then have "store (f(a := b)) (a + 1) bs ((a + 1) + of_nat j) = bs ! j"
      using Cons.prems by (intro Cons.IH) auto
    then show ?thesis using Suc by (simp add: add.assoc)
  qed
qed

end
