(* ===== verification/Virtio_Core.thy ===== *)
theory Virtio_Core
  imports Fmem
begin

text \<open>
  Model of the transport-independent core of \<open>src/src/virtio.c\<close>: the device state, DMA access to
  guest memory, descriptor chains, the used ring and queue notification.  A device with state of
  its own extends the record \<open>virtio_device\<close>, as the C structs embed \<open>VIRTIODevice common\<close> as
  their first member.  Debug output is left out.
\<close>

unbundle bit_operations_syntax

section \<open>State\<close>

abbreviation MAX_QUEUE :: nat where "MAX_QUEUE \<equiv> 8"
abbreviation MAX_CONFIG_SPACE_SIZE :: nat where "MAX_CONFIG_SPACE_SIZE \<equiv> 256"
abbreviation MAX_QUEUE_NUM :: u32 where "MAX_QUEUE_NUM \<equiv> 16"

record queue_state =
  ready :: u32
  num :: u32
  avail_idx :: u16
  last_avail_idx :: u16
  desc_addr :: u64
  avail_addr :: u64
  used_addr :: u64
  manual_recv :: bool

abbreviation VRING_DESC_F_NEXT :: u16 where "VRING_DESC_F_NEXT \<equiv> 1"
abbreviation VRING_DESC_F_WRITE :: u16 where "VRING_DESC_F_WRITE \<equiv> 2"
abbreviation VRING_DESC_F_INDIRECT :: u16 where "VRING_DESC_F_INDIRECT \<equiv> 4"

record virtio_desc =
  daddr :: u64
  dlen :: u32
  dflags :: u16
  dnext :: u16

text \<open>
  \<open>virtio_dma_fd\<close> and \<open>pending_notify\<close> are file-scope variables of the source, carried along with
  the device whose code runs.  \<open>dma\<close> is the state of the device behind \<open>virtio_dma_fd\<close>; \<open>irq\<close> is the level of the last
  \<open>set_irq\<close> call on the device's interrupt line.  The function pointers \<open>device_recv\<close> and
  \<open>config_write\<close> of the C struct are arguments of the operations that call them.
\<close>

record 'm virtio_device =
  dma :: 'm
  virtio_dma_fd :: int
  pending_notify :: u8
  irq :: int
  int_status :: u32
  status :: u32
  device_features_sel :: u32
  queue_sel :: u32
  queue :: "queue_state list"
  device_id :: u32
  vendor_id :: u32
  device_features :: u32
  config_space_size :: u32
  config_space :: bytes
  pending_queue_notify :: u32

type_synonym ('m, 'z, 'a) dev_vm = "(('m, 'z) virtio_device_scheme, 'a) vm"

text \<open>\<open>device_recv\<close>: queue, first descriptor, bytes the guest offers to read and to write.\<close>

type_synonym ('m, 'z) device_recv = "nat \<Rightarrow> u16 \<Rightarrow> int \<Rightarrow> int \<Rightarrow> ('m, 'z, int) dev_vm"

definition get_queue :: "nat \<Rightarrow> ('m, 'z, queue_state) dev_vm" where
  "get_queue i = (\<lambda>s. if i < length (queue s) then Some (Inr (queue s ! i, s)) else Some (Inl OutOfBounds))"

definition set_queue :: "nat \<Rightarrow> (queue_state \<Rightarrow> queue_state) \<Rightarrow> ('m, 'z, unit) dev_vm" where
  "set_queue i f = (\<lambda>s. if i < length (queue s)
     then Some (Inr ((), s\<lparr>queue := (queue s)[i := f (queue s ! i)]\<rparr>)) else Some (Inl OutOfBounds))"

definition set_irq :: "int \<Rightarrow> ('m, 'z, unit) dev_vm" where
  "set_irq level = modify (\<lambda>s. s\<lparr>irq := level\<rparr>)"

text \<open>Setting a bit of the interrupt status and raising the line.\<close>

definition raise_int :: "u32 \<Rightarrow> ('m, 'z, unit) dev_vm" where
  "raise_int bits = andthen (modify (\<lambda>s. s\<lparr>int_status := int_status s OR bits\<rparr>)) (set_irq 1)"

text \<open>\<open>avail_idx\<close> and \<open>manual_recv\<close> are not reset.\<close>

definition reset_queue :: "queue_state \<Rightarrow> queue_state" where
  "reset_queue qs = qs\<lparr>ready := 0, num := MAX_QUEUE_NUM, desc_addr := 0, avail_addr := 0,
     used_addr := 0, last_avail_idx := 0\<rparr>"

definition virtio_reset :: "('m, 'z) virtio_device_scheme \<Rightarrow> ('m, 'z) virtio_device_scheme" where
  "virtio_reset s = s\<lparr>status := 0, queue_sel := 0, device_features_sel := 0, int_status := 0,
     queue := map reset_queue (queue s)\<rparr>"

text \<open>
  What \<open>virtio_init\<close> does to the device itself: everything is cleared, then identified and reset.
  The interrupt line of a new device is low.
\<close>

definition zero_queue :: queue_state where
  "zero_queue = \<lparr>ready = 0, num = 0, avail_idx = 0, last_avail_idx = 0, desc_addr = 0, avail_addr = 0,
     used_addr = 0, manual_recv = False\<rparr>"

definition virtio_init_dev ::
  "u32 \<Rightarrow> u32 \<Rightarrow> ('m, 'z) virtio_device_scheme \<Rightarrow> ('m, 'z) virtio_device_scheme" where
  "virtio_init_dev dev_id csize s = virtio_reset (s\<lparr>irq := 0, int_status := 0, status := 0,
     device_features_sel := 0, queue_sel := 0, queue := replicate MAX_QUEUE zero_queue,
     device_id := dev_id, vendor_id := 0xffff, device_features := 0, config_space_size := csize,
     config_space := replicate MAX_CONFIG_SPACE_SIZE 0, pending_queue_notify := 0\<rparr>)"

section \<open>Guest memory\<close>

abbreviation FMEM_HOST_CACHED_MEM_BASE :: u64 where "FMEM_HOST_CACHED_MEM_BASE \<equiv> 0xc0000000"

definition virtio_dma_init :: "int \<Rightarrow> ('m, 'z) virtio_device_scheme \<Rightarrow> ('m, 'z) virtio_device_scheme" where
  "virtio_dma_init dma_fd s = s\<lparr>virtio_dma_fd := dma_fd\<rparr>"

text \<open>The \<open>fmem\<close> functions take a 32-bit offset: the upper half of an address is dropped.\<close>

definition dma_offset :: "u64 \<Rightarrow> u32" where
  "dma_offset addr = ucast (addr - FMEM_HOST_CACHED_MEM_BASE)"

definition with_dma :: "('m \<Rightarrow> 'a \<times> 'm) \<Rightarrow> ('m, 'z, 'a) dev_vm" where
  "with_dma f = (\<lambda>s. if virtio_dma_fd s > 0
     then (case f (dma s) of (a, m) \<Rightarrow> Some (Inr (a, s\<lparr>dma := m\<rparr>))) else Some (Inl Abort))"

definition virtio_read16 :: "'m fmem_ops \<Rightarrow> u64 \<Rightarrow> ('m, 'z, u16) dev_vm" where
  "virtio_read16 ops addr = with_dma (fmem_read16 ops (dma_offset addr))"

definition virtio_write16 :: "'m fmem_ops \<Rightarrow> u64 \<Rightarrow> u16 \<Rightarrow> ('m, 'z, unit) dev_vm" where
  "virtio_write16 ops addr val = with_dma (\<lambda>m. ((), snd (fmem_write16 ops (dma_offset addr) val m)))"

definition virtio_write32 :: "'m fmem_ops \<Rightarrow> u64 \<Rightarrow> u32 \<Rightarrow> ('m, 'z, unit) dev_vm" where
  "virtio_write32 ops addr val = with_dma (\<lambda>m. ((), snd (fmem_write32 ops (dma_offset addr) val m)))"

text \<open>The byte loops of \<open>virtio_memcpy_from_ram\<close> and \<open>virtio_memcpy_to_ram\<close>.\<close>

fun fmem_read_bytes :: "'m fmem_ops \<Rightarrow> u64 \<Rightarrow> nat \<Rightarrow> 'm \<Rightarrow> bytes \<times> 'm" where
  "fmem_read_bytes ops addr 0 m = ([], m)"
| "fmem_read_bytes ops addr (Suc n) m =
     (let (b, m1) = fmem_read8 ops (dma_offset addr) m;
          (bs, m2) = fmem_read_bytes ops (addr + 1) n m1
      in (b # bs, m2))"

fun fmem_write_bytes :: "'m fmem_ops \<Rightarrow> u64 \<Rightarrow> bytes \<Rightarrow> 'm \<Rightarrow> 'm" where
  "fmem_write_bytes ops addr [] m = m"
| "fmem_write_bytes ops addr (b # bs) m =
     fmem_write_bytes ops (addr + 1) bs (snd (fmem_write8 ops (dma_offset addr) b m))"

definition virtio_memcpy_from_ram :: "'m fmem_ops \<Rightarrow> u64 \<Rightarrow> int \<Rightarrow> ('m, 'z, bytes) dev_vm" where
  "virtio_memcpy_from_ram ops addr count = with_dma (fmem_read_bytes ops addr (nat count))"

definition virtio_memcpy_to_ram :: "'m fmem_ops \<Rightarrow> u64 \<Rightarrow> bytes \<Rightarrow> ('m, 'z, unit) dev_vm" where
  "virtio_memcpy_to_ram ops addr bs = with_dma (\<lambda>m. ((), fmem_write_bytes ops addr bs m))"

section \<open>Descriptor chains\<close>

text \<open>The struct read by \<open>get_desc\<close>, on a little-endian host.\<close>

definition decode_desc :: "bytes \<Rightarrow> virtio_desc" where
  "decode_desc bs = \<lparr>daddr = get_le64 bs, dlen = get_le32 (drop 8 bs),
     dflags = get_le16 (drop 12 bs), dnext = get_le16 (drop 14 bs)\<rparr>"

definition get_desc :: "'m fmem_ops \<Rightarrow> nat \<Rightarrow> u16 \<Rightarrow> ('m, 'z, virtio_desc) dev_vm" where
  "get_desc ops queue_idx desc_idx =
     bnd (get_queue queue_idx) (\<lambda>qs.
     bnd (virtio_memcpy_from_ram ops (desc_addr qs + ucast desc_idx * 16) 16) (\<lambda>bs.
     ret (decode_desc bs)))"

definition is_write :: "virtio_desc \<Rightarrow> bool" where
  "is_write d \<longleftrightarrow> dflags d AND VRING_DESC_F_WRITE \<noteq> 0"

definition has_next :: "virtio_desc \<Rightarrow> bool" where
  "has_next d \<longleftrightarrow> dflags d AND VRING_DESC_F_NEXT \<noteq> 0"

subsection \<open>Copying\<close>

text \<open>
  The three loops of \<open>memcpy_to_from_queue\<close>: find the first write descriptor, find the
  descriptor at an offset, copy.  \<open>None\<close> as a result stands for the early return of -1.  A chain
  that never ends makes them run forever.
\<close>

definition find_write_body ::
  "'m fmem_ops \<Rightarrow> nat \<Rightarrow> virtio_desc \<Rightarrow> ('m, 'z, (virtio_desc, virtio_desc option) step) dev_vm" where
  "find_write_body ops queue_idx desc =
     (if is_write desc then ret (Done (Some desc))
      else if \<not> has_next desc then ret (Done None)
      else bnd (get_desc ops queue_idx (dnext desc)) (\<lambda>desc'. ret (Again desc')))"

definition find_write_desc ::
  "'m fmem_ops \<Rightarrow> nat \<Rightarrow> virtio_desc \<Rightarrow> ('m, 'z, virtio_desc option) dev_vm" where
  "find_write_desc ops queue_idx = loop (find_write_body ops queue_idx)"

definition find_offset_body ::
  "'m fmem_ops \<Rightarrow> bool \<Rightarrow> nat \<Rightarrow> virtio_desc \<times> int \<Rightarrow>
   ('m, 'z, (virtio_desc \<times> int, (virtio_desc \<times> int) option) step) dev_vm" where
  "find_offset_body ops to_queue queue_idx = (\<lambda>(desc, offset).
     if is_write desc \<noteq> to_queue then ret (Done None)
     else if u32_of_int offset < dlen desc then ret (Done (Some (desc, offset)))
     else if \<not> has_next desc then ret (Done None)
     else bnd (get_desc ops queue_idx (dnext desc)) (\<lambda>desc'.
       ret (Again (desc', int_of_u32 (u32_of_int offset - dlen desc)))))"

definition find_offset_desc ::
  "'m fmem_ops \<Rightarrow> bool \<Rightarrow> nat \<Rightarrow> virtio_desc \<Rightarrow> int \<Rightarrow> ('m, 'z, (virtio_desc \<times> int) option) dev_vm" where
  "find_offset_desc ops to_queue queue_idx desc offset =
     loop (find_offset_body ops to_queue queue_idx) (desc, offset)"

definition copy_segment ::
  "'m fmem_ops \<Rightarrow> bool \<Rightarrow> u64 \<Rightarrow> int \<Rightarrow> bytes \<Rightarrow> int \<Rightarrow> ('m, 'z, bytes) dev_vm" where
  "copy_segment ops to_queue addr l buf pos =
     (if to_queue
      then bnd (lift (peek buf pos (nat l))) (\<lambda>bs. andthen (virtio_memcpy_to_ram ops addr bs) (ret buf))
      else bnd (virtio_memcpy_from_ram ops addr l) (\<lambda>bs. lift (poke buf pos bs)))"

text \<open>\<open>pos\<close> is how far \<open>buf\<close> has been advanced; the result is the return value and the buffer.\<close>

definition copy_body ::
  "'m fmem_ops \<Rightarrow> bool \<Rightarrow> nat \<Rightarrow> virtio_desc \<times> int \<times> int \<times> bytes \<times> int \<Rightarrow>
   ('m, 'z, (virtio_desc \<times> int \<times> int \<times> bytes \<times> int, int \<times> bytes) step) dev_vm" where
  "copy_body ops to_queue queue_idx = (\<lambda>(desc, offset, count, buf, pos).
     let l = min_int count (int_of_u32 (dlen desc - u32_of_int offset)) in
     bnd (copy_segment ops to_queue (daddr desc + word_of_int offset) l buf pos) (\<lambda>buf'.
     bnd (cint (count - l)) (\<lambda>count'.
     if count' = 0 then ret (Done (0, buf'))
     else bnd (cint (offset + l)) (\<lambda>offset'.
       if u32_of_int offset' = dlen desc then
         if \<not> has_next desc then ret (Done (- 1, buf'))
         else bnd (get_desc ops queue_idx (dnext desc)) (\<lambda>desc'.
           if is_write desc' \<noteq> to_queue then ret (Done (- 1, buf'))
           else ret (Again (desc', 0, count', buf', pos + l)))
       else ret (Again (desc, offset', count', buf', pos + l))))))"

definition copy_queue ::
  "'m fmem_ops \<Rightarrow> bool \<Rightarrow> nat \<Rightarrow> virtio_desc \<Rightarrow> int \<Rightarrow> int \<Rightarrow> bytes \<Rightarrow> int \<Rightarrow> ('m, 'z, int \<times> bytes) dev_vm" where
  "copy_queue ops to_queue queue_idx desc offset count buf pos =
     loop (copy_body ops to_queue queue_idx) (desc, offset, count, buf, pos)"

definition memcpy_to_from_queue ::
  "'m fmem_ops \<Rightarrow> bytes \<Rightarrow> nat \<Rightarrow> u16 \<Rightarrow> int \<Rightarrow> int \<Rightarrow> bool \<Rightarrow> ('m, 'z, int \<times> bytes) dev_vm" where
  "memcpy_to_from_queue ops buf queue_idx desc_idx offset count to_queue =
     (if count = 0 then ret (0, buf)
      else bnd (get_desc ops queue_idx desc_idx) (\<lambda>desc.
      bnd (if to_queue then find_write_desc ops queue_idx desc else ret (Some desc)) (\<lambda>r.
      case r of None \<Rightarrow> ret (- 1, buf)
      | Some desc \<Rightarrow>
          bnd (find_offset_desc ops to_queue queue_idx desc offset) (\<lambda>r.
          case r of None \<Rightarrow> ret (- 1, buf)
          | Some (desc, offset) \<Rightarrow> copy_queue ops to_queue queue_idx desc offset count buf 0))))"

definition memcpy_from_queue ::
  "'m fmem_ops \<Rightarrow> bytes \<Rightarrow> nat \<Rightarrow> u16 \<Rightarrow> int \<Rightarrow> int \<Rightarrow> ('m, 'z, int \<times> bytes) dev_vm" where
  "memcpy_from_queue ops buf queue_idx desc_idx offset count =
     memcpy_to_from_queue ops buf queue_idx desc_idx offset count False"

definition memcpy_to_queue ::
  "'m fmem_ops \<Rightarrow> nat \<Rightarrow> u16 \<Rightarrow> int \<Rightarrow> bytes \<Rightarrow> int \<Rightarrow> ('m, 'z, int) dev_vm" where
  "memcpy_to_queue ops queue_idx desc_idx offset buf count =
     bnd (memcpy_to_from_queue ops buf queue_idx desc_idx offset count True) (\<lambda>r. ret (fst r))"

subsection \<open>The used ring\<close>

definition virtio_consume_desc :: "'m fmem_ops \<Rightarrow> nat \<Rightarrow> u16 \<Rightarrow> int \<Rightarrow> ('m, 'z, unit) dev_vm" where
  "virtio_consume_desc ops queue_idx desc_idx desc_len =
     bnd (get_queue queue_idx) (\<lambda>qs.
     let used_idx_addr = used_addr qs + 2 in
     bnd (virtio_read16 ops used_idx_addr) (\<lambda>idx.
     let used_idx = ucast idx :: u32;
         used_elem_addr = used_addr qs + 4 + ucast ((used_idx AND (num qs - 1)) * 8) in
     andthen (virtio_write32 ops used_elem_addr (ucast desc_idx))
     (andthen (virtio_write32 ops (used_elem_addr + 4) (u32_of_int desc_len))
     (andthen (virtio_write16 ops used_idx_addr (ucast (used_idx + 1)))
     (raise_int 1)))))"

subsection \<open>Sizes\<close>

text \<open>
  The two loops of \<open>get_desc_rw_size\<close>.  The sizes are \<open>int\<close>s to which unsigned lengths are
  added, so they wrap.  \<open>None\<close> in the result of the first loop is the jump to \<open>done\<close>; as the
  result of the second and of \<open>get_desc_rw_size\<close> it is the return value -1.
\<close>

definition rw_size_read_body ::
  "'m fmem_ops \<Rightarrow> nat \<Rightarrow> virtio_desc \<times> u32 \<Rightarrow>
   ('m, 'z, (virtio_desc \<times> u32, u32 \<times> virtio_desc option) step) dev_vm" where
  "rw_size_read_body ops queue_idx = (\<lambda>(desc, read_size).
     if is_write desc then ret (Done (read_size, Some desc))
     else if \<not> has_next desc then ret (Done (read_size + dlen desc, None))
     else bnd (get_desc ops queue_idx (dnext desc)) (\<lambda>desc'.
       ret (Again (desc', read_size + dlen desc))))"

definition rw_size_write_body ::
  "'m fmem_ops \<Rightarrow> nat \<Rightarrow> virtio_desc \<times> u32 \<Rightarrow> ('m, 'z, (virtio_desc \<times> u32, u32 option) step) dev_vm" where
  "rw_size_write_body ops queue_idx = (\<lambda>(desc, write_size).
     if \<not> is_write desc then ret (Done None)
     else if \<not> has_next desc then ret (Done (Some (write_size + dlen desc)))
     else bnd (get_desc ops queue_idx (dnext desc)) (\<lambda>desc'.
       ret (Again (desc', write_size + dlen desc))))"

definition get_desc_rw_size :: "'m fmem_ops \<Rightarrow> nat \<Rightarrow> u16 \<Rightarrow> ('m, 'z, (int \<times> int) option) dev_vm" where
  "get_desc_rw_size ops queue_idx desc_idx =
     bnd (get_desc ops queue_idx desc_idx) (\<lambda>desc.
     bnd (loop (rw_size_read_body ops queue_idx) (desc, 0)) (\<lambda>(read_size, r).
     case r of None \<Rightarrow> ret (Some (int_of_u32 read_size, 0))
     | Some desc \<Rightarrow>
         bnd (loop (rw_size_write_body ops queue_idx) (desc, 0)) (\<lambda>r.
         ret (map_option (\<lambda>write_size. (int_of_u32 read_size, int_of_u32 write_size)) r))))"

section \<open>Notification\<close>

text \<open>The address of the next entry of the available ring.\<close>

definition avail_entry_addr :: "queue_state \<Rightarrow> u64" where
  "avail_entry_addr qs = avail_addr qs + 4 + ucast ((ucast (last_avail_idx qs) AND (num qs - 1)) * 2)"

definition advance_avail :: "nat \<Rightarrow> ('m, 'z, unit) dev_vm" where
  "advance_avail queue_idx = set_queue queue_idx (\<lambda>qs. qs\<lparr>last_avail_idx := last_avail_idx qs + 1\<rparr>)"

definition notify_body ::
  "'m fmem_ops \<Rightarrow> ('m, 'z) device_recv \<Rightarrow> nat \<Rightarrow> u16 \<Rightarrow> unit \<Rightarrow> ('m, 'z, (unit, unit) step) dev_vm" where
  "notify_body ops device_recv queue_idx avail = (\<lambda>_.
     bnd (get_queue queue_idx) (\<lambda>qs.
     if last_avail_idx qs = avail then ret (Done ())
     else bnd (virtio_read16 ops (avail_entry_addr qs)) (\<lambda>desc_idx.
       bnd (get_desc_rw_size ops queue_idx desc_idx) (\<lambda>sizes.
       bnd (case sizes of None \<Rightarrow> ret 0
            | Some (read_size, write_size) \<Rightarrow> device_recv queue_idx desc_idx read_size write_size) (\<lambda>r.
       if r < 0 then ret (Done ())
       else andthen (advance_avail queue_idx) (ret (Again ())))))))"

definition queue_notify :: "'m fmem_ops \<Rightarrow> ('m, 'z) device_recv \<Rightarrow> nat \<Rightarrow> ('m, 'z, unit) dev_vm" where
  "queue_notify ops device_recv queue_idx =
     bnd (get_queue queue_idx) (\<lambda>qs.
     bnd (virtio_read16 ops (avail_addr qs + 2)) (\<lambda>avail.
     andthen (set_queue queue_idx (\<lambda>qs. qs\<lparr>avail_idx := avail\<rparr>))
     (if manual_recv qs then ret () else loop (notify_body ops device_recv queue_idx avail) ())))"

definition virtio_config_change_notify :: "('m, 'z, unit) dev_vm" where
  "virtio_config_change_notify = raise_int 2"

section \<open>Invariants\<close>

text \<open>
  An invariant that does not look at guest memory is kept by everything that only moves bytes,
  whatever the guest does to its memory meanwhile.
\<close>

definition dma_indep :: "(('m, 'z) virtio_device_scheme \<Rightarrow> bool) \<Rightarrow> bool" where
  "dma_indep I \<longleftrightarrow> (\<forall>s m. I s \<longrightarrow> I (s\<lparr>dma := m\<rparr>))"

lemma keeps_with_dma: "dma_indep I \<Longrightarrow> keeps I (with_dma f)"
  by (rule keepsI) (auto simp: with_dma_def wlp_def dma_indep_def split: prod.splits)

lemma keeps_get_queue [keeps_intros]: "keeps I (get_queue i)"
  by (rule keepsI) (auto simp: get_queue_def wlp_def)

lemma wlp_get_queue [wlp_simps]:
  "wlp (get_queue i) Q F s = (if i < length (queue s) then Q (queue s ! i) s else F OutOfBounds)"
  by (simp add: wlp_def get_queue_def)

lemma wlp_set_queue [wlp_simps]:
  "wlp (set_queue i f) Q F s = (if i < length (queue s)
     then Q () (s\<lparr>queue := (queue s)[i := f (queue s ! i)]\<rparr>) else F OutOfBounds)"
  by (simp add: wlp_def set_queue_def)

lemma wlp_with_dma [wlp_simps]:
  "wlp (with_dma f) Q F s = (if virtio_dma_fd s > 0
     then Q (fst (f (dma s))) (s\<lparr>dma := snd (f (dma s))\<rparr>) else F Abort)"
  by (simp add: wlp_def with_dma_def split: prod.splits)

lemma keeps_read16 [keeps_intros]: "dma_indep I \<Longrightarrow> keeps I (virtio_read16 ops a)"
  by (simp add: virtio_read16_def keeps_with_dma)

lemma keeps_write16 [keeps_intros]: "dma_indep I \<Longrightarrow> keeps I (virtio_write16 ops a v)"
  by (simp add: virtio_write16_def keeps_with_dma)

lemma keeps_write32 [keeps_intros]: "dma_indep I \<Longrightarrow> keeps I (virtio_write32 ops a v)"
  by (simp add: virtio_write32_def keeps_with_dma)

lemma keeps_from_ram [keeps_intros]: "dma_indep I \<Longrightarrow> keeps I (virtio_memcpy_from_ram ops a n)"
  by (simp add: virtio_memcpy_from_ram_def keeps_with_dma)

lemma keeps_to_ram [keeps_intros]: "dma_indep I \<Longrightarrow> keeps I (virtio_memcpy_to_ram ops a bs)"
  by (simp add: virtio_memcpy_to_ram_def keeps_with_dma)

lemma keeps_get_desc [keeps_intros]: "dma_indep I \<Longrightarrow> keeps I (get_desc ops q i)"
  unfolding get_desc_def by (intro keeps_intros)

lemma keeps_copy_segment [keeps_intros]: "dma_indep I \<Longrightarrow> keeps I (copy_segment ops tq a l buf pos)"
  unfolding copy_segment_def by (intro keeps_intros)

lemma keeps_find_write_desc [keeps_intros]: "dma_indep I \<Longrightarrow> keeps I (find_write_desc ops q d)"
  unfolding find_write_desc_def find_write_body_def by (intro keeps_intros)

lemma keeps_find_offset_desc [keeps_intros]: "dma_indep I \<Longrightarrow> keeps I (find_offset_desc ops tq q d off)"
  unfolding find_offset_desc_def find_offset_body_def by (intro keeps_intros)

lemma keeps_copy_queue [keeps_intros]: "dma_indep I \<Longrightarrow> keeps I (copy_queue ops tq q d off n buf pos)"
  unfolding copy_queue_def copy_body_def by (intro keeps_intros)

lemma keeps_memcpy_from_queue [keeps_intros]:
  "dma_indep I \<Longrightarrow> keeps I (memcpy_from_queue ops buf q i off n)"
  unfolding memcpy_from_queue_def memcpy_to_from_queue_def by (intro keeps_intros)

lemma keeps_memcpy_to_queue [keeps_intros]:
  "dma_indep I \<Longrightarrow> keeps I (memcpy_to_queue ops q i off buf n)"
  unfolding memcpy_to_queue_def memcpy_to_from_queue_def by (intro keeps_intros)

lemma keeps_get_desc_rw_size [keeps_intros]: "dma_indep I \<Longrightarrow> keeps I (get_desc_rw_size ops q i)"
  unfolding get_desc_rw_size_def rw_size_read_body_def rw_size_write_body_def
  by (intro keeps_intros)

lemma total_queue [total_intros]: "total (get_queue i)" "total (set_queue i f)"
  by (simp_all add: total_def returns_def get_queue_def set_queue_def)

lemma total_set_irq [total_intros]: "total (set_irq l)"
  by (simp add: set_irq_def total_modify)

lemma total_raise_int [total_intros]: "total (raise_int b)"
  unfolding raise_int_def by (intro total_intros)

lemma total_with_dma: "total (with_dma f)"
  by (simp add: total_def returns_def with_dma_def split: prod.splits)

lemma total_ram [total_intros]:
  "total (virtio_read16 ops a)" "total (virtio_write16 ops a v)" "total (virtio_write32 ops a w)"
  "total (virtio_memcpy_from_ram ops a n)" "total (virtio_memcpy_to_ram ops a bs)"
  by (simp_all add: virtio_read16_def virtio_write16_def virtio_write32_def virtio_memcpy_from_ram_def
      virtio_memcpy_to_ram_def total_with_dma)

lemma total_get_desc [total_intros]: "total (get_desc ops q i)"
  unfolding get_desc_def by (intro total_intros)

lemma total_consume_desc [total_intros]: "total (virtio_consume_desc ops q i n)"
  unfolding virtio_consume_desc_def by (intro total_intros)

subsection \<open>Well-formed devices\<close>

text \<open>The test \<open>(val & (val - 1)) == 0 && val > 0\<close> of the source.\<close>

definition pow2 :: "u32 \<Rightarrow> bool" where
  "pow2 v \<longleftrightarrow> v AND (v - 1) = 0 \<and> v > 0"

text \<open>
  What every register access and every request keeps: the fixed sizes of the arrays, a selected
  queue that exists, queue sizes that are powers of two (so that \<open>num - 1\<close> is a mask), and an
  interrupt line that is raised exactly while an interrupt is pending.
\<close>

definition dev_inv :: "('m, 'z) virtio_device_scheme \<Rightarrow> bool" where
  "dev_inv s \<longleftrightarrow> length (queue s) = MAX_QUEUE \<and> unat (queue_sel s) < MAX_QUEUE
     \<and> (\<forall>qs \<in> set (queue s). pow2 (num qs))
     \<and> length (config_space s) = MAX_CONFIG_SPACE_SIZE
     \<and> irq s = (if int_status s = 0 then 0 else 1)"

lemma dev_inv_dma [simp]: "dev_inv (s\<lparr>dma := m\<rparr>) = dev_inv s"
  by (simp add: dev_inv_def)

lemma dma_indep_dev_inv [simp]:
  "dma_indep dev_inv" "dma_indep (\<lambda>s. dev_inv s \<and> queue s = Q)"
  by (simp_all add: dma_indep_def)

lemma or_eq_0: "(a OR b = 0) \<longleftrightarrow> a = 0 \<and> b = (0 :: 'a::len word)"
  by (auto simp: bit_eq_iff bit_simps)

lemma keeps_raise_int [keeps_intros]:
  assumes "b \<noteq> 0"
  shows "keeps dev_inv (raise_int b)" and "keeps (\<lambda>s. dev_inv s \<and> queue s = Q) (raise_int b)"
  using assms
  by (auto intro!: keepsI simp: raise_int_def set_irq_def wlp_simps dev_inv_def or_eq_0)

lemma keeps_set_queue [keeps_intros]:
  assumes "\<And>qs. pow2 (num qs) \<Longrightarrow> pow2 (num (f qs))"
  shows "keeps dev_inv (set_queue i f)"
  using assms
  by (auto intro!: keepsI simp: set_queue_def wlp_def dev_inv_def
      dest!: set_update_subset_insert [THEN subsetD])

lemma keeps_advance_avail [keeps_intros]: "keeps dev_inv (advance_avail i)"
  unfolding advance_avail_def by (rule keeps_set_queue) simp

lemma keeps_consume_desc [keeps_intros]:
  "keeps dev_inv (virtio_consume_desc ops q i n)"
  "keeps (\<lambda>s. dev_inv s \<and> queue s = Q) (virtio_consume_desc ops q i n)"
  unfolding virtio_consume_desc_def by (intro keeps_intros; simp)+

lemma reset_keeps:
  assumes "dev_inv s"
  shows "dev_inv ((virtio_reset s)\<lparr>irq := 0\<rparr>)"
  using assms by (auto simp: dev_inv_def virtio_reset_def reset_queue_def pow2_def)

lemma virtio_init_inv: "dev_inv (virtio_init_dev dev_id csize s)"
  by (simp add: virtio_init_dev_def dev_inv_def virtio_reset_def reset_queue_def pow2_def)

text \<open>Updates of fields that \<open>dev_inv\<close> does not constrain.\<close>

lemma dev_inv_more [simp]:
  "dev_inv (s\<lparr>device_features := f\<rparr>) = dev_inv s"
  "dev_inv (s\<lparr>pending_queue_notify := p\<rparr>) = dev_inv s"
  "dev_inv (s\<lparr>pending_notify := n\<rparr>) = dev_inv s"
  "dev_inv (virtio_device.more_update g s) = dev_inv s"
  by (simp_all add: dev_inv_def)

section \<open>The contract of a request handler\<close>

text \<open>
  What \<open>queue_notify\<close> needs of a device's \<open>device_recv\<close>: it keeps the device invariant and leaves
  the queues alone (only the core advances a ring).  The lemmas below hold for every device that
  meets the contract, whatever the guest does to its memory.
\<close>

locale device_handler =
  fixes recv :: "('m, 'z) device_recv"
  assumes recv_keeps: "keeps (\<lambda>s. dev_inv s \<and> queue s = Q) (recv q i rsize wsize)"
begin

lemma recv_inv: "keeps dev_inv (recv q i rsize wsize)"
proof (rule keepsI)
  fix s :: "('m, 'z) virtio_device_scheme"
  assume "dev_inv s"
  then show "wlp (recv q i rsize wsize) (\<lambda>_. dev_inv) (\<lambda>_. True) s"
    by (intro wlp_keeps [OF recv_keeps [of "queue s"]]) auto
qed

lemma notify_inv: "keeps dev_inv (queue_notify ops recv q)"
  unfolding queue_notify_def notify_body_def
  by (intro keeps_intros recv_inv; simp)

end

text \<open>A handler that never asks to be called again later.\<close>

locale sync_handler = device_handler +
  assumes recv_done: "yields (\<lambda>r. 0 \<le> r) (recv q i rsize wsize)"
begin

text \<open>Then a notification leaves no available buffer unprocessed.\<close>

lemma drain_step:
  assumes "dev_inv s" and "q < length (queue s)" and "avail_idx (queue s ! q) = avail"
  shows "wlp (notify_body ops recv q avail ())
    (\<lambda>r t. case r of Again _ \<Rightarrow> dev_inv t \<and> q < length (queue t) \<and> avail_idx (queue t ! q) = avail
            | Done _ \<Rightarrow> last_avail_idx (queue t ! q) = avail_idx (queue t ! q)) (\<lambda>_. True) s"
proof -
  let ?K = "\<lambda>t. dev_inv t \<and> queue t = queue s"
  have adv: "wlp (advance_avail q) (\<lambda>_ t. dev_inv t \<and> q < length (queue t)
      \<and> avail_idx (queue t ! q) = avail) (\<lambda>_. True) t" if "?K t" for t
  proof -
    have "wlp (advance_avail q) (\<lambda>_. dev_inv) (\<lambda>_. True) t"
      using that by (intro keeps_wlp keeps_advance_avail) simp
    moreover have "wlp (advance_avail q) (\<lambda>_ t. q < length (queue t)
        \<and> avail_idx (queue t ! q) = avail) (\<lambda>_. True) t"
      using that assms by (simp add: advance_avail_def wlp_set_queue)
    ultimately show ?thesis by (simp add: wlp_conj)
  qed
  let ?Q = "\<lambda>r t. case r of Again _ \<Rightarrow> dev_inv t \<and> q < length (queue t) \<and> avail_idx (queue t ! q) = avail
            | Done _ \<Rightarrow> last_avail_idx (queue t ! q) = avail_idx (queue t ! q)"
  let ?rest = "\<lambda>r. if r < 0 then ret (Done ()) else andthen (advance_avail q) (ret (Again ()))"
  have rest: "wlp (?rest r) ?Q (\<lambda>_. True) t" if "?K t" and "0 \<le> r" for t and r :: int
    using that(2) adv [OF that(1)] by (auto simp: wlp_simps elim: wlp_mono)
  have recv: "wlp (bnd (recv q i rs ws) ?rest) ?Q (\<lambda>_. True) t" if K: "?K t" for t i rs ws
  proof -
    have "wlp (recv q i rs ws) (\<lambda>r t. 0 \<le> r \<and> ?K t) (\<lambda>_. True) t"
      using keeps_wlp [OF recv_keeps K] recv_done by (simp add: wlp_conj yields_def)
    then show ?thesis unfolding wlp_bnd by (rule wlp_mono) (use rest in auto)
  qed
  have sizes: "wlp (bnd (case sizes of None \<Rightarrow> ret 0 | Some (rs, ws) \<Rightarrow> recv q i rs ws) ?rest) ?Q (\<lambda>_. True) t"
    if "?K t" for t i sizes
  proof (cases sizes)
    case None
    then show ?thesis using rest [OF that, of 0] by (simp add: wlp_bnd wlp_ret)
  next
    case (Some p)
    then show ?thesis using recv [OF that] by (cases p) simp
  qed
  have "wlp (bnd (virtio_read16 ops (avail_entry_addr (queue s ! q))) (\<lambda>i.
      bnd (get_desc_rw_size ops q i) (\<lambda>sizes.
      bnd (case sizes of None \<Rightarrow> ret 0 | Some (rs, ws) \<Rightarrow> recv q i rs ws) ?rest))) ?Q (\<lambda>_. True) s"
    unfolding wlp_bnd [of "virtio_read16 _ _"] wlp_bnd [of "get_desc_rw_size _ _ _"]
    using assms sizes
    by (intro wlp_keeps [OF keeps_read16 [OF dma_indep_dev_inv(2), of "queue s"]]
        wlp_keeps [OF keeps_get_desc_rw_size [OF dma_indep_dev_inv(2), of "queue s"]]) auto
  then show ?thesis using assms by (simp add: notify_body_def wlp_bnd [of "get_queue _"] wlp_get_queue wlp_ret)
qed

lemma notify_drains:
  assumes "dev_inv s" and "\<not> manual_recv (queue s ! q)"
    and "queue_notify ops recv q s = Some (Inr (u, t))"
  shows "last_avail_idx (queue t ! q) = avail_idx (queue t ! q)"
proof -
  let ?I = "\<lambda>avail t. dev_inv t \<and> q < length (queue t) \<and> avail_idx (queue t ! q) = avail"
  have loop: "wlp (loop (notify_body ops recv q avail) ()) (\<lambda>_ t. last_avail_idx (queue t ! q) = avail_idx (queue t ! q))
      (\<lambda>_. True) t" if "?I avail t" for t avail
    by (rule wlp_loop [where J = "\<lambda>_. ?I avail"]) (use that drain_step in auto)
  have inv: "dev_inv (t\<lparr>queue := (queue t)[q := (queue t ! q)\<lparr>avail_idx := avail\<rparr>]\<rparr>)"
    if "dev_inv t" and "q < length (queue t)" for t :: "('m, 'z) virtio_device_scheme" and avail
    using keeps_wlp [OF keeps_set_queue [of "\<lambda>qs. qs\<lparr>avail_idx := avail\<rparr>" q] that(1)] that(2)
    by (simp add: wlp_set_queue)
  have "wlp (queue_notify ops recv q) (\<lambda>_ t. last_avail_idx (queue t ! q) = avail_idx (queue t ! q)) (\<lambda>_. True) s"
    unfolding queue_notify_def virtio_read16_def wlp_simps
    using assms(1,2) inv [of "s\<lparr>dma := m\<rparr>" for m] by (auto intro!: loop)
  then show ?thesis using assms(3) by (rule wlp_D)
qed

end

end
