(* ===== verification/Virtio_Chain.thy ===== *)
theory Virtio_Chain
  imports Virtio_Core
begin

text \<open>
  What the descriptor-chain code of \<open>Virtio_Core\<close> computes when the DMA device is a memory
  (\<open>fmem_ram\<close>): an abstract view of a chain as a list of descriptors and of its two halves as
  lists of byte addresses, and refinement lemmas that the loops of \<open>memcpy_to_from_queue\<close> and
  \<open>get_desc_rw_size\<close> compute exactly the obvious functions of those lists.
\<close>

unbundle bit_operations_syntax

section \<open>Addresses and descriptors in memory\<close>

definition seg_addrs :: "u64 \<Rightarrow> nat \<Rightarrow> u32 list" where
  "seg_addrs a n = map (\<lambda>i. dma_offset a + of_nat i) [0..<n]"

lemma length_seg_addrs [simp]: "length (seg_addrs a n) = n"
  by (simp add: seg_addrs_def)

lemma ucast_add_down: "(ucast (a + b :: u64) :: u32) = ucast a + ucast b"
proof -
  have "(unat a + unat b) mod 18446744073709551616 mod 4294967296 = (unat a + unat b) mod (4294967296 :: nat)"
    by (rule mod_mod_cancel) simp
  then show ?thesis
    by (simp add: word_unat_eq_iff unsigned_ucast_eq unat_word_ariths take_bit_eq_mod mod_add_eq)
qed

lemma dma_offset_add: "dma_offset (a + b) = dma_offset a + ucast b"
  by (simp add: dma_offset_def diff_add_eq [symmetric] ucast_add_down)

lemma ucast_of_nat_down: "(ucast (of_nat n :: u64) :: u32) = of_nat n"
  by (simp add: word_unat_eq_iff unsigned_ucast_eq unsigned_of_nat)

lemma seg_addrs_Suc: "seg_addrs a (Suc n) = dma_offset a # seg_addrs (a + 1) n"
proof -
  have "[0..<Suc n] = 0 # map Suc [0..<n]" by (simp add: map_Suc_upt upt_conv_Cons del: upt_Suc)
  then show ?thesis by (simp add: seg_addrs_def dma_offset_add comp_def add.assoc del: upt_Suc)
qed

lemma seg_addrs_0 [simp]: "seg_addrs a 0 = []"
  by (simp add: seg_addrs_def)

lemma drop_seg_addrs: "drop k (seg_addrs a n) = seg_addrs (a + of_nat k) (n - k)"
  by (rule nth_equalityI)
    (simp_all add: seg_addrs_def dma_offset_add ucast_of_nat_down add.assoc less_diff_conv
      add.commute flip: of_nat_add)

lemma take_seg_addrs: "take k (seg_addrs a n) = seg_addrs a (min k n)"
  by (simp add: seg_addrs_def take_map min_def)

lemma fmem_read_bytes_ram:
  "fmem_ram ops mem \<Longrightarrow> fmem_read_bytes ops a n m = (map (mem m) (seg_addrs a n), m)"
  by (induction n arbitrary: a) (simp_all add: fmem_read8_ram seg_addrs_Suc)

definition write_list :: "ram \<Rightarrow> (u32 \<times> u8) list \<Rightarrow> ram" where
  "write_list f xs = fold (\<lambda>(a, b) f. f(a := b)) xs f"

lemma write_list_append: "write_list f (xs @ ys) = write_list (write_list f xs) ys"
  by (simp add: write_list_def)

lemma write_list_Nil [simp]: "write_list f [] = f"
  by (simp add: write_list_def)

lemma write_list_other: "x \<notin> fst ` set xs \<Longrightarrow> write_list f xs x = f x"
  by (induction xs arbitrary: f) (auto simp: write_list_def)

lemma fmem_write_bytes_ram:
  assumes "fmem_ram ops mem"
  shows "mem (fmem_write_bytes ops a bs m) = write_list (mem m) (zip (seg_addrs a (length bs)) bs)"
  using fmem_write8_ram [OF assms]
  by (induction bs arbitrary: a m) (simp_all add: seg_addrs_Suc write_list_def)

definition desc_at :: "ram \<Rightarrow> u64 \<Rightarrow> u16 \<Rightarrow> virtio_desc" where
  "desc_at f base i = decode_desc (map f (seg_addrs (base + ucast i * 16) 16))"

text \<open>
  A device over such a memory, with the DMA file open.  \<open>ram_of\<close> reads the memory off the state.
\<close>

definition on_ram :: "'m fmem_ops \<Rightarrow> ('m \<Rightarrow> ram) \<Rightarrow> nat \<Rightarrow> ('m, 'z) virtio_device_scheme \<Rightarrow> bool" where
  "on_ram ops mem q s \<longleftrightarrow> fmem_ram ops mem \<and> virtio_dma_fd s > 0 \<and> q < length (queue s)"

lemma memcpy_from_ram_run:
  assumes "fmem_ram ops mem" and "virtio_dma_fd s > 0"
  shows "virtio_memcpy_from_ram ops a n s = Some (Inr (map (mem (dma s)) (seg_addrs a (nat n)), s))"
  using assms(2) by (simp add: virtio_memcpy_from_ram_def with_dma_def fmem_read_bytes_ram [OF assms(1)])

lemma memcpy_to_ram_run:
  assumes "fmem_ram ops mem" and "virtio_dma_fd s > 0"
  shows "virtio_memcpy_to_ram ops a bs s = Some (Inr ((), s\<lparr>dma := fmem_write_bytes ops a bs (dma s)\<rparr>))"
  using assms(2) by (simp add: virtio_memcpy_to_ram_def with_dma_def)

lemma get_desc_run:
  assumes "on_ram ops mem q s"
  shows "get_desc ops q i s = Some (Inr (desc_at (mem (dma s)) (desc_addr (queue s ! q)) i, s))"
  using assms memcpy_from_ram_run [of ops mem s]
  by (simp add: on_ram_def get_desc_def get_queue_def bnd_def desc_at_def)

section \<open>Chains\<close>

text \<open>\<open>linked f base d ds\<close>: after \<open>d\<close> come exactly the descriptors \<open>ds\<close>.\<close>

primrec linked :: "ram \<Rightarrow> u64 \<Rightarrow> virtio_desc \<Rightarrow> virtio_desc list \<Rightarrow> bool" where
  "linked f base d [] = (\<not> has_next d)"
| "linked f base d (e # es) = (has_next d \<and> desc_at f base (dnext d) = e \<and> linked f base e es)"

definition chain :: "ram \<Rightarrow> u64 \<Rightarrow> u16 \<Rightarrow> virtio_desc list \<Rightarrow> bool" where
  "chain f base i ds \<longleftrightarrow> ds \<noteq> [] \<and> desc_at f base i = hd ds \<and> linked f base (hd ds) (tl ds)"

definition half :: "bool \<Rightarrow> virtio_desc list \<Rightarrow> virtio_desc list" where
  "half tq ds = takeWhile (\<lambda>d. is_write d = tq) ds"

definition readable :: "virtio_desc list \<Rightarrow> virtio_desc list" where
  "readable ds = half False ds"

definition writable :: "virtio_desc list \<Rightarrow> virtio_desc list" where
  "writable ds = half True (dropWhile (\<lambda>d. \<not> is_write d) ds)"

definition desc_addrs :: "virtio_desc list \<Rightarrow> u32 list" where
  "desc_addrs ds = concat (map (\<lambda>d. seg_addrs (daddr d) (unat (dlen d))) ds)"

definition lens :: "virtio_desc list \<Rightarrow> u32" where
  "lens ds = sum_list (map dlen ds)"

text \<open>The size loops.\<close>

lemma rw_size_write_run:
  assumes "on_ram ops mem q s" and "linked (mem (dma s)) (desc_addr (queue s ! q)) d ds"
  shows "loop (rw_size_write_body ops q) (d, n) s =
    Some (Inr (if list_all is_write (d # ds) then Some (n + lens (d # ds)) else None, s))"
  using assms(2)
proof (induction ds arbitrary: d n)
  case Nil
  then show ?case
    by (subst loop.simps) (simp add: rw_size_write_body_def bnd_def lens_def)
next
  case (Cons e es)
  show ?case
  proof (cases "is_write d")
    case True
    with Cons.prems have "rw_size_write_body ops q (d, n) s = Some (Inr (Again (e, n + dlen d), s))"
      by (simp add: rw_size_write_body_def bnd_def get_desc_run [OF assms(1)])
    with Cons True show ?thesis by (simp add: loop_again lens_def add.assoc)
  next
    case False
    then have "rw_size_write_body ops q (d, n) s = Some (Inr (Done None, s))"
      by (simp add: rw_size_write_body_def)
    with False show ?thesis by (simp add: loop_done)
  qed
qed

lemma rw_size_read_run:
  assumes "on_ram ops mem q s" and "linked (mem (dma s)) (desc_addr (queue s ! q)) d ds"
  shows "\<exists>r. loop (rw_size_read_body ops q) (d, n) s =
      Some (Inr ((n + lens (readable (d # ds)), r), s))
    \<and> (case dropWhile (\<lambda>d. \<not> is_write d) (d # ds) of [] \<Rightarrow> r = None
       | e # es \<Rightarrow> r = Some e \<and> linked (mem (dma s)) (desc_addr (queue s ! q)) e es)"
  using assms(2)
proof (induction ds arbitrary: d n)
  case Nil
  then show ?case
    by (subst loop.simps) (simp add: rw_size_read_body_def bnd_def lens_def readable_def half_def)
next
  case (Cons e es)
  show ?case
  proof (cases "is_write d")
    case True
    then have "rw_size_read_body ops q (d, n) s = Some (Inr (Done (n, Some d), s))"
      by (simp add: rw_size_read_body_def)
    with Cons.prems True show ?thesis by (simp add: loop_done lens_def readable_def half_def)
  next
    case False
    with Cons.prems have "rw_size_read_body ops q (d, n) s = Some (Inr (Again (e, n + dlen d), s))"
      by (simp add: rw_size_read_body_def bnd_def get_desc_run [OF assms(1)])
    moreover from Cons.prems have "linked (mem (dma s)) (desc_addr (queue s ! q)) e es" by simp
    note Cons.IH [OF this, of "n + dlen d"]
    ultimately show ?thesis using False by (simp add: loop_again lens_def readable_def half_def add.assoc)
  qed
qed

text \<open>
  \<open>get_desc_rw_size\<close> adds up the lengths of the two halves, and refuses a chain in which a
  descriptor to read follows one to write.
\<close>

lemma get_desc_rw_size_run:
  assumes "on_ram ops mem q s" and "chain (mem (dma s)) (desc_addr (queue s ! q)) i ds"
  shows "get_desc_rw_size ops q i s =
    Some (Inr (if list_all is_write (dropWhile (\<lambda>d. \<not> is_write d) ds)
      then Some (int_of_u32 (lens (readable ds)), int_of_u32 (lens (writable ds))) else None, s))"
proof -
  obtain d es where ds: "ds = d # es" using assms(2) by (cases ds) (auto simp: chain_def)
  have d: "desc_at (mem (dma s)) (desc_addr (queue s ! q)) i = d"
    using assms(2) by (simp add: chain_def ds)
  have l: "linked (mem (dma s)) (desc_addr (queue s ! q)) d es"
    using assms(2) by (auto simp: chain_def ds)
  obtain r where r: "loop (rw_size_read_body ops q) (d, 0) s = Some (Inr ((lens (readable ds), r), s))"
    and cs: "case dropWhile (\<lambda>d. \<not> is_write d) ds of [] \<Rightarrow> r = None
       | e # es \<Rightarrow> r = Some e \<and> linked (mem (dma s)) (desc_addr (queue s ! q)) e es"
    using rw_size_read_run [OF assms(1) l, of 0] by (auto simp: ds)
  show ?thesis
  proof (cases "dropWhile (\<lambda>d. \<not> is_write d) ds")
    case Nil
    with cs have "r = None" and w: "lens (writable ds) = 0" 
      by (simp_all add: writable_def half_def lens_def del: dropWhile_eq_Nil_conv)
    with r Nil show ?thesis
      by (simp add: get_desc_rw_size_def bnd_run get_desc_run [OF assms(1)] d int_of_u32_def
          del: dropWhile_eq_Nil_conv)
  next
    case (Cons e es')
    with cs have re: "r = Some e" and le: "linked (mem (dma s)) (desc_addr (queue s ! q)) e es'" by simp_all
    have "writable ds = e # es'" if "list_all is_write (e # es')"
      using that Cons by (simp add: writable_def half_def list_all_iff)
    then show ?thesis
      using r re Cons rw_size_write_run [OF assms(1) le, of 0]
      by (simp add: get_desc_rw_size_def bnd_run get_desc_run [OF assms(1)] d)
  qed
qed

section \<open>Copying\<close>

text \<open>Lengths for which \<open>desc.len - offset\<close> is not negative as an \<open>int\<close>.\<close>

definition small :: "virtio_desc \<Rightarrow> bool" where
  "small d \<longleftrightarrow> unat (dlen d) < 2147483648"

lemma desc_addrs_Nil [simp]: "desc_addrs [] = []"
  by (simp add: desc_addrs_def)

lemma desc_addrs_Cons [simp]: "desc_addrs (d # ds) = seg_addrs (daddr d) (unat (dlen d)) @ desc_addrs ds"
  by (simp add: desc_addrs_def)

lemma word_of_int_nat: "word_of_int (int n) = of_nat n"
  by simp

lemma seg_part:
  assumes "k \<le> unat (dlen d)" and "n \<le> unat (dlen d) - k"
  shows "seg_addrs (daddr d + of_nat k) n = take n (drop k (seg_addrs (daddr d) (unat (dlen d))))"
  using assms by (simp add: drop_seg_addrs take_seg_addrs)

lemma seg_left:
  assumes "small d" and "off \<le> unat (dlen d)" and "count < 2147483648"
  shows "min_int (int count) (int_of_u32 (dlen d - u32_of_int (int off))) = int (min count (unat (dlen d) - off))"
proof -
  have o: "unat (u32_of_int (int off)) = off" using assms by (simp add: unat_u32_of_int small_def)
  have "u32_of_int (int off) \<le> dlen d" using assms(2) o by (simp add: word_le_nat_alt)
  then have u: "unat (dlen d - u32_of_int (int off)) = unat (dlen d) - off" by (simp add: unat_sub o)
  then have "int_of_u32 (dlen d - u32_of_int (int off)) = int (unat (dlen d) - off)"
    using assms(1) by (subst int_of_u32_small) (simp_all add: small_def u)
  then show ?thesis by (simp add: min_int_def min_def)
qed

lemma copy_step:
  fixes off count pos :: nat
  assumes "small d" and "off \<le> unat (dlen d)" and "0 < count" and "count < 2147483648"
    and "copy_segment ops tq (daddr d + of_nat off) (int (min count (unat (dlen d) - off))) buf (int pos) s
           = Some (Inr (buf', s'))"
  shows "copy_body ops tq q (d, int off, int count, buf, int pos) s =
    (if count \<le> unat (dlen d) - off then Some (Inr (Done (0, buf'), s'))
     else if \<not> has_next d then Some (Inr (Done (- 1, buf'), s'))
     else bnd (get_desc ops q (dnext d)) (\<lambda>d'. if is_write d' \<noteq> tq then ret (Done (- 1, buf'))
       else ret (Again (d', 0, int (count - (unat (dlen d) - off)), buf', int (pos + (unat (dlen d) - off))))) s')"
proof -
  have e: "u32_of_int (int (unat (dlen d))) = dlen d"
    by (simp add: u32_of_int_def)
  show ?thesis
  proof (cases "count \<le> unat (dlen d) - off")
    case True
    then show ?thesis using assms(3-5)
      by (simp add: copy_body_def Let_def seg_left [OF assms(1,2,4)] bnd_run cint_run int_in_range_def min_def)
  next
    case False
    then have m: "min count (unat (dlen d) - off) = unat (dlen d) - off" by simp
    have r: "int_in_range (int count - int (unat (dlen d) - off))"
       "int_in_range (int off + int (unat (dlen d) - off))"
      using assms(1-4) False by (auto simp: int_in_range_def small_def simp del: of_nat_unat)
    have i: "int count - int (unat (dlen d) - off) = int (count - (unat (dlen d) - off))"
      "int off + int (unat (dlen d) - off) = int (unat (dlen d))"
      using False assms(2) by (simp_all add: of_nat_diff)
    show ?thesis using False assms(5) r
      by (simp add: copy_body_def Let_def seg_left [OF assms(1,2,4)] m i e bnd_run cint_run cong: if_cong del: of_nat_diff of_nat_unat of_nat_diff_if)
  qed
qed

lemma copy_segment_from:
  assumes "on_ram ops mem q s" and "n \<le> unat (dlen d) - off" "off \<le> unat (dlen d)" and "pos + n \<le> length buf"
  shows "copy_segment ops False (daddr d + of_nat off) (int n) buf (int pos) s =
    Some (Inr (blit buf pos (map (mem (dma s)) (take n (drop off (seg_addrs (daddr d) (unat (dlen d)))))), s))"
  using assms memcpy_from_ram_run [of ops mem s]
  by (simp add: on_ram_def copy_segment_def bnd_run seg_part [symmetric] poke_nat)

lemma copy_segment_to:
  assumes "on_ram ops mem q s" and "n \<le> unat (dlen d) - off" "off \<le> unat (dlen d)" and "pos + n \<le> length buf"
  obtains m where "copy_segment ops True (daddr d + of_nat off) (int n) buf (int pos) s =
      Some (Inr (buf, s\<lparr>dma := m\<rparr>))"
    and "mem m = write_list (mem (dma s))
        (zip (take n (drop off (seg_addrs (daddr d) (unat (dlen d))))) (take n (drop pos buf)))"
proof -
  have "fmem_ram ops mem" "virtio_dma_fd s > 0" using assms(1) by (simp_all add: on_ram_def)
  with assms(2-4) show ?thesis
    by (intro that [of "fmem_write_bytes ops (daddr d + of_nat off) (take n (drop pos buf)) (dma s)"]) (simp_all add: copy_segment_def bnd_run peek_nat andthen_run memcpy_to_ram_run fmem_write_bytes_ram
        seg_part [symmetric])
qed

lemma half_Nil [simp]: "half tq [] = []"
  by (simp add: half_def)

lemma half_Cons: "is_write d = tq \<Longrightarrow> half tq (d # ds) = d # half tq ds"
  by (simp add: half_def)

lemma half_stop: "is_write d \<noteq> tq \<Longrightarrow> half tq (d # ds) = []"
  by (simp add: half_def)

lemma copy_from_run:
  assumes ram: "on_ram ops mem q s"
  shows "linked (mem (dma s)) (desc_addr (queue s ! q)) d ds \<Longrightarrow> \<not> is_write d \<Longrightarrow> list_all small (d # ds) \<Longrightarrow>
    off \<le> unat (dlen d) \<Longrightarrow> 0 < count \<Longrightarrow> count < 2147483648 \<Longrightarrow> pos + count \<le> length buf \<Longrightarrow>
    A = drop off (desc_addrs (half False (d # ds))) \<Longrightarrow>
    copy_queue ops False q d (int off) (int count) buf (int pos) s =
      Some (Inr ((if count \<le> length A then 0 else - 1, blit buf pos (map (mem (dma s)) (take count A))), s))"
proof (induction ds arbitrary: d off count pos buf A)
  case Nil
  then show ?case
    using copy_step [OF _ _ _ _ copy_segment_from [OF ram, of "min count (unat (dlen d) - off)" d off pos buf], where q = q]
    by (simp add: half_Cons copy_queue_def loop_done min_def split: if_splits)
next
  case (Cons e es)
  let ?n = "unat (dlen d) - off"
  let ?buf = "blit buf pos (map (mem (dma s)) (take (min count ?n) (drop off (seg_addrs (daddr d) (unat (dlen d))))))"
  from Cons.prems have l: "linked (mem (dma s)) (desc_addr (queue s ! q)) e es"
    and nx: "has_next d" "desc_at (mem (dma s)) (desc_addr (queue s ! q)) (dnext d) = e" by simp_all
  note step = copy_step [OF _ _ _ _ copy_segment_from [OF ram, of "min count ?n" d off pos buf], where q = q]
  show ?case
  proof (cases "count \<le> ?n")
    case True
    with Cons.prems step show ?thesis
      by (simp add: half_Cons copy_queue_def loop_done)
  next
    case far: False
    with Cons.prems step nx have body: "copy_body ops False q (d, int off, int count, buf, int pos) s =
        Some (Inr (if is_write e then Done (- 1, ?buf)
          else Again (e, 0, int (count - ?n), ?buf, int (pos + ?n)), s))"
      by (simp add: bnd_run get_desc_run [OF ram])
    show ?thesis
    proof (cases "is_write e")
      case True
      with Cons.prems far body show ?thesis
        by (simp add: copy_queue_def loop_done half_Cons half_stop)
    next
      case False
      with Cons.prems far have "copy_queue ops False q e (int 0) (int (count - ?n)) ?buf (int (pos + ?n)) s =
          Some (Inr ((if count - ?n \<le> length (desc_addrs (half False (e # es))) then 0 else - 1,
            blit ?buf (pos + ?n) (map (mem (dma s)) (take (count - ?n) (desc_addrs (half False (e # es)))))), s))"
        by (intro Cons.IH [OF l]) simp_all
      moreover have "copy_queue ops False q d (int off) (int count) buf (int pos) s
        = copy_queue ops False q e (int 0) (int (count - ?n)) ?buf (int (pos + ?n)) s"
        using body False by (simp add: copy_queue_def loop_again)
      ultimately show ?thesis using Cons.prems far 
          blit_blit_append [of pos "map (mem (dma s)) (drop off (seg_addrs (daddr d) (unat (dlen d))))"
            "map (mem (dma s)) (take (count - ?n) (desc_addrs (half False (e # es))))" buf]
        by (simp add: half_Cons) linarith
    qed
  qed
qed

text \<open>The bytes of the descriptors that follow the first one of a chain.\<close>

definition table :: "u64 \<Rightarrow> virtio_desc list \<Rightarrow> u32 set" where
  "table base ds = (\<Union>d \<in> set (butlast ds). set (seg_addrs (base + ucast (dnext d) * 16) 16))"

lemma desc_at_cong:
  "(\<And>a. a \<in> set (seg_addrs (base + ucast i * 16) 16) \<Longrightarrow> f a = g a) \<Longrightarrow> desc_at f base i = desc_at g base i"
  unfolding desc_at_def by (rule arg_cong [of _ _ decode_desc]) simp

lemma linked_cong:
  "linked f base d ds \<Longrightarrow> (\<And>a. a \<in> table base (d # ds) \<Longrightarrow> f a = g a) \<Longrightarrow> linked g base d ds"
proof (induction ds arbitrary: d)
  case (Cons e es)
  have "desc_at f base (dnext d) = desc_at g base (dnext d)"
    by (rule desc_at_cong) (simp add: Cons.prems(2) table_def)
  moreover have "linked g base e es" using Cons by (auto simp: table_def)
  ultimately show ?case using Cons.prems(1) by simp
qed simp

lemma table_Cons: "table base (d # e # es) = set (seg_addrs (base + ucast (dnext d) * 16) 16) \<union> table base (e # es)"
  by (simp add: table_def)

lemma on_ram_dma: "on_ram ops mem q (s\<lparr>dma := m\<rparr>) = on_ram ops mem q s"
  by (simp add: on_ram_def)

lemma write_list_frame:
  "linked f base d ds \<Longrightarrow> set xs \<inter> table base (d # ds) = {} \<Longrightarrow> linked (write_list f (zip xs ys)) base d ds"
proof (erule linked_cong)
  fix a
  assume "set xs \<inter> table base (d # ds) = {}" and "a \<in> table base (d # ds)"
  then have "a \<notin> fst ` set (zip xs ys)" by (auto dest: set_zip_leftD)
  then show "f a = write_list f (zip xs ys) a" by (simp add: write_list_other)
qed

lemma zip_take_right: "length xs \<le> n \<Longrightarrow> zip xs (take n ys) = zip xs ys"
  using take_zip [of n xs ys] by simp

lemma zip_take_append:
  assumes "length xs \<le> n" and "k + n \<le> length zs"
  shows "zip (take n (xs @ ys)) (take n (drop k zs)) =
    zip xs (take (length xs) (drop k zs)) @ zip (take (n - length xs) ys) (take (n - length xs) (drop (k + length xs) zs))"
proof -
  have "take n (drop k zs) = take (length xs) (drop k zs) @ take (n - length xs) (drop (k + length xs) zs)"
    using assms(1) by (metis add.commute drop_drop le_add_diff_inverse take_add)
  then show ?thesis using assms by simp
qed

lemma copy_to_run:
  shows "on_ram ops mem q s \<Longrightarrow> linked (mem (dma s)) (desc_addr (queue s ! q)) d ds \<Longrightarrow> is_write d \<Longrightarrow> list_all small (d # ds) \<Longrightarrow>
    off \<le> unat (dlen d) \<Longrightarrow> 0 < count \<Longrightarrow> count < 2147483648 \<Longrightarrow> pos + count \<le> length buf \<Longrightarrow>
    A = drop off (desc_addrs (half True (d # ds))) \<Longrightarrow> set (take count A) \<inter> table (desc_addr (queue s ! q)) (d # ds) = {} \<Longrightarrow>
    \<exists>m. copy_queue ops True q d (int off) (int count) buf (int pos) s =
      Some (Inr ((if count \<le> length A then 0 else - 1, buf), s\<lparr>dma := m\<rparr>))
     \<and> mem m = write_list (mem (dma s)) (zip (take count A) (take count (drop pos buf)))"
proof (induction ds arbitrary: d off count pos A s)
  case Nil
  let ?n = "min count (unat (dlen d) - off)"
  obtain m where m: "copy_segment ops True (daddr d + of_nat off) (int ?n) buf (int pos) s = Some (Inr (buf, s\<lparr>dma := m\<rparr>))"
    "mem m = write_list (mem (dma s))
        (zip (take ?n (drop off (seg_addrs (daddr d) (unat (dlen d))))) (take ?n (drop pos buf)))"
    by (rule copy_segment_to [OF Nil.prems(1), of ?n d off pos buf]) (use Nil.prems(5,8) in auto)
  show ?case using Nil.prems m
    copy_step [OF _ _ _ _ m(1), where q = q]
    by (intro exI [of _ m]) (simp add: half_Cons copy_queue_def loop_done min_def zip_take_right split: if_splits)
next
  case (Cons e es)
  let ?n = "unat (dlen d) - off"
  let ?base = "desc_addr (queue s ! q)"
  let ?a = "drop off (seg_addrs (daddr d) (unat (dlen d)))"
  from Cons.prems have nx: "has_next d" "desc_at (mem (dma s)) ?base (dnext d) = e" "linked (mem (dma s)) ?base e es" by simp_all
  obtain m where m: "copy_segment ops True (daddr d + of_nat off) (int (min count ?n)) buf (int pos) s = Some (Inr (buf, s\<lparr>dma := m\<rparr>))"
    "mem m = write_list (mem (dma s)) (zip (take (min count ?n) ?a) (take (min count ?n) (drop pos buf)))"
    by (rule copy_segment_to [OF Cons.prems(1), of "min count ?n" d off pos buf]) (use Cons.prems(5,8) in auto)
  note step = copy_step [OF _ _ _ _ m(1), where q = q]
  show ?case
  proof (cases "count \<le> ?n")
    case True
    with Cons.prems m step show ?thesis
      by (intro exI [of _ m]) (simp add: half_Cons copy_queue_def loop_done)
  next
    case far: False
    have A: "A = ?a @ desc_addrs (half True (e # es))" using Cons.prems by (simp add: half_Cons)
    have dis: "set ?a \<inter> table ?base (d # e # es) = {}"
      "set (take (count - ?n) (desc_addrs (half True (e # es)))) \<inter> table ?base (e # es) = {}"
      using Cons.prems(10) far by (auto simp: A table_Cons)
    have lk: "linked (mem m) ?base d (e # es)"
      using write_list_frame [OF Cons.prems(2), of ?a "take ?n (drop pos buf)"] dis far m(2)
      by simp
    have lk': "linked (mem m) ?base e es" "desc_at (mem m) ?base (dnext d) = e" using lk by simp_all
    have "copy_body ops True q (d, int off, int count, buf, int pos) s =
        Some (Inr (if is_write e then Again (e, 0, int (count - ?n), buf, int (pos + ?n))
          else Done (- 1, buf), s\<lparr>dma := m\<rparr>))"
      using Cons.prems far step nx lk' by (simp add: bnd_run get_desc_run [of ops mem] on_ram_dma)
    note body = this
    show ?thesis
    proof (cases "is_write e")
      case False
      with Cons.prems far body m show ?thesis
        by (intro exI [of _ m]) (simp add: copy_queue_def loop_done half_Cons half_stop zip_take_right)
    next
      case True
      have "\<exists>m'. copy_queue ops True q e (int 0) (int (count - ?n)) buf (int (pos + ?n)) (s\<lparr>dma := m\<rparr>) =
          Some (Inr ((if count - ?n \<le> length (desc_addrs (half True (e # es))) then 0 else - 1, buf), s\<lparr>dma := m\<rparr>\<lparr>dma := m'\<rparr>))
        \<and> mem m' = write_list (mem (dma (s\<lparr>dma := m\<rparr>)))
          (zip (take (count - ?n) (desc_addrs (half True (e # es)))) (take (count - ?n) (drop (pos + ?n) buf)))"
        using Cons.prems far True lk' dis by (intro Cons.IH) (simp_all add: on_ram_dma)
      then obtain m' where m': "copy_queue ops True q e (int 0) (int (count - ?n)) buf (int (pos + ?n)) (s\<lparr>dma := m\<rparr>) =
          Some (Inr ((if count - ?n \<le> length (desc_addrs (half True (e # es))) then 0 else - 1, buf), s\<lparr>dma := m'\<rparr>))"
        "mem m' = write_list (mem m)
          (zip (take (count - ?n) (desc_addrs (half True (e # es)))) (take (count - ?n) (drop (pos + ?n) buf)))"
        by auto
      have z: "zip (take count A) (take count (drop pos buf)) = zip ?a (take ?n (drop pos buf)) @
          zip (take (count - ?n) (desc_addrs (half True (e # es)))) (take (count - ?n) (drop (pos + ?n) buf))"
        using zip_take_append [of ?a count pos buf] far Cons.prems(8) by (simp add: A)
      have "copy_queue ops True q d (int off) (int count) buf (int pos) s
        = copy_queue ops True q e (int 0) (int (count - ?n)) buf (int (pos + ?n)) (s\<lparr>dma := m\<rparr>)"
        using body True by (simp add: copy_queue_def loop_again)
      moreover have "mem m' = write_list (mem (dma s)) (zip (take count A) (take count (drop pos buf)))"
        using m(2) m'(2) far unfolding z write_list_append by simp
      moreover have "(count - ?n \<le> length (desc_addrs (half True (e # es)))) = (count \<le> length A)"
        using far by (simp add: A) linarith
      ultimately show ?thesis using m'(1) by auto
    qed
  qed
qed

section \<open>The whole copy\<close>

lemma table_sub: "table base (e # es) \<subseteq> table base (d # e # es)"
  by (simp add: table_Cons)

text \<open>\<open>found f base tq A off T r\<close>: \<open>r\<close> is where byte \<open>off\<close> of the addresses \<open>A\<close> lies, if it lies in \<open>A\<close>.\<close>

definition found :: "ram \<Rightarrow> u64 \<Rightarrow> bool \<Rightarrow> u32 list \<Rightarrow> nat \<Rightarrow> u32 set \<Rightarrow> (virtio_desc \<times> int) option \<Rightarrow> bool" where
  "found f base tq A off T r \<longleftrightarrow> (if off < length A then \<exists>e es k. r = Some (e, int k) \<and> k < unat (dlen e)
       \<and> is_write e = tq \<and> linked f base e es \<and> list_all small (e # es)
       \<and> drop k (desc_addrs (half tq (e # es))) = drop off A \<and> table base (e # es) \<subseteq> T
     else r = None)"

lemma found_shift:
  assumes "found f base tq B (off - n) T r" and "drop off A = drop (off - n) B"
    and "off < length A \<longleftrightarrow> off - n < length B" and "T \<subseteq> T'"
  shows "found f base tq A off T' r"
  using assms unfolding found_def by (auto split: if_splits) blast+

lemma find_offset_run:
  assumes ram: "on_ram ops mem q s"
  shows "linked (mem (dma s)) (desc_addr (queue s ! q)) d ds \<Longrightarrow> list_all small (d # ds) \<Longrightarrow> off < 2147483648 \<Longrightarrow>
    A = desc_addrs (half tq (d # ds)) \<Longrightarrow>
    \<exists>r. find_offset_desc ops tq q d (int off) s = Some (Inr (r, s))
     \<and> found (mem (dma s)) (desc_addr (queue s ! q)) tq A off (table (desc_addr (queue s ! q)) (d # ds)) r"
proof (induction ds arbitrary: d off A)
  case Nil
  show ?case
  proof (cases "is_write d = tq \<and> off < unat (dlen d)")
    case True
    with Nil show ?thesis
      by (subst find_offset_desc_def, subst loop.simps)
        (auto simp: found_def find_offset_body_def bnd_def word_less_nat_alt unat_u32_of_int half_Cons intro!: exI [of _ "[]"])
  next
    case False
    with Nil show ?thesis
      by (subst find_offset_desc_def, subst loop.simps)
        (auto simp: found_def find_offset_body_def bnd_def word_less_nat_alt unat_u32_of_int half_def)
  qed
next
  case (Cons e es)
  let ?base = "desc_addr (queue s ! q)"
  show ?case
  proof (cases "is_write d = tq \<and> \<not> off < unat (dlen d)")
    case True
    then have le: "dlen d \<le> u32_of_int (int off)" and o: "unat (u32_of_int (int off)) = off"
      using Cons.prems by (simp_all add: word_le_nat_alt unat_u32_of_int)
    have u: "unat (u32_of_int (int off) - dlen d) = off - unat (dlen d)" using le by (simp add: unat_sub o)
    then have "int_of_u32 (u32_of_int (int off) - dlen d) = int (off - unat (dlen d))"
      using Cons.prems(3) by (subst int_of_u32_small) (simp_all only: u)
    then have "find_offset_body ops tq q (d, int off) s = Some (Inr (Again (e, int (off - unat (dlen d))), s))"
      using True Cons.prems o by (simp add: find_offset_body_def bnd_run get_desc_run [OF ram] word_less_nat_alt del: of_nat_diff)
    then have "find_offset_desc ops tq q d (int off) s = find_offset_desc ops tq q e (int (off - unat (dlen d))) s"
      by (simp add: find_offset_desc_def loop_again)
    moreover have "drop off A = drop (off - unat (dlen d)) (desc_addrs (half tq (e # es)))"
      "off < length A \<longleftrightarrow> off - unat (dlen d) < length (desc_addrs (half tq (e # es)))"
      using True Cons.prems by (auto simp: half_Cons)
    moreover have "\<exists>r. find_offset_desc ops tq q e (int (off - unat (dlen d))) s = Some (Inr (r, s)) \<and>
        found (mem (dma s)) ?base tq (desc_addrs (half tq (e # es))) (off - unat (dlen d)) (table ?base (e # es)) r"
      using Cons.prems by (intro Cons.IH) simp_all
    ultimately show ?thesis
      using found_shift [OF _ _ _ table_sub [of ?base e es d]] by (auto simp del: of_nat_diff)
  next
    case False
    with Cons.prems show ?thesis
      by (subst find_offset_desc_def, subst loop.simps)
        (auto simp: found_def find_offset_body_def bnd_def word_less_nat_alt unat_u32_of_int half_Cons half_stop intro!: exI [of _ "e # es"])
  qed
qed


lemma linked_dropWhile:
  "linked f base d ds \<Longrightarrow> dropWhile P (d # ds) = e # es \<Longrightarrow>
     linked f base e es \<and> table base (e # es) \<subseteq> table base (d # ds)"
proof (induction ds arbitrary: d)
  case (Cons a as)
  then show ?case using table_sub [of base a as d] by (cases "P d") (auto simp del: dropWhile.simps(2) simp add: dropWhile.simps(2) [of P d])
qed (simp split: if_splits)

lemma find_write_run:
  assumes ram: "on_ram ops mem q s"
  shows "linked (mem (dma s)) (desc_addr (queue s ! q)) d ds \<Longrightarrow>
    find_write_desc ops q d s = Some (Inr (case dropWhile (\<lambda>d. \<not> is_write d) (d # ds) of [] \<Rightarrow> None | e # es \<Rightarrow> Some e, s))"
proof (induction ds arbitrary: d)
  case Nil
  then show ?case by (subst find_write_desc_def, subst loop.simps) (simp add: find_write_body_def bnd_def)
next
  case (Cons e es)
  show ?case
  proof (cases "is_write d")
    case True
    with Cons.prems show ?thesis
      by (subst find_write_desc_def, subst loop.simps) (simp add: find_write_body_def bnd_def)
  next
    case False
    with Cons.prems have "find_write_body ops q d s = Some (Inr (Again e, s))"
      by (simp add: find_write_body_def bnd_def get_desc_run [OF ram])
    then have "find_write_desc ops q d s = find_write_desc ops q e s"
      by (simp add: find_write_desc_def loop_again)
    with False Cons.IH [of e] Cons.prems show ?thesis by simp
  qed
qed

lemma memcpy_from_queue_run:
  fixes off count :: nat
  assumes ram: "on_ram ops mem q s" and ch: "chain (mem (dma s)) (desc_addr (queue s ! q)) i ds"
    and "list_all small ds" and "off < 2147483648" and "count < 2147483648" and "count \<le> length buf"
    and A: "A = desc_addrs (readable ds)"
  shows "memcpy_from_queue ops buf q i (int off) (int count) s =
    Some (Inr ((if count = 0 \<or> off + count \<le> length A then 0 else - 1,
      blit buf 0 (map (mem (dma s)) (take count (drop off A)))), s))"
proof (cases "count = 0")
  case True
  then show ?thesis by (simp add: memcpy_from_queue_def memcpy_to_from_queue_def)
next
  case False
  obtain d es where ds: "ds = d # es" using ch by (cases ds) (auto simp: chain_def)
  have d: "desc_at (mem (dma s)) (desc_addr (queue s ! q)) i = d"
    and l: "linked (mem (dma s)) (desc_addr (queue s ! q)) d es" using ch by (auto simp: chain_def ds)
  obtain r where r: "find_offset_desc ops False q d (int off) s = Some (Inr (r, s))"
    and f: "found (mem (dma s)) (desc_addr (queue s ! q)) False A off (table (desc_addr (queue s ! q)) (d # es)) r"
    using find_offset_run [OF ram l _ assms(4), of A False] assms(3) A by (auto simp: ds readable_def)
  have run: "memcpy_from_queue ops buf q i (int off) (int count) s =
      (case r of None \<Rightarrow> ret (- 1, buf) | Some (d, off) \<Rightarrow> copy_queue ops False q d off (int count) buf 0) s"
    using False r by (simp add: memcpy_from_queue_def memcpy_to_from_queue_def bnd_run get_desc_run [OF ram] d)
  show ?thesis
  proof (cases "off < length A")
    case True
    with f obtain e es' k where e: "r = Some (e, int k)" "k < unat (dlen e)" "\<not> is_write e"
      "linked (mem (dma s)) (desc_addr (queue s ! q)) e es'" "list_all small (e # es')"
      and D: "drop k (desc_addrs (half False (e # es'))) = drop off A" by (auto simp: found_def)
    have "copy_queue ops False q e (int k) (int count) buf (int 0) s =
      Some (Inr ((if count \<le> length (drop off A) then 0 else - 1, blit buf 0 (map (mem (dma s)) (take count (drop off A)))), s))"
      using e False assms(5,6) D by (intro copy_from_run [OF ram]) auto
    with run e(1) True False show ?thesis by (simp add: le_diff_conv2 add.commute)
  next
    case out: False
    with f have "r = None" by (simp add: found_def)
    with run out False show ?thesis by simp
  qed
qed

lemma memcpy_to_queue_run:
  fixes off count :: nat
  assumes ram: "on_ram ops mem q s" and ch: "chain (mem (dma s)) (desc_addr (queue s ! q)) i ds"
    and "list_all small ds" and "off < 2147483648" and "count < 2147483648" and "count \<le> length buf"
    and A: "A = desc_addrs (writable ds)"
    and dis: "set (take count (drop off A)) \<inter> table (desc_addr (queue s ! q)) ds = {}"
  shows "\<exists>m. memcpy_to_queue ops q i (int off) buf (int count) s =
      Some (Inr (if count = 0 \<or> off + count \<le> length A then 0 else - 1, s\<lparr>dma := m\<rparr>))
    \<and> mem m = write_list (mem (dma s)) (zip (take count (drop off A)) buf)"
proof (cases "count = 0")
  case True
  then show ?thesis
    by (intro exI [of _ "dma s"]) (simp add: memcpy_to_queue_def memcpy_to_from_queue_def bnd_run)
next
  case False
  let ?f = "mem (dma s)" and ?base = "desc_addr (queue s ! q)"
  obtain d es where ds: "ds = d # es" using ch by (cases ds) (auto simp: chain_def)
  have d: "desc_at ?f ?base i = d" and l: "linked ?f ?base d es" using ch by (auto simp: chain_def ds)
  note w = find_write_run [OF ram l, folded ds]
  show ?thesis
  proof (cases "dropWhile (\<lambda>d. \<not> is_write d) ds")
    case Nil
    then have "A = []" by (simp add: A writable_def del: dropWhile_eq_Nil_conv)
    with Nil w False show ?thesis
      by (intro exI [of _ "dma s"]) (simp add: memcpy_to_queue_def memcpy_to_from_queue_def bnd_run
          get_desc_run [OF ram] d del: dropWhile_eq_Nil_conv)
  next
    case (Cons e es')
    have le: "linked ?f ?base e es'" "table ?base (e # es') \<subseteq> table ?base ds"
      using linked_dropWhile [OF l Cons [unfolded ds]] by (simp_all add: ds)
    have sm: "list_all small (e # es')" using assms(3) Cons
      by (metis list_all_append takeWhile_dropWhile_id)
    obtain r where r: "find_offset_desc ops True q e (int off) s = Some (Inr (r, s))"
      and f: "found ?f ?base True A off (table ?base (e # es')) r"
      using find_offset_run [OF ram le(1) sm assms(4), of A True] A Cons by (auto simp: writable_def)
    have run: "memcpy_to_queue ops q i (int off) buf (int count) s =
        bnd (case r of None \<Rightarrow> ret (- 1, buf) | Some (d, off) \<Rightarrow> copy_queue ops True q d off (int count) buf 0)
          (\<lambda>r. ret (fst r)) s"
      using False r w Cons
      by (simp add: memcpy_to_queue_def memcpy_to_from_queue_def bnd_assoc bnd_run get_desc_run [OF ram] d)
    show ?thesis
    proof (cases "off < length A")
      case True
      with f obtain a as k where e: "r = Some (a, int k)" "k < unat (dlen a)" "is_write a"
        "linked ?f ?base a as" "list_all small (a # as)" "table ?base (a # as) \<subseteq> table ?base (e # es')"
        and D: "drop k (desc_addrs (half True (a # as))) = drop off A" by (auto simp: found_def)
      have "\<exists>m. copy_queue ops True q a (int k) (int count) buf (int 0) s =
        Some (Inr ((if count \<le> length (drop off A) then 0 else - 1, buf), s\<lparr>dma := m\<rparr>))
        \<and> mem m = write_list (mem (dma s)) (zip (take count (drop off A)) (take count (drop 0 buf)))"
        using e False assms(5,6) D dis le(2) by (intro copy_to_run [OF ram]) auto
      with run e(1) True False show ?thesis by (auto simp: bnd_run zip_take_right le_diff_conv2 add.commute)
    next
      case out: False
      with f have "r = None" by (simp add: found_def)
      with run out False show ?thesis by (intro exI [of _ "dma s"]) (simp add: bnd_run)
    qed
  qed
qed

section \<open>The used ring\<close>

text \<open>The memory after an element has been appended to a used ring.\<close>

definition used_idx_at :: "ram \<Rightarrow> u64 \<Rightarrow> u16" where
  "used_idx_at f used = get_le16 (map f (seg_addrs (used + 2) 2))"

definition used_elem :: "u64 \<Rightarrow> u32 \<Rightarrow> u16 \<Rightarrow> u64" where
  "used_elem used n idx = used + 4 + ucast ((ucast idx AND (n - 1)) * 8)"

definition used_push :: "ram \<Rightarrow> u64 \<Rightarrow> u32 \<Rightarrow> u16 \<Rightarrow> int \<Rightarrow> ram" where
  "used_push f used n i len =
     (let idx = used_idx_at f used; e = dma_offset (used_elem used n idx) in
      store (store (store f e (put_le32 (ucast i))) (e + 4) (put_le32 (u32_of_int len)))
        (dma_offset (used + 2)) (put_le16 (idx + 1)))"

lemma ucast_up_down: "(ucast (ucast (x :: u32) :: u64) :: u32) = x"
  by (rule bit_word_eqI) (simp add: bit_simps)

lemma used_elem_aligned:
  assumes "dma_offset used AND 3 = 0"
  shows "dma_offset (used_elem used n idx) AND 3 = 0" and "dma_offset (used_elem used n idx + 4) AND 3 = 0"
proof -
  have "dma_offset (used_elem used n idx) = dma_offset used + 4 + (ucast idx AND (n - 1)) * 8"
    unfolding used_elem_def by (simp add: dma_offset_add ucast_up_down)
  then show e: "dma_offset (used_elem used n idx) AND 3 = 0"
    by (simp add: aligned_add assms aligned_mult)
  then show "dma_offset (used_elem used n idx + 4) AND 3 = 0" by (simp add: dma_offset_add aligned_add)
qed

lemma used_idx_even: "dma_offset used AND 3 = 0 \<Longrightarrow> dma_offset (used + 2) AND 1 = 0"
proof -
  assume "dma_offset used AND 3 = 0"
  then have "unat (dma_offset used) mod 2 = 0" unfolding and3_mod by presburger
  then show ?thesis unfolding and1_mod by (simp add: dma_offset_add unat_word_ariths dvd2_mod)
qed

lemma u16_suc: "(ucast (ucast (x :: u16) + 1 :: u32) :: u16) = x + 1"
proof -
  have "unat x < 65536" using unsigned_less [of x, where 'a = nat] by simp
  then show ?thesis by (simp add: word_unat_eq_iff unsigned_ucast_eq unat_word_ariths take_bit_eq_mod)
qed

lemma with_dma_run:
  "virtio_dma_fd s > 0 \<Longrightarrow> with_dma f s = Some (Inr (fst (f (dma s)), s\<lparr>dma := snd (f (dma s))\<rparr>))"
  by (simp add: with_dma_def split: prod.splits)

lemma consume_desc_run:
  assumes ram: "on_ram ops mem q s" and al: "dma_offset (used_addr (queue s ! q)) AND 3 = 0"
  shows "\<exists>m. virtio_consume_desc ops q i n s =
      Some (Inr ((), s\<lparr>dma := m, int_status := int_status s OR 1, irq := 1\<rparr>))
    \<and> mem m = used_push (mem (dma s)) (used_addr (queue s ! q)) (num (queue s ! q)) i n"
proof -
  let ?u = "used_addr (queue s ! q)" and ?n = "num (queue s ! q)"
  let ?i = "used_idx_at (mem (dma s)) ?u"
  have R: "fmem_ram ops mem" "virtio_dma_fd s > 0" "q < length (queue s)" using ram by (simp_all add: on_ram_def)
  have rd: "fmem_read16 ops (dma_offset (?u + 2)) (dma s) = (?i, dma s)"
    by (simp add: fmem_read16_ram [OF R(1) used_idx_even [OF al]] used_idx_at_def seg_addrs_def upt_rec)
  define m1 where "m1 = snd (fmem_write32 ops (dma_offset (used_elem ?u ?n ?i)) (ucast i) (dma s))"
  define m2 where "m2 = snd (fmem_write32 ops (dma_offset (used_elem ?u ?n ?i + 4)) (u32_of_int n) m1)"
  define m3 where "m3 = snd (fmem_write16 ops (dma_offset (?u + 2)) (?i + 1) m2)"
  have "virtio_consume_desc ops q i n s = Some (Inr ((), s\<lparr>dma := m3, int_status := int_status s OR 1, irq := 1\<rparr>))"
    using R by (simp add: virtio_consume_desc_def get_queue_def bnd_run virtio_read16_def with_dma_run rd Let_def
        virtio_write32_def virtio_write16_def andthen_run raise_int_def set_irq_def u16_suc
        m3_def m2_def m1_def used_elem_def)
  moreover have "mem m3 = used_push (mem (dma s)) ?u ?n i n"
    using used_elem_aligned [OF al] used_idx_even [OF al]
    by (simp add: m3_def m2_def m1_def fmem_write16_ram [OF R(1)] fmem_write32_ram [OF R(1)] used_push_def Let_def dma_offset_add)
  ultimately show ?thesis by blast
qed

section \<open>Requests\<close>

text \<open>A request on queue \<open>q\<close> of a device over a memory: its chain and what the guest put in it.\<close>

definition request :: "'m fmem_ops \<Rightarrow> ('m \<Rightarrow> ram) \<Rightarrow> nat \<Rightarrow> u16 \<Rightarrow> virtio_desc list \<Rightarrow> ('m, 'z) virtio_device_scheme \<Rightarrow> bool" where
  "request ops mem q i ds s \<longleftrightarrow> on_ram ops mem q s \<and> dma_offset (used_addr (queue s ! q)) AND 3 = 0
     \<and> chain (mem (dma s)) (desc_addr (queue s ! q)) i ds \<and> list_all small ds"

definition sent :: "('m \<Rightarrow> ram) \<Rightarrow> virtio_desc list \<Rightarrow> ('m, 'z) virtio_device_scheme \<Rightarrow> bytes" where
  "sent mem ds s = map (mem (dma s)) (desc_addrs (readable ds))"

lemma request_read:
  assumes "request ops mem q i ds s" and "int (length (sent mem ds s)) < 2147483648"
    and "off + count \<le> length (sent mem ds s)" and "length buf = count"
  shows "memcpy_from_queue ops buf q i (int off) (int count) s =
    Some (Inr ((0, take count (drop off (sent mem ds s))), s))"
proof -
  let ?A = "desc_addrs (readable ds)"
  have l: "length ?A = length (sent mem ds s)" by (simp add: sent_def)
  have "memcpy_from_queue ops buf q i (int off) (int count) s =
      Some (Inr ((if count = 0 \<or> off + count \<le> length ?A then 0 else - 1,
        blit buf 0 (map (mem (dma s)) (take count (drop off ?A)))), s))"
    using assms l by (intro memcpy_from_queue_run) (auto simp: request_def)
  moreover have "blit buf 0 (map (mem (dma s)) (take count (drop off ?A))) = take count (drop off (sent mem ds s))"
    using assms(3,4) by (subst blit_0_full) (auto simp: sent_def take_map drop_map)
  ultimately show ?thesis using assms(3) l by simp
qed

lemma zip_take_left: "zip (take (length ys) xs) ys = zip xs ys"
  using take_zip [of "length ys" xs ys] by simp

lemma request_write:
  assumes "request ops mem q i ds s" and "length bs \<le> length (desc_addrs (writable ds))" and "length bs < 2147483648"
    and "set (take (length bs) (desc_addrs (writable ds))) \<inter> table (desc_addr (queue s ! q)) ds = {}"
  shows "\<exists>m. memcpy_to_queue ops q i 0 bs (int (length bs)) s = Some (Inr (0, s\<lparr>dma := m\<rparr>))
    \<and> mem m = write_list (mem (dma s)) (zip (desc_addrs (writable ds)) bs)"
  using assms memcpy_to_queue_run [of ops mem q s i ds 0 "length bs" bs "desc_addrs (writable ds)"]
  by (auto simp: request_def zip_take_left)

lemma request_reply:
  assumes "request ops mem q i ds s" and "length bs \<le> length (desc_addrs (writable ds))" and "length bs < 2147483648"
    and "set (take (length bs) (desc_addrs (writable ds))) \<inter> table (desc_addr (queue s ! q)) ds = {}"
  shows "\<exists>m. bnd (memcpy_to_queue ops q i 0 bs (int (length bs))) (\<lambda>_. virtio_consume_desc ops q i n) s =
      Some (Inr ((), s\<lparr>dma := m, int_status := int_status s OR 1, irq := 1\<rparr>))
    \<and> mem m = used_push (write_list (mem (dma s)) (zip (desc_addrs (writable ds)) bs))
        (used_addr (queue s ! q)) (num (queue s ! q)) i n"
proof -
  obtain m where m: "memcpy_to_queue ops q i 0 bs (int (length bs)) s = Some (Inr (0, s\<lparr>dma := m\<rparr>))"
    "mem m = write_list (mem (dma s)) (zip (desc_addrs (writable ds)) bs)"
    using request_write [OF assms] by blast
  have "on_ram ops mem q (s\<lparr>dma := m\<rparr>)" "dma_offset (used_addr (queue (s\<lparr>dma := m\<rparr>) ! q)) AND 3 = 0"
    using assms by (simp_all add: request_def on_ram_dma)
  then obtain m' where "virtio_consume_desc ops q i n (s\<lparr>dma := m\<rparr>) = Some (Inr ((), s\<lparr>dma := m', int_status := int_status s OR 1, irq := 1\<rparr>))"
    "mem m' = used_push (mem m) (used_addr (queue s ! q)) (num (queue s ! q)) i n"
    using consume_desc_run [of ops mem q "s\<lparr>dma := m\<rparr>" i n] by auto
  with m show ?thesis by (auto simp: bnd_run)
qed

text \<open>All the bytes of the descriptors of a chain; writing elsewhere leaves the request alone.\<close>

definition chain_addrs :: "u64 \<Rightarrow> u16 \<Rightarrow> virtio_desc list \<Rightarrow> u32 set" where
  "chain_addrs base i ds = set (seg_addrs (base + ucast i * 16) 16) \<union> table base ds"

lemma chain_write_list:
  assumes "chain f base i ds" and "set xs \<inter> chain_addrs base i ds = {}"
  shows "chain (write_list f (zip xs ys)) base i ds"
proof -
  have o: "write_list f (zip xs ys) a = f a" if "a \<in> chain_addrs base i ds" for a
  proof (rule write_list_other)
    show "a \<notin> fst ` set (zip xs ys)" using that assms(2) by (auto dest: set_zip_leftD)
  qed
  obtain d es where ds: "ds = d # es" using assms(1) by (cases ds) (auto simp: chain_def)
  have "linked f base d es" using assms(1) by (simp add: chain_def ds)
  then have "linked (write_list f (zip xs ys)) base (hd ds) (tl ds)"
    by (simp add: ds) (erule linked_cong, simp add: o chain_addrs_def ds)
  moreover have "desc_at (write_list f (zip xs ys)) base i = desc_at f base i"
    by (rule desc_at_cong) (simp add: o chain_addrs_def)
  ultimately show ?thesis using assms(1) by (simp add: chain_def)
qed

lemma request_frame:
  assumes "request ops mem q i ds s" and "mem m = write_list (mem (dma s)) (zip xs ys)"
    and "set xs \<inter> chain_addrs (desc_addr (queue s ! q)) i ds = {}"
  shows "request ops mem q i ds (s\<lparr>dma := m\<rparr>)"
  using assms chain_write_list by (simp add: request_def on_ram_dma)

lemma request_write_at:
  assumes "request ops mem q i ds s" and "off + length bs \<le> length (desc_addrs (writable ds))"
    and "length (desc_addrs (writable ds)) < 2147483648"
    and "set (desc_addrs (writable ds)) \<inter> chain_addrs (desc_addr (queue s ! q)) i ds = {}"
    and "length bs \<le> length buf" "take (length bs) buf = bs"
  shows "\<exists>m. memcpy_to_queue ops q i (int off) buf (int (length bs)) s = Some (Inr (0, s\<lparr>dma := m\<rparr>))
    \<and> mem m = write_list (mem (dma s)) (zip (drop off (desc_addrs (writable ds))) bs)"
proof -
  let ?W = "desc_addrs (writable ds)"
  have "set (take (length bs) (drop off ?W)) \<subseteq> set ?W" by (meson set_drop_subset set_take_subset subset_trans)
  then have "set (take (length bs) (drop off ?W)) \<inter> table (desc_addr (queue s ! q)) ds = {}"
    using assms(4) by (auto simp: chain_addrs_def)
  moreover have "zip (take (length bs) (drop off ?W)) buf = zip (drop off ?W) bs"
  proof -
    have "zip (take (length bs) (drop off ?W)) buf = zip (take (length bs) (drop off ?W)) (take (length bs) buf)"
      by (rule zip_take_right [symmetric]) simp
    then show ?thesis by (simp add: assms(6) zip_take_left)
  qed
  ultimately show ?thesis
    using assms memcpy_to_queue_run [of ops mem q s i ds off "length bs" buf ?W] by (auto simp: request_def)
qed

lemma lens_length:
  assumes "length (desc_addrs ds) < 4294967296"
  shows "unat (lens ds) = length (desc_addrs ds)"
  using assms
proof (induction ds)
  case (Cons d ds)
  then have "unat (lens ds) = length (desc_addrs ds)" by simp
  moreover have "unat (dlen d) + length (desc_addrs ds) < 4294967296" using Cons.prems by simp
  ultimately show ?case by (simp add: lens_def unat_word_ariths)
qed (simp add: lens_def)

lemma request_sizes:
  assumes "request ops mem q i ds s" and "list_all is_write (dropWhile (\<lambda>d. \<not> is_write d) ds)"
    and "length (desc_addrs (readable ds)) < 2147483648" and "length (desc_addrs (writable ds)) < 2147483648"
  shows "get_desc_rw_size ops q i s =
    Some (Inr (Some (int (length (desc_addrs (readable ds))), int (length (desc_addrs (writable ds)))), s))"
proof -
  have "int_of_u32 (lens xs) = int (length (desc_addrs xs))" if "length (desc_addrs xs) < 2147483648" for xs
    using that lens_length [of xs] by (subst int_of_u32_small) auto
  then show ?thesis using assms get_desc_rw_size_run [of ops mem q s i ds] by (simp add: request_def)
qed

text \<open>Two writes one after the other are one.\<close>

lemma write_list_split:
  assumes "length xs = off" and "off + length ys \<le> length W"
  shows "write_list (write_list f (zip W xs)) (zip (drop off W) ys) = write_list f (zip W (xs @ ys))"
proof -
  have "zip W (xs @ ys) = zip (take off W @ drop off W) (xs @ ys)" by simp
  also have "\<dots> = zip (take off W) xs @ zip (drop off W) ys"
    using assms by (subst zip_append) simp_all
  also have "zip (take off W) xs = zip W xs" using assms(1) zip_take_left [of xs W] by simp
  finally show ?thesis by (simp add: write_list_append)
qed

lemma request_consume:
  assumes "request ops mem q i ds s"
  shows "\<exists>m. virtio_consume_desc ops q j n s =
      Some (Inr ((), s\<lparr>dma := m, int_status := int_status s OR 1, irq := 1\<rparr>))
    \<and> mem m = used_push (mem (dma s)) (used_addr (queue s ! q)) (num (queue s ! q)) j n"
  using assms by (intro consume_desc_run) (simp_all add: request_def)

section \<open>A notification with one request\<close>

text \<open>
  \<open>pending mem q i s\<close>: since the last notification the guest has made one more entry of the available
  ring of queue \<open>q\<close> available, and it names the chain that starts at descriptor \<open>i\<close>.
\<close>

definition ring16 :: "ram \<Rightarrow> u64 \<Rightarrow> u16" where
  "ring16 f a = get_le16 (map f (seg_addrs a 2))"

definition pending :: "('m \<Rightarrow> ram) \<Rightarrow> nat \<Rightarrow> u16 \<Rightarrow> ('m, 'z) virtio_device_scheme \<Rightarrow> bool" where
  "pending mem q i s \<longleftrightarrow> (let qs = queue s ! q in \<not> manual_recv qs \<and> dma_offset (avail_addr qs) AND 1 = 0
     \<and> ring16 (mem (dma s)) (avail_addr qs + 2) = last_avail_idx qs + 1
     \<and> ring16 (mem (dma s)) (avail_entry_addr qs) = i)"

definition noticed :: "nat \<Rightarrow> ('m, 'z) virtio_device_scheme \<Rightarrow> ('m, 'z) virtio_device_scheme" where
  "noticed q s = s\<lparr>queue := (queue s)[q := (queue s ! q)\<lparr>avail_idx := last_avail_idx (queue s ! q) + 1\<rparr>]\<rparr>"

definition served :: "nat \<Rightarrow> ('m, 'z) virtio_device_scheme \<Rightarrow> ('m, 'z) virtio_device_scheme" where
  "served q s = s\<lparr>queue := (queue s)[q := (queue s ! q)\<lparr>last_avail_idx := last_avail_idx (queue s ! q) + 1\<rparr>]\<rparr>"

lemma even_add: "(a :: u32) AND 1 = 0 \<Longrightarrow> b AND 1 = 0 \<Longrightarrow> (a + b) AND 1 = 0"
  unfolding and1_mod by (simp add: unat_word_ariths dvd2_mod) presburger

lemma even_mult2: "(x * 2 :: u32) AND 1 = 0"
  unfolding and1_mod by (simp add: unat_word_ariths dvd2_mod)

lemma avail_entry_even: "dma_offset (avail_addr qs) AND 1 = 0 \<Longrightarrow> dma_offset (avail_entry_addr qs) AND 1 = 0"
  unfolding avail_entry_addr_def dma_offset_add ucast_up_down
  by (intro even_add even_mult2) simp_all

lemma read16_run:
  assumes "fmem_ram ops mem" and "virtio_dma_fd s > 0" and "dma_offset a AND 1 = 0"
  shows "virtio_read16 ops a s = Some (Inr (ring16 (mem (dma s)) a, s))"
  using fmem_read16_ram [OF assms(1,3), of "dma s"] assms(2)
  by (simp add: virtio_read16_def with_dma_def ring16_def numeral_2_eq_2 seg_addrs_Suc dma_offset_add)

lemma request_noticed [simp]: "request ops mem q i ds (noticed q s) = request ops mem q i ds s"
  by (cases "q < length (queue s)") (auto simp: request_def on_ram_def noticed_def)

lemma noticed_sel [simp]:
  "dma (noticed q s) = dma s" "sent mem ds (noticed q s) = sent mem ds s" "int_status (noticed q s) = int_status s"
  "virtio_device.more (noticed q s) = virtio_device.more s"
  "q < length (queue s) \<Longrightarrow> desc_addr (queue (noticed q s) ! q) = desc_addr (queue s ! q)"
  "q < length (queue s) \<Longrightarrow> used_addr (queue (noticed q s) ! q) = used_addr (queue s ! q)"
  "q < length (queue s) \<Longrightarrow> num (queue (noticed q s) ! q) = num (queue s ! q)"
  "q < length (queue s) \<Longrightarrow> last_avail_idx (queue (noticed q s) ! q) = last_avail_idx (queue s ! q)"
  "length (queue (noticed q s)) = length (queue s)"
  by (simp_all add: noticed_def sent_def)

lemma served_sel [simp]:
  "dma (served q s) = dma s" "irq (served q s) = irq s" "int_status (served q s) = int_status s"
  "virtio_device.more (served q s) = virtio_device.more s"
  "q < length (queue s) \<Longrightarrow> last_avail_idx (queue (served q s) ! q) = last_avail_idx (queue s ! q) + 1"
  by (simp_all add: served_def)

lemma request_queue: "request ops mem q i ds s \<Longrightarrow> q < length (queue s)"
  by (simp add: request_def on_ram_def)

lemma notify_one:
  assumes rq: "request ops mem q i ds s" and new: "pending mem q i s"
    and ok: "list_all is_write (dropWhile (\<lambda>d. \<not> is_write d) ds)"
    and r: "r = length (desc_addrs (readable ds))" "r < 2147483648"
    and w: "w = length (desc_addrs (writable ds))" "w < 2147483648"
    and run: "recv q i (int r) (int w) (noticed q s) = Some (Inr (v, t))" "0 \<le> v" "queue t = queue (noticed q s)"
  shows "queue_notify ops recv q s = Some (Inr ((), served q t))"
proof -
  let ?qs = "queue s ! q" and ?s1 = "noticed q s"
  define body where "body = notify_body ops recv q (last_avail_idx ?qs + 1)"
  have ram: "fmem_ram ops mem" "virtio_dma_fd s > 0" "q < length (queue s)"
    using rq by (simp_all add: request_def on_ram_def)
  have al: "dma_offset (avail_addr ?qs) AND 1 = 0" and i: "ring16 (mem (dma s)) (avail_entry_addr ?qs) = i"
    and idx: "ring16 (mem (dma s)) (avail_addr ?qs + 2) = last_avail_idx ?qs + 1" and man: "\<not> manual_recv ?qs"
    using new by (simp_all add: pending_def Let_def)
  have qs1: "queue ?s1 ! q = ?qs\<lparr>avail_idx := last_avail_idx ?qs + 1\<rparr>" "length (queue ?s1) = length (queue s)"
    "dma ?s1 = dma s" "virtio_dma_fd ?s1 = virtio_dma_fd s"
    using ram(3) by (simp_all add: noticed_def)
  have idx_even: "dma_offset (avail_addr ?qs + 2) AND 1 = 0"
    unfolding dma_offset_add using al by (intro even_add) simp_all
  have rd1: "virtio_read16 ops (avail_addr ?qs + 2) s = Some (Inr (last_avail_idx ?qs + 1, s))"
    using read16_run [OF ram(1,2) idx_even] idx by simp
  have set1: "set_queue q (\<lambda>qs. qs\<lparr>avail_idx := last_avail_idx ?qs + 1\<rparr>) s = Some (Inr ((), ?s1))"
    using ram(3) by (simp add: set_queue_def noticed_def)
  have e1: "avail_entry_addr (queue ?s1 ! q) = avail_entry_addr ?qs" by (simp add: avail_entry_addr_def qs1)
  have rd2: "virtio_read16 ops (avail_entry_addr (queue ?s1 ! q)) ?s1 = Some (Inr (i, ?s1))"
    using read16_run [OF ram(1), of ?s1 "avail_entry_addr ?qs"] avail_entry_even [OF al] i ram(2)
    unfolding e1 by (simp add: qs1)
  have sizes: "get_desc_rw_size ops q i ?s1 = Some (Inr (Some (int r, int w), ?s1))"
    using request_sizes [of ops mem q i ds ?s1] rq ok r w by simp
  have adv: "advance_avail q t = Some (Inr ((), served q t))"
    using run(3) ram(3) by (simp add: advance_avail_def set_queue_def served_def noticed_def)
  have "body () ?s1 = Some (Inr (Again (), served q t))"
    using ram(3) rd2 sizes run(1,2) adv
    by (simp add: body_def notify_body_def get_queue_def bnd_run andthen_run qs1)
  then have "loop body () ?s1 = loop body () (served q t)" by (rule loop_again)
  also have "\<dots> = Some (Inr ((), served q t))"
  proof (rule loop_done)
    have "queue (served q t) ! q = (queue ?s1 ! q)\<lparr>last_avail_idx := last_avail_idx ?qs + 1\<rparr>" "q < length (queue (served q t))"
      using run(3) ram(3) qs1 by (simp_all add: served_def)
    then show "body () (served q t) = Some (Inr (Done (), served q t))"
      by (simp add: body_def notify_body_def get_queue_def bnd_run)
  qed
  finally show ?thesis
    using rd1 set1 man ram(3) by (simp add: queue_notify_def get_queue_def bnd_run andthen_run body_def)
qed

section \<open>Chains that are not well formed\<close>

text \<open>
  A set of descriptors closed under following the chain: nothing ends the size loops (or the
  copy loops) once they are inside.
\<close>

definition endless :: "ram \<Rightarrow> u64 \<Rightarrow> bool \<Rightarrow> virtio_desc set \<Rightarrow> bool" where
  "endless f base w D \<longleftrightarrow> (\<forall>d \<in> D. has_next d \<and> is_write d = w \<and> desc_at f base (dnext d) \<in> D)"

lemma rw_size_read_endless:
  assumes "on_ram ops mem q s" and "endless (mem (dma s)) (desc_addr (queue s ! q)) False D" and "d \<in> D"
  shows "loop (rw_size_read_body ops q) (d, n) s = None"
proof (rule loop_diverges [where D = "\<lambda>x t. fst x \<in> D \<and> t = s"])
  fix x :: "virtio_desc \<times> u32" and t
  assume "fst x \<in> D \<and> t = s"
  then show "\<exists>x' t'. rw_size_read_body ops q x t = Some (Inr (Again x', t')) \<and> fst x' \<in> D \<and> t' = s"
    using assms by (cases x) (auto simp: rw_size_read_body_def endless_def bnd_run get_desc_run [of ops mem])
qed (use assms in simp)

lemma rw_size_write_endless:
  assumes "on_ram ops mem q s" and "endless (mem (dma s)) (desc_addr (queue s ! q)) True D" and "d \<in> D"
  shows "loop (rw_size_write_body ops q) (d, n) s = None"
proof (rule loop_diverges [where D = "\<lambda>x t. fst x \<in> D \<and> t = s"])
  fix x :: "virtio_desc \<times> u32" and t
  assume "fst x \<in> D \<and> t = s"
  then show "\<exists>x' t'. rw_size_write_body ops q x t = Some (Inr (Again x', t')) \<and> fst x' \<in> D \<and> t' = s"
    using assms by (cases x) (auto simp: rw_size_write_body_def endless_def bnd_run get_desc_run [of ops mem])
qed (use assms in simp)

lemma get_desc_rw_size_endless:
  assumes ram: "on_ram ops mem q s" and D: "endless (mem (dma s)) (desc_addr (queue s ! q)) w D"
    and "desc_at (mem (dma s)) (desc_addr (queue s ! q)) i \<in> D"
  shows "get_desc_rw_size ops q i s = None"
proof (cases w)
  case False
  then show ?thesis using assms rw_size_read_endless [OF ram _ assms(3)]
    by (simp add: get_desc_rw_size_def bnd_run get_desc_run [OF ram])
next
  case True
  let ?d = "desc_at (mem (dma s)) (desc_addr (queue s ! q)) i"
  have "is_write ?d" using D assms(3) True by (simp add: endless_def)
  then have "loop (rw_size_read_body ops q) (?d, 0) s = Some (Inr ((0, Some ?d), s))"
    by (simp add: loop_done rw_size_read_body_def)
  then show ?thesis using assms True rw_size_write_endless [OF ram _ assms(3)]
    by (simp add: get_desc_rw_size_def bnd_run get_desc_run [OF ram])
qed

text \<open>
  A first descriptor of length 0xffffffff has length -1 as an \<open>int\<close>: the copy goes one byte back
  before the buffer and asks for one byte more than the caller did.
\<close>

lemma copy_negative_length:
  assumes ram: "on_ram ops mem q s" and ch: "chain (mem (dma s)) (desc_addr (queue s ! q)) i (d # e # es)"
    and d: "dlen d = 0xffffffff" "\<not> is_write d" and e: "\<not> is_write e" "count < unat (dlen e)" "small e"
    and "0 < count"
  shows "memcpy_from_queue ops buf q i 0 (int count) s = Some (Inl OutOfBounds)"
proof -
  have dd: "desc_at (mem (dma s)) (desc_addr (queue s ! q)) i = d" "has_next d"
     "desc_at (mem (dma s)) (desc_addr (queue s ! q)) (dnext d) = e" using ch by (auto simp: chain_def)
  have fo: "find_offset_desc ops False q d 0 s = Some (Inr (Some (d, 0), s))"
    using d by (subst find_offset_desc_def, subst loop.simps)
      (simp add: find_offset_body_def bnd_run u32_of_int_def)
  have c: "int count < 2147483648" "int count < 2147483647" using e by (simp_all add: small_def)
  have l: "min_int (int count) (int_of_u32 (dlen d - u32_of_int 0)) = - 1"
    and l': "min_int (int count) (int_of_u32 0xffffffff) = - 1"
    using \<open>0 < count\<close> d(1) by (simp_all add: min_int_def int_of_u32_def u32_of_int_def)
  have b1: "copy_body ops False q (d, 0, int count, buf, 0) s = Some (Inr (Again (e, 0, int count + 1, buf, - 1), s))"
    using c dd d e(1) ram
    by (simp add: copy_body_def l l' Let_def copy_segment_def bnd_run memcpy_from_ram_run [of ops mem] on_ram_def
        poke_def cint_run int_in_range_def u32_of_int_def get_desc_run [OF ram] cong: if_cong)
  have l2: "min_int (int count + 1) (int_of_u32 (dlen e - u32_of_int 0)) = int count + 1"
    using seg_left [OF e(3), of 0 "count + 1"] e(2) c by (simp add: add.commute)
  have "copy_body ops False q (e, 0, int count + 1, buf, - 1) s = Some (Inl OutOfBounds)"
  proof -
    have "nat (int count + 1) = Suc count" by simp
    then have "copy_segment ops False (daddr e) (int count + 1) buf (- 1) s = Some (Inl OutOfBounds)"
      using ram by (simp add: copy_segment_def bnd_run memcpy_from_ram_run [of ops mem] on_ram_def
        poke_def in_array_def seg_addrs_Suc)
    then show ?thesis by (simp add: copy_body_def l2 Let_def bnd_run)
  qed
  with b1 fo show ?thesis using \<open>0 < count\<close>
    by (simp add: memcpy_from_queue_def memcpy_to_from_queue_def bnd_run get_desc_run [OF ram] dd
      copy_queue_def loop_again loop_fault)
qed

end
