(* ===== verification/Sample.thy ===== *)
theory Sample
  imports Virtio_Chain
begin

text \<open>
  A concrete guest, for the witnesses of the development: a memory with a descriptor table, an
  available ring with one new entry, an empty used ring, a request of two descriptors (one the device
  reads, one it writes), and a device whose eight queues all point there.
\<close>

unbundle bit_operations_syntax

section \<open>Memory\<close>

definition desc_bytes :: "virtio_desc \<Rightarrow> bytes" where
  "desc_bytes d = put_le64 (daddr d) @ put_le32 (dlen d) @ put_le16 (dflags d) @ put_le16 (dnext d)"

lemma length_desc_bytes [simp]: "length (desc_bytes d) = 16"
  by (simp add: desc_bytes_def le64.enc_length le32.enc_length le16.enc_length)

lemma decode_desc_bytes: "decode_desc (desc_bytes d) = d"
proof -
  have "get_le16 (put_le16 w) = w" for w using le16.dec_enc [of w "[]"] by simp
  then show ?thesis
    by (simp add: decode_desc_def desc_bytes_def le64.dec_enc le32.dec_enc le16.dec_enc
        le64.enc_length le32.enc_length le16.enc_length)
qed

definition sample_rd :: "nat \<Rightarrow> virtio_desc" where
  "sample_rd r = \<lparr>daddr = 0xc0001000, dlen = of_nat r, dflags = VRING_DESC_F_NEXT, dnext = 1\<rparr>"

definition sample_wr :: "nat \<Rightarrow> virtio_desc" where
  "sample_wr w = \<lparr>daddr = 0xc0010000, dlen = of_nat w, dflags = VRING_DESC_F_WRITE, dnext = 0\<rparr>"

text \<open>The table at 0, the available ring at 0x100, the used ring at 0x200, the request at 0x1000.\<close>

definition sample_ram :: "nat \<Rightarrow> bytes \<Rightarrow> ram" where
  "sample_ram w hdr = store (store (store (\<lambda>_. 0) 0 (desc_bytes (sample_rd (length hdr)) @ desc_bytes (sample_wr w)))
     0x102 [1, 0]) 0x1000 hdr"

abbreviation sample_chain :: "nat \<Rightarrow> bytes \<Rightarrow> virtio_desc list" where
  "sample_chain w hdr \<equiv> [sample_rd (length hdr), sample_wr w]"

text \<open>Reading back what is stored, and what is stored elsewhere.\<close>

lemma store_read: "length bs \<le> 4294967296 \<Longrightarrow> k + n \<le> length bs \<Longrightarrow>
    map (store f a bs) (map (\<lambda>i. a + of_nat k + of_nat i) [0..<n]) = take n (drop k bs)"
  by (rule nth_equalityI) (simp_all add: store_here add.assoc flip: of_nat_add)

lemma store_below:
  assumes "unat x < unat a" and "unat a + length bs \<le> 4294967296"
  shows "store f a bs x = f x"
proof (rule store_other)
  fix i
  assume i: "i < length bs"
  then have "unat (a + of_nat i) = unat a + i"
    using assms(2) by (simp add: unat_word_ariths unat_of_nat)
  then show "x \<noteq> a + of_nat i" using assms(1) by auto
qed

lemma store_above:
  assumes "unat a + length bs \<le> unat x"
  shows "store f a bs x = f x"
proof (rule store_other)
  fix i
  assume i: "i < length bs"
  moreover have "unat x < 4294967296" using unsigned_less [of x, where ?'a = nat] by simp
  ultimately have "unat (a + of_nat i) = unat a + i"
    using assms by (simp add: unat_word_ariths unat_of_nat)
  then show "x \<noteq> a + of_nat i" using assms i by auto
qed

lemma sample_table:
  assumes "unat x < 32" and "length hdr \<le> 0xf000"
  shows "sample_ram w hdr x = (desc_bytes (sample_rd (length hdr)) @ desc_bytes (sample_wr w)) ! unat x"
proof -
  have x: "x = of_nat (unat x)" by simp
  have "sample_ram w hdr x = store (\<lambda>_. 0) 0 (desc_bytes (sample_rd (length hdr)) @ desc_bytes (sample_wr w)) x"
    using assms by (simp add: sample_ram_def store_below del: store.simps)
  also have "\<dots> = (desc_bytes (sample_rd (length hdr)) @ desc_bytes (sample_wr w)) ! unat x"
    using store_here [of "unat x" "desc_bytes (sample_rd (length hdr)) @ desc_bytes (sample_wr w)" "\<lambda>_. 0" 0] assms(1)
    by simp
  finally show ?thesis .
qed

lemma sample_offset: "dma_offset (0xc0000000 + a) = ucast a"
  by (simp add: dma_offset_def)

text \<open>Two descriptors at the start of the memory.\<close>

lemma table_desc:
  assumes "\<And>x. unat x < 32 \<Longrightarrow> f x = (desc_bytes d @ desc_bytes e) ! unat x"
  shows "desc_at f 0xc0000000 0 = d" and "desc_at f 0xc0000000 1 = e"
proof -
  define b where "b = desc_bytes d @ desc_bytes e"
  have b: "length b = 32" "take 16 b = desc_bytes d" "take 16 (drop 16 b) = desc_bytes e"
    by (simp_all add: b_def)
  have "map f (seg_addrs (0xc0000000 + of_nat k * 16) 16) = take 16 (drop (16 * k) b)" if "k < 2" for k
  proof (rule nth_equalityI)
    fix i
    assume "i < length (map f (seg_addrs (0xc0000000 + of_nat k * 16) 16))"
    then have i: "i < 16" by simp
    have u: "unat (of_nat (k * 16 + i) :: u32) = k * 16 + i" using i that by (simp add: unat_of_nat del: of_nat_add of_nat_mult)
    have "(of_nat k * 16 :: u64) = of_nat (k * 16)" by simp
    then have "dma_offset (0xc0000000 + of_nat k * 16) = of_nat (k * 16)"
      by (simp only: sample_offset ucast_of_nat_down)
    then have "map f (seg_addrs (0xc0000000 + of_nat k * 16) 16) ! i = f (of_nat (k * 16 + i))"
      using i by (simp add: seg_addrs_def)
    also have "\<dots> = b ! (k * 16 + i)" using assms [of "of_nat (k * 16 + i)"] u i that by (simp add: b_def)
    finally show "map f (seg_addrs (0xc0000000 + of_nat k * 16) 16) ! i = take 16 (drop (16 * k) b) ! i"
      using i that b by (simp add: mult.commute)
  qed (use that b in auto)
  from this [of 0] this [of 1] show "desc_at f 0xc0000000 0 = d" "desc_at f 0xc0000000 1 = e"
    by (simp_all add: desc_at_def decode_desc_bytes b)
qed

lemma sample_desc:
  assumes "length hdr \<le> 0xf000"
  shows "desc_at (sample_ram w hdr) 0xc0000000 0 = sample_rd (length hdr)"
    and "desc_at (sample_ram w hdr) 0xc0000000 1 = sample_wr w"
  by (rule table_desc, rule sample_table [OF _ assms], assumption)+

definition table_ram :: "virtio_desc \<Rightarrow> virtio_desc \<Rightarrow> ram" where
  "table_ram d e = store (\<lambda>_. 0) 0 (desc_bytes d @ desc_bytes e)"

lemma table_ram_desc: "desc_at (table_ram d e) 0xc0000000 0 = d" "desc_at (table_ram d e) 0xc0000000 1 = e"
proof -
  have "table_ram d e x = (desc_bytes d @ desc_bytes e) ! unat x" if "unat x < 32" for x
    using store_here [of "unat x" "desc_bytes d @ desc_bytes e" "\<lambda>_. 0" 0] that by (simp add: table_ram_def)
  from table_desc [of "table_ram d e" d e, OF this]
  show "desc_at (table_ram d e) 0xc0000000 0 = d" "desc_at (table_ram d e) 0xc0000000 1 = e" by simp_all
qed

section \<open>Chain\<close>

lemma sample_flags [simp]:
  "\<not> is_write (sample_rd r)" "has_next (sample_rd r)" "is_write (sample_wr w)" "\<not> has_next (sample_wr w)"
  "dnext (sample_rd r) = 1" "dlen (sample_rd r) = of_nat r" "dlen (sample_wr w) = of_nat w"
  by (simp_all add: sample_rd_def sample_wr_def is_write_def has_next_def)

lemma sample_halves [simp]:
  "readable [sample_rd r, sample_wr w] = [sample_rd r]" "writable [sample_rd r, sample_wr w] = [sample_wr w]"
  by (simp_all add: readable_def writable_def half_def)

lemma sample_chain_ok: "length hdr \<le> 0xf000 \<Longrightarrow> chain (sample_ram w hdr) 0xc0000000 0 (sample_chain w hdr)"
  by (simp add: chain_def sample_desc)

lemma sample_small: "r < 2147483648 \<Longrightarrow> w < 2147483648 \<Longrightarrow> list_all small [sample_rd r, sample_wr w]"
  by (simp add: small_def unat_of_nat)

lemma sample_addrs:
  "r < 4294967296 \<Longrightarrow> desc_addrs [sample_rd r] = seg_addrs 0xc0001000 r"
  "w < 4294967296 \<Longrightarrow> desc_addrs [sample_wr w] = seg_addrs 0xc0010000 w"
  by (simp_all add: desc_addrs_def sample_rd_def sample_wr_def unat_of_nat)

lemma sample_sent: "length hdr \<le> 0xf000 \<Longrightarrow> map (sample_ram w hdr) (seg_addrs 0xc0001000 (length hdr)) = hdr"
  using store_read [of hdr 0 "length hdr"] by (simp add: seg_addrs_def sample_ram_def dma_offset_def comp_def del: store.simps)

text \<open>The addresses of the table are below 0x20, those the device writes from 0x10000 on.\<close>

lemma sample_apart:
  assumes "w \<le> 0x10000"
  shows "set (seg_addrs 0xc0010000 w) \<inter> chain_addrs 0xc0000000 0 [sample_rd r, sample_wr w] = {}"
    and "set (seg_addrs 0xc0010000 w) \<inter> table 0xc0000000 [sample_rd r, sample_wr w] = {}"
proof -
  have low: "unat x < 32" if "x \<in> chain_addrs 0xc0000000 0 [sample_rd r, sample_wr w]" for x
    using that by (auto simp: chain_addrs_def table_def seg_addrs_def sample_rd_def dma_offset_def unat_word_ariths unat_of_nat)
  have "65536 \<le> unat x" if "x \<in> set (seg_addrs 0xc0010000 w)" for x
    using that assms by (auto simp: seg_addrs_def dma_offset_def unat_word_ariths unat_of_nat)
  with low show "set (seg_addrs 0xc0010000 w) \<inter> chain_addrs 0xc0000000 0 [sample_rd r, sample_wr w] = {}"
    by fastforce
  then show "set (seg_addrs 0xc0010000 w) \<inter> table 0xc0000000 [sample_rd r, sample_wr w] = {}"
    by (auto simp: chain_addrs_def)
qed

lemma sample_ring_bytes:
  assumes "length hdr \<le> 0xf000"
  shows "sample_ram w hdr 0x102 = 1" "sample_ram w hdr 0x103 = 0" "sample_ram w hdr 0x104 = 0" "sample_ram w hdr 0x105 = 0"
proof -
  let ?f = "store (\<lambda>_. 0) 0 (desc_bytes (sample_rd (length hdr)) @ desc_bytes (sample_wr w))"
  have t: "?f x = 0" if "32 \<le> unat x" for x
    using that store_above [of 0 "desc_bytes (sample_rd (length hdr)) @ desc_bytes (sample_wr w)" x "\<lambda>_. 0"] by simp
  have "sample_ram w hdr x = (?f(0x102 := 1, 0x103 := 0)) x" if "unat x < 0x1000" for x
    using that assms store_below [of x "0x1000" hdr "store ?f 0x102 [1, 0]"] by (simp add: sample_ram_def)
  from this [of "0x102"] this [of "0x103"] this [of "0x104"] this [of "0x105"] t [of "0x104"] t [of "0x105"]
  show "sample_ram w hdr 0x102 = 1" "sample_ram w hdr 0x103 = 0" "sample_ram w hdr 0x104 = 0" "sample_ram w hdr 0x105 = 0"
    by simp_all
qed

lemma ring16_bytes: "ring16 f a = get_le16 [f (dma_offset a), f (dma_offset a + 1)]"
  by (simp add: ring16_def numeral_2_eq_2 seg_addrs_Suc dma_offset_add)

lemma sample_rings:
  assumes "length hdr \<le> 0xf000"
  shows "ring16 (sample_ram w hdr) 0xc0000102 = 1" and "ring16 (sample_ram w hdr) 0xc0000104 = 0"
  using sample_ring_bytes [OF assms] by (simp_all add: ring16_bytes dma_offset_def get_le16_def)

lemma sample_writable:
  "w \<le> 0x10000 \<Longrightarrow> desc_addrs (writable (sample_chain w hdr)) = seg_addrs 0xc0010000 w"
  using sample_addrs(2) [of w] by (simp del: desc_addrs_Cons)

lemma sample_order: "list_all is_write (dropWhile (\<lambda>d. \<not> is_write d) (sample_chain w hdr))"
  by simp

section \<open>Device\<close>

definition sample_queue :: queue_state where
  "sample_queue = \<lparr>ready = 1, num = MAX_QUEUE_NUM, avail_idx = 1, last_avail_idx = 0, desc_addr = 0xc0000000,
     avail_addr = 0xc0000100, used_addr = 0xc0000200, manual_recv = False\<rparr>"

text \<open>\<open>x\<close> is what the particular device adds to the record.\<close>

definition sample_dev :: "u32 \<Rightarrow> nat \<Rightarrow> bytes \<Rightarrow> 'z \<Rightarrow> (ram, 'z) virtio_device_scheme" where
  "sample_dev csize w hdr x = \<lparr>dma = sample_ram w hdr, virtio_dma_fd = 3, pending_notify = 0, irq = 0,
     int_status = 0, status = 0, device_features_sel = 0, queue_sel = 0, queue = replicate MAX_QUEUE sample_queue,
     device_id = 2, vendor_id = 0xffff, device_features = 0, config_space_size = csize,
     config_space = replicate MAX_CONFIG_SPACE_SIZE 0, pending_queue_notify = 0, \<dots> = x\<rparr>"

lemma sample_dev_sel [simp]:
  "dma (sample_dev c w hdr x) = sample_ram w hdr" "q < MAX_QUEUE \<Longrightarrow> queue (sample_dev c w hdr x) ! q = sample_queue"
  "length (queue (sample_dev c w hdr x)) = MAX_QUEUE" "virtio_device.more (sample_dev c w hdr x) = x"
  "desc_addr sample_queue = 0xc0000000" "ready sample_queue = 1" "last_avail_idx sample_queue = 0" "avail_idx sample_queue = 1"
  by (simp_all add: sample_dev_def sample_queue_def)

lemma sample_inv: "dev_inv (sample_dev c w hdr x)"
  by (simp add: dev_inv_def sample_dev_def sample_queue_def pow2_def)

lemma sample_request:
  assumes "length hdr \<le> 0xf000" and "w \<le> 0x10000" and "q < MAX_QUEUE"
  shows "request flat_ram id q 0 (sample_chain w hdr) (sample_dev c w hdr x)"
  using assms sample_small [of "length hdr" w]
  by (simp add: request_def on_ram_def flat_ram sample_chain_ok)
    (simp add: sample_dev_def sample_queue_def dma_offset_def)

lemma sample_sent_dev [simp]:
  "length hdr \<le> 0xf000 \<Longrightarrow> sent id (sample_chain w hdr) (sample_dev c w hdr x) = hdr"
  using sample_addrs(1) [of "length hdr"] sample_sent [of hdr w]
  by (simp add: sent_def del: desc_addrs_Cons)

lemma sample_pending: "length hdr \<le> 0xf000 \<Longrightarrow> q < MAX_QUEUE \<Longrightarrow> pending id q 0 (sample_dev c w hdr x)"
  by (simp add: pending_def) (simp add: sample_queue_def dma_offset_def avail_entry_addr_def sample_rings)

end
