(* ===== verification/Queue_Correct.thy ===== *)
theory Queue_Correct
  imports Sample
begin

text \<open>
  The properties of the queue code of \<open>src/src/virtio.c\<close> (\<open>memcpy_to_from_queue\<close>,
  \<open>get_desc_rw_size\<close>, \<open>virtio_consume_desc\<close>): what they compute on well-formed chains, and what
  happens on chains that are not.
\<close>

unbundle bit_operations_syntax

section \<open>The used ring as the driver sees it\<close>

lemma used_elem_offset:
  obtains k where "dma_offset (used_elem used n idx) = dma_offset used + (4 + of_nat k)" and "k < 524288"
proof
  define v where "v = ucast idx AND (n - 1)"
  have "unat v \<le> unat (ucast idx :: u32)"
    unfolding v_def by (rule word_and_le2 [THEN word_le_nat_alt [THEN iffD1]])
  also have "\<dots> \<le> 65535"
    using unsigned_less [of idx, where ?'a = nat] by (simp add: unsigned_ucast_eq take_bit_nat_eq_self)
  finally have v: "unat v \<le> 65535" .
  then show "unat (v * 8) < 524288" by (simp add: unat_word_ariths)
  show "dma_offset (used_elem used n idx) = dma_offset used + (4 + of_nat (unat (v * 8)))"
    unfolding used_elem_def dma_offset_add ucast_up_down v_def by (simp add: add.assoc)
qed

lemma of_nat_u32_eq: "i < 4294967296 \<Longrightarrow> j < 4294967296 \<Longrightarrow> (of_nat i :: u32) = of_nat j \<longleftrightarrow> i = j"
  by (simp add: word_of_nat_eq_iff take_bit_nat_eq_self)

lemma map_store_here:
  "length bs \<le> 4294967296 \<Longrightarrow> map (store f a bs) (map (\<lambda>i. a + of_nat i) [0..<length bs]) = bs"
  by (rule nth_equalityI) (simp_all add: store_here)

lemma map_store_apart:
  assumes "\<And>i j. i < n \<Longrightarrow> j < length bs \<Longrightarrow> b + of_nat i \<noteq> a + of_nat j"
  shows "map (store f a bs) (map (\<lambda>i. b + of_nat i) [0..<n]) = map f (map (\<lambda>i. b + of_nat i) [0..<n])"
  using assms by (auto intro!: store_other)

text \<open>After an element is pushed, the index is one more and the element holds what was pushed.\<close>

lemma used_push_idx: "used_idx_at (used_push f used n i len) used = used_idx_at f used + 1"
proof -
  have "get_le16 (put_le16 w) = w" for w using le16.dec_enc [of w "[]"] by simp
  moreover have "map (store g a (put_le16 w)) (map (\<lambda>i. a + of_nat i) [0..<2]) = put_le16 w" for g a w
    using map_store_here [of "put_le16 w" g a] by (simp add: le16.enc_length)
  ultimately show ?thesis by (simp add: used_idx_at_def used_push_def Let_def seg_addrs_def)
qed

lemma used_push_elem:
  fixes f :: ram and used :: u64 and n :: u32
  defines "e \<equiv> used_elem used n (used_idx_at f used)"
  shows "map (used_push f used n i len) (seg_addrs e 8) = put_le32 (ucast i) @ put_le32 (u32_of_int len)"
proof -
  let ?o = "dma_offset e" and ?x = "put_le32 (ucast i)" and ?y = "put_le32 (u32_of_int len)"
  obtain k where k: "?o = dma_offset used + (4 + of_nat k)" "k < 524288"
    unfolding e_def by (rule used_elem_offset)
  have apart: "?o + of_nat a \<noteq> dma_offset (used + 2) + of_nat b" if "a < 8" "b < 2" for a b
  proof -
    have "(of_nat (4 + k + a) :: u32) \<noteq> of_nat (2 + b)"
      using that k(2) by (subst of_nat_u32_eq) auto
    then show ?thesis unfolding k(1) dma_offset_add by (simp add: add.assoc)
  qed
  have "store (store f ?o ?x) (?o + 4) ?y = store f ?o (?x @ ?y)"
    by (simp add: store_append le32.enc_length)
  then have "used_push f used n i len = store (store f ?o (?x @ ?y)) (dma_offset (used + 2)) (put_le16 (used_idx_at f used + 1))"
    by (simp add: used_push_def Let_def e_def)
  then have "map (used_push f used n i len) (seg_addrs e 8) = map (store f ?o (?x @ ?y)) (seg_addrs e 8)"
    unfolding seg_addrs_def using apart by (simp only:) (rule map_store_apart, simp add: le16.enc_length)
  also have "\<dots> = ?x @ ?y"
    unfolding seg_addrs_def using map_store_here [of "?x @ ?y" f ?o] by (simp add: le32.enc_length)
  finally show ?thesis .
qed

lemma write_list_here:
  "distinct xs \<Longrightarrow> length xs \<le> length ys \<Longrightarrow> map (write_list f (zip xs ys)) xs = take (length xs) ys"
proof (induction xs arbitrary: f ys)
  case (Cons x xs)
  then obtain y ys' where ys: "ys = y # ys'" by (cases ys) auto
  have "write_list (f(x := y)) (zip xs ys') x = y"
    using Cons.prems by (subst write_list_other) (auto dest: set_zip_leftD)
  moreover have "write_list f (zip (x # xs) ys) = write_list (f(x := y)) (zip xs ys')"
    by (simp add: ys write_list_def)
  ultimately show ?case using Cons ys by simp
qed simp

section \<open>Properties\<close>

text \<open>
  C12: on a well-formed chain \<open>memcpy_from_queue\<close> returns, changes nothing in the guest, and fills the
  buffer with the bytes at the given offset of the readable half of the chain, in order; it returns -1
  exactly when the readable half is too short.
\<close>

theorem memcpy_from_queue_correct:
  fixes off count :: nat
  assumes "on_ram ops mem q s" and "chain (mem (dma s)) (desc_addr (queue s ! q)) i ds"
    and "list_all small ds" and "off < 2147483648" and "count < 2147483648" and "count \<le> length buf"
  shows "memcpy_from_queue ops buf q i (int off) (int count) s =
    Some (Inr ((if count = 0 \<or> off + count \<le> length (desc_addrs (readable ds)) then 0 else - 1,
      blit buf 0 (map (mem (dma s)) (take count (drop off (desc_addrs (readable ds)))))), s))"
  by (rule memcpy_from_queue_run [OF assms refl])

theorem memcpy_from_queue_correct_witness:
  "memcpy_from_queue flat_ram [0, 0, 0, 0] 0 0 (int 2) (int 3) (sample_dev 8 1 [10, 11, 12, 13, 14, 15] ()) =
    Some (Inr ((0, [12, 13, 14, 0]), sample_dev 8 1 [10, 11, 12, 13, 14, 15] ()))"
proof -
  let ?hdr = "[10, 11, 12, 13, 14, 15] :: bytes"
  let ?s = "sample_dev 8 1 ?hdr ()" and ?A = "desc_addrs (readable (sample_chain 1 ?hdr))"
  have L: "length ?hdr \<le> 0xf000" "(1 :: nat) \<le> 0x10000" "0 < MAX_QUEUE" by simp_all
  have rq: "on_ram flat_ram id 0 ?s" "chain (id (dma ?s)) (desc_addr (queue ?s ! 0)) 0 (sample_chain 1 ?hdr)"
    "list_all small (sample_chain 1 ?hdr)"
    using sample_request [OF L, of 8 "()"] by (simp_all only: request_def)
  have A: "map (id (dma ?s)) ?A = ?hdr"
    using sample_sent_dev [OF L(1), of 1 8 "()"] by (simp only: sent_def)
  have "length ?A = length ?hdr" using arg_cong [OF A, of length] by (simp only: length_map)
  then have l: "length ?A = 6" by simp
  have "memcpy_from_queue flat_ram [0, 0, 0, 0] 0 0 (int 2) (int 3) ?s =
    Some (Inr ((if 3 = (0 :: nat) \<or> 2 + 3 \<le> length ?A then 0 else - 1,
      blit [0, 0, 0, 0] 0 (map (id (dma ?s)) (take 3 (drop 2 ?A)))), ?s))"
    by (rule memcpy_from_queue_correct [OF rq]) simp_all
  also have "map (id (dma ?s)) (take 3 (drop 2 ?A)) = [12, 13, 14]"
    unfolding take_map [symmetric] drop_map [symmetric] A by simp
  finally show ?thesis unfolding l by (simp add: blit_def)
qed

text \<open>
  C13: on a well-formed chain \<open>memcpy_to_queue\<close> returns and stores the bytes at the given offset of the
  writable half of the chain, in order, and no byte outside those addresses changes; it returns -1
  exactly when the writable half is too short.
\<close>

theorem memcpy_to_queue_correct:
  fixes off count :: nat
  assumes "on_ram ops mem q s" and "chain (mem (dma s)) (desc_addr (queue s ! q)) i ds"
    and "list_all small ds" and "off < 2147483648" and "count < 2147483648" and "count \<le> length buf"
    and "set (take count (drop off (desc_addrs (writable ds)))) \<inter> table (desc_addr (queue s ! q)) ds = {}"
    and "distinct (take count (drop off (desc_addrs (writable ds))))"
  shows "\<exists>m. memcpy_to_queue ops q i (int off) buf (int count) s =
      Some (Inr (if count = 0 \<or> off + count \<le> length (desc_addrs (writable ds)) then 0 else - 1, s\<lparr>dma := m\<rparr>))
    \<and> map (mem m) (take count (drop off (desc_addrs (writable ds)))) =
        take (length (desc_addrs (writable ds)) - off) (take count buf)
    \<and> (\<forall>x. x \<notin> set (take count (drop off (desc_addrs (writable ds)))) \<longrightarrow> mem m x = mem (dma s) x)"
proof -
  let ?W = "take count (drop off (desc_addrs (writable ds)))"
  obtain m where m: "memcpy_to_queue ops q i (int off) buf (int count) s =
      Some (Inr (if count = 0 \<or> off + count \<le> length (desc_addrs (writable ds)) then 0 else - 1, s\<lparr>dma := m\<rparr>))"
    "mem m = write_list (mem (dma s)) (zip ?W buf)"
    using memcpy_to_queue_run [OF assms(1-6) refl assms(7)] by blast
  have l: "length ?W \<le> length buf" using assms(6) by simp
  have "map (mem m) ?W = take (length ?W) buf" unfolding m(2) by (rule write_list_here [OF assms(8) l])
  also have "\<dots> = take (length (desc_addrs (writable ds)) - off) (take count buf)"
    by (simp add: min_def)
  finally show ?thesis
    using m by (intro exI [of _ m]) (auto simp: m(2) intro!: write_list_other dest: set_zip_leftD)
qed

theorem memcpy_to_queue_correct_witness:
  "\<exists>m. memcpy_to_queue flat_ram 0 0 (int 1) [7, 8] (int 2) (sample_dev 8 4 [0] ()) =
    Some (Inr (0, (sample_dev 8 4 [0] ())\<lparr>dma := m\<rparr>)) \<and> m 0x10001 = 7 \<and> m 0x10002 = 8"
proof -
  let ?s = "sample_dev 8 4 [0] ()" and ?W = "desc_addrs (writable (sample_chain 4 [0]))"
  have L: "length [0 :: u8] \<le> 0xf000" "(4 :: nat) \<le> 0x10000" "0 < MAX_QUEUE" by simp_all
  have rq: "on_ram flat_ram id 0 ?s" "chain (id (dma ?s)) (desc_addr (queue ?s ! 0)) 0 (sample_chain 4 [0])"
    "list_all small (sample_chain 4 [0])"
    using sample_request [OF L, of 8 "()"] by (simp_all only: request_def)
  have W: "take 2 (drop 1 ?W) = [0x10001, 0x10002]" "length ?W = 4"
    unfolding sample_writable [OF L(2)] by (simp_all add: seg_addrs_def dma_offset_def upt_rec)
  have "set (take 2 (drop 1 ?W)) \<subseteq> set (seg_addrs 0xc0010000 4)"
    unfolding sample_writable [OF L(2)] by (meson set_drop_subset set_take_subset subset_trans)
  then have dis: "set (take 2 (drop 1 ?W)) \<inter> table (desc_addr (queue ?s ! 0)) (sample_chain 4 [0]) = {}"
    using sample_apart(2) [OF L(2), of "length [0 :: u8]"] by auto
  have d: "distinct (take 2 (drop 1 ?W))" unfolding W(1) by simp
  have "\<exists>m. memcpy_to_queue flat_ram 0 0 (int 1) [7, 8] (int 2) ?s =
      Some (Inr (if 2 = (0 :: nat) \<or> 1 + 2 \<le> length ?W then 0 else - 1, ?s\<lparr>dma := m\<rparr>))
    \<and> map (id m) (take 2 (drop 1 ?W)) = take (length ?W - 1) (take 2 [7, 8])
    \<and> (\<forall>x. x \<notin> set (take 2 (drop 1 ?W)) \<longrightarrow> id m x = id (dma ?s) x)"
    by (rule memcpy_to_queue_correct [OF rq _ _ _ dis d]) simp_all
  then show ?thesis unfolding W by auto
qed

text \<open>
  \<open>get_desc_rw_size\<close> returns the numbers of bytes in the two halves of a well-formed chain, added
  in 32-bit arithmetic, and refuses a chain in which a descriptor to read follows one to write.
\<close>

theorem get_desc_rw_size_correct:
  assumes "on_ram ops mem q s" and "chain (mem (dma s)) (desc_addr (queue s ! q)) i ds"
  shows "get_desc_rw_size ops q i s =
    Some (Inr (if list_all is_write (dropWhile (\<lambda>d. \<not> is_write d) ds)
      then Some (int_of_u32 (\<Sum>d\<leftarrow>readable ds. dlen d), int_of_u32 (\<Sum>d\<leftarrow>writable ds. dlen d)) else None, s))"
  using get_desc_rw_size_run [OF assms] by (simp add: lens_def)

theorem get_desc_rw_size_correct_witness:
  "get_desc_rw_size flat_ram 0 0 (sample_dev 8 4 [0, 0, 0] ()) = Some (Inr (Some (3, 4), sample_dev 8 4 [0, 0, 0] ()))"
proof -
  have L: "length [0 :: u8, 0, 0] \<le> 0xf000" "(4 :: nat) \<le> 0x10000" "0 < MAX_QUEUE" by simp_all
  let ?s = "sample_dev 8 4 [0, 0, 0] ()"
  have rq: "on_ram flat_ram id 0 ?s" "chain (id (dma ?s)) (desc_addr (queue ?s ! 0)) 0 (sample_chain 4 [0, 0, 0])"
    using sample_request [OF L, of 8 "()"] by (simp_all only: request_def)
  have "list_all is_write (dropWhile (\<lambda>d. \<not> is_write d) (sample_chain 4 [0, 0, 0]))" by simp
  then show ?thesis
    unfolding get_desc_rw_size_correct [OF rq] by (simp add: int_of_u32_small)
qed

text \<open>
  C14: a chain that leads into a cycle of descriptors of one direction makes \<open>get_desc_rw_size\<close>, and
  with it the notification, run forever: the code has no bound on the length of a chain.
\<close>

theorem endless_chain_hangs:
  assumes "on_ram ops mem q s" and "endless (mem (dma s)) (desc_addr (queue s ! q)) w D"
    and "desc_at (mem (dma s)) (desc_addr (queue s ! q)) i \<in> D"
  shows "get_desc_rw_size ops q i s = None"
  by (rule get_desc_rw_size_endless [OF assms])

text \<open>A device whose first queue has its table at the start of a given memory.\<close>

definition table_dev :: "ram \<Rightarrow> (ram, unit) virtio_device_scheme" where
  "table_dev f = (sample_dev 8 1 [] ())\<lparr>dma := f\<rparr>"

lemma table_dev_ok: "on_ram flat_ram id 0 (table_dev f)" "dma (table_dev f) = f" "desc_addr (queue (table_dev f) ! 0) = 0xc0000000"
  using sample_request [of "[]" 1 0 8 "()"] by (simp_all add: table_dev_def request_def on_ram_def)

theorem endless_chain_hangs_witness:
  "get_desc_rw_size flat_ram 0 0 (table_dev (table_ram \<lparr>daddr = 0, dlen = 1, dflags = VRING_DESC_F_NEXT, dnext = 0\<rparr>
     \<lparr>daddr = 0, dlen = 0, dflags = 0, dnext = 0\<rparr>)) = None"
proof -
  let ?d = "\<lparr>daddr = 0, dlen = 1, dflags = VRING_DESC_F_NEXT, dnext = 0\<rparr>"
    and ?e = "\<lparr>daddr = 0, dlen = 0, dflags = 0, dnext = 0\<rparr>"
  let ?s = "table_dev (table_ram ?d ?e)"
  have at: "desc_at (id (dma ?s)) (desc_addr (queue ?s ! 0)) 0 = ?d"
    unfolding table_dev_ok id_apply by (rule table_ram_desc)
  have "endless (id (dma ?s)) (desc_addr (queue ?s ! 0)) False {?d}"
    unfolding endless_def using at by (simp add: has_next_def is_write_def)
  from endless_chain_hangs [OF table_dev_ok(1) this] at show ?thesis by simp
qed

text \<open>
  C15: when the copy starts at offset 0 of a readable descriptor of length \<open>0xffffffff\<close> that is followed by
  another readable descriptor longer than what is to be copied, the copy loop takes the first length for a negative one and
  copies the next descriptor to an address below the buffer: an access out of bounds that the guest controls.
\<close>

theorem huge_descriptor_underflows:
  assumes "on_ram ops mem q s" and "chain (mem (dma s)) (desc_addr (queue s ! q)) i (d # e # es)"
    and "dlen d = 0xffffffff" "\<not> is_write d" and "\<not> is_write e" "count < unat (dlen e)" "small e"
    and "0 < count"
  shows "memcpy_from_queue ops buf q i 0 (int count) s = Some (Inl OutOfBounds)"
  by (rule copy_negative_length [OF assms])

theorem huge_descriptor_underflows_witness:
  "memcpy_from_queue flat_ram (replicate 16 0) 0 0 0 (int 16)
     (table_dev (table_ram \<lparr>daddr = 0, dlen = 0xffffffff, dflags = VRING_DESC_F_NEXT, dnext = 1\<rparr>
        \<lparr>daddr = 0, dlen = 32, dflags = 0, dnext = 0\<rparr>)) = Some (Inl OutOfBounds)"
proof -
  let ?d = "\<lparr>daddr = 0, dlen = 0xffffffff, dflags = VRING_DESC_F_NEXT, dnext = 1\<rparr>"
    and ?e = "\<lparr>daddr = 0, dlen = 32, dflags = 0, dnext = 0\<rparr>"
  let ?s = "table_dev (table_ram ?d ?e)"
  have "chain (id (dma ?s)) (desc_addr (queue ?s ! 0)) 0 [?d, ?e]"
    unfolding table_dev_ok id_apply by (simp add: chain_def table_ram_desc has_next_def)
  then show ?thesis
    by (rule huge_descriptor_underflows [OF table_dev_ok(1)]) (simp_all add: is_write_def small_def)
qed

text \<open>
  \<open>virtio_consume_desc\<close> publishes one element: after it the driver finds the used index one higher,
  the descriptor index and the length in the element the old index names, and the interrupt raised.
\<close>

theorem consume_desc_correct:
  assumes "on_ram ops mem q s" and "dma_offset (used_addr (queue s ! q)) AND 3 = 0"
  shows "\<exists>m. virtio_consume_desc ops q i n s = Some (Inr ((), s\<lparr>dma := m, int_status := int_status s OR 1, irq := 1\<rparr>))
    \<and> used_idx_at (mem m) (used_addr (queue s ! q)) = used_idx_at (mem (dma s)) (used_addr (queue s ! q)) + 1
    \<and> map (mem m) (seg_addrs (used_elem (used_addr (queue s ! q)) (num (queue s ! q))
         (used_idx_at (mem (dma s)) (used_addr (queue s ! q)))) 8) = put_le32 (ucast i) @ put_le32 (u32_of_int n)"
  using consume_desc_run [OF assms, of i n] by (auto simp: used_push_idx used_push_elem)

theorem consume_desc_correct_witness:
  "\<exists>m. virtio_consume_desc flat_ram 0 5 100 (sample_dev 8 1 [] ()) =
      Some (Inr ((), (sample_dev 8 1 [] ())\<lparr>dma := m, int_status := int_status (sample_dev 8 1 [] ()) OR 1, irq := 1\<rparr>))
    \<and> used_idx_at m 0xc0000200 = used_idx_at (sample_ram 1 []) 0xc0000200 + 1"
proof -
  have L: "length ([] :: bytes) \<le> 0xf000" "(1 :: nat) \<le> 0x10000" "0 < MAX_QUEUE" by simp_all
  have u: "used_addr (queue (sample_dev 8 1 [] ()) ! 0) = 0xc0000200" by (simp add: sample_queue_def)
  have "on_ram flat_ram id 0 (sample_dev 8 1 [] ())" "dma_offset (used_addr (queue (sample_dev 8 1 [] ()) ! 0)) AND 3 = 0"
    using sample_request [OF L, of 8 "()"] by (simp_all only: request_def)
  from consume_desc_correct [OF this, of 5 100] show ?thesis unfolding u by auto
qed

end
