(* ===== verification/Virtio_Regs.thy ===== *)
theory Virtio_Regs
  imports Virtio_Chain
begin

text \<open>
  Model of the register interface of \<open>src/src/virtio.c\<close>: the configuration space, the MMIO and the
  PCI register blocks, and the flag that asks the worker thread to process a queue.
\<close>

unbundle bit_operations_syntax

section \<open>Register offsets\<close>

abbreviation VIRTIO_MMIO_MAGIC_VALUE :: u32 where "VIRTIO_MMIO_MAGIC_VALUE \<equiv> 0x000"
abbreviation VIRTIO_MMIO_VERSION :: u32 where "VIRTIO_MMIO_VERSION \<equiv> 0x004"
abbreviation VIRTIO_MMIO_DEVICE_ID :: u32 where "VIRTIO_MMIO_DEVICE_ID \<equiv> 0x008"
abbreviation VIRTIO_MMIO_VENDOR_ID :: u32 where "VIRTIO_MMIO_VENDOR_ID \<equiv> 0x00c"
abbreviation VIRTIO_MMIO_DEVICE_FEATURES :: u32 where "VIRTIO_MMIO_DEVICE_FEATURES \<equiv> 0x010"
abbreviation VIRTIO_MMIO_DEVICE_FEATURES_SEL :: u32 where "VIRTIO_MMIO_DEVICE_FEATURES_SEL \<equiv> 0x014"
abbreviation VIRTIO_MMIO_DRIVER_FEATURES :: u32 where "VIRTIO_MMIO_DRIVER_FEATURES \<equiv> 0x020"
abbreviation VIRTIO_MMIO_DRIVER_FEATURES_SEL :: u32 where "VIRTIO_MMIO_DRIVER_FEATURES_SEL \<equiv> 0x024"
abbreviation VIRTIO_MMIO_GUEST_PAGE_SIZE :: u32 where "VIRTIO_MMIO_GUEST_PAGE_SIZE \<equiv> 0x028"
abbreviation VIRTIO_MMIO_QUEUE_SEL :: u32 where "VIRTIO_MMIO_QUEUE_SEL \<equiv> 0x030"
abbreviation VIRTIO_MMIO_QUEUE_NUM_MAX :: u32 where "VIRTIO_MMIO_QUEUE_NUM_MAX \<equiv> 0x034"
abbreviation VIRTIO_MMIO_QUEUE_NUM :: u32 where "VIRTIO_MMIO_QUEUE_NUM \<equiv> 0x038"
abbreviation VIRTIO_MMIO_QUEUE_ALIGN :: u32 where "VIRTIO_MMIO_QUEUE_ALIGN \<equiv> 0x03c"
abbreviation VIRTIO_MMIO_QUEUE_PFN :: u32 where "VIRTIO_MMIO_QUEUE_PFN \<equiv> 0x040"
abbreviation VIRTIO_MMIO_QUEUE_READY :: u32 where "VIRTIO_MMIO_QUEUE_READY \<equiv> 0x044"
abbreviation VIRTIO_MMIO_QUEUE_NOTIFY :: u32 where "VIRTIO_MMIO_QUEUE_NOTIFY \<equiv> 0x050"
abbreviation VIRTIO_MMIO_INTERRUPT_STATUS :: u32 where "VIRTIO_MMIO_INTERRUPT_STATUS \<equiv> 0x060"
abbreviation VIRTIO_MMIO_INTERRUPT_ACK :: u32 where "VIRTIO_MMIO_INTERRUPT_ACK \<equiv> 0x064"
abbreviation VIRTIO_MMIO_STATUS :: u32 where "VIRTIO_MMIO_STATUS \<equiv> 0x070"
abbreviation VIRTIO_MMIO_QUEUE_DESC_LOW :: u32 where "VIRTIO_MMIO_QUEUE_DESC_LOW \<equiv> 0x080"
abbreviation VIRTIO_MMIO_QUEUE_DESC_HIGH :: u32 where "VIRTIO_MMIO_QUEUE_DESC_HIGH \<equiv> 0x084"
abbreviation VIRTIO_MMIO_QUEUE_AVAIL_LOW :: u32 where "VIRTIO_MMIO_QUEUE_AVAIL_LOW \<equiv> 0x090"
abbreviation VIRTIO_MMIO_QUEUE_AVAIL_HIGH :: u32 where "VIRTIO_MMIO_QUEUE_AVAIL_HIGH \<equiv> 0x094"
abbreviation VIRTIO_MMIO_QUEUE_USED_LOW :: u32 where "VIRTIO_MMIO_QUEUE_USED_LOW \<equiv> 0x0a0"
abbreviation VIRTIO_MMIO_QUEUE_USED_HIGH :: u32 where "VIRTIO_MMIO_QUEUE_USED_HIGH \<equiv> 0x0a4"
abbreviation VIRTIO_MMIO_CONFIG_GENERATION :: u32 where "VIRTIO_MMIO_CONFIG_GENERATION \<equiv> 0x0fc"
abbreviation VIRTIO_MMIO_CONFIG :: u32 where "VIRTIO_MMIO_CONFIG \<equiv> 0x100"
abbreviation VIRTIO_PCI_DEVICE_FEATURE_SEL :: u32 where "VIRTIO_PCI_DEVICE_FEATURE_SEL \<equiv> 0x000"
abbreviation VIRTIO_PCI_DEVICE_FEATURE :: u32 where "VIRTIO_PCI_DEVICE_FEATURE \<equiv> 0x004"
abbreviation VIRTIO_PCI_GUEST_FEATURE_SEL :: u32 where "VIRTIO_PCI_GUEST_FEATURE_SEL \<equiv> 0x008"
abbreviation VIRTIO_PCI_GUEST_FEATURE :: u32 where "VIRTIO_PCI_GUEST_FEATURE \<equiv> 0x00c"
abbreviation VIRTIO_PCI_MSIX_CONFIG :: u32 where "VIRTIO_PCI_MSIX_CONFIG \<equiv> 0x010"
abbreviation VIRTIO_PCI_NUM_QUEUES :: u32 where "VIRTIO_PCI_NUM_QUEUES \<equiv> 0x012"
abbreviation VIRTIO_PCI_DEVICE_STATUS :: u32 where "VIRTIO_PCI_DEVICE_STATUS \<equiv> 0x014"
abbreviation VIRTIO_PCI_CONFIG_GENERATION :: u32 where "VIRTIO_PCI_CONFIG_GENERATION \<equiv> 0x015"
abbreviation VIRTIO_PCI_QUEUE_SEL :: u32 where "VIRTIO_PCI_QUEUE_SEL \<equiv> 0x016"
abbreviation VIRTIO_PCI_QUEUE_SIZE :: u32 where "VIRTIO_PCI_QUEUE_SIZE \<equiv> 0x018"
abbreviation VIRTIO_PCI_QUEUE_MSIX_VECTOR :: u32 where "VIRTIO_PCI_QUEUE_MSIX_VECTOR \<equiv> 0x01a"
abbreviation VIRTIO_PCI_QUEUE_ENABLE :: u32 where "VIRTIO_PCI_QUEUE_ENABLE \<equiv> 0x01c"
abbreviation VIRTIO_PCI_QUEUE_NOTIFY_OFF :: u32 where "VIRTIO_PCI_QUEUE_NOTIFY_OFF \<equiv> 0x01e"
abbreviation VIRTIO_PCI_QUEUE_DESC_LOW :: u32 where "VIRTIO_PCI_QUEUE_DESC_LOW \<equiv> 0x020"
abbreviation VIRTIO_PCI_QUEUE_DESC_HIGH :: u32 where "VIRTIO_PCI_QUEUE_DESC_HIGH \<equiv> 0x024"
abbreviation VIRTIO_PCI_QUEUE_AVAIL_LOW :: u32 where "VIRTIO_PCI_QUEUE_AVAIL_LOW \<equiv> 0x028"
abbreviation VIRTIO_PCI_QUEUE_AVAIL_HIGH :: u32 where "VIRTIO_PCI_QUEUE_AVAIL_HIGH \<equiv> 0x02c"
abbreviation VIRTIO_PCI_QUEUE_USED_LOW :: u32 where "VIRTIO_PCI_QUEUE_USED_LOW \<equiv> 0x030"
abbreviation VIRTIO_PCI_QUEUE_USED_HIGH :: u32 where "VIRTIO_PCI_QUEUE_USED_HIGH \<equiv> 0x034"
abbreviation VIRTIO_PCI_CFG_OFFSET :: u32 where "VIRTIO_PCI_CFG_OFFSET \<equiv> 0x0000"
abbreviation VIRTIO_PCI_ISR_OFFSET :: u32 where "VIRTIO_PCI_ISR_OFFSET \<equiv> 0x1000"
abbreviation VIRTIO_PCI_CONFIG_OFFSET :: u32 where "VIRTIO_PCI_CONFIG_OFFSET \<equiv> 0x2000"
abbreviation VIRTIO_PCI_NOTIFY_OFFSET :: u32 where "VIRTIO_PCI_NOTIFY_OFFSET \<equiv> 0x3000"

section \<open>Configuration space\<close>

text \<open>
  \<open>config_space_size - 1\<close> and \<open>config_space_size - 3\<close> are unsigned and wrap for small sizes.  An
  access size other than 1, 2 or 4 bytes aborts a read and is ignored by a write.
\<close>

definition config_peek :: "u32 \<Rightarrow> nat \<Rightarrow> ('m, 'z, bytes) dev_vm" where
  "config_peek offset n = bnd (gets config_space) (\<lambda>c. lift (peek c (int (unat offset)) n))"

definition config_poke :: "u32 \<Rightarrow> bytes \<Rightarrow> ('m, 'z, unit) dev_vm" where
  "config_poke offset bs = bnd (gets config_space) (\<lambda>c.
     bnd (lift (poke c (int (unat offset)) bs)) (\<lambda>c'. modify (\<lambda>s. s\<lparr>config_space := c'\<rparr>)))"

definition virtio_config_read :: "u32 \<Rightarrow> int \<Rightarrow> ('m, 'z, u32) dev_vm" where
  "virtio_config_read offset size_log2 = bnd (gets config_space_size) (\<lambda>csize.
     if size_log2 = 0 then
       if offset < csize then bnd (config_peek offset 1) (\<lambda>bs. ret (ucast (hd bs))) else ret 0
     else if size_log2 = 1 then
       if offset < csize - 1 then bnd (config_peek offset 2) (\<lambda>bs. ret (ucast (get_le16 bs))) else ret 0
     else if size_log2 = 2 then
       if offset < csize - 3 then bnd (config_peek offset 4) (\<lambda>bs. ret (get_le32 bs)) else ret 0
     else fault Abort)"

definition virtio_config_write ::
  "('m, 'z, unit) dev_vm option \<Rightarrow> u32 \<Rightarrow> u32 \<Rightarrow> int \<Rightarrow> ('m, 'z, unit) dev_vm" where
  "virtio_config_write config_write offset val size_log2 = bnd (gets config_space_size) (\<lambda>csize.
     let call = (case config_write of None \<Rightarrow> ret () | Some f \<Rightarrow> f) in
     if size_log2 = 0 then
       if offset < csize then andthen (config_poke offset [ucast val]) call else ret ()
     else if size_log2 = 1 then
       if offset < csize - 1 then andthen (config_poke offset (put_le16 (ucast val))) call else ret ()
     else if size_log2 = 2 then
       if offset < csize - 3 then andthen (config_poke offset (put_le32 val)) call else ret ()
     else ret ())"

section \<open>Fields of the selected queue\<close>

definition sel_queue :: "(queue_state \<Rightarrow> 'a) \<Rightarrow> ('m, 'z, 'a) dev_vm" where
  "sel_queue f = bnd (gets queue_sel) (\<lambda>i. bnd (get_queue (unat i)) (\<lambda>qs. ret (f qs)))"

definition upd_sel_queue :: "(queue_state \<Rightarrow> queue_state) \<Rightarrow> ('m, 'z, unit) dev_vm" where
  "upd_sel_queue f = bnd (gets queue_sel) (\<lambda>i. set_queue (unat i) f)"

definition set_low32 :: "u64 \<Rightarrow> u32 \<Rightarrow> u64" where
  "set_low32 addr val = (addr AND NOT 0xffffffff) OR ucast val"

definition set_high32 :: "u64 \<Rightarrow> u32 \<Rightarrow> u64" where
  "set_high32 addr val = (addr AND 0xffffffff) OR push_bit 32 (ucast val)"

definition high32 :: "u64 \<Rightarrow> u32" where
  "high32 addr = ucast (drop_bit 32 addr)"

definition async_queue_notify :: "nat \<Rightarrow> ('m, 'z, unit) dev_vm" where
  "async_queue_notify queue_idx = andthen
     (modify (\<lambda>s. s\<lparr>pending_queue_notify := pending_queue_notify s OR push_bit queue_idx 1\<rparr>))
     (modify (\<lambda>s. s\<lparr>pending_notify := 1\<rparr>))"

text \<open>The values both register blocks return for a feature word, and what a reset does.\<close>

definition feature_word :: "('m, 'z, u32) dev_vm" where
  "feature_word = bnd (gets device_features_sel) (\<lambda>i.
     if i = 0 then gets device_features else if i = 1 then ret 1 else ret 0)"

definition write_status :: "u32 \<Rightarrow> ('m, 'z, unit) dev_vm" where
  "write_status val = andthen (modify (\<lambda>s. s\<lparr>status := val\<rparr>))
     (if val = 0 then andthen (set_irq 0) (modify virtio_reset) else ret ())"

definition write_queue_sel :: "u32 \<Rightarrow> ('m, 'z, unit) dev_vm" where
  "write_queue_sel val = (if unat val < MAX_QUEUE then modify (\<lambda>s. s\<lparr>queue_sel := val\<rparr>) else ret ())"

definition write_queue_num :: "u32 \<Rightarrow> ('m, 'z, unit) dev_vm" where
  "write_queue_num val = (if pow2 val then upd_sel_queue (\<lambda>qs. qs\<lparr>num := val\<rparr>) else ret ())"

section \<open>MMIO\<close>

definition virtio_mmio_read :: "u32 \<Rightarrow> int \<Rightarrow> ('m, 'z, u32) dev_vm" where
  "virtio_mmio_read offset size_log2 =
    (if offset \<ge> VIRTIO_MMIO_CONFIG then virtio_config_read (offset - VIRTIO_MMIO_CONFIG) size_log2
     else if size_log2 = 2 then
       if offset = VIRTIO_MMIO_MAGIC_VALUE then ret 0x74726976
       else if offset = VIRTIO_MMIO_VERSION then ret 2
       else if offset = VIRTIO_MMIO_DEVICE_ID then gets device_id
       else if offset = VIRTIO_MMIO_VENDOR_ID then gets vendor_id
       else if offset = VIRTIO_MMIO_DEVICE_FEATURES then feature_word
       else if offset = VIRTIO_MMIO_DEVICE_FEATURES_SEL then gets device_features_sel
       else if offset = VIRTIO_MMIO_QUEUE_SEL then gets queue_sel
       else if offset = VIRTIO_MMIO_QUEUE_NUM_MAX then ret MAX_QUEUE_NUM
       else if offset = VIRTIO_MMIO_QUEUE_NUM then sel_queue num
       else if offset = VIRTIO_MMIO_QUEUE_DESC_LOW then sel_queue (\<lambda>qs. ucast (desc_addr qs))
       else if offset = VIRTIO_MMIO_QUEUE_AVAIL_LOW then sel_queue (\<lambda>qs. ucast (avail_addr qs))
       else if offset = VIRTIO_MMIO_QUEUE_USED_LOW then sel_queue (\<lambda>qs. ucast (used_addr qs))
       else if offset = VIRTIO_MMIO_QUEUE_DESC_HIGH then sel_queue (\<lambda>qs. high32 (desc_addr qs))
       else if offset = VIRTIO_MMIO_QUEUE_AVAIL_HIGH then sel_queue (\<lambda>qs. high32 (avail_addr qs))
       else if offset = VIRTIO_MMIO_QUEUE_USED_HIGH then sel_queue (\<lambda>qs. high32 (used_addr qs))
       else if offset = VIRTIO_MMIO_QUEUE_READY then sel_queue ready
       else if offset = VIRTIO_MMIO_INTERRUPT_STATUS then gets int_status
       else if offset = VIRTIO_MMIO_STATUS then gets status
       else if offset = VIRTIO_MMIO_CONFIG_GENERATION then ret 0
       else ret 0
     else ret 0)"

definition virtio_mmio_write ::
  "('m, 'z, unit) dev_vm option \<Rightarrow> u32 \<Rightarrow> u32 \<Rightarrow> int \<Rightarrow> ('m, 'z, unit) dev_vm" where
  "virtio_mmio_write config_write offset val size_log2 =
    (if offset \<ge> VIRTIO_MMIO_CONFIG
     then virtio_config_write config_write (offset - VIRTIO_MMIO_CONFIG) val size_log2
     else if size_log2 = 2 then
       if offset = VIRTIO_MMIO_DEVICE_FEATURES_SEL then modify (\<lambda>s. s\<lparr>device_features_sel := val\<rparr>)
       else if offset = VIRTIO_MMIO_QUEUE_SEL then write_queue_sel val
       else if offset = VIRTIO_MMIO_QUEUE_NUM then write_queue_num val
       else if offset = VIRTIO_MMIO_QUEUE_DESC_LOW
         then upd_sel_queue (\<lambda>qs. qs\<lparr>desc_addr := set_low32 (desc_addr qs) val\<rparr>)
       else if offset = VIRTIO_MMIO_QUEUE_AVAIL_LOW
         then upd_sel_queue (\<lambda>qs. qs\<lparr>avail_addr := set_low32 (avail_addr qs) val\<rparr>)
       else if offset = VIRTIO_MMIO_QUEUE_USED_LOW
         then upd_sel_queue (\<lambda>qs. qs\<lparr>used_addr := set_low32 (used_addr qs) val\<rparr>)
       else if offset = VIRTIO_MMIO_QUEUE_DESC_HIGH
         then upd_sel_queue (\<lambda>qs. qs\<lparr>desc_addr := set_high32 (desc_addr qs) val\<rparr>)
       else if offset = VIRTIO_MMIO_QUEUE_AVAIL_HIGH
         then upd_sel_queue (\<lambda>qs. qs\<lparr>avail_addr := set_high32 (avail_addr qs) val\<rparr>)
       else if offset = VIRTIO_MMIO_QUEUE_USED_HIGH
         then upd_sel_queue (\<lambda>qs. qs\<lparr>used_addr := set_high32 (used_addr qs) val\<rparr>)
       else if offset = VIRTIO_MMIO_STATUS then write_status val
       else if offset = VIRTIO_MMIO_QUEUE_READY then upd_sel_queue (\<lambda>qs. qs\<lparr>ready := val AND 1\<rparr>)
       else if offset = VIRTIO_MMIO_QUEUE_NOTIFY then
         if unat val < MAX_QUEUE then async_queue_notify (unat val) else ret ()
       else if offset = VIRTIO_MMIO_INTERRUPT_ACK then
         andthen (modify (\<lambda>s. s\<lparr>int_status := int_status s AND NOT val\<rparr>))
         (bnd (gets int_status) (\<lambda>i. if i = 0 then set_irq 0 else ret ()))
       else ret ()
     else ret ())"

section \<open>PCI\<close>

definition virtio_pci_read :: "u32 \<Rightarrow> int \<Rightarrow> ('m, 'z, u32) dev_vm" where
  "virtio_pci_read offset1 size_log2 =
    (let offset = offset1 AND 0xfff; block = drop_bit 12 offset1 in
     if block = drop_bit 12 VIRTIO_PCI_CFG_OFFSET then
       if size_log2 = 2 then
         if offset = VIRTIO_PCI_DEVICE_FEATURE then feature_word
         else if offset = VIRTIO_PCI_DEVICE_FEATURE_SEL then gets device_features_sel
         else if offset = VIRTIO_PCI_QUEUE_DESC_LOW then sel_queue (\<lambda>qs. ucast (desc_addr qs))
         else if offset = VIRTIO_PCI_QUEUE_AVAIL_LOW then sel_queue (\<lambda>qs. ucast (avail_addr qs))
         else if offset = VIRTIO_PCI_QUEUE_USED_LOW then sel_queue (\<lambda>qs. ucast (used_addr qs))
         else if offset = VIRTIO_PCI_QUEUE_DESC_HIGH then sel_queue (\<lambda>qs. high32 (desc_addr qs))
         else if offset = VIRTIO_PCI_QUEUE_AVAIL_HIGH then sel_queue (\<lambda>qs. high32 (avail_addr qs))
         else if offset = VIRTIO_PCI_QUEUE_USED_HIGH then sel_queue (\<lambda>qs. high32 (used_addr qs))
         else ret 0
       else if size_log2 = 1 then
         if offset = VIRTIO_PCI_NUM_QUEUES then ret MAX_QUEUE_NUM
         else if offset = VIRTIO_PCI_QUEUE_SEL then gets queue_sel
         else if offset = VIRTIO_PCI_QUEUE_SIZE then sel_queue num
         else if offset = VIRTIO_PCI_QUEUE_ENABLE then sel_queue ready
         else ret 0
       else if size_log2 = 0 then
         if offset = VIRTIO_PCI_DEVICE_STATUS then gets status else ret 0
       else ret 0
     else if block = drop_bit 12 VIRTIO_PCI_ISR_OFFSET then
       if offset = 0 \<and> size_log2 = 0 then
         bnd (gets int_status) (\<lambda>val.
         andthen (modify (\<lambda>s. s\<lparr>int_status := 0\<rparr>)) (andthen (set_irq 0) (ret val)))
       else ret 0
     else if block = drop_bit 12 VIRTIO_PCI_CONFIG_OFFSET then virtio_config_read offset size_log2
     else ret 0)"

definition virtio_pci_write ::
  "('m, 'z, unit) dev_vm option \<Rightarrow> u32 \<Rightarrow> u32 \<Rightarrow> int \<Rightarrow> ('m, 'z, unit) dev_vm" where
  "virtio_pci_write config_write offset1 val size_log2 =
    (let offset = offset1 AND 0xfff; block = drop_bit 12 offset1 in
     if block = drop_bit 12 VIRTIO_PCI_CFG_OFFSET then
       if size_log2 = 2 then
         if offset = VIRTIO_PCI_DEVICE_FEATURE_SEL then modify (\<lambda>s. s\<lparr>device_features_sel := val\<rparr>)
         else if offset = VIRTIO_PCI_QUEUE_DESC_LOW
           then upd_sel_queue (\<lambda>qs. qs\<lparr>desc_addr := set_low32 (desc_addr qs) val\<rparr>)
         else if offset = VIRTIO_PCI_QUEUE_AVAIL_LOW
           then upd_sel_queue (\<lambda>qs. qs\<lparr>avail_addr := set_low32 (avail_addr qs) val\<rparr>)
         else if offset = VIRTIO_PCI_QUEUE_USED_LOW
           then upd_sel_queue (\<lambda>qs. qs\<lparr>used_addr := set_low32 (used_addr qs) val\<rparr>)
         else if offset = VIRTIO_PCI_QUEUE_DESC_HIGH
           then upd_sel_queue (\<lambda>qs. qs\<lparr>desc_addr := set_high32 (desc_addr qs) val\<rparr>)
         else if offset = VIRTIO_PCI_QUEUE_AVAIL_HIGH
           then upd_sel_queue (\<lambda>qs. qs\<lparr>avail_addr := set_high32 (avail_addr qs) val\<rparr>)
         else if offset = VIRTIO_PCI_QUEUE_USED_HIGH
           then upd_sel_queue (\<lambda>qs. qs\<lparr>used_addr := set_high32 (used_addr qs) val\<rparr>)
         else ret ()
       else if size_log2 = 1 then
         if offset = VIRTIO_PCI_QUEUE_SEL then write_queue_sel val
         else if offset = VIRTIO_PCI_QUEUE_SIZE then write_queue_num val
         else if offset = VIRTIO_PCI_QUEUE_ENABLE then upd_sel_queue (\<lambda>qs. qs\<lparr>ready := val AND 1\<rparr>)
         else ret ()
       else if size_log2 = 0 then
         if offset = VIRTIO_PCI_DEVICE_STATUS then write_status val else ret ()
       else ret ()
     else if block = drop_bit 12 VIRTIO_PCI_CONFIG_OFFSET
       then virtio_config_write config_write offset val size_log2
     else if block = drop_bit 12 VIRTIO_PCI_NOTIFY_OFFSET then
       if unat val < MAX_QUEUE then async_queue_notify (unat val) else ret ()
     else ret ())"

section \<open>The invariant\<close>

lemma keeps_config_peek [keeps_intros]: "keeps I (config_peek off n)"
  unfolding config_peek_def by (intro keeps_intros)

lemma keeps_sel_queue [keeps_intros]: "keeps I (sel_queue f)"
  unfolding sel_queue_def by (intro keeps_intros)

lemma keeps_feature_word [keeps_intros]: "keeps I feature_word"
  unfolding feature_word_def by (intro keeps_intros)

lemma keeps_config_read [keeps_intros]: "keeps I (virtio_config_read off sz)"
  unfolding virtio_config_read_def by (intro keeps_intros)

lemma keeps_mmio_read [keeps_intros]: "keeps I (virtio_mmio_read off sz)"
  unfolding virtio_mmio_read_def by (intro keeps_intros)

lemma keeps_config_poke [keeps_intros]: "keeps dev_inv (config_poke off bs)"
  by (rule keepsI) (auto simp: config_poke_def wlp_simps dev_inv_def split: sum.splits dest: poke_length)

lemma keeps_upd_sel_queue [keeps_intros]:
  "(\<And>qs. pow2 (num qs) \<Longrightarrow> pow2 (num (f qs))) \<Longrightarrow> keeps dev_inv (upd_sel_queue f)"
  unfolding upd_sel_queue_def by (intro keeps_intros)

lemma keeps_async_queue_notify [keeps_intros]: "keeps dev_inv (async_queue_notify i)"
  unfolding async_queue_notify_def by (intro keeps_intros keeps_modify) (simp_all add: dev_inv_def)

lemma keeps_write_status [keeps_intros]: "keeps dev_inv (write_status v)"
  by (rule keepsI) (auto simp: write_status_def set_irq_def wlp_simps dev_inv_def virtio_reset_def reset_queue_def pow2_def)

lemma keeps_write_queue_sel [keeps_intros]: "keeps dev_inv (write_queue_sel v)"
  by (rule keepsI) (auto simp: write_queue_sel_def wlp_simps dev_inv_def)

lemma keeps_write_queue_num [keeps_intros]: "keeps dev_inv (write_queue_num v)"
  unfolding write_queue_num_def by (intro keeps_intros) simp

lemma keeps_features_sel [keeps_intros]: "keeps dev_inv (modify (\<lambda>s. s\<lparr>device_features_sel := v\<rparr>))"
  by (rule keeps_modify) (simp add: dev_inv_def)

lemma keeps_int_ack [keeps_intros]:
  "keeps dev_inv (andthen (modify (\<lambda>s. s\<lparr>int_status := int_status s AND v\<rparr>))
     (bnd (gets int_status) (\<lambda>i. if i = 0 then set_irq 0 else ret ())))"
  by (rule keepsI) (auto simp: set_irq_def wlp_simps dev_inv_def split: if_splits)

lemma keeps_int_clear [keeps_intros]:
  "keeps dev_inv (andthen (modify (\<lambda>s. s\<lparr>int_status := 0\<rparr>)) (andthen (set_irq 0) (ret v)))"
  by (rule keepsI) (simp add: set_irq_def wlp_simps dev_inv_def)

lemma keeps_pci_read: "keeps dev_inv (virtio_pci_read off sz)"
  unfolding virtio_pci_read_def by (intro keeps_intros)

text \<open>A device with its two callbacks; what the registers keep of it.\<close>

locale virtio_callbacks = device_handler recv
  for recv :: "('m, 'z) device_recv" +
  fixes config_write :: "('m, 'z, unit) dev_vm option"
  assumes config_write_keeps: "config_write = Some f \<Longrightarrow> keeps dev_inv f"
begin

lemma config_write_inv: "keeps dev_inv (virtio_config_write config_write off v sz)"
  unfolding virtio_config_write_def Let_def by (intro keeps_intros config_write_keeps)

lemma mmio_write_inv: "keeps dev_inv (virtio_mmio_write config_write off v sz)"
  unfolding virtio_mmio_write_def by (intro keeps_intros config_write_inv) simp_all

lemma pci_write_inv: "keeps dev_inv (virtio_pci_write config_write off v sz)"
  unfolding virtio_pci_write_def by (intro keeps_intros config_write_inv) simp_all

end

section \<open>No fault\<close>

definition config_ok :: "('m, 'z) virtio_device_scheme \<Rightarrow> bool" where
  "config_ok s \<longleftrightarrow> 3 < config_space_size s \<and> config_space_size s \<le> 256"

lemma less_minus_unat: "(k :: u32) \<le> c \<Longrightarrow> off < c - k \<longleftrightarrow> unat off + unat k < unat c"
  by (simp add: word_less_nat_alt word_le_nat_alt unat_sub less_diff_conv)

lemma config_bound:
  assumes "dev_inv s" and "config_ok s"
  shows "off < config_space_size s \<Longrightarrow> in_array (config_space s) (int (unat off)) 1"
    and "off < config_space_size s - 1 \<Longrightarrow> in_array (config_space s) (int (unat off)) 2"
    and "off < config_space_size s - 3 \<Longrightarrow> in_array (config_space s) (int (unat off)) 4"
proof -
  have c: "3 < unat (config_space_size s)" "unat (config_space_size s) \<le> 256" "length (config_space s) = 256"
    using assms by (simp_all add: config_ok_def dev_inv_def word_less_nat_alt word_le_nat_alt)
  have "1 \<le> config_space_size s" "3 \<le> config_space_size s"
    using c by (simp_all add: word_le_nat_alt)
  note m = less_minus_unat [OF this(1), of off] less_minus_unat [OF this(2), of off]
  show "off < config_space_size s \<Longrightarrow> in_array (config_space s) (int (unat off)) 1"
    using c by (simp add: in_array_def word_less_nat_alt del: of_nat_unat)
  show "off < config_space_size s - 1 \<Longrightarrow> in_array (config_space s) (int (unat off)) 2"
    using m c by (simp add: in_array_def del: of_nat_unat)
  show "off < config_space_size s - 3 \<Longrightarrow> in_array (config_space s) (int (unat off)) 4"
    using m c by (simp add: in_array_def del: of_nat_unat)
qed

lemma wlp_sel_queue [wlp_simps]:
  "dev_inv s \<Longrightarrow> wlp (sel_queue f) Q F s = Q (f (queue s ! unat (queue_sel s))) s"
  by (simp add: sel_queue_def wlp_simps dev_inv_def)

lemma wlp_feature_word: "(\<And>a. Q a s) \<Longrightarrow> wlp feature_word Q F s"
  by (simp add: feature_word_def wlp_simps)

lemma config_read_safe:
  assumes "dev_inv s" and "config_ok s" and "sz = 0 \<or> sz = 1 \<or> sz = 2"
  shows "wlp (virtio_config_read off sz) (\<lambda>_ t. t = s) (\<lambda>_. False) s"
  using assms(3) config_bound [OF assms(1,2), of off]
  by (auto simp: virtio_config_read_def config_peek_def wlp_simps peek_ok simp del: of_nat_unat)

lemma mmio_read_safe:
  assumes "dev_inv s" and "config_ok s" and "sz = 0 \<or> sz = 1 \<or> sz = 2"
  shows "wlp (virtio_mmio_read off sz) (\<lambda>_ t. t = s) (\<lambda>_. False) s"
proof (cases "off \<ge> VIRTIO_MMIO_CONFIG")
  case True
  then show ?thesis using config_read_safe [OF assms] by (simp add: virtio_mmio_read_def)
next
  case False
  then show ?thesis using assms(1) wlp_feature_word [of "\<lambda>_ t. t = s" s]
    by (simp add: virtio_mmio_read_def wlp_simps)
qed

lemma config_write_safe:
  assumes "dev_inv s" and "config_ok s"
    and cb: "\<And>f c. config_write = Some f \<Longrightarrow> length c = 256 \<Longrightarrow> wlp f (\<lambda>_ _. True) (\<lambda>_. False) (s\<lparr>config_space := c\<rparr>)"
  shows "wlp (virtio_config_write config_write off v sz) (\<lambda>_ _. True) (\<lambda>_. False) s"
proof -
  have len: "length (config_space s) = 256" using assms(1) by (simp add: dev_inv_def)
  have call: "wlp (case config_write of None \<Rightarrow> ret () | Some f \<Rightarrow> f) (\<lambda>_ _. True) (\<lambda>_. False) (s\<lparr>config_space := c\<rparr>)"
    if "length c = 256" for c
    using cb that by (cases config_write) (simp_all add: wlp_ret)
  have poke: "wlp (andthen (config_poke off bs) (case config_write of None \<Rightarrow> ret () | Some f \<Rightarrow> f)) (\<lambda>_ _. True) (\<lambda>_. False) s"
    if "in_array (config_space s) (int (unat off)) (length bs)" for bs
    using that len by (auto simp: config_poke_def wlp_simps poke_ok in_array_def simp del: of_nat_unat intro!: call)
  show ?thesis
    using config_bound [OF assms(1,2), of off]
    by (auto simp: virtio_config_write_def Let_def wlp_bnd wlp_gets wlp_if wlp_ret le16.enc_length le32.enc_length
        simp del: of_nat_unat intro!: poke)
qed

section \<open>What the registers do\<close>

text \<open>The corresponding registers of the two blocks.\<close>

fun pci_to_mmio :: "u32 \<Rightarrow> int \<Rightarrow> u32 option" where
  "pci_to_mmio off sz =
    (if sz = 2 then map_of
       [(VIRTIO_PCI_DEVICE_FEATURE, VIRTIO_MMIO_DEVICE_FEATURES),
        (VIRTIO_PCI_DEVICE_FEATURE_SEL, VIRTIO_MMIO_DEVICE_FEATURES_SEL),
        (VIRTIO_PCI_QUEUE_DESC_LOW, VIRTIO_MMIO_QUEUE_DESC_LOW),
        (VIRTIO_PCI_QUEUE_DESC_HIGH, VIRTIO_MMIO_QUEUE_DESC_HIGH),
        (VIRTIO_PCI_QUEUE_AVAIL_LOW, VIRTIO_MMIO_QUEUE_AVAIL_LOW),
        (VIRTIO_PCI_QUEUE_AVAIL_HIGH, VIRTIO_MMIO_QUEUE_AVAIL_HIGH),
        (VIRTIO_PCI_QUEUE_USED_LOW, VIRTIO_MMIO_QUEUE_USED_LOW),
        (VIRTIO_PCI_QUEUE_USED_HIGH, VIRTIO_MMIO_QUEUE_USED_HIGH)] off
     else if sz = 1 then map_of
       [(VIRTIO_PCI_QUEUE_SEL, VIRTIO_MMIO_QUEUE_SEL), (VIRTIO_PCI_QUEUE_SIZE, VIRTIO_MMIO_QUEUE_NUM),
        (VIRTIO_PCI_QUEUE_ENABLE, VIRTIO_MMIO_QUEUE_READY)] off
     else if sz = 0 \<and> off = VIRTIO_PCI_DEVICE_STATUS then Some VIRTIO_MMIO_STATUS
     else None)"

lemma pci_read_as_mmio: "pci_to_mmio off sz = Some r \<Longrightarrow> virtio_pci_read off sz = virtio_mmio_read r 2"
  by (auto simp: virtio_pci_read_def virtio_mmio_read_def split: if_splits)

lemma pci_write_as_mmio: "pci_to_mmio off sz = Some r \<Longrightarrow> virtio_pci_write cw off v sz = virtio_mmio_write cw r v 2"
  by (auto simp: virtio_pci_write_def virtio_mmio_write_def split: if_splits)

lemma low_mask: "(0xffffffff :: u64) = mask 32"
  by (simp add: mask_eq_exp_minus_1)

lemma set_low_high: "set_high32 (set_low32 a lo) hi = word_cat hi lo"
  unfolding set_low32_def set_high32_def low_mask
  by (rule bit_word_eqI) (auto simp: bit_simps word_size dest: bit_imp_le_length)

lemma low_set_low [simp]: "ucast (set_low32 a lo) = lo"
  unfolding set_low32_def low_mask by (rule bit_word_eqI) (auto simp: bit_simps)

lemma high_set_high [simp]: "high32 (set_high32 a hi) = hi"
  by (rule bit_word_eqI) (auto simp: set_high32_def high32_def bit_simps)

lemma wlp_upd_sel_queue [wlp_simps]:
  "dev_inv s \<Longrightarrow> wlp (upd_sel_queue f) Q F s =
     Q () (s\<lparr>queue := (queue s)[unat (queue_sel s) := f (queue s ! unat (queue_sel s))]\<rparr>)"
  by (simp add: upd_sel_queue_def wlp_simps dev_inv_def)

lemma upd_sel_queue_run:
  "dev_inv s \<Longrightarrow> upd_sel_queue f s =
     Some (Inr ((), s\<lparr>queue := (queue s)[unat (queue_sel s) := f (queue s ! unat (queue_sel s))]\<rparr>))"
  by (simp add: upd_sel_queue_def set_queue_def bnd_run dev_inv_def)

lemma sel_queue_run: "dev_inv s \<Longrightarrow> sel_queue f s = Some (Inr (f (queue s ! unat (queue_sel s)), s))"
  by (simp add: sel_queue_def get_queue_def bnd_run dev_inv_def)

lemma mmio_write_safe:
  assumes "dev_inv s" and "config_ok s"
    and cb: "\<And>f c. config_write = Some f \<Longrightarrow> length c = 256 \<Longrightarrow> wlp f (\<lambda>_ _. True) (\<lambda>_. False) (s\<lparr>config_space := c\<rparr>)"
  shows "wlp (virtio_mmio_write config_write off v sz) (\<lambda>_ _. True) (\<lambda>_. False) s"
proof (cases "off \<ge> VIRTIO_MMIO_CONFIG")
  case True
  then show ?thesis using config_write_safe [OF assms] by (simp add: virtio_mmio_write_def)
next
  case False
  then show ?thesis using assms(1)
    by (simp add: virtio_mmio_write_def wlp_simps write_queue_sel_def write_queue_num_def write_status_def
        async_queue_notify_def set_irq_def)
qed

section \<open>Totality\<close>

lemma total_config [total_intros]: "total (config_peek off n)" "total (config_poke off bs)"
  unfolding config_peek_def config_poke_def by (intro total_intros)+

lemma total_sel_queue [total_intros]: "total (sel_queue f)" "total (upd_sel_queue g)"
  unfolding sel_queue_def upd_sel_queue_def by (intro total_intros)+

lemma total_feature_word [total_intros]: "total feature_word"
  unfolding feature_word_def by (intro total_intros)

lemma total_async_queue_notify [total_intros]: "total (async_queue_notify i)"
  unfolding async_queue_notify_def by (intro total_intros)

lemma total_writes [total_intros]:
  "total (write_status v)" "total (write_queue_sel v)" "total (write_queue_num v)"
  unfolding write_status_def write_queue_sel_def write_queue_num_def by (intro total_intros)+

lemma total_config_read [total_intros]: "total (virtio_config_read off sz)"
  unfolding virtio_config_read_def by (intro total_intros)

lemma total_mmio_read: "total (virtio_mmio_read off sz)"
  unfolding virtio_mmio_read_def by (intro total_intros)

lemma total_config_write [total_intros]:
  "(\<And>f. cw = Some f \<Longrightarrow> total f) \<Longrightarrow> total (virtio_config_write cw off v sz)"
  unfolding virtio_config_write_def Let_def by (intro total_intros)

lemma total_mmio_write: "(\<And>f. cw = Some f \<Longrightarrow> total f) \<Longrightarrow> total (virtio_mmio_write cw off v sz)"
  unfolding virtio_mmio_write_def by (intro total_intros)

end
