(* ===== verification/Virtio_Block.thy ===== *)
theory Virtio_Block
  imports Virtio_Regs
begin

text \<open>
  Model of the block device of \<open>src/src/virtio.c\<close>.  The backend (\<open>BlockDevice\<close>, a struct of
  function pointers) is a record of computations over a backend state; \<open>Block_File\<close> models the
  implementation of \<open>src/src/temu.c\<close>.
\<close>

unbundle bit_operations_syntax

section \<open>State\<close>

text \<open>
  \<open>read_async sector buf n\<close> returns the status and the buffer, which the backend may have filled.
  A positive status announces a completion call later.
\<close>

record 'b block_ops =
  get_sector_count :: "'b \<Rightarrow> u64"
  read_async :: "u64 \<Rightarrow> bytes \<Rightarrow> int \<Rightarrow> ('b, int \<times> bytes) vm"
  write_async :: "u64 \<Rightarrow> bytes \<Rightarrow> int \<Rightarrow> ('b, int) vm"

record block_request =
  rtype :: u32
  rbuf :: bytes
  rwrite_size :: int
  rqueue_idx :: nat
  rdesc_idx :: u16

record ('m, 'b) virtio_block_device = "'m virtio_device" +
  bs :: 'b
  req_in_progress :: bool
  req :: block_request

type_synonym ('m, 'b, 'a) block_vm = "(('m, 'b) virtio_block_device, 'a) vm"

record block_request_header =
  htype :: u32
  hioprio :: u32
  hsector_num :: u64

definition decode_header :: "bytes \<Rightarrow> block_request_header" where
  "decode_header h = \<lparr>htype = get_le32 h, hioprio = get_le32 (drop 4 h), hsector_num = get_le64 (drop 8 h)\<rparr>"

abbreviation VIRTIO_BLK_T_IN :: u32 where "VIRTIO_BLK_T_IN \<equiv> 0"
abbreviation VIRTIO_BLK_T_OUT :: u32 where "VIRTIO_BLK_T_OUT \<equiv> 1"
abbreviation VIRTIO_BLK_T_FLUSH :: u32 where "VIRTIO_BLK_T_FLUSH \<equiv> 4"
abbreviation VIRTIO_BLK_T_FLUSH_OUT :: u32 where "VIRTIO_BLK_T_FLUSH_OUT \<equiv> 5"

abbreviation VIRTIO_BLK_S_OK :: u8 where "VIRTIO_BLK_S_OK \<equiv> 0"
abbreviation VIRTIO_BLK_S_IOERR :: u8 where "VIRTIO_BLK_S_IOERR \<equiv> 1"
abbreviation VIRTIO_BLK_S_UNSUPP :: u8 where "VIRTIO_BLK_S_UNSUPP \<equiv> 2"

abbreviation SECTOR_SIZE :: int where "SECTOR_SIZE \<equiv> 512"

section \<open>Operations\<close>

definition on_backend :: "('b, 'a) vm \<Rightarrow> ('m, 'b, 'a) block_vm" where
  "on_backend = zoom bs (\<lambda>b s. s\<lparr>bs := b\<rparr>)"

definition set_req :: "(block_request \<Rightarrow> block_request) \<Rightarrow> ('m, 'b, unit) block_vm" where
  "set_req f = modify (\<lambda>s. s\<lparr>req := f (req s)\<rparr>)"

definition status_byte :: "int \<Rightarrow> u8" where
  "status_byte r = (if r < 0 then VIRTIO_BLK_S_IOERR else VIRTIO_BLK_S_OK)"

text \<open>After \<open>free(buf)\<close> the request's buffer may not be accessed any more: it becomes empty.\<close>

definition virtio_block_req_end :: "'m fmem_ops \<Rightarrow> int \<Rightarrow> ('m, 'b, unit) block_vm" where
  "virtio_block_req_end ops r =
     bnd (gets req) (\<lambda>rq.
     let queue_idx = rqueue_idx rq; desc_idx = rdesc_idx rq in
     if rtype rq = VIRTIO_BLK_T_IN then
       let write_size = rwrite_size rq in
       bnd (cint (write_size - 1)) (\<lambda>last.
       bnd (lift (poke (rbuf rq) last [status_byte r])) (\<lambda>buf.
       bnd (memcpy_to_queue ops queue_idx desc_idx 0 buf write_size) (\<lambda>_.
       andthen (set_req (\<lambda>rq. rq\<lparr>rbuf := []\<rparr>))
       (virtio_consume_desc ops queue_idx desc_idx write_size))))
     else if rtype rq = VIRTIO_BLK_T_OUT then
       bnd (memcpy_to_queue ops queue_idx desc_idx 0 [status_byte r] 1) (\<lambda>_.
       virtio_consume_desc ops queue_idx desc_idx 1)
     else fault Abort)"

definition virtio_block_recv_request ::
  "'m fmem_ops \<Rightarrow> 'b block_ops \<Rightarrow> (nat \<Rightarrow> u8) \<Rightarrow> nat \<Rightarrow> u16 \<Rightarrow> int \<Rightarrow> int \<Rightarrow> ('m, 'b, int) block_vm" where
  "virtio_block_recv_request ops bops junk queue_idx desc_idx read_size write_size =
     bnd (gets req_in_progress) (\<lambda>busy.
     if busy then ret (- 1)
     else bnd (memcpy_from_queue ops (malloc junk 16) queue_idx desc_idx 0 16) (\<lambda>(r, hbuf).
     if r < 0 then ret 0
     else let h = decode_header hbuf in
     andthen (set_req (\<lambda>rq. rq\<lparr>rtype := htype h, rqueue_idx := queue_idx, rdesc_idx := desc_idx\<rparr>))
     (if htype h = VIRTIO_BLK_T_IN then
        andthen (set_req (\<lambda>rq. rq\<lparr>rbuf := malloc junk write_size, rwrite_size := write_size\<rparr>))
        (bnd (cint (write_size - 1)) (\<lambda>n.
         bnd (on_backend (read_async bops (hsector_num h) (malloc junk write_size) (cdiv n SECTOR_SIZE))) (\<lambda>(r, buf).
         andthen (set_req (\<lambda>rq. rq\<lparr>rbuf := buf\<rparr>))
         (andthen
           (if r > 0 then modify (\<lambda>s. s\<lparr>req_in_progress := True\<rparr>) else virtio_block_req_end ops r)
           (ret 0)))))
      else if htype h = VIRTIO_BLK_T_OUT then
        andthen (guard AssertFail (write_size \<ge> 1))
        (let len = int_of_u32 (u32_of_int read_size - 16) in
         bnd (memcpy_from_queue ops (malloc junk len) queue_idx desc_idx 16 len) (\<lambda>(_, buf).
         bnd (on_backend (write_async bops (hsector_num h) buf (cdiv len SECTOR_SIZE))) (\<lambda>r.
         andthen
           (if r > 0 then modify (\<lambda>s. s\<lparr>req_in_progress := True\<rparr>) else virtio_block_req_end ops r)
           (ret 0))))
      else
        bnd (memcpy_to_queue ops queue_idx desc_idx 0 [VIRTIO_BLK_S_UNSUPP] 1) (\<lambda>_.
        andthen (virtio_consume_desc ops queue_idx desc_idx 1) (ret 0)))))"

text \<open>Called by an asynchronous backend when the request in progress is done.\<close>

definition virtio_block_req_cb ::
  "'m fmem_ops \<Rightarrow> 'b block_ops \<Rightarrow> (nat \<Rightarrow> u8) \<Rightarrow> int \<Rightarrow> ('m, 'b, unit) block_vm" where
  "virtio_block_req_cb ops bops junk r =
     andthen (virtio_block_req_end ops r)
     (andthen (modify (\<lambda>s. s\<lparr>req_in_progress := False\<rparr>))
     (bnd (gets req) (\<lambda>rq.
      queue_notify ops (virtio_block_recv_request ops bops junk) (rqueue_idx rq))))"

text \<open>\<open>s\<close> supplies what the call does not set: the globals and the DMA device.\<close>

definition virtio_block_init ::
  "'b block_ops \<Rightarrow> 'b \<Rightarrow> ('m, 'b) virtio_block_device \<Rightarrow> ('m, 'b) virtio_block_device" where
  "virtio_block_init bops b s =
     (let s1 = virtio_init_dev 2 8 (s\<lparr>req_in_progress := False,
            req := \<lparr>rtype = 0, rbuf = [], rwrite_size = 0, rqueue_idx = 0, rdesc_idx = 0\<rparr>\<rparr>);
          nb_sectors = get_sector_count bops b
      in s1\<lparr>bs := b, config_space := blit (blit (config_space s1) 0 (put_le32 (ucast nb_sectors)))
              4 (put_le32 (ucast (drop_bit 32 nb_sectors)))\<rparr>)"

section \<open>The contract\<close>

lemma dev_inv_block [simp]:
  "dev_inv (s\<lparr>bs := b\<rparr>) = dev_inv s"
  "dev_inv (s\<lparr>req := r\<rparr>) = dev_inv s"
  "dev_inv (s\<lparr>req_in_progress := p\<rparr>) = dev_inv s"
  by (simp_all add: dev_inv_def)

lemma keeps_block [keeps_intros]:
  "keeps (\<lambda>s. dev_inv s \<and> queue s = Q) (on_backend m)"
  "keeps (\<lambda>s. dev_inv s \<and> queue s = Q) (set_req f)"
  "keeps (\<lambda>s. dev_inv s \<and> queue s = Q) (modify (\<lambda>s. s\<lparr>req_in_progress := b\<rparr>))"
  unfolding on_backend_def set_req_def
  by (intro keeps_zoom keeps_modify; simp)+

lemma keeps_req_end [keeps_intros]:
  "keeps (\<lambda>s. dev_inv s \<and> queue s = Q) (virtio_block_req_end ops r)"
  unfolding virtio_block_req_end_def
  by (intro keeps_intros keeps_memcpy_to_queue dma_indep_dev_inv)

interpretation blk: virtio_callbacks "virtio_block_recv_request ops bops junk" None for ops bops junk
proof
  fix Q q i rsize wsize
  show "keeps (\<lambda>s. dev_inv s \<and> queue s = Q) (virtio_block_recv_request ops bops junk q i rsize wsize)"
    unfolding virtio_block_recv_request_def
    by (intro keeps_intros dma_indep_dev_inv)
qed simp

lemma keeps_block_req_cb: "keeps dev_inv (virtio_block_req_cb ops bops junk r)"
proof -
  have "keeps dev_inv (virtio_block_req_end ops r :: ('a, 'b, unit) block_vm)"
    by (rule keepsI, rule wlp_keeps [OF keeps_req_end]) auto
  moreover have "keeps dev_inv (modify (\<lambda>s. s\<lparr>req_in_progress := False\<rparr>) :: ('a, 'b, unit) block_vm)"
    by (rule keeps_modify) (simp add: dev_inv_def)
  ultimately show ?thesis
    unfolding virtio_block_req_cb_def by (intro keeps_intros blk.notify_inv)
qed

section \<open>What a request does\<close>

lemma request_more [simp]:
  "request ops mem q i ds (s\<lparr>req := r\<rparr>) = request ops mem q i ds s"
  "request ops mem q i ds (s\<lparr>bs := b\<rparr>) = request ops mem q i ds s"
  "sent mem ds (s\<lparr>req := r\<rparr>) = sent mem ds s"
  "sent mem ds (s\<lparr>bs := b\<rparr>) = sent mem ds s"
  by (simp_all add: request_def on_ram_def sent_def)

lemma block_header:
  assumes "request ops mem q i ds s" and "\<not> req_in_progress s" and "16 \<le> length (sent mem ds s)"
    and "int (length (sent mem ds s)) < 2147483648"
  shows "memcpy_from_queue ops (malloc junk 16) q i 0 16 s = Some (Inr ((0, take 16 (sent mem ds s)), s))"
  using request_read [OF assms(1,4), of 0 16 "malloc junk 16"] assms(3) by simp

lemma block_out_run:
  assumes rq: "request ops mem q i ds s" and idle: "\<not> req_in_progress s"
    and len: "length (sent mem ds s) = 16 + len" "16 + len < 2147483648"
    and out: "htype (decode_header (take 16 (sent mem ds s))) = VIRTIO_BLK_T_OUT"
    and w: "desc_addrs (writable ds) = w # ws" "w \<notin> table (desc_addr (queue s ! q)) ds"
    and bk: "write_async bops (hsector_num (decode_header (take 16 (sent mem ds s)))) (drop 16 (sent mem ds s))
       (int (len div 512)) (bs s) = Some (Inr (r, b))" "r \<le> 0"
    and "1 \<le> wsize"
  shows "\<exists>m rq. virtio_block_recv_request ops bops junk q i (int (16 + len)) wsize s =
      Some (Inr (0, s\<lparr>dma := m, int_status := int_status s OR 1, irq := 1, bs := b, req := rq\<rparr>))
    \<and> mem m = used_push ((mem (dma s))(w := status_byte r)) (used_addr (queue s ! q)) (num (queue s ! q)) i 1"
proof -
  let ?h = "decode_header (take 16 (sent mem ds s))"
  let ?rq = "(req s)\<lparr>rtype := VIRTIO_BLK_T_OUT, rqueue_idx := q, rdesc_idx := i\<rparr>"
  let ?s1 = "s\<lparr>req := ?rq\<rparr>" and ?s2 = "s\<lparr>bs := b, req := ?rq\<rparr>"
  note hd = block_header [OF rq idle, of junk]
  have l: "int_of_u32 (u32_of_int (int (16 + len)) - 16) = int len"
  proof -
    have "u32_of_int (int (16 + len)) - 16 = u32_of_int (int len)" by (simp add: u32_of_int_def)
    then show ?thesis using len(2) by (simp add: int_of_u32_of_int int_in_range_def)
  qed
  have data: "memcpy_from_queue ops (malloc junk (int len)) q i 16 (int len) ?s1 = Some (Inr ((0, drop 16 (sent mem ds s)), ?s1))"
    using request_read [of ops mem q i ds ?s1 16 len "malloc junk (int len)"] rq len by simp
  obtain m where m: "bnd (memcpy_to_queue ops q i 0 [status_byte r] 1) (\<lambda>_. virtio_consume_desc ops q i 1) ?s2 =
      Some (Inr ((), ?s2\<lparr>dma := m, int_status := int_status s OR 1, irq := 1\<rparr>))"
    "mem m = used_push ((mem (dma s))(w := status_byte r)) (used_addr (queue s ! q)) (num (queue s ! q)) i 1"
    using request_reply [of ops mem q i ds ?s2 "[status_byte r]" 1] rq w by (auto simp: write_list_def)
  have wr: "on_backend (write_async bops (hsector_num ?h) (drop 16 (sent mem ds s)) (cdiv (int len) 512)) ?s1 = Some (Inr (r, ?s2))"
    using bk(1) by (simp add: on_backend_def zoom_run cdiv_def zdiv_int)
  have e: "virtio_block_req_end ops r ?s2 = Some (Inr ((), ?s2\<lparr>dma := m, int_status := int_status s OR 1, irq := 1\<rparr>))"
    using m(1) by (simp add: virtio_block_req_end_def bnd_run)
  have "virtio_block_recv_request ops bops junk q i (int (16 + len)) wsize s =
      Some (Inr (0, ?s2\<lparr>dma := m, int_status := int_status s OR 1, irq := 1\<rparr>))"
    using hd len idle out assms(9,10) l data wr e
    by (simp add: virtio_block_recv_request_def Let_def bnd_run andthen_run set_req_def)
  with m(2) show ?thesis by (intro exI [of _ m] exI [of _ ?rq]) simp
qed

lemma block_in_run:
  assumes rq: "request ops mem q i ds s" and idle: "\<not> req_in_progress s"
    and len: "16 \<le> length (sent mem ds s)" "length (sent mem ds s) < 2147483648"
    and in': "htype (decode_header (take 16 (sent mem ds s))) = VIRTIO_BLK_T_IN"
    and n: "length (desc_addrs (writable ds)) = Suc n" "Suc n < 2147483648"
    and dis: "set (desc_addrs (writable ds)) \<inter> table (desc_addr (queue s ! q)) ds = {}"
    and bk: "read_async bops (hsector_num (decode_header (take 16 (sent mem ds s)))) (malloc junk (int (Suc n)))
       (int (n div 512)) (bs s) = Some (Inr ((r, data), b))" "r \<le> 0" "length data = Suc n"
  shows "\<exists>m rq. virtio_block_recv_request ops bops junk q i rsize (int (Suc n)) s =
      Some (Inr (0, s\<lparr>dma := m, int_status := int_status s OR 1, irq := 1, bs := b, req := rq\<rparr>))
    \<and> mem m = used_push (write_list (mem (dma s)) (zip (desc_addrs (writable ds)) (data[n := status_byte r])))
        (used_addr (queue s ! q)) (num (queue s ! q)) i (int (Suc n))"
proof -
  let ?W = "desc_addrs (writable ds)"
  let ?h = "decode_header (take 16 (sent mem ds s))"
  let ?rq = "(req s)\<lparr>rtype := VIRTIO_BLK_T_IN, rqueue_idx := q, rdesc_idx := i, rwrite_size := int (Suc n)\<rparr>"
  let ?rq0 = "(req s)\<lparr>rtype := VIRTIO_BLK_T_IN, rqueue_idx := q, rdesc_idx := i,
      rbuf := malloc junk (1 + int n), rwrite_size := 1 + int n\<rparr>"
  let ?s1 = "s\<lparr>req := ?rq0\<rparr>"
  let ?s2 = "s\<lparr>bs := b, req := ?rq\<lparr>rbuf := data\<rparr>\<rparr>"
  let ?d = "data[n := status_byte r]"
  have hd: "memcpy_from_queue ops (malloc junk 16) q i 0 16 s = Some (Inr ((0, take 16 (sent mem ds s)), s))"
    using block_header [OF rq idle len(1)] len(2) by simp
  have rd: "on_backend (read_async bops (hsector_num ?h) (malloc junk (1 + int n)) (cdiv (int n) 512)) ?s1 =
      Some (Inr ((r, data), s\<lparr>bs := b, req := ?rq0\<rparr>))"
    using bk(1) by (simp add: on_backend_def zoom_run cdiv_def zdiv_int)
  obtain m where m: "memcpy_to_queue ops q i 0 ?d (1 + int n) ?s2 = Some (Inr (0, ?s2\<lparr>dma := m\<rparr>))"
    "mem m = write_list (mem (dma s)) (zip ?W ?d)"
    using request_write [of ops mem q i ds ?s2 ?d] rq n dis bk(3) by auto
  let ?s3 = "?s2\<lparr>dma := m, req := ?rq\<lparr>rbuf := []\<rparr>\<rparr>"
  have "on_ram ops mem q ?s3" "dma_offset (used_addr (queue ?s3 ! q)) AND 3 = 0"
    using rq by (simp_all add: request_def on_ram_def)
  from consume_desc_run [OF this, of i "int (Suc n)"]
  obtain m' where m': "virtio_consume_desc ops q i (1 + int n) ?s3 = Some (Inr ((), ?s3\<lparr>dma := m', int_status := int_status s OR 1, irq := 1\<rparr>))"
    "mem m' = used_push (mem m) (used_addr (queue s ! q)) (num (queue s ! q)) i (int (Suc n))"
    by auto
  have pk: "poke data (int n) [status_byte r] = Inr ?d"
    using bk(3) poke_nat [of n "[status_byte r]" data] by (simp add: blit_def upd_conv_take_nth_drop)
  have e: "virtio_block_req_end ops r ?s2 = Some (Inr ((), ?s3\<lparr>dma := m', int_status := int_status s OR 1, irq := 1\<rparr>))"
    using m(1) m'(1) n pk by (simp add: virtio_block_req_end_def Let_def bnd_run andthen_run set_req_def cint_run int_in_range_def)
  have "virtio_block_recv_request ops bops junk q i rsize (int (Suc n)) s =
      Some (Inr (0, ?s3\<lparr>dma := m', int_status := int_status s OR 1, irq := 1\<rparr>))"
    using hd n idle in' bk(2) rd e
    by (simp add: virtio_block_recv_request_def Let_def bnd_run andthen_run set_req_def cint_run int_in_range_def)
  with m'(2) m(2) show ?thesis by (intro exI [of _ m'] exI [of _ "?rq\<lparr>rbuf := []\<rparr>"]) simp
qed

text \<open>A read request without a byte for the status writes before its buffer.\<close>

lemma block_in_no_space:
  assumes "request ops mem q i ds s" and "\<not> req_in_progress s"
    and "16 \<le> length (sent mem ds s)" "length (sent mem ds s) < 2147483648"
    and "htype (decode_header (take 16 (sent mem ds s))) = VIRTIO_BLK_T_IN"
    and "read_async bops (hsector_num (decode_header (take 16 (sent mem ds s)))) [] 0 (bs s) = Some (Inr ((r, []), b))" "r \<le> 0"
  shows "virtio_block_recv_request ops bops junk q i rsize 0 s = Some (Inl OutOfBounds)"
  using assms block_header [OF assms(1-3)]
  by (simp add: virtio_block_recv_request_def virtio_block_req_end_def Let_def bnd_run andthen_run set_req_def
      cint_run int_in_range_def malloc_def cdiv_def on_backend_def zoom_run poke_def in_array_def)

section \<open>The contract of a backend\<close>

text \<open>
  \<open>disk\<close> is the sequence of bytes a backend stands for.  Within its bounds a write changes exactly
  the addressed sectors and a read returns them.
\<close>

locale block_backend =
  fixes bops :: "'b block_ops" and inv :: "'b \<Rightarrow> bool" and disk :: "'b \<Rightarrow> bytes"
  assumes write_ok: "inv b \<Longrightarrow> 512 * (unat k + n) \<le> length (disk b) \<Longrightarrow> n < 4194304 \<Longrightarrow> 512 * n \<le> length buf \<Longrightarrow>
      \<exists>b'. write_async bops k buf (int n) b = Some (Inr (0, b')) \<and> inv b'
        \<and> disk b' = blit (disk b) (512 * unat k) (take (512 * n) buf)"
    and read_ok: "inv b \<Longrightarrow> 512 * (unat k + n) \<le> length (disk b) \<Longrightarrow> n < 4194304 \<Longrightarrow> 512 * n \<le> length buf \<Longrightarrow>
      \<exists>b'. read_async bops k buf (int n) b =
          Some (Inr ((0, blit buf 0 (take (512 * n) (drop (512 * unat k) (disk b)))), b'))
        \<and> inv b' \<and> disk b' = disk b"
begin

text \<open>What was written is read back, whatever was written elsewhere in between.\<close>

lemma read_back:
  assumes "inv b" and "512 * (unat k + n) \<le> length (disk b)" and "n < 4194304" and "length data = 512 * n"
    and "length buf = 512 * n"
  shows "\<exists>b1 b2. write_async bops k data (int n) b = Some (Inr (0, b1))
    \<and> read_async bops k buf (int n) b1 = Some (Inr ((0, data), b2)) \<and> inv b2 \<and> disk b2 = disk b1"
proof -
  obtain b1 where b1: "write_async bops k data (int n) b = Some (Inr (0, b1))" "inv b1"
    "disk b1 = blit (disk b) (512 * unat k) data"
    using write_ok [OF assms(1-3), of data] assms(4) by auto
  have l: "512 * unat k + length data \<le> length (disk b)" using assms(2,4) by simp
  then have "512 * (unat k + n) \<le> length (disk b1)" using assms(4) by (simp add: b1(3))
  from read_ok [OF b1(2) this assms(3), of buf] assms(4,5) l
  obtain b2 where "read_async bops k buf (int n) b1 = Some (Inr ((0, data), b2))" "inv b2" "disk b2 = disk b1"
    using take_drop_blit [OF l] by (auto simp: b1(3) blit_0_full)
  with b1(1) show ?thesis by blast
qed

text \<open>A write request of whole sectors stores the guest's bytes and reports success.\<close>

lemma guest_write:
  assumes rq: "request ops mem q i ds s" and idle: "\<not> req_in_progress s" and inv: "inv (bs s)"
    and len: "length (sent mem ds s) = 16 + 512 * n" "16 + 512 * n < 2147483648"
    and h: "decode_header (take 16 (sent mem ds s)) = \<lparr>htype = VIRTIO_BLK_T_OUT, hioprio = p, hsector_num = k\<rparr>"
    and fit: "512 * (unat k + n) \<le> length (disk (bs s))"
    and w: "desc_addrs (writable ds) = w # ws" "w \<notin> table (desc_addr (queue s ! q)) ds" and "1 \<le> wsize"
  shows "\<exists>t. virtio_block_recv_request ops bops junk q i (int (16 + 512 * n)) wsize s = Some (Inr (0, t))
    \<and> inv (bs t) \<and> disk (bs t) = blit (disk (bs s)) (512 * unat k) (drop 16 (sent mem ds s))
    \<and> queue t = queue s \<and> \<not> req_in_progress t \<and> irq t = 1
    \<and> mem (dma t) = used_push ((mem (dma s))(w := VIRTIO_BLK_S_OK)) (used_addr (queue s ! q)) (num (queue s ! q)) i 1"
proof -
  let ?d = "drop 16 (sent mem ds s)"
  have ld: "length ?d = 512 * n" using len(1) by simp
  have nb: "n < 4194304" using len(2) by simp
  have lb: "512 * n \<le> length ?d" using ld by simp
  obtain b where b: "write_async bops k ?d (int n) (bs s) = Some (Inr (0, b))" "inv b"
    "disk b = blit (disk (bs s)) (512 * unat k) ?d"
    using write_ok [OF inv fit nb lb] ld by auto
  have bk: "write_async bops (hsector_num (decode_header (take 16 (sent mem ds s)))) ?d
       (int (512 * n div 512)) (bs s) = Some (Inr (0, b))" using b(1) by (simp add: h)
  have out: "htype (decode_header (take 16 (sent mem ds s))) = VIRTIO_BLK_T_OUT" by (simp add: h)
  have "\<exists>m rq. virtio_block_recv_request ops bops junk q i (int (16 + 512 * n)) wsize s =
      Some (Inr (0, s\<lparr>dma := m, int_status := int_status s OR 1, irq := 1, bs := b, req := rq\<rparr>))
    \<and> mem m = used_push ((mem (dma s))(w := status_byte 0)) (used_addr (queue s ! q)) (num (queue s ! q)) i 1"
    by (rule block_out_run [OF rq idle len out w bk _ assms(10)]) simp
  then show ?thesis using b idle by (auto simp: status_byte_def)
qed

text \<open>A read request of whole sectors and a status byte gives the guest the bytes of the disk.\<close>

lemma guest_read:
  assumes rq: "request ops mem q i ds s" and idle: "\<not> req_in_progress s" and inv: "inv (bs s)"
    and len: "16 \<le> length (sent mem ds s)" "length (sent mem ds s) < 2147483648"
    and h: "decode_header (take 16 (sent mem ds s)) = \<lparr>htype = VIRTIO_BLK_T_IN, hioprio = p, hsector_num = k\<rparr>"
    and n: "length (desc_addrs (writable ds)) = Suc (512 * n)" "Suc (512 * n) < 2147483648"
    and fit: "512 * (unat k + n) \<le> length (disk (bs s))"
    and dis: "set (desc_addrs (writable ds)) \<inter> table (desc_addr (queue s ! q)) ds = {}"
  shows "\<exists>t. virtio_block_recv_request ops bops junk q i rsize (int (Suc (512 * n))) s = Some (Inr (0, t))
    \<and> inv (bs t) \<and> disk (bs t) = disk (bs s) \<and> queue t = queue s \<and> \<not> req_in_progress t \<and> irq t = 1
    \<and> mem (dma t) = used_push
        (write_list (mem (dma s)) (zip (desc_addrs (writable ds))
           (take (512 * n) (drop (512 * unat k) (disk (bs s))) @ [VIRTIO_BLK_S_OK])))
        (used_addr (queue s ! q)) (num (queue s ! q)) i (int (Suc (512 * n)))"
proof -
  let ?buf = "malloc junk (int (Suc (512 * n)))"
  let ?sec = "take (512 * n) (drop (512 * unat k) (disk (bs s)))"
  have ls: "length ?sec = 512 * n" using fit by simp
  have nb: "n < 4194304" using n(2) by simp
  have lb: "512 * n \<le> length ?buf" by simp
  obtain b where b: "read_async bops k ?buf (int n) (bs s) = Some (Inr ((0, blit ?buf 0 ?sec), b))" "inv b"
    "disk b = disk (bs s)"
    using read_ok [OF inv fit nb lb] by blast
  have "drop (512 * n) ?buf = [junk (512 * n)]"
    by (simp only: malloc_def nat_int drop_map drop_upt) (simp add: upt_rec)
  then have bl: "(blit ?buf 0 ?sec)[512 * n := status_byte 0] = ?sec @ [VIRTIO_BLK_S_OK]"
    using ls by (simp add: blit_def status_byte_def list_update_append)
  have bk: "read_async bops (hsector_num (decode_header (take 16 (sent mem ds s)))) ?buf
       (int (512 * n div 512)) (bs s) = Some (Inr ((0, blit ?buf 0 ?sec), b))" using b(1) by (simp add: h)
  have in': "htype (decode_header (take 16 (sent mem ds s))) = VIRTIO_BLK_T_IN" by (simp add: h)
  have lbl: "length (blit ?buf 0 ?sec) = Suc (512 * n)" using ls by simp
  have "\<exists>m rq. virtio_block_recv_request ops bops junk q i rsize (int (Suc (512 * n))) s =
      Some (Inr (0, s\<lparr>dma := m, int_status := int_status s OR 1, irq := 1, bs := b, req := rq\<rparr>))
    \<and> mem m = used_push (write_list (mem (dma s)) (zip (desc_addrs (writable ds)) ((blit ?buf 0 ?sec)[512 * n := status_byte 0])))
        (used_addr (queue s ! q)) (num (queue s ! q)) i (int (Suc (512 * n)))"
    by (rule block_in_run [OF rq idle len in' n dis bk _ lbl]) simp
  then show ?thesis using b idle unfolding bl by auto
qed

text \<open>The same from the notification on: the ring entry is taken and the request carried out.\<close>

lemma notified_write:
  assumes rq: "request ops mem q i ds s" and new: "pending mem q i s" and ok: "list_all is_write (dropWhile (\<lambda>d. \<not> is_write d) ds)"
    and idle: "\<not> req_in_progress s" and inv: "inv (bs s)"
    and len: "length (sent mem ds s) = 16 + 512 * n" "16 + 512 * n < 2147483648"
    and h: "decode_header (take 16 (sent mem ds s)) = \<lparr>htype = VIRTIO_BLK_T_OUT, hioprio = p, hsector_num = k\<rparr>"
    and fit: "512 * (unat k + n) \<le> length (disk (bs s))"
    and w: "desc_addrs (writable ds) = w # ws" "w \<notin> table (desc_addr (queue s ! q)) ds" "length ws < 2147483647"
  shows "\<exists>t. queue_notify ops (virtio_block_recv_request ops bops junk) q s = Some (Inr ((), t))
    \<and> inv (bs t) \<and> disk (bs t) = blit (disk (bs s)) (512 * unat k) (drop 16 (sent mem ds s))
    \<and> last_avail_idx (queue t ! q) = last_avail_idx (queue s ! q) + 1 \<and> irq t = 1
    \<and> mem (dma t) = used_push ((mem (dma s))(w := VIRTIO_BLK_S_OK)) (used_addr (queue s ! q)) (num (queue s ! q)) i 1"
proof -
  let ?s = "noticed q s" and ?r = "16 + 512 * n" and ?w = "length (w # ws)"
  have q: "q < length (queue s)" by (rule request_queue [OF rq])
  have b: "bs ?s = bs s" "req_in_progress ?s = req_in_progress s" by (simp_all add: noticed_def)
  obtain t where t: "virtio_block_recv_request ops bops junk q i (int ?r) (int ?w) ?s = Some (Inr (0, t))"
    "inv (bs t)" "disk (bs t) = blit (disk (bs s)) (512 * unat k) (drop 16 (sent mem ds s))"
    "queue t = queue ?s" "irq t = 1"
    "mem (dma t) = used_push ((mem (dma s))(w := VIRTIO_BLK_S_OK)) (used_addr (queue s ! q)) (num (queue s ! q)) i 1"
    using guest_write [of ops mem q i ds ?s n p k w ws "int ?w" junk] rq idle inv len h fit w q by (auto simp: b)
  have "?r = length (desc_addrs (readable ds))" using len(1) by (simp add: sent_def)
  from notify_one [where recv = "virtio_block_recv_request ops bops junk", OF rq new ok this len(2) _ _ t(1) _ t(4)] w
  have "queue_notify ops (virtio_block_recv_request ops bops junk) q s = Some (Inr ((), served q t))" by simp
  with t q show ?thesis by (intro exI [of _ "served q t"]) (simp add: served_def)
qed

lemma notified_read:
  assumes rq: "request ops mem q i ds s" and new: "pending mem q i s" and ok: "list_all is_write (dropWhile (\<lambda>d. \<not> is_write d) ds)"
    and idle: "\<not> req_in_progress s" and inv: "inv (bs s)"
    and len: "16 \<le> length (sent mem ds s)" "length (sent mem ds s) < 2147483648"
    and h: "decode_header (take 16 (sent mem ds s)) = \<lparr>htype = VIRTIO_BLK_T_IN, hioprio = p, hsector_num = k\<rparr>"
    and n: "length (desc_addrs (writable ds)) = Suc (512 * n)" "Suc (512 * n) < 2147483648"
    and fit: "512 * (unat k + n) \<le> length (disk (bs s))"
    and dis: "set (desc_addrs (writable ds)) \<inter> table (desc_addr (queue s ! q)) ds = {}"
  shows "\<exists>t. queue_notify ops (virtio_block_recv_request ops bops junk) q s = Some (Inr ((), t))
    \<and> inv (bs t) \<and> disk (bs t) = disk (bs s)
    \<and> last_avail_idx (queue t ! q) = last_avail_idx (queue s ! q) + 1 \<and> irq t = 1
    \<and> mem (dma t) = used_push
        (write_list (mem (dma s)) (zip (desc_addrs (writable ds))
           (take (512 * n) (drop (512 * unat k) (disk (bs s))) @ [VIRTIO_BLK_S_OK])))
        (used_addr (queue s ! q)) (num (queue s ! q)) i (int (Suc (512 * n)))"
proof -
  let ?s = "noticed q s"
  have q: "q < length (queue s)" by (rule request_queue [OF rq])
  have b: "bs ?s = bs s" "req_in_progress ?s = req_in_progress s" by (simp_all add: noticed_def)
  obtain t where t: "virtio_block_recv_request ops bops junk q i (int (length (sent mem ds s))) (int (Suc (512 * n))) ?s = Some (Inr (0, t))"
    "inv (bs t)" "disk (bs t) = disk (bs s)" "queue t = queue ?s" "irq t = 1"
    "mem (dma t) = used_push
        (write_list (mem (dma s)) (zip (desc_addrs (writable ds))
           (take (512 * n) (drop (512 * unat k) (disk (bs s))) @ [VIRTIO_BLK_S_OK])))
        (used_addr (queue s ! q)) (num (queue s ! q)) i (int (Suc (512 * n)))"
    using guest_read [of ops mem q i ds ?s p k n junk "int (length (sent mem ds s))"] rq idle inv len h n fit dis q
    by (auto simp: b simp del: of_nat_Suc)
  have "length (sent mem ds s) = length (desc_addrs (readable ds))" by (simp add: sent_def)
  from notify_one [where recv = "virtio_block_recv_request ops bops junk", OF rq new ok this len(2) n(1) [symmetric] n(2) t(1) _ t(4)]
  have "queue_notify ops (virtio_block_recv_request ops bops junk) q s = Some (Inr ((), served q t))" by simp
  with t q show ?thesis by (intro exI [of _ "served q t"]) (simp add: served_def)
qed

end

end
