(* ===== verification/Block_File.thy ===== *)
theory Block_File
  imports Virtio_Block Sample
begin

text \<open>
  Model of the file-backed block device of \<open>src/src/temu.c\<close> (\<open>BlockDeviceFile\<close>, \<open>bf_*\<close>,
  \<open>block_device_init\<close>).  A stdio stream on a regular file is its bytes and a position; reads stop
  at the end of the file and writes succeed.
\<close>

section \<open>Streams\<close>

record stream =
  fdata :: bytes
  fpos :: nat

text \<open>\<open>fseek\<close> to an absolute position; a negative offset is an error and leaves the stream alone.\<close>

definition fseek_set :: "u64 \<Rightarrow> (stream, unit) vm" where
  "fseek_set off = modify (\<lambda>f. if sint off < 0 then f else f\<lparr>fpos := unat off\<rparr>)"

text \<open>An \<open>int\<close> passed as a \<open>size_t\<close>.\<close>

definition size_t_of_int :: "int \<Rightarrow> nat" where
  "size_t_of_int i = nat (i mod 2 ^ 64)"

definition fread :: "bytes \<Rightarrow> int \<Rightarrow> int \<Rightarrow> (stream, int \<times> bytes) vm" where
  "fread buf off n = bnd (gets (\<lambda>f. take (size_t_of_int n) (drop (fpos f) (fdata f)))) (\<lambda>bs.
     bnd (lift (poke buf off bs)) (\<lambda>buf'.
     andthen (modify (\<lambda>f. f\<lparr>fpos := fpos f + length bs\<rparr>))
     (ret (int_of_u32 (of_nat (length bs)), buf'))))"

text \<open>Writing past the end fills the gap with zeros.\<close>

definition fwrite :: "bytes \<Rightarrow> int \<Rightarrow> (stream, unit) vm" where
  "fwrite buf n = bnd (lift (peek buf 0 (size_t_of_int n))) (\<lambda>bs.
     modify (\<lambda>f. let d = fdata f @ replicate (fpos f + length bs - length (fdata f)) 0
                  in if bs = [] then f else f\<lparr>fdata := blit d (fpos f) bs, fpos := fpos f + length bs\<rparr>))"

section \<open>The device\<close>

datatype block_device_mode = BF_MODE_RO | BF_MODE_RW | BF_MODE_SNAPSHOT

text \<open>\<open>sector_table\<close> is a null pointer, here an array without elements, except in snapshot mode.\<close>

record block_device_file =
  bf_f :: "stream option"
  nb_sectors :: int
  bf_mode :: block_device_mode
  sector_table :: "bytes option list"

definition on_file :: "(stream, 'a) vm \<Rightarrow> (block_device_file, 'a) vm" where
  "on_file m = bnd (gets bf_f) (\<lambda>fo. case fo of None \<Rightarrow> fault NullDeref
     | Some _ \<Rightarrow> zoom (\<lambda>b. the (bf_f b)) (\<lambda>f b. b\<lparr>bf_f := Some f\<rparr>) m)"

definition bf_get_sector_count :: "block_device_file \<Rightarrow> u64" where
  "bf_get_sector_count bf = word_of_int (nb_sectors bf)"

definition get_sector_entry :: "u64 \<Rightarrow> (block_device_file, bytes option) vm" where
  "get_sector_entry k = (\<lambda>bf. if unat k < length (sector_table bf)
     then Some (Inr (sector_table bf ! unat k, bf)) else Some (Inl OutOfBounds))"

definition set_sector_entry :: "u64 \<Rightarrow> bytes \<Rightarrow> (block_device_file, unit) vm" where
  "set_sector_entry k d = (\<lambda>bf. if unat k < length (sector_table bf)
     then Some (Inr ((), bf\<lparr>sector_table := (sector_table bf)[unat k := Some d]\<rparr>)) else Some (Inl OutOfBounds))"

text \<open>The two read loops; \<open>pos\<close> is how far \<open>buf\<close> has been advanced by the caller.\<close>

definition sector_read_body ::
  "int \<Rightarrow> int \<times> int \<times> bytes \<Rightarrow> (block_device_file, (int \<times> int \<times> bytes, bytes) step) vm" where
  "sector_read_body pos = (\<lambda>(bytes_to_read, offset, buf).
     bnd (on_file (fread buf (pos + offset) bytes_to_read)) (\<lambda>(bytes_read, buf').
     if bytes_read > 0 then
       if bytes_to_read - bytes_read > 0 then ret (Again (bytes_to_read - bytes_read, offset + bytes_read, buf'))
       else ret (Done buf')
     else ret (Done buf')))"

definition whole_read_body ::
  "int \<Rightarrow> int \<times> int \<times> bytes \<Rightarrow> (block_device_file, (int \<times> int \<times> bytes, bytes) step) vm" where
  "whole_read_body n = (\<lambda>(bytes_to_read, offset, buf).
     bnd (on_file (fread buf offset (n * SECTOR_SIZE))) (\<lambda>(bytes_read, buf').
     if bytes_read > 0 then
       if bytes_to_read - bytes_read > 0 then ret (Again (bytes_to_read - bytes_read, offset + bytes_read, buf'))
       else ret (Done buf')
     else ret (Done buf')))"

fun bf_read_snapshot :: "nat \<Rightarrow> u64 \<Rightarrow> bytes \<Rightarrow> int \<Rightarrow> (block_device_file, bytes) vm" where
  "bf_read_snapshot 0 sector_num buf pos = ret buf"
| "bf_read_snapshot (Suc i) sector_num buf pos =
     bnd (get_sector_entry sector_num) (\<lambda>e.
     bnd (case e of
            None \<Rightarrow> andthen (on_file (fseek_set (sector_num * 512)))
                      (loop (sector_read_body pos) (SECTOR_SIZE, 0, buf))
          | Some d \<Rightarrow> lift (poke buf pos d)) (\<lambda>buf'.
     bf_read_snapshot i (sector_num + 1) buf' (pos + SECTOR_SIZE)))"

definition bf_read_async :: "u64 \<Rightarrow> bytes \<Rightarrow> int \<Rightarrow> (block_device_file, int \<times> bytes) vm" where
  "bf_read_async sector_num buf n =
     bnd (gets bf_f) (\<lambda>f.
     if f = None then ret (- 1, buf)
     else bnd (gets bf_mode) (\<lambda>mode.
     if mode = BF_MODE_SNAPSHOT then
       bnd (bf_read_snapshot (nat n) sector_num buf 0) (\<lambda>buf'. ret (0, buf'))
     else andthen (on_file (fseek_set (sector_num * 512)))
       (bnd (loop (whole_read_body n) (n * SECTOR_SIZE, 0, buf)) (\<lambda>buf'. ret (0, buf')))))"

fun bf_write_snapshot :: "nat \<Rightarrow> u64 \<Rightarrow> bytes \<Rightarrow> int \<Rightarrow> (block_device_file, unit) vm" where
  "bf_write_snapshot 0 sector_num buf pos = ret ()"
| "bf_write_snapshot (Suc i) sector_num buf pos =
     bnd (get_sector_entry sector_num) (\<lambda>_.
     bnd (lift (peek buf pos 512)) (\<lambda>d.
     andthen (set_sector_entry sector_num d)
     (bf_write_snapshot i (sector_num + 1) buf (pos + SECTOR_SIZE))))"

definition bf_write_async :: "u64 \<Rightarrow> bytes \<Rightarrow> int \<Rightarrow> (block_device_file, int) vm" where
  "bf_write_async sector_num buf n =
     bnd (gets bf_mode) (\<lambda>mode. case mode of
       BF_MODE_RO \<Rightarrow> ret (- 1)
     | BF_MODE_RW \<Rightarrow> andthen (on_file (fseek_set (sector_num * 512)))
         (andthen (on_file (fwrite buf (n * SECTOR_SIZE))) (ret 0))
     | BF_MODE_SNAPSHOT \<Rightarrow> bnd (gets nb_sectors) (\<lambda>nb.
         if sector_num + word_of_int n > word_of_int nb then ret (- 1)
         else andthen (bf_write_snapshot (nat n) sector_num buf 0) (ret 0)))"

definition bf_ops :: "block_device_file block_ops" where
  "bf_ops = \<lparr>get_sector_count = bf_get_sector_count, read_async = bf_read_async, write_async = bf_write_async\<rparr>"

text \<open>\<open>block_device_init\<close> on an opened file; without a file the program exits.\<close>

definition block_device_init :: "bytes \<Rightarrow> block_device_mode \<Rightarrow> block_device_file" where
  "block_device_init file mode =
     (let n = int (length file) div 512 in
      \<lparr>bf_f = Some \<lparr>fdata = file, fpos = length file\<rparr>, nb_sectors = n, bf_mode = mode,
       sector_table = (if mode = BF_MODE_SNAPSHOT then replicate (nat n) None else [])\<rparr>)"

section \<open>Streams and the read loops\<close>

lemma on_file_run:
  "bf_f b = Some f \<Longrightarrow> m f = Some (Inr (a, f')) \<Longrightarrow> on_file m b = Some (Inr (a, b\<lparr>bf_f := Some f'\<rparr>))"
  by (simp add: on_file_def bnd_run zoom_run)

lemma size_t_of_int_nat: "n < 2147483648 \<Longrightarrow> size_t_of_int (int n) = n"
  by (simp add: size_t_of_int_def)

lemma fread_run:
  assumes "n < 2147483648" and "d = take n (drop (fpos f) (fdata f))" and "off + length d \<le> length buf"
  shows "fread buf (int off) (int n) f =
    Some (Inr ((int (length d), blit buf off d), f\<lparr>fpos := fpos f + length d\<rparr>))"
proof -
  have ln: "length d \<le> n" using assms(2) by simp
  then have "unat (of_nat (length d) :: u32) = length d" using assms(1) by (simp add: unat_of_nat)
  then have "int_of_u32 (of_nat (length d)) = int (length d)"
    using assms(1) ln by (subst int_of_u32_small) auto
  then show ?thesis
    using assms by (simp add: fread_def bnd_run andthen_run size_t_of_int_nat poke_nat)
qed

text \<open>Both loops, for a count \<open>c\<close> that is the number of missing bytes or the initial one.\<close>

definition read_body ::
  "int \<Rightarrow> (int \<Rightarrow> int) \<Rightarrow> int \<times> int \<times> bytes \<Rightarrow> (block_device_file, (int \<times> int \<times> bytes, bytes) step) vm" where
  "read_body pos c = (\<lambda>(bytes_to_read, offset, buf).
     bnd (on_file (fread buf (pos + offset) (c bytes_to_read))) (\<lambda>(bytes_read, buf').
     if bytes_read > 0 then
       if bytes_to_read - bytes_read > 0 then ret (Again (bytes_to_read - bytes_read, offset + bytes_read, buf'))
       else ret (Done buf')
     else ret (Done buf')))"

lemma read_bodies:
  "sector_read_body pos = read_body pos (\<lambda>n. n)" "whole_read_body n = read_body 0 (\<lambda>_. n * SECTOR_SIZE)"
  by (rule ext, simp add: sector_read_body_def whole_read_body_def read_body_def)+

lemma read_loop_run:
  assumes f: "bf_f b = Some f" and d: "d = take n (drop (fpos f) (fdata f))"
    and n: "n < 2147483648" "c (int n) = int n" "\<And>k. 0 \<le> k \<Longrightarrow> k \<le> int n \<Longrightarrow> 0 \<le> c k \<and> c k < 2147483648" and pos: "pos + n \<le> length buf"
  shows "loop (read_body (int pos) c) (int n, 0, buf) b =
    Some (Inr (blit buf pos d, b\<lparr>bf_f := Some (f\<lparr>fpos := fpos f + length d\<rparr>)\<rparr>))"
proof -
  let ?f = "f\<lparr>fpos := fpos f + length d\<rparr>" and ?b = "b\<lparr>bf_f := Some (f\<lparr>fpos := fpos f + length d\<rparr>)\<rparr>"
  have ld: "length d \<le> n" using d by simp
  have one: "on_file (fread buf (int pos) (int n)) b = Some (Inr ((int (length d), blit buf pos d), ?b))"
    using fread_run [OF n(1) d, of pos buf] pos ld by (intro on_file_run [OF f]) simp
  show ?thesis
  proof (cases "0 < length d \<and> length d < n")
    case False
    then have "read_body (int pos) c (int n, 0, buf) b = Some (Inr (Done (blit buf pos d), ?b))"
      using one ld by (auto simp: read_body_def n(2) bnd_run)
    then show ?thesis by (rule loop_done)
  next
    case True
    then have a: "read_body (int pos) c (int n, 0, buf) b =
        Some (Inr (Again (int n - int (length d), int (length d), blit buf pos d), ?b))"
      using one by (simp add: read_body_def n(2) bnd_run)
    have e: "drop (fpos ?f) (fdata ?f) = []" using True d by auto
    let ?k = "c (int n - int (length d))"
    obtain k where k: "?k = int k" "k < 2147483648"
      using n(3) [of "int n - int (length d)"] ld by (cases ?k) auto
    have fr: "fread (blit buf pos d) (int (pos + length d)) (int k) ?f = Some (Inr ((0, blit buf pos d), ?f))"
      using fread_run [OF k(2), of "[]" ?f "pos + length d" "blit buf pos d"] e pos ld by simp
    have "on_file (fread (blit buf pos d) (int (pos + length d)) (int k)) ?b = Some (Inr ((0, blit buf pos d), ?b))"
      by (simp add: on_file_def bnd_run zoom_def fr del: of_nat_add)
    then have "read_body (int pos) c (int n - int (length d), int (length d), blit buf pos d) ?b
        = Some (Inr (Done (blit buf pos d), ?b))"
      using k(1) by (simp add: read_body_def bnd_run)
    with a show ?thesis by (simp add: loop_again loop_done)
  qed
qed

lemma fseek_run:
  assumes "512 * unat k < 9223372036854775808"
  shows "fseek_set (k * 512) f = Some (Inr ((), f\<lparr>fpos := 512 * unat k\<rparr>))"
proof -
  have u: "unat (k * 512) = 512 * unat k" using assms by (simp add: unat_word_ariths)
  have "int (unat (k * 512)) < 9223372036854775808" using assms u by linarith
  then have lt: "uint (k * 512) < 9223372036854775808" by simp
  moreover have "- 9223372036854775808 \<le> uint (k * 512)" by (rule order_trans [OF _ uint_ge_0]) simp
  ultimately have "sint (k * 512) = uint (k * 512)"
    by (simp add: sint_uint signed_take_bit_int_eq_self_iff)
  then have "\<not> sint (k * 512) < 0" by (simp add: not_less)
  then show ?thesis by (simp add: fseek_set_def u)
qed

section \<open>Read-write mode\<close>

text \<open>The device is the whole sectors the file had when it was opened.\<close>

definition rw_disk :: "block_device_file \<Rightarrow> bytes" where
  "rw_disk b = (case bf_f b of None \<Rightarrow> [] | Some f \<Rightarrow> take (512 * nat (nb_sectors b)) (fdata f))"

definition rw_inv :: "block_device_file \<Rightarrow> bool" where
  "rw_inv b \<longleftrightarrow> bf_mode b = BF_MODE_RW \<and> 512 * nat (nb_sectors b) < 9223372036854775808
     \<and> (case bf_f b of None \<Rightarrow> False | Some f \<Rightarrow> 512 * nat (nb_sectors b) \<le> length (fdata f))"

lemma take_blit: "k + length xs \<le> n \<Longrightarrow> n \<le> length a \<Longrightarrow> take n (blit a k xs) = blit (take n a) k xs"
  by (rule nth_equalityI) (simp_all add: nth_blit)

interpretation rw: block_backend bf_ops rw_inv rw_disk
proof
  fix b :: block_device_file and k :: u64 and n :: nat and buf :: bytes
  assume inv: "rw_inv b" and fit: "512 * (unat k + n) \<le> length (rw_disk b)" and n: "n < 4194304"
    and buf: "512 * n \<le> length buf"
  obtain f where f: "bf_f b = Some f" "512 * nat (nb_sectors b) \<le> length (fdata f)"
    and m: "bf_mode b = BF_MODE_RW" and s: "512 * nat (nb_sectors b) < 9223372036854775808"
    using inv by (auto simp: rw_inv_def split: option.splits)
  have fit': "512 * (unat k + n) \<le> 512 * nat (nb_sectors b)" using fit f by (simp add: rw_disk_def)
  let ?f = "f\<lparr>fpos := 512 * unat k\<rparr>" and ?d = "take (512 * n) buf"
  have sk: "on_file (fseek_set (k * 512)) b = Some (Inr ((), b\<lparr>bf_f := Some ?f\<rparr>))"
    using fit' s by (intro on_file_run [OF f(1)] fseek_run) simp
  have n512: "int n * 512 = int (512 * n)" "512 * n < 2147483648" using n by simp_all
  show "\<exists>b'. write_async bf_ops k buf (int n) b = Some (Inr (0, b')) \<and> rw_inv b'
      \<and> rw_disk b' = blit (rw_disk b) (512 * unat k) ?d"
  proof -
    let ?g = "if n = 0 then ?f else f\<lparr>fdata := blit (fdata f) (512 * unat k) ?d, fpos := 512 * unat k + 512 * n\<rparr>"
    have "fwrite buf (int (512 * n)) ?f = Some (Inr ((), ?g))"
    proof -
      have "length ?d = 512 * n" using buf by simp
      moreover have "512 * unat k + 512 * n - length (fdata f) = 0" using fit' f(2) by simp
      moreover have "peek buf 0 (512 * n) = Inr ?d" using peek_nat [of 0 "512 * n" buf] buf by simp
      ultimately show ?thesis
        by (auto simp: fwrite_def size_t_of_int_nat [OF n512(2)] bnd_run simp del: length_take of_nat_mult)
    qed
    then have "on_file (fwrite buf (int n * 512)) (b\<lparr>bf_f := Some ?f\<rparr>) = Some (Inr ((), b\<lparr>bf_f := Some ?g\<rparr>))"
      using on_file_run [of "b\<lparr>bf_f := Some ?f\<rparr>" ?f "fwrite buf (int (512 * n))"] by (simp only: n512) simp
    then have "write_async bf_ops k buf (int n) b = Some (Inr (0, b\<lparr>bf_f := Some ?g\<rparr>))"
      using sk m by (simp add: bf_ops_def bf_write_async_def bnd_run andthen_run)
    moreover have "rw_inv (b\<lparr>bf_f := Some ?g\<rparr>)"
      using m s f fit' buf by (simp add: rw_inv_def)
    moreover have "rw_disk (b\<lparr>bf_f := Some ?g\<rparr>) = blit (rw_disk b) (512 * unat k) ?d"
      using f fit' buf take_blit [of "512 * unat k" ?d] by (simp add: rw_disk_def)
    ultimately show ?thesis by blast
  qed
  show "\<exists>b'. read_async bf_ops k buf (int n) b =
        Some (Inr ((0, blit buf 0 (take (512 * n) (drop (512 * unat k) (rw_disk b)))), b')) \<and> rw_inv b' \<and> rw_disk b' = rw_disk b"
  proof -
    let ?r = "take (512 * n) (drop (512 * unat k) (fdata f))"
    have r: "?r = take (512 * n) (drop (512 * unat k) (rw_disk b))"
      using f fit' by (simp add: rw_disk_def drop_take min_def)
    let ?b = "b\<lparr>bf_f := Some (f\<lparr>fpos := 512 * unat k + length ?r\<rparr>)\<rparr>"
    have "loop (read_body (int 0) (\<lambda>_. int n * 512)) (int (512 * n), 0, buf) (b\<lparr>bf_f := Some ?f\<rparr>) =
        Some (Inr (blit buf 0 ?r, b\<lparr>bf_f := Some ?f\<rparr>\<lparr>bf_f := Some (?f\<lparr>fpos := fpos ?f + length ?r\<rparr>)\<rparr>))"
      using n buf by (intro read_loop_run) auto
    then have "read_async bf_ops k buf (int n) b = Some (Inr ((0, blit buf 0 ?r), ?b))"
      using sk m f by (simp add: bf_ops_def bf_read_async_def bnd_run andthen_run read_bodies mult.commute)
    moreover have "rw_inv ?b" "rw_disk ?b = rw_disk b"
      using m s f by (simp_all add: rw_inv_def rw_disk_def)
    ultimately show ?thesis unfolding r by blast
  qed
qed

section \<open>Snapshot mode\<close>

text \<open>A sector is the copy in memory if there is one and the file's otherwise.\<close>

definition snap_sector :: "block_device_file \<Rightarrow> nat \<Rightarrow> bytes" where
  "snap_sector b k = (case sector_table b ! k of
     None \<Rightarrow> (case bf_f b of None \<Rightarrow> [] | Some f \<Rightarrow> take 512 (drop (512 * k) (fdata f))) | Some d \<Rightarrow> d)"

definition snap_disk :: "block_device_file \<Rightarrow> bytes" where
  "snap_disk b = concat (map (snap_sector b) [0..<length (sector_table b)])"

definition snap_inv :: "block_device_file \<Rightarrow> bool" where
  "snap_inv b \<longleftrightarrow> bf_mode b = BF_MODE_SNAPSHOT \<and> nb_sectors b = int (length (sector_table b))
     \<and> 512 * length (sector_table b) < 9223372036854775808
     \<and> (case bf_f b of None \<Rightarrow> False | Some f \<Rightarrow> 512 * length (sector_table b) \<le> length (fdata f))
     \<and> (\<forall>d. Some d \<in> set (sector_table b) \<longrightarrow> length d = 512)"

lemma snap_sector_length:
  assumes "snap_inv b" and "k < length (sector_table b)"
  shows "length (snap_sector b k) = 512"
proof (cases "sector_table b ! k")
  case None
  then show ?thesis using assms by (auto simp: snap_inv_def snap_sector_def split: option.splits)
next
  case (Some d)
  then have "Some d \<in> set (sector_table b)" using assms(2) by (metis nth_mem)
  then show ?thesis using assms(1) Some by (simp add: snap_inv_def snap_sector_def)
qed

lemma snap_uniform: "snap_inv b \<Longrightarrow> \<forall>x \<in> set (map (snap_sector b) [0..<length (sector_table b)]). length x = 512"
  by (auto simp: snap_sector_length)

lemma snap_disk_length: "snap_inv b \<Longrightarrow> length (snap_disk b) = 512 * length (sector_table b)"
  using concat_uniform(3) [OF snap_uniform, of b 0]
  by (cases "sector_table b") (simp_all add: snap_disk_def)

lemma snap_disk_sector:
  assumes "snap_inv b" and "k < length (sector_table b)"
  shows "take 512 (drop (512 * k) (snap_disk b)) = snap_sector b k"
  using concat_uniform(1) [OF snap_uniform [OF assms(1)], of k] assms(2) by (simp add: snap_disk_def)

lemma snap_disk_update:
  assumes "snap_inv b" and "k < length (sector_table b)" and "length d = 512"
  shows "snap_inv (b\<lparr>sector_table := (sector_table b)[k := Some d]\<rparr>)"
    and "snap_disk (b\<lparr>sector_table := (sector_table b)[k := Some d]\<rparr>) = blit (snap_disk b) (512 * k) d"
proof -
  let ?b = "b\<lparr>sector_table := (sector_table b)[k := Some d]\<rparr>"
  show "snap_inv ?b" using assms
    by (auto simp: snap_inv_def split: option.splits dest!: set_update_subset_insert [THEN subsetD])
  have "map (snap_sector ?b) [0..<length (sector_table b)] = (map (snap_sector b) [0..<length (sector_table b)])[k := d]"
    using assms(2) by (intro nth_equalityI [of "map f xs" for f xs]) (auto simp: snap_sector_def nth_list_update split: option.splits)
  then show "snap_disk ?b = blit (snap_disk b) (512 * k) d"
    using concat_uniform(2) [OF snap_uniform [OF assms(1)], of k d] assms(2,3) by (simp add: snap_disk_def)
qed

lemma snap_file:
  "snap_inv (b\<lparr>bf_f := Some f\<rparr>) = snap_inv b" "snap_disk (b\<lparr>bf_f := Some f\<rparr>) = snap_disk b"
  if "bf_f b = Some g" "fdata f = fdata g"
proof -
  have "snap_sector (b\<lparr>bf_f := Some f\<rparr>) = snap_sector b"
    using that by (auto simp: snap_sector_def fun_eq_iff split: option.splits)
  then show "snap_inv (b\<lparr>bf_f := Some f\<rparr>) = snap_inv b" "snap_disk (b\<lparr>bf_f := Some f\<rparr>) = snap_disk b"
    using that by (simp_all add: snap_inv_def snap_disk_def)
qed

lemma unat_suc64: "unat (k :: u64) < n \<Longrightarrow> n < 9223372036854775808 \<Longrightarrow> unat (k + 1) = unat k + 1"
  by (simp add: unat_word_ariths)

lemma take_drop_step:
  "take (512 * Suc n) (drop (512 * k) xs) = take 512 (drop (512 * k) xs) @ take (512 * n) (drop (512 * (k + 1)) xs)"
  by (simp add: take_add)

lemma bf_read_snapshot_run:
  "snap_inv b \<Longrightarrow> unat k + n \<le> length (sector_table b) \<Longrightarrow> pos + 512 * n \<le> length buf \<Longrightarrow>
     \<exists>b'. bf_read_snapshot n k buf (int pos) b =
        Some (Inr (blit buf pos (take (512 * n) (drop (512 * unat k) (snap_disk b))), b'))
      \<and> snap_inv b' \<and> snap_disk b' = snap_disk b"
proof (induction n arbitrary: k pos buf b)
  case 0
  then show ?case by simp
next
  case (Suc n)
  obtain f where f: "bf_f b = Some f" using Suc.prems(1) by (auto simp: snap_inv_def split: option.splits)
  have k: "unat k < length (sector_table b)" and sz: "512 * length (sector_table b) < 9223372036854775808"
    using Suc.prems by (simp_all add: snap_inv_def)
  let ?d = "snap_sector b (unat k)"
  have ld: "length ?d = 512" by (rule snap_sector_length [OF Suc.prems(1) k])
  define rd where "rd = (case sector_table b ! unat k of
            None \<Rightarrow> andthen (on_file (fseek_set (k * 512))) (loop (sector_read_body (int pos)) (SECTOR_SIZE, 0, buf))
          | Some d \<Rightarrow> lift (poke buf (int pos) d))"
  have "\<exists>g. rd b = Some (Inr (blit buf pos ?d, b\<lparr>bf_f := Some g\<rparr>)) \<and> fdata g = fdata f"
  proof (cases "sector_table b ! unat k")
    case None
    let ?f = "f\<lparr>fpos := 512 * unat k\<rparr>"
    have "on_file (fseek_set (k * 512)) b = Some (Inr ((), b\<lparr>bf_f := Some ?f\<rparr>))"
      using k sz by (intro on_file_run [OF f] fseek_run) simp
    moreover have "loop (read_body (int pos) (\<lambda>n. n)) (int 512, 0, buf) (b\<lparr>bf_f := Some ?f\<rparr>) =
        Some (Inr (blit buf pos ?d, b\<lparr>bf_f := Some ?f\<rparr>\<lparr>bf_f := Some (?f\<lparr>fpos := fpos ?f + length ?d\<rparr>)\<rparr>))"
      using None f Suc.prems(3) by (intro read_loop_run) (auto simp: snap_sector_def)
    ultimately show ?thesis
      using None by (intro exI [of _ "?f\<lparr>fpos := fpos ?f + length ?d\<rparr>"])
        (simp add: rd_def andthen_run read_bodies)
  next
    case (Some d)
    then have "?d = d" by (simp add: snap_sector_def)
    then show ?thesis using Some f ld Suc.prems(3) poke_nat [of pos d buf]
      by (intro exI [of _ f]) (simp add: rd_def)
  qed
  then obtain g where g: "rd b = Some (Inr (blit buf pos ?d, b\<lparr>bf_f := Some g\<rparr>))" "fdata g = fdata f" by blast
  let ?b = "b\<lparr>bf_f := Some g\<rparr>"
  have inv: "snap_inv ?b" "snap_disk ?b = snap_disk b" using snap_file [OF f g(2)] Suc.prems(1) by simp_all
  have k1: "unat (k + 1) = unat k + 1" using k sz by (intro unat_suc64 [of k "length (sector_table b)"]) simp_all
  obtain b' where b': "bf_read_snapshot n (k + 1) (blit buf pos ?d) (int (pos + 512)) ?b =
      Some (Inr (blit (blit buf pos ?d) (pos + 512) (take (512 * n) (drop (512 * unat (k + 1)) (snap_disk ?b))), b'))"
    "snap_inv b'" "snap_disk b' = snap_disk ?b"
    using Suc.IH [OF inv(1), of "k + 1" "pos + 512" "blit buf pos ?d"] Suc.prems(2,3) ld k1 by auto
  have "bf_read_snapshot (Suc n) k buf (int pos) b = bf_read_snapshot n (k + 1) (blit buf pos ?d) (int (pos + 512)) ?b"
    using k g(1) by (simp add: rd_def get_sector_entry_def bnd_run)
  moreover have "blit (blit buf pos ?d) (pos + 512) (take (512 * n) (drop (512 * (unat k + 1)) (snap_disk b)))
      = blit buf pos (take (512 * Suc n) (drop (512 * unat k) (snap_disk b)))"
    unfolding take_drop_step snap_disk_sector [OF Suc.prems(1) k]
    using blit_blit_append [of pos ?d "take (512 * n) (drop (512 * (unat k + 1)) (snap_disk b))" buf] ld Suc.prems(3)
    by simp
  ultimately show ?case using b' inv(2) k1 by auto
qed

lemma bf_write_snapshot_run:
  "snap_inv b \<Longrightarrow> unat k + n \<le> length (sector_table b) \<Longrightarrow> pos + 512 * n \<le> length buf \<Longrightarrow>
     \<exists>b'. bf_write_snapshot n k buf (int pos) b = Some (Inr ((), b'))
      \<and> snap_inv b' \<and> snap_disk b' = blit (snap_disk b) (512 * unat k) (take (512 * n) (drop pos buf))"
proof (induction n arbitrary: k pos b)
  case 0
  then show ?case by simp
next
  case (Suc n)
  have k: "unat k < length (sector_table b)" and sz: "512 * length (sector_table b) < 9223372036854775808"
    using Suc.prems by (simp_all add: snap_inv_def)
  let ?d = "take 512 (drop pos buf)"
  let ?b = "b\<lparr>sector_table := (sector_table b)[unat k := Some ?d]\<rparr>"
  have ld: "length ?d = 512" using Suc.prems(3) by simp
  note up = snap_disk_update [OF Suc.prems(1) k ld]
  have k1: "unat (k + 1) = unat k + 1" using k sz by (intro unat_suc64 [of k "length (sector_table b)"]) simp_all
  obtain b' where b': "bf_write_snapshot n (k + 1) buf (int (pos + 512)) ?b = Some (Inr ((), b'))" "snap_inv b'"
    "snap_disk b' = blit (snap_disk ?b) (512 * unat (k + 1)) (take (512 * n) (drop (pos + 512) buf))"
    using Suc.IH [OF up(1), of "k + 1" "pos + 512"] Suc.prems(2,3) k1 by auto
  have "bf_write_snapshot (Suc n) k buf (int pos) b = Some (Inr ((), b'))"
    using k b'(1) Suc.prems(3) peek_nat [of pos 512 buf]
    by (simp add: get_sector_entry_def set_sector_entry_def bnd_run andthen_run)
  moreover have "snap_disk b' = blit (snap_disk b) (512 * unat k) (take (512 * Suc n) (drop pos buf))"
  proof -
    have "512 * unat k + length ?d + length (take (512 * n) (drop (pos + 512) buf)) \<le> length (snap_disk b)"
      using Suc.prems(2,3) snap_disk_length [OF Suc.prems(1)] by simp
    then have "blit (blit (snap_disk b) (512 * unat k) ?d) (512 + 512 * unat k) (take (512 * n) (drop (pos + 512) buf))
        = blit (snap_disk b) (512 * unat k) (?d @ take (512 * n) (drop (pos + 512) buf))"
      using blit_blit_append [of "512 * unat k" ?d] ld by (metis add.commute)
    moreover have "?d @ take (512 * n) (drop (pos + 512) buf) = take (512 * Suc n) (drop pos buf)"
      by (simp add: take_add add.commute)
    ultimately show ?thesis by (simp add: b'(3) up(2) k1)
  qed
  ultimately show ?case using b'(2) by blast
qed

interpretation snap: block_backend bf_ops snap_inv snap_disk
proof
  fix b :: block_device_file and k :: u64 and n :: nat and buf :: bytes
  assume inv: "snap_inv b" and fit: "512 * (unat k + n) \<le> length (snap_disk b)" and n: "n < 4194304"
    and buf: "512 * n \<le> length buf"
  have fit': "unat k + n \<le> length (sector_table b)" using fit snap_disk_length [OF inv] by simp
  have m: "bf_mode b = BF_MODE_SNAPSHOT" "nb_sectors b = int (length (sector_table b))" "bf_f b \<noteq> None"
    "512 * length (sector_table b) < 9223372036854775808"
    using inv by (auto simp: snap_inv_def split: option.splits)
  have "\<not> k + of_nat n > (of_nat (length (sector_table b)) :: u64)"
    using fit' m(4) by (simp add: word_less_nat_alt unat_word_ariths unat_of_nat)
  then show "\<exists>b'. write_async bf_ops k buf (int n) b = Some (Inr (0, b')) \<and> snap_inv b'
      \<and> snap_disk b' = blit (snap_disk b) (512 * unat k) (take (512 * n) buf)"
    using bf_write_snapshot_run [OF inv fit', of 0 buf] buf m(1,2)
    by (auto simp: bf_ops_def bf_write_async_def bnd_run andthen_run)
  show "\<exists>b'. read_async bf_ops k buf (int n) b =
        Some (Inr ((0, blit buf 0 (take (512 * n) (drop (512 * unat k) (snap_disk b)))), b')) \<and> snap_inv b' \<and> snap_disk b' = snap_disk b"
    using bf_read_snapshot_run [OF inv fit', of 0 buf] buf m(1,3)
    by (auto simp: bf_ops_def bf_read_async_def bnd_run)
qed

section \<open>Opening\<close>

lemma init_rw:
  "length file < 9223372036854775808 \<Longrightarrow> rw_inv (block_device_init file BF_MODE_RW)
     \<and> rw_disk (block_device_init file BF_MODE_RW) = take (512 * (length file div 512)) file"
  by (auto simp: block_device_init_def rw_inv_def rw_disk_def nat_div_distrib)

lemma init_snapshot:
  "length file < 9223372036854775808 \<Longrightarrow> snap_inv (block_device_init file BF_MODE_SNAPSHOT)"
  by (auto simp: block_device_init_def snap_inv_def nat_div_distrib zdiv_int)

text \<open>A snapshot read beyond the last sector is an access outside the sector table.\<close>

lemma snapshot_read_oob:
  assumes "snap_inv b" and "length (sector_table b) \<le> unat k"
  shows "bf_read_async k buf 1 b = Some (Inl OutOfBounds)"
  using assms by (auto simp: bf_read_async_def snap_inv_def get_sector_entry_def bnd_run split: option.splits)

section \<open>The image of a snapshot\<close>

text \<open>Whatever is requested of a snapshot, the bytes of the image file stay as they are.\<close>

definition image_is :: "bytes \<Rightarrow> block_device_file \<Rightarrow> bool" where
  "image_is D b \<longleftrightarrow> bf_mode b = BF_MODE_SNAPSHOT \<and> (\<exists>f. bf_f b = Some f \<and> fdata f = D)"

lemma keeps_on_file:
  assumes "\<And>f. fdata f = D \<Longrightarrow> wlp m (\<lambda>_ f'. fdata f' = D) (\<lambda>_. True) f"
  shows "keeps (image_is D) (on_file m)"
proof (rule keepsI)
  fix b
  assume "image_is D b"
  then obtain f where f: "bf_mode b = BF_MODE_SNAPSHOT" "bf_f b = Some f" "fdata f = D" by (auto simp: image_is_def)
  from f(1,2) assms [OF f(3)] show "wlp (on_file m) (\<lambda>_. image_is D) (\<lambda>_. True) b"
    by (simp add: on_file_def wlp_simps image_is_def)
qed

lemma keeps_sector_entry [keeps_intros]:
  "keeps (image_is D) (get_sector_entry k)" "keeps (image_is D) (set_sector_entry k d)"
  by (auto intro!: keepsI simp: get_sector_entry_def set_sector_entry_def wlp_def image_is_def)

lemma keeps_fseek [keeps_intros]: "keeps (image_is D) (on_file (fseek_set k))"
  by (rule keeps_on_file) (simp add: fseek_set_def wlp_simps)

lemma keeps_fread [keeps_intros]: "keeps (image_is D) (on_file (fread buf off n))"
  by (rule keeps_on_file) (simp add: fread_def wlp_simps split: sum.splits)

lemma keeps_read_snapshot [keeps_intros]: "keeps (image_is D) (bf_read_snapshot n k buf pos)"
proof (induction n arbitrary: k buf pos)
  case 0
  show ?case unfolding bf_read_snapshot.simps by (rule keeps_ret)
next
  case (Suc n)
  show ?case unfolding bf_read_snapshot.simps sector_read_body_def
    by (intro keeps_intros Suc)
qed

lemma keeps_write_snapshot [keeps_intros]: "keeps (image_is D) (bf_write_snapshot n k buf pos)"
proof (induction n arbitrary: k buf pos)
  case 0
  show ?case unfolding bf_write_snapshot.simps by (rule keeps_ret)
next
  case (Suc n)
  show ?case unfolding bf_write_snapshot.simps by (intro keeps_intros Suc)
qed

lemma keeps_image_read: "keeps (image_is D) (read_async bf_ops k buf n)"
proof -
  have "keeps (image_is D) (bf_read_async k buf n)"
    unfolding bf_read_async_def whole_read_body_def by (intro keeps_intros)
  then show ?thesis by (simp add: bf_ops_def)
qed

lemma keeps_image_write: "keeps (image_is D) (write_async bf_ops k buf n)"
proof (rule keepsI)
  fix b
  assume b: "image_is D b"
  then have m: "bf_mode b = BF_MODE_SNAPSHOT" by (simp add: image_is_def)
  have "keeps (image_is D) (bnd (gets nb_sectors) (\<lambda>nb. if k + word_of_int n > word_of_int nb then ret (- 1)
         else andthen (bf_write_snapshot (nat n) k buf 0) (ret 0)))"
    by (intro keeps_intros)
  from keeps_wlp [OF this b] m show "wlp (write_async bf_ops k buf n) (\<lambda>_. image_is D) (\<lambda>_. True) b"
    by (simp add: bf_ops_def bf_write_async_def wlp_bnd [of "gets bf_mode"] wlp_gets)
qed

abbreviation dev_image :: "bytes \<Rightarrow> ('m, block_device_file) virtio_block_device \<Rightarrow> bool" where
  "dev_image D s \<equiv> image_is D (bs s)"

lemma keeps_on_backend:
  assumes "keeps I m"
  shows "keeps (\<lambda>s. I (bs s)) (on_backend m)"
  using assms by (simp add: keeps_def on_backend_def wlp_zoom)

lemma dma_indep_image: "dma_indep (dev_image D)"
  by (simp add: dma_indep_def)

lemma keeps_image_core [keeps_intros]:
  "keeps (dev_image D) (set_req g)"
  "keeps (dev_image D) (modify (\<lambda>s. s\<lparr>req_in_progress := p\<rparr>))"
  "keeps (dev_image D) (raise_int w)"
  "keeps (dev_image D) (set_queue i f)"
  unfolding set_req_def raise_int_def set_irq_def set_queue_def
  by (auto intro!: keepsI simp: wlp_def bnd_def andthen_def)

lemma keeps_image_consume: "keeps (dev_image D) (virtio_consume_desc ops q i n)"
  unfolding virtio_consume_desc_def by (intro keeps_intros dma_indep_image)

lemma keeps_image_recv: "keeps (dev_image D) (virtio_block_recv_request ops bf_ops junk q i r w)"
  unfolding virtio_block_recv_request_def virtio_block_req_end_def
  by (intro keeps_intros keeps_image_consume dma_indep_image keeps_on_backend keeps_image_read keeps_image_write)

lemma keeps_image_notify: "keeps (dev_image D) (queue_notify ops (virtio_block_recv_request ops bf_ops junk) q)"
  unfolding queue_notify_def notify_body_def advance_avail_def
  by (intro keeps_intros dma_indep_image keeps_image_recv)

section \<open>Properties\<close>

text \<open>A sample device on an image of two sectors, for the witnesses.\<close>

definition sample_block :: "block_device_mode \<Rightarrow> nat \<Rightarrow> bytes \<Rightarrow> (ram, block_device_file) virtio_block_device" where
  "sample_block mode w hdr = sample_dev 8 w hdr (virtio_block_device.fields
     (block_device_init (replicate 1024 7) mode) False
     \<lparr>rtype = 0, rbuf = [], rwrite_size = 0, rqueue_idx = 0, rdesc_idx = 0\<rparr>)"

lemma sample_block_sel [simp]:
  "bs (sample_block mode w hdr) = block_device_init (replicate 1024 7) mode" "\<not> req_in_progress (sample_block mode w hdr)"
  by (simp_all add: sample_block_def sample_dev_def virtio_block_device.defs)

text \<open>The header of a request of type \<open>ty\<close> for sector 1.\<close>

definition sample_header :: "u32 \<Rightarrow> bytes" where
  "sample_header ty = put_le32 ty @ put_le32 0 @ put_le64 1"

lemma length_sample_header [simp]: "length (sample_header ty) = 16"
  by (simp add: sample_header_def le32.enc_length le64.enc_length)

lemma sample_header_decode:
  "decode_header (take 16 (sample_header ty @ xs)) = \<lparr>htype = ty, hioprio = 0, hsector_num = 1\<rparr>"
proof -
  have "get_le64 (put_le64 w) = w" for w using le64.dec_enc [of w "[]"] by simp
  then show ?thesis
    by (simp add: decode_header_def sample_header_def le32.dec_enc le32.enc_length le64.enc_length)
qed

lemma sample_block_request:
  assumes "length hdr \<le> 0xf000" and "w \<le> 0x10000"
  shows "request flat_ram id 0 0 (sample_chain w hdr) (sample_block mode w hdr)"
    and "pending id 0 0 (sample_block mode w hdr)"
    and "sent id (sample_chain w hdr) (sample_block mode w hdr) = hdr"
    and "desc_addr (queue (sample_block mode w hdr) ! 0) = 0xc0000000"
    and "dma (sample_block mode w hdr) = sample_ram w hdr"
  using assms sample_request [of hdr w 0] sample_pending [of hdr 0]
  by (simp_all add: sample_block_def)

text \<open>The facts about a write request for sector 1 that the two modes share.\<close>

lemma sample_write:
  fixes mode :: block_device_mode
  defines "hdr \<equiv> sample_header 1 @ replicate 512 0xaa"
  defines "s \<equiv> sample_block mode 1 hdr"
  shows "request flat_ram id 0 0 (sample_chain 1 hdr) s" and "pending id 0 0 s"
    and "length (sent id (sample_chain 1 hdr) s) = 16 + 512 * 1"
    and "decode_header (take 16 (sent id (sample_chain 1 hdr) s)) = \<lparr>htype = 1, hioprio = 0, hsector_num = 1\<rparr>"
    and "desc_addrs (writable (sample_chain 1 hdr)) = [0x10000]"
    and "0x10000 \<notin> table (desc_addr (queue s ! 0)) (sample_chain 1 hdr)"
    and "drop 16 (sent id (sample_chain 1 hdr) s) = replicate 512 0xaa"
proof -
  have L: "length hdr \<le> 0xf000" "(1 :: nat) \<le> 0x10000" by (simp_all add: hdr_def)
  note f = sample_block_request [OF L, of mode, folded s_def]
  show "request flat_ram id 0 0 (sample_chain 1 hdr) s" "pending id 0 0 s" by (fact f)+
  show "length (sent id (sample_chain 1 hdr) s) = 16 + 512 * 1" unfolding f(3) by (simp add: hdr_def)
  show "decode_header (take 16 (sent id (sample_chain 1 hdr) s)) = \<lparr>htype = 1, hioprio = 0, hsector_num = 1\<rparr>"
    unfolding f(3) unfolding hdr_def by (rule sample_header_decode)
  show "drop 16 (sent id (sample_chain 1 hdr) s) = replicate 512 0xaa" unfolding f(3) by (simp add: hdr_def)
  show W: "desc_addrs (writable (sample_chain 1 hdr)) = [0x10000]"
    unfolding sample_writable [OF L(2)] by (simp add: seg_addrs_def dma_offset_def)
  show "0x10000 \<notin> table (desc_addr (queue s ! 0)) (sample_chain 1 hdr)"
    using sample_apart(2) [OF L(2), of "length hdr"] unfolding f(4) by (simp add: seg_addrs_def dma_offset_def)
qed

text \<open>
  C1: a guest that offers a well-formed write request for whole sectors inside the disk and notifies
  the device gets its bytes stored in the image file at that sector and nowhere else, the status byte
  OK in its memory, one new element of the used ring, an interrupt, and the available entry taken.
\<close>

theorem file_write_notified:
  assumes "request ops mem q i ds s" and "pending mem q i s" and "list_all is_write (dropWhile (\<lambda>d. \<not> is_write d) ds)"
    and "\<not> req_in_progress s" and "rw_inv (bs s)"
    and "length (sent mem ds s) = 16 + 512 * n" "16 + 512 * n < 2147483648"
    and "decode_header (take 16 (sent mem ds s)) = \<lparr>htype = VIRTIO_BLK_T_OUT, hioprio = p, hsector_num = k\<rparr>"
    and "512 * (unat k + n) \<le> length (rw_disk (bs s))"
    and "desc_addrs (writable ds) = w # ws" "w \<notin> table (desc_addr (queue s ! q)) ds" "length ws < 2147483647"
  shows "\<exists>t. queue_notify ops (virtio_block_recv_request ops bf_ops junk) q s = Some (Inr ((), t))
    \<and> rw_inv (bs t) \<and> rw_disk (bs t) = blit (rw_disk (bs s)) (512 * unat k) (drop 16 (sent mem ds s))
    \<and> last_avail_idx (queue t ! q) = last_avail_idx (queue s ! q) + 1 \<and> irq t = 1
    \<and> mem (dma t) = used_push ((mem (dma s))(w := VIRTIO_BLK_S_OK)) (used_addr (queue s ! q)) (num (queue s ! q)) i 1"
  by (rule rw.notified_write [OF assms])

theorem file_write_notified_witness:
  "\<exists>t. queue_notify flat_ram (virtio_block_recv_request flat_ram bf_ops (\<lambda>_. 0)) 0
      (sample_block BF_MODE_RW 1 (sample_header 1 @ replicate 512 0xaa)) = Some (Inr ((), t))
    \<and> rw_disk (bs t) = replicate 512 7 @ replicate 512 0xaa"
proof -
  let ?s = "sample_block BF_MODE_RW 1 (sample_header 1 @ replicate 512 0xaa)"
  have disk: "rw_inv (bs ?s)" "rw_disk (bs ?s) = replicate 1024 7"
    using init_rw [of "replicate 1024 7"] by simp_all
  have fit: "512 * (unat (1 :: u64) + 1) \<le> length (rw_disk (bs ?s))" unfolding disk(2) by simp
  note f = sample_write(1-4) [of BF_MODE_RW] sample_write(5) sample_write(6,7) [of BF_MODE_RW]
  from file_write_notified [where junk = "\<lambda>_. 0", OF f(1,2) sample_order sample_block_sel(2) disk(1) f(3) _ f(4) fit f(5,6)]
  show ?thesis unfolding disk(2) f(7) by (auto simp: blit_def)
qed

lemma sample_snapshot:
  "snap_inv (block_device_init (replicate 1024 7) BF_MODE_SNAPSHOT)"
  "length (snap_disk (block_device_init (replicate 1024 7) BF_MODE_SNAPSHOT)) = 1024"
  using init_snapshot [of "replicate 1024 7"] snap_disk_length [of "block_device_init (replicate 1024 7) BF_MODE_SNAPSHOT"]
  by (simp_all add: block_device_init_def)

text \<open>
  C2: a guest that offers a well-formed read request for whole sectors and notifies the device finds
  the bytes of the disk at that sector, followed by the status byte OK, in the buffers it offered;
  the disk does not change. This holds for a disk opened for reading and writing, as the program
  opens its disks, whose contents are those of the image file, and for one opened as a snapshot,
  whose contents are the image with the sectors written since on top.
\<close>

theorem file_read_notified:
  assumes "(ok, disk) \<in> {(rw_inv, rw_disk), (snap_inv, snap_disk)}"
    and "request ops mem q i ds s" and "pending mem q i s" and "list_all is_write (dropWhile (\<lambda>d. \<not> is_write d) ds)"
    and "\<not> req_in_progress s" and "ok (bs s)"
    and "16 \<le> length (sent mem ds s)" "length (sent mem ds s) < 2147483648"
    and "decode_header (take 16 (sent mem ds s)) = \<lparr>htype = VIRTIO_BLK_T_IN, hioprio = p, hsector_num = k\<rparr>"
    and "length (desc_addrs (writable ds)) = Suc (512 * n)" "Suc (512 * n) < 2147483648"
    and "512 * (unat k + n) \<le> length (disk (bs s))"
    and "set (desc_addrs (writable ds)) \<inter> table (desc_addr (queue s ! q)) ds = {}"
  shows "\<exists>t. queue_notify ops (virtio_block_recv_request ops bf_ops junk) q s = Some (Inr ((), t))
    \<and> ok (bs t) \<and> disk (bs t) = disk (bs s)
    \<and> last_avail_idx (queue t ! q) = last_avail_idx (queue s ! q) + 1 \<and> irq t = 1
    \<and> mem (dma t) = used_push
        (write_list (mem (dma s)) (zip (desc_addrs (writable ds))
           (take (512 * n) (drop (512 * unat k) (disk (bs s))) @ [VIRTIO_BLK_S_OK])))
        (used_addr (queue s ! q)) (num (queue s ! q)) i (int (Suc (512 * n)))"
proof -
  consider "ok = rw_inv" "disk = rw_disk" | "ok = snap_inv" "disk = snap_disk" using assms(1) by blast
  then show ?thesis
    using rw.notified_read [OF assms(2-5) _ assms(7-11) _ assms(13)] snap.notified_read [OF assms(2-5) _ assms(7-11) _ assms(13)]
      assms(6,12) by cases blast+
qed

theorem file_read_notified_witness:
  "\<exists>t. queue_notify flat_ram (virtio_block_recv_request flat_ram bf_ops (\<lambda>_. 0)) 0
      (sample_block BF_MODE_RW 513 (sample_header 0)) = Some (Inr ((), t)) \<and> irq t = 1
    \<and> rw_disk (bs t) = replicate 1024 7"
proof -
  let ?s = "sample_block BF_MODE_RW 513 (sample_header 0)" and ?ds = "sample_chain 513 (sample_header 0)"
  have L: "length (sample_header 0) \<le> 0xf000" "(513 :: nat) \<le> 0x10000" by simp_all
  note f = sample_block_request [OF L, of BF_MODE_RW]
  have W: "length (desc_addrs (writable ?ds)) = Suc (512 * 1)" unfolding sample_writable [OF L(2)] by simp
  have ap: "set (desc_addrs (writable ?ds)) \<inter> table (desc_addr (queue ?s ! 0)) ?ds = {}"
    unfolding sample_writable [OF L(2)] f(4) by (rule sample_apart(2) [OF L(2)])
  have h: "decode_header (take 16 (sent id ?ds ?s)) = \<lparr>htype = 0, hioprio = 0, hsector_num = 1\<rparr>"
    unfolding f(3) using sample_header_decode [of 0 "[]"] by simp
  have len: "16 \<le> length (sent id ?ds ?s)" "length (sent id ?ds ?s) < 2147483648" unfolding f(3) by simp_all
  have disk: "rw_inv (bs ?s)" "rw_disk (bs ?s) = replicate 1024 7"
    using init_rw [of "replicate 1024 7"] by simp_all
  have fit: "512 * (unat (1 :: u64) + 1) \<le> length (rw_disk (bs ?s))" unfolding disk(2) by simp
  have mode: "(rw_inv, rw_disk) \<in> {(rw_inv, rw_disk), (snap_inv, snap_disk)}" by simp
  from file_read_notified [where junk = "\<lambda>_. 0", OF mode f(1,2) sample_order sample_block_sel(2) disk(1) len h W _ fit ap]
  show ?thesis unfolding disk(2) by auto
qed

text \<open>
  C3: in snapshot mode no notification changes the image file, whatever the guest puts into its
  memory and its rings: if the device returns, the file has the bytes it had.
\<close>

theorem snapshot_keeps_image:
  assumes "bf_mode (bs s) = BF_MODE_SNAPSHOT" and "bf_f (bs s) = Some f"
    and "queue_notify ops (virtio_block_recv_request ops bf_ops junk) q s = Some (Inr (u, t))"
  shows "\<exists>f'. bf_f (bs t) = Some f' \<and> fdata f' = fdata f"
  using keepsD [OF keeps_image_notify [of "fdata f"] _ assms(3)] assms(1,2) by (auto simp: image_is_def)

theorem snapshot_keeps_image_witness:
  "\<exists>t f. queue_notify flat_ram (virtio_block_recv_request flat_ram bf_ops (\<lambda>_. 0)) 0
      (sample_block BF_MODE_SNAPSHOT 1 (sample_header 1 @ replicate 512 0xaa)) = Some (Inr ((), t))
    \<and> bf_f (bs t) = Some f \<and> fdata f = replicate 1024 7"
proof -
  let ?s = "sample_block BF_MODE_SNAPSHOT 1 (sample_header 1 @ replicate 512 0xaa)"
  note f = sample_write(1-4) [of BF_MODE_SNAPSHOT] sample_write(5) sample_write(6,7) [of BF_MODE_SNAPSHOT]
  have fit: "512 * (unat (1 :: u64) + 1) \<le> length (snap_disk (bs ?s))" by (simp add: sample_snapshot)
  have inv: "snap_inv (bs ?s)" by (simp add: sample_snapshot)
  from snap.notified_write [where junk = "\<lambda>_. 0", OF f(1,2) sample_order sample_block_sel(2) inv f(3) _ f(4) fit f(5,6)]
  obtain t where t: "queue_notify flat_ram (virtio_block_recv_request flat_ram bf_ops (\<lambda>_. 0)) 0 ?s = Some (Inr ((), t))"
    by auto
  have "bf_mode (bs ?s) = BF_MODE_SNAPSHOT" "bf_f (bs ?s) = Some \<lparr>fdata = replicate 1024 7, fpos = 1024\<rparr>"
    by (simp_all add: block_device_init_def)
  from snapshot_keeps_image [OF this t] t show ?thesis by auto
qed

end
