(* ===== verification/Virtio_Net.thy ===== *)
theory Virtio_Net
  imports Virtio_Regs
begin

text \<open>
  Model of the network device of \<open>src/src/virtio.c\<close>.  The host side of the interface
  (\<open>EthernetDevice\<close>) is a record of computations over its own state; the three functions the
  device registers with it are definitions here.
\<close>

unbundle bit_operations_syntax

section \<open>State\<close>

record 'e ethernet_ops =
  write_packet :: "bytes \<Rightarrow> int \<Rightarrow> ('e, unit) vm"

record ('m, 'e) virtio_net_device = "'m virtio_device" +
  es :: 'e
  header_size :: int

type_synonym ('m, 'e, 'a) net_vm = "(('m, 'e) virtio_net_device, 'a) vm"

text \<open>The size of \<open>VIRTIONetHeader\<close>.\<close>

abbreviation net_header_sizeof :: nat where "net_header_sizeof \<equiv> 12"

section \<open>Operations\<close>

definition virtio_net_recv_request ::
  "'m fmem_ops \<Rightarrow> 'e ethernet_ops \<Rightarrow> (nat \<Rightarrow> u8) \<Rightarrow> nat \<Rightarrow> u16 \<Rightarrow> int \<Rightarrow> int \<Rightarrow> ('m, 'e, int) net_vm" where
  "virtio_net_recv_request ops eops junk queue_idx desc_idx read_size write_size =
     (if queue_idx = 1 then
        bnd (gets header_size) (\<lambda>hsize.
        bnd (memcpy_from_queue ops (malloc junk (int net_header_sizeof)) queue_idx desc_idx 0 hsize) (\<lambda>(r, _).
        if r < 0 then ret 0
        else bnd (cint (read_size - hsize)) (\<lambda>len.
          bnd (memcpy_from_queue ops (malloc junk len) queue_idx desc_idx hsize len) (\<lambda>(_, buf).
          andthen (zoom es (\<lambda>e s. s\<lparr>es := e\<rparr>) (write_packet eops buf len))
          (andthen (virtio_consume_desc ops queue_idx desc_idx 0) (ret 0))))))
      else ret 0)"

definition virtio_net_can_write_packet :: "('m, 'e, bool) net_vm" where
  "virtio_net_can_write_packet = bnd (get_queue 0) (\<lambda>qs.
     ret (ready qs \<noteq> 0 \<and> last_avail_idx qs \<noteq> avail_idx qs))"

definition virtio_net_write_packet :: "'m fmem_ops \<Rightarrow> bytes \<Rightarrow> int \<Rightarrow> ('m, 'e, unit) net_vm" where
  "virtio_net_write_packet ops buf buf_len =
     bnd (get_queue 0) (\<lambda>qs.
     if ready qs = 0 then ret ()
     else if last_avail_idx qs = avail_idx qs then ret ()
     else bnd (virtio_read16 ops (avail_entry_addr qs)) (\<lambda>desc_idx.
       bnd (get_desc_rw_size ops 0 desc_idx) (\<lambda>sizes. case sizes of
         None \<Rightarrow> ret ()
       | Some (read_size, write_size) \<Rightarrow>
           bnd (gets header_size) (\<lambda>hsize.
           bnd (cint (hsize + buf_len)) (\<lambda>len.
           if len > write_size then ret ()
           else bnd (memcpy_to_queue ops 0 desc_idx 0 (replicate net_header_sizeof 0) hsize) (\<lambda>_.
             bnd (memcpy_to_queue ops 0 desc_idx hsize buf buf_len) (\<lambda>_.
             andthen (virtio_consume_desc ops 0 desc_idx len)
             (advance_avail 0))))))))"

definition virtio_net_set_carrier :: "int \<Rightarrow> ('m, 'e, unit) net_vm" where
  "virtio_net_set_carrier carrier_state = bnd (config_peek 6 1) (\<lambda>bs.
     if uint (hd bs AND 1) \<noteq> carrier_state
     then andthen (config_poke 6 [word_of_int carrier_state]) virtio_config_change_notify
     else ret ())"

definition virtio_net_init :: "bytes \<Rightarrow> 'e \<Rightarrow> ('m, 'e) virtio_net_device \<Rightarrow> ('m, 'e) virtio_net_device" where
  "virtio_net_init mac e s =
     (let s1 = virtio_init_dev 1 8 s in
      s1\<lparr>device_features := push_bit 5 1,
         queue := (queue s1)[0 := (queue s1 ! 0)\<lparr>manual_recv := True\<rparr>],
         es := e,
         config_space := blit (config_space s1) 0 (take 6 mac @ [0, 0]),
         header_size := int net_header_sizeof\<rparr>)"

section \<open>The contract\<close>

lemma dev_inv_net [simp]:
  "dev_inv (s\<lparr>es := e\<rparr>) = dev_inv s" "dev_inv (s\<lparr>header_size := h\<rparr>) = dev_inv s"
  by (simp_all add: dev_inv_def)

interpretation net: virtio_callbacks "virtio_net_recv_request ops eops junk" None for ops eops junk
proof
  fix Q q i rsize wsize
  show "keeps (\<lambda>s. dev_inv s \<and> queue s = Q) (virtio_net_recv_request ops eops junk q i rsize wsize)"
    unfolding virtio_net_recv_request_def
    by (intro keeps_intros keeps_zoom dma_indep_dev_inv; simp)
qed simp

text \<open>The device never defers a request.\<close>

interpretation net: sync_handler "virtio_net_recv_request ops eops junk" for ops eops junk
proof
  fix q i rsize wsize
  show "yields (\<lambda>r. 0 \<le> r) (virtio_net_recv_request ops eops junk q i rsize wsize)"
    unfolding virtio_net_recv_request_def by (intro yields_intros) simp_all
qed

section \<open>Packets\<close>

lemma request_net [simp]: "request ops mem q i ds (s\<lparr>es := e\<rparr>) = request ops mem q i ds s"
  by (simp add: request_def on_ram_def)

lemma net_tx_run:
  assumes rq: "request ops mem 1 i ds s" and hs: "header_size s = 12"
    and len: "length (sent mem ds s) = 12 + len" "12 + len < 2147483648"
    and wp: "write_packet eops (drop 12 (sent mem ds s)) (int len) (es s) = Some (Inr ((), e))"
  shows "\<exists>m. virtio_net_recv_request ops eops junk 1 i (int (12 + len)) wsize s =
      Some (Inr (0, s\<lparr>dma := m, int_status := int_status s OR 1, irq := 1, es := e\<rparr>))
    \<and> mem m = used_push (mem (dma s)) (used_addr (queue s ! 1)) (num (queue s ! 1)) i 0"
proof -
  let ?s = "s\<lparr>es := e\<rparr>"
  have hd: "memcpy_from_queue ops (malloc junk 12) 1 i 0 12 s = Some (Inr ((0, take 12 (sent mem ds s)), s))"
    using request_read [OF rq, of 0 12 "malloc junk 12"] len by simp
  have data: "memcpy_from_queue ops (malloc junk (int len)) 1 i 12 (int len) s = Some (Inr ((0, drop 12 (sent mem ds s)), s))"
    using request_read [OF rq, of 12 len "malloc junk (int len)"] len by simp
  have w: "zoom es (\<lambda>e s. s\<lparr>es := e\<rparr>) (write_packet eops (drop 12 (sent mem ds s)) (int len)) s = Some (Inr ((), ?s))"
    using wp by (simp add: zoom_run)
  obtain m where m: "virtio_consume_desc ops 1 i 0 ?s = Some (Inr ((), ?s\<lparr>dma := m, int_status := int_status s OR 1, irq := 1\<rparr>))"
    "mem m = used_push (mem (dma s)) (used_addr (queue s ! 1)) (num (queue s ! 1)) i 0"
    using request_consume [of ops mem 1 i ds ?s i 0] rq by auto
  have "virtio_net_recv_request ops eops junk 1 i (int (12 + len)) wsize s =
      Some (Inr (0, ?s\<lparr>dma := m, int_status := int_status s OR 1, irq := 1\<rparr>))"
    using hd data w m(1) hs len
    by (simp add: virtio_net_recv_request_def bnd_run andthen_run cint_run int_in_range_def)
  with m(2) show ?thesis by (intro exI [of _ m]) simp
qed

lemma net_rx_run:
  assumes rq: "request ops mem 0 i ds s" and hs: "header_size s = 12"
    and rd: "ready (queue s ! 0) \<noteq> 0" "last_avail_idx (queue s ! 0) \<noteq> avail_idx (queue s ! 0)"
    and i: "virtio_read16 ops (avail_entry_addr (queue s ! 0)) s = Some (Inr (i, s))"
    and ok: "list_all is_write (dropWhile (\<lambda>d. \<not> is_write d) ds)" "length (desc_addrs (readable ds)) < 2147483648"
    and W: "W = desc_addrs (writable ds)" "12 + length buf \<le> length W" "length W < 2147483648"
      "set W \<inter> chain_addrs (desc_addr (queue s ! 0)) i ds = {}"
  shows "\<exists>m. virtio_net_write_packet ops buf (int (length buf)) s =
      Some (Inr ((), s\<lparr>dma := m, int_status := int_status s OR 1, irq := 1,
        queue := (queue s)[0 := (queue s ! 0)\<lparr>last_avail_idx := last_avail_idx (queue s ! 0) + 1\<rparr>]\<rparr>))
    \<and> mem m = used_push (write_list (mem (dma s)) (zip W (replicate 12 0 @ buf)))
        (used_addr (queue s ! 0)) (num (queue s ! 0)) i (int (12 + length buf))"
proof -
  have q0: "0 < length (queue s)" using rq by (simp add: request_def on_ram_def)
  have sz: "get_desc_rw_size ops 0 i s = Some (Inr (Some (int (length (desc_addrs (readable ds))), int (length W)), s))"
    using request_sizes [OF rq ok] W by simp
  obtain m1 where m1: "memcpy_to_queue ops 0 i 0 (replicate 12 0) 12 s = Some (Inr (0, s\<lparr>dma := m1\<rparr>))"
    "mem m1 = write_list (mem (dma s)) (zip W (replicate 12 0))"
    using request_write_at [OF rq, of 0 "replicate 12 0" "replicate 12 0"] W by auto
  have rq1: "request ops mem 0 i ds (s\<lparr>dma := m1\<rparr>)" using request_frame [OF rq m1(2) W(4)] .
  obtain m2 where m2: "memcpy_to_queue ops 0 i 12 buf (int (length buf)) (s\<lparr>dma := m1\<rparr>) = Some (Inr (0, s\<lparr>dma := m2\<rparr>))"
    "mem m2 = write_list (mem m1) (zip (drop 12 W) buf)"
    using request_write_at [OF rq1, of 12 buf buf] W by auto
  have mm: "mem m2 = write_list (mem (dma s)) (zip W (replicate 12 0 @ buf))"
    unfolding m2(2) m1(2) using W(2) by (intro write_list_split) simp_all
  have rq2: "request ops mem 0 i ds (s\<lparr>dma := m2\<rparr>)" using request_frame [OF rq mm W(4)] .
  obtain m3 where m3: "virtio_consume_desc ops 0 i (12 + int (length buf)) (s\<lparr>dma := m2\<rparr>) =
      Some (Inr ((), s\<lparr>dma := m3, int_status := int_status s OR 1, irq := 1\<rparr>))"
    "mem m3 = used_push (mem m2) (used_addr (queue s ! 0)) (num (queue s ! 0)) i (12 + int (length buf))"
    using request_consume [OF rq2, of i "12 + int (length buf)"] by auto
  have le: "12 + int (length buf) \<le> int (length W)" "12 + int (length buf) < 2147483648" using W by linarith+
  have "virtio_net_write_packet ops buf (int (length buf)) s =
      Some (Inr ((), s\<lparr>dma := m3, int_status := int_status s OR 1, irq := 1,
        queue := (queue s)[0 := (queue s ! 0)\<lparr>last_avail_idx := last_avail_idx (queue s ! 0) + 1\<rparr>]\<rparr>))"
    using rd i sz m1(1) m2(1) m3(1) hs q0 le
    by (simp add: virtio_net_write_packet_def get_queue_def bnd_run andthen_run cint_run int_in_range_def
        advance_avail_def set_queue_def)
  with m3(2) mm show ?thesis by (intro exI [of _ m3]) simp
qed

text \<open>A packet that cannot be delivered is dropped without a trace.\<close>

lemma net_rx_drop:
  assumes "0 < length (queue s)" and "ready (queue s ! 0) = 0 \<or> last_avail_idx (queue s ! 0) = avail_idx (queue s ! 0)"
  shows "virtio_net_write_packet ops buf n s = Some (Inr ((), s))"
  using assms by (auto simp: virtio_net_write_packet_def get_queue_def bnd_run)

end
