(* ===== verification/Virtio_Console.thy ===== *)
theory Virtio_Console
  imports Virtio_Regs
begin

text \<open>
  Model of the console device of \<open>src/src/virtio.c\<close> and of the escape handling of the terminal side
  (\<open>console_read\<close> of \<open>src/src/temu.c\<close>).  The host side (\<open>CharacterDevice\<close>) is a record of
  computations over its own state.
\<close>

unbundle bit_operations_syntax

section \<open>State\<close>

record 'c character_device =
  write_data :: "bytes \<Rightarrow> int \<Rightarrow> ('c, unit) vm"
  read_data :: "bytes \<Rightarrow> int \<Rightarrow> ('c, int \<times> bytes) vm"

record ('m, 'c) virtio_console_device = "'m virtio_device" +
  cs :: 'c

type_synonym ('m, 'c, 'a) console_vm = "(('m, 'c) virtio_console_device, 'a) vm"

section \<open>Operations\<close>

definition virtio_console_recv_request ::
  "'m fmem_ops \<Rightarrow> 'c character_device \<Rightarrow> nat \<Rightarrow> u16 \<Rightarrow> int \<Rightarrow> int \<Rightarrow> ('m, 'c, int) console_vm" where
  "virtio_console_recv_request ops cops queue_idx desc_idx read_size write_size =
     (if queue_idx = 1 then
        bnd (cint (read_size + 1)) (\<lambda>n.
        andthen (guard OutOfBounds (0 \<le> n))
        (bnd (memcpy_from_queue ops (replicate (nat n) 0) queue_idx desc_idx 0 read_size) (\<lambda>(_, buf).
         andthen (zoom cs (\<lambda>c s. s\<lparr>cs := c\<rparr>) (write_data cops buf read_size))
         (andthen (virtio_consume_desc ops queue_idx desc_idx 0) (ret 0)))))
      else ret 0)"

definition virtio_console_can_write_data :: "('m, 'c, bool) console_vm" where
  "virtio_console_can_write_data = bnd (get_queue 0) (\<lambda>qs.
     ret (ready qs \<noteq> 0 \<and> last_avail_idx qs \<noteq> avail_idx qs))"

definition virtio_console_get_write_len :: "'m fmem_ops \<Rightarrow> ('m, 'c, int) console_vm" where
  "virtio_console_get_write_len ops =
     bnd (get_queue 0) (\<lambda>qs.
     if ready qs = 0 then ret 0
     else if last_avail_idx qs = avail_idx qs then ret 0
     else bnd (virtio_read16 ops (avail_entry_addr qs)) (\<lambda>desc_idx.
       bnd (get_desc_rw_size ops 0 desc_idx) (\<lambda>sizes. case sizes of
         None \<Rightarrow> ret 0 | Some (read_size, write_size) \<Rightarrow> ret write_size)))"

definition virtio_console_write_data :: "'m fmem_ops \<Rightarrow> bytes \<Rightarrow> int \<Rightarrow> ('m, 'c, int) console_vm" where
  "virtio_console_write_data ops buf buf_len =
     bnd (get_queue 0) (\<lambda>qs.
     if ready qs = 0 then ret 0
     else if last_avail_idx qs = avail_idx qs then ret 0
     else bnd (virtio_read16 ops (avail_entry_addr qs)) (\<lambda>desc_idx.
       bnd (memcpy_to_queue ops 0 desc_idx 0 buf buf_len) (\<lambda>_.
       andthen (virtio_consume_desc ops 0 desc_idx buf_len)
       (andthen (advance_avail 0) (ret buf_len)))))"

definition virtio_console_resize_event :: "int \<Rightarrow> int \<Rightarrow> ('m, 'c, unit) console_vm" where
  "virtio_console_resize_event width height =
     andthen (config_poke 0 (put_le16 (word_of_int width)))
     (andthen (config_poke 2 (put_le16 (word_of_int height)))
     virtio_config_change_notify)"

definition virtio_console_init :: "'c \<Rightarrow> ('m, 'c) virtio_console_device \<Rightarrow> ('m, 'c) virtio_console_device" where
  "virtio_console_init c s =
     (let s1 = virtio_init_dev 3 4 s in
      s1\<lparr>device_features := 1, queue := (queue s1)[0 := (queue s1 ! 0)\<lparr>manual_recv := True\<rparr>], cs := c\<rparr>)"

section \<open>Terminal input\<close>

text \<open>
  \<open>console_read\<close> after the \<open>read\<close> system call: the bytes kept, in order, and the new escape state.
  \<open>None\<close> is the exit of the program on C-a x.
\<close>

fun console_filter :: "bool \<Rightarrow> bytes \<Rightarrow> (bytes \<times> bool) option" where
  "console_filter esc [] = Some ([], esc)"
| "console_filter True (ch # bs) =
     (if ch = 0x78 then None
      else if ch = 1 then map_option (\<lambda>(out, esc). (1 # out, esc)) (console_filter False bs)
      else console_filter False bs)"
| "console_filter False (ch # bs) =
     (if ch = 1 then console_filter True bs
      else map_option (\<lambda>(out, esc). (ch # out, esc)) (console_filter False bs))"

section \<open>The contract\<close>

lemma dev_inv_console [simp]: "dev_inv (s\<lparr>cs := c\<rparr>) = dev_inv s"
  by (simp add: dev_inv_def)

interpretation con: virtio_callbacks "virtio_console_recv_request ops cops" None for ops cops
proof
  fix Q q i rsize wsize
  show "keeps (\<lambda>s. dev_inv s \<and> queue s = Q) (virtio_console_recv_request ops cops q i rsize wsize)"
    unfolding virtio_console_recv_request_def
    by (intro keeps_intros keeps_zoom dma_indep_dev_inv; simp)
qed simp

interpretation con: sync_handler "virtio_console_recv_request ops cops" for ops cops
proof
  fix q i rsize wsize
  show "yields (\<lambda>r. 0 \<le> r) (virtio_console_recv_request ops cops q i rsize wsize)"
    unfolding virtio_console_recv_request_def by (intro yields_intros) simp_all
qed

section \<open>Input and output\<close>

lemma request_console [simp]: "request ops mem q i ds (s\<lparr>cs := c\<rparr>) = request ops mem q i ds s"
  by (simp add: request_def on_ram_def)

text \<open>What the guest sends reaches the terminal, followed in the buffer by a zero byte.\<close>

lemma console_out_run:
  assumes rq: "request ops mem 1 i ds s" and len: "length (sent mem ds s) = len" "len < 2147483647"
    and w: "write_data cops (sent mem ds s @ [0]) (int len) (cs s) = Some (Inr ((), c))"
  shows "\<exists>m. virtio_console_recv_request ops cops 1 i (int len) wsize s =
      Some (Inr (0, s\<lparr>dma := m, int_status := int_status s OR 1, irq := 1, cs := c\<rparr>))
    \<and> mem m = used_push (mem (dma s)) (used_addr (queue s ! 1)) (num (queue s ! 1)) i 0"
proof -
  let ?s = "s\<lparr>cs := c\<rparr>" and ?A = "desc_addrs (readable ds)"
  have l: "length ?A = len" using len by (simp add: sent_def)
  have "memcpy_from_queue ops (replicate (len + 1) 0) 1 i (int 0) (int len) s =
      Some (Inr ((if len = 0 \<or> 0 + len \<le> length ?A then 0 else - 1,
        blit (replicate (len + 1) 0) 0 (map (mem (dma s)) (take len (drop 0 ?A)))), s))"
    using rq len l by (intro memcpy_from_queue_run) (auto simp: request_def)
  moreover have "blit (replicate (len + 1) 0) 0 (sent mem ds s) = sent mem ds s @ [0]"
    using len by (simp add: blit_def del: replicate_Suc) simp
  ultimately have rd: "memcpy_from_queue ops (replicate (len + 1) 0) 1 i 0 (int len) s = Some (Inr ((0, sent mem ds s @ [0]), s))"
    using l by (simp add: sent_def del: replicate_Suc)
  have z: "zoom cs (\<lambda>c s. s\<lparr>cs := c\<rparr>) (write_data cops (sent mem ds s @ [0]) (int len)) s = Some (Inr ((), ?s))"
    using w by (simp add: zoom_run)
  obtain m where m: "virtio_consume_desc ops 1 i 0 ?s = Some (Inr ((), ?s\<lparr>dma := m, int_status := int_status s OR 1, irq := 1\<rparr>))"
    "mem m = used_push (mem (dma s)) (used_addr (queue s ! 1)) (num (queue s ! 1)) i 0"
    using request_consume [of ops mem 1 i ds ?s i 0] rq by auto
  have n: "nat (int len + 1) = len + 1" by simp
  have "virtio_console_recv_request ops cops 1 i (int len) wsize s =
      Some (Inr (0, ?s\<lparr>dma := m, int_status := int_status s OR 1, irq := 1\<rparr>))"
    using rd z m(1) len(2)
    by (simp add: virtio_console_recv_request_def bnd_run andthen_run cint_run int_in_range_def n del: replicate_Suc)
  with m(2) show ?thesis by (intro exI [of _ m]) simp
qed

text \<open>Terminal input that fits reaches the guest, and the buffer is used up.\<close>

lemma console_in_run:
  assumes rq: "request ops mem 0 i ds s"
    and rd: "ready (queue s ! 0) \<noteq> 0" "last_avail_idx (queue s ! 0) \<noteq> avail_idx (queue s ! 0)"
    and i: "virtio_read16 ops (avail_entry_addr (queue s ! 0)) s = Some (Inr (i, s))"
    and W: "W = desc_addrs (writable ds)" "length buf \<le> length W" "length W < 2147483648"
      "set W \<inter> chain_addrs (desc_addr (queue s ! 0)) i ds = {}"
  shows "\<exists>m. virtio_console_write_data ops buf (int (length buf)) s =
      Some (Inr (int (length buf), s\<lparr>dma := m, int_status := int_status s OR 1, irq := 1,
        queue := (queue s)[0 := (queue s ! 0)\<lparr>last_avail_idx := last_avail_idx (queue s ! 0) + 1\<rparr>]\<rparr>))
    \<and> mem m = used_push (write_list (mem (dma s)) (zip W buf))
        (used_addr (queue s ! 0)) (num (queue s ! 0)) i (int (length buf))"
proof -
  have q0: "0 < length (queue s)" using rq by (simp add: request_def on_ram_def)
  obtain m1 where m1: "memcpy_to_queue ops 0 i 0 buf (int (length buf)) s = Some (Inr (0, s\<lparr>dma := m1\<rparr>))"
    "mem m1 = write_list (mem (dma s)) (zip W buf)"
    using request_write_at [OF rq, of 0 buf buf] W by auto
  have rq1: "request ops mem 0 i ds (s\<lparr>dma := m1\<rparr>)" using request_frame [OF rq m1(2) W(4)] .
  obtain m3 where m3: "virtio_consume_desc ops 0 i (int (length buf)) (s\<lparr>dma := m1\<rparr>) =
      Some (Inr ((), s\<lparr>dma := m3, int_status := int_status s OR 1, irq := 1\<rparr>))"
    "mem m3 = used_push (mem m1) (used_addr (queue s ! 0)) (num (queue s ! 0)) i (int (length buf))"
    using request_consume [OF rq1, of i "int (length buf)"] by auto
  show ?thesis
    using rd i m1 m3 q0
    by (intro exI [of _ m3]) (simp add: virtio_console_write_data_def get_queue_def bnd_run andthen_run
        advance_avail_def set_queue_def)
qed

text \<open>Input without an escape character passes unchanged; the escapes themselves do not.\<close>

lemma console_filter_plain: "1 \<notin> set bs \<Longrightarrow> console_filter False bs = Some (bs, False)"
  by (induction bs) auto

lemma console_filter_append:
  "console_filter esc (xs @ ys) = (case console_filter esc xs of None \<Rightarrow> None
     | Some (out, esc') \<Rightarrow> map_option (\<lambda>(out', e). (out @ out', e)) (console_filter esc' ys))"
  by (induction esc xs rule: console_filter.induct) (auto simp: option.map_comp comp_def split_beta' option.map_ident split: option.splits)

end
