(* ===== verification/Virtio_Entropy.thy ===== *)
theory Virtio_Entropy
  imports Virtio_Regs
begin

text \<open>
  Model of the entropy device of \<open>src/src/virtio.c\<close>.  \<open>getrandom\<close> is a system call: a parameter that
  takes the number of bytes asked for and returns the result and the bytes stored.
\<close>

unbundle bit_operations_syntax

section \<open>State and operations\<close>

type_synonym 'r getrandom = "int \<Rightarrow> 'r \<Rightarrow> (int \<times> bytes) \<times> 'r"

text \<open>\<open>rng\<close> is the state of the system's random source.\<close>

record ('m, 'r) virtio_entropy_device = "'m virtio_device" +
  ebuf :: bytes
  rng :: 'r

type_synonym ('m, 'r, 'a) entropy_vm = "(('m, 'r) virtio_entropy_device, 'a) vm"

definition do_getrandom :: "'r getrandom \<Rightarrow> int \<Rightarrow> ('m, 'r, int) entropy_vm" where
  "do_getrandom getrandom n =
     bnd (gets (\<lambda>s. getrandom n (rng s))) (\<lambda>(p, g).
     let (r, bs) = p in
     bnd (gets ebuf) (\<lambda>b.
     bnd (lift (poke b 0 bs)) (\<lambda>b'.
     andthen (modify (\<lambda>s. s\<lparr>ebuf := b', rng := g\<rparr>)) (ret r))))"

definition entropy_body ::
  "'m fmem_ops \<Rightarrow> 'r getrandom \<Rightarrow> nat \<Rightarrow> u16 \<Rightarrow> int \<Rightarrow> int \<Rightarrow> ('m, 'r, (int, unit) step) entropy_vm" where
  "entropy_body ops getrandom queue_idx desc_idx write_size = (\<lambda>offset.
     if offset < write_size then
       let block_size = (if write_size - offset < 256 then write_size - offset else 256) in
       bnd (do_getrandom getrandom block_size) (\<lambda>r.
       if r > 0 then
         bnd (gets ebuf) (\<lambda>b.
         bnd (memcpy_to_queue ops queue_idx desc_idx offset b r) (\<lambda>_.
         bnd (cint (offset + r)) (\<lambda>offset'. ret (Again offset'))))
       else fault Abort)
     else ret (Done ()))"

definition virtio_entropy_recv_request ::
  "'m fmem_ops \<Rightarrow> 'r getrandom \<Rightarrow> nat \<Rightarrow> u16 \<Rightarrow> int \<Rightarrow> int \<Rightarrow> ('m, 'r, int) entropy_vm" where
  "virtio_entropy_recv_request ops getrandom queue_idx desc_idx read_size write_size =
     (if queue_idx = 0 then
        andthen (loop (entropy_body ops getrandom queue_idx desc_idx write_size) 0)
        (andthen (virtio_consume_desc ops queue_idx desc_idx write_size) (ret 0))
      else ret 0)"

definition virtio_entropy_init :: "('m, 'r) virtio_entropy_device \<Rightarrow> ('m, 'r) virtio_entropy_device" where
  "virtio_entropy_init s = virtio_init_dev 4 0 (s\<lparr>ebuf := replicate 256 0\<rparr>)"

section \<open>The contract\<close>

lemma dev_inv_entropy [simp]:
  "dev_inv (s\<lparr>ebuf := b\<rparr>) = dev_inv s" "dev_inv (s\<lparr>rng := g\<rparr>) = dev_inv s"
  by (simp_all add: dev_inv_def)

lemma keeps_do_getrandom [keeps_intros]:
  "keeps (\<lambda>s. dev_inv s \<and> queue s = Q) (do_getrandom getrandom n)"
  unfolding do_getrandom_def by (intro keeps_intros keeps_modify) simp

interpretation ent: virtio_callbacks "virtio_entropy_recv_request ops getrandom" None for ops getrandom
proof
  fix Q q i rsize wsize
  show "keeps (\<lambda>s. dev_inv s \<and> queue s = Q) (virtio_entropy_recv_request ops getrandom q i rsize wsize)"
    unfolding virtio_entropy_recv_request_def entropy_body_def
    by (intro keeps_intros dma_indep_dev_inv)
qed simp

interpretation ent: sync_handler "virtio_entropy_recv_request ops getrandom" for ops getrandom
proof
  fix q i rsize wsize
  show "yields (\<lambda>r. 0 \<le> r) (virtio_entropy_recv_request ops getrandom q i rsize wsize)"
    unfolding virtio_entropy_recv_request_def by (intro yields_intros) simp_all
qed

section \<open>Filling the guest's buffer\<close>

text \<open>
  What the documentation of \<open>getrandom\<close> promises for up to 256 bytes: at least one byte and at
  most as many as asked for, exactly those being stored.
\<close>

definition getrandom_ok :: "'r getrandom \<Rightarrow> bool" where
  "getrandom_ok getrandom \<longleftrightarrow> (\<forall>n g. 0 < n \<and> n \<le> 256 \<longrightarrow>
     (\<exists>bs g'. getrandom n g = ((int (length bs), bs), g') \<and> 0 < length bs \<and> int (length bs) \<le> n))"

text \<open>
  The bytes that repeated calls deliver when \<open>n\<close> are wanted and each call asks for what is still
  missing, 256 at most, together with the state of the random source afterwards.
\<close>

function drawn :: "'r getrandom \<Rightarrow> nat \<Rightarrow> 'r \<Rightarrow> bytes \<times> 'r" where
  "drawn getrandom n g =
     (if n = 0 then ([], g)
      else let (p, g') = getrandom (int (min n 256)) g; bs = snd p in
        if bs = [] then ([], g')
        else apfst (append bs) (drawn getrandom (n - length bs) g'))"
  by auto
termination by (relation "measure (\<lambda>(_, n, _). n)") auto

declare drawn.simps [simp del]

lemma drawn_0 [simp]: "drawn getrandom 0 g = ([], g)"
  by (simp add: drawn.simps)

lemma drawn_step:
  "getrandom (int (min n 256)) g = ((r, bs), g') \<Longrightarrow> 0 < n \<Longrightarrow> bs \<noteq> [] \<Longrightarrow>
   drawn getrandom n g = apfst (append bs) (drawn getrandom (n - length bs) g')"
  by (subst drawn.simps) simp

lemma request_entropy [simp]:
  "request ops mem q i ds (s\<lparr>ebuf := b, rng := g\<rparr>) = request ops mem q i ds s"
  by (simp add: request_def on_ram_def)

lemma do_getrandom_run:
  assumes "getrandom_ok getrandom" and "0 < n" "n \<le> 256" and "length (ebuf s) = 256"
  shows "\<exists>bs b g. do_getrandom getrandom (int n) s = Some (Inr (int (length bs), s\<lparr>ebuf := b, rng := g\<rparr>))
    \<and> getrandom (int n) (rng s) = ((int (length bs), bs), g)
    \<and> 0 < length bs \<and> length bs \<le> n \<and> length b = 256 \<and> take (length bs) b = bs"
proof -
  obtain bs g where g: "getrandom (int n) (rng s) = ((int (length bs), bs), g)" "0 < length bs" "length bs \<le> n"
    using assms(1-3) unfolding getrandom_ok_def by (metis of_nat_0_less_iff of_nat_le_iff of_nat_numeral)
  have p: "poke (ebuf s) 0 bs = Inr (blit (ebuf s) 0 bs)" using poke_nat [of 0 bs "ebuf s"] g(3) assms(3,4) by simp
  have t: "take (length bs) (blit (ebuf s) 0 bs) = bs" by (simp add: blit_def)
  have l: "length (blit (ebuf s) 0 bs) = 256" using g(3) assms(3,4) by simp
  from g p t l show ?thesis by (auto simp: do_getrandom_def bnd_run andthen_run)
qed

lemma entropy_loop_run:
  "getrandom_ok getrandom \<Longrightarrow> request ops mem 0 i ds s \<Longrightarrow> length (ebuf s) = 256 \<Longrightarrow> W = desc_addrs (writable ds) \<Longrightarrow>
   length W < 2147483648 \<Longrightarrow> set W \<inter> chain_addrs (desc_addr (queue s ! 0)) i ds = {} \<Longrightarrow> off \<le> length W \<Longrightarrow>
   \<exists>m b g data. loop (entropy_body ops getrandom 0 i (int (length W))) (int off) s = Some (Inr ((), s\<lparr>dma := m, ebuf := b, rng := g\<rparr>))
    \<and> drawn getrandom (length W - off) (rng s) = (data, g)
    \<and> length data = length W - off \<and> mem m = write_list (mem (dma s)) (zip (drop off W) data)"
proof (induction "length W - off" arbitrary: off s rule: less_induct)
  case less
  show ?case
  proof (cases "off < length W")
    case False
    then have "entropy_body ops getrandom 0 i (int (length W)) (int off) s = Some (Inr (Done (), s))"
      by (simp add: entropy_body_def)
    with False show ?thesis
      by (intro exI [of _ "dma s"] exI [of _ "ebuf s"] exI [of _ "rng s"] exI [of _ "[]"]) (simp add: loop_done)
  next
    case True
    define n where "n = min (length W - off) 256"
    have n: "0 < n" "n \<le> 256" "n \<le> length W - off" using True by (auto simp: n_def)
    have bsz: "(if int (length W) - int off < 256 then int (length W) - int off else 256) = int n"
      using True by (auto simp: n_def min_def)
    obtain bs b g where r: "do_getrandom getrandom (int n) s = Some (Inr (int (length bs), s\<lparr>ebuf := b, rng := g\<rparr>))"
      "0 < length bs" "length bs \<le> n" "length b = 256" "take (length bs) b = bs"
      "getrandom (int n) (rng s) = ((int (length bs), bs), g)"
      using do_getrandom_run [OF less.prems(1) n(1,2) less.prems(3)] by blast
    let ?s1 = "s\<lparr>ebuf := b, rng := g\<rparr>"
    have rq1: "request ops mem 0 i ds ?s1" using less.prems(2) by simp
    have fits: "off + length bs \<le> length W" "length bs \<le> length b" using r n by simp_all
    obtain m where m: "memcpy_to_queue ops 0 i (int off) b (int (length bs)) ?s1 = Some (Inr (0, ?s1\<lparr>dma := m\<rparr>))"
      "mem m = write_list (mem (dma s)) (zip (drop off W) bs)"
      using request_write_at [OF rq1, of off bs b] fits r(5) less.prems(4-6) by auto
    let ?s2 = "s\<lparr>dma := m, ebuf := b, rng := g\<rparr>"
    have "set (drop off W) \<inter> chain_addrs (desc_addr (queue s ! 0)) i ds = {}"
      using less.prems(6) by (meson disjoint_iff in_set_dropD)
    then have rq2: "request ops mem 0 i ds ?s2"
      using request_frame [OF less.prems(2) m(2)] by simp
    have step: "entropy_body ops getrandom 0 i (int (length W)) (int off) s = Some (Inr (Again (int (off + length bs)), ?s2))"
      using r m(1) bsz fits less.prems(5)
      by (simp add: entropy_body_def Let_def bnd_run cint_run int_in_range_def) (rule True)
    obtain m' b' g' data where ih: "loop (entropy_body ops getrandom 0 i (int (length W))) (int (off + length bs)) ?s2 =
        Some (Inr ((), s\<lparr>dma := m', ebuf := b', rng := g'\<rparr>))" "length data = length W - (off + length bs)"
      "drawn getrandom (length W - (off + length bs)) g = (data, g')" "mem m' = write_list (mem m) (zip (drop (off + length bs) W) data)"
    proof -
      have "length W - (off + length bs) < length W - off" using True r(2) by linarith
      from less.hyps [OF this less.prems(1) rq2 _ less.prems(4,5)] show thesis
        using less.prems(6) r(4) fits(1) that by auto
    qed
    have mm: "mem m' = write_list (mem (dma s)) (zip (drop off W) (bs @ data))"
      using write_list_split [of bs "length bs" data "drop off W" "mem (dma s)"] fits(1) ih(2)
      by (simp add: ih(4) m(2) add.commute)
    have ld: "length (bs @ data) = length W - off" using ih(2) fits(1) by simp
    have dr: "drawn getrandom (length W - off) (rng s) = (bs @ data, g')"
      using drawn_step [of getrandom "length W - off" "rng s"] r(2,6) n True ih(3) by (auto simp: n_def)
    show ?thesis
      by (rule exI [of _ m'], rule exI [of _ b'], rule exI [of _ g'], rule exI [of _ "bs @ data"])
        (use step ih(1) mm ld dr in \<open>simp add: loop_again\<close>)
  qed
qed

lemma entropy_run:
  assumes "getrandom_ok getrandom" and "request ops mem 0 i ds s" and "length (ebuf s) = 256"
    and "W = desc_addrs (writable ds)" and "length W < 2147483648"
    and "set W \<inter> chain_addrs (desc_addr (queue s ! 0)) i ds = {}"
  shows "\<exists>m b data g. virtio_entropy_recv_request ops getrandom 0 i rsize (int (length W)) s =
      Some (Inr (0, s\<lparr>dma := m, int_status := int_status s OR 1, irq := 1, ebuf := b, rng := g\<rparr>))
    \<and> drawn getrandom (length W) (rng s) = (data, g) \<and> length data = length W
    \<and> mem m = used_push (write_list (mem (dma s)) (zip W data))
        (used_addr (queue s ! 0)) (num (queue s ! 0)) i (int (length W))"
proof -
  obtain m b g data where l: "loop (entropy_body ops getrandom 0 i (int (length W))) 0 s = Some (Inr ((), s\<lparr>dma := m, ebuf := b, rng := g\<rparr>))"
    "drawn getrandom (length W) (rng s) = (data, g)" "length data = length W" "mem m = write_list (mem (dma s)) (zip W data)"
    using entropy_loop_run [OF assms(1-6), of 0] by auto
  let ?s = "s\<lparr>dma := m, ebuf := b, rng := g\<rparr>"
  have rq: "request ops mem 0 i ds ?s" using request_frame [OF assms(2) l(4) assms(6)] by simp
  obtain m' where "virtio_consume_desc ops 0 i (int (length W)) ?s = Some (Inr ((), ?s\<lparr>dma := m', int_status := int_status s OR 1, irq := 1\<rparr>))"
    "mem m' = used_push (mem m) (used_addr (queue s ! 0)) (num (queue s ! 0)) i (int (length W))"
    using request_consume [OF rq, of i "int (length W)"] by auto
  with l have "virtio_entropy_recv_request ops getrandom 0 i rsize (int (length W)) s =
      Some (Inr (0, s\<lparr>dma := m', int_status := int_status s OR 1, irq := 1, ebuf := b, rng := g\<rparr>))
    \<and> drawn getrandom (length W) (rng s) = (data, g) \<and> length data = length W \<and> mem m' = used_push (write_list (mem (dma s)) (zip W data))
        (used_addr (queue s ! 0)) (num (queue s ! 0)) i (int (length W))"
    by (simp add: virtio_entropy_recv_request_def andthen_run)
  then show ?thesis by blast
qed

end
