(* ===== verification/Virtio_Input.thy ===== *)
theory Virtio_Input
  imports Virtio_Regs
begin

text \<open>
  Model of the input device of \<open>src/src/virtio.c\<close>: key, mouse and tablet events sent to the guest,
  and the replies the guest selects by writing to the configuration space.
\<close>

unbundle bit_operations_syntax

section \<open>State\<close>

abbreviation VIRTIO_INPUT_CFG_UNSET :: u8 where "VIRTIO_INPUT_CFG_UNSET \<equiv> 0x00"
abbreviation VIRTIO_INPUT_CFG_ID_NAME :: u8 where "VIRTIO_INPUT_CFG_ID_NAME \<equiv> 0x01"
abbreviation VIRTIO_INPUT_CFG_ID_SERIAL :: u8 where "VIRTIO_INPUT_CFG_ID_SERIAL \<equiv> 0x02"
abbreviation VIRTIO_INPUT_CFG_ID_DEVIDS :: u8 where "VIRTIO_INPUT_CFG_ID_DEVIDS \<equiv> 0x03"
abbreviation VIRTIO_INPUT_CFG_PROP_BITS :: u8 where "VIRTIO_INPUT_CFG_PROP_BITS \<equiv> 0x10"
abbreviation VIRTIO_INPUT_CFG_EV_BITS :: u8 where "VIRTIO_INPUT_CFG_EV_BITS \<equiv> 0x11"
abbreviation VIRTIO_INPUT_CFG_ABS_INFO :: u8 where "VIRTIO_INPUT_CFG_ABS_INFO \<equiv> 0x12"

abbreviation VIRTIO_INPUT_EV_SYN :: u16 where "VIRTIO_INPUT_EV_SYN \<equiv> 0x00"
abbreviation VIRTIO_INPUT_EV_KEY :: u16 where "VIRTIO_INPUT_EV_KEY \<equiv> 0x01"
abbreviation VIRTIO_INPUT_EV_REL :: u16 where "VIRTIO_INPUT_EV_REL \<equiv> 0x02"
abbreviation VIRTIO_INPUT_EV_ABS :: u16 where "VIRTIO_INPUT_EV_ABS \<equiv> 0x03"
abbreviation VIRTIO_INPUT_EV_REP :: u16 where "VIRTIO_INPUT_EV_REP \<equiv> 0x14"

abbreviation BTN_LEFT :: u16 where "BTN_LEFT \<equiv> 0x110"
abbreviation BTN_RIGHT :: u16 where "BTN_RIGHT \<equiv> 0x111"
abbreviation BTN_MIDDLE :: u16 where "BTN_MIDDLE \<equiv> 0x112"

abbreviation REL_X :: u16 where "REL_X \<equiv> 0x00"
abbreviation REL_Y :: u16 where "REL_Y \<equiv> 0x01"
abbreviation REL_WHEEL :: u16 where "REL_WHEEL \<equiv> 0x08"
abbreviation ABS_X :: u16 where "ABS_X \<equiv> 0x00"
abbreviation ABS_Y :: u16 where "ABS_Y \<equiv> 0x01"

abbreviation VIRTIO_INPUT_ABS_SCALE :: u32 where "VIRTIO_INPUT_ABS_SCALE \<equiv> 32768"

datatype virtio_input_type =
  VIRTIO_INPUT_TYPE_KEYBOARD | VIRTIO_INPUT_TYPE_MOUSE | VIRTIO_INPUT_TYPE_TABLET

record 'm virtio_input_device = "'m virtio_device" +
  itype :: virtio_input_type
  buttons_state :: u32

type_synonym ('m, 'a) input_vm = "('m virtio_input_device, 'a) vm"

definition buttons_list :: "u16 list" where
  "buttons_list = [BTN_LEFT, BTN_RIGHT, BTN_MIDDLE]"

section \<open>Events\<close>

definition virtio_input_recv_request ::
  "'m fmem_ops \<Rightarrow> nat \<Rightarrow> u16 \<Rightarrow> int \<Rightarrow> int \<Rightarrow> ('m, int) input_vm" where
  "virtio_input_recv_request ops queue_idx desc_idx read_size write_size =
     (if queue_idx = 1 then andthen (virtio_consume_desc ops queue_idx desc_idx 0) (ret 0) else ret 0)"

definition event_bytes :: "u16 \<Rightarrow> u16 \<Rightarrow> u32 \<Rightarrow> bytes" where
  "event_bytes type code val = put_le16 type @ put_le16 code @ put_le32 val"

definition virtio_input_queue_event :: "'m fmem_ops \<Rightarrow> u16 \<Rightarrow> u16 \<Rightarrow> u32 \<Rightarrow> ('m, int) input_vm" where
  "virtio_input_queue_event ops type code val =
     bnd (get_queue 0) (\<lambda>qs.
     if ready qs = 0 then ret (- 1)
     else if last_avail_idx qs = avail_idx qs then ret (- 1)
     else bnd (virtio_read16 ops (avail_entry_addr qs)) (\<lambda>desc_idx.
       bnd (memcpy_to_queue ops 0 desc_idx 0 (event_bytes type code val) 8) (\<lambda>_.
       andthen (virtio_consume_desc ops 0 desc_idx 8)
       (andthen (advance_avail 0) (ret 0)))))"

text \<open>The early return after an event that could not be sent.\<close>

definition or_return :: "('m, int) input_vm \<Rightarrow> ('m, int) input_vm \<Rightarrow> ('m, int) input_vm" where
  "or_return m k = bnd m (\<lambda>r. if r \<noteq> 0 then ret r else k)"

definition virtio_input_send_key_event :: "'m fmem_ops \<Rightarrow> bool \<Rightarrow> u16 \<Rightarrow> ('m, int) input_vm" where
  "virtio_input_send_key_event ops down key_code =
     bnd (gets itype) (\<lambda>type.
     if type \<noteq> VIRTIO_INPUT_TYPE_KEYBOARD then ret (- 1)
     else or_return (virtio_input_queue_event ops VIRTIO_INPUT_EV_KEY key_code (of_bool down))
            (virtio_input_queue_event ops VIRTIO_INPUT_EV_SYN 0 0))"

text \<open>The loop over \<open>buttons_list\<close>, from button \<open>i\<close> on; then \<open>k\<close>.\<close>

fun send_buttons :: "'m fmem_ops \<Rightarrow> u32 \<Rightarrow> u32 \<Rightarrow> nat \<Rightarrow> u16 list \<Rightarrow> ('m, int) input_vm \<Rightarrow> ('m, int) input_vm" where
  "send_buttons ops buttons prev i [] k = k"
| "send_buttons ops buttons prev i (code # codes) k =
     (let b = drop_bit i buttons AND 1; last_b = drop_bit i prev AND 1 in
      if b \<noteq> last_b
      then or_return (virtio_input_queue_event ops VIRTIO_INPUT_EV_KEY code b) (send_buttons ops buttons prev (Suc i) codes k)
      else send_buttons ops buttons prev (Suc i) codes k)"

definition virtio_input_send_mouse_event ::
  "'m fmem_ops \<Rightarrow> int \<Rightarrow> int \<Rightarrow> int \<Rightarrow> u32 \<Rightarrow> ('m, int) input_vm" where
  "virtio_input_send_mouse_event ops dx dy dz buttons =
     bnd (gets itype) (\<lambda>type.
     if type = VIRTIO_INPUT_TYPE_KEYBOARD then ret (- 1)
     else let (ev, x, y) = (if type = VIRTIO_INPUT_TYPE_MOUSE then (VIRTIO_INPUT_EV_REL, REL_X, REL_Y)
                            else (VIRTIO_INPUT_EV_ABS, ABS_X, ABS_Y));
              syn = virtio_input_queue_event ops VIRTIO_INPUT_EV_SYN 0 0;
              send_changed = bnd (gets buttons_state) (\<lambda>prev.
                if buttons \<noteq> prev
                then send_buttons ops buttons prev 0 buttons_list
                       (andthen (modify (\<lambda>s. s\<lparr>buttons_state := buttons\<rparr>)) syn)
                else syn) in
     or_return (virtio_input_queue_event ops ev x (u32_of_int dx))
     (or_return (virtio_input_queue_event ops ev y (u32_of_int dy))
     (if dz \<noteq> 0 then or_return (virtio_input_queue_event ops VIRTIO_INPUT_EV_REL REL_WHEEL (u32_of_int dz)) send_changed
      else send_changed)))"

section \<open>Configuration replies\<close>

text \<open>Every index below is smaller than the fixed size of \<open>config_space\<close>.\<close>

definition set_bit :: "nat \<Rightarrow> u16 \<Rightarrow> bytes \<Rightarrow> bytes" where
  "set_bit base k tab = (let i = base + unat k div 8 in tab[i := tab ! i OR push_bit (unat k mod 8) 1])"

definition input_name :: "virtio_input_type \<Rightarrow> bytes" where
  "input_name type = map of_char (case type of
     VIRTIO_INPUT_TYPE_KEYBOARD \<Rightarrow> ''virtio_keyboard''
   | VIRTIO_INPUT_TYPE_MOUSE \<Rightarrow> ''virtio_mouse''
   | VIRTIO_INPUT_TYPE_TABLET \<Rightarrow> ''virtio_tablet'')"

definition buttons_bitmap :: "bytes \<Rightarrow> bytes" where
  "buttons_bitmap c = fold (set_bit 8) buttons_list (blit (c[2 := 64]) 8 (replicate 64 0))"

definition input_ev_bits :: "virtio_input_type \<Rightarrow> bytes \<Rightarrow> bytes" where
  "input_ev_bits type c0 =
     (let c = c0[2 := 0]; sub = ucast (c0 ! 1) in case type of
       VIRTIO_INPUT_TYPE_KEYBOARD \<Rightarrow>
         if sub = VIRTIO_INPUT_EV_KEY then blit (c[2 := 16]) 8 (replicate 16 0xff)
         else if sub = VIRTIO_INPUT_EV_REP then c[2 := 1]
         else c
     | VIRTIO_INPUT_TYPE_MOUSE \<Rightarrow>
         if sub = VIRTIO_INPUT_EV_KEY then buttons_bitmap c
         else if sub = VIRTIO_INPUT_EV_REL then
           fold (set_bit 8) [REL_X, REL_Y, REL_WHEEL] (c[2 := 2, 8 := 0, 9 := 0])
         else c
     | VIRTIO_INPUT_TYPE_TABLET \<Rightarrow>
         if sub = VIRTIO_INPUT_EV_KEY then buttons_bitmap c
         else if sub = VIRTIO_INPUT_EV_REL then set_bit 8 REL_WHEEL (c[2 := 2, 8 := 0, 9 := 0])
         else if sub = VIRTIO_INPUT_EV_ABS then fold (set_bit 8) [ABS_X, ABS_Y] (c[2 := 1, 8 := 0])
         else c)"

definition input_config :: "virtio_input_type \<Rightarrow> bytes \<Rightarrow> bytes" where
  "input_config type c =
     (let sel = c ! 0 in
      if sel = VIRTIO_INPUT_CFG_UNSET then c
      else if sel = VIRTIO_INPUT_CFG_ID_NAME then
        let name = input_name type in blit (c[2 := of_nat (length name)]) 8 name
      else if sel = VIRTIO_INPUT_CFG_EV_BITS then input_ev_bits type c
      else if sel = VIRTIO_INPUT_CFG_ABS_INFO then
        if type = VIRTIO_INPUT_TYPE_TABLET \<and> c ! 1 \<le> 1
        then blit (c[2 := 20]) 8 (put_le32 0 @ put_le32 (VIRTIO_INPUT_ABS_SCALE - 1) @ put_le32 0 @ put_le32 0 @ put_le32 0)
        else c
      else c[2 := 0])"

definition virtio_input_config_write :: "('m, unit) input_vm" where
  "virtio_input_config_write = modify (\<lambda>s. s\<lparr>config_space := input_config (itype s) (config_space s)\<rparr>)"

definition virtio_input_init :: "virtio_input_type \<Rightarrow> 'm virtio_input_device \<Rightarrow> 'm virtio_input_device" where
  "virtio_input_init type s =
     (let s1 = virtio_init_dev 18 256 (s\<lparr>buttons_state := 0\<rparr>) in
      s1\<lparr>queue := (queue s1)[0 := (queue s1 ! 0)\<lparr>manual_recv := True\<rparr>], device_features := 0, itype := type\<rparr>)"

section \<open>The contract\<close>

lemma length_set_bit [simp]: "length (set_bit base k tab) = length tab"
  by (simp add: set_bit_def Let_def)

lemma length_fold_set_bit [simp]: "length (fold (set_bit base) ks tab) = length tab"
  by (induction ks arbitrary: tab) simp_all

lemma length_input_config: "256 \<le> length c \<Longrightarrow> length (input_config type c) = length c"
  by (auto simp: input_config_def input_ev_bits_def buttons_bitmap_def input_name_def Let_def
      le32.enc_length split: virtio_input_type.splits)

lemma dev_inv_input [simp]:
  "dev_inv (s\<lparr>itype := t\<rparr>) = dev_inv s" "dev_inv (s\<lparr>buttons_state := b\<rparr>) = dev_inv s"
  by (simp_all add: dev_inv_def)

interpretation inp: virtio_callbacks "virtio_input_recv_request ops" "Some virtio_input_config_write" for ops
proof
  fix Q q i rsize wsize
  show "keeps (\<lambda>s. dev_inv s \<and> queue s = Q) (virtio_input_recv_request ops q i rsize wsize)"
    unfolding virtio_input_recv_request_def by (intro keeps_intros)
next
  fix f :: "('a, unit) input_vm"
  assume f: "Some virtio_input_config_write = Some f"
  have "keeps dev_inv (virtio_input_config_write :: ('a, unit) input_vm)"
    unfolding virtio_input_config_write_def
    by (rule keeps_modify) (simp add: dev_inv_def length_input_config)
  with f show "keeps dev_inv f" by simp
qed

interpretation inp: sync_handler "virtio_input_recv_request ops" for ops
proof
  fix q i rsize wsize
  show "yields (\<lambda>r. 0 \<le> r) (virtio_input_recv_request ops q i rsize wsize)"
    unfolding virtio_input_recv_request_def by (intro yields_intros) simp_all
qed

section \<open>What the guest sees\<close>

lemma length_event_bytes [simp]: "length (event_bytes type code val) = 8"
  by (simp add: event_bytes_def le16.enc_length le32.enc_length)

text \<open>The guest decodes the event that was sent.\<close>

lemma event_decode:
  "get_le16 (event_bytes type code val) = type" "get_le16 (drop 2 (event_bytes type code val)) = code"
  "get_le32 (drop 4 (event_bytes type code val)) = val"
  using le32.dec_enc [of val "[]"]
  by (simp_all add: event_bytes_def le16.dec_enc le16.enc_length)

lemma input_event_run:
  assumes rq: "request ops mem 0 i ds s"
    and rd: "ready (queue s ! 0) \<noteq> 0" "last_avail_idx (queue s ! 0) \<noteq> avail_idx (queue s ! 0)"
    and i: "virtio_read16 ops (avail_entry_addr (queue s ! 0)) s = Some (Inr (i, s))"
    and W: "W = desc_addrs (writable ds)" "8 \<le> length W" "length W < 2147483648"
      "set W \<inter> chain_addrs (desc_addr (queue s ! 0)) i ds = {}"
  shows "\<exists>m. virtio_input_queue_event ops type code val s =
      Some (Inr (0, s\<lparr>dma := m, int_status := int_status s OR 1, irq := 1,
        queue := (queue s)[0 := (queue s ! 0)\<lparr>last_avail_idx := last_avail_idx (queue s ! 0) + 1\<rparr>]\<rparr>))
    \<and> mem m = used_push (write_list (mem (dma s)) (zip W (event_bytes type code val)))
        (used_addr (queue s ! 0)) (num (queue s ! 0)) i 8"
proof -
  let ?e = "event_bytes type code val"
  have q0: "0 < length (queue s)" using rq by (simp add: request_def on_ram_def)
  obtain m1 where m1: "memcpy_to_queue ops 0 i 0 ?e 8 s = Some (Inr (0, s\<lparr>dma := m1\<rparr>))"
    "mem m1 = write_list (mem (dma s)) (zip W ?e)"
    using request_write_at [OF rq, of 0 ?e ?e] W by auto
  have rq1: "request ops mem 0 i ds (s\<lparr>dma := m1\<rparr>)" using request_frame [OF rq m1(2) W(4)] .
  obtain m3 where m3: "virtio_consume_desc ops 0 i 8 (s\<lparr>dma := m1\<rparr>) =
      Some (Inr ((), s\<lparr>dma := m3, int_status := int_status s OR 1, irq := 1\<rparr>))"
    "mem m3 = used_push (mem m1) (used_addr (queue s ! 0)) (num (queue s ! 0)) i 8"
    using request_consume [OF rq1, of i 8] by auto
  show ?thesis
    using rd i m1 m3 q0
    by (intro exI [of _ m3]) (simp add: virtio_input_queue_event_def get_queue_def bnd_run andthen_run
        advance_avail_def set_queue_def)
qed

text \<open>A bitmap in the configuration space.\<close>

definition get_bit :: "nat \<Rightarrow> bytes \<Rightarrow> nat \<Rightarrow> bool" where
  "get_bit base tab k \<longleftrightarrow> bit (tab ! (base + k div 8)) (k mod 8)"

lemma get_set_bit:
  assumes "base + unat j div 8 < length tab"
  shows "get_bit base (set_bit base j tab) k \<longleftrightarrow> get_bit base tab k \<or> k = unat j"
proof (cases "k div 8 = unat j div 8")
  case True
  then have "k mod 8 = unat j mod 8 \<longleftrightarrow> k = unat j" by (metis mod_mult_div_eq)
  moreover have "k mod 8 < 8" by simp
  ultimately show ?thesis using True assms
    by (auto simp: get_bit_def set_bit_def Let_def bit_simps)
next
  case False
  then show ?thesis by (auto simp: get_bit_def set_bit_def Let_def)
qed

lemma get_fold_set_bit:
  "\<forall>j \<in> set ks. base + unat j div 8 < length tab \<Longrightarrow>
     get_bit base (fold (set_bit base) ks tab) k \<longleftrightarrow> get_bit base tab k \<or> k \<in> unat ` set ks"
  by (induction ks arbitrary: tab) (auto simp: get_set_bit)

text \<open>The event bits a mouse or a tablet announces for keys are exactly the three buttons.\<close>

lemma buttons_bitmap_bits:
  assumes "length c = 256" and "k < 512"
  shows "get_bit 8 (buttons_bitmap c) k \<longleftrightarrow> k \<in> {0x110, 0x111, 0x112}"
proof -
  let ?t = "blit (c[2 := 64]) 8 (replicate 64 0)"
  have "k div 8 < 64" using assms(2) by auto
  then have z: "\<not> get_bit 8 ?t k" using assms(1) by (simp add: get_bit_def nth_blit)
  have "\<forall>j \<in> set buttons_list. 8 + unat j div 8 < length ?t" using assms(1) by (simp add: buttons_list_def)
  from get_fold_set_bit [OF this, of k] z show ?thesis
    by (simp add: buttons_bitmap_def buttons_list_def)
qed

end
