(* ===== verification/Device_Correct.thy ===== *)
theory Device_Correct
  imports Sample Virtio_Net Virtio_Console Virtio_Entropy Virtio_Input
begin

text \<open>
  What the guest and the host see of the network, console, entropy and input devices: packets and
  characters in both directions, random bytes, and input events, each for a chain of the guest that
  holds the request and for a backend given by a parameter.
\<close>

unbundle bit_operations_syntax

section \<open>Network\<close>

lemma net_tx_served:
  assumes "request ops mem 1 i ds s" and "pending mem 1 i s" and "list_all is_write (dropWhile (\<lambda>d. \<not> is_write d) ds)"
    and "header_size s = 12" and "length (sent mem ds s) = 12 + len" "12 + len < 2147483648"
    and "length (desc_addrs (writable ds)) < 2147483648"
    and "write_packet eops (drop 12 (sent mem ds s)) (int len) (es s) = Some (Inr ((), e))"
  shows "\<exists>t. queue_notify ops (virtio_net_recv_request ops eops junk) 1 s = Some (Inr ((), t))
    \<and> es t = e \<and> irq t = 1 \<and> last_avail_idx (queue t ! 1) = last_avail_idx (queue s ! 1) + 1
    \<and> mem (dma t) = used_push (mem (dma s)) (used_addr (queue s ! 1)) (num (queue s ! 1)) i 0"
proof -
  let ?s = "noticed 1 s"
  have q: "1 < length (queue s)" using assms(1) by (rule request_queue)
  have n: "header_size ?s = 12" "es ?s = es s" using assms(4) by (simp_all add: noticed_def)
  obtain m where m: "virtio_net_recv_request ops eops junk 1 i (int (12 + len)) (int (length (desc_addrs (writable ds)))) ?s =
      Some (Inr (0, ?s\<lparr>dma := m, int_status := int_status ?s OR 1, irq := 1, es := e\<rparr>))"
    "mem m = used_push (mem (dma s)) (used_addr (queue s ! 1)) (num (queue s ! 1)) i 0"
    using net_tx_run [of ops mem i ds ?s len eops e junk] assms q n by auto
  have r: "12 + len = length (desc_addrs (readable ds))" using assms(5) by (simp add: sent_def)
  from notify_one [where recv = "virtio_net_recv_request ops eops junk", OF assms(1-3) r assms(6) refl assms(7) m(1)] q m(2) show ?thesis
    by (auto simp: served_def)
qed

text \<open>
  C18: a guest that offers a packet behind a header on the transmit queue and notifies the device has
  exactly the bytes after the header handed to the Ethernet backend, the buffer returned with length
  0, the interrupt raised and the available entry taken.
\<close>

theorem net_tx_notified:
  assumes "request ops mem 1 i ds s" and "pending mem 1 i s" and "list_all is_write (dropWhile (\<lambda>d. \<not> is_write d) ds)"
    and "header_size s = 12" and "length (sent mem ds s) = 12 + len" "12 + len < 2147483648"
    and "length (desc_addrs (writable ds)) < 2147483648"
    and "write_packet eops (drop 12 (sent mem ds s)) (int len) (es s) = Some (Inr ((), e))"
  shows "\<exists>t. queue_notify ops (virtio_net_recv_request ops eops junk) 1 s = Some (Inr ((), t))
    \<and> es t = e \<and> irq t = 1 \<and> last_avail_idx (queue t ! 1) = last_avail_idx (queue s ! 1) + 1
    \<and> mem (dma t) = used_push (mem (dma s)) (used_addr (queue s ! 1)) (num (queue s ! 1)) i 0"
  by (rule net_tx_served [OF assms])

text \<open>A backend that collects the packets.\<close>

definition collect_net :: "bytes list ethernet_ops" where
  "collect_net = \<lparr>write_packet = \<lambda>buf len. modify (\<lambda>ps. ps @ [take (nat len) buf])\<rparr>"

definition sample_net :: "nat \<Rightarrow> bytes \<Rightarrow> (ram, bytes list) virtio_net_device" where
  "sample_net w hdr = sample_dev 8 w hdr (virtio_net_device.fields [] 12)"

lemma sample_net_sel [simp]: "es (sample_net w hdr) = []" "header_size (sample_net w hdr) = 12"
  by (simp_all add: sample_net_def sample_dev_def virtio_net_device.defs)

text \<open>The device with one packet to send.\<close>

definition sample_packet :: bytes where
  "sample_packet = replicate 12 0 @ [1, 2, 3]"

lemma sample_tx:
  "request flat_ram id 1 0 (sample_chain 0 sample_packet) (sample_net 0 sample_packet)"
  "pending id 1 0 (sample_net 0 sample_packet)"
  "length (sent id (sample_chain 0 sample_packet) (sample_net 0 sample_packet)) = 12 + 3"
  "length (desc_addrs (writable (sample_chain 0 sample_packet))) < 2147483648"
  "write_packet collect_net (drop 12 (sent id (sample_chain 0 sample_packet) (sample_net 0 sample_packet))) (int 3)
     (es (sample_net 0 sample_packet)) = Some (Inr ((), [[1, 2, 3]]))"
proof -
  have L: "length sample_packet \<le> 0xf000" "(0 :: nat) \<le> 0x10000" "(1 :: nat) < MAX_QUEUE" by (simp_all add: sample_packet_def)
  show "request flat_ram id 1 0 (sample_chain 0 sample_packet) (sample_net 0 sample_packet)"
    by (rule sample_request [OF L, of 8 "virtio_net_device.fields ([] :: bytes list) 12", folded sample_net_def])
  show "pending id 1 0 (sample_net 0 sample_packet)"
    by (rule sample_pending [OF L(1,3), of 8 0 "virtio_net_device.fields ([] :: bytes list) 12", folded sample_net_def])
  have snt: "sent id (sample_chain 0 sample_packet) (sample_net 0 sample_packet) = sample_packet"
    using L(1) by (simp only: sample_net_def sample_sent_dev)
  show "length (sent id (sample_chain 0 sample_packet) (sample_net 0 sample_packet)) = 12 + 3"
    unfolding snt by (simp add: sample_packet_def)
  show "length (desc_addrs (writable (sample_chain 0 sample_packet))) < 2147483648" unfolding sample_writable [OF L(2)] by simp
  show "write_packet collect_net (drop 12 (sent id (sample_chain 0 sample_packet) (sample_net 0 sample_packet))) (int 3)
     (es (sample_net 0 sample_packet)) = Some (Inr ((), [[1, 2, 3]]))"
    unfolding snt by (simp add: collect_net_def sample_packet_def)
qed

theorem net_tx_notified_witness:
  "\<exists>t. queue_notify flat_ram (virtio_net_recv_request flat_ram collect_net (\<lambda>_. 0)) 1
      (sample_net 0 sample_packet) = Some (Inr ((), t)) \<and> es t = [[1, 2, 3]] \<and> irq t = 1"
  using net_tx_notified [where junk = "\<lambda>_. 0", OF sample_tx(1,2) sample_order sample_net_sel(2) sample_tx(3) _ sample_tx(4,5)] by auto

text \<open>
  C19: a packet that arrives while the guest has an empty buffer available that is large enough is
  written there behind a header of zero bytes, and the buffer is returned with the length of both.
\<close>

theorem net_rx_delivers:
  assumes "request ops mem 0 i ds s" and "header_size s = 12"
    and "ready (queue s ! 0) \<noteq> 0" "last_avail_idx (queue s ! 0) \<noteq> avail_idx (queue s ! 0)"
    and "virtio_read16 ops (avail_entry_addr (queue s ! 0)) s = Some (Inr (i, s))"
    and "list_all is_write (dropWhile (\<lambda>d. \<not> is_write d) ds)" "length (desc_addrs (readable ds)) < 2147483648"
    and "W = desc_addrs (writable ds)" "12 + length buf \<le> length W" "length W < 2147483648"
      "set W \<inter> chain_addrs (desc_addr (queue s ! 0)) i ds = {}"
  shows "\<exists>m. virtio_net_write_packet ops buf (int (length buf)) s =
      Some (Inr ((), s\<lparr>dma := m, int_status := int_status s OR 1, irq := 1,
        queue := (queue s)[0 := (queue s ! 0)\<lparr>last_avail_idx := last_avail_idx (queue s ! 0) + 1\<rparr>]\<rparr>))
    \<and> mem m = used_push (write_list (mem (dma s)) (zip W (replicate 12 0 @ buf)))
        (used_addr (queue s ! 0)) (num (queue s ! 0)) i (int (12 + length buf))"
  by (rule net_rx_run [OF assms])

text \<open>The available entry of the sample device.\<close>

lemma sample_entry:
  assumes "length hdr \<le> 0xf000" and "q < MAX_QUEUE"
  shows "virtio_read16 flat_ram (avail_entry_addr (queue (sample_dev c w hdr x) ! q)) (sample_dev c w hdr x) =
    Some (Inr (0, sample_dev c w hdr x))"
proof -
  let ?s = "sample_dev c w hdr x"
  have a: "avail_entry_addr (queue ?s ! q) = 0xc0000104"
    using assms(2) by (simp add: avail_entry_addr_def) (simp add: sample_queue_def)
  have "virtio_read16 flat_ram 0xc0000104 ?s = Some (Inr (ring16 (id (dma ?s)) 0xc0000104, ?s))"
    by (rule read16_run [OF flat_ram]) (simp_all add: sample_dev_def dma_offset_def)
  then show ?thesis unfolding a using sample_rings(2) [OF assms(1)] by simp
qed

lemma sample_ready:
  "q < MAX_QUEUE \<Longrightarrow> ready (queue (sample_dev c w hdr x) ! q) \<noteq> 0"
  "q < MAX_QUEUE \<Longrightarrow> last_avail_idx (queue (sample_dev c w hdr x) ! q) \<noteq> avail_idx (queue (sample_dev c w hdr x) ! q)"
  by simp_all

lemma sample_sizes:
  "length hdr \<le> 0xf000 \<Longrightarrow> length (desc_addrs (readable (sample_chain w hdr))) < 2147483648"
  by (simp only: sample_halves) (simp add: sample_addrs del: desc_addrs_Cons)

lemma sample_disjoint:
  "w \<le> 0x10000 \<Longrightarrow> q < MAX_QUEUE \<Longrightarrow> set (seg_addrs 0xc0010000 w) \<inter>
     chain_addrs (desc_addr (queue (sample_dev c w' hdr x) ! q)) 0 (sample_chain w hdr) = {}"
  using sample_apart(1) [of w "length hdr"] by simp

theorem net_rx_delivers_witness:
  "\<exists>t. virtio_net_write_packet flat_ram [1, 2, 3] 3 (sample_net 15 []) = Some (Inr ((), t))
    \<and> irq t = 1 \<and> last_avail_idx (queue t ! 0) = 1"
proof -
  let ?x = "virtio_net_device.fields ([] :: bytes list) 12" and ?buf = "[1, 2, 3] :: bytes"
  have L: "length ([] :: bytes) \<le> 0xf000" "(15 :: nat) \<le> 0x10000" "(0 :: nat) < MAX_QUEUE" by simp_all
  have s: "sample_net 15 [] = sample_dev 8 15 [] ?x" by (simp add: sample_net_def)
  have h: "header_size (sample_dev 8 15 [] ?x) = 12" unfolding s [symmetric] by (rule sample_net_sel)
  have W: "12 + length ?buf \<le> length (seg_addrs 0xc0010000 15)" "length (seg_addrs 0xc0010000 15) < 2147483648" by simp_all
  from net_rx_delivers [OF sample_request [OF L] h sample_ready [OF L(3)] sample_entry [OF L(1,3)] sample_order
      sample_sizes [OF L(1)] sample_writable [OF L(2), symmetric] W sample_disjoint [OF L(2,3)]]
  show ?thesis unfolding s by auto
qed

section \<open>Console\<close>

text \<open>
  Characters the guest offers on the transmit queue reach the terminal when it notifies the
  device: \<open>write_data\<close> gets exactly those bytes, with a terminating zero behind them.
\<close>

theorem console_out_notified:
  assumes "request ops mem 1 i ds s" and "pending mem 1 i s" and "list_all is_write (dropWhile (\<lambda>d. \<not> is_write d) ds)"
    and "length (sent mem ds s) = len" "len < 2147483647" and "length (desc_addrs (writable ds)) < 2147483648"
    and "write_data cops (sent mem ds s @ [0]) (int len) (cs s) = Some (Inr ((), c))"
  shows "\<exists>t. queue_notify ops (virtio_console_recv_request ops cops) 1 s = Some (Inr ((), t))
    \<and> cs t = c \<and> irq t = 1 \<and> last_avail_idx (queue t ! 1) = last_avail_idx (queue s ! 1) + 1
    \<and> mem (dma t) = used_push (mem (dma s)) (used_addr (queue s ! 1)) (num (queue s ! 1)) i 0"
proof -
  let ?s = "noticed 1 s"
  have q: "1 < length (queue s)" using assms(1) by (rule request_queue)
  have n: "cs ?s = cs s" by (simp add: noticed_def)
  obtain m where m: "virtio_console_recv_request ops cops 1 i (int len) (int (length (desc_addrs (writable ds)))) ?s =
      Some (Inr (0, ?s\<lparr>dma := m, int_status := int_status ?s OR 1, irq := 1, cs := c\<rparr>))"
    "mem m = used_push (mem (dma s)) (used_addr (queue s ! 1)) (num (queue s ! 1)) i 0"
    using console_out_run [of ops mem i ds ?s len cops c] assms q n by auto
  have r: "len = length (desc_addrs (readable ds))" "len < 2147483648" using assms(4,5) by (simp_all add: sent_def)
  from notify_one [where recv = "virtio_console_recv_request ops cops", OF assms(1-3) r refl assms(6) m(1)] q m(2)
  show ?thesis by (auto simp: served_def)
qed

text \<open>A terminal that keeps what was written to it and has no input.\<close>

definition screen :: "bytes character_device" where
  "screen = \<lparr>write_data = \<lambda>buf len. modify (\<lambda>out. out @ take (nat len) buf), read_data = \<lambda>buf len. ret (0, buf)\<rparr>"

definition sample_console :: "nat \<Rightarrow> bytes \<Rightarrow> (ram, bytes) virtio_console_device" where
  "sample_console w hdr = sample_dev 4 w hdr (virtio_console_device.fields [])"

theorem console_out_notified_witness:
  "\<exists>t. queue_notify flat_ram (virtio_console_recv_request flat_ram screen) 1 (sample_console 0 [72, 105]) = Some (Inr ((), t))
    \<and> cs t = [72, 105] \<and> irq t = 1"
proof -
  let ?x = "virtio_console_device.fields ([] :: bytes)" and ?s = "sample_console 0 [72, 105]"
  define hdr where "hdr = [72, 105 :: u8]"
  have L: "length hdr \<le> 0xf000" "(0 :: nat) \<le> 0x10000" "(1 :: nat) < MAX_QUEUE" by (simp_all add: hdr_def)
  have s: "?s = sample_dev 4 0 hdr ?x" by (simp add: sample_console_def hdr_def)
  have c: "cs ?s = []" by (simp add: sample_console_def sample_dev_def virtio_console_device.defs)
  have snt: "sent id (sample_chain 0 hdr) ?s = hdr" unfolding s by (rule sample_sent_dev [OF L(1)])
  have len: "length (sent id (sample_chain 0 hdr) ?s) = 2" unfolding snt by (simp add: hdr_def)
  have W: "length (desc_addrs (writable (sample_chain 0 hdr))) < 2147483648" unfolding sample_writable [OF L(2)] by simp
  have wd: "write_data screen (sent id (sample_chain 0 hdr) ?s @ [0]) (int 2) (cs ?s) = Some (Inr ((), [72, 105]))"
    unfolding snt c by (simp add: screen_def hdr_def)
  from console_out_notified [OF sample_request [OF L, of 4 ?x, folded s] sample_pending [OF L(1,3), of 4 0 ?x, folded s]
      sample_order len _ W wd]
  show ?thesis by auto
qed

text \<open>
  Terminal input that fits into the next buffer of the receive queue is written there, the
  buffer is returned with that length and the whole input counts as taken.
\<close>

theorem console_in_delivers:
  assumes "request ops mem 0 i ds s"
    and "ready (queue s ! 0) \<noteq> 0" "last_avail_idx (queue s ! 0) \<noteq> avail_idx (queue s ! 0)"
    and "virtio_read16 ops (avail_entry_addr (queue s ! 0)) s = Some (Inr (i, s))"
    and "W = desc_addrs (writable ds)" "length buf \<le> length W" "length W < 2147483648"
      "set W \<inter> chain_addrs (desc_addr (queue s ! 0)) i ds = {}"
  shows "\<exists>m. virtio_console_write_data ops buf (int (length buf)) s =
      Some (Inr (int (length buf), s\<lparr>dma := m, int_status := int_status s OR 1, irq := 1,
        queue := (queue s)[0 := (queue s ! 0)\<lparr>last_avail_idx := last_avail_idx (queue s ! 0) + 1\<rparr>]\<rparr>))
    \<and> mem m = used_push (write_list (mem (dma s)) (zip W buf))
        (used_addr (queue s ! 0)) (num (queue s ! 0)) i (int (length buf))"
  by (rule console_in_run [OF assms])

theorem console_in_delivers_witness:
  "\<exists>t. virtio_console_write_data flat_ram [108, 115, 10] 3 (sample_console 15 []) = Some (Inr (3, t))
    \<and> irq t = 1 \<and> last_avail_idx (queue t ! 0) = 1"
proof -
  let ?x = "virtio_console_device.fields ([] :: bytes)" and ?buf = "[108, 115, 10] :: bytes"
  have L: "length ([] :: bytes) \<le> 0xf000" "(15 :: nat) \<le> 0x10000" "(0 :: nat) < MAX_QUEUE" by simp_all
  have s: "sample_console 15 [] = sample_dev 4 15 [] ?x" by (simp add: sample_console_def)
  have W: "length ?buf \<le> length (seg_addrs 0xc0010000 15)" "length (seg_addrs 0xc0010000 15) < 2147483648" by simp_all
  from console_in_delivers [OF sample_request [OF L] sample_ready [OF L(3)] sample_entry [OF L(1,3)]
      sample_writable [OF L(2), symmetric] W sample_disjoint [OF L(2,3)], of 4 ?x]
  show ?thesis unfolding s by auto
qed

section \<open>Entropy\<close>

text \<open>
  C20: when \<open>getrandom\<close> keeps its documented promise, a notified request for random bytes
  terminates and fills the whole writable part of the chain, in order, with exactly the bytes the
  successive calls of \<open>getrandom\<close> deliver, however little each call returns; the request is returned
  with the length of that part and no other memory of the guest changes but the used ring.
\<close>

theorem entropy_fills:
  assumes "getrandom_ok getrandom" and "request ops mem 0 i ds s" and "pending mem 0 i s"
    and "list_all is_write (dropWhile (\<lambda>d. \<not> is_write d) ds)" and "length (ebuf s) = 256"
    and "length (desc_addrs (readable ds)) < 2147483648"
    and "W = desc_addrs (writable ds)" and "length W < 2147483648"
    and "set W \<inter> chain_addrs (desc_addr (queue s ! 0)) i ds = {}"
  shows "\<exists>t data. queue_notify ops (virtio_entropy_recv_request ops getrandom) 0 s = Some (Inr ((), t))
    \<and> drawn getrandom (length W) (rng s) = (data, rng t)
    \<and> length data = length W \<and> irq t = 1 \<and> last_avail_idx (queue t ! 0) = last_avail_idx (queue s ! 0) + 1
    \<and> mem (dma t) = used_push (write_list (mem (dma s)) (zip W data))
        (used_addr (queue s ! 0)) (num (queue s ! 0)) i (int (length W))"
proof -
  let ?s = "noticed 0 s"
  have q: "0 < length (queue s)" using assms(2) by (rule request_queue)
  have n: "length (ebuf ?s) = 256" "rng ?s = rng s" using assms(5) by (simp_all add: noticed_def)
  obtain m b data g where m: "virtio_entropy_recv_request ops getrandom 0 i (int (length (desc_addrs (readable ds)))) (int (length W)) ?s =
      Some (Inr (0, ?s\<lparr>dma := m, int_status := int_status ?s OR 1, irq := 1, ebuf := b, rng := g\<rparr>))"
    "drawn getrandom (length W) (rng s) = (data, g)" "length data = length W"
    "mem m = used_push (write_list (mem (dma s)) (zip W data)) (used_addr (queue s ! 0)) (num (queue s ! 0)) i (int (length W))"
    using entropy_run [OF assms(1) _ n(1) assms(7,8), of ops mem i "int (length (desc_addrs (readable ds)))"] assms(2,9) q n(2) by auto
  from notify_one [where recv = "virtio_entropy_recv_request ops getrandom", OF assms(2-4) refl assms(6) _ assms(8) m(1)]
    assms(7) q m(2-4)
  show ?thesis by (intro exI [of _ "served 0 (?s\<lparr>dma := m, int_status := int_status ?s OR 1, irq := 1, ebuf := b, rng := g\<rparr>)"]
    exI [of _ data]) (auto simp: served_def)
qed

text \<open>A source that returns at most 7 bytes a call, counting up.\<close>

definition drip :: "u8 getrandom" where
  "drip n g = (let k = nat (min n 7) in ((int k, map (\<lambda>i. g + of_nat i) [0..<k]), g + of_nat k))"

lemma drip_ok: "getrandom_ok drip"
  unfolding getrandom_ok_def
proof (intro allI impI)
  fix n :: int and g :: u8
  assume n: "0 < n \<and> n \<le> 256"
  let ?bs = "map (\<lambda>i. g + of_nat i) [0..<nat (min n 7)]"
  have "drip n g = ((int (length ?bs), ?bs), g + of_nat (nat (min n 7)))" by (simp add: drip_def Let_def)
  moreover have "0 < length ?bs" "int (length ?bs) \<le> n" using n by auto
  ultimately show "\<exists>bs g'. drip n g = ((int (length bs), bs), g') \<and> 0 < length bs \<and> int (length bs) \<le> n" by blast
qed

lemma drawn_drip: "drawn drip 100 5 = (map of_nat [5..<105], 105)"
  by code_simp

theorem entropy_fills_witness:
  "\<exists>t. queue_notify flat_ram (virtio_entropy_recv_request flat_ram drip) 0
      (sample_dev 0 100 [] (virtio_entropy_device.fields (replicate 256 0) 5)) = Some (Inr ((), t)) \<and> irq t = 1
    \<and> rng t = 105
    \<and> dma t = used_push (write_list (dma (sample_dev 0 100 [] (virtio_entropy_device.fields (replicate 256 0) (5 :: u8))))
          (zip (seg_addrs 0xc0010000 100) (map of_nat [5..<105])))
        (used_addr (queue (sample_dev 0 100 [] (virtio_entropy_device.fields (replicate 256 0) (5 :: u8))) ! 0))
        (num (queue (sample_dev 0 100 [] (virtio_entropy_device.fields (replicate 256 0) (5 :: u8))) ! 0)) 0 100"
proof -
  let ?x = "virtio_entropy_device.fields (replicate 256 0) (5 :: u8)"
  have L: "length ([] :: bytes) \<le> 0xf000" "(100 :: nat) \<le> 0x10000" "(0 :: nat) < MAX_QUEUE" by simp_all
  have e: "length (ebuf (sample_dev 0 100 [] ?x)) = 256" "rng (sample_dev 0 100 [] ?x) = 5"
    by (simp_all add: sample_dev_def virtio_entropy_device.defs)
  have W: "length (seg_addrs 0xc0010000 100) < 2147483648" by simp
  from entropy_fills [OF drip_ok sample_request [OF L] sample_pending [OF L(1,3)] sample_order e(1) sample_sizes [OF L(1)]
      sample_writable [OF L(2), symmetric] W sample_disjoint [OF L(2,3)]]
  show ?thesis by (auto simp: e(2) drawn_drip)
qed

section \<open>Input\<close>

text \<open>
  An event sent while the guest has a buffer of at least eight bytes available is written there
  in the layout the guest decodes, and the buffer is returned with length 8.
\<close>

theorem input_event_delivers:
  assumes "request ops mem 0 i ds s"
    and "ready (queue s ! 0) \<noteq> 0" "last_avail_idx (queue s ! 0) \<noteq> avail_idx (queue s ! 0)"
    and "virtio_read16 ops (avail_entry_addr (queue s ! 0)) s = Some (Inr (i, s))"
    and "W = desc_addrs (writable ds)" "8 \<le> length W" "length W < 2147483648"
      "set W \<inter> chain_addrs (desc_addr (queue s ! 0)) i ds = {}"
  shows "\<exists>m bs. virtio_input_queue_event ops type code val s =
      Some (Inr (0, s\<lparr>dma := m, int_status := int_status s OR 1, irq := 1,
        queue := (queue s)[0 := (queue s ! 0)\<lparr>last_avail_idx := last_avail_idx (queue s ! 0) + 1\<rparr>]\<rparr>))
    \<and> mem m = used_push (write_list (mem (dma s)) (zip W bs)) (used_addr (queue s ! 0)) (num (queue s ! 0)) i 8
    \<and> length bs = 8 \<and> get_le16 bs = type \<and> get_le16 (drop 2 bs) = code \<and> get_le32 (drop 4 bs) = val"
  using input_event_run [OF assms, of type code val] event_decode [of type code val]
  by (auto intro!: exI [of _ "event_bytes type code val"])

theorem input_event_delivers_witness:
  "\<exists>t. virtio_input_queue_event flat_ram VIRTIO_INPUT_EV_KEY 30 1
      (sample_dev 256 8 [] (virtio_input_device.fields VIRTIO_INPUT_TYPE_KEYBOARD 0)) = Some (Inr (0, t)) \<and> irq t = 1"
proof -
  let ?x = "virtio_input_device.fields VIRTIO_INPUT_TYPE_KEYBOARD 0"
  have L: "length ([] :: bytes) \<le> 0xf000" "(8 :: nat) \<le> 0x10000" "(0 :: nat) < MAX_QUEUE" by simp_all
  have W: "8 \<le> length (seg_addrs 0xc0010000 8)" "length (seg_addrs 0xc0010000 8) < 2147483648" by simp_all
  from input_event_delivers [where type = VIRTIO_INPUT_EV_KEY and code = 30 and val = 1, OF sample_request [OF L] sample_ready [OF L(3)] sample_entry [OF L(1,3)]
      sample_writable [OF L(2), symmetric] W sample_disjoint [OF L(2,3)], of 256 ?x]
  show ?thesis by auto
qed

end
