(* ===== verification/Fs_Device.thy ===== *)
theory Fs_Device
  imports Cutils
begin

text \<open>
  The file system interface of \<open>src/src/fs.h\<close> and the path functions of \<open>src/src/fs.c\<close>.  A file
  system (\<open>FSDevice\<close>, a struct of function pointers) is a record of computations over its own state;
  an \<open>FSFile\<close> pointer is a handle of some type.  An output parameter is part of the result: what the
  variable behind the pointer holds after the call.
\<close>

section \<open>Types\<close>

abbreviation P9_EPROTO :: int where "P9_EPROTO \<equiv> 71"
abbreviation P9_ENOTSUP :: int where "P9_ENOTSUP \<equiv> 524"

record fsstatfs =
  f_bsize :: u32
  f_blocks :: u64
  f_bfree :: u64
  f_bavail :: u64
  f_files :: u64
  f_ffree :: u64

record fsqid =
  qtype :: u8
  qversion :: u32
  qpath :: u64

record fsstat =
  st_qid :: fsqid
  st_mode :: u32
  st_uid :: u32
  st_gid :: u32
  st_nlink :: u64
  st_rdev :: u64
  st_size :: u64
  st_blksize :: u64
  st_blocks :: u64
  st_atime_sec :: u64
  st_atime_nsec :: u32
  st_mtime_sec :: u64
  st_mtime_nsec :: u32
  st_ctime_sec :: u64
  st_ctime_nsec :: u32

record fslock =
  lock_type :: u8
  lock_flags :: u32
  lock_start :: u64
  lock_length :: u64
  lock_proc_id :: u32
  lock_client_id :: bytes

text \<open>
  Names are null-terminated byte arrays.  \<open>fs_readdir\<close>, \<open>fs_read\<close> and \<open>fs_readlink\<close> take the buffer
  and return it, filled or not.  \<open>fs_open\<close> with a positive result calls back later.
\<close>

record ('h, 'f) fs_ops =
  fs_delete :: "'h \<Rightarrow> ('f, unit) vm"
  fs_statfs :: "('f, fsstatfs) vm"
  fs_attach :: "u32 \<Rightarrow> bytes \<Rightarrow> bytes \<Rightarrow> ('f, int \<times> 'h \<times> fsqid) vm"
  fs_walk :: "'h \<Rightarrow> bytes list \<Rightarrow> ('f, int \<times> 'h \<times> fsqid list) vm"
  fs_mkdir :: "'h \<Rightarrow> bytes \<Rightarrow> u32 \<Rightarrow> u32 \<Rightarrow> ('f, int \<times> fsqid) vm"
  fs_open :: "'h \<Rightarrow> u32 \<Rightarrow> ('f, int \<times> fsqid) vm"
  fs_create :: "'h \<Rightarrow> bytes \<Rightarrow> u32 \<Rightarrow> u32 \<Rightarrow> u32 \<Rightarrow> ('f, int \<times> fsqid) vm"
  fs_stat :: "'h \<Rightarrow> ('f, int \<times> fsstat) vm"
  fs_setattr :: "'h \<Rightarrow> u32 \<Rightarrow> u32 \<Rightarrow> u32 \<Rightarrow> u32 \<Rightarrow> u64 \<Rightarrow> u64 \<Rightarrow> u64 \<Rightarrow> u64 \<Rightarrow> u64 \<Rightarrow> ('f, int) vm"
  fs_readdir :: "'h \<Rightarrow> u64 \<Rightarrow> bytes \<Rightarrow> int \<Rightarrow> ('f, int \<times> bytes) vm"
  fs_read :: "'h \<Rightarrow> u64 \<Rightarrow> bytes \<Rightarrow> int \<Rightarrow> ('f, int \<times> bytes) vm"
  fs_write :: "'h \<Rightarrow> u64 \<Rightarrow> bytes \<Rightarrow> int \<Rightarrow> ('f, int) vm"
  fs_link :: "'h \<Rightarrow> 'h \<Rightarrow> bytes \<Rightarrow> ('f, int) vm"
  fs_symlink :: "'h \<Rightarrow> bytes \<Rightarrow> bytes \<Rightarrow> u32 \<Rightarrow> ('f, int \<times> fsqid) vm"
  fs_mknod :: "'h \<Rightarrow> bytes \<Rightarrow> u32 \<Rightarrow> u32 \<Rightarrow> u32 \<Rightarrow> u32 \<Rightarrow> ('f, int \<times> fsqid) vm"
  fs_readlink :: "'h \<Rightarrow> bytes \<Rightarrow> int \<Rightarrow> ('f, int \<times> bytes) vm"
  fs_renameat :: "'h \<Rightarrow> bytes \<Rightarrow> 'h \<Rightarrow> bytes \<Rightarrow> ('f, int) vm"
  fs_unlinkat :: "'h \<Rightarrow> bytes \<Rightarrow> ('f, int) vm"
  fs_lock :: "'h \<Rightarrow> fslock \<Rightarrow> ('f, int) vm"
  fs_getlock :: "'h \<Rightarrow> fslock \<Rightarrow> ('f, int \<times> fslock) vm"

section \<open>Paths\<close>

abbreviation SLASH :: u8 where "SLASH \<equiv> 0x2f"

definition fs_dup :: "('h, 'f) fs_ops \<Rightarrow> 'h \<Rightarrow> ('f, 'h) vm" where
  "fs_dup fops f = bnd (fs_walk fops f []) (\<lambda>(_, f', _). ret f')"

lemma dropWhile_rest_shorter: "dropWhile P xs = y # ys \<Longrightarrow> length ys < length xs"
  using length_dropWhile_le [of P xs] by simp

text \<open>
  The loop of \<open>fs_walk_path1\<close>, on the characters of the path before the terminating null.
  \<open>want_name\<close>: whether \<open>pname\<close> is not \<open>NULL\<close>; the second component of the result is what is stored
  there.  One component is looked up per pass; the intermediate handles are deleted.
\<close>

function walk_path_loop ::
  "('h, 'f) fs_ops \<Rightarrow> bool \<Rightarrow> 'h \<Rightarrow> bytes \<Rightarrow> bool \<Rightarrow> ('f, 'h option \<times> bytes option) vm" where
  "walk_path_loop fops want_name f path is_first =
     (case dropWhile (\<lambda>c. c \<noteq> SLASH) path of
        [] \<Rightarrow>
          if want_name then
            (if is_first
             then bnd (fs_walk fops f []) (\<lambda>(r, f', _). ret (if r < 0 then None else Some f', Some path))
             else ret (Some f, Some path))
          else
            bnd (fs_walk fops f [path @ [0]]) (\<lambda>(r, f1, _).
            andthen (if is_first then ret () else fs_delete fops f)
            (if r \<le> 0 then andthen (fs_delete fops f1) (ret (None, None)) else ret (Some f1, None)))
      | _ # rest \<Rightarrow>
          bnd (fs_walk fops f [takeWhile (\<lambda>c. c \<noteq> SLASH) path @ [0]]) (\<lambda>(r, f1, _).
          andthen (if is_first then ret () else fs_delete fops f)
          (if r \<le> 0 then andthen (fs_delete fops f1) (ret (None, None))
           else walk_path_loop fops want_name f1 rest False)))"
  by pat_completeness auto
termination
  by (relation "measure (\<lambda>(_, _, _, path, _). length path)") (auto dest: dropWhile_rest_shorter)

declare walk_path_loop.simps [simp del]

definition fs_walk_path1 ::
  "('h, 'f) fs_ops \<Rightarrow> 'h \<Rightarrow> bytes \<Rightarrow> bool \<Rightarrow> ('f, 'h option \<times> bytes option) vm" where
  "fs_walk_path1 fops f path want_name =
     walk_path_loop fops want_name f (if take 1 path = [SLASH] then tl path else path) True"

definition fs_walk_path :: "('h, 'f) fs_ops \<Rightarrow> 'h \<Rightarrow> bytes \<Rightarrow> ('f, 'h option) vm" where
  "fs_walk_path fops f path = bnd (fs_walk_path1 fops f path False) (\<lambda>(f', _). ret f')"

end
