(* ===== verification/P9_Wire.thy ===== *)
theory P9_Wire
  imports Virtio_Regs Virtio_Chain Fs_Device
begin

text \<open>
  The message layer of the 9p device of \<open>src/src/virtio.c\<close>: its state, the table of file
  identifiers, and the functions \<open>marshall\<close> and \<open>unmarshall\<close> that write and read messages under a
  format string.
\<close>

unbundle bit_operations_syntax

section \<open>State\<close>

record ('m, 'h, 'f) virtio_9p_device = "'m virtio_device" +
  fs :: 'f
  msize :: int
  fid_list :: "(u32 \<times> 'h) list"
  p9_req_in_progress :: bool

type_synonym ('m, 'h, 'f, 'a) p9_vm = "(('m, 'h, 'f) virtio_9p_device, 'a) vm"

definition on_fs :: "('f, 'a) vm \<Rightarrow> ('m, 'h, 'f, 'a) p9_vm" where
  "on_fs = zoom fs (\<lambda>f s. s\<lparr>fs := f\<rparr>)"

section \<open>File identifiers\<close>

text \<open>
  The linked list of \<open>FIDDesc\<close>, first element first.  \<open>list_del\<close> takes out the element that was
  found, \<open>list_add\<close> puts a new one in front.
\<close>

fun fid_find1 :: "(u32 \<times> 'h) list \<Rightarrow> u32 \<Rightarrow> 'h option" where
  "fid_find1 [] fid = None"
| "fid_find1 ((k, h) # l) fid = (if k = fid then Some h else fid_find1 l fid)"

fun list_del_fid :: "u32 \<Rightarrow> (u32 \<times> 'h) list \<Rightarrow> (u32 \<times> 'h) list" where
  "list_del_fid fid [] = []"
| "list_del_fid fid ((k, h) # l) = (if k = fid then l else (k, h) # list_del_fid fid l)"

fun replace_fid :: "u32 \<Rightarrow> 'h \<Rightarrow> (u32 \<times> 'h) list \<Rightarrow> (u32 \<times> 'h) list" where
  "replace_fid fid h [] = []"
| "replace_fid fid h ((k, h') # l) = (if k = fid then (k, h) # l else (k, h') # replace_fid fid h l)"

definition fid_find :: "u32 \<Rightarrow> ('m, 'h, 'f, 'h option) p9_vm" where
  "fid_find fid = gets (\<lambda>s. fid_find1 (fid_list s) fid)"

definition fid_delete :: "('h, 'f) fs_ops \<Rightarrow> u32 \<Rightarrow> ('m, 'h, 'f, unit) p9_vm" where
  "fid_delete fops fid = bnd (gets (\<lambda>s. fid_find1 (fid_list s) fid)) (\<lambda>f. case f of
     None \<Rightarrow> ret ()
   | Some h \<Rightarrow> andthen (on_fs (fs_delete fops h))
       (modify (\<lambda>s. s\<lparr>fid_list := list_del_fid fid (fid_list s)\<rparr>)))"

definition fid_set :: "('h, 'f) fs_ops \<Rightarrow> u32 \<Rightarrow> 'h \<Rightarrow> ('m, 'h, 'f, unit) p9_vm" where
  "fid_set fops fid fd = bnd (gets (\<lambda>s. fid_find1 (fid_list s) fid)) (\<lambda>f. case f of
     Some h \<Rightarrow> andthen (on_fs (fs_delete fops h))
       (modify (\<lambda>s. s\<lparr>fid_list := replace_fid fid fd (fid_list s)\<rparr>))
   | None \<Rightarrow> modify (\<lambda>s. s\<lparr>fid_list := (fid, fd) # fid_list s\<rparr>))"

section \<open>Writing messages\<close>

text \<open>
  The variable arguments of \<open>marshall\<close>, by the C type the caller passes.  \<open>VPtr\<close> is a pointer passed
  where a number is expected: its value and the bytes found behind it.  \<open>va_high\<close> stands for the
  unspecified upper half \<open>va_arg\<close> finds when a \<open>uint64_t\<close> is fetched and an \<open>int\<close> was passed.
\<close>

datatype va_arg = VInt u32 | VLong u64 | VStr bytes | VQid fsqid | VPtr u64 bytes

fun va_int :: "va_arg \<Rightarrow> u32" where
  "va_int (VInt v) = v"
| "va_int (VLong v) = ucast v"
| "va_int (VPtr p _) = ucast p"
| "va_int (VStr _) = 0"
| "va_int (VQid _) = 0"

fun va_uint64 :: "u32 \<Rightarrow> va_arg \<Rightarrow> u64" where
  "va_uint64 va_high (VInt v) = ucast v OR push_bit 32 (ucast va_high)"
| "va_uint64 va_high (VLong v) = v"
| "va_uint64 va_high (VPtr p _) = p"
| "va_uint64 va_high (VStr _) = 0"
| "va_uint64 va_high (VQid _) = 0"

text \<open>
  One conversion: the bytes stored, or a failed assertion when fewer than that many are left.
  A string argument ends at its null byte.
\<close>

definition qid_bytes :: "fsqid \<Rightarrow> bytes" where
  "qid_bytes q = [qtype q] @ put_le32 (qversion q) @ put_le64 (qpath q)"

fun marshall_str :: "int \<Rightarrow> va_arg \<Rightarrow> fault + bytes" where
  "marshall_str space (VStr str) = (case strlen str of Inl f \<Rightarrow> Inl f
     | Inr len \<Rightarrow> if len \<le> 65535 \<and> 2 + int len \<le> space then Inr (put_le16 (of_nat len) @ take len str)
                else Inl AssertFail)"
| "marshall_str space (VPtr _ mem) = (case strlen mem of Inl f \<Rightarrow> Inl f
     | Inr len \<Rightarrow> if len \<le> 65535 \<and> 2 + int len \<le> space then Inr (put_le16 (of_nat len) @ take len mem)
                else Inl AssertFail)"
| "marshall_str space _ = Inl NullDeref"

fun marshall_qid :: "int \<Rightarrow> va_arg \<Rightarrow> fault + bytes" where
  "marshall_qid space (VQid q) = (if 13 \<le> space then Inr (qid_bytes q) else Inl AssertFail)"
| "marshall_qid space _ = Inl NullDeref"

definition marshall_one :: "u32 \<Rightarrow> int \<Rightarrow> char \<Rightarrow> va_arg \<Rightarrow> fault + bytes" where
  "marshall_one va_high space c a =
     (if c = CHR ''b'' then (if 1 \<le> space then Inr [ucast (va_int a)] else Inl AssertFail)
      else if c = CHR ''h'' then (if 2 \<le> space then Inr (put_le16 (ucast (va_int a))) else Inl AssertFail)
      else if c = CHR ''w'' then (if 4 \<le> space then Inr (put_le32 (va_int a)) else Inl AssertFail)
      else if c = CHR ''d'' then (if 8 \<le> space then Inr (put_le64 (va_uint64 va_high a)) else Inl AssertFail)
      else if c = CHR ''s'' then marshall_str space a
      else if c = CHR ''Q'' then marshall_qid space a
      else Inl Abort)"

text \<open>The result is the part of the buffer that was written; its length is the return value.\<close>

fun marshall :: "u32 \<Rightarrow> int \<Rightarrow> string \<Rightarrow> va_arg list \<Rightarrow> fault + bytes" where
  "marshall va_high space [] args = Inr []"
| "marshall va_high space (c # fmt) [] = Inl OutOfBounds"
| "marshall va_high space (c # fmt) (a # args) = (case marshall_one va_high space c a of Inl f \<Rightarrow> Inl f
     | Inr bs \<Rightarrow> (case marshall va_high (space - int (length bs)) fmt args of Inl f \<Rightarrow> Inl f
         | Inr rest \<Rightarrow> Inr (bs @ rest)))"

section \<open>Reading messages\<close>

text \<open>
  The variables \<open>unmarshall\<close> fills through its pointer arguments, in order: integers and freshly
  allocated strings.  \<open>None\<close> is the return value -1.
\<close>

datatype uval = UNum u64 | UStr bytes

definition uval_num :: "uval list \<Rightarrow> nat \<Rightarrow> 'a::len word" where
  "uval_num vs k = (case vs ! k of UNum v \<Rightarrow> ucast v | UStr _ \<Rightarrow> 0)"

definition uval_str :: "uval list \<Rightarrow> nat \<Rightarrow> bytes" where
  "uval_str vs k = (case vs ! k of UNum _ \<Rightarrow> [] | UStr str \<Rightarrow> str)"

text \<open>\<open>n\<close> bytes at \<open>offset\<close>, into a buffer of that size.\<close>

definition fetch :: "'m fmem_ops \<Rightarrow> (nat \<Rightarrow> u8) \<Rightarrow> nat \<Rightarrow> u16 \<Rightarrow> int \<Rightarrow> int \<Rightarrow> ('m, 'z, bytes option) dev_vm" where
  "fetch ops junk queue_idx desc_idx offset n =
     bnd (memcpy_from_queue ops (malloc junk n) queue_idx desc_idx offset n) (\<lambda>(r, buf).
     ret (if r \<noteq> 0 then None else Some buf))"

definition unmarshall_num ::
  "'m fmem_ops \<Rightarrow> (nat \<Rightarrow> u8) \<Rightarrow> nat \<Rightarrow> u16 \<Rightarrow> int \<Rightarrow> int \<Rightarrow> (bytes \<Rightarrow> u64) \<Rightarrow> ('m, 'z, (uval \<times> int) option) dev_vm" where
  "unmarshall_num ops junk queue_idx desc_idx offset n dec =
     bnd (fetch ops junk queue_idx desc_idx offset n) (\<lambda>r. case r of None \<Rightarrow> ret None
     | Some buf \<Rightarrow> bnd (cint (offset + n)) (\<lambda>offset'. ret (Some (UNum (dec buf), offset'))))"

definition unmarshall_str ::
  "'m fmem_ops \<Rightarrow> (nat \<Rightarrow> u8) \<Rightarrow> nat \<Rightarrow> u16 \<Rightarrow> int \<Rightarrow> ('m, 'z, (uval \<times> int) option) dev_vm" where
  "unmarshall_str ops junk queue_idx desc_idx offset =
     bnd (fetch ops junk queue_idx desc_idx offset 2) (\<lambda>r. case r of None \<Rightarrow> ret None
     | Some buf \<Rightarrow>
         let len = int (unat (get_le16 buf)) in
         bnd (cint (offset + 2)) (\<lambda>offset1.
         bnd (memcpy_from_queue ops (malloc junk (len + 1)) queue_idx desc_idx offset1 len) (\<lambda>(r, str).
         if r \<noteq> 0 then ret None
         else bnd (lift (poke str len [0])) (\<lambda>str.
           bnd (cint (offset1 + len)) (\<lambda>offset2. ret (Some (UStr str, offset2)))))))"

definition unmarshall_one ::
  "'m fmem_ops \<Rightarrow> (nat \<Rightarrow> u8) \<Rightarrow> nat \<Rightarrow> u16 \<Rightarrow> int \<Rightarrow> char \<Rightarrow> ('m, 'z, (uval \<times> int) option) dev_vm" where
  "unmarshall_one ops junk queue_idx desc_idx offset c =
     (if c = CHR ''b'' then unmarshall_num ops junk queue_idx desc_idx offset 1 (\<lambda>buf. ucast (buf ! 0))
      else if c = CHR ''h'' then unmarshall_num ops junk queue_idx desc_idx offset 2 (\<lambda>buf. ucast (get_le16 buf))
      else if c = CHR ''w'' then unmarshall_num ops junk queue_idx desc_idx offset 4 (\<lambda>buf. ucast (get_le32 buf))
      else if c = CHR ''d'' then unmarshall_num ops junk queue_idx desc_idx offset 8 get_le64
      else if c = CHR ''s'' then unmarshall_str ops junk queue_idx desc_idx offset
      else fault Abort)"

fun unmarshall ::
  "'m fmem_ops \<Rightarrow> (nat \<Rightarrow> u8) \<Rightarrow> nat \<Rightarrow> u16 \<Rightarrow> int \<Rightarrow> string \<Rightarrow> ('m, 'z, (uval list \<times> int) option) dev_vm" where
  "unmarshall ops junk queue_idx desc_idx offset [] = ret (Some ([], offset))"
| "unmarshall ops junk queue_idx desc_idx offset (c # fmt) =
     bnd (unmarshall_one ops junk queue_idx desc_idx offset c) (\<lambda>r. case r of None \<Rightarrow> ret None
     | Some (v, offset') \<Rightarrow>
         bnd (unmarshall ops junk queue_idx desc_idx offset' fmt) (\<lambda>r. case r of None \<Rightarrow> ret None
         | Some (vs, offset'') \<Rightarrow> ret (Some (v # vs, offset''))))"

section \<open>Replies\<close>

definition virtio_9p_send_reply ::
  "'m fmem_ops \<Rightarrow> nat \<Rightarrow> u16 \<Rightarrow> u8 \<Rightarrow> u16 \<Rightarrow> bytes \<Rightarrow> int \<Rightarrow> ('m, 'z, unit) dev_vm" where
  "virtio_9p_send_reply ops queue_idx desc_idx rid tag buf buf_len =
     bnd (cint (buf_len + 7)) (\<lambda>len.
     bnd (lift (peek buf 0 (nat buf_len))) (\<lambda>body.
     let buf1 = put_le32 (u32_of_int len) @ [rid + 1] @ put_le16 tag @ body in
     bnd (memcpy_to_queue ops queue_idx desc_idx 0 buf1 len) (\<lambda>_.
     virtio_consume_desc ops queue_idx desc_idx len)))"

definition virtio_9p_send_error ::
  "'m fmem_ops \<Rightarrow> u32 \<Rightarrow> nat \<Rightarrow> u16 \<Rightarrow> u16 \<Rightarrow> u32 \<Rightarrow> ('m, 'z, unit) dev_vm" where
  "virtio_9p_send_error ops va_high queue_idx desc_idx tag err =
     bnd (lift (marshall va_high 4 ''w'' [VInt (- err)])) (\<lambda>buf.
     virtio_9p_send_reply ops queue_idx desc_idx 6 tag buf (int (length buf)))"

section \<open>The table of file identifiers\<close>

text \<open>
  What the requests rely on: a finite map from identifiers to open files, with at most one entry for
  an identifier.
\<close>

locale fid_table =
  fixes find :: "'t \<Rightarrow> u32 \<Rightarrow> 'h option"
    and insert :: "u32 \<Rightarrow> 'h \<Rightarrow> 't \<Rightarrow> 't"
    and remove :: "u32 \<Rightarrow> 't \<Rightarrow> 't"
    and entries :: "'t \<Rightarrow> nat"
    and ok :: "'t \<Rightarrow> bool"
  assumes ok_insert: "ok t \<Longrightarrow> ok (insert k h t)"
    and ok_remove: "ok t \<Longrightarrow> ok (remove k t)"
    and find_insert: "ok t \<Longrightarrow> find (insert k h t) = (find t)(k \<mapsto> h)"
    and find_remove: "ok t \<Longrightarrow> find (remove k t) = (find t)(k := None)"
    and entries_insert: "ok t \<Longrightarrow> entries (insert k h t) = entries t + (if find t k = None then 1 else 0)"
    and entries_remove: "ok t \<Longrightarrow> entries (remove k t) = entries t - (if find t k = None then 0 else 1)"
begin

lemma insert_remove: "ok t \<Longrightarrow> find (remove k (insert k h t)) = (find t)(k := None)"
  by (simp add: find_insert find_remove ok_insert)

lemma insert_insert: "ok t \<Longrightarrow> find (insert k h (insert k h' t)) = find (insert k h t)"
  by (simp add: find_insert ok_insert)

lemma remove_absent: "ok t \<Longrightarrow> find t k = None \<Longrightarrow> find (remove k t) = find t \<and> entries (remove k t) = entries t"
  by (auto simp: find_remove entries_remove)

end

definition fids_ok :: "(u32 \<times> 'h) list \<Rightarrow> bool" where
  "fids_ok l \<longleftrightarrow> distinct (map fst l)"

definition fids_insert :: "u32 \<Rightarrow> 'h \<Rightarrow> (u32 \<times> 'h) list \<Rightarrow> (u32 \<times> 'h) list" where
  "fids_insert fid h l = (if fid_find1 l fid = None then (fid, h) # l else replace_fid fid h l)"

lemma fid_find1_map_of: "fid_find1 l = map_of l"
proof
  fix k
  show "fid_find1 l k = map_of l k" by (induction l k rule: fid_find1.induct) auto
qed

lemma replace_fid_keys [simp]: "map fst (replace_fid k h l) = map fst l"
  by (induction k h l rule: replace_fid.induct) auto

lemma map_of_replace_fid: "k \<in> fst ` set l \<Longrightarrow> map_of (replace_fid k h l) = (map_of l)(k \<mapsto> h)"
  by (induction k h l rule: replace_fid.induct) (force simp: fun_upd_twist)+

lemma length_replace_fid [simp]: "length (replace_fid k h l) = length l"
  by (induction k h l rule: replace_fid.induct) auto

lemma list_del_fid_filter: "distinct (map fst l) \<Longrightarrow> list_del_fid k l = filter (\<lambda>p. fst p \<noteq> k) l"
proof (induction k l rule: list_del_fid.induct)
  case (2 fid k h l)
  show ?case
  proof (cases "k = fid")
    case True
    then have "\<forall>p \<in> set l. fst p \<noteq> fid" using 2(2) by force
    then have "filter (\<lambda>p. fst p \<noteq> fid) l = l" by (simp add: filter_id_conv)
    with True show ?thesis by simp
  next
    case False
    with 2 show ?thesis by simp
  qed
qed simp

lemma distinct_map_filter_keys: "distinct (map fst l) \<Longrightarrow> distinct (map fst (filter P l))"
  by (rule distinct_map_filter)

lemma map_of_del_fid: "distinct (map fst l) \<Longrightarrow> map_of (list_del_fid k l) = (map_of l)(k := None)"
proof
  fix k'
  assume d: "distinct (map fst l)"
  show "map_of (list_del_fid k l) k' = ((map_of l)(k := None)) k'"
    unfolding list_del_fid_filter [OF d] by (induction l) auto
qed

lemma length_del_fid: "length (list_del_fid k l) = length l - (if k \<in> fst ` set l then 1 else 0)"
  by (induction k l rule: list_del_fid.induct) (auto simp: Suc_diff_le dest: length_pos_if_in_set)

interpretation fids: fid_table fid_find1 fids_insert list_del_fid length fids_ok
proof
  fix t :: "(u32 \<times> 'h) list" and k h
  assume ok: "fids_ok t"
  then have d: "distinct (map fst t)" by (simp add: fids_ok_def)
  show "fids_ok (fids_insert k h t)"
    using d by (auto simp: fids_ok_def fids_insert_def fid_find1_map_of map_of_eq_None_iff)
  show "fids_ok (list_del_fid k t)"
    using d by (simp add: fids_ok_def list_del_fid_filter distinct_map_filter)
  show "fid_find1 (fids_insert k h t) = (fid_find1 t)(k \<mapsto> h)"
    by (auto simp: fids_insert_def fid_find1_map_of map_of_eq_None_iff map_of_replace_fid)
  show "fid_find1 (list_del_fid k t) = (fid_find1 t)(k := None)"
    using d by (simp add: fid_find1_map_of map_of_del_fid)
  show "length (fids_insert k h t) = length t + (if fid_find1 t k = None then 1 else 0)"
    by (simp add: fids_insert_def)
  show "length (list_del_fid k t) = length t - (if fid_find1 t k = None then 0 else 1)"
    by (simp add: length_del_fid fid_find1_map_of map_of_eq_None_iff)
qed

text \<open>
  \<open>fid_set\<close> and \<open>fid_delete\<close> implement the two updates; the file of an entry that goes away is
  deleted exactly once, before the table changes.
\<close>

lemma on_fs_run: "m (fs s) = Some (Inr (a, f)) \<Longrightarrow> on_fs m s = Some (Inr (a, s\<lparr>fs := f\<rparr>))"
  by (simp add: on_fs_def zoom_run)

lemma fid_set_run:
  assumes "case fid_find1 (fid_list s) fid of None \<Rightarrow> f = fs s
     | Some h \<Rightarrow> fs_delete fops h (fs s) = Some (Inr ((), f))"
  shows "fid_set fops fid fd s = Some (Inr ((), s\<lparr>fs := f, fid_list := fids_insert fid fd (fid_list s)\<rparr>))"
  using assms
  by (cases "fid_find1 (fid_list s) fid")
    (simp_all add: fid_set_def bnd_run andthen_run on_fs_run fids_insert_def)

lemma del_fid_absent: "fid_find1 l k = None \<Longrightarrow> list_del_fid k l = l"
  by (induction l k rule: fid_find1.induct) (auto split: if_splits)

lemma fid_delete_run:
  assumes "case fid_find1 (fid_list s) fid of None \<Rightarrow> f = fs s
     | Some h \<Rightarrow> fs_delete fops h (fs s) = Some (Inr ((), f))"
  shows "fid_delete fops fid s = Some (Inr ((), s\<lparr>fs := f, fid_list := list_del_fid fid (fid_list s)\<rparr>))"
  using assms del_fid_absent [of "fid_list s" fid]
  by (cases "fid_find1 (fid_list s) fid") (simp_all add: fid_delete_def bnd_run andthen_run on_fs_run)

section \<open>What reading a message returns\<close>

text \<open>
  The format as a pure parser of the bytes the guest sent: \<open>parse bs off fmt\<close> reads at \<open>off\<close> and
  returns the values and the next offset.
\<close>

definition parse_num :: "nat \<Rightarrow> (bytes \<Rightarrow> u64) \<Rightarrow> bytes \<Rightarrow> nat \<Rightarrow> (uval \<times> nat) option" where
  "parse_num n dec bs off =
     (if off + n \<le> length bs then Some (UNum (dec (take n (drop off bs))), off + n) else None)"

definition parse_str :: "bytes \<Rightarrow> nat \<Rightarrow> (uval \<times> nat) option" where
  "parse_str bs off =
     (if off + 2 \<le> length bs
      then let len = unat (get_le16 (take 2 (drop off bs))) in
           if off + 2 + len \<le> length bs then Some (UStr (take len (drop (off + 2) bs) @ [0]), off + 2 + len) else None
      else None)"

definition parse_one :: "bytes \<Rightarrow> nat \<Rightarrow> char \<Rightarrow> (uval \<times> nat) option" where
  "parse_one bs off c =
     (if c = CHR ''b'' then parse_num 1 (\<lambda>b. ucast (b ! 0)) bs off
      else if c = CHR ''h'' then parse_num 2 (\<lambda>b. ucast (get_le16 b)) bs off
      else if c = CHR ''w'' then parse_num 4 (\<lambda>b. ucast (get_le32 b)) bs off
      else if c = CHR ''d'' then parse_num 8 get_le64 bs off
      else parse_str bs off)"

fun parse :: "bytes \<Rightarrow> nat \<Rightarrow> string \<Rightarrow> (uval list \<times> nat) option" where
  "parse bs off [] = Some ([], off)"
| "parse bs off (c # fmt) = (case parse_one bs off c of None \<Rightarrow> None
     | Some (v, off') \<Rightarrow> (case parse bs off' fmt of None \<Rightarrow> None | Some (vs, off'') \<Rightarrow> Some (v # vs, off'')))"

definition read_format :: "string \<Rightarrow> bool" where
  "read_format fmt \<longleftrightarrow> set fmt \<subseteq> set ''bhwds''"

lemma fetch_run:
  assumes rq: "request ops mem q i ds s" and len: "length (sent mem ds s) < 2147483648"
    and "off < 2147483648" and "0 < n" "n < 2147483648"
  shows "fetch ops junk q i (int off) (int n) s =
    Some (Inr (if off + n \<le> length (sent mem ds s) then Some (take n (drop off (sent mem ds s))) else None, s))"
proof -
  let ?A = "desc_addrs (readable ds)"
  have l: "length ?A = length (sent mem ds s)" by (simp add: sent_def)
  have "memcpy_from_queue ops (malloc junk (int n)) q i (int off) (int n) s =
      Some (Inr ((if n = 0 \<or> off + n \<le> length ?A then 0 else - 1,
        blit (malloc junk (int n)) 0 (map (mem (dma s)) (take n (drop off ?A)))), s))"
    using assms by (intro memcpy_from_queue_run) (auto simp: request_def)
  moreover have "blit (malloc junk (int n)) 0 (take n (drop off (sent mem ds s))) = take n (drop off (sent mem ds s))"
    if "off + n \<le> length (sent mem ds s)"
    using that by (intro blit_0_full) simp
  moreover have "map (mem (dma s)) (take n (drop off ?A)) = take n (drop off (sent mem ds s))"
    by (simp add: sent_def take_map drop_map)
  ultimately show ?thesis using assms(4) by (simp add: fetch_def bnd_run l)
qed

lemma unmarshall_num_run:
  assumes rq: "request ops mem q i ds s" and len: "length (sent mem ds s) < 2147483648"
    and "off < 2147483648" and "0 < n" "n < 2147483648"
  shows "unmarshall_num ops junk q i (int off) (int n) dec s =
    Some (Inr (map_option (map_prod (\<lambda>v. v) int) (parse_num n dec (sent mem ds s) off), s))"
  using fetch_run [OF assms, of junk] len
  by (simp add: unmarshall_num_def bnd_run parse_num_def cint_def int_in_range_def)

lemma unmarshall_str_run:
  assumes rq: "request ops mem q i ds s" and len: "length (sent mem ds s) < 2147483648"
    and off: "off < 2147483648"
  shows "unmarshall_str ops junk q i (int off) s =
    Some (Inr (map_option (map_prod (\<lambda>v. v) int) (parse_str (sent mem ds s) off), s))"
proof (cases "off + 2 \<le> length (sent mem ds s)")
  case True
  let ?S = "sent mem ds s" and ?A = "desc_addrs (readable ds)"
  define n where "n = unat (get_le16 (take 2 (drop off ?S)))"
  have n: "n < 65536" using unsigned_less [of "get_le16 (take 2 (drop off ?S))", where ?'a = nat] by (simp add: n_def)
  have l: "length ?A = length ?S" by (simp add: sent_def)
  have ft: "fetch ops junk q i (int off) 2 s = Some (Inr (Some (take 2 (drop off ?S)), s))"
    using fetch_run [OF rq len off, of 2 junk] True by simp
  have "memcpy_from_queue ops (malloc junk (int n + 1)) q i (int (off + 2)) (int n) s =
      Some (Inr ((if n = 0 \<or> off + 2 + n \<le> length ?A then 0 else - 1,
        blit (malloc junk (int n + 1)) 0 (map (mem (dma s)) (take n (drop (off + 2) ?A)))), s))"
    using rq n True len by (intro memcpy_from_queue_run) (auto simp: request_def)
  moreover have "map (mem (dma s)) (take n (drop (off + 2) ?A)) = take n (drop (off + 2) ?S)"
    by (simp add: sent_def take_map drop_map)
  ultimately have rd: "memcpy_from_queue ops (malloc junk (int n + 1)) q i (int off + 2) (int n) s =
      Some (Inr ((if off + 2 + n \<le> length ?S then 0 else - 1,
        blit (malloc junk (int n + 1)) 0 (take n (drop (off + 2) ?S))), s))"
    using True l by (auto simp: add.commute)
  have z: "poke (blit (malloc junk (int n + 1)) 0 (take n (drop (off + 2) ?S))) (int n) [0] =
      Inr (take n (drop (off + 2) ?S) @ [0])" if "off + 2 + n \<le> length ?S"
  proof -
    let ?b = "blit (malloc junk (int n + 1)) 0 (take n (drop (off + 2) ?S))"
    have "nat (int n + 1) = n + 1" by simp
    then have "length ?b = n + 1" using that by simp
    moreover have "take n ?b = take n (drop (off + 2) ?S)" using that by (simp add: blit_def)
    ultimately show ?thesis using poke_nat [of n "[0]" ?b] by (simp add: blit_def)
  qed
  show ?thesis
  proof (cases "off + 2 + n \<le> length ?S")
    case fits: True
    then show ?thesis using ft rd z [OF fits] True len
      by (simp add: unmarshall_str_def bnd_run n_def [symmetric] parse_str_def cint_def int_in_range_def Let_def)
  next
    case short: False
    then show ?thesis using ft rd True len
      by (simp add: unmarshall_str_def bnd_run n_def [symmetric] parse_str_def cint_def int_in_range_def Let_def)
  qed
next
  case False
  then show ?thesis
    using fetch_run [OF rq len off, of 2 junk] by (simp add: unmarshall_str_def bnd_run parse_str_def)
qed

lemma parse_one_bound: "parse_one bs off c = Some (v, off') \<Longrightarrow> off' \<le> length bs"
  by (auto simp: parse_one_def parse_num_def parse_str_def Let_def split: if_splits)

text \<open>Reading a message of the guest is parsing the bytes it sent.\<close>

lemma unmarshall_one_run:
  assumes rq: "request ops mem q i ds s" and len: "length (sent mem ds s) < 2147483648"
    and off: "off < 2147483648" and c: "c \<in> set ''bhwds''"
  shows "unmarshall_one ops junk q i (int off) c s =
    Some (Inr (map_option (map_prod (\<lambda>v. v) int) (parse_one (sent mem ds s) off c), s))"
  using c unmarshall_num_run [OF rq len off, of 1] unmarshall_num_run [OF rq len off, of 2]
    unmarshall_num_run [OF rq len off, of 4] unmarshall_num_run [OF rq len off, of 8]
    unmarshall_str_run [OF rq len off]
  by (auto simp: unmarshall_one_def parse_one_def)

lemma unmarshall_run:
  assumes rq: "request ops mem q i ds s" and len: "length (sent mem ds s) < 2147483648"
    and "read_format fmt" and "off \<le> length (sent mem ds s)"
  shows "unmarshall ops junk q i (int off) fmt s =
    Some (Inr (map_option (map_prod (\<lambda>v. v) int) (parse (sent mem ds s) off fmt), s))"
  using assms(3,4)
proof (induction fmt arbitrary: off)
  case Nil
  then show ?case by simp
next
  case (Cons c fmt)
  have one: "unmarshall_one ops junk q i (int off) c s =
      Some (Inr (map_option (map_prod (\<lambda>v. v) int) (parse_one (sent mem ds s) off c), s))"
    using Cons.prems len by (intro unmarshall_one_run [OF rq len]) (auto simp: read_format_def)
  show ?case
  proof (cases "parse_one (sent mem ds s) off c")
    case None
    with one show ?thesis by (simp add: bnd_run)
  next
    case (Some p)
    then obtain v off' where p: "parse_one (sent mem ds s) off c = Some (v, off')" by (cases p) simp
    then have "unmarshall ops junk q i (int off') fmt s =
        Some (Inr (map_option (map_prod (\<lambda>v. v) int) (parse (sent mem ds s) off' fmt), s))"
      using Cons parse_one_bound [OF p] by (simp add: read_format_def)
    with one p show ?thesis by (simp add: bnd_run split: option.splits)
  qed
qed

section \<open>Round trip\<close>

text \<open>What the reader makes of an argument of the writer, for the formats both know.\<close>

fun va_str :: "va_arg \<Rightarrow> bytes" where
  "va_str (VStr str) = cstr str"
| "va_str (VPtr _ mem) = cstr mem"
| "va_str _ = []"

definition uval_of :: "u32 \<Rightarrow> char \<Rightarrow> va_arg \<Rightarrow> uval" where
  "uval_of vh c a =
     (if c = CHR ''b'' then UNum (ucast (ucast (va_int a) :: u8))
      else if c = CHR ''h'' then UNum (ucast (ucast (va_int a) :: u16))
      else if c = CHR ''w'' then UNum (ucast (va_int a))
      else if c = CHR ''d'' then UNum (va_uint64 vh a)
      else UStr (va_str a @ [0]))"

lemma marshall_str_bytes:
  assumes "marshall_str space a = Inr bs"
  shows "bs = put_le16 (of_nat (length (va_str a))) @ va_str a \<and> length (va_str a) \<le> 65535 \<and> int (length bs) \<le> space"
proof -
  have "take (length (cstr p)) p = cstr p" for p :: bytes
    by (simp add: cstr_def takeWhile_eq_take [symmetric])
  then show ?thesis using assms
    by (cases a) (auto simp: strlen_def le16.enc_length split: if_splits sum.splits)
qed

lemma marshall_one_fits: "marshall_one vh space c a = Inr bs \<Longrightarrow> int (length bs) \<le> space"
  by (auto simp: marshall_one_def le16.enc_length le32.enc_length le64.enc_length qid_bytes_def
      dest: marshall_str_bytes split: if_splits elim!: marshall_qid.elims)

text \<open>A message never exceeds the buffer it is written to.\<close>

lemma marshall_fits: "0 \<le> space \<Longrightarrow> marshall vh space fmt args = Inr bs \<Longrightarrow> int (length bs) \<le> space"
proof (induction vh space fmt args arbitrary: bs rule: marshall.induct)
  case (3 vh space c fmt a args)
  then show ?case using marshall_one_fits [of vh space c a]
    by (fastforce split: sum.splits)
qed auto

lemma parse_one_marshall:
  assumes m: "marshall_one vh space c a = Inr bs" and c: "c \<in> set ''bhwds''"
  shows "parse_one (pre @ bs @ post) (length pre) c = Some (uval_of vh c a, length pre + length bs)"
proof (cases "c = CHR ''s''")
  case True
  then have "marshall_str space a = Inr bs" using m by (simp add: marshall_one_def)
  then have bs: "bs = put_le16 (of_nat (length (va_str a))) @ va_str a" and n: "length (va_str a) \<le> 65535"
    using marshall_str_bytes by blast+
  have "get_le16 (put_le16 w) = w" for w using le16.dec_enc [of w "[]"] by simp
  moreover have "unat (of_nat (length (va_str a)) :: u16) = length (va_str a)"
    using n by (simp add: unat_of_nat)
  ultimately have "parse_str (pre @ bs @ post) (length pre) = Some (UStr (va_str a @ [0]), length pre + length bs)"
    by (simp add: parse_str_def bs le16.enc_length)
  then show ?thesis using True by (simp add: parse_one_def uval_of_def)
next
  case False
  have "get_le16 (put_le16 u) = u" "get_le32 (put_le32 v) = v" "get_le64 (put_le64 w) = w" for u v w
    using le16.dec_enc [of u "[]"] le32.dec_enc [of v "[]"] le64.dec_enc [of w "[]"] by simp_all
  then show ?thesis using m c False
    by (auto simp: parse_one_def marshall_one_def parse_num_def uval_of_def
        le16.enc_length le32.enc_length le64.enc_length split: if_splits)
qed

lemma parse_marshall:
  assumes "marshall vh space fmt args = Inr bs" and "read_format fmt"
  shows "parse (pre @ bs @ post) (length pre) fmt = Some (map2 (uval_of vh) fmt args, length pre + length bs)"
  using assms
proof (induction vh space fmt args arbitrary: bs pre rule: marshall.induct)
  case (3 vh space c fmt a args)
  obtain b1 where b1: "marshall_one vh space c a = Inr b1" using 3(2) by (auto split: sum.splits)
  obtain b2 where b2: "marshall vh (space - int (length b1)) fmt args = Inr b2" "bs = b1 @ b2"
    using 3(2) b1 by (auto split: sum.splits)
  have "parse_one (pre @ bs @ post) (length pre) c = Some (uval_of vh c a, length pre + length b1)"
    using parse_one_marshall [OF b1, of pre "b2 @ post"] 3(3) b2(2) by (simp add: read_format_def)
  moreover have "parse ((pre @ b1) @ b2 @ post) (length (pre @ b1)) fmt =
      Some (map2 (uval_of vh) fmt args, length (pre @ b1) + length b2)"
    using b1 b2(1) 3(3) by (intro 3(1)) (auto simp: read_format_def)
  ultimately show ?case using b2(2) by simp
qed auto

section \<open>What a reply writes\<close>

definition message :: "u8 \<Rightarrow> u16 \<Rightarrow> bytes \<Rightarrow> bytes" where
  "message rid tag body = put_le32 (of_nat (length body + 7)) @ [rid] @ put_le16 tag @ body"

lemma length_message [simp]: "length (message rid tag body) = length body + 7"
  by (simp add: message_def le32.enc_length le16.enc_length)

lemma send_reply_run:
  assumes rq: "request ops mem q i ds s" and fits: "length body + 7 \<le> length (desc_addrs (writable ds))"
    and "length body + 7 < 2147483648"
    and dis: "set (desc_addrs (writable ds)) \<inter> table (desc_addr (queue s ! q)) ds = {}"
    and body: "body = take n buf" "n \<le> length buf"
  shows "\<exists>m. virtio_9p_send_reply ops q i rid tag buf (int n) s =
      Some (Inr ((), s\<lparr>dma := m, int_status := int_status s OR 1, irq := 1\<rparr>))
    \<and> mem m = used_push (write_list (mem (dma s)) (zip (desc_addrs (writable ds)) (message (rid + 1) tag body)))
        (used_addr (queue s ! q)) (num (queue s ! q)) i (int (length body + 7))"
proof -
  let ?W = "desc_addrs (writable ds)" and ?b = "message (rid + 1) tag body"
  have n: "length body = n" using body by simp
  have "set (take (length ?b) ?W) \<inter> table (desc_addr (queue s ! q)) ds = {}"
    using dis set_take_subset [of "length ?b" ?W] by blast
  then obtain m where m: "bnd (memcpy_to_queue ops q i 0 ?b (int (length ?b))) (\<lambda>_. virtio_consume_desc ops q i (int n + 7)) s =
      Some (Inr ((), s\<lparr>dma := m, int_status := int_status s OR 1, irq := 1\<rparr>))"
    "mem m = used_push (write_list (mem (dma s)) (zip ?W ?b)) (used_addr (queue s ! q)) (num (queue s ! q)) i (int n + 7)"
    using request_reply [OF rq, of ?b "int n + 7"] fits assms(3) by auto
  have "u32_of_int (int n + 7) = of_nat (n + 7)" by (simp add: u32_of_int_def)
  then have "put_le32 (u32_of_int (int n + 7)) @ [rid + 1] @ put_le16 tag @ body = ?b"
    by (simp add: message_def n)
  moreover have "peek buf 0 n = Inr body" using body peek_nat [of 0 n buf] by simp
  moreover have "int (length ?b) = int n + 7" by (simp add: n)
  moreover have "cint (int n + 7) s = Some (Inr (int n + 7, s))"
    using assms(3) n by (simp add: cint_run int_in_range_def)
  ultimately have "virtio_9p_send_reply ops q i rid tag buf (int n) s =
      Some (Inr ((), s\<lparr>dma := m, int_status := int_status s OR 1, irq := 1\<rparr>))"
    using m(1) by (simp add: virtio_9p_send_reply_def bnd_run Let_def)
  with m(2) n show ?thesis by (intro exI [of _ m]) (simp add: add.commute)
qed

lemma send_error_run:
  assumes rq: "request ops mem q i ds s" and fits: "11 \<le> length (desc_addrs (writable ds))"
    and dis: "set (desc_addrs (writable ds)) \<inter> table (desc_addr (queue s ! q)) ds = {}"
  shows "\<exists>m. virtio_9p_send_error ops vh q i tag err s =
      Some (Inr ((), s\<lparr>dma := m, int_status := int_status s OR 1, irq := 1\<rparr>))
    \<and> mem m = used_push (write_list (mem (dma s)) (zip (desc_addrs (writable ds)) (message 7 tag (put_le32 (- err)))))
        (used_addr (queue s ! q)) (num (queue s ! q)) i 11"
  using send_reply_run [OF rq, of "put_le32 (- err)" 4 "put_le32 (- err)" 6 tag] fits dis
  by (simp add: virtio_9p_send_error_def marshall_one_def bnd_run le32.enc_length)

end
