(* ===== verification/Virtio_9P.thy ===== *)
theory Virtio_9P
  imports P9_Wire
begin

text \<open>
  The requests of the 9p device of \<open>src/src/virtio.c\<close>: one definition per case of the switch in
  \<open>virtio_9p_recv_request\<close>, the dispatcher, the completion of an asynchronous open, and the
  initialisation.
\<close>

unbundle bit_operations_syntax

section \<open>Requests\<close>

text \<open>
  What the host supplies: the contents of fresh memory (\<open>junk\<close>), the upper half of a variable
  argument passed too narrow (\<open>va_high\<close>), and, for the getlock reply, the addresses of the members
  of the \<open>FSLock\<close> on the stack with the bytes behind \<open>&lock.client_id\<close>.
\<close>

record p9_host =
  junk :: "nat \<Rightarrow> u8"
  va_high :: u32
  lock_type_ptr :: u64
  lock_start_ptr :: u64
  lock_length_ptr :: u64
  lock_proc_id_ptr :: u64
  lock_client_id_mem :: bytes

text \<open>How a case ends: its reply is sent (or will be, after an open), or it jumps to \<open>error\<close>.\<close>

datatype p9_outcome = Sent | Error int

abbreviation protocol_error :: "('m, 'h, 'f, p9_outcome) p9_vm" where
  "protocol_error \<equiv> ret (Error (- P9_EPROTO))"

type_synonym ('m, 'h, 'f) p9_handler =
  "'m fmem_ops \<Rightarrow> ('h, 'f) fs_ops \<Rightarrow> p9_host \<Rightarrow> nat \<Rightarrow> u16 \<Rightarrow> u8 \<Rightarrow> u16 \<Rightarrow> int \<Rightarrow> ('m, 'h, 'f, p9_outcome) p9_vm"

text \<open>\<open>unmarshall\<close> with its early exit.\<close>

definition with_args ::
  "'m fmem_ops \<Rightarrow> p9_host \<Rightarrow> nat \<Rightarrow> u16 \<Rightarrow> int \<Rightarrow> string \<Rightarrow> (uval list \<Rightarrow> int \<Rightarrow> ('m, 'h, 'f, p9_outcome) p9_vm) \<Rightarrow>
   ('m, 'h, 'f, p9_outcome) p9_vm" where
  "with_args ops hst queue_idx desc_idx offset fmt k =
     bnd (unmarshall ops (junk hst) queue_idx desc_idx offset fmt) (\<lambda>r. case r of
       None \<Rightarrow> protocol_error
     | Some (vs, offset') \<Rightarrow> k vs offset')"

definition with_fid :: "u32 \<Rightarrow> ('h \<Rightarrow> ('m, 'h, 'f, p9_outcome) p9_vm) \<Rightarrow> ('m, 'h, 'f, p9_outcome) p9_vm" where
  "with_fid fid k = bnd (fid_find fid) (\<lambda>f. case f of None \<Rightarrow> protocol_error | Some h \<Rightarrow> k h)"

text \<open>\<open>marshall\<close> into the 1024-byte buffer of the handler, then \<open>virtio_9p_send_reply\<close>.\<close>

definition reply ::
  "'m fmem_ops \<Rightarrow> p9_host \<Rightarrow> nat \<Rightarrow> u16 \<Rightarrow> u8 \<Rightarrow> u16 \<Rightarrow> string \<Rightarrow> va_arg list \<Rightarrow> ('m, 'h, 'f, p9_outcome) p9_vm" where
  "reply ops hst queue_idx desc_idx rid tag fmt args =
     bnd (lift (marshall (va_high hst) 1024 fmt args)) (\<lambda>buf.
     andthen (virtio_9p_send_reply ops queue_idx desc_idx rid tag buf (int (length buf))) (ret Sent))"

text \<open>A reply of \<open>buf_len\<close> bytes of a buffer the case has built itself.\<close>

definition reply_raw ::
  "'m fmem_ops \<Rightarrow> nat \<Rightarrow> u16 \<Rightarrow> u8 \<Rightarrow> u16 \<Rightarrow> bytes \<Rightarrow> int \<Rightarrow> ('m, 'h, 'f, p9_outcome) p9_vm" where
  "reply_raw ops queue_idx desc_idx rid tag buf buf_len =
     andthen (virtio_9p_send_reply ops queue_idx desc_idx rid tag buf buf_len) (ret Sent)"

definition virtio_9p_statfs :: "('m, 'h, 'f) p9_handler" where
  "virtio_9p_statfs ops fops hst queue_idx desc_idx rid tag offset =
     bnd (on_fs (fs_statfs fops)) (\<lambda>st.
     reply ops hst queue_idx desc_idx rid tag ''wwddddddw''
       [VInt 0, VInt (f_bsize st), VLong (f_blocks st), VLong (f_bfree st), VLong (f_bavail st),
        VLong (f_files st), VLong (f_ffree st), VInt 0, VInt 256])"

text \<open>\<open>P9OpenInfo\<close>, and the reply to an open, sent at once or by the completion call.\<close>

record p9_open_info =
  oi_queue_idx :: nat
  oi_desc_idx :: u16
  oi_tag :: u16

definition virtio_9p_open_reply ::
  "'m fmem_ops \<Rightarrow> p9_host \<Rightarrow> fsqid \<Rightarrow> int \<Rightarrow> p9_open_info \<Rightarrow> ('m, 'h, 'f, unit) p9_vm" where
  "virtio_9p_open_reply ops hst qid err oi =
     (if err < 0 then
        virtio_9p_send_error ops (va_high hst) (oi_queue_idx oi) (oi_desc_idx oi) (oi_tag oi) (u32_of_int err)
      else
        bnd (gets msize) (\<lambda>msize. bnd (cint (msize - 24)) (\<lambda>iounit.
        bnd (lift (marshall (va_high hst) 32 ''Qw'' [VQid qid, VInt (u32_of_int iounit)])) (\<lambda>buf.
        virtio_9p_send_reply ops (oi_queue_idx oi) (oi_desc_idx oi) 12 (oi_tag oi) buf (int (length buf))))))"

definition virtio_9p_lopen :: "('m, 'h, 'f) p9_handler" where
  "virtio_9p_lopen ops fops hst queue_idx desc_idx rid tag offset =
     with_args ops hst queue_idx desc_idx offset ''ww'' (\<lambda>vs _.
     let fid = uval_num vs 0; flags = uval_num vs 1 in
     with_fid fid (\<lambda>f.
     let oi = \<lparr>oi_queue_idx = queue_idx, oi_desc_idx = desc_idx, oi_tag = tag\<rparr> in
     bnd (on_fs (fs_open fops f flags)) (\<lambda>(err, qid).
     andthen
       (if err \<le> 0 then virtio_9p_open_reply ops hst qid err oi
        else modify (\<lambda>s. s\<lparr>p9_req_in_progress := True\<rparr>))
       (ret Sent))))"

text \<open>
  An unknown identifier sets \<open>err\<close> to \<open>-P9_EPROTO\<close> here instead of jumping to \<open>fid_not_found\<close>; after
  the strings are freed both ways meet at \<open>error\<close>.
\<close>

definition virtio_9p_lcreate :: "('m, 'h, 'f) p9_handler" where
  "virtio_9p_lcreate ops fops hst queue_idx desc_idx rid tag offset =
     with_args ops hst queue_idx desc_idx offset ''wswww'' (\<lambda>vs _.
     let fid = uval_num vs 0; name = uval_str vs 1; flags = uval_num vs 2; mode = uval_num vs 3; gid = uval_num vs 4 in
     with_fid fid (\<lambda>f.
     bnd (on_fs (fs_create fops f name flags mode gid)) (\<lambda>(err, qid).
     if err \<noteq> 0 then ret (Error err)
     else bnd (gets msize) (\<lambda>msize. bnd (cint (msize - 24)) (\<lambda>iounit.
       reply ops hst queue_idx desc_idx rid tag ''Qw'' [VQid qid, VInt (u32_of_int iounit)])))))"

definition virtio_9p_symlink :: "('m, 'h, 'f) p9_handler" where
  "virtio_9p_symlink ops fops hst queue_idx desc_idx rid tag offset =
     with_args ops hst queue_idx desc_idx offset ''wssw'' (\<lambda>vs _.
     let fid = uval_num vs 0; name = uval_str vs 1; symgt = uval_str vs 2; gid = uval_num vs 3 in
     with_fid fid (\<lambda>f.
     bnd (on_fs (fs_symlink fops f name symgt gid)) (\<lambda>(err, qid).
     if err \<noteq> 0 then ret (Error err)
     else reply ops hst queue_idx desc_idx rid tag ''Q'' [VQid qid])))"

definition virtio_9p_mknod :: "('m, 'h, 'f) p9_handler" where
  "virtio_9p_mknod ops fops hst queue_idx desc_idx rid tag offset =
     with_args ops hst queue_idx desc_idx offset ''wswwww'' (\<lambda>vs _.
     let fid = uval_num vs 0; name = uval_str vs 1; mode = uval_num vs 2; major = uval_num vs 3;
         minor = uval_num vs 4; gid = uval_num vs 5 in
     with_fid fid (\<lambda>f.
     bnd (on_fs (fs_mknod fops f name mode major minor gid)) (\<lambda>(err, qid).
     if err \<noteq> 0 then ret (Error err)
     else reply ops hst queue_idx desc_idx rid tag ''Q'' [VQid qid])))"

definition virtio_9p_readlink :: "('m, 'h, 'f) p9_handler" where
  "virtio_9p_readlink ops fops hst queue_idx desc_idx rid tag offset =
     with_args ops hst queue_idx desc_idx offset ''w'' (\<lambda>vs _.
     let fid = uval_num vs 0 in
     with_fid fid (\<lambda>f.
     bnd (on_fs (fs_readlink fops f (malloc (junk hst) 1024) 1024)) (\<lambda>(err, buf1).
     if err \<noteq> 0 then ret (Error err)
     else reply ops hst queue_idx desc_idx rid tag ''s'' [VStr buf1])))"

definition virtio_9p_getattr :: "('m, 'h, 'f) p9_handler" where
  "virtio_9p_getattr ops fops hst queue_idx desc_idx rid tag offset =
     with_args ops hst queue_idx desc_idx offset ''wd'' (\<lambda>vs _.
     let fid = uval_num vs 0; mask = uval_num vs 1 in
     with_fid fid (\<lambda>f.
     bnd (on_fs (fs_stat fops f)) (\<lambda>(err, st).
     if err \<noteq> 0 then ret (Error err)
     else reply ops hst queue_idx desc_idx rid tag ''dQwwwddddddddddddddd''
       [VLong mask, VQid (st_qid st), VInt (st_mode st), VInt (st_uid st), VInt (st_gid st),
        VLong (st_nlink st), VLong (st_rdev st), VLong (st_size st), VLong (st_blksize st), VLong (st_blocks st),
        VLong (st_atime_sec st), VLong (ucast (st_atime_nsec st)), VLong (st_mtime_sec st),
        VLong (ucast (st_mtime_nsec st)), VLong (st_ctime_sec st), VLong (ucast (st_ctime_nsec st)),
        VLong 0, VLong 0, VLong 0, VLong 0])))"

definition virtio_9p_setattr :: "('m, 'h, 'f) p9_handler" where
  "virtio_9p_setattr ops fops hst queue_idx desc_idx rid tag offset =
     with_args ops hst queue_idx desc_idx offset ''wwwwwddddd'' (\<lambda>vs _.
     let fid = uval_num vs 0; mask = uval_num vs 1; mode = uval_num vs 2; uid = uval_num vs 3; gid = uval_num vs 4;
         sz = uval_num vs 5; atime_sec = uval_num vs 6; atime_nsec = uval_num vs 7;
         mtime_sec = uval_num vs 8; mtime_nsec = uval_num vs 9 in
     with_fid fid (\<lambda>f.
     bnd (on_fs (fs_setattr fops f mask mode uid gid sz atime_sec atime_nsec mtime_sec mtime_nsec)) (\<lambda>err.
     if err \<noteq> 0 then ret (Error err)
     else reply_raw ops queue_idx desc_idx rid tag [] 0)))"

definition virtio_9p_xattrwalk :: "('m, 'h, 'f) p9_handler" where
  "virtio_9p_xattrwalk ops fops hst queue_idx desc_idx rid tag offset = ret (Error (- P9_ENOTSUP))"

text \<open>
  The data of a readdir or read reply: \<open>buf + 4\<close> is filled by the file system, the length goes in
  front.  The size \<open>count + 4\<close> of the buffer is computed in 32 bits.
\<close>

definition reply_data ::
  "'m fmem_ops \<Rightarrow> p9_host \<Rightarrow> nat \<Rightarrow> u16 \<Rightarrow> u8 \<Rightarrow> u16 \<Rightarrow> u32 \<Rightarrow> (bytes \<Rightarrow> int \<Rightarrow> ('f, int \<times> bytes) vm) \<Rightarrow>
   ('m, 'h, 'f, p9_outcome) p9_vm" where
  "reply_data ops hst queue_idx desc_idx rid tag count rd =
     (let buf = malloc (junk hst) (int (unat (count + 4))) in
      bnd (on_fs (rd (drop 4 buf) (int_of_u32 count))) (\<lambda>(n, data).
      if n < 0 then ret (Error n)
      else bnd (lift (poke (take 4 buf @ data) 0 (put_le32 (u32_of_int n)))) (\<lambda>buf.
        bnd (cint (n + 4)) (\<lambda>len. reply_raw ops queue_idx desc_idx rid tag buf len))))"

definition virtio_9p_readdir :: "('m, 'h, 'f) p9_handler" where
  "virtio_9p_readdir ops fops hst queue_idx desc_idx rid tag offset =
     with_args ops hst queue_idx desc_idx offset ''wdw'' (\<lambda>vs _.
     let fid = uval_num vs 0; offs = uval_num vs 1; count = uval_num vs 2 in
     with_fid fid (\<lambda>f.
     reply_data ops hst queue_idx desc_idx rid tag count (fs_readdir fops f offs)))"

definition virtio_9p_fsync :: "('m, 'h, 'f) p9_handler" where
  "virtio_9p_fsync ops fops hst queue_idx desc_idx rid tag offset =
     with_args ops hst queue_idx desc_idx offset ''w'' (\<lambda>vs _. reply_raw ops queue_idx desc_idx rid tag [] 0)"

definition virtio_9p_lock :: "('m, 'h, 'f) p9_handler" where
  "virtio_9p_lock ops fops hst queue_idx desc_idx rid tag offset =
     with_args ops hst queue_idx desc_idx offset ''wbwddws'' (\<lambda>vs _.
     let fid = uval_num vs 0;
         lock = \<lparr>lock_type = uval_num vs 1, lock_flags = uval_num vs 2, lock_start = uval_num vs 3,
           lock_length = uval_num vs 4, lock_proc_id = uval_num vs 5, lock_client_id = uval_str vs 6\<rparr> in
     with_fid fid (\<lambda>f.
     bnd (on_fs (fs_lock fops f lock)) (\<lambda>err.
     if err < 0 then ret (Error err)
     else reply ops hst queue_idx desc_idx rid tag ''b'' [VInt (u32_of_int err)])))"

text \<open>
  The getlock request has no flags: that member of the struct is not initialised.  The reply passes
  the addresses of the members, not their values.
\<close>

definition virtio_9p_getlock :: "('m, 'h, 'f) p9_handler" where
  "virtio_9p_getlock ops fops hst queue_idx desc_idx rid tag offset =
     with_args ops hst queue_idx desc_idx offset ''wbddws'' (\<lambda>vs _.
     let fid = uval_num vs 0;
         lock = \<lparr>lock_type = uval_num vs 1, lock_flags = get_le32 (malloc (junk hst) 4), lock_start = uval_num vs 2,
           lock_length = uval_num vs 3, lock_proc_id = uval_num vs 4, lock_client_id = uval_str vs 5\<rparr> in
     with_fid fid (\<lambda>f.
     bnd (on_fs (fs_getlock fops f lock)) (\<lambda>(err, _).
     if err < 0 then ret (Error err)
     else reply ops hst queue_idx desc_idx rid tag ''bddws''
       [VPtr (lock_type_ptr hst) [], VPtr (lock_start_ptr hst) [], VPtr (lock_length_ptr hst) [],
        VPtr (lock_proc_id_ptr hst) [], VPtr 0 (lock_client_id_mem hst)])))"

definition virtio_9p_link :: "('m, 'h, 'f) p9_handler" where
  "virtio_9p_link ops fops hst queue_idx desc_idx rid tag offset =
     with_args ops hst queue_idx desc_idx offset ''wws'' (\<lambda>vs _.
     let dfid = uval_num vs 0; fid = uval_num vs 1; name = uval_str vs 2 in
     with_fid dfid (\<lambda>f1. with_fid fid (\<lambda>f2.
     bnd (on_fs (fs_link fops f1 f2 name)) (\<lambda>err.
     if err \<noteq> 0 then ret (Error err)
     else reply_raw ops queue_idx desc_idx rid tag [] 0))))"

definition virtio_9p_mkdir :: "('m, 'h, 'f) p9_handler" where
  "virtio_9p_mkdir ops fops hst queue_idx desc_idx rid tag offset =
     with_args ops hst queue_idx desc_idx offset ''wsww'' (\<lambda>vs _.
     let fid = uval_num vs 0; name = uval_str vs 1; mode = uval_num vs 2; gid = uval_num vs 3 in
     with_fid fid (\<lambda>f.
     bnd (on_fs (fs_mkdir fops f name mode gid)) (\<lambda>(err, qid).
     if err \<noteq> 0 then ret (Error err)
     else reply ops hst queue_idx desc_idx rid tag ''Q'' [VQid qid])))"

definition virtio_9p_renameat :: "('m, 'h, 'f) p9_handler" where
  "virtio_9p_renameat ops fops hst queue_idx desc_idx rid tag offset =
     with_args ops hst queue_idx desc_idx offset ''wsws'' (\<lambda>vs _.
     let fid = uval_num vs 0; name = uval_str vs 1; new_fid = uval_num vs 2; new_name = uval_str vs 3 in
     with_fid fid (\<lambda>f1. with_fid new_fid (\<lambda>f2.
     bnd (on_fs (fs_renameat fops f1 name f2 new_name)) (\<lambda>err.
     if err \<noteq> 0 then ret (Error err)
     else reply_raw ops queue_idx desc_idx rid tag [] 0))))"

definition virtio_9p_unlinkat :: "('m, 'h, 'f) p9_handler" where
  "virtio_9p_unlinkat ops fops hst queue_idx desc_idx rid tag offset =
     with_args ops hst queue_idx desc_idx offset ''wsw'' (\<lambda>vs _.
     let fid = uval_num vs 0; name = uval_str vs 1 in
     with_fid fid (\<lambda>f.
     bnd (on_fs (fs_unlinkat fops f name)) (\<lambda>err.
     if err \<noteq> 0 then ret (Error err)
     else reply_raw ops queue_idx desc_idx rid tag [] 0)))"

text \<open>The string 9P2000.L.\<close>

definition version_string :: bytes where
  "version_string = [0x39, 0x50, 0x32, 0x30, 0x30, 0x30, 0x2e, 0x4c, 0]"

definition virtio_9p_version :: "('m, 'h, 'f) p9_handler" where
  "virtio_9p_version ops fops hst queue_idx desc_idx rid tag offset =
     with_args ops hst queue_idx desc_idx offset ''ws'' (\<lambda>vs _.
     let new_msize = uval_num vs 0 :: u32 in
     andthen (modify (\<lambda>s. s\<lparr>msize := int_of_u32 new_msize\<rparr>))
     (reply ops hst queue_idx desc_idx rid tag ''ws'' [VInt new_msize, VStr version_string]))"

definition virtio_9p_attach :: "('m, 'h, 'f) p9_handler" where
  "virtio_9p_attach ops fops hst queue_idx desc_idx rid tag offset =
     with_args ops hst queue_idx desc_idx offset ''wwssw'' (\<lambda>vs _.
     let fid = uval_num vs 0; uname = uval_str vs 2; aname = uval_str vs 3; uid = uval_num vs 4 in
     bnd (on_fs (fs_attach fops uid uname aname)) (\<lambda>(err, f, qid).
     if err \<noteq> 0 then ret (Error err)
     else andthen (fid_set fops fid f)
       (reply ops hst queue_idx desc_idx rid tag ''Q'' [VQid qid])))"

definition virtio_9p_flush :: "('m, 'h, 'f) p9_handler" where
  "virtio_9p_flush ops fops hst queue_idx desc_idx rid tag offset =
     with_args ops hst queue_idx desc_idx offset ''h'' (\<lambda>vs _. reply_raw ops queue_idx desc_idx rid tag [] 0)"

text \<open>The names of a walk, read one by one; the reply lists the identifiers of what was found.\<close>

fun walk_names :: "'m fmem_ops \<Rightarrow> p9_host \<Rightarrow> nat \<Rightarrow> u16 \<Rightarrow> int \<Rightarrow> nat \<Rightarrow> ('m, 'h, 'f, bytes list option) p9_vm" where
  "walk_names ops hst queue_idx desc_idx offset 0 = ret (Some [])"
| "walk_names ops hst queue_idx desc_idx offset (Suc n) =
     bnd (unmarshall ops (junk hst) queue_idx desc_idx offset ''s'') (\<lambda>r. case r of
       None \<Rightarrow> ret None
     | Some (vs, offset') \<Rightarrow>
         bnd (walk_names ops hst queue_idx desc_idx offset' n) (\<lambda>r. case r of
           None \<Rightarrow> ret None
         | Some names \<Rightarrow> ret (Some (uval_str vs 0 # names))))"

fun marshall_qids :: "u32 \<Rightarrow> int \<Rightarrow> nat \<Rightarrow> fsqid list \<Rightarrow> fault + bytes" where
  "marshall_qids vh space 0 qids = Inr []"
| "marshall_qids vh space (Suc n) [] = Inl OutOfBounds"
| "marshall_qids vh space (Suc n) (q # qids) = (case marshall vh space ''Q'' [VQid q] of Inl f \<Rightarrow> Inl f
     | Inr bs \<Rightarrow> (case marshall_qids vh (space - int (length bs)) n qids of Inl f \<Rightarrow> Inl f
         | Inr rest \<Rightarrow> Inr (bs @ rest)))"

definition walk_reply :: "u32 \<Rightarrow> int \<Rightarrow> fsqid list \<Rightarrow> fault + bytes" where
  "walk_reply vh err qids = (case marshall vh 1024 ''h'' [VInt (u32_of_int err)] of Inl f \<Rightarrow> Inl f
     | Inr bs \<Rightarrow> (case marshall_qids vh (1024 - int (length bs)) (nat err) qids of Inl f \<Rightarrow> Inl f
         | Inr rest \<Rightarrow> Inr (bs @ rest)))"

definition virtio_9p_walk :: "('m, 'h, 'f) p9_handler" where
  "virtio_9p_walk ops fops hst queue_idx desc_idx rid tag offset =
     with_args ops hst queue_idx desc_idx offset ''wwh'' (\<lambda>vs offset1.
     let fid = uval_num vs 0; newfid = uval_num vs 1; nwname = uval_num vs 2 :: u16 in
     with_fid fid (\<lambda>f.
     bnd (walk_names ops hst queue_idx desc_idx offset1 (unat nwname)) (\<lambda>names. case names of
       None \<Rightarrow> protocol_error
     | Some names \<Rightarrow>
         bnd (on_fs (fs_walk fops f names)) (\<lambda>(err, f1, qids).
         if err < 0 then ret (Error err)
         else bnd (lift (walk_reply (va_high hst) err qids)) (\<lambda>buf.
           andthen (fid_set fops newfid f1)
           (reply_raw ops queue_idx desc_idx rid tag buf (int (length buf))))))))"

definition virtio_9p_read :: "('m, 'h, 'f) p9_handler" where
  "virtio_9p_read ops fops hst queue_idx desc_idx rid tag offset =
     with_args ops hst queue_idx desc_idx offset ''wdw'' (\<lambda>vs _.
     let fid = uval_num vs 0; offs = uval_num vs 1; count = uval_num vs 2 in
     with_fid fid (\<lambda>f.
     reply_data ops hst queue_idx desc_idx rid tag count (fs_read fops f offs)))"

definition virtio_9p_write :: "('m, 'h, 'f) p9_handler" where
  "virtio_9p_write ops fops hst queue_idx desc_idx rid tag offset =
     with_args ops hst queue_idx desc_idx offset ''wdw'' (\<lambda>vs offset1.
     let fid = uval_num vs 0; offs = uval_num vs 1; count = uval_num vs 2 :: u32 in
     with_fid fid (\<lambda>f.
     bnd (memcpy_from_queue ops (malloc (junk hst) (int (unat count))) queue_idx desc_idx offset1
            (int_of_u32 count)) (\<lambda>(r, buf1).
     if r \<noteq> 0 then protocol_error
     else bnd (on_fs (fs_write fops f offs buf1 (int_of_u32 count))) (\<lambda>n.
       if n < 0 then ret (Error n)
       else reply ops hst queue_idx desc_idx rid tag ''w'' [VInt (u32_of_int n)]))))"

definition virtio_9p_clunk :: "('m, 'h, 'f) p9_handler" where
  "virtio_9p_clunk ops fops hst queue_idx desc_idx rid tag offset =
     with_args ops hst queue_idx desc_idx offset ''w'' (\<lambda>vs _.
     andthen (fid_delete fops (uval_num vs 0)) (reply_raw ops queue_idx desc_idx rid tag [] 0))"

section \<open>Dispatch\<close>

text \<open>The switch on the message type.\<close>

definition p9_handler_of :: "u8 \<Rightarrow> ('m, 'h, 'f) p9_handler" where
  "p9_handler_of rid =
    (if rid = 8 then virtio_9p_statfs
     else if rid = 12 then virtio_9p_lopen
     else if rid = 14 then virtio_9p_lcreate
     else if rid = 16 then virtio_9p_symlink
     else if rid = 18 then virtio_9p_mknod
     else if rid = 22 then virtio_9p_readlink
     else if rid = 24 then virtio_9p_getattr
     else if rid = 26 then virtio_9p_setattr
     else if rid = 30 then virtio_9p_xattrwalk
     else if rid = 40 then virtio_9p_readdir
     else if rid = 50 then virtio_9p_fsync
     else if rid = 52 then virtio_9p_lock
     else if rid = 54 then virtio_9p_getlock
     else if rid = 70 then virtio_9p_link
     else if rid = 72 then virtio_9p_mkdir
     else if rid = 74 then virtio_9p_renameat
     else if rid = 76 then virtio_9p_unlinkat
     else if rid = 100 then virtio_9p_version
     else if rid = 104 then virtio_9p_attach
     else if rid = 108 then virtio_9p_flush
     else if rid = 110 then virtio_9p_walk
     else if rid = 116 then virtio_9p_read
     else if rid = 118 then virtio_9p_write
     else if rid = 120 then virtio_9p_clunk
     else (\<lambda>ops fops hst queue_idx desc_idx rid tag offset. protocol_error))"

definition virtio_9p_recv_request ::
  "'m fmem_ops \<Rightarrow> ('h, 'f) fs_ops \<Rightarrow> p9_host \<Rightarrow> nat \<Rightarrow> u16 \<Rightarrow> int \<Rightarrow> int \<Rightarrow> ('m, 'h, 'f, int) p9_vm" where
  "virtio_9p_recv_request ops fops hst queue_idx desc_idx read_size write_size =
     (if queue_idx \<noteq> 0 then ret 0
      else bnd (gets p9_req_in_progress) (\<lambda>busy.
      if busy then ret (- 1)
      else bnd (fetch ops (junk hst) queue_idx desc_idx 0 7) (\<lambda>header.
      bnd (case header of None \<Rightarrow> ret (0, Error (- P9_EPROTO))
           | Some buf \<Rightarrow>
               let rid = buf ! 4; tag = get_le16 (drop 5 buf) in
               bnd (p9_handler_of rid ops fops hst queue_idx desc_idx rid tag 7) (\<lambda>r. ret (tag, r))) (\<lambda>(tag, r).
      case r of
        Sent \<Rightarrow> ret 0
      | Error err \<Rightarrow>
          andthen (virtio_9p_send_error ops (va_high hst) queue_idx desc_idx tag (u32_of_int err)) (ret 0)))))"

text \<open>Called by the file system when an open that was left pending is done.\<close>

definition virtio_9p_open_cb ::
  "'m fmem_ops \<Rightarrow> ('h, 'f) fs_ops \<Rightarrow> p9_host \<Rightarrow> fsqid \<Rightarrow> int \<Rightarrow> p9_open_info \<Rightarrow> ('m, 'h, 'f, unit) p9_vm" where
  "virtio_9p_open_cb ops fops hst qid err oi =
     andthen (virtio_9p_open_reply ops hst qid err oi)
     (andthen (modify (\<lambda>s. s\<lparr>p9_req_in_progress := False\<rparr>))
     (queue_notify ops (virtio_9p_recv_request ops fops hst) (oi_queue_idx oi)))"

text \<open>\<open>mount_tag\<close> is the tag without its null byte.\<close>

definition virtio_9p_init :: "'f \<Rightarrow> bytes \<Rightarrow> ('m, 'h, 'f, unit) p9_vm" where
  "virtio_9p_init f mount_tag =
     (let len = length mount_tag in
      andthen (modify (\<lambda>s. virtio_init_dev 9 (of_nat (2 + len)) s))
      (andthen (modify (\<lambda>s. s\<lparr>device_features := 1\<rparr>))
      (andthen (config_poke 0 (put_le16 (of_nat len)))
      (andthen (config_poke 2 mount_tag)
      (modify (\<lambda>s. s\<lparr>fs := f, msize := 8192, fid_list := [], p9_req_in_progress := False\<rparr>))))))"

section \<open>The contract\<close>

text \<open>
  Every case leaves the queues and the device invariant alone; the helpers first, then the cases,
  each by the same rules.
\<close>

lemma dev_inv_9p [simp]:
  "dev_inv (s\<lparr>fs := f\<rparr>) = dev_inv s"
  "dev_inv (s\<lparr>msize := m\<rparr>) = dev_inv s"
  "dev_inv (s\<lparr>fid_list := l\<rparr>) = dev_inv s"
  "dev_inv (s\<lparr>p9_req_in_progress := b\<rparr>) = dev_inv s"
  by (simp_all add: dev_inv_def)

abbreviation queues_kept :: "queue_state list \<Rightarrow> ('m, 'z) virtio_device_scheme \<Rightarrow> bool" where
  "queues_kept Q s \<equiv> dev_inv s \<and> queue s = Q"

lemma keeps_9p_state:
  "keeps (queues_kept Q) (on_fs m)"
  "keeps (queues_kept Q) (modify (\<lambda>s. s\<lparr>p9_req_in_progress := b\<rparr>))"
  "keeps (queues_kept Q) (modify (\<lambda>s. s\<lparr>msize := k\<rparr>))"
  "keeps (queues_kept Q) (modify (\<lambda>s. s\<lparr>fid_list := g (fid_list s)\<rparr>))"
  unfolding on_fs_def by (intro keeps_zoom keeps_modify; simp)+

lemma keeps_fids:
  "keeps (queues_kept Q) (fid_find fid)"
  "keeps (queues_kept Q) (fid_delete fops fid)"
  "keeps (queues_kept Q) (fid_set fops fid h)"
  unfolding fid_find_def fid_delete_def fid_set_def by (intro keeps_intros keeps_9p_state)+

lemma keeps_fetch: "keeps (queues_kept Q) (fetch ops jk q i off n)"
  unfolding fetch_def by (intro keeps_intros keeps_memcpy_from_queue dma_indep_dev_inv)

lemma keeps_unmarshall_one: "keeps (queues_kept Q) (unmarshall_one ops jk q i off c)"
  unfolding unmarshall_one_def unmarshall_num_def unmarshall_str_def
  by (intro keeps_intros keeps_fetch keeps_memcpy_from_queue dma_indep_dev_inv)

lemma keeps_unmarshall: "keeps (queues_kept Q) (unmarshall ops jk q i off fmt)"
proof (induction fmt arbitrary: off)
  case Nil
  show ?case unfolding unmarshall.simps by (rule keeps_ret)
next
  case (Cons c fmt)
  show ?case unfolding unmarshall.simps by (intro keeps_intros keeps_unmarshall_one Cons)
qed

lemma keeps_walk_names: "keeps (queues_kept Q) (walk_names ops hst q i off n)"
proof (induction n arbitrary: off)
  case 0
  show ?case unfolding walk_names.simps by (rule keeps_ret)
next
  case (Suc n)
  show ?case unfolding walk_names.simps by (intro keeps_intros keeps_unmarshall Suc)
qed

lemma keeps_send:
  "keeps (queues_kept Q) (virtio_9p_send_reply ops q i rid tag buf n)"
  "keeps (queues_kept Q) (virtio_9p_send_error ops vh q i tag err)"
  unfolding virtio_9p_send_error_def virtio_9p_send_reply_def
  by (intro keeps_intros keeps_memcpy_to_queue dma_indep_dev_inv)+

lemma keeps_replies:
  "keeps (queues_kept Q) (reply ops hst q i rid tag fmt args)"
  "keeps (queues_kept Q) (reply_raw ops q i rid tag buf n)"
  "keeps (queues_kept Q) (reply_data ops hst q i rid tag count rd)"
  "keeps (queues_kept Q) (virtio_9p_open_reply ops hst qid err oi)"
  unfolding reply_def reply_raw_def reply_data_def virtio_9p_open_reply_def
  by (intro keeps_intros keeps_send keeps_9p_state)+

lemma keeps_with_args:
  "(\<And>vs o'. keeps (queues_kept Q) (k vs o')) \<Longrightarrow> keeps (queues_kept Q) (with_args ops hst q i off fmt k)"
  unfolding with_args_def by (intro keeps_intros keeps_unmarshall)

lemma keeps_with_fid: "(\<And>h. keeps (queues_kept Q) (k h)) \<Longrightarrow> keeps (queues_kept Q) (with_fid fid k)"
  unfolding with_fid_def by (intro keeps_intros keeps_fids)

lemmas keeps_9p = keeps_with_args keeps_with_fid keeps_replies keeps_9p_state keeps_fids keeps_walk_names

lemma keeps_9p_open:
  "keeps (queues_kept Q) (virtio_9p_statfs ops fops hst q i rid tag off)"
  "keeps (queues_kept Q) (virtio_9p_lopen ops fops hst q i rid tag off)"
  "keeps (queues_kept Q) (virtio_9p_version ops fops hst q i rid tag off)"
  "keeps (queues_kept Q) (virtio_9p_attach ops fops hst q i rid tag off)"
  "keeps (queues_kept Q) (virtio_9p_walk ops fops hst q i rid tag off)"
  "keeps (queues_kept Q) (virtio_9p_clunk ops fops hst q i rid tag off)"
  unfolding virtio_9p_statfs_def virtio_9p_lopen_def virtio_9p_version_def virtio_9p_attach_def
    virtio_9p_walk_def virtio_9p_clunk_def
  by (intro keeps_9p keeps_intros)+

lemma keeps_9p_names:
  "keeps (queues_kept Q) (virtio_9p_lcreate ops fops hst q i rid tag off)"
  "keeps (queues_kept Q) (virtio_9p_symlink ops fops hst q i rid tag off)"
  "keeps (queues_kept Q) (virtio_9p_mknod ops fops hst q i rid tag off)"
  "keeps (queues_kept Q) (virtio_9p_readlink ops fops hst q i rid tag off)"
  "keeps (queues_kept Q) (virtio_9p_link ops fops hst q i rid tag off)"
  "keeps (queues_kept Q) (virtio_9p_mkdir ops fops hst q i rid tag off)"
  "keeps (queues_kept Q) (virtio_9p_renameat ops fops hst q i rid tag off)"
  "keeps (queues_kept Q) (virtio_9p_unlinkat ops fops hst q i rid tag off)"
  unfolding virtio_9p_lcreate_def virtio_9p_symlink_def virtio_9p_mknod_def virtio_9p_readlink_def
    virtio_9p_link_def virtio_9p_mkdir_def virtio_9p_renameat_def virtio_9p_unlinkat_def
  by (intro keeps_9p keeps_intros)+

lemma keeps_9p_data:
  "keeps (queues_kept Q) (virtio_9p_getattr ops fops hst q i rid tag off)"
  "keeps (queues_kept Q) (virtio_9p_setattr ops fops hst q i rid tag off)"
  "keeps (queues_kept Q) (virtio_9p_xattrwalk ops fops hst q i rid tag off)"
  "keeps (queues_kept Q) (virtio_9p_readdir ops fops hst q i rid tag off)"
  "keeps (queues_kept Q) (virtio_9p_fsync ops fops hst q i rid tag off)"
  "keeps (queues_kept Q) (virtio_9p_lock ops fops hst q i rid tag off)"
  "keeps (queues_kept Q) (virtio_9p_getlock ops fops hst q i rid tag off)"
  "keeps (queues_kept Q) (virtio_9p_flush ops fops hst q i rid tag off)"
  "keeps (queues_kept Q) (virtio_9p_read ops fops hst q i rid tag off)"
  "keeps (queues_kept Q) (virtio_9p_write ops fops hst q i rid tag off)"
  unfolding virtio_9p_getattr_def virtio_9p_setattr_def virtio_9p_xattrwalk_def virtio_9p_readdir_def
    virtio_9p_fsync_def virtio_9p_lock_def virtio_9p_getlock_def virtio_9p_flush_def virtio_9p_read_def
    virtio_9p_write_def
  by (intro keeps_9p keeps_intros keeps_memcpy_from_queue dma_indep_dev_inv)+

lemma keeps_9p_handler: "keeps (queues_kept Q) (p9_handler_of rid ops fops hst q i rid' tag off)"
  unfolding p9_handler_of_def
  by (simp add: keeps_9p_open keeps_9p_names keeps_9p_data keeps_ret)

lemma keeps_case_outcome:
  "keeps I m \<Longrightarrow> (\<And>e. keeps I (k e)) \<Longrightarrow> keeps I (case r of Sent \<Rightarrow> m | Error e \<Rightarrow> k e)"
  by (cases r) simp_all

interpretation p9: virtio_callbacks "virtio_9p_recv_request ops fops hst" None for ops fops hst
proof
  fix Q q i rsize wsize
  show "keeps (queues_kept Q) (virtio_9p_recv_request ops fops hst q i rsize wsize)"
    unfolding virtio_9p_recv_request_def
    by (intro keeps_intros keeps_case_outcome keeps_send keeps_fetch keeps_9p_handler)
qed simp

lemma keeps_9p_open_cb: "keeps dev_inv (virtio_9p_open_cb ops fops hst qid err oi)"
proof -
  have "keeps dev_inv (virtio_9p_open_reply ops hst qid err oi :: ('a, 'b, 'c, unit) p9_vm)"
    by (rule keepsI, rule wlp_keeps [OF keeps_replies(4)]) auto
  moreover have "keeps dev_inv (modify (\<lambda>s. s\<lparr>p9_req_in_progress := False\<rparr>) :: ('a, 'b, 'c, unit) p9_vm)"
    by (rule keeps_modify) simp
  ultimately show ?thesis
    unfolding virtio_9p_open_cb_def by (intro keeps_intros p9.notify_inv)
qed

lemma keeps_9p_init: "wlp (virtio_9p_init f tag) (\<lambda>_. dev_inv) (\<lambda>_. True) s"
proof -
  have init: "keeps dev_inv (config_poke 0 (put_le16 w) :: ('a, 'b, 'c, unit) p9_vm)"
    "keeps dev_inv (config_poke 2 tag :: ('a, 'b, 'c, unit) p9_vm)"
    "keeps dev_inv (modify (\<lambda>s. s\<lparr>device_features := 1\<rparr>) :: ('a, 'b, 'c, unit) p9_vm)"
    "keeps dev_inv (modify (\<lambda>s. s\<lparr>fs := f, msize := 8192, fid_list := [], p9_req_in_progress := False\<rparr>) :: ('a, 'b, 'c, unit) p9_vm)" for w
    by (intro keeps_config_poke keeps_modify; simp)+
  show ?thesis
    unfolding virtio_9p_init_def Let_def wlp_andthen [of "modify _"] wlp_modify
    by (intro keeps_wlp keeps_andthen init) (simp add: virtio_init_inv)
qed

section \<open>What a request does\<close>

text \<open>
  \<open>p9_msg bs rid tag fmt vs\<close>: the bytes of a request of type \<open>rid\<close> whose arguments, under the format
  \<open>fmt\<close> of that request, are \<open>vs\<close>.  \<open>p9_room ds s n\<close>: the chain has room for a reply of \<open>n\<close> bytes
  after the header, outside the descriptor table.  \<open>p9_replied\<close>: the memory after a reply.
\<close>

definition p9_head :: "bytes \<Rightarrow> u8 \<Rightarrow> u16 \<Rightarrow> bool" where
  "p9_head bs rid tag \<longleftrightarrow> 7 \<le> length bs \<and> length bs < 2147483648 \<and> bs ! 4 = rid \<and> get_le16 (drop 5 bs) = tag"

definition p9_msg :: "bytes \<Rightarrow> u8 \<Rightarrow> u16 \<Rightarrow> string \<Rightarrow> uval list \<Rightarrow> nat \<Rightarrow> bool" where
  "p9_msg bs rid tag fmt vs off \<longleftrightarrow> p9_head bs rid tag \<and> read_format fmt \<and> parse bs 7 fmt = Some (vs, off)"

definition p9_room :: "virtio_desc list \<Rightarrow> ('m, 'z) virtio_device_scheme \<Rightarrow> nat \<Rightarrow> bool" where
  "p9_room ds s n \<longleftrightarrow> n + 7 \<le> length (desc_addrs (writable ds)) \<and> n + 7 < 2147483648
     \<and> set (desc_addrs (writable ds)) \<inter> table (desc_addr (queue s ! 0)) ds = {}"

definition p9_replied ::
  "('m \<Rightarrow> ram) \<Rightarrow> virtio_desc list \<Rightarrow> u16 \<Rightarrow> ('m, 'z) virtio_device_scheme \<Rightarrow> u8 \<Rightarrow> u16 \<Rightarrow> bytes \<Rightarrow> 'm \<Rightarrow> bool" where
  "p9_replied mem ds i s rid tag body m \<longleftrightarrow>
     mem m = used_push (write_list (mem (dma s)) (zip (desc_addrs (writable ds)) (message rid tag body)))
       (used_addr (queue s ! 0)) (num (queue s ! 0)) i (int (length body + 7))"

abbreviation answered ::
  "'m \<Rightarrow> ('m, 'h, 'f) virtio_9p_device \<Rightarrow> ('m, 'h, 'f) virtio_9p_device" where
  "answered m s \<equiv> s\<lparr>dma := m, int_status := int_status s OR 1, irq := 1\<rparr>"

text \<open>The fields of the device itself play no part in the chain.\<close>

lemma request_9p [simp]:
  "request ops mem q i ds (s\<lparr>fs := f\<rparr>) = request ops mem q i ds s"
  "request ops mem q i ds (s\<lparr>fid_list := l\<rparr>) = request ops mem q i ds s"
  "request ops mem q i ds (s\<lparr>msize := n\<rparr>) = request ops mem q i ds s"
  "sent mem ds (s\<lparr>fs := f\<rparr>) = sent mem ds s"
  "sent mem ds (s\<lparr>fid_list := l\<rparr>) = sent mem ds s"
  "sent mem ds (s\<lparr>msize := n\<rparr>) = sent mem ds s"
  "p9_room ds (s\<lparr>fs := f\<rparr>) = p9_room ds s"
  "p9_room ds (s\<lparr>fid_list := l\<rparr>) = p9_room ds s"
  "p9_room ds (s\<lparr>msize := n\<rparr>) = p9_room ds s"
  "p9_replied mem ds i (s\<lparr>fs := f\<rparr>) = p9_replied mem ds i s"
  "p9_replied mem ds i (s\<lparr>fid_list := l\<rparr>) = p9_replied mem ds i s"
  "p9_replied mem ds i (s\<lparr>msize := n\<rparr>) = p9_replied mem ds i s"
  by (simp_all add: request_def on_ram_def sent_def p9_room_def p9_replied_def fun_eq_iff)

lemma reply_raw_run:
  assumes "request ops mem 0 i ds s" and "p9_room ds s n" and "n \<le> length buf"
  shows "\<exists>m. reply_raw ops 0 i rid tag buf (int n) s = Some (Inr (Sent, answered m s))
    \<and> p9_replied mem ds i s (rid + 1) tag (take n buf) m"
  using send_reply_run [OF assms(1), of "take n buf" n buf rid tag] assms(2,3)
  by (auto simp: p9_room_def p9_replied_def reply_raw_def andthen_run)

lemma reply_run:
  assumes "request ops mem 0 i ds s" and "p9_room ds s (length body)"
    and "marshall (va_high hst) 1024 fmt args = Inr body"
  shows "\<exists>m. reply ops hst 0 i rid tag fmt args s = Some (Inr (Sent, answered m s))
    \<and> p9_replied mem ds i s (rid + 1) tag body m"
  using send_reply_run [OF assms(1), of body "length body" body rid tag] assms(2,3)
  by (auto simp: p9_room_def p9_replied_def reply_def bnd_run andthen_run)

lemma with_args_run:
  assumes "request ops mem 0 i ds s" and "p9_msg (sent mem ds s) rid tag fmt vs off"
  shows "with_args ops hst 0 i 7 fmt k s = k vs (int off) s"
  using unmarshall_run [OF assms(1), of fmt 7 "junk hst"] assms(2)
  by (simp add: with_args_def p9_msg_def p9_head_def bnd_run)

lemma with_args_malformed:
  assumes "request ops mem 0 i ds s" and "p9_head (sent mem ds s) rid tag" and "read_format fmt"
    and "parse (sent mem ds s) 7 fmt = None"
  shows "with_args ops hst 0 i 7 fmt k s = Some (Inr (Error (- P9_EPROTO), s))"
  using unmarshall_run [OF assms(1), of fmt 7 "junk hst"] assms(2-4)
  by (simp add: with_args_def p9_head_def bnd_run)

lemma with_fid_run: "fid_find1 (fid_list s) fid = Some h \<Longrightarrow> with_fid fid k s = k h s"
  by (simp add: with_fid_def fid_find_def bnd_run)

lemma with_fid_unknown: "fid_find1 (fid_list s) fid = None \<Longrightarrow> with_fid fid k s = Some (Inr (Error (- P9_EPROTO), s))"
  by (simp add: with_fid_def fid_find_def bnd_run)

lemma header_run:
  assumes "request ops mem 0 i ds s" and "p9_head (sent mem ds s) rid tag"
  shows "\<exists>buf. fetch ops jk 0 i 0 7 s = Some (Inr (Some buf, s)) \<and> buf ! 4 = rid \<and> get_le16 (drop 5 buf) = tag"
proof -
  let ?S = "sent mem ds s"
  have h: "7 \<le> length ?S" using assms(2) by (simp add: p9_head_def)
  then have "take 2 (drop 5 (take 7 ?S)) = take 2 (drop 5 ?S)" by (simp add: drop_take)
  then have "get_le16 (drop 5 (take 7 ?S)) = get_le16 (drop 5 ?S)"
    using h le16.dec_take [of "drop 5 ?S"] le16.dec_take [of "drop 5 (take 7 ?S)"] by simp
  then show ?thesis
    using fetch_run [OF assms(1), of 0 7 jk] assms(2) by (auto simp: p9_head_def)
qed

text \<open>A case that sends its reply, and a case that jumps to \<open>error\<close>.\<close>

lemma recv_sent:
  assumes "request ops mem 0 i ds s" and "p9_head (sent mem ds s) rid tag" and "\<not> p9_req_in_progress s"
    and "p9_handler_of rid ops fops hst 0 i rid tag 7 s = Some (Inr (Sent, t))"
  shows "virtio_9p_recv_request ops fops hst 0 i rsize wsize s = Some (Inr (0, t))"
  using header_run [OF assms(1,2), of "junk hst"] assms(3,4)
  by (auto simp: virtio_9p_recv_request_def bnd_run Let_def)

lemma recv_error:
  assumes rq: "request ops mem 0 i ds s" and head: "p9_head (sent mem ds s) rid tag" and "\<not> p9_req_in_progress s"
    and err: "p9_handler_of rid ops fops hst 0 i rid tag 7 s = Some (Inr (Error e, t))"
    and t: "request ops mem 0 i ds t" "p9_room ds t 4"
  shows "\<exists>m. virtio_9p_recv_request ops fops hst 0 i rsize wsize s = Some (Inr (0, answered m t))
    \<and> p9_replied mem ds i t 7 tag (put_le32 (u32_of_int (- e))) m"
proof -
  have neg: "- u32_of_int e = u32_of_int (- e)" by (simp add: u32_of_int_def)
  obtain m where "virtio_9p_send_error ops (va_high hst) 0 i tag (u32_of_int e) t = Some (Inr ((), answered m t))"
    "p9_replied mem ds i t 7 tag (put_le32 (u32_of_int (- e))) m"
    using send_error_run [OF t(1), of "va_high hst" tag "u32_of_int e"] t(2)
    by (auto simp: p9_room_def p9_replied_def le32.enc_length neg)
  then show ?thesis
    using header_run [OF rq head, of "junk hst"] assms(3) err
    by (auto simp: virtio_9p_recv_request_def bnd_run andthen_run Let_def)
qed

subsection \<open>Requests that are refused\<close>

text \<open>The argument format of each request that has one.\<close>

definition p9_formats :: "(u8 \<times> string) list" where
  "p9_formats = [(12, ''ww''), (14, ''wswww''), (16, ''wssw''), (18, ''wswwww''), (22, ''w''), (24, ''wd''),
     (26, ''wwwwwddddd''), (40, ''wdw''), (50, ''w''), (52, ''wbwddws''), (54, ''wbddws''), (70, ''wws''),
     (72, ''wsww''), (74, ''wsws''), (76, ''wsw''), (100, ''ws''), (104, ''wwssw''), (108, ''h''),
     (110, ''wwh''), (116, ''wdw''), (118, ''wdw''), (120, ''w'')]"

lemmas p9_case_defs = virtio_9p_lopen_def virtio_9p_lcreate_def virtio_9p_symlink_def virtio_9p_mknod_def
  virtio_9p_readlink_def virtio_9p_getattr_def virtio_9p_setattr_def virtio_9p_readdir_def
  virtio_9p_fsync_def virtio_9p_lock_def virtio_9p_getlock_def virtio_9p_link_def virtio_9p_mkdir_def
  virtio_9p_renameat_def virtio_9p_unlinkat_def virtio_9p_version_def virtio_9p_attach_def
  virtio_9p_flush_def virtio_9p_walk_def virtio_9p_read_def virtio_9p_write_def virtio_9p_clunk_def

lemma p9_handlers:
  "p9_handler_of 12 = virtio_9p_lopen"
  "p9_handler_of 14 = virtio_9p_lcreate"
  "p9_handler_of 16 = virtio_9p_symlink"
  "p9_handler_of 18 = virtio_9p_mknod"
  "p9_handler_of 22 = virtio_9p_readlink"
  "p9_handler_of 24 = virtio_9p_getattr"
  "p9_handler_of 26 = virtio_9p_setattr"
  "p9_handler_of 40 = virtio_9p_readdir"
  "p9_handler_of 50 = virtio_9p_fsync"
  "p9_handler_of 52 = virtio_9p_lock"
  "p9_handler_of 54 = virtio_9p_getlock"
  "p9_handler_of 70 = virtio_9p_link"
  "p9_handler_of 72 = virtio_9p_mkdir"
  "p9_handler_of 74 = virtio_9p_renameat"
  "p9_handler_of 76 = virtio_9p_unlinkat"
  "p9_handler_of 100 = virtio_9p_version"
  "p9_handler_of 104 = virtio_9p_attach"
  "p9_handler_of 108 = virtio_9p_flush"
  "p9_handler_of 110 = virtio_9p_walk"
  "p9_handler_of 116 = virtio_9p_read"
  "p9_handler_of 118 = virtio_9p_write"
  "p9_handler_of 120 = virtio_9p_clunk"
  by (simp_all add: p9_handler_of_def)

text \<open>A case with arguments starts by reading them under its format.\<close>

lemma handler_reads_args:
  assumes "(rid, fmt) \<in> set p9_formats"
  shows "\<exists>k. \<forall>s. p9_handler_of rid ops fops hst 0 i rid tag 7 s = with_args ops hst 0 i 7 fmt k s"
  using assms unfolding p9_formats_def
  by (simp only: list.set insert_iff empty_iff prod.inject)
    (elim disjE conjE FalseE; simp only: p9_handlers p9_case_defs; rule exI, rule allI, rule refl)

lemma read_format_9p: "(rid, fmt) \<in> set p9_formats \<Longrightarrow> read_format fmt"
  unfolding p9_formats_def read_format_def by auto

lemma malformed_run:
  assumes "request ops mem 0 i ds s" and "p9_head (sent mem ds s) rid tag" and "\<not> p9_req_in_progress s"
    and f: "(rid, fmt) \<in> set p9_formats" and bad: "parse (sent mem ds s) 7 fmt = None" and "p9_room ds s 4"
  shows "\<exists>m. virtio_9p_recv_request ops fops hst 0 i rsize wsize s = Some (Inr (0, answered m s))
    \<and> p9_replied mem ds i s 7 tag (put_le32 71) m"
proof -
  obtain k where "\<forall>s. p9_handler_of rid ops fops hst 0 i rid tag 7 s = with_args ops hst 0 i 7 fmt k s"
    using handler_reads_args [OF f] by blast
  then have "p9_handler_of rid ops fops hst 0 i rid tag 7 s = Some (Inr (Error (- P9_EPROTO), s))"
    using with_args_malformed [OF assms(1,2) read_format_9p [OF f] bad] by simp
  from recv_error [OF assms(1-3) this assms(1) assms(6)] show ?thesis by (simp add: u32_of_int_def)
qed

lemma unsupported_run:
  assumes "request ops mem 0 i ds s" and "p9_head (sent mem ds s) rid tag" and "\<not> p9_req_in_progress s"
    and "rid \<notin> fst ` set p9_formats" "rid \<notin> {8, 30}" and "p9_room ds s 4"
  shows "\<exists>m. virtio_9p_recv_request ops fops hst 0 i rsize wsize s = Some (Inr (0, answered m s))
    \<and> p9_replied mem ds i s 7 tag (put_le32 71) m"
proof -
  have "p9_handler_of rid ops fops hst 0 i rid tag 7 s = Some (Inr (Error (- P9_EPROTO), s))"
    using assms(4,5) by (simp add: p9_handler_of_def p9_formats_def)
  from recv_error [OF assms(1-3) this assms(1) assms(6)] show ?thesis by (simp add: u32_of_int_def)
qed

text \<open>A request on an identifier that names no open file, for the cases with one identifier.\<close>

definition fid_requests :: "u8 set" where
  "fid_requests = {12, 14, 16, 18, 22, 24, 26, 40, 52, 54, 72, 76, 110, 116, 118}"

lemma handler_reads_fid:
  assumes "(rid, fmt) \<in> set p9_formats" and "rid \<in> fid_requests"
  shows "\<exists>k. \<forall>s. p9_handler_of rid ops fops hst 0 i rid tag 7 s =
    with_args ops hst 0 i 7 fmt (\<lambda>vs off. with_fid (uval_num vs 0) (k vs off)) s"
proof -
  have "rid \<in> fid_requests \<longrightarrow> ?thesis"
    using assms(1) unfolding p9_formats_def
    by (simp only: list.set insert_iff empty_iff prod.inject)
      (elim disjE conjE FalseE; simp add: fid_requests_def;
       simp only: p9_handlers p9_case_defs Let_def; rule exI, rule allI, rule refl)
  with assms(2) show ?thesis by blast
qed

lemma unknown_fid_run:
  assumes "request ops mem 0 i ds s" and msg: "p9_msg (sent mem ds s) rid tag fmt vs off" and "\<not> p9_req_in_progress s"
    and f: "(rid, fmt) \<in> set p9_formats" "rid \<in> fid_requests"
    and no: "fid_find1 (fid_list s) (uval_num vs 0) = None" and "p9_room ds s 4"
  shows "\<exists>m. virtio_9p_recv_request ops fops hst 0 i rsize wsize s = Some (Inr (0, answered m s))
    \<and> p9_replied mem ds i s 7 tag (put_le32 71) m"
proof -
  obtain k where "\<forall>s. p9_handler_of rid ops fops hst 0 i rid tag 7 s =
      with_args ops hst 0 i 7 fmt (\<lambda>vs off. with_fid (uval_num vs 0) (k vs off)) s"
    using handler_reads_fid [OF f] by blast
  then have "p9_handler_of rid ops fops hst 0 i rid tag 7 s = Some (Inr (Error (- P9_EPROTO), s))"
    by (simp add: with_args_run [OF assms(1) msg] with_fid_unknown [OF no])
  from recv_error [OF assms(1) _ assms(3) this assms(1) assms(7)] msg show ?thesis
    by (simp add: u32_of_int_def p9_msg_def)
qed

end
