(* ===== verification/Regs_Correct.thy ===== *)
theory Regs_Correct
  imports Device_Correct Virtio_9P
begin

text \<open>
  What the register interface promises the guest, over all devices: the invariant of the device under
  any sequence of accesses, totality of single accesses, the two transports compared, and the
  boundary cases of the configuration space and of a reset.
\<close>

unbundle bit_operations_syntax

section \<open>Sequences of accesses\<close>

text \<open>What a guest, and the worker thread on its behalf, can make a device do.\<close>

datatype guest_op =
  Mmio_Read u32 int | Mmio_Write u32 u32 int | Pci_Read u32 int | Pci_Write u32 u32 int | Notify nat

fun guest_op_run :: "'m fmem_ops \<Rightarrow> ('m, 'z) device_recv \<Rightarrow> ('m, 'z, unit) dev_vm option \<Rightarrow> guest_op \<Rightarrow> ('m, 'z, unit) dev_vm" where
  "guest_op_run ops recv cw (Mmio_Read off sz) = andthen (virtio_mmio_read off sz) (ret ())"
| "guest_op_run ops recv cw (Mmio_Write off v sz) = virtio_mmio_write cw off v sz"
| "guest_op_run ops recv cw (Pci_Read off sz) = andthen (virtio_pci_read off sz) (ret ())"
| "guest_op_run ops recv cw (Pci_Write off v sz) = virtio_pci_write cw off v sz"
| "guest_op_run ops recv cw (Notify q) = queue_notify ops recv q"

fun guest_run :: "'m fmem_ops \<Rightarrow> ('m, 'z) device_recv \<Rightarrow> ('m, 'z, unit) dev_vm option \<Rightarrow> guest_op list \<Rightarrow> ('m, 'z, unit) dev_vm" where
  "guest_run ops recv cw [] = ret ()"
| "guest_run ops recv cw (x # xs) = andthen (guest_op_run ops recv cw x) (guest_run ops recv cw xs)"

context virtio_callbacks
begin

lemma guest_op_inv: "keeps dev_inv (guest_op_run ops recv config_write x)"
  by (cases x) (auto intro!: keeps_intros mmio_write_inv pci_write_inv notify_inv keeps_pci_read)

lemma guest_run_inv: "keeps dev_inv (guest_run ops recv config_write xs)"
proof (induction xs)
  case Nil
  show ?case unfolding guest_run.simps by (rule keeps_ret)
next
  case (Cons x xs)
  then show ?case unfolding guest_run.simps by (intro keeps_andthen guest_op_inv)
qed

end

text \<open>New devices.\<close>

lemma config_poke_run:
  "unat off + length bs \<le> length (config_space s) \<Longrightarrow>
     config_poke off bs s = Some (Inr ((), s\<lparr>config_space := blit (config_space s) (unat off) bs\<rparr>))"
  using poke_nat [of "unat off" bs "config_space s"] by (simp add: config_poke_def bnd_run del: of_nat_unat)

lemma init_dev_config: "config_space (virtio_init_dev i c s) = replicate MAX_CONFIG_SPACE_SIZE 0"
  by (simp add: virtio_init_dev_def virtio_reset_def)

lemma init_9p_run:
  assumes "length tag \<le> 254"
  shows "virtio_9p_init f tag s = Some (Inr ((), (virtio_init_dev 9 (of_nat (2 + length tag)) s)\<lparr>device_features := 1,
     config_space := put_le16 (of_nat (length tag)) @ tag @ replicate (254 - length tag) 0,
     fs := f, msize := 8192, fid_list := [], p9_req_in_progress := False\<rparr>))"
proof -
  let ?s = "(virtio_init_dev 9 (of_nat (2 + length tag)) s)\<lparr>device_features := 1\<rparr>"
  have c: "config_space ?s = replicate 256 0" by (simp add: init_dev_config)
  have p0: "config_poke 0 (put_le16 (of_nat (length tag))) ?s =
      Some (Inr ((), ?s\<lparr>config_space := put_le16 (of_nat (length tag)) @ replicate 254 0\<rparr>))"
    using config_poke_run [of 0 "put_le16 (of_nat (length tag))" ?s] c by (simp add: le16.enc_length blit_def)
  have p2: "config_poke 2 tag (?s\<lparr>config_space := put_le16 (of_nat (length tag)) @ replicate 254 0\<rparr>) =
      Some (Inr ((), ?s\<lparr>config_space := put_le16 (of_nat (length tag)) @ tag @ replicate (254 - length tag) 0\<rparr>))"
    using config_poke_run [of 2 tag "?s\<lparr>config_space := put_le16 (of_nat (length tag)) @ replicate 254 0\<rparr>"] assms
    by (simp add: le16.enc_length blit_def)
  show ?thesis using p0 p2 by (simp add: virtio_9p_init_def Let_def andthen_run)
qed

lemma init_9p_inv: "virtio_9p_init f mount_tag s = Some (Inr ((), t)) \<Longrightarrow> dev_inv t"
  using wlp_D(1) [OF keeps_9p_init] .

lemma init_input_inv: "dev_inv (virtio_input_init type s)"
  using virtio_init_inv [of 18 256 "s\<lparr>buttons_state := 0\<rparr>"]
  by (auto simp: virtio_input_init_def Let_def dev_inv_def dest!: set_update_subset_insert [THEN subsetD])

text \<open>
  C32: whatever sequence of register accesses and notifications a guest performs on a new 9p device,
  and whatever its memory and the file system answer, a device that is still running satisfies the
  invariant: eight queues with power-of-two sizes, a valid selected queue, a configuration space of
  256 bytes, and an interrupt line that is high exactly while an interrupt is pending.
\<close>

theorem p9_invariant:
  assumes "virtio_9p_init f mount_tag s = Some (Inr ((), s1))"
    and "guest_run ops (virtio_9p_recv_request ops fops hst) None acts s1 = Some (Inr (u, t))"
  shows "dev_inv t"
  using keepsD [OF p9.guest_run_inv init_9p_inv [OF assms(1)] assms(2)] .

theorem p9_invariant_witness:
  "\<forall>ops fops hst f. \<exists>s t. virtio_9p_init f [0x72, 0x6f] (sample_dev 0 0 [] (virtio_9p_device.fields f 0 [] False)) = Some (Inr ((), s))
    \<and> guest_run ops (virtio_9p_recv_request ops fops hst) None [Mmio_Write 0x30 3 2, Mmio_Write 0x38 8 2] s = Some (Inr ((), t))
    \<and> dev_inv t"
proof (intro allI)
  fix ops fops hst f
  let ?s0 = "sample_dev 0 0 [] (virtio_9p_device.fields f 0 [] False)"
  obtain s where s: "virtio_9p_init f [0x72, 0x6f] ?s0 = Some (Inr ((), s))"
    using init_9p_run [of "[0x72, 0x6f]" f ?s0] by simp
  have i: "dev_inv (s\<lparr>queue_sel := 3\<rparr>)" using init_9p_inv [OF s] by (simp add: dev_inv_def)
  then obtain t where t: "guest_run ops (virtio_9p_recv_request ops fops hst) None [Mmio_Write 0x30 3 2, Mmio_Write 0x38 8 2] s = Some (Inr ((), t))"
    by (simp add: virtio_mmio_write_def write_queue_sel_def write_queue_num_def pow2_def andthen_run upd_sel_queue_run)
  from p9_invariant [OF s t] s t show "\<exists>s t. virtio_9p_init f [0x72, 0x6f] ?s0 = Some (Inr ((), s))
    \<and> guest_run ops (virtio_9p_recv_request ops fops hst) None [Mmio_Write 0x30 3 2, Mmio_Write 0x38 8 2] s = Some (Inr ((), t))
    \<and> dev_inv t" by blast
qed

text \<open>
  The same for an input device, whose configuration space answers what the guest selects there.
\<close>

theorem input_invariant:
  assumes "guest_run ops (virtio_input_recv_request ops) (Some virtio_input_config_write) acts
      (virtio_input_init type s) = Some (Inr (u, t))"
  shows "dev_inv t"
  using keepsD [OF inp.guest_run_inv init_input_inv assms] .

theorem input_invariant_witness:
  "\<exists>t. guest_run flat_ram (virtio_input_recv_request flat_ram) (Some virtio_input_config_write) [Mmio_Write 0x30 1 2]
      (virtio_input_init VIRTIO_INPUT_TYPE_MOUSE (sample_dev 0 0 [] (virtio_input_device.fields VIRTIO_INPUT_TYPE_MOUSE 0))) = Some (Inr ((), t))
    \<and> dev_inv t"
proof -
  let ?s = "virtio_input_init VIRTIO_INPUT_TYPE_MOUSE (sample_dev 0 0 [] (virtio_input_device.fields VIRTIO_INPUT_TYPE_MOUSE 0))"
  obtain t where t: "guest_run flat_ram (virtio_input_recv_request flat_ram) (Some virtio_input_config_write) [Mmio_Write 0x30 1 2] ?s = Some (Inr ((), t))"
    by (simp add: virtio_mmio_write_def write_queue_sel_def andthen_run)
  from input_invariant [OF t] t show ?thesis by blast
qed

section \<open>Single accesses\<close>

text \<open>
  On a device whose configuration space has at least four bytes, reading any register with any
  access size returns a value, without a fault and without a side effect.
\<close>

theorem mmio_read_ok:
  assumes "dev_inv s" and "config_ok s" and "sz \<in> {0, 1, 2}"
  shows "\<exists>v. virtio_mmio_read off sz s = Some (Inr (v, s))"
  using total_result [OF total_mmio_read mmio_read_safe, of s sz off] assms by auto

theorem mmio_read_ok_witness:
  "\<exists>v. virtio_mmio_read 0x104 2 (sample_dev 8 0 [] ()) = Some (Inr (v, sample_dev 8 0 [] ()))"
  by (rule mmio_read_ok [OF sample_inv]) (simp_all add: config_ok_def sample_dev_def)

text \<open>
  Writing any value to any register of an input device returns, and keeps the invariant.
\<close>

theorem input_mmio_write_ok:
  assumes "dev_inv s" and "config_ok s"
  shows "\<exists>t. virtio_mmio_write (Some virtio_input_config_write) off v sz s = Some (Inr ((), t)) \<and> dev_inv t"
proof -
  have cb: "wlp virtio_input_config_write (\<lambda>_ _. True) (\<lambda>_. False) (s\<lparr>config_space := c\<rparr>)" for c
    by (simp add: virtio_input_config_write_def wlp_simps)
  have tot: "total (virtio_mmio_write (Some virtio_input_config_write) off v sz)"
    by (rule total_mmio_write) (auto simp: virtio_input_config_write_def intro: total_intros)
  obtain t where t: "virtio_mmio_write (Some virtio_input_config_write) off v sz s = Some (Inr ((), t))"
    using total_result [OF tot mmio_write_safe [OF assms]] cb by auto
  from keepsD [OF inp.mmio_write_inv assms(1) t] t show ?thesis by blast
qed

theorem input_mmio_write_ok_witness:
  "\<exists>t. virtio_mmio_write (Some virtio_input_config_write) 0x100 0x11 0
      (sample_dev 256 0 [] (virtio_input_device.fields VIRTIO_INPUT_TYPE_MOUSE 0)) = Some (Inr ((), t)) \<and> dev_inv t"
  by (rule input_mmio_write_ok [OF sample_inv]) (simp add: config_ok_def sample_dev_def)

text \<open>
  C33: each register of the PCI block that has an MMIO register of the same name in the table
  \<open>pci_to_mmio\<close> behaves, for reads and for writes, exactly as that one.  The number of queues, the configuration
  generation, the interrupt status and the notification are not in the table.
\<close>

theorem pci_mmio_same:
  assumes "pci_to_mmio off sz = Some r"
  shows "virtio_pci_read off sz = virtio_mmio_read r 2 \<and> virtio_pci_write cw off v sz = virtio_mmio_write cw r v 2"
  using pci_read_as_mmio [OF assms] pci_write_as_mmio [OF assms] by blast

theorem pci_mmio_same_witness:
  "virtio_pci_read 0x16 1 = virtio_mmio_read 0x30 2 \<and> virtio_pci_write None 0x16 3 1 = virtio_mmio_write None 0x30 3 2"
  by (rule pci_mmio_same) simp

text \<open>
  \<open>virtio_9p_init\<close> publishes the length of the mount tag and the tag in the configuration space,
  and nothing else there; a tag of more than 254 bytes is written past the end of the array.
\<close>

theorem p9_init_tag:
  "virtio_9p_init f tag s =
    (if length tag \<le> 254 then
       Some (Inr ((), (virtio_init_dev 9 (of_nat (2 + length tag)) s)\<lparr>device_features := 1,
         config_space := put_le16 (of_nat (length tag)) @ tag @ replicate (254 - length tag) 0,
         fs := f, msize := 8192, fid_list := [], p9_req_in_progress := False\<rparr>))
     else Some (Inl OutOfBounds))"
proof (cases "length tag \<le> 254")
  case False
  let ?s = "(virtio_init_dev 9 (of_nat (2 + length tag)) s)\<lparr>device_features := 1\<rparr>"
  obtain c where p0: "config_poke 0 (put_le16 (of_nat (length tag))) ?s = Some (Inr ((), ?s\<lparr>config_space := c\<rparr>))" "length c = 256"
    using config_poke_run [of 0 "put_le16 (of_nat (length tag))" ?s] init_dev_config [of 9 "of_nat (2 + length tag)" s] by (simp add: le16.enc_length)
  have "poke c 2 tag = Inl OutOfBounds" using p0(2) False by (auto simp: poke_def in_array_def)
  then have p2: "config_poke 2 tag (?s\<lparr>config_space := c\<rparr>) = Some (Inl OutOfBounds)"
    by (simp add: config_poke_def bnd_run)
  show ?thesis using p0 p2 False by (simp add: virtio_9p_init_def Let_def andthen_run)
qed (simp add: init_9p_run)

lemma word_cat_halves: "ucast (word_cat hi lo :: u64) = (lo :: u32)" "high32 (word_cat hi lo) = hi"
proof -
  have "ucast (set_high32 a hi) = (ucast a :: u32)" for a
    unfolding set_high32_def low_mask by (rule bit_word_eqI) (auto simp: bit_simps)
  then show "ucast (word_cat hi lo :: u64) = lo" "high32 (word_cat hi lo) = hi"
    by (simp_all flip: set_low_high [of 0])
qed

text \<open>
  Programming a queue address in two halves and reading it back: the queue selected holds exactly
  the 64-bit address, both halves read back as written, and no other queue changes.
\<close>

theorem queue_address_roundtrip:
  assumes "dev_inv s"
  shows "\<exists>t. andthen (virtio_mmio_write cw VIRTIO_MMIO_QUEUE_DESC_LOW lo 2) (virtio_mmio_write cw VIRTIO_MMIO_QUEUE_DESC_HIGH hi 2) s = Some (Inr ((), t))
    \<and> desc_addr (queue t ! unat (queue_sel t)) = word_cat hi lo \<and> queue_sel t = queue_sel s
    \<and> (\<forall>q. q \<noteq> unat (queue_sel s) \<longrightarrow> queue t ! q = queue s ! q)
    \<and> virtio_mmio_read VIRTIO_MMIO_QUEUE_DESC_LOW 2 t = Some (Inr (lo, t))
    \<and> virtio_mmio_read VIRTIO_MMIO_QUEUE_DESC_HIGH 2 t = Some (Inr (hi, t))"
proof -
  let ?i = "unat (queue_sel s)" and ?q = "queue s ! unat (queue_sel s)"
  let ?s1 = "s\<lparr>queue := (queue s)[?i := ?q\<lparr>desc_addr := set_low32 (desc_addr ?q) lo\<rparr>]\<rparr>"
  let ?t = "s\<lparr>queue := (queue s)[?i := ?q\<lparr>desc_addr := word_cat hi lo\<rparr>]\<rparr>"
  have i: "?i < length (queue s)" using assms by (simp add: dev_inv_def)
  have w1: "virtio_mmio_write cw VIRTIO_MMIO_QUEUE_DESC_LOW lo 2 s = Some (Inr ((), ?s1))"
    by (simp add: virtio_mmio_write_def upd_sel_queue_run [OF assms])
  have inv1: "dev_inv ?s1" and inv2: "dev_inv ?t"
    using assms i by (auto simp: dev_inv_def dest!: set_update_subset_insert [THEN subsetD])
  have w2: "virtio_mmio_write cw VIRTIO_MMIO_QUEUE_DESC_HIGH hi 2 ?s1 = Some (Inr ((), ?t))"
    using i by (simp add: virtio_mmio_write_def upd_sel_queue_run [OF inv1] set_low_high)
  have r: "virtio_mmio_read VIRTIO_MMIO_QUEUE_DESC_LOW 2 ?t = Some (Inr (lo, ?t))"
    "virtio_mmio_read VIRTIO_MMIO_QUEUE_DESC_HIGH 2 ?t = Some (Inr (hi, ?t))"
    using i by (simp_all add: virtio_mmio_read_def sel_queue_run [OF inv2] word_cat_halves)
  show ?thesis using w1 w2 r i by (intro exI [of _ ?t]) (simp add: andthen_run)
qed

theorem queue_address_roundtrip_witness:
  "\<exists>t. andthen (virtio_mmio_write None 0x80 0x1000 2) (virtio_mmio_write None 0x84 1 2) (sample_dev 8 0 [] ()) = Some (Inr ((), t))
    \<and> desc_addr (queue t ! unat (queue_sel t)) = 0x100001000"
  using queue_address_roundtrip [OF sample_inv, of None "0x1000" 1 8 0 "[]" "()"] by (auto simp: set_low32_def set_high32_def simp flip: set_low_high [of 0])

section \<open>Boundary cases\<close>

text \<open>
  C34: the bound \<open>config_space_size - 3\<close> is computed in unsigned arithmetic.  On a device without a
  configuration space, such as the entropy device, it wraps, and a guest that reads a word behind
  the array makes the device access memory outside it.
\<close>

theorem config_read_underflows:
  assumes "dev_inv s" and "config_space_size s = 0" and "253 \<le> unat off" "off < - 3"
  shows "virtio_config_read off 2 s = Some (Inl OutOfBounds)"
proof -
  have "length (config_space s) = 256" using assms(1) by (simp add: dev_inv_def)
  then have "peek (config_space s) (int (unat off)) 4 = Inl OutOfBounds"
    using assms(3) by (auto simp: peek_def in_array_def simp del: of_nat_unat)
  then show ?thesis using assms(2,4) by (simp add: virtio_config_read_def config_peek_def bnd_run del: of_nat_unat)
qed

theorem config_read_underflows_witness:
  "virtio_config_read 0x1000 2 (sample_dev 0 0 [] ()) = Some (Inl OutOfBounds)"
  by (rule config_read_underflows [OF sample_inv]) (simp_all add: sample_dev_def)

text \<open>
  C35: a reset clears the position \<open>last_avail_idx\<close> of a queue but not \<open>avail_idx\<close>.  A guest that
  resets the network device and enables the receive queue again, before it has offered a single
  buffer, finds the device ready to write a packet.
\<close>

theorem reset_keeps_stale_buffers:
  assumes "dev_inv s" and "avail_idx (queue s ! 0) \<noteq> 0"
  shows "\<exists>t. andthen (virtio_mmio_write cw VIRTIO_MMIO_STATUS 0 2) (virtio_mmio_write cw VIRTIO_MMIO_QUEUE_READY 1 2) s = Some (Inr ((), t))
    \<and> virtio_net_can_write_packet t = Some (Inr (True, t))"
proof -
  let ?s1 = "virtio_reset (s\<lparr>status := 0, irq := 0\<rparr>)"
  let ?t = "?s1\<lparr>queue := (queue ?s1)[0 := (queue ?s1 ! 0)\<lparr>ready := 1\<rparr>]\<rparr>"
  have w1: "virtio_mmio_write cw VIRTIO_MMIO_STATUS 0 2 s = Some (Inr ((), ?s1))"
    by (simp add: virtio_mmio_write_def write_status_def andthen_run set_irq_def)
  have inv: "dev_inv ?s1" using assms(1) by (auto simp: dev_inv_def virtio_reset_def reset_queue_def pow2_def)
  have w2: "virtio_mmio_write cw VIRTIO_MMIO_QUEUE_READY 1 2 ?s1 = Some (Inr ((), ?t))"
    using upd_sel_queue_run [OF inv, of "\<lambda>qs. qs\<lparr>ready := 1\<rparr>"] by (simp add: virtio_mmio_write_def) (simp add: virtio_reset_def)
  have q: "0 < length (queue ?t)" "queue ?t ! 0 = (reset_queue (queue s ! 0))\<lparr>ready := 1\<rparr>"
    using assms(1) by (simp_all add: virtio_reset_def dev_inv_def)
  have "get_queue 0 ?t = Some (Inr (queue ?t ! 0, ?t))" unfolding get_queue_def using q(1) by simp
  then have "virtio_net_can_write_packet ?t = Some (Inr (True, ?t))"
    unfolding virtio_net_can_write_packet_def q(2) using assms(2) by (simp add: bnd_run reset_queue_def)
  with w1 w2 show ?thesis by (intro exI [of _ ?t]) (simp add: andthen_run)
qed

theorem reset_keeps_stale_buffers_witness:
  "\<exists>t. andthen (virtio_mmio_write None VIRTIO_MMIO_STATUS 0 2) (virtio_mmio_write None VIRTIO_MMIO_QUEUE_READY 1 2) (sample_net 0 []) = Some (Inr ((), t))
    \<and> virtio_net_can_write_packet t = Some (Inr (True, t))"
  by (rule reset_keeps_stale_buffers) (simp_all add: sample_net_def sample_inv)
end
