(* ===== verification/P9_Correct.thy ===== *)
theory P9_Correct
  imports Sample Virtio_9P
begin

text \<open>
  What the 9p device promises: messages survive the wire, requests act on the table of file
  identifiers and on the file system as the protocol says, and a request that cannot be carried out
  is answered with an error and changes nothing.
\<close>

unbundle bit_operations_syntax

section \<open>A sample device\<close>

text \<open>
  For the witnesses: a file system whose state is the list of the files given back to it and the
  contents of its only file, and a device with a given table of identifiers.
\<close>

definition nil_qid :: fsqid where
  "nil_qid = \<lparr>qtype = 0, qversion = 0, qpath = 0\<rparr>"

definition sample_stat :: fsstat where
  "sample_stat = \<lparr>st_qid = nil_qid, st_mode = 0, st_uid = 0, st_gid = 0, st_nlink = 1, st_rdev = 0, st_size = 0,
     st_blksize = 0, st_blocks = 0, st_atime_sec = 0, st_atime_nsec = 0, st_mtime_sec = 0, st_mtime_nsec = 0,
     st_ctime_sec = 0, st_ctime_nsec = 0\<rparr>"

definition sample_fs :: "(nat, nat list \<times> bytes) fs_ops" where
  "sample_fs = \<lparr>fs_delete = \<lambda>h. modify (\<lambda>(ds, c). (h # ds, c)),
     fs_statfs = ret \<lparr>f_bsize = 0, f_blocks = 0, f_bfree = 0, f_bavail = 0, f_files = 0, f_ffree = 0\<rparr>,
     fs_attach = \<lambda>_ _ _. ret (0, 1, nil_qid),
     fs_walk = \<lambda>h ns. ret (- 2, h, []),
     fs_mkdir = \<lambda>_ _ _ _. ret (- 2, nil_qid),
     fs_open = \<lambda>_ _. ret (0, nil_qid),
     fs_create = \<lambda>_ _ _ _ _. ret (- 2, nil_qid),
     fs_stat = \<lambda>_. ret (0, sample_stat),
     fs_setattr = \<lambda>_ _ _ _ _ _ _ _ _ _. ret (- 2),
     fs_readdir = \<lambda>_ _ buf _. ret (0, buf),
     fs_read = \<lambda>_ _ buf _. ret (0, buf),
     fs_write = \<lambda>_ _ buf n. andthen (modify (\<lambda>(ds, c). (ds, c @ take (nat n) buf))) (ret n),
     fs_link = \<lambda>_ _ _. ret (- 2), fs_symlink = \<lambda>_ _ _ _. ret (- 2, nil_qid), fs_mknod = \<lambda>_ _ _ _ _ _. ret (- 2, nil_qid),
     fs_readlink = \<lambda>_ buf _. ret (- 2, buf), fs_renameat = \<lambda>_ _ _ _. ret (- 2), fs_unlinkat = \<lambda>_ _. ret (- 2),
     fs_lock = \<lambda>_ _. ret 0, fs_getlock = \<lambda>_ l. ret (0, l)\<rparr>"

definition sample_host :: p9_host where
  "sample_host = \<lparr>junk = \<lambda>_. 0, va_high = 0, lock_type_ptr = 0, lock_start_ptr = 0, lock_length_ptr = 0,
     lock_proc_id_ptr = 0, lock_client_id_mem = [0]\<rparr>"

definition sample_9p :: "nat \<Rightarrow> bytes \<Rightarrow> (u32 \<times> nat) list \<Rightarrow> (ram, nat, nat list \<times> bytes) virtio_9p_device" where
  "sample_9p w hdr l = sample_dev 4 w hdr (virtio_9p_device.fields ([], []) 8192 l False)"

lemma sample_9p_sel [simp]:
  "fs (sample_9p w hdr l) = ([], [])" "fid_list (sample_9p w hdr l) = l" "\<not> p9_req_in_progress (sample_9p w hdr l)"
  by (simp_all add: sample_9p_def sample_dev_def virtio_9p_device.defs)

lemma sample_9p_request:
  assumes "length hdr \<le> 0xf000" and "w \<le> 0x10000"
  shows "request flat_ram id 0 0 (sample_chain w hdr) (sample_9p w hdr l)"
    and "sent id (sample_chain w hdr) (sample_9p w hdr l) = hdr"
    and "n + 7 \<le> w \<Longrightarrow> p9_room (sample_chain w hdr) (sample_9p w hdr l) n"
proof -
  let ?x = "virtio_9p_device.fields ([] :: nat list, [] :: bytes) 8192 l False"
  show "request flat_ram id 0 0 (sample_chain w hdr) (sample_9p w hdr l)"
    unfolding sample_9p_def by (rule sample_request [OF assms]) simp
  show "sent id (sample_chain w hdr) (sample_9p w hdr l) = hdr"
    unfolding sample_9p_def by (rule sample_sent_dev [OF assms(1)])
  have d: "desc_addr (queue (sample_9p w hdr l) ! 0) = 0xc0000000" by (simp add: sample_9p_def)
  show "p9_room (sample_chain w hdr) (sample_9p w hdr l) n" if "n + 7 \<le> w"
    unfolding p9_room_def d sample_writable [OF assms(2)]
    using that assms(2) sample_apart(2) [OF assms(2), of "length hdr"] by simp
qed

text \<open>A request of type \<open>rid\<close> with tag 1 and the arguments \<open>args\<close>, followed by \<open>data\<close>.\<close>

definition sample_msg :: "u8 \<Rightarrow> bytes \<Rightarrow> bytes" where
  "sample_msg rid body = [0, 0, 0, 0, rid, 1, 0] @ body"

lemma sample_msg_ok:
  assumes "marshall 0 1024 fmt args = Inr bs" and "read_format fmt" and "length (sample_msg rid (bs @ data)) < 2147483648"
  shows "p9_msg (sample_msg rid (bs @ data)) rid 1 fmt (map2 (uval_of 0) fmt args) (7 + length bs)"
proof -
  define pre where "pre = [0, 0, 0, 0, rid, 1, 0 :: u8]"
  have l: "length pre = 7" by (simp add: pre_def)
  have "parse (sample_msg rid (bs @ data)) 7 fmt = Some (map2 (uval_of 0) fmt args, 7 + length bs)"
    using parse_marshall [OF assms(1,2), of pre data] unfolding l by (simp add: sample_msg_def pre_def)
  moreover have "p9_head (sample_msg rid (bs @ data)) rid 1"
    using assms(3) by (simp add: p9_head_def sample_msg_def get_le16_def)
  ultimately show ?thesis using assms(2) by (simp add: p9_msg_def)
qed

section \<open>Messages\<close>

text \<open>
  C36: arguments written by \<open>marshall\<close> and sent by the guest at an offset of a message are exactly
  what \<open>unmarshall\<close> returns there, with the offset behind them, for every format of integers and
  strings.
\<close>

theorem p9_wire_roundtrip:
  assumes "marshall vh space fmt args = Inr bs" and "read_format fmt"
    and "request ops mem q i ds s" and "sent mem ds s = pre @ bs @ post" and "length (sent mem ds s) < 2147483648"
  shows "unmarshall ops jk q i (int (length pre)) fmt s =
    Some (Inr (Some (map2 (uval_of vh) fmt args, int (length pre + length bs)), s))"
  using unmarshall_run [OF assms(3,5,2), of "length pre" jk] parse_marshall [OF assms(1,2), of pre post] assms(4)
  by simp

theorem p9_wire_roundtrip_witness:
  "unmarshall flat_ram (\<lambda>_. 0) 0 0 7 ''wd'' (sample_9p 0 (sample_msg 24 (put_le32 5 @ put_le64 6)) []) =
    Some (Inr (Some ([UNum 5, UNum 6], 19), sample_9p 0 (sample_msg 24 (put_le32 5 @ put_le64 6)) []))"
proof -
  let ?bs = "put_le32 5 @ put_le64 6"
  have m: "marshall 0 1024 ''wd'' [VInt 5, VLong 6] = Inr ?bs" by (simp add: marshall_one_def le32.enc_length)
  have f: "read_format ''wd''" by (simp add: read_format_def)
  have L: "length (sample_msg 24 ?bs) \<le> 0xf000" "(0 :: nat) \<le> 0x10000"
    by (simp_all add: sample_msg_def le32.enc_length le64.enc_length)
  note s = sample_9p_request [OF L, where l = "[]"]
  have S: "sent id (sample_chain 0 (sample_msg 24 ?bs)) (sample_9p 0 (sample_msg 24 ?bs) []) = [0, 0, 0, 0, 24, 1, 0] @ ?bs @ []"
    unfolding s(2) by (simp add: sample_msg_def)
  from p9_wire_roundtrip [OF m f s(1) S, of "\<lambda>_. 0"] L(1) show ?thesis
    unfolding s(2) by (simp add: uval_of_def le32.enc_length le64.enc_length)
qed

section \<open>Requests\<close>

text \<open>
  A successful attach binds the identifier the guest chose to the file the file system returned,
  leaves every other identifier alone, gives a file the identifier named before back to the file
  system, and answers with the qid.
\<close>

theorem p9_attach_binds:
  assumes rq: "request ops mem 0 i ds s" and msg: "p9_msg (sent mem ds s) 104 tag ''wwssw'' vs off"
    and "\<not> p9_req_in_progress s" and ok: "fids_ok (fid_list s)" and room: "p9_room ds s 13"
    and att: "fs_attach fops (uval_num vs 4) (uval_str vs 2) (uval_str vs 3) (fs s) = Some (Inr ((0, f, qid), fs1))"
    and del: "case fid_find1 (fid_list s) (uval_num vs 0) of None \<Rightarrow> fs2 = fs1
       | Some h \<Rightarrow> fs_delete fops h fs1 = Some (Inr ((), fs2))"
  shows "\<exists>m l. virtio_9p_recv_request ops fops hst 0 i rsize wsize s = Some (Inr (0, answered m (s\<lparr>fs := fs2, fid_list := l\<rparr>)))
    \<and> fids_ok l \<and> fid_find1 l = (fid_find1 (fid_list s))(uval_num vs 0 \<mapsto> f)
    \<and> p9_replied mem ds i s 105 tag (qid_bytes qid) m"
proof -
  let ?fid = "uval_num vs 0 :: u32"
  let ?l = "fids_insert ?fid f (fid_list s)"
  let ?t = "s\<lparr>fs := fs2, fid_list := ?l\<rparr>"
  have set: "fid_set fops ?fid f (s\<lparr>fs := fs1\<rparr>) = Some (Inr ((), ?t))"
    using fid_set_run [where s = "s\<lparr>fs := fs1\<rparr>" and fid = ?fid and f = fs2 and fops = fops and fd = f] del by (simp split: option.splits)
  have q: "marshall (va_high hst) 1024 ''Q'' [VQid qid] = Inr (qid_bytes qid)" "length (qid_bytes qid) = 13"
    by (simp_all add: marshall_one_def qid_bytes_def le32.enc_length le64.enc_length)
  obtain m where m: "reply ops hst 0 i 104 tag ''Q'' [VQid qid] ?t = Some (Inr (Sent, answered m ?t))"
    "p9_replied mem ds i ?t 105 tag (qid_bytes qid) m"
    using reply_run [of ops mem i ds ?t "qid_bytes qid" hst "''Q''" "[VQid qid]" 104 tag] rq room q by auto
  have "p9_handler_of 104 ops fops hst 0 i 104 tag 7 s = Some (Inr (Sent, answered m ?t))"
    using set m(1) att
    by (simp add: p9_handlers virtio_9p_attach_def with_args_run [OF rq msg] on_fs_run bnd_run andthen_run Let_def)
  from recv_sent [OF rq _ assms(3) this] msg m(2) fids.ok_insert [OF ok] fids.find_insert [OF ok]
  show ?thesis by (intro exI [of _ m] exI [of _ ?l]) (simp add: p9_msg_def)
qed

theorem p9_attach_binds_witness:
  "\<exists>t l. virtio_9p_recv_request flat_ram sample_fs sample_host 0 0 26 32
      (sample_9p 32 (sample_msg 104 (put_le32 5 @ put_le32 0 @ put_le16 0 @ put_le16 0 @ put_le32 0)) []) = Some (Inr (0, t))
    \<and> fid_find1 (fid_list t) 5 = Some 1 \<and> fs t = ([], [])"
proof -
  let ?bs = "put_le32 5 @ put_le32 0 @ put_le16 0 @ put_le16 0 @ put_le32 0" and ?args = "[VInt 5, VInt 0, VStr [0], VStr [0], VInt 0]"
  let ?s = "sample_9p 32 (sample_msg 104 (?bs @ [])) []" and ?vs = "map2 (uval_of 0) ''wwssw'' ?args"
  have m: "marshall 0 1024 ''wwssw'' ?args = Inr ?bs"
    by (simp add: marshall_one_def le32.enc_length le16.enc_length strlen_def)
  have f: "read_format ''wwssw''" by (simp add: read_format_def)
  have L: "length (sample_msg 104 (?bs @ [])) \<le> 0xf000" "(32 :: nat) \<le> 0x10000"
    by (simp_all add: sample_msg_def le32.enc_length le16.enc_length)
  note s = sample_9p_request [OF L, where l = "[]"]
  have msg: "p9_msg (sent id (sample_chain 32 (sample_msg 104 (?bs @ []))) ?s) 104 1 ''wwssw'' ?vs (7 + length ?bs)"
    unfolding s(2) by (rule sample_msg_ok [OF m f]) (use L(1) in linarith)
  have ok: "fids_ok (fid_list ?s)" by (simp add: fids_ok_def)
  have room: "p9_room (sample_chain 32 (sample_msg 104 (?bs @ []))) ?s 13" by (rule s(3)) simp
  have att: "fs_attach sample_fs (uval_num ?vs 4) (uval_str ?vs 2) (uval_str ?vs 3) (fs ?s) = Some (Inr ((0, 1, nil_qid), ([], [])))"
    by (simp add: sample_fs_def)
  have none: "case fid_find1 (fid_list ?s) (uval_num ?vs 0) of None \<Rightarrow> ([], []) = ([], []) | Some h \<Rightarrow> fs_delete sample_fs h ([], []) = Some (Inr ((), ([], [])))"
    by simp
  have fid: "uval_num ?vs 0 = (5 :: u32)" by (simp add: uval_num_def uval_of_def)
  from p9_attach_binds [OF s(1) msg sample_9p_sel(3) ok room att none, of sample_host 26 32] show ?thesis
    unfolding fid by auto
qed

text \<open>
  A clunk gives the file behind the identifier back to the file system, forgets the identifier
  and answers; a clunk of an unknown identifier answers and changes nothing.
\<close>

theorem p9_clunk_forgets:
  assumes rq: "request ops mem 0 i ds s" and msg: "p9_msg (sent mem ds s) 120 tag ''w'' vs off"
    and "\<not> p9_req_in_progress s" and ok: "fids_ok (fid_list s)" and room: "p9_room ds s 0"
    and del: "case fid_find1 (fid_list s) (uval_num vs 0) of None \<Rightarrow> f = fs s
       | Some h \<Rightarrow> fs_delete fops h (fs s) = Some (Inr ((), f))"
  shows "\<exists>m l. virtio_9p_recv_request ops fops hst 0 i rsize wsize s = Some (Inr (0, answered m (s\<lparr>fs := f, fid_list := l\<rparr>)))
    \<and> fids_ok l \<and> fid_find1 l = (fid_find1 (fid_list s))(uval_num vs 0 := None)
    \<and> p9_replied mem ds i s 121 tag [] m"
proof -
  let ?fid = "uval_num vs 0 :: u32"
  let ?l = "list_del_fid ?fid (fid_list s)"
  let ?t = "s\<lparr>fs := f, fid_list := ?l\<rparr>"
  have "fid_delete fops ?fid s = Some (Inr ((), ?t))" by (rule fid_delete_run [OF del])
  moreover obtain m where m: "reply_raw ops 0 i 120 tag [] 0 ?t = Some (Inr (Sent, answered m ?t))"
    "p9_replied mem ds i ?t 121 tag [] m"
    using reply_raw_run [of ops mem i ds ?t 0 "[]" 120 tag] rq room by auto
  ultimately have "p9_handler_of 120 ops fops hst 0 i 120 tag 7 s = Some (Inr (Sent, answered m ?t))"
    by (simp add: p9_handlers virtio_9p_clunk_def with_args_run [OF rq msg] andthen_run)
  from recv_sent [OF rq _ assms(3) this] msg m(2) fids.ok_remove [OF ok] fids.find_remove [OF ok]
  show ?thesis by (intro exI [of _ m] exI [of _ ?l]) (simp add: p9_msg_def)
qed

theorem p9_clunk_forgets_witness:
  "\<exists>t. virtio_9p_recv_request flat_ram sample_fs sample_host 0 0 11 32 (sample_9p 32 (sample_msg 120 (put_le32 5)) [(5, 9)]) = Some (Inr (0, t))
    \<and> fid_find1 (fid_list t) 5 = None \<and> fs t = ([9], [])"
proof -
  let ?bs = "put_le32 5" and ?vs = "map2 (uval_of 0) ''w'' [VInt 5]"
  let ?hdr = "sample_msg 120 (?bs @ [])"
  let ?s = "sample_9p 32 ?hdr [(5, 9)]"
  have m: "marshall 0 1024 ''w'' [VInt 5] = Inr ?bs" by (simp add: marshall_one_def)
  have f: "read_format ''w''" by (simp add: read_format_def)
  have L: "length ?hdr \<le> 0xf000" "(32 :: nat) \<le> 0x10000" by (simp_all add: sample_msg_def le32.enc_length)
  note s = sample_9p_request [OF L, where l = "[(5, 9)]"]
  have msg: "p9_msg (sent id (sample_chain 32 ?hdr) ?s) 120 1 ''w'' ?vs (7 + length ?bs)"
    unfolding s(2) by (rule sample_msg_ok [OF m f]) (use L(1) in linarith)
  have ok: "fids_ok (fid_list ?s)" by (simp add: fids_ok_def)
  have room: "p9_room (sample_chain 32 ?hdr) ?s 0" by (rule s(3)) simp
  have fid: "uval_num ?vs 0 = (5 :: u32)" by (simp add: uval_num_def uval_of_def)
  have del: "case fid_find1 (fid_list ?s) (uval_num ?vs 0) of None \<Rightarrow> ([9], []) = fs ?s
      | Some h \<Rightarrow> fs_delete sample_fs h (fs ?s) = Some (Inr ((), ([9], [])))"
    unfolding fid by (simp add: sample_fs_def)
  from p9_clunk_forgets [OF s(1) msg sample_9p_sel(3) ok room del, of sample_host 11 32] show ?thesis
    unfolding fid by auto
qed

text \<open>
  C37: a write request on a bound identifier calls the file system once, with the offset of the
  request and exactly the bytes that follow its arguments, and answers with the number of bytes the
  file system took.
\<close>

theorem p9_write_through:
  assumes rq: "request ops mem 0 i ds s" and msg: "p9_msg (sent mem ds s) 118 tag ''wdw'' vs off"
    and "\<not> p9_req_in_progress s" and room: "p9_room ds s 4"
    and fid: "fid_find1 (fid_list s) (uval_num vs 0) = Some h"
    and n: "n = unat (uval_num vs 2 :: u32)" "off + n \<le> length (sent mem ds s)"
    and w: "fs_write fops h (uval_num vs 1) (take n (drop off (sent mem ds s))) (int n) (fs s) = Some (Inr (int k, f))" "k < 2147483648"
  shows "\<exists>m. virtio_9p_recv_request ops fops hst 0 i rsize wsize s = Some (Inr (0, answered m (s\<lparr>fs := f\<rparr>)))
    \<and> p9_replied mem ds i s 119 tag (put_le32 (of_nat k)) m"
proof -
  let ?S = "sent mem ds s" and ?t = "s\<lparr>fs := f\<rparr>"
  have S: "length ?S < 2147483648" using msg by (simp add: p9_msg_def p9_head_def)
  have c: "int_of_u32 (uval_num vs 2) = int n" using n S by (simp add: int_of_u32_small)
  have data: "memcpy_from_queue ops (malloc (junk hst) (int n)) 0 i (int off) (int n) s = Some (Inr ((0, take n (drop off ?S)), s))"
    using request_read [OF rq, of off n "malloc (junk hst) (int n)"] n(2) S by simp
  have b: "marshall (va_high hst) 1024 ''w'' [VInt (u32_of_int (int k))] = Inr (put_le32 (of_nat k))" "length (put_le32 (of_nat k)) = 4"
    by (simp_all add: marshall_one_def le32.enc_length u32_of_int_def)
  obtain m where m: "reply ops hst 0 i 118 tag ''w'' [VInt (u32_of_int (int k))] ?t = Some (Inr (Sent, answered m ?t))"
    "p9_replied mem ds i ?t 119 tag (put_le32 (of_nat k)) m"
    using reply_run [of ops mem i ds ?t "put_le32 (of_nat k)" hst "''w''" "[VInt (u32_of_int (int k))]" 118 tag] rq room b by auto
  have "p9_handler_of 118 ops fops hst 0 i 118 tag 7 s = Some (Inr (Sent, answered m ?t))"
    using data m(1) w(1) c
    by (simp add: p9_handlers virtio_9p_write_def with_args_run [OF rq msg] with_fid_run [OF fid] on_fs_run bnd_run n(1) [symmetric] Let_def del: of_nat_unat)
  from recv_sent [OF rq _ assms(3) this] msg m(2) show ?thesis by (auto simp: p9_msg_def)
qed

theorem p9_write_through_witness:
  "\<exists>t. virtio_9p_recv_request flat_ram sample_fs sample_host 0 0 26 32
      (sample_9p 32 (sample_msg 118 (put_le32 5 @ put_le64 0 @ put_le32 3 @ [7, 8, 9])) [(5, 9)]) = Some (Inr (0, t))
    \<and> fs t = ([], [7, 8, 9])"
proof -
  define bs where "bs = put_le32 5 @ put_le64 0 @ put_le32 3"
  let ?args = "[VInt 5, VLong 0, VInt 3]"
  let ?vs = "map2 (uval_of 0) ''wdw'' ?args" and ?hdr = "sample_msg 118 (bs @ [7, 8, 9])"
  let ?s = "sample_9p 32 ?hdr [(5, 9)]"
  have lb: "length bs = 16" by (simp add: bs_def le32.enc_length le64.enc_length)
  have m: "marshall 0 1024 ''wdw'' ?args = Inr bs" by (simp add: bs_def marshall_one_def le32.enc_length le64.enc_length)
  have f: "read_format ''wdw''" by (simp add: read_format_def)
  have L: "length ?hdr \<le> 0xf000" "(32 :: nat) \<le> 0x10000" by (simp_all add: sample_msg_def lb)
  note s = sample_9p_request [OF L, where l = "[(5, 9)]"]
  have msg: "p9_msg (sent id (sample_chain 32 ?hdr) ?s) 118 1 ''wdw'' ?vs (7 + length bs)"
    unfolding s(2) by (rule sample_msg_ok [OF m f]) (use L(1) in linarith)
  have room: "p9_room (sample_chain 32 ?hdr) ?s 4" by (rule s(3)) simp
  have fid: "fid_find1 (fid_list ?s) (uval_num ?vs 0) = Some 9" by (simp add: uval_num_def uval_of_def)
  have n: "3 = unat (uval_num ?vs 2 :: u32)" by (simp add: uval_num_def uval_of_def)
  have fit: "7 + length bs + 3 \<le> length (sent id (sample_chain 32 ?hdr) ?s)" unfolding s(2) by (simp add: sample_msg_def)
  have w: "fs_write sample_fs 9 (uval_num ?vs 1) (take 3 (drop (7 + length bs) (sent id (sample_chain 32 ?hdr) ?s))) (int 3) (fs ?s) =
      Some (Inr (int 3, ([], [7, 8, 9])))"
    unfolding s(2) by (simp add: sample_fs_def sample_msg_def lb andthen_run)
  have "\<exists>m. virtio_9p_recv_request flat_ram sample_fs sample_host 0 0 26 32 ?s = Some (Inr (0, answered m (?s\<lparr>fs := ([], [7, 8, 9])\<rparr>)))"
    using p9_write_through [OF s(1) msg sample_9p_sel(3) room fid n fit w, of sample_host 26 32] by auto
  then show ?thesis by (auto simp: bs_def)
qed

section \<open>Refusals\<close>

text \<open>
  C38: a request whose arguments do not fit its format, because the message is cut short or a string
  runs past its end, is answered with the error EPROTO; the file system and the identifiers do not
  change.
\<close>

theorem p9_malformed:
  assumes "request ops mem 0 i ds s" and "p9_head (sent mem ds s) rid tag" and "\<not> p9_req_in_progress s"
    and "(rid, fmt) \<in> set p9_formats" and "parse (sent mem ds s) 7 fmt = None" and "p9_room ds s 4"
  shows "\<exists>m. virtio_9p_recv_request ops fops hst 0 i rsize wsize s = Some (Inr (0, answered m s))
    \<and> p9_replied mem ds i s 7 tag (put_le32 71) m"
  by (rule malformed_run [OF assms])

theorem p9_malformed_witness:
  "\<exists>m. virtio_9p_recv_request flat_ram sample_fs sample_host 0 0 9 32 (sample_9p 32 (sample_msg 120 [5, 0]) []) =
    Some (Inr (0, answered m (sample_9p 32 (sample_msg 120 [5, 0]) [])))"
proof -
  let ?hdr = "sample_msg 120 [5, 0]"
  let ?s = "sample_9p 32 ?hdr []"
  have L: "length ?hdr \<le> 0xf000" "(32 :: nat) \<le> 0x10000" by (simp_all add: sample_msg_def)
  note s = sample_9p_request [OF L, where l = "[]"]
  have hd: "p9_head (sent id (sample_chain 32 ?hdr) ?s) 120 1"
    unfolding s(2) by (simp add: p9_head_def sample_msg_def get_le16_def)
  have bad: "parse (sent id (sample_chain 32 ?hdr) ?s) 7 ''w'' = None"
    unfolding s(2) by (simp add: sample_msg_def parse_one_def parse_num_def)
  have fm: "(120, ''w'') \<in> set p9_formats" by (simp add: p9_formats_def)
  have room: "p9_room (sample_chain 32 ?hdr) ?s 4" by (rule s(3)) simp
  from p9_malformed [OF s(1) hd sample_9p_sel(3) fm bad room, of sample_fs sample_host 9 32] show ?thesis by blast
qed

text \<open>
  The fifteen requests that act on one identifier answer EPROTO when no file is bound to it, and
  change nothing.
\<close>

theorem p9_unknown_fid:
  assumes "request ops mem 0 i ds s" and "p9_msg (sent mem ds s) rid tag fmt vs off" and "\<not> p9_req_in_progress s"
    and "(rid, fmt) \<in> set p9_formats" "rid \<in> fid_requests"
    and "fid_find1 (fid_list s) (uval_num vs 0) = None" and "p9_room ds s 4"
  shows "\<exists>m. virtio_9p_recv_request ops fops hst 0 i rsize wsize s = Some (Inr (0, answered m s))
    \<and> p9_replied mem ds i s 7 tag (put_le32 71) m"
  by (rule unknown_fid_run [OF assms])

theorem p9_unknown_fid_witness:
  "\<exists>m. virtio_9p_recv_request flat_ram sample_fs sample_host 0 0 11 32 (sample_9p 32 (sample_msg 22 (put_le32 6)) [(5, 9)]) =
    Some (Inr (0, answered m (sample_9p 32 (sample_msg 22 (put_le32 6)) [(5, 9)])))"
proof -
  let ?bs = "put_le32 6" and ?vs = "map2 (uval_of 0) ''w'' [VInt 6]"
  let ?hdr = "sample_msg 22 (?bs @ [])"
  let ?s = "sample_9p 32 ?hdr [(5, 9)]"
  have m: "marshall 0 1024 ''w'' [VInt 6] = Inr ?bs" by (simp add: marshall_one_def)
  have f: "read_format ''w''" by (simp add: read_format_def)
  have L: "length ?hdr \<le> 0xf000" "(32 :: nat) \<le> 0x10000" by (simp_all add: sample_msg_def le32.enc_length)
  note s = sample_9p_request [OF L, where l = "[(5, 9)]"]
  have msg: "p9_msg (sent id (sample_chain 32 ?hdr) ?s) 22 1 ''w'' ?vs (7 + length ?bs)"
    unfolding s(2) by (rule sample_msg_ok [OF m f]) (use L(1) in linarith)
  have fm: "(22, ''w'') \<in> set p9_formats" "22 \<in> fid_requests" by (simp_all add: p9_formats_def fid_requests_def)
  have no: "fid_find1 (fid_list ?s) (uval_num ?vs 0) = None" by (simp add: uval_num_def uval_of_def)
  have room: "p9_room (sample_chain 32 ?hdr) ?s 4" by (rule s(3)) simp
  from p9_unknown_fid [OF s(1) msg sample_9p_sel(3) fm no room, of sample_fs sample_host 11 32] show ?thesis by auto
qed

end
