(* ===== verification/Pci.thy ===== *)
theory Pci
  imports Cutils
begin

text \<open>
  Model of \<open>src/src/pci.c\<close>: PCI devices with their configuration space, base address registers and
  capabilities, the wired-or interrupt lines of a bus, and the i440FX host bridge.  A pointer to a
  device is its device/function number; the callback \<open>bar_set\<close> is an argument of the operations
  that call it, over the state \<open>env\<close> it acts on.
\<close>

unbundle bit_operations_syntax

section \<open>State\<close>

abbreviation PCI_ADDRESS_SPACE_MEM :: u8 where "PCI_ADDRESS_SPACE_MEM \<equiv> 0x00"
abbreviation PCI_ADDRESS_SPACE_IO :: u8 where "PCI_ADDRESS_SPACE_IO \<equiv> 0x01"
abbreviation PCI_ROM_SLOT :: nat where "PCI_ROM_SLOT \<equiv> 6"
abbreviation PCI_NUM_REGIONS :: nat where "PCI_NUM_REGIONS \<equiv> 7"
abbreviation PCI_COMMAND :: nat where "PCI_COMMAND \<equiv> 0x04"
abbreviation PCI_COMMAND_IO :: u16 where "PCI_COMMAND_IO \<equiv> 1"
abbreviation PCI_COMMAND_MEMORY :: u16 where "PCI_COMMAND_MEMORY \<equiv> 2"
abbreviation PCI_STATUS :: nat where "PCI_STATUS \<equiv> 0x06"
abbreviation PCI_STATUS_CAP_LIST :: u8 where "PCI_STATUS_CAP_LIST \<equiv> 16"
abbreviation PCI_SUBSYSTEM_VENDOR_ID :: nat where "PCI_SUBSYSTEM_VENDOR_ID \<equiv> 0x2c"
abbreviation PCI_SUBSYSTEM_ID :: nat where "PCI_SUBSYSTEM_ID \<equiv> 0x2e"
abbreviation PCI_CAPABILITY_LIST :: nat where "PCI_CAPABILITY_LIST \<equiv> 0x34"
abbreviation PCI_INTERRUPT_LINE :: nat where "PCI_INTERRUPT_LINE \<equiv> 0x3c"
abbreviation PCI_INTERRUPT_PIN :: nat where "PCI_INTERRUPT_PIN \<equiv> 0x3d"

text \<open>\<open>bar_opaque\<close> is the pointer passed to the callback, set by \<open>pci_register_bar\<close>.\<close>

record 'h pci_io_region =
  bar_size :: u32
  bar_type :: u8
  bar_enabled :: bool
  bar_opaque :: "'h option"

record 'h pci_device =
  devfn :: u8
  config :: bytes
  next_cap_offset :: u8
  name :: string
  io_regions :: "'h pci_io_region list"

text \<open>\<open>irq_line\<close>: the level last set on each of the four interrupt lines of the bus.\<close>

record ('h, 'x) pci_bus =
  bus_num :: int
  device :: "'h pci_device option list"
  irq_state :: "u32 list list"
  irq_line :: "int list"
  env :: 'x

type_synonym ('h, 'x, 'a) pci_vm = "(('h, 'x) pci_bus, 'a) vm"

definition get_dev :: "nat \<Rightarrow> ('h, 'x, 'h pci_device) pci_vm" where
  "get_dev d = (\<lambda>b. if d < length (device b) then (case device b ! d of None \<Rightarrow> Some (Inl NullDeref)
     | Some dev \<Rightarrow> Some (Inr (dev, b))) else Some (Inl OutOfBounds))"

definition set_dev :: "nat \<Rightarrow> 'h pci_device \<Rightarrow> ('h, 'x, unit) pci_vm" where
  "set_dev d dev = modify (\<lambda>b. b\<lparr>device := (device b)[d := Some dev]\<rparr>)"

section \<open>Interrupts\<close>

definition bus_map_irq :: "u8 \<Rightarrow> nat \<Rightarrow> nat" where
  "bus_map_irq fn irq_num = nat ((int irq_num + (int (unat fn div 8) - 1)) mod 4)"

definition irq_mask :: "u8 \<Rightarrow> u32" where
  "irq_mask fn = push_bit (unat (fn AND 0x1f)) 1"

definition pci_device_set_irq :: "u8 \<Rightarrow> nat \<Rightarrow> int \<Rightarrow> ('h, 'x) pci_bus \<Rightarrow> ('h, 'x) pci_bus" where
  "pci_device_set_irq fn irq_num level b =
     (let n = bus_map_irq fn irq_num;
          i = unat fn div 32;
          w = irq_state b ! n ! i;
          w' = (if level \<noteq> 0 then w OR irq_mask fn else w AND NOT (irq_mask fn));
          row = (irq_state b ! n)[i := w']
      in b\<lparr>irq_state := (irq_state b)[n := row],
           irq_line := (irq_line b)[n := (if fold (OR) row 0 \<noteq> 0 then 1 else 0)]\<rparr>)"

section \<open>Registering devices\<close>

text \<open>The first free slot; \<open>None\<close> stands for -1.\<close>

fun devfn_alloc_from :: "nat \<Rightarrow> nat \<Rightarrow> 'a option list \<Rightarrow> nat option" where
  "devfn_alloc_from 0 fn devs = None"
| "devfn_alloc_from (Suc k) fn devs = (if devs ! fn = None then Some fn else devfn_alloc_from k (fn + 8) devs)"

definition devfn_alloc :: "('h, 'x) pci_bus \<Rightarrow> nat option" where
  "devfn_alloc b = devfn_alloc_from 32 0 (device b)"

definition new_device :: "string \<Rightarrow> nat \<Rightarrow> u16 \<Rightarrow> u16 \<Rightarrow> u8 \<Rightarrow> u16 \<Rightarrow> 'h pci_device" where
  "new_device nm fn vendor dev_id revision class_id =
     \<lparr>devfn = of_nat fn,
      config = blit (blit (replicate 256 0) 0 (put_le16 vendor @ put_le16 dev_id)) 8
        ([revision, 0] @ put_le16 class_id @ [0, 0, 0]),
      next_cap_offset = 0x40, name = nm,
      io_regions = replicate PCI_NUM_REGIONS \<lparr>bar_size = 0, bar_type = 0, bar_enabled = False, bar_opaque = None\<rparr>\<rparr>"

text \<open>The device number, or \<open>None\<close> for a null pointer.\<close>

definition pci_register_device ::
  "string \<Rightarrow> int \<Rightarrow> u16 \<Rightarrow> u16 \<Rightarrow> u8 \<Rightarrow> u16 \<Rightarrow> ('h, 'x, nat option) pci_vm" where
  "pci_register_device nm fn vendor dev_id revision class_id =
     bnd (if fn < 0 then gets devfn_alloc else ret (Some (nat fn))) (\<lambda>fo. case fo of
       None \<Rightarrow> ret None
     | Some fn \<Rightarrow> bnd (gets device) (\<lambda>devs.
         andthen (guard OutOfBounds (fn < length devs))
         (if devs ! fn \<noteq> None then ret None
          else andthen (set_dev fn (new_device nm fn vendor dev_id revision class_id)) (ret (Some fn)))))"

definition pci_device_get_irq :: "nat \<Rightarrow> ('h, 'x, nat) pci_vm" where
  "pci_device_get_irq irq_num = andthen (guard AssertFail (irq_num < 4)) (ret irq_num)"

section \<open>Configuration space\<close>

definition config_bytes :: "nat \<Rightarrow> u32 \<Rightarrow> nat \<Rightarrow> ('h, 'x, bytes) pci_vm" where
  "config_bytes d a n = bnd (get_dev d) (\<lambda>dev. lift (peek (config dev) (int (unat a)) n))"

definition set_config :: "nat \<Rightarrow> nat \<Rightarrow> bytes \<Rightarrow> ('h, 'x, unit) pci_vm" where
  "set_config d a bs = bnd (get_dev d) (\<lambda>dev.
     bnd (lift (poke (config dev) (int a) bs)) (\<lambda>c. set_dev d (dev\<lparr>config := c\<rparr>)))"

definition pci_device_config_read :: "nat \<Rightarrow> u32 \<Rightarrow> int \<Rightarrow> ('h, 'x, u32) pci_vm" where
  "pci_device_config_read d a size_log2 =
     (if size_log2 = 0 then bnd (config_bytes d a 1) (\<lambda>bs. ret (ucast (hd bs)))
      else if size_log2 = 1 then
        if a \<le> 0xfe then bnd (config_bytes d a 2) (\<lambda>bs. ret (ucast (get_le16 bs)))
        else bnd (config_bytes d a 1) (\<lambda>bs. ret (ucast (hd bs)))
      else if size_log2 = 2 then bnd (config_bytes d a 4) (\<lambda>bs. ret (get_le32 bs))
      else fault Abort)"

definition bar_offset :: "nat \<Rightarrow> nat" where
  "bar_offset i = (if i = PCI_ROM_SLOT then 0x30 else 0x10 + 4 * i)"

definition pci_register_bar :: "nat \<Rightarrow> nat \<Rightarrow> u32 \<Rightarrow> u8 \<Rightarrow> 'h \<Rightarrow> ('h, 'x, unit) pci_vm" where
  "pci_register_bar d bar_num sz type opaque =
     andthen (guard AssertFail (bar_num < PCI_NUM_REGIONS))
     (andthen (guard AssertFail (sz AND (sz - 1) = 0))
     (andthen (guard AssertFail (sz \<ge> 4))
     (bnd (get_dev d) (\<lambda>dev.
      andthen (guard AssertFail (bar_size (io_regions dev ! bar_num) = 0))
      (andthen (set_dev d (dev\<lparr>io_regions := (io_regions dev)[bar_num :=
          \<lparr>bar_size = sz, bar_type = type, bar_enabled = False, bar_opaque = Some opaque\<rparr>]\<rparr>))
      (set_config d (bar_offset bar_num) (put_le32 (if bar_num = PCI_ROM_SLOT then 0 else ucast type))))))))"

text \<open>\<open>bar_set opaque bar addr enabled\<close> is the callback registered with the region.\<close>

definition call_bar_set ::
  "('h \<Rightarrow> nat \<Rightarrow> u32 \<Rightarrow> bool \<Rightarrow> ('x, unit) vm) \<Rightarrow> 'h option \<Rightarrow> nat \<Rightarrow> u32 \<Rightarrow> bool \<Rightarrow> ('h, 'x, unit) pci_vm" where
  "call_bar_set bar_set opaque i a en = (case opaque of None \<Rightarrow> fault NullDeref
     | Some h \<Rightarrow> zoom env (\<lambda>x b. b\<lparr>env := x\<rparr>) (bar_set h i a en))"

definition set_bar_enabled :: "nat \<Rightarrow> nat \<Rightarrow> bool \<Rightarrow> ('h, 'x, unit) pci_vm" where
  "set_bar_enabled d i en = bnd (get_dev d) (\<lambda>dev.
     set_dev d (dev\<lparr>io_regions := (io_regions dev)[i := (io_regions dev ! i)\<lparr>bar_enabled := en\<rparr>]\<rparr>))"

text \<open>Whether a region should be mapped, from the command register and its own address.\<close>

definition bar_wanted :: "'h pci_device \<Rightarrow> nat \<Rightarrow> bool" where
  "bar_wanted dev i =
     (let cmd = get_le16 (drop PCI_COMMAND (config dev)); r = io_regions dev ! i;
          new_addr = get_le32 (drop (bar_offset i) (config dev)) in
      bar_size r \<noteq> 0 \<and>
      (if bar_type r AND PCI_ADDRESS_SPACE_IO \<noteq> 0 \<and> cmd AND PCI_COMMAND_IO \<noteq> 0 then True
       else if cmd AND PCI_COMMAND_MEMORY \<noteq> 0 then (if i = PCI_ROM_SLOT then new_addr AND 1 \<noteq> 0 else True)
       else False))"

definition update_mapping ::
  "('h \<Rightarrow> nat \<Rightarrow> u32 \<Rightarrow> bool \<Rightarrow> ('x, unit) vm) \<Rightarrow> nat \<Rightarrow> nat \<Rightarrow> ('h, 'x, unit) pci_vm" where
  "update_mapping bar_set d i = bnd (get_dev d) (\<lambda>dev.
     let r = io_regions dev ! i in
     if bar_wanted dev i then
       andthen (call_bar_set bar_set (bar_opaque r) i
           (get_le32 (drop (bar_offset i) (config dev)) AND NOT (bar_size r - 1)) True)
       (set_bar_enabled d i True)
     else if bar_enabled r then
       andthen (call_bar_set bar_set (bar_opaque r) i 0 False) (set_bar_enabled d i False)
     else ret ())"

fun update_mappings_from ::
  "('h \<Rightarrow> nat \<Rightarrow> u32 \<Rightarrow> bool \<Rightarrow> ('x, unit) vm) \<Rightarrow> nat \<Rightarrow> nat \<Rightarrow> nat \<Rightarrow> ('h, 'x, unit) pci_vm" where
  "update_mappings_from bar_set d i 0 = ret ()"
| "update_mappings_from bar_set d i (Suc k) =
     andthen (update_mapping bar_set d i) (update_mappings_from bar_set d (Suc i) k)"

definition pci_update_mappings ::
  "('h \<Rightarrow> nat \<Rightarrow> u32 \<Rightarrow> bool \<Rightarrow> ('x, unit) vm) \<Rightarrow> nat \<Rightarrow> ('h, 'x, unit) pci_vm" where
  "pci_update_mappings bar_set d = update_mappings_from bar_set d 0 PCI_NUM_REGIONS"

text \<open>The result is \<open>False\<close> where the source returns -1: no such region.\<close>

definition pci_write_bar ::
  "('h \<Rightarrow> nat \<Rightarrow> u32 \<Rightarrow> bool \<Rightarrow> ('x, unit) vm) \<Rightarrow> nat \<Rightarrow> u32 \<Rightarrow> u32 \<Rightarrow> ('h, 'x, bool) pci_vm" where
  "pci_write_bar bar_set d a val =
     (let reg = (if a = 0x30 then PCI_ROM_SLOT else unat (a - 0x10) div 4) in
      bnd (get_dev d) (\<lambda>dev.
      let r = io_regions dev ! reg in
      if bar_size r = 0 then ret False
      else
        let v = (if reg = PCI_ROM_SLOT then val AND (NOT (bar_size r - 1) OR 1)
                 else (val AND NOT (bar_size r - 1)) OR ucast (bar_type r)) in
        andthen (set_config d (unat a) (put_le32 v))
        (andthen (pci_update_mappings bar_set d) (ret True))))"

text \<open>The bytes of the configuration space that a guest may not write, by header type.\<close>

definition config_read_only :: "u8 \<Rightarrow> nat \<Rightarrow> bool" where
  "config_read_only header a \<longleftrightarrow> a \<in> {0, 1, 2, 3, 8, 9, 0xa, 0xb, 0xe, 0x3d} \<or>
     (if header = 0 \<or> header = 0x80 then 0x10 \<le> a \<and> a \<le> 0x27 \<or> 0x30 \<le> a \<and> a \<le> 0x33
      else 0x38 \<le> a \<and> a \<le> 0x3b)"

definition config_write8 :: "nat \<Rightarrow> u8 \<Rightarrow> bytes \<Rightarrow> bytes" where
  "config_write8 a data c =
     (if a = PCI_STATUS \<or> a = PCI_STATUS + 1 then c[a := c ! a AND NOT data]
      else if config_read_only (c ! 0x0e) a then c else c[a := data])"

definition pci_device_config_write8 :: "nat \<Rightarrow> nat \<Rightarrow> u8 \<Rightarrow> ('h, 'x, unit) pci_vm" where
  "pci_device_config_write8 d a data = bnd (get_dev d) (\<lambda>dev.
     set_dev d (dev\<lparr>config := config_write8 a data (config dev)\<rparr>))"

fun config_write_bytes :: "nat \<Rightarrow> u32 \<Rightarrow> u32 \<Rightarrow> nat \<Rightarrow> nat \<Rightarrow> ('h, 'x, unit) pci_vm" where
  "config_write_bytes d a data i 0 = ret ()"
| "config_write_bytes d a data i (Suc k) =
     andthen (let a1 = a + of_nat i in
        if a1 \<le> 0xff then pci_device_config_write8 d (unat a1) (ucast (drop_bit (i * 8) data)) else ret ())
     (config_write_bytes d a data (Suc i) k)"

definition pci_device_config_write ::
  "('h \<Rightarrow> nat \<Rightarrow> u32 \<Rightarrow> bool \<Rightarrow> ('x, unit) vm) \<Rightarrow> nat \<Rightarrow> u32 \<Rightarrow> u32 \<Rightarrow> nat \<Rightarrow> ('h, 'x, unit) pci_vm" where
  "pci_device_config_write bar_set d a data size_log2 =
     bnd (if size_log2 = 2 \<and> (a \<ge> 0x10 \<and> a < 0x28 \<or> a = 0x30) then pci_write_bar bar_set d a data else ret False) (\<lambda>handled.
     if handled then ret ()
     else let n = 2 ^ size_log2 in
       andthen (config_write_bytes d a data 0 n)
       (if 4 \<ge> a \<and> 4 < a + of_nat n then pci_update_mappings bar_set d else ret ()))"

section \<open>Access by bus address\<close>

definition val_ones :: "nat \<Rightarrow> u32" where
  "val_ones size_log2 = (if size_log2 = 0 then 0xff else if size_log2 = 1 then 0xffff else 0xffffffff)"

definition pci_data_write ::
  "('h \<Rightarrow> nat \<Rightarrow> u32 \<Rightarrow> bool \<Rightarrow> ('x, unit) vm) \<Rightarrow> u32 \<Rightarrow> u32 \<Rightarrow> nat \<Rightarrow> ('h, 'x, unit) pci_vm" where
  "pci_data_write bar_set a data size_log2 = bnd (gets (\<lambda>b. b)) (\<lambda>b.
     let fn = unat (drop_bit 8 a AND 0xff) in
     if int (unat (drop_bit 16 a AND 0xff)) \<noteq> bus_num b then ret ()
     else if device b ! fn = None then ret ()
     else pci_device_config_write bar_set fn (a AND 0xff) data size_log2)"

definition pci_data_read :: "u32 \<Rightarrow> nat \<Rightarrow> ('h, 'x, u32) pci_vm" where
  "pci_data_read a size_log2 = bnd (gets (\<lambda>b. b)) (\<lambda>b.
     let fn = unat (drop_bit 8 a AND 0xff) in
     if int (unat (drop_bit 16 a AND 0xff)) \<noteq> bus_num b then ret (val_ones size_log2)
     else if device b ! fn = None then ret (val_ones size_log2)
     else pci_device_config_read fn (a AND 0xff) (int size_log2))"

definition pci_device_set_config8 :: "nat \<Rightarrow> u8 \<Rightarrow> u8 \<Rightarrow> ('h, 'x, unit) pci_vm" where
  "pci_device_set_config8 d a v = set_config d (unat a) [v]"

definition pci_device_set_config16 :: "nat \<Rightarrow> u8 \<Rightarrow> u16 \<Rightarrow> ('h, 'x, unit) pci_vm" where
  "pci_device_set_config16 d a v = set_config d (unat a) (put_le16 v)"

text \<open>\<open>next_cap_offset\<close> is a byte: after a capability that ends at 256 it is 0.\<close>

definition pci_add_capability :: "nat \<Rightarrow> bytes \<Rightarrow> ('h, 'x, int) pci_vm" where
  "pci_add_capability d buf = bnd (get_dev d) (\<lambda>dev.
     let offset = unat (next_cap_offset dev) in
     if offset + length buf > 256 then ret (- 1)
     else
       let c1 = (config dev)[PCI_STATUS := config dev ! PCI_STATUS OR PCI_STATUS_CAP_LIST];
           c2 = blit c1 offset buf;
           c3 = c2[offset + 1 := c2 ! PCI_CAPABILITY_LIST];
           c4 = c3[PCI_CAPABILITY_LIST := of_nat offset]
       in andthen (set_dev d (dev\<lparr>next_cap_offset := next_cap_offset dev + of_nat (length buf), config := c4\<rparr>))
          (ret (int offset)))"

section \<open>The i440FX host bridge\<close>

record ('h, 'x) i440fx_state = "('h, 'x) pci_bus" +
  config_reg :: u32
  piix3_devfn :: nat
  pic_irq_state :: "u8 list"
  pic_line :: "int list"

definition i440fx_write_addr :: "u32 \<Rightarrow> ('h, 'x) i440fx_state \<Rightarrow> ('h, 'x) i440fx_state" where
  "i440fx_write_addr data s = s\<lparr>config_reg := data\<rparr>"

definition i440fx_read_addr :: "('h, 'x) i440fx_state \<Rightarrow> u32" where
  "i440fx_read_addr s = config_reg s"

text \<open>The configuration address an access to the data port goes to; \<open>None\<close> when disabled.\<close>

definition i440fx_target :: "u32 \<Rightarrow> u32 \<Rightarrow> nat \<Rightarrow> u32 option" where
  "i440fx_target reg offset size_log2 =
     (if reg AND 0x80000000 = 0 then None
      else if size_log2 = 2 then Some (reg AND NOT 3) else Some (reg OR offset))"

definition on_bus :: "('h, 'x, 'a) pci_vm \<Rightarrow> (('h, 'x) i440fx_state, 'a) vm" where
  "on_bus = zoom pci_bus.truncate (\<lambda>b s. pci_bus.extend b (pci_bus.more s))"

definition i440fx_write_data ::
  "('h \<Rightarrow> nat \<Rightarrow> u32 \<Rightarrow> bool \<Rightarrow> ('x, unit) vm) \<Rightarrow> u32 \<Rightarrow> u32 \<Rightarrow> nat \<Rightarrow> (('h, 'x) i440fx_state, unit) vm" where
  "i440fx_write_data bar_set offset data size_log2 = bnd (gets config_reg) (\<lambda>reg.
     case i440fx_target reg offset size_log2 of None \<Rightarrow> ret ()
     | Some a \<Rightarrow> on_bus (pci_data_write bar_set a data size_log2))"

definition i440fx_read_data :: "u32 \<Rightarrow> nat \<Rightarrow> (('h, 'x) i440fx_state, u32) vm" where
  "i440fx_read_data offset size_log2 = bnd (gets config_reg) (\<lambda>reg.
     case i440fx_target reg offset size_log2 of None \<Rightarrow> ret (val_ones size_log2)
     | Some a \<Rightarrow> on_bus (pci_data_read a size_log2))"

definition i440fx_set_irq :: "nat \<Rightarrow> int \<Rightarrow> (('h, 'x) i440fx_state, unit) vm" where
  "i440fx_set_irq irq_num level = bnd (gets piix3_devfn) (\<lambda>hd_fn.
     bnd (on_bus (get_dev hd_fn)) (\<lambda>hdev.
     let pic_irq = config hdev ! (0x60 + irq_num) AND NOT 0x80 in
     andthen (on_bus (set_dev hd_fn (hdev\<lparr>config := (config hdev)[0x60 + irq_num := pic_irq]\<rparr>)))
     (if pic_irq < 16 then
        modify (\<lambda>s. let k = unat pic_irq; w = pic_irq_state s ! k;
             w' = (if level \<noteq> 0 then w OR push_bit irq_num 1 else w AND NOT (push_bit irq_num 1))
          in s\<lparr>pic_irq_state := (pic_irq_state s)[k := w'], pic_line := (pic_line s)[k := (if w' \<noteq> 0 then 1 else 0)]\<rparr>)
      else ret ())))"

definition i440fx_init :: "'x \<Rightarrow> ('h, 'x, nat option) pci_vm" where
  "i440fx_init x =
     andthen (modify (\<lambda>b. b\<lparr>bus_num := 0, device := replicate 256 None, irq_state := replicate 4 (replicate 8 0),
        irq_line := replicate 4 0, env := x\<rparr>))
     (bnd (pci_register_device ''i440FX'' 0 0x8086 0x1237 0x02 0x0600) (\<lambda>_.
      andthen (set_config 0 PCI_SUBSYSTEM_VENDOR_ID (put_le16 0x1af4))
      (andthen (set_config 0 PCI_SUBSYSTEM_ID (put_le16 0x1100))
      (bnd (pci_register_device ''PIIX3'' 8 0x8086 0x7000 0x00 0x0601) (\<lambda>r.
       andthen (pci_device_set_config8 8 0x0e 0x80) (ret r))))))"

text \<open>
  \<open>i440fx_map_interrupts\<close>: the routing registers of the PIIX3 and the edge/level bits, then the
  interrupt line register of every device with an interrupt pin.
\<close>

definition route_pic :: "u8 list \<Rightarrow> u8 list \<times> bytes \<Rightarrow> u8 list \<times> bytes" where
  "route_pic pci_irqs st = fold (\<lambda>i (elcr, c).
      let n = pci_irqs ! i; k = unat n div 8 in
      (elcr[k := elcr ! k OR push_bit (unat n mod 8) 1], c[0x60 + i := n])) [0..<4] ([0, 0], snd st)"

definition set_interrupt_line :: "bytes \<Rightarrow> 'h pci_device \<Rightarrow> 'h pci_device" where
  "set_interrupt_line hd_config dev =
     (if config dev ! PCI_INTERRUPT_PIN \<noteq> 0 then
        let pic_irq = hd_config ! (0x60 + bus_map_irq (devfn dev) 0) in
        if pic_irq < 16 then dev\<lparr>config := (config dev)[PCI_INTERRUPT_LINE := pic_irq]\<rparr> else dev
      else dev)"

definition i440fx_map_interrupts :: "nat \<Rightarrow> u8 list \<Rightarrow> u8 list \<Rightarrow> ('h, 'x, u8 list) pci_vm" where
  "i440fx_map_interrupts piix3 elcr pci_irqs = bnd (get_dev piix3) (\<lambda>hdev.
     let (elcr', c) = route_pic pci_irqs (elcr, config hdev) in
     andthen (set_dev piix3 (hdev\<lparr>config := c\<rparr>))
     (andthen (modify (\<lambda>b. b\<lparr>device := map (map_option (set_interrupt_line c)) (device b)\<rparr>)) (ret elcr')))"

section \<open>Interrupt lines\<close>

lemma fold_or: "fold (OR) ws (w :: 'a::len word) = 0 \<longleftrightarrow> w = 0 \<and> (\<forall>v \<in> set ws. v = 0)"
proof (induction ws arbitrary: w)
  case (Cons v ws)
  have "v OR w = 0 \<longleftrightarrow> v = 0 \<and> w = 0" by (auto simp: bit_eq_iff bit_simps)
  with Cons show ?case by auto
qed simp

text \<open>Four lines of 8 words, each line high exactly while some device asserts it.\<close>

definition asserted :: "('h, 'x) pci_bus \<Rightarrow> nat \<Rightarrow> u8 \<Rightarrow> bool" where
  "asserted b n fn \<longleftrightarrow> bit (irq_state b ! n ! (unat fn div 32)) (unat fn mod 32)"

definition irq_ok :: "('h, 'x) pci_bus \<Rightarrow> bool" where
  "irq_ok b \<longleftrightarrow> length (irq_state b) = 4 \<and> length (irq_line b) = 4 \<and>
     (\<forall>n < 4. length (irq_state b ! n) = 8 \<and> irq_line b ! n = (if \<exists>fn. asserted b n fn then 1 else 0))"

lemma row_asserted:
  assumes "length (irq_state b ! n) = 8"
  shows "(\<exists>fn. asserted b n fn) \<longleftrightarrow> (\<exists>w \<in> set (irq_state b ! n). w \<noteq> 0)"
proof
  assume "\<exists>fn. asserted b n fn"
  then obtain fn where fn: "asserted b n fn" by blast
  have "unat fn div 32 < 8" using unsigned_less [of fn, where 'a = nat] by auto
  then have "irq_state b ! n ! (unat fn div 32) \<in> set (irq_state b ! n)" using assms by simp
  moreover have "irq_state b ! n ! (unat fn div 32) \<noteq> 0" using fn by (auto simp: asserted_def)
  ultimately show "\<exists>w \<in> set (irq_state b ! n). w \<noteq> 0" by blast
next
  assume "\<exists>w \<in> set (irq_state b ! n). w \<noteq> 0"
  then obtain i where i: "i < 8" "irq_state b ! n ! i \<noteq> 0" using assms by (metis in_set_conv_nth)
  then obtain k where k: "bit (irq_state b ! n ! i) k" by (auto simp: bit_eq_iff)
  then have k32: "k < 32" using bit_imp_le_length by force
  let ?fn = "of_nat (i * 32 + k) :: u8"
  have "i * 32 + k < 256" using i(1) k32 by simp
  then have "unat ?fn = i * 32 + k" by (simp add: unat_of_nat del: of_nat_add of_nat_mult)
  then have "asserted b n ?fn" using k k32 by (simp add: asserted_def)
  then show "\<exists>fn. asserted b n fn" by blast
qed

lemma irq_mask_bit: "bit (irq_mask fn) k \<longleftrightarrow> k = unat fn mod 32"
proof -
  have "unat (fn AND 0x1f) = unat fn mod 32"
  proof -
    have "fn AND 0x1f = fn mod 32" using take_bit_eq_mask [of 5 fn] by (simp add: mask_eq_exp_minus_1 take_bit_eq_mod)
    then show ?thesis by (simp only: unat_mod) simp
  qed
  moreover have "unat fn mod 32 < 32" by simp
  ultimately show ?thesis by (auto simp: irq_mask_def bit_simps)
qed

lemma fn_eq: "unat (fn :: u8) div 32 = unat fn' div 32 \<Longrightarrow> unat fn mod 32 = unat fn' mod 32 \<Longrightarrow> fn = fn'"
  by (metis div_mult_mod_eq word_unat_eq_iff)

lemma bus_map_irq_lt: "bus_map_irq fn k < 4"
  by (simp add: bus_map_irq_def nat_less_iff)

lemma set_irq_asserted:
  assumes "irq_ok b" and "n < 4"
  shows "asserted (pci_device_set_irq fn k level b) n fn' \<longleftrightarrow>
    (if n = bus_map_irq fn k \<and> fn' = fn then level \<noteq> 0 else asserted b n fn')"
proof -
  have l: "length (irq_state b) = 4" "length (irq_state b ! bus_map_irq fn k) = 8"
    using assms bus_map_irq_lt by (auto simp: irq_ok_def)
  have i: "unat fn div 32 < 8" using unsigned_less [of fn, where 'a = nat] by auto
  have m: "bus_map_irq fn k < 4" by (rule bus_map_irq_lt)
  show ?thesis
  proof (cases "n = bus_map_irq fn k \<and> unat fn' div 32 = unat fn div 32")
    case True
    have "fn' = fn \<longleftrightarrow> unat fn' mod 32 = unat fn mod 32" using True fn_eq by metis
    moreover have "unat fn' mod 32 < 32" by simp
    ultimately show ?thesis using True l i m
      by (auto simp: asserted_def pci_device_set_irq_def Let_def bit_simps irq_mask_bit)
  next
    case False
    then show ?thesis using l i m by (auto simp: asserted_def pci_device_set_irq_def Let_def nth_list_update)
  qed
qed

lemma set_irq_ok:
  assumes "irq_ok b"
  shows "irq_ok (pci_device_set_irq fn k level b)"
proof -
  let ?b = "pci_device_set_irq fn k level b" and ?m = "bus_map_irq fn k"
  have l: "length (irq_state b) = 4" "length (irq_line b) = 4" "\<forall>n<4. length (irq_state b ! n) = 8"
    using assms by (auto simp: irq_ok_def)
  have m: "?m < 4" by (rule bus_map_irq_lt)
  have rows: "length (irq_state ?b ! n) = 8" if "n < 4" for n
    using l that m by (simp add: pci_device_set_irq_def Let_def nth_list_update)
  have lines: "irq_line ?b ! n = (if \<exists>fn. asserted ?b n fn then 1 else 0)" if n: "n < 4" for n
  proof (cases "n = ?m")
    case True
    have "irq_line ?b ! ?m = (if fold (OR) (irq_state ?b ! ?m) 0 \<noteq> 0 then 1 else 0)"
      using l m by (simp add: pci_device_set_irq_def Let_def)
    then show ?thesis using True row_asserted [OF rows [OF m]] by (simp add: fold_or)
  next
    case False
    then have "irq_line ?b ! n = irq_line b ! n" using l by (simp add: pci_device_set_irq_def Let_def)
    moreover have "asserted ?b n fn' = asserted b n fn'" for fn' using set_irq_asserted [OF assms n] False by simp
    ultimately show ?thesis using assms n by (simp add: irq_ok_def)
  qed
  have "length (irq_state ?b) = 4" "length (irq_line ?b) = 4"
    using l by (simp_all add: pci_device_set_irq_def Let_def)
  then show ?thesis using rows lines by (simp add: irq_ok_def)
qed

section \<open>What a guest cannot change\<close>

text \<open>The identification bytes, the header type and the interrupt pin.\<close>

definition fixed_bytes :: "nat set" where
  "fixed_bytes = {0, 1, 2, 3, 8, 9, 0xa, 0xb, 0xe, 0x3d}"

definition same_ids :: "'h pci_device \<Rightarrow> 'h pci_device \<Rightarrow> bool" where
  "same_ids x y \<longleftrightarrow> length (config y) = 256 \<and> length (io_regions y) = PCI_NUM_REGIONS
     \<and> (\<forall>a \<in> fixed_bytes. config y ! a = config x ! a)"

definition ids_kept :: "('h, 'x) pci_bus \<Rightarrow> ('h, 'x) pci_bus \<Rightarrow> bool" where
  "ids_kept b0 b \<longleftrightarrow> list_all2 (rel_option same_ids) (device b0) (device b)"

lemma wlp_get_dev [wlp_simps]:
  "wlp (get_dev d) Q F b = (if d < length (device b) then (case device b ! d of None \<Rightarrow> F NullDeref | Some dev \<Rightarrow> Q dev b)
     else F OutOfBounds)"
  by (simp add: wlp_def get_dev_def split: option.splits)

lemma wlp_set_dev [wlp_simps]: "wlp (set_dev d dev) Q F b = Q () (b\<lparr>device := (device b)[d := Some dev]\<rparr>)"
  by (simp add: set_dev_def wlp_simps)

lemma ids_upd:
  assumes "ids_kept b0 b" and "d < length (device b)" and "device b ! d = Some dev"
    and "\<And>x. same_ids x dev \<Longrightarrow> same_ids x dev'"
  shows "ids_kept b0 (b\<lparr>device := (device b)[d := Some dev']\<rparr>)"
proof -
  have l: "list_all2 (rel_option same_ids) (device b0) (device b)" using assms(1) by (simp add: ids_kept_def)
  then have "rel_option same_ids (device b0 ! d) (device b ! d)" using assms(2) by (rule list_all2_nthD2)
  then have "rel_option same_ids (device b0 ! d) (Some dev')" using assms(3,4) by (auto simp: option_rel_Some2)
  from list_all2_update_cong [OF l this, of d] show ?thesis by (simp add: ids_kept_def)
qed

lemma keeps_upd_dev:
  assumes "\<And>x dev. same_ids x dev \<Longrightarrow> same_ids x (f dev)"
  shows "keeps (ids_kept b0) (bnd (get_dev d) (\<lambda>dev. set_dev d (f dev)))"
  using assms by (intro keepsI) (auto simp: wlp_simps intro: ids_upd split: option.splits)

lemma keeps_get_dev [keeps_intros]: "keeps I (get_dev d)"
  by (intro keepsI) (simp add: wlp_simps split: option.splits)

lemma keeps_set_config:
  assumes "\<forall>k < length bs. a + k \<notin> fixed_bytes"
  shows "keeps (ids_kept b0) (set_config d a bs)"
proof (rule keepsI)
  fix b :: "('a, 'b) pci_bus"
  assume I: "ids_kept b0 b"
  have up: "same_ids x (dev\<lparr>config := c\<rparr>)"
    if "same_ids x dev" "poke (config dev) (int a) bs = Inr c" for x :: "'a pci_device" and dev c
  proof -
    have "c ! k = config dev ! k" if "k \<in> fixed_bytes" for k
    proof (cases "bs = []")
      case False
      with \<open>poke (config dev) (int a) bs = Inr c\<close> have fit: "a + length bs \<le> length (config dev)" "c = blit (config dev) a bs"
        by (auto simp: poke_def in_array_def split: if_splits)
      have "\<not> (a \<le> k \<and> k < a + length bs)" using assms \<open>k \<in> fixed_bytes\<close> by (metis add_diff_inverse_nat less_diff_conv2 linorder_not_less nat_add_left_cancel_less)
      moreover have "k < length (config dev)" using \<open>k \<in> fixed_bytes\<close> \<open>same_ids x dev\<close> by (auto simp: same_ids_def fixed_bytes_def)
      ultimately show ?thesis using fit by (auto simp: nth_blit)
    qed (use \<open>poke (config dev) (int a) bs = Inr c\<close> in \<open>simp add: poke_def\<close>)
    then show ?thesis using that poke_length [OF that(2)] by (simp add: same_ids_def)
  qed
  show "wlp (set_config d a bs) (\<lambda>_. ids_kept b0) (\<lambda>_. True) b"
    using I by (auto simp: set_config_def wlp_simps intro!: ids_upd up split: option.splits sum.splits)
qed

lemma keeps_call_bar_set [keeps_intros]: "keeps (ids_kept b0) (call_bar_set bar_set h i a en)"
  unfolding call_bar_set_def by (intro keeps_intros keeps_zoom) (simp add: ids_kept_def)

lemma keeps_set_bar_enabled [keeps_intros]: "keeps (ids_kept b0) (set_bar_enabled d i en)"
  unfolding set_bar_enabled_def by (rule keeps_upd_dev) (simp add: same_ids_def)

lemma keeps_update_mappings_from [keeps_intros]: "keeps (ids_kept b0) (update_mappings_from bar_set d i n)"
proof (induction n arbitrary: i)
  case (Suc n)
  have "keeps (ids_kept b0) (update_mapping bar_set d i)"
    unfolding update_mapping_def by (intro keeps_intros)
  with Suc show ?case by (auto intro: keeps_intros)
qed (simp add: keeps_ret)

lemma keeps_pci_update_mappings [keeps_intros]: "keeps (ids_kept b0) (pci_update_mappings bar_set d)"
  unfolding pci_update_mappings_def by (intro keeps_intros)

lemma fixed_read_only: "k \<in> fixed_bytes \<Longrightarrow> config_read_only h k \<and> k \<noteq> PCI_STATUS \<and> k \<noteq> PCI_STATUS + 1"
  unfolding fixed_bytes_def config_read_only_def by auto

lemma config_write8_fixed:
  "length c = 256 \<Longrightarrow> k \<in> fixed_bytes \<Longrightarrow> config_write8 a v c ! k = c ! k"
  using fixed_read_only [of k "c ! 0x0e"]
  by (cases "a = k") (auto simp: config_write8_def)

lemma keeps_config_write_bytes [keeps_intros]: "keeps (ids_kept b0) (config_write_bytes d a v i n)"
proof (induction n arbitrary: i)
  case (Suc n)
  have "keeps (ids_kept b0) (pci_device_config_write8 d k w)" for k w
    unfolding pci_device_config_write8_def
    by (rule keeps_upd_dev) (auto simp: same_ids_def config_write8_fixed, simp add: config_write8_def)
  with Suc show ?case by (auto simp: Let_def intro: keeps_intros)
qed (simp add: keeps_ret)

lemma keeps_pci_write_bar:
  assumes "a \<ge> 0x10 \<and> a < 0x28 \<or> a = 0x30"
  shows "keeps (ids_kept b0) (pci_write_bar bar_set d a v)"
proof -
  have "16 \<le> unat a \<and> unat a < 40 \<or> unat a = 48"
    using assms by (auto simp: word_le_nat_alt word_less_nat_alt)
  then have "\<forall>k < length (put_le32 w). unat a + k \<notin> fixed_bytes" for w
    by (auto simp: fixed_bytes_def le32.enc_length)
  then show ?thesis unfolding pci_write_bar_def Let_def by (intro keeps_intros keeps_set_config)
qed

lemma keeps_pci_data_write: "keeps (ids_kept b0) (pci_data_write bar_set a v sz)"
  unfolding pci_data_write_def pci_device_config_write_def Let_def
  by (intro keeps_intros keeps_pci_write_bar) blast+

section \<open>Reads and capabilities\<close>

definition bus_ok :: "('h, 'x) pci_bus \<Rightarrow> bool" where
  "bus_ok b \<longleftrightarrow> length (device b) = 256 \<and> (\<forall>dev. Some dev \<in> set (device b) \<longrightarrow> length (config dev) = 256)"

lemma get_dev_run: "d < length (device b) \<Longrightarrow> device b ! d = Some dev \<Longrightarrow> get_dev d b = Some (Inr (dev, b))"
  by (simp add: get_dev_def)

lemma and_ff: "unat ((x :: u32) AND 0xff) < 256"
proof -
  have "x AND 0xff \<le> 0xff" by (rule word_and_le1)
  then have "unat (x AND 0xff) \<le> unat (0xff :: u32)" by (simp only: word_le_nat_alt)
  then show ?thesis by simp
qed

text \<open>
  Every configuration read through the data port stays within the configuration space: a 32-bit
  access is aligned and a 16-bit access to the last byte reads that byte only.
\<close>

lemma pci_read_run:
  assumes "bus_ok b" and "sz = 0 \<or> sz = 1 \<or> sz = 2 \<and> a AND 3 = 0"
  shows "\<exists>v. pci_data_read a sz b = Some (Inr (v, b))"
proof -
  let ?fn = "unat (drop_bit 8 a AND 0xff)" and ?c = "a AND 0xff"
  have fn: "?fn < 256" by (rule and_ff)
  show ?thesis
  proof (cases "int (unat (drop_bit 16 a AND 0xff)) = bus_num b \<and> device b ! ?fn \<noteq> None")
    case True
    then obtain dev where dev: "device b ! ?fn = Some dev" by auto
    have ld: "?fn < length (device b)" using fn assms(1) by (simp add: bus_ok_def)
    then have lc: "length (config dev) = 256" using assms(1) dev by (metis bus_ok_def nth_mem)
    have c: "unat ?c < 256" by (rule and_ff)
    have c4: "unat ?c + 4 \<le> 256" if "a AND 3 = 0"
    proof -
      have "?c AND 3 = 0" using that by (metis and.assoc and.commute and_zero_eq)
      then have "unat ?c mod 4 = 0" by (simp add: and3_mod)
      then show ?thesis using c by presburger
    qed
    have c2: "unat ?c + 2 \<le> 256" if "?c \<le> 0xfe" using that by (simp add: word_le_nat_alt)
    show ?thesis using True dev assms(2) lc c c4 c2 ld
      by (auto simp: pci_data_read_def Let_def pci_device_config_read_def config_bytes_def get_dev_run bnd_run peek_nat
          simp del: of_nat_unat)
  next
    case False
    then show ?thesis by (auto simp: pci_data_read_def Let_def bnd_run)
  qed
qed

text \<open>A new capability becomes the head of the list and links to the old head.\<close>

lemma add_capability_run:
  assumes "d < length (device b)" and "device b ! d = Some dev" and "length (config dev) = 256"
    and off: "off = unat (next_cap_offset dev)" "0x40 \<le> off" "off + length buf \<le> 256" "2 \<le> length buf"
  shows "\<exists>dev'. pci_add_capability d buf b = Some (Inr (int off, b\<lparr>device := (device b)[d := Some dev']\<rparr>))
    \<and> config dev' ! PCI_CAPABILITY_LIST = of_nat off
    \<and> config dev' ! (off + 1) = config dev ! PCI_CAPABILITY_LIST
    \<and> config dev' ! off = buf ! 0 \<and> (\<forall>k. 2 \<le> k \<and> k < length buf \<longrightarrow> config dev' ! (off + k) = buf ! k)
    \<and> length (config dev') = 256 \<and> (\<forall>k < off. 0x40 \<le> k \<longrightarrow> config dev' ! k = config dev ! k)"
proof -
  have n: "length buf \<noteq> 0" "1 < length buf" using off by auto
  show ?thesis using assms(1-3) off n
    by (auto simp: pci_add_capability_def Let_def get_dev_run bnd_run andthen_run set_dev_def nth_list_update nth_blit)
qed

end
