(* ===== verification/Iomem.thy ===== *)
theory Iomem
  imports Prelude
begin

text \<open>
  Model of \<open>src/src/iomem.c\<close> and \<open>iomem.h\<close>: the physical memory map, a table of RAM and device
  ranges, and the dirty bits of RAM ranges.  A pointer to a range is its index in the table; a
  device range carries a token for the \<open>opaque\<close> pointer and the two callbacks registered for it.
\<close>

unbundle bit_operations_syntax

section \<open>State\<close>

abbreviation DEVIO_SIZE8 :: u32 where "DEVIO_SIZE8 \<equiv> 1"
abbreviation DEVIO_SIZE16 :: u32 where "DEVIO_SIZE16 \<equiv> 2"
abbreviation DEVIO_SIZE32 :: u32 where "DEVIO_SIZE32 \<equiv> 4"
abbreviation DEVIO_DISABLED :: u32 where "DEVIO_DISABLED \<equiv> 16"
abbreviation DEVRAM_FLAG_ROM :: u32 where "DEVRAM_FLAG_ROM \<equiv> 1"
abbreviation DEVRAM_FLAG_DIRTY_BITS :: u32 where "DEVRAM_FLAG_DIRTY_BITS \<equiv> 2"
abbreviation DEVRAM_FLAG_DISABLED :: u32 where "DEVRAM_FLAG_DISABLED \<equiv> 4"
abbreviation DEVRAM_PAGE_SIZE_LOG2 :: nat where "DEVRAM_PAGE_SIZE_LOG2 \<equiv> 12"
abbreviation DEVRAM_PAGE_SIZE :: u64 where "DEVRAM_PAGE_SIZE \<equiv> 4096"
abbreviation PHYS_MEM_RANGE_MAX :: nat where "PHYS_MEM_RANGE_MAX \<equiv> 32"

text \<open>
  \<open>dirty_bits_tab\<close> holds the two bitmaps; \<open>dirty_bits\<close> is the one \<open>dirty_bits_index\<close> selects, and
  the list is empty where the pointer is null.
\<close>

record 'd phys_memory_range =
  addr :: u64
  org_size :: u64
  rsize :: u64
  is_ram :: bool
  devram_flags :: u32
  phys_mem :: bytes
  dirty_bits_tab :: "u32 list list"
  dirty_bits_index :: nat
  io_opaque :: "'d option"
  devio_flags :: u32

text \<open>
  \<open>tlb_flush\<close> tells whether the callback \<open>flush_tlb_write_range\<close> is set; \<open>flushed\<close> records its
  calls: range, offset and size.
\<close>

record 'd phys_memory_map =
  phys_mem_range :: "'d phys_memory_range list"
  tlb_flush :: bool
  flushed :: "(nat \<times> u64 \<times> u64) list"

type_synonym ('d, 'a) map_vm = "('d phys_memory_map, 'a) vm"

section \<open>Operations\<close>

definition phys_mem_map_init :: "'d phys_memory_map" where
  "phys_mem_map_init = \<lparr>phys_mem_range = [], tlb_flush = False, flushed = []\<rparr>"

definition get_range :: "nat \<Rightarrow> ('d, 'd phys_memory_range) map_vm" where
  "get_range i = (\<lambda>s. if i < length (phys_mem_range s) then Some (Inr (phys_mem_range s ! i, s)) else Some (Inl OutOfBounds))"

definition set_range :: "nat \<Rightarrow> ('d phys_memory_range \<Rightarrow> 'd phys_memory_range) \<Rightarrow> ('d, unit) map_vm" where
  "set_range i f = (\<lambda>s. if i < length (phys_mem_range s)
     then Some (Inr ((), s\<lparr>phys_mem_range := (phys_mem_range s)[i := f (phys_mem_range s ! i)]\<rparr>)) else Some (Inl OutOfBounds))"

definition flush_tlb_write_range :: "nat \<Rightarrow> u64 \<Rightarrow> u64 \<Rightarrow> ('d, unit) map_vm" where
  "flush_tlb_write_range i off n = bnd (gets tlb_flush) (\<lambda>set.
     if set then modify (\<lambda>s. s\<lparr>flushed := flushed s @ [(i, off, n)]\<rparr>) else fault NullDeref)"

definition in_range :: "u64 \<Rightarrow> 'd phys_memory_range \<Rightarrow> bool" where
  "in_range paddr pr \<longleftrightarrow> paddr \<ge> addr pr \<and> paddr < addr pr + rsize pr"

text \<open>The index of the first range that contains the address.\<close>

fun find_range :: "u64 \<Rightarrow> 'd phys_memory_range list \<Rightarrow> nat option" where
  "find_range paddr [] = None"
| "find_range paddr (pr # prs) = (if in_range paddr pr then Some 0 else map_option Suc (find_range paddr prs))"

definition get_phys_mem_range :: "'d phys_memory_map \<Rightarrow> u64 \<Rightarrow> nat option" where
  "get_phys_mem_range s paddr = find_range paddr (phys_mem_range s)"

definition add_range :: "'d phys_memory_range \<Rightarrow> ('d, nat) map_vm" where
  "add_range pr = bnd (gets (\<lambda>s. length (phys_mem_range s))) (\<lambda>n.
     andthen (guard AssertFail (n < PHYS_MEM_RANGE_MAX))
     (andthen (modify (\<lambda>s. s\<lparr>phys_mem_range := phys_mem_range s @ [pr]\<rparr>)) (ret n)))"

definition ram_entry :: "u64 \<Rightarrow> u64 \<Rightarrow> u32 \<Rightarrow> 'd phys_memory_range" where
  "ram_entry a sz flags = \<lparr>addr = a, org_size = sz,
     rsize = (if flags AND DEVRAM_FLAG_DISABLED \<noteq> 0 then 0 else sz), is_ram = True,
     devram_flags = flags AND NOT DEVRAM_FLAG_DISABLED, phys_mem = [], dirty_bits_tab = [],
     dirty_bits_index = 0, io_opaque = None, devio_flags = 0\<rparr>"

definition register_ram_entry :: "u64 \<Rightarrow> u64 \<Rightarrow> u32 \<Rightarrow> ('d, nat) map_vm" where
  "register_ram_entry a sz flags =
     andthen (guard AssertFail (sz AND (DEVRAM_PAGE_SIZE - 1) = 0 \<and> sz \<noteq> 0))
     (add_range (ram_entry a sz flags))"

text \<open>The number of words of a bitmap with a bit per page.\<close>

definition dirty_words :: "u64 \<Rightarrow> nat" where
  "dirty_words sz = (unat sz div 4096 + 31) div 32"

definition default_register_ram :: "u64 \<Rightarrow> u64 \<Rightarrow> u32 \<Rightarrow> ('d, nat) map_vm" where
  "default_register_ram a sz flags =
     bnd (register_ram_entry a sz flags) (\<lambda>i.
     andthen (set_range i (\<lambda>pr. pr\<lparr>phys_mem := replicate (unat sz) 0,
        dirty_bits_tab := (if flags AND DEVRAM_FLAG_DIRTY_BITS \<noteq> 0
          then [replicate (dirty_words sz) 0, replicate (dirty_words sz) 0] else [])\<rparr>))
     (ret i))"

definition cpu_register_device :: "u64 \<Rightarrow> u64 \<Rightarrow> 'd \<Rightarrow> u32 \<Rightarrow> ('d, nat) map_vm" where
  "cpu_register_device a sz opaque flags =
     andthen (guard AssertFail (sz \<le> 0xffffffff))
     (add_range \<lparr>addr = a, org_size = sz, rsize = (if flags AND DEVIO_DISABLED \<noteq> 0 then 0 else sz),
        is_ram = False, devram_flags = 0, phys_mem = [], dirty_bits_tab = [], dirty_bits_index = 0,
        io_opaque = Some opaque, devio_flags = flags\<rparr>)"

definition default_set_addr :: "nat \<Rightarrow> u64 \<Rightarrow> bool \<Rightarrow> ('d, unit) map_vm" where
  "default_set_addr i a enabled = bnd (get_range i) (\<lambda>pr.
     let flush = (if is_ram pr then flush_tlb_write_range i 0 (org_size pr) else ret ()) in
     if enabled then
       if rsize pr = 0 \<or> addr pr \<noteq> a
       then andthen flush (set_range i (\<lambda>pr. pr\<lparr>addr := a, rsize := org_size pr\<rparr>)) else ret ()
     else if rsize pr \<noteq> 0
       then andthen flush (set_range i (\<lambda>pr. pr\<lparr>addr := 0, rsize := 0\<rparr>)) else ret ())"

text \<open>\<open>set_ram_addr\<close> of the map is \<open>default_set_addr\<close> as well.\<close>

definition phys_mem_set_addr :: "nat \<Rightarrow> u64 \<Rightarrow> bool \<Rightarrow> ('d, unit) map_vm" where
  "phys_mem_set_addr i a enabled = default_set_addr i a enabled"

subsection \<open>Dirty bits\<close>

definition page_index :: "u64 \<Rightarrow> nat" where
  "page_index off = unat off div 4096"

definition dirty_word :: "nat \<Rightarrow> u64 \<Rightarrow> ('d, u32 option) map_vm" where
  "dirty_word i off = bnd (get_range i) (\<lambda>pr.
     if dirty_bits_tab pr = [] then ret None
     else let tab = dirty_bits_tab pr ! dirty_bits_index pr in
       andthen (guard OutOfBounds (page_index off div 32 < length tab)) (ret (Some (tab ! (page_index off div 32)))))"

definition set_dirty_word :: "nat \<Rightarrow> u64 \<Rightarrow> u32 \<Rightarrow> ('d, unit) map_vm" where
  "set_dirty_word i off w = set_range i (\<lambda>pr.
     pr\<lparr>dirty_bits_tab := (dirty_bits_tab pr)[dirty_bits_index pr :=
          (dirty_bits_tab pr ! dirty_bits_index pr)[page_index off div 32 := w]]\<rparr>)"

definition page_mask :: "u64 \<Rightarrow> u32" where
  "page_mask off = push_bit (page_index off mod 32) 1"

definition phys_mem_set_dirty_bit :: "nat \<Rightarrow> u64 \<Rightarrow> ('d, unit) map_vm" where
  "phys_mem_set_dirty_bit i off = bnd (dirty_word i off) (\<lambda>w. case w of None \<Rightarrow> ret ()
     | Some w \<Rightarrow> set_dirty_word i off (w OR page_mask off))"

definition phys_mem_is_dirty_bit :: "nat \<Rightarrow> u64 \<Rightarrow> ('d, bool) map_vm" where
  "phys_mem_is_dirty_bit i off = bnd (dirty_word i off) (\<lambda>w. case w of None \<Rightarrow> ret True
     | Some w \<Rightarrow> ret (drop_bit (page_index off mod 32) w AND 1 \<noteq> 0))"

definition phys_mem_reset_dirty_bit :: "nat \<Rightarrow> u64 \<Rightarrow> ('d, unit) map_vm" where
  "phys_mem_reset_dirty_bit i off = bnd (dirty_word i off) (\<lambda>w. case w of None \<Rightarrow> ret ()
     | Some w \<Rightarrow> if w AND page_mask off \<noteq> 0
         then andthen (set_dirty_word i off (w AND NOT (page_mask off)))
                (flush_tlb_write_range i (off AND NOT (DEVRAM_PAGE_SIZE - 1)) DEVRAM_PAGE_SIZE)
         else ret ())"

text \<open>Returns the current bitmap and continues with the other one, cleared.\<close>

definition default_get_dirty_bits :: "nat \<Rightarrow> ('d, u32 list) map_vm" where
  "default_get_dirty_bits i = bnd (get_range i) (\<lambda>pr.
     andthen (guard NullDeref (dirty_bits_tab pr \<noteq> []))
     (let bits = dirty_bits_tab pr ! dirty_bits_index pr; other = 1 - dirty_bits_index pr in
      andthen (if list_ex (\<lambda>w. w \<noteq> 0) bits \<and> rsize pr \<noteq> 0 then flush_tlb_write_range i 0 (org_size pr) else ret ())
      (andthen (set_range i (\<lambda>pr. pr\<lparr>dirty_bits_index := other,
          dirty_bits_tab := (dirty_bits_tab pr)[other := replicate (length (dirty_bits_tab pr ! other)) 0]\<rparr>))
      (ret bits))))"

text \<open>A pointer into the RAM of a range: the range and the offset.\<close>

definition phys_mem_get_ram_ptr :: "u64 \<Rightarrow> bool \<Rightarrow> ('d, (nat \<times> u64) option) map_vm" where
  "phys_mem_get_ram_ptr paddr is_rw = bnd (gets (\<lambda>s. get_phys_mem_range s paddr)) (\<lambda>r. case r of
     None \<Rightarrow> ret None
   | Some i \<Rightarrow> bnd (get_range i) (\<lambda>pr.
       if \<not> is_ram pr then ret None
       else let offset = paddr - addr pr in
         andthen (if is_rw then phys_mem_set_dirty_bit i offset else ret ()) (ret (Some (i, offset)))))"

section \<open>Well-formed maps\<close>

definition range_ok :: "'d phys_memory_range \<Rightarrow> bool" where
  "range_ok pr \<longleftrightarrow> (rsize pr = 0 \<or> rsize pr = org_size pr)
     \<and> (is_ram pr \<longrightarrow> length (phys_mem pr) = unat (org_size pr) \<and> unat (org_size pr) mod 4096 = 0
         \<and> (dirty_bits_tab pr = [] \<or> length (dirty_bits_tab pr) = 2 \<and> dirty_bits_index pr < 2
              \<and> (\<forall>tab \<in> set (dirty_bits_tab pr). length tab = dirty_words (org_size pr))))"

definition map_ok :: "'d phys_memory_map \<Rightarrow> bool" where
  "map_ok s \<longleftrightarrow> length (phys_mem_range s) \<le> PHYS_MEM_RANGE_MAX \<and> list_all range_ok (phys_mem_range s)"

lemma wlp_get_range [wlp_simps]:
  "wlp (get_range i) Q F s = (if i < length (phys_mem_range s) then Q (phys_mem_range s ! i) s else F OutOfBounds)"
  by (simp add: wlp_def get_range_def)

lemma wlp_set_range [wlp_simps]:
  "wlp (set_range i f) Q F s = (if i < length (phys_mem_range s)
     then Q () (s\<lparr>phys_mem_range := (phys_mem_range s)[i := f (phys_mem_range s ! i)]\<rparr>) else F OutOfBounds)"
  by (simp add: wlp_def set_range_def)

lemma map_ok_nth: "map_ok s \<Longrightarrow> i < length (phys_mem_range s) \<Longrightarrow> range_ok (phys_mem_range s ! i)"
  by (simp add: map_ok_def list_all_length)

lemma map_ok_update:
  "map_ok s \<Longrightarrow> range_ok pr \<Longrightarrow> map_ok (s\<lparr>phys_mem_range := (phys_mem_range s)[i := pr]\<rparr>)"
  by (auto simp: map_ok_def list_all_iff dest!: set_update_subset_insert [THEN subsetD])

lemma map_ok_flushed [simp]: "map_ok (s\<lparr>flushed := l\<rparr>) = map_ok s"
  by (simp add: map_ok_def)

lemma init_map_ok: "map_ok phys_mem_map_init"
  by (simp add: map_ok_def phys_mem_map_init_def)

lemma keeps_flush [keeps_intros]: "keeps map_ok (flush_tlb_write_range i off n)"
  unfolding flush_tlb_write_range_def by (intro keeps_intros keeps_modify) simp

lemma keeps_default_set_addr: "keeps map_ok (default_set_addr i a en)"
proof -
  have ok: "range_ok pr \<Longrightarrow> range_ok (pr\<lparr>addr := a, rsize := org_size pr\<rparr>)"
    "range_ok pr \<Longrightarrow> range_ok (pr\<lparr>addr := 0, rsize := 0\<rparr>)" for pr :: "'d phys_memory_range"
    by (simp_all add: range_ok_def)
  have s: "keeps map_ok (set_range i f :: ('d, unit) map_vm)"
    if "\<And>pr. range_ok pr \<Longrightarrow> range_ok (f pr)" for f
    using that by (intro keepsI) (auto simp: wlp_set_range map_ok_nth intro!: map_ok_update)
  have g: "keeps map_ok (get_range i :: ('d, 'd phys_memory_range) map_vm)"
    by (intro keepsI) (simp add: wlp_get_range)
  show ?thesis unfolding default_set_addr_def Let_def by (intro keeps_intros g s ok)
qed

text \<open>An address found in a range is at an offset within it, even where the end of a range wraps.\<close>

lemma in_range_offset:
  assumes "in_range paddr pr"
  shows "unat (paddr - addr pr) < unat (rsize pr)"
proof -
  have le: "addr pr \<le> paddr" and lt: "paddr < addr pr + rsize pr" using assms by (auto simp: in_range_def)
  have "\<not> unat (addr pr) + unat (rsize pr) \<ge> 18446744073709551616"
  proof
    assume "18446744073709551616 \<le> unat (addr pr) + unat (rsize pr)"
    moreover have "unat (rsize pr) < 18446744073709551616" "unat (addr pr) < 18446744073709551616"
      using unsigned_less [of "rsize pr", where 'a = nat] unsigned_less [of "addr pr", where 'a = nat] by simp_all
    ultimately have "unat (addr pr + rsize pr) < unat (addr pr)" by (simp add: unat_word_ariths le_mod_geq)
    then show False using le lt by (simp add: word_less_nat_alt word_le_nat_alt)
  qed
  then have "unat (addr pr + rsize pr) = unat (addr pr) + unat (rsize pr)" by (simp add: unat_word_ariths)
  then show ?thesis using le lt by (simp add: word_less_nat_alt word_le_nat_alt unat_sub)
qed

lemma find_range_Some:
  "find_range paddr prs = Some i \<Longrightarrow> i < length prs \<and> in_range paddr (prs ! i)"
  by (induction prs arbitrary: i) (auto split: if_splits)

lemma find_range_first:
  "i < length prs \<Longrightarrow> in_range paddr (prs ! i) \<Longrightarrow> \<forall>pr \<in> set (take i prs). \<not> in_range paddr pr \<Longrightarrow>
     find_range paddr prs = Some i"
proof (induction prs arbitrary: i)
  case (Cons pr prs)
  then show ?case by (cases i) simp_all
qed simp

text \<open>The word of a page's bit exists.\<close>

lemma dirty_index:
  assumes "unat off < unat sz" and "unat sz mod 4096 = 0"
  shows "page_index off div 32 < dirty_words sz"
proof -
  obtain k where k: "unat sz = 4096 * k" using assms(2) by auto
  have "unat off div 4096 < k" using assms(1) k by (simp add: less_mult_imp_div_less mult.commute)
  then have "unat off div 4096 div 32 \<le> (k - 1) div 32" by (intro div_le_mono) simp
  also have "(k - 1) div 32 < (k - 1 + 32) div 32" by simp
  also have "k - 1 + 32 = k + 31" using \<open>unat off div 4096 < k\<close> by simp
  finally show ?thesis using k by (simp add: page_index_def dirty_words_def)
qed

lemma dirty_word_safe:
  assumes "map_ok s" and "i < length (phys_mem_range s)" and "is_ram (phys_mem_range s ! i)"
    and "unat off < unat (org_size (phys_mem_range s ! i))"
  shows "dirty_word i off s = Some (Inr (let pr = phys_mem_range s ! i in
      if dirty_bits_tab pr = [] then None else Some (dirty_bits_tab pr ! dirty_bits_index pr ! (page_index off div 32)), s))"
proof -
  have "range_ok (phys_mem_range s ! i)" by (rule map_ok_nth [OF assms(1,2)])
  then show ?thesis using assms(2-4) dirty_index [OF assms(4)]
    by (auto simp: dirty_word_def get_range_def bnd_run andthen_run range_ok_def Let_def)
qed

lemma range_ok_dirty:
  assumes "range_ok pr" and "dirty_bits_tab pr \<noteq> []"
  shows "range_ok (pr\<lparr>dirty_bits_tab := (dirty_bits_tab pr)[dirty_bits_index pr :=
          (dirty_bits_tab pr ! dirty_bits_index pr)[k := w]]\<rparr>)"
  using assms by (auto simp: range_ok_def dest!: set_update_subset_insert [THEN subsetD])

text \<open>
  A pointer handed out by \<open>phys_mem_get_ram_ptr\<close> lies within the memory of a RAM range that contains
  the address, and marking the page dirty stays within the bitmap.
\<close>

lemma get_ram_ptr_safe:
  assumes "map_ok s"
  shows "wlp (phys_mem_get_ram_ptr paddr rw) (\<lambda>r t. map_ok t \<and> (case r of None \<Rightarrow> True | Some (i, off) \<Rightarrow>
      i < length (phys_mem_range t) \<and> is_ram (phys_mem_range t ! i)
      \<and> unat off < length (phys_mem (phys_mem_range t ! i)) \<and> addr (phys_mem_range t ! i) + off = paddr)) (\<lambda>_. False) s"
proof (cases "get_phys_mem_range s paddr")
  case None
  then show ?thesis using assms by (simp add: phys_mem_get_ram_ptr_def wlp_simps)
next
  case (Some i)
  then have i: "i < length (phys_mem_range s)" "in_range paddr (phys_mem_range s ! i)"
    using find_range_Some by (auto simp: get_phys_mem_range_def)
  let ?pr = "phys_mem_range s ! i" and ?off = "paddr - addr (phys_mem_range s ! i)"
  have ok: "range_ok ?pr" by (rule map_ok_nth [OF assms i(1)])
  have "unat ?off < unat (rsize ?pr)" by (rule in_range_offset [OF i(2)])
  then have off: "unat ?off < unat (org_size ?pr)" using ok by (auto simp: range_ok_def)
  show ?thesis
  proof (cases "is_ram ?pr \<and> rw \<and> dirty_bits_tab ?pr \<noteq> []")
    case True
    note dw = dirty_word_safe [OF assms i(1) _ off]
    have "phys_mem_set_dirty_bit i ?off s = set_dirty_word i ?off
        (dirty_bits_tab ?pr ! dirty_bits_index ?pr ! (page_index ?off div 32) OR page_mask ?off) s"
      using dw True by (simp add: phys_mem_set_dirty_bit_def bnd_run Let_def)
    then have "phys_mem_get_ram_ptr paddr rw s = Some (Inr (Some (i, ?off),
        s\<lparr>phys_mem_range := (phys_mem_range s)[i := ?pr\<lparr>dirty_bits_tab := (dirty_bits_tab ?pr)[dirty_bits_index ?pr :=
          (dirty_bits_tab ?pr ! dirty_bits_index ?pr)[page_index ?off div 32 :=
            dirty_bits_tab ?pr ! dirty_bits_index ?pr ! (page_index ?off div 32) OR page_mask ?off]]\<rparr>]\<rparr>))"
      using True Some i(1)
      by (simp add: phys_mem_get_ram_ptr_def Let_def get_range_def bnd_run andthen_run set_dirty_word_def set_range_def)
    then show ?thesis
      using map_ok_update [OF assms range_ok_dirty [OF ok]] True off ok i(1)
      by (simp add: wlp_def range_ok_def)
  next
    case False
    have nd: "wlp (phys_mem_set_dirty_bit i ?off) (\<lambda>_ t. t = s) (\<lambda>_. False) s" if "is_ram ?pr" "dirty_bits_tab ?pr = []"
      using that dirty_word_safe [OF assms i(1) that(1) off] by (simp add: phys_mem_set_dirty_bit_def wlp_def bnd_run)
    have "wlp (phys_mem_get_ram_ptr paddr rw) (\<lambda>r t. t = s \<and> r = (if is_ram ?pr then Some (i, ?off) else None)) (\<lambda>_. False) s"
      using Some i(1) False nd by (auto simp: phys_mem_get_ram_ptr_def wlp_simps Let_def intro!: wlp_mono [OF nd])
    then show ?thesis by (rule wlp_mono) (use assms off ok i(1) in \<open>auto simp: range_ok_def\<close>)
  qed
qed

end
