(* ===== verification/Virtio_Init.thy ===== *)
theory Virtio_Init
  imports Virtio_Regs Pci Iomem
begin

text \<open>
  The bus side of \<open>virtio_init\<close> in \<open>src/src/virtio.c\<close>: what a device registers with the memory map and,
  on a PCI bus, with the bus.  The device itself is set up by \<open>virtio_init_dev\<close> of \<open>Virtio_Core\<close>.
\<close>

unbundle bit_operations_syntax

section \<open>Operations\<close>

definition capability_bytes :: "u8 \<Rightarrow> u8 \<Rightarrow> u32 \<Rightarrow> u32 \<Rightarrow> u32 \<Rightarrow> bytes" where
  "capability_bytes cfg_type bar offset len mult =
     (let cap_len = (if cfg_type = 2 then 20 else 16) in
      [0x09, 0, cap_len, cfg_type, bar, 0, 0, 0] @ put_le32 offset @ put_le32 len
        @ (if cfg_type = 2 then put_le32 mult else []))"

definition virtio_add_pci_capability :: "nat \<Rightarrow> u8 \<Rightarrow> u8 \<Rightarrow> u32 \<Rightarrow> u32 \<Rightarrow> u32 \<Rightarrow> ('h, 'x, unit) pci_vm" where
  "virtio_add_pci_capability d cfg_type bar offset len mult =
     bnd (pci_add_capability d (capability_bytes cfg_type bar offset len mult)) (\<lambda>_. ret ())"

text \<open>The callback of the register window: \<open>mem_range\<close> is its range in the memory map.\<close>

definition virtio_pci_bar_set :: "nat \<Rightarrow> nat \<Rightarrow> u32 \<Rightarrow> bool \<Rightarrow> ('d, unit) map_vm" where
  "virtio_pci_bar_set mem_range bar_num a enabled = phys_mem_set_addr mem_range (ucast a) enabled"

definition virtio_pci_ids :: "u32 \<Rightarrow> (u16 \<times> u16) option" where
  "virtio_pci_ids dev_id = map_of [(1, (0x1000, 0x0200)), (2, (0x1001, 0x0100)), (3, (0x1003, 0x0780)),
     (4, (0x1005, 0x1000)), (9, (0x1040 + 9, 0x2)), (18, (0x1040 + 18, 0x0980))] dev_id"

definition hex_digit :: "nat \<Rightarrow> char" where
  "hex_digit n = ''0123456789abcdef'' ! n"

definition pci_name :: "u16 \<Rightarrow> string" where
  "pci_name pid = ''virtio_'' @ map (\<lambda>k. hex_digit (unat pid div 16 ^ k mod 16)) [3, 2, 1, 0]"

text \<open>The device number and the range of the register window.\<close>

definition virtio_init_pci :: "u32 \<Rightarrow> 'd \<Rightarrow> (nat, 'd phys_memory_map, nat \<times> nat) pci_vm" where
  "virtio_init_pci dev_id opaque = (case virtio_pci_ids dev_id of None \<Rightarrow> fault Abort
   | Some (pid, cls) \<Rightarrow>
     bnd (pci_register_device (pci_name pid) (- 1) 0x1af4 pid 0x00 cls) (\<lambda>r. case r of
       None \<Rightarrow> fault NullDeref
     | Some d \<Rightarrow>
       andthen (pci_device_set_config16 d 0x2c 0x1af4)
       (andthen (pci_device_set_config16 d 0x2e (ucast dev_id))
       (andthen (pci_device_set_config8 d 0x3d 1)
       (andthen (virtio_add_pci_capability d 1 4 VIRTIO_PCI_CFG_OFFSET 0x1000 0)
       (andthen (virtio_add_pci_capability d 3 4 VIRTIO_PCI_ISR_OFFSET 0x1000 0)
       (andthen (virtio_add_pci_capability d 4 4 VIRTIO_PCI_CONFIG_OFFSET 0x1000 0)
       (andthen (virtio_add_pci_capability d 2 4 VIRTIO_PCI_NOTIFY_OFFSET 0x1000 0)
       (bnd (zoom env (\<lambda>x b. b\<lparr>env := x\<rparr>) (cpu_register_device 0 0x4000 opaque
          (DEVIO_SIZE8 OR DEVIO_SIZE16 OR DEVIO_SIZE32 OR DEVIO_DISABLED))) (\<lambda>mr.
        andthen (pci_register_bar d 4 0x4000 PCI_ADDRESS_SPACE_MEM mr) (ret (d, mr))))))))))))"

abbreviation VIRTIO_PAGE_SIZE :: u64 where "VIRTIO_PAGE_SIZE \<equiv> 4096"

definition virtio_init_mmio :: "u64 \<Rightarrow> 'd \<Rightarrow> ('d, nat) map_vm" where
  "virtio_init_mmio a opaque = cpu_register_device a VIRTIO_PAGE_SIZE opaque
     (DEVIO_SIZE8 OR DEVIO_SIZE16 OR DEVIO_SIZE32)"

section \<open>Lookup\<close>

text \<open>
  After the registration every address of the page is served by the new device, unless an earlier
  range covers it.
\<close>

lemma mmio_registered:
  assumes "length (phys_mem_range s) < PHYS_MEM_RANGE_MAX" and "a < - 4096" and "off < 4096"
    and "\<forall>pr \<in> set (phys_mem_range s). \<not> in_range (a + off) pr"
  shows "\<exists>t. virtio_init_mmio a opaque s = Some (Inr (length (phys_mem_range s), t))
    \<and> get_phys_mem_range t (a + off) = Some (length (phys_mem_range s))
    \<and> io_opaque (phys_mem_range t ! length (phys_mem_range s)) = Some opaque"
proof -
  let ?pr = "\<lparr>addr = a, org_size = 4096, rsize = 4096, is_ram = False, devram_flags = 0, phys_mem = [],
      dirty_bits_tab = [], dirty_bits_index = 0, io_opaque = Some opaque, devio_flags = 7\<rparr>"
  have ua: "unat a + 4096 < 18446744073709551616" using assms(2) by (simp add: word_less_nat_alt)
  have uo: "unat off < 4096" using assms(3) by (simp add: word_less_nat_alt)
  have "in_range (a + off) ?pr"
    using ua uo by (simp add: in_range_def word_le_nat_alt word_less_nat_alt unat_word_ariths)
  then have "find_range (a + off) (phys_mem_range s @ [?pr]) = Some (length (phys_mem_range s))"
    using assms(4) by (intro find_range_first) auto
  then show ?thesis using assms(1)
    by (simp add: virtio_init_mmio_def cpu_register_device_def add_range_def bnd_run andthen_run get_phys_mem_range_def)
qed

end
