(* ===== verification/Bus_Correct.thy ===== *)
theory Bus_Correct
  imports Virtio_Init
begin

text \<open>
  What the PCI bus and the physical memory map promise: interrupt lines, what a guest can change in a
  configuration space, the capability list, and the lookup of registers and RAM by address.
\<close>

unbundle bit_operations_syntax

section \<open>PCI\<close>

text \<open>
  C39: the interrupt lines are wired-or.  After a device sets its line, each of the four lines of the
  bus is high exactly when some device asserts it: this device at its new level, any other one as
  before.
\<close>

theorem pci_irq_wired_or:
  assumes "irq_ok b" and "n < 4"
  shows "irq_ok (pci_device_set_irq fn k level b)
    \<and> irq_line (pci_device_set_irq fn k level b) ! n =
        (if (\<exists>fn'. if n = bus_map_irq fn k \<and> fn' = fn then level \<noteq> 0 else asserted b n fn') then 1 else 0)"
proof
  show ok: "irq_ok (pci_device_set_irq fn k level b)" by (rule set_irq_ok [OF assms(1)])
  have "irq_line (pci_device_set_irq fn k level b) ! n =
      (if \<exists>fn'. asserted (pci_device_set_irq fn k level b) n fn' then 1 else 0)"
    using ok assms(2) by (simp add: irq_ok_def)
  then show "irq_line (pci_device_set_irq fn k level b) ! n =
        (if (\<exists>fn'. if n = bus_map_irq fn k \<and> fn' = fn then level \<noteq> 0 else asserted b n fn') then 1 else 0)"
    unfolding set_irq_asserted [OF assms] .
qed

text \<open>A bus without devices, and one with a single device.\<close>

definition empty_bus :: "(nat, unit) pci_bus" where
  "empty_bus = \<lparr>bus_num = 0, device = replicate 256 None, irq_state = replicate 4 (replicate 8 0),
     irq_line = replicate 4 0, env = ()\<rparr>"

definition one_bus :: "(nat, unit) pci_bus" where
  "one_bus = empty_bus\<lparr>device := (replicate 256 None)[8 := Some (new_device ''x'' 8 0x1af4 0x1001 0 0x0100)]\<rparr>"

lemma replicate_nth4: "n < 4 \<Longrightarrow> replicate 4 x ! n = x"
  by simp

lemma empty_bus_irq: "irq_ok empty_bus"
proof -
  have "\<not> asserted empty_bus n fn" if "n < 4" for n fn
  proof -
    have "unat fn div 32 < 8" using unsigned_less [of fn, where 'a = nat] by auto
    then show ?thesis using that by (simp add: asserted_def empty_bus_def)
  qed
  then show ?thesis by (simp add: irq_ok_def) (simp add: empty_bus_def)
qed

theorem pci_irq_wired_or_witness:
  "irq_line (pci_device_set_irq 8 0 1 empty_bus) ! 0 = 1"
proof -
  have ex: "\<exists>fn'. if (0 :: nat) = bus_map_irq 8 0 \<and> fn' = 8 then (1 :: int) \<noteq> 0 else asserted empty_bus 0 fn'"
    by (rule exI [of _ 8]) (simp add: bus_map_irq_def)
  from pci_irq_wired_or [OF empty_bus_irq, of 0 8 0 1] show ?thesis unfolding if_P [OF ex] by simp
qed

text \<open>
  No write to the configuration space through the data port, of any size at any address, changes
  the vendor, device and class identification, the header type or the interrupt pin of a device, or
  adds or removes a device.
\<close>

theorem pci_ids_fixed:
  assumes "pci_data_write bar_set a v sz b = Some (Inr (u, b'))"
    and "list_all (\<lambda>d. case d of None \<Rightarrow> True | Some dev \<Rightarrow> length (config dev) = 256 \<and> length (io_regions dev) = PCI_NUM_REGIONS) (device b)"
  shows "list_all2 (rel_option (\<lambda>dev dev'. \<forall>k \<in> {0, 1, 2, 3, 8, 9, 0xa, 0xb, 0xe, 0x3d}. config dev' ! k = config dev ! k))
    (device b) (device b')"
proof -
  have "ids_kept b b"
    using assms(2) by (auto simp: ids_kept_def list_all2_conv_all_nth list_all_length same_ids_def split: option.splits intro!: option.rel_refl_strong)
  from keepsD [OF keeps_pci_data_write this assms(1)] show ?thesis
    unfolding ids_kept_def
    by (rule list_all2_mono) (auto elim!: option.rel_mono_strong simp: same_ids_def fixed_bytes_def)
qed

lemma one_bus_dev: "device one_bus ! 8 = Some (new_device ''x'' 8 0x1af4 0x1001 0 0x0100)" "length (device one_bus) = 256" "bus_num one_bus = 0"
  by (simp_all add: one_bus_def empty_bus_def)

lemma new_device_ok [simp]:
  "length (config (new_device n fn v d r c)) = 256" "length (io_regions (new_device n fn v d r c)) = 7"
  by (simp_all add: new_device_def le16.enc_length)

theorem pci_ids_fixed_witness:
  "\<exists>b'. pci_data_write (\<lambda>_ _ _ _. ret ()) 0x800 0xef 0 one_bus = Some (Inr ((), b'))
    \<and> list_all2 (rel_option (\<lambda>dev dev'. \<forall>k \<in> {0, 1, 2, 3, 8, 9, 0xa, 0xb, 0xe, 0x3d}. config dev' ! k = config dev ! k))
        (device one_bus) (device b')"
proof -
  have "\<exists>b'. pci_data_write (\<lambda>_ _ _ _. ret ()) 0x800 0xef 0 one_bus = Some (Inr ((), b'))"
    by (simp add: pci_data_write_def pci_device_config_write_def bnd_ret bnd_run andthen_run one_bus_dev
        pci_device_config_write8_def get_dev_def set_dev_def)
  then obtain b' where b: "pci_data_write (\<lambda>_ _ _ _. ret ()) 0x800 0xef 0 one_bus = Some (Inr ((), b'))" by blast
  have "list_all (\<lambda>d. case d of None \<Rightarrow> True | Some dev \<Rightarrow> length (config dev) = 256 \<and> length (io_regions dev) = 7) (device one_bus)"
    by (auto simp: list_all_iff one_bus_def dest!: set_update_subset_insert [THEN subsetD])
  from pci_ids_fixed [OF b this] b show ?thesis by blast
qed

text \<open>
  Every read of the configuration space through the data port returns a value and stays within
  the 256 bytes: a 32-bit access is aligned, a 16-bit access to the last byte reads that byte only,
  and an absent device or bus reads as ones.
\<close>

theorem pci_data_read_total:
  assumes "bus_ok b" and "sz = 0 \<or> sz = 1 \<or> sz = 2 \<and> a AND 3 = 0"
  shows "\<exists>v. pci_data_read a sz b = Some (Inr (v, b))"
  by (rule pci_read_run [OF assms])

theorem pci_data_read_total_witness: "\<exists>v. pci_data_read 0x8ff 1 one_bus = Some (Inr (v, one_bus))"
  by (rule pci_data_read_total)
    (auto simp: bus_ok_def one_bus_def empty_bus_def dest!: set_update_subset_insert [THEN subsetD])

text \<open>
  The capability list as a guest walks it: from a pointer, each capability holds the pointer to the
  next one in its second byte, and 0 ends the list.
\<close>

fun cap_list :: "bytes \<Rightarrow> u8 \<Rightarrow> nat list \<Rightarrow> bool" where
  "cap_list c p [] \<longleftrightarrow> p = 0"
| "cap_list c p (k # ks) \<longleftrightarrow> p \<noteq> 0 \<and> unat p = k \<and> cap_list c (c ! (k + 1)) ks"

lemma cap_list_frame:
  "cap_list c p ks \<Longrightarrow> \<forall>k \<in> set ks. c' ! (k + 1) = c ! (k + 1) \<Longrightarrow> cap_list c' p ks"
  by (induction ks arbitrary: p) auto

text \<open>
  \<open>pci_add_capability\<close> puts the new capability at the head of the list a guest walks, keeps the
  capabilities that were there behind it, and stores the body of the capability unchanged.
\<close>

theorem capability_pushed:
  assumes "d < length (device b)" and "device b ! d = Some dev" and "length (config dev) = 256"
    and "off = unat (next_cap_offset dev)" "0x40 \<le> off" "off + length buf \<le> 256" "2 \<le> length buf"
    and "cap_list (config dev) (config dev ! PCI_CAPABILITY_LIST) ks" and "\<forall>k \<in> set ks. 0x40 \<le> k \<and> k + 2 \<le> off"
  shows "\<exists>dev'. pci_add_capability d buf b = Some (Inr (int off, b\<lparr>device := (device b)[d := Some dev']\<rparr>))
    \<and> cap_list (config dev') (config dev' ! PCI_CAPABILITY_LIST) (off # ks)
    \<and> config dev' ! off = buf ! 0 \<and> drop 2 (take (length buf) (drop off (config dev'))) = drop 2 buf"
proof -
  obtain dev' where c: "pci_add_capability d buf b = Some (Inr (int off, b\<lparr>device := (device b)[d := Some dev']\<rparr>))"
    "config dev' ! PCI_CAPABILITY_LIST = of_nat off" "config dev' ! (off + 1) = config dev ! PCI_CAPABILITY_LIST"
    "config dev' ! off = buf ! 0" "\<forall>k. 2 \<le> k \<and> k < length buf \<longrightarrow> config dev' ! (off + k) = buf ! k" "length (config dev') = 256"
    "\<forall>k < off. 0x40 \<le> k \<longrightarrow> config dev' ! k = config dev ! k"
    using add_capability_run [OF assms(1-7)] by blast
  have p: "unat (of_nat off :: u8) = off" "(of_nat off :: u8) \<noteq> 0"
    using assms(5-7) by (simp_all add: unat_of_nat word_unat_eq_iff)
  have ks: "cap_list (config dev') (config dev' ! (off + 1)) ks"
    unfolding c(3) by (rule cap_list_frame [OF assms(8)]) (use assms(9) c(7) in auto)
  have "drop 2 (take (length buf) (drop off (config dev'))) = drop 2 buf"
  proof (intro nth_equalityI)
    fix i
    assume "i < length (drop 2 (take (length buf) (drop off (config dev'))))"
    then show "drop 2 (take (length buf) (drop off (config dev'))) ! i = drop 2 buf ! i"
      using c(5) [rule_format, of "2 + i"] c(6) assms(6) by (simp add: add.assoc)
  qed (use c(6) assms(6) in simp)
  with c(1,2,4) p ks show ?thesis by auto
qed

theorem capability_pushed_witness:
  "\<exists>b dev'. pci_add_capability 8 (capability_bytes 1 4 0 0x1000 0) one_bus = Some (Inr (0x40, b))
    \<and> device b ! 8 = Some dev' \<and> cap_list (config dev') (config dev' ! 0x34) [0x40]"
proof -
  let ?dev = "new_device ''x'' 8 0x1af4 0x1001 0 0x0100 :: nat pci_device" and ?cap = "capability_bytes 1 4 0 0x1000 0"
  have l: "length ?cap = 16" by (simp add: capability_bytes_def le32.enc_length)
  have c: "config ?dev ! PCI_CAPABILITY_LIST = 0" by (simp add: new_device_def nth_blit le16.enc_length)
  have o: "0x40 = unat (next_cap_offset ?dev)" by (simp add: new_device_def)
  from capability_pushed [of 8 one_bus ?dev "0x40" ?cap "[]", OF _ one_bus_dev(1) _ o] show ?thesis
    by (auto simp: one_bus_dev(2) l c)
qed

section \<open>Memory map\<close>

text \<open>
  Once a device is registered at a page on the memory map, every address of the page that no
  earlier range covers leads to it.
\<close>

theorem mmio_page_served:
  assumes "length (phys_mem_range s) < PHYS_MEM_RANGE_MAX" and "a < - 4096" and "off < 4096"
    and "\<forall>pr \<in> set (phys_mem_range s). \<not> in_range (a + off) pr"
  shows "\<exists>t. virtio_init_mmio a opaque s = Some (Inr (length (phys_mem_range s), t))
    \<and> get_phys_mem_range t (a + off) = Some (length (phys_mem_range s))
    \<and> io_opaque (phys_mem_range t ! length (phys_mem_range s)) = Some opaque"
  by (rule mmio_registered [OF assms])

theorem mmio_page_served_witness:
  "\<exists>t. virtio_init_mmio 0x40010000 True phys_mem_map_init = Some (Inr (0, t))
    \<and> get_phys_mem_range t (0x40010000 + 0x50) = Some 0"
  using mmio_page_served [of phys_mem_map_init "0x40010000" "0x50" True] by (auto simp: phys_mem_map_init_def)

text \<open>
  C40: in a well-formed map, asking for a pointer to guest memory always returns; a pointer it returns
  lies within the memory of the RAM range that holds the address, the page is marked dirty within
  the bitmap, and the map stays well formed.
\<close>

theorem ram_pointer_in_bounds:
  assumes "map_ok s"
  shows "\<exists>r t. phys_mem_get_ram_ptr paddr rw s = Some (Inr (r, t)) \<and> map_ok t
    \<and> (case r of None \<Rightarrow> True | Some (i, off) \<Rightarrow>
        i < length (phys_mem_range t) \<and> is_ram (phys_mem_range t ! i)
        \<and> unat off < length (phys_mem (phys_mem_range t ! i)) \<and> addr (phys_mem_range t ! i) + off = paddr)"
proof -
  have "total (get_range i :: ('a, 'a phys_memory_range) map_vm)" "total (set_range i f :: ('a, unit) map_vm)" for i f
    by (simp_all add: total_def returns_def get_range_def set_range_def)
  then have "total (phys_mem_get_ram_ptr paddr rw :: ('a, (nat \<times> u64) option) map_vm)"
    unfolding phys_mem_get_ram_ptr_def phys_mem_set_dirty_bit_def dirty_word_def set_dirty_word_def
    by (intro total_intros)
  from total_result [OF this get_ram_ptr_safe [OF assms]] show ?thesis .
qed

definition sample_map :: "nat phys_memory_map" where
  "sample_map = phys_mem_map_init\<lparr>phys_mem_range :=
     [(ram_entry 0x80000000 4096 DEVRAM_FLAG_DIRTY_BITS)\<lparr>phys_mem := replicate 4096 0, dirty_bits_tab := [[0], [0]]\<rparr>]\<rparr>"

lemma sample_map_ok: "map_ok sample_map"
  by (simp add: map_ok_def sample_map_def phys_mem_map_init_def range_ok_def ram_entry_def dirty_words_def)

theorem ram_pointer_in_bounds_witness:
  "\<exists>r t. phys_mem_get_ram_ptr 0x80000004 True sample_map = Some (Inr (r, t)) \<and> map_ok t"
  using ram_pointer_in_bounds [OF sample_map_ok, of "0x80000004" True] by blast

end
