(* ===== verification/Virtio_Notify.thy ===== *)
theory Virtio_Notify
  imports Device_Correct
begin

text \<open>
  Model of the worker thread at the end of \<open>src/src/virtio.c\<close>: a guest access posts a queue number in
  the atomic word of its device and then raises the flag under the lock; the worker clears the flag,
  takes the words one after the other and processes the queues they name.  Each access to shared
  state is a step of its own, so that the steps of the two sides interleave freely.
\<close>

unbundle bit_operations_syntax

section \<open>States and steps\<close>

text \<open>
  Where the worker is: at the top of its loop, before the word of a device, in the loop over the bits
  of the word taken from a device, or not running (not yet started, or returned).
\<close>

datatype worker_pc = Waiting | Scanning nat | Serving nat u32 nat | Stopped

text \<open>
  \<open>posting\<close> counts the guest accesses between their two steps.  \<open>unserved\<close> is a history variable:
  the queues posted since the worker last began to process them.
\<close>

record 'd notify_sys =
  pend :: "u32 list"
  flag :: bool
  stop_flag :: bool
  posting :: nat
  pc :: worker_pc
  devs :: "'d list"
  unserved :: "(nat \<times> nat) set"

text \<open>\<open>qn i j\<close> is what \<open>queue_notify\<close> of queue \<open>j\<close> does to device \<open>i\<close>, if it returns.\<close>

type_synonym 'd notifier = "nat \<Rightarrow> nat \<Rightarrow> 'd \<Rightarrow> 'd option"

definition run_notify :: "'m fmem_ops \<Rightarrow> (nat \<Rightarrow> ('m, 'z) device_recv) \<Rightarrow> ('m, 'z) virtio_device_scheme notifier" where
  "run_notify ops recv i j s = (case queue_notify ops (recv i) j s of Some (Inr (_, t)) \<Rightarrow> Some t | _ \<Rightarrow> None)"

text \<open>The two steps of \<open>async_queue_notify\<close>, and \<open>virtio_stop_pending_notify_thread\<close>.\<close>

definition post_bit :: "nat \<Rightarrow> nat \<Rightarrow> 'd notify_sys \<Rightarrow> 'd notify_sys" where
  "post_bit d q s = s\<lparr>pend := (pend s)[d := pend s ! d OR push_bit q 1], posting := posting s + 1,
     unserved := insert (d, q) (unserved s)\<rparr>"

definition post_flag :: "'d notify_sys \<Rightarrow> 'd notify_sys" where
  "post_flag s = s\<lparr>posting := posting s - 1, flag := True\<rparr>"

definition virtio_stop_pending_notify_thread :: "'d notify_sys \<Rightarrow> 'd notify_sys" where
  "virtio_stop_pending_notify_thread s = s\<lparr>flag := True, stop_flag := True\<rparr>"

text \<open>
  Before the worker is started the static flags are zero and so are the words of the devices, which
  are allocated cleared.  Starting the worker creates the thread and touches neither; it copies the
  array of devices, which is the list the state has from the beginning.  A worker may be started
  again once the one before has returned.
\<close>

definition notify_init :: "'d list \<Rightarrow> 'd notify_sys" where
  "notify_init ds = \<lparr>pend = replicate (length ds) 0, flag = False, stop_flag = False,
     posting = 0, pc = Stopped, devs = ds, unserved = {}\<rparr>"

definition virtio_start_pending_notify_thread :: "'d notify_sys \<Rightarrow> 'd notify_sys" where
  "virtio_start_pending_notify_thread s = s\<lparr>pc := Waiting\<rparr>"

text \<open>One step of \<open>pending_notify_worker\<close>; \<open>None\<close> when it waits or has ended.\<close>

definition worker_step :: "'d notifier \<Rightarrow> 'd notify_sys \<Rightarrow> 'd notify_sys option" where
  "worker_step qn s = (case pc s of
     Waiting \<Rightarrow>
       if \<not> flag s then None
       else if stop_flag s then Some (s\<lparr>stop_flag := False, pc := Stopped\<rparr>)
       else Some (s\<lparr>flag := False, pc := Scanning 0\<rparr>)
   | Scanning i \<Rightarrow>
       if i < length (pend s) then Some (s\<lparr>pend := (pend s)[i := 0], pc := Serving i (pend s ! i) 0\<rparr>)
       else Some (s\<lparr>pc := Waiting\<rparr>)
   | Serving i notify j \<Rightarrow>
       if j < 32 \<and> notify \<noteq> 0 then
         if bit notify j then
           map_option (\<lambda>d. s\<lparr>devs := (devs s)[i := d], pc := Serving i (notify AND NOT (push_bit j 1)) (Suc j),
              unserved := unserved s - {(i, j)}\<rparr>) (qn i j (devs s ! i))
         else Some (s\<lparr>pc := Serving i notify (Suc j)\<rparr>)
       else Some (s\<lparr>pc := Scanning (Suc i)\<rparr>)
   | Stopped \<Rightarrow> None)"

inductive notify_step :: "'d notifier \<Rightarrow> 'd notify_sys \<Rightarrow> 'd notify_sys \<Rightarrow> bool" for qn where
  post: "d < length (pend s) \<Longrightarrow> q < MAX_QUEUE \<Longrightarrow> notify_step qn s (post_bit d q s)"
| signal: "0 < posting s \<Longrightarrow> notify_step qn s (post_flag s)"
| start: "pc s = Stopped \<Longrightarrow> notify_step qn s (virtio_start_pending_notify_thread s)"
| stop: "notify_step qn s (virtio_stop_pending_notify_thread s)"
| worker: "worker_step qn s = Some t \<Longrightarrow> notify_step qn s t"

inductive reachable :: "'d notifier \<Rightarrow> 'd list \<Rightarrow> 'd notify_sys \<Rightarrow> bool" for qn ds where
  init: "reachable qn ds (notify_init ds)"
| step: "reachable qn ds s \<Longrightarrow> notify_step qn s t \<Longrightarrow> reachable qn ds t"

inductive_cases notify_stepE: "notify_step qn s t"

section \<open>No notification is lost\<close>

text \<open>A posted queue is still in its word or in the worker's hands and not yet passed.\<close>

definition owed :: "'d notify_sys \<Rightarrow> nat \<Rightarrow> nat \<Rightarrow> bool" where
  "owed s d q \<longleftrightarrow> d < length (pend s) \<and> q < 32 \<and>
     (bit (pend s ! d) q \<or> (\<exists>n j. pc s = Serving d n j \<and> j \<le> q \<and> bit n q))"

text \<open>Somebody will still look at the word of device \<open>d\<close>.\<close>

definition attended :: "'d notify_sys \<Rightarrow> nat \<Rightarrow> bool" where
  "attended s d \<longleftrightarrow> flag s \<or> 0 < posting s \<or> (case pc s of Scanning i \<Rightarrow> i \<le> d | Serving i _ _ \<Rightarrow> i < d
     | _ \<Rightarrow> False)"

definition notify_inv :: "'d notify_sys \<Rightarrow> bool" where
  "notify_inv s \<longleftrightarrow> (\<forall>(d, q) \<in> unserved s. owed s d q) \<and> (\<forall>d < length (pend s). pend s ! d \<noteq> 0 \<longrightarrow> attended s d)"

lemma notify_invI:
  assumes "\<And>d q. (d, q) \<in> unserved s \<Longrightarrow> owed s d q"
    and "\<And>d. d < length (pend s) \<Longrightarrow> pend s ! d \<noteq> 0 \<Longrightarrow> attended s d"
  shows "notify_inv s"
  using assms by (auto simp: notify_inv_def)

lemma init_inv: "notify_inv (notify_init ds)"
  by (simp add: notify_inv_def notify_init_def)

lemma start_inv: "notify_inv s \<Longrightarrow> pc s = Stopped \<Longrightarrow> notify_inv (virtio_start_pending_notify_thread s)"
  by (auto simp: notify_inv_def owed_def attended_def virtio_start_pending_notify_thread_def)

lemma post_inv:
  assumes "notify_inv s" and "d < length (pend s)" and "q < 8"
  shows "notify_inv (post_bit d q s)"
proof (rule notify_invI)
  fix d' q'
  assume "(d', q') \<in> unserved (post_bit d q s)"
  then have "(d', q') = (d, q) \<or> owed s d' q'" using assms(1) by (auto simp: post_bit_def notify_inv_def)
  then show "owed (post_bit d q s) d' q'"
    using assms(2,3) by (auto simp: owed_def post_bit_def nth_list_update bit_simps)
qed (simp add: attended_def post_bit_def)

lemma flag_inv:
  assumes "notify_inv s"
  shows "notify_inv (post_flag s)" and "notify_inv (virtio_stop_pending_notify_thread s)"
  using assms
  by (auto simp: notify_inv_def owed_def attended_def post_flag_def virtio_stop_pending_notify_thread_def)

lemma scan_inv:
  assumes "notify_inv s" and "pc s = Scanning i" and "i < length (pend s)"
  shows "notify_inv (s\<lparr>pend := (pend s)[i := 0], pc := Serving i (pend s ! i) 0\<rparr>)"
proof (rule notify_invI)
  fix d q
  let ?t = "s\<lparr>pend := (pend s)[i := 0], pc := Serving i (pend s ! i) 0\<rparr>"
  assume "(d, q) \<in> unserved ?t"
  then have "owed s d q" using assms(1) by (auto simp: notify_inv_def)
  then show "owed ?t d q" using assms(2,3) by (cases "d = i") (auto simp: owed_def)
next
  fix d
  let ?t = "s\<lparr>pend := (pend s)[i := 0], pc := Serving i (pend s ! i) 0\<rparr>"
  assume "d < length (pend ?t)" and "pend ?t ! d \<noteq> 0"
  then have "d \<noteq> i" and "attended s d" using assms by (auto simp: notify_inv_def nth_list_update split: if_splits)
  then show "attended ?t d" using assms(2) by (auto simp: attended_def)
qed

lemma serve_inv:
  assumes "notify_inv s" and "pc s = Serving i n j"
  shows "notify_inv (s\<lparr>devs := ds, pc := Serving i (n AND NOT (push_bit j 1)) (Suc j), unserved := unserved s - {(i, j)}\<rparr>)"
    and "\<not> bit n j \<Longrightarrow> notify_inv (s\<lparr>pc := Serving i n (Suc j)\<rparr>)"
    and "\<not> (j < 32 \<and> n \<noteq> 0) \<Longrightarrow> notify_inv (s\<lparr>pc := Scanning (Suc i)\<rparr>)"
proof -
  have A: "\<And>d q. (d, q) \<in> unserved s \<Longrightarrow> owed s d q"
    and B: "\<And>d. d < length (pend s) \<Longrightarrow> pend s ! d \<noteq> 0 \<Longrightarrow> attended s d"
    using assms(1) by (auto simp: notify_inv_def)
  have at: "attended s d \<longleftrightarrow> flag s \<or> 0 < posting s \<or> i < d" for d using assms(2) by (simp add: attended_def)
  show "notify_inv (s\<lparr>devs := ds, pc := Serving i (n AND NOT (push_bit j 1)) (Suc j), unserved := unserved s - {(i, j)}\<rparr>)"
  proof (rule notify_invI)
    fix d q
    let ?t = "s\<lparr>devs := ds, pc := Serving i (n AND NOT (push_bit j 1)) (Suc j), unserved := unserved s - {(i, j)}\<rparr>"
    assume "(d, q) \<in> unserved ?t"
    then have "owed s d q" "(d, q) \<noteq> (i, j)" using A by auto
    then show "owed ?t d q"
      using assms(2) by (auto simp: owed_def bit_simps)
  qed (use B at in \<open>auto simp: attended_def\<close>)
  show "notify_inv (s\<lparr>pc := Serving i n (Suc j)\<rparr>)" if "\<not> bit n j"
  proof (rule notify_invI)
    fix d q
    assume "(d, q) \<in> unserved (s\<lparr>pc := Serving i n (Suc j)\<rparr>)"
    then have "owed s d q" using A by auto
    then show "owed (s\<lparr>pc := Serving i n (Suc j)\<rparr>) d q"
      using assms(2) that by (auto simp: owed_def) (metis Suc_leI le_neq_implies_less)
  qed (use B at in \<open>auto simp: attended_def\<close>)
  show "notify_inv (s\<lparr>pc := Scanning (Suc i)\<rparr>)" if "\<not> (j < 32 \<and> n \<noteq> 0)"
  proof (rule notify_invI)
    fix d q
    assume "(d, q) \<in> unserved (s\<lparr>pc := Scanning (Suc i)\<rparr>)"
    then have "owed s d q" using A by auto
    then show "owed (s\<lparr>pc := Scanning (Suc i)\<rparr>) d q"
      using assms(2) that by (auto simp: owed_def)
  next
    fix d
    assume "d < length (pend (s\<lparr>pc := Scanning (Suc i)\<rparr>))" and "pend (s\<lparr>pc := Scanning (Suc i)\<rparr>) ! d \<noteq> 0"
    then have "flag s \<or> 0 < posting s \<or> i < d" using B [of d] at by simp
    then show "attended (s\<lparr>pc := Scanning (Suc i)\<rparr>) d" by (auto simp: attended_def)
  qed
qed

lemma worker_inv:
  assumes "notify_inv s" and "worker_step qn s = Some t"
  shows "notify_inv t"
proof (cases "pc s")
  case Waiting
  then show ?thesis using assms by (auto simp: worker_step_def notify_inv_def owed_def attended_def split: if_splits)
next
  case (Scanning i)
  show ?thesis
  proof (cases "i < length (pend s)")
    case True
    then show ?thesis using assms(2) Scanning scan_inv [OF assms(1) Scanning True] by (auto simp: worker_step_def)
  next
    case False
    then show ?thesis using assms Scanning by (auto simp: worker_step_def notify_inv_def owed_def attended_def)
  qed
next
  case (Serving i n j)
  then show ?thesis using assms serve_inv [OF assms(1) Serving]
    by (auto simp: worker_step_def split: if_splits)
qed (use assms in \<open>simp add: worker_step_def\<close>)

lemma reachable_inv: "reachable qn ds s \<Longrightarrow> notify_inv s"
  by (induction rule: reachable.induct)
    (auto simp: init_inv start_inv post_inv flag_inv elim!: notify_stepE intro: worker_inv)

section \<open>A pass ends\<close>

text \<open>What is left of the pass the worker is in.\<close>

definition pass_left :: "'d notify_sys \<Rightarrow> nat" where
  "pass_left s = (case pc s of Scanning i \<Rightarrow> 34 * (length (pend s) - i) + 1
     | Serving i n j \<Rightarrow> 34 * (length (pend s) - Suc i) + 2 + (32 - j) | _ \<Rightarrow> 0)"

lemma pass_decreases:
  assumes "worker_step qn s = Some t" and "pc s \<noteq> Waiting"
  shows "pass_left t < pass_left s"
  using assms by (auto simp: worker_step_def pass_left_def Suc_diff_Suc split: worker_pc.splits if_splits)

text \<open>What the worker still has to do before it waits, when nobody posts anything.\<close>

definition work_left :: "'d notify_sys \<Rightarrow> nat" where
  "work_left s = (if flag s then 34 * length (pend s) + 3 else 0) + pass_left s"

lemma work_decreases:
  assumes "worker_step qn s = Some t"
  shows "work_left t < work_left s \<or> pc t = Stopped"
  using assms by (auto simp: worker_step_def work_left_def pass_left_def Suc_diff_Suc split: worker_pc.splits if_splits)

lemma worker_frame:
  assumes "worker_step qn s = Some t" and "\<not> stop_flag s"
  shows "posting t = posting s \<and> \<not> stop_flag t \<and> pc t \<noteq> Stopped \<and> (flag t \<longrightarrow> flag s)"
  using assms by (auto simp: worker_step_def split: worker_pc.splits if_splits)

text \<open>The worker is in the middle of a queue whose processing does not return.\<close>

definition stuck_at :: "'d notifier \<Rightarrow> 'd notify_sys \<Rightarrow> nat \<Rightarrow> nat \<Rightarrow> bool" where
  "stuck_at qn s i j \<longleftrightarrow> (\<exists>n. pc s = Serving i n j \<and> j < 32 \<and> bit n j) \<and> qn i j (devs s ! i) = None"

lemma worker_runs:
  assumes "worker_step qn s = None"
  shows "pc s = Stopped \<or> pc s = Waiting \<and> \<not> flag s \<or> (\<exists>i j. stuck_at qn s i j)"
  using assms by (auto simp: worker_step_def stuck_at_def split: worker_pc.splits if_splits)

inductive worker_steps :: "'d notifier \<Rightarrow> 'd notify_sys \<Rightarrow> 'd notify_sys \<Rightarrow> bool" for qn where
  refl: "worker_steps qn s s"
| more: "worker_step qn s = Some t \<Longrightarrow> worker_steps qn t u \<Longrightarrow> worker_steps qn s u"

lemma worker_settles:
  "pc s \<noteq> Stopped \<Longrightarrow> \<not> stop_flag s \<Longrightarrow>
    \<exists>t. worker_steps qn s t \<and> posting t = posting s \<and> (pc t = Waiting \<and> \<not> flag t \<or> (\<exists>i j. stuck_at qn t i j))"
proof (induction "work_left s" arbitrary: s rule: less_induct)
  case less
  show ?case
  proof (cases "worker_step qn s")
    case None
    from worker_runs [OF this] less.prems show ?thesis by (blast intro: worker_steps.refl)
  next
    case (Some t)
    note fr = worker_frame [OF Some less.prems(2)]
    have "work_left t < work_left s" using work_decreases [OF Some] fr by blast
    from less.hyps [OF this] fr Some show ?thesis by (auto intro: worker_steps.more)
  qed
qed

text \<open>The worker serves devices of the list only.\<close>

definition notify_sized :: "'d list \<Rightarrow> 'd notify_sys \<Rightarrow> bool" where
  "notify_sized ds s \<longleftrightarrow> length (pend s) = length ds \<and> length (devs s) = length ds
     \<and> (\<forall>i n j. pc s = Serving i n j \<longrightarrow> i < length ds)"

lemma worker_sized: "notify_sized ds s \<Longrightarrow> worker_step qn s = Some t \<Longrightarrow> notify_sized ds t"
  by (auto simp: worker_step_def notify_sized_def split: worker_pc.splits if_splits)

lemma post_bit_sized:
  "notify_sized ds s \<Longrightarrow> notify_sized ds (post_bit d q s)" "notify_sized ds s \<Longrightarrow> notify_sized ds (post_flag s)"
  by (simp_all add: notify_sized_def post_bit_def post_flag_def)

lemma start_sized:
  "notify_sized ds s \<Longrightarrow> notify_sized ds (virtio_start_pending_notify_thread s)"
  "notify_sized ds s \<Longrightarrow> notify_sized ds (virtio_stop_pending_notify_thread s)"
  by (simp_all add: notify_sized_def virtio_start_pending_notify_thread_def virtio_stop_pending_notify_thread_def)

lemma init_sized: "notify_sized ds (notify_init ds)"
  by (simp add: notify_sized_def notify_init_def)

lemma step_sized: "notify_step qn s t \<Longrightarrow> notify_sized ds s \<Longrightarrow> notify_sized ds t"
  by (erule notify_stepE) (simp_all add: post_bit_sized start_sized worker_sized)

lemma reachable_sized: "reachable qn ds s \<Longrightarrow> notify_sized ds s"
  by (induction rule: reachable.induct) (auto intro: step_sized init_sized)

lemma reachable_worker: "worker_steps qn s t \<Longrightarrow> reachable qn ds s \<Longrightarrow> reachable qn ds t"
  by (induction rule: worker_steps.induct) (auto intro: reachable.step notify_step.worker)

lemma waiting_served:
  assumes "notify_inv s" and "pc s = Waiting" and "\<not> flag s" and "posting s = 0"
  shows "unserved s = {}"
proof (rule ccontr)
  assume "unserved s \<noteq> {}"
  then obtain d q where "(d, q) \<in> unserved s" by auto
  with assms(1,2) have "d < length (pend s)" "bit (pend s ! d) q" by (auto simp: notify_inv_def owed_def)
  then have "d < length (pend s)" "pend s ! d \<noteq> 0" by auto
  with assms have "attended s d" by (auto simp: notify_inv_def)
  with assms(2-4) show False by (simp add: attended_def)
qed

section \<open>Properties\<close>

text \<open>
  C16: no notification is lost.  In every state the guests and the worker can reach, however their
  steps interleave, a worker that waits with the flag down and no guest between its two steps has
  begun to process every queue since it was last posted.
\<close>

theorem no_lost_notification:
  assumes "reachable qn ds s" and "pc s = Waiting" and "\<not> flag s" and "posting s = 0"
  shows "unserved s = {}"
  using waiting_served [OF reachable_inv [OF assms(1)] assms(2-4)] .

text \<open>
  C17: the worker makes progress.  From every reachable state with a running worker that is not asked
  to stop and no guest between its two steps, the worker alone comes to wait with every posted queue
  processed, unless the processing of some queue of some device does not return (the guest can bring
  this about, see \<open>endless_chain_hangs\<close>): then it is that call of \<open>queue_notify\<close> the worker is in.
\<close>

theorem worker_serves_all:
  assumes "reachable (run_notify ops recv) ds s"
    and "pc s \<noteq> Stopped" and "\<not> stop_flag s" and "posting s = 0"
  shows "\<exists>t. worker_steps (run_notify ops recv) s t
    \<and> (pc t = Waiting \<and> unserved t = {}
       \<or> (\<exists>i n j. pc t = Serving i n j \<and> i < length ds \<and> j < 32 \<and> bit n j
            \<and> (\<nexists>d. queue_notify ops (recv i) j (devs t ! i) = Some (Inr ((), d)))))"
proof -
  let ?qn = "run_notify ops recv"
  obtain t where t: "worker_steps ?qn s t" "posting t = 0" "pc t = Waiting \<and> \<not> flag t \<or> (\<exists>i j. stuck_at ?qn t i j)"
    using worker_settles [OF assms(2,3), of ?qn] assms(4) by auto
  have r: "reachable ?qn ds t" by (rule reachable_worker [OF t(1) assms(1)])
  have "unserved t = {}" if "pc t = Waiting" "\<not> flag t" by (rule waiting_served [OF reachable_inv [OF r] that t(2)])
  moreover have "\<exists>n. pc t = Serving i n j \<and> i < length ds \<and> j < 32 \<and> bit n j
      \<and> (\<nexists>d. queue_notify ops (recv i) j (devs t ! i) = Some (Inr ((), d)))" if "stuck_at ?qn t i j" for i j
    using that reachable_sized [OF r] by (auto simp: stuck_at_def notify_sized_def run_notify_def)
  ultimately show ?thesis using t(1,3) by blast
qed

text \<open>
  A network device with a packet to send; the worker is started and the guest posts the transmit
  queue.  The states the worker then goes through.
\<close>

abbreviation sample_qn :: "(ram, bytes list) virtio_net_device notifier" where
  "sample_qn \<equiv> run_notify flat_ram (\<lambda>_. virtio_net_recv_request flat_ram collect_net (\<lambda>_. 0))"

definition sample_sys :: "(ram, bytes list) virtio_net_device notify_sys" where
  "sample_sys = post_flag (post_bit 0 1 (virtio_start_pending_notify_thread (notify_init [sample_net 0 sample_packet])))"

lemma sample_reachable: "reachable sample_qn [sample_net 0 sample_packet] sample_sys"
proof -
  let ?i = "notify_init [sample_net 0 sample_packet]"
  let ?s = "virtio_start_pending_notify_thread ?i"
  have "notify_step sample_qn ?i ?s" by (rule notify_step.start) (simp add: notify_init_def)
  moreover have "notify_step sample_qn ?s (post_bit 0 1 ?s)"
    by (rule notify_step.post) (simp_all add: virtio_start_pending_notify_thread_def notify_init_def)
  moreover have "notify_step sample_qn (post_bit 0 1 ?s) sample_sys"
    unfolding sample_sys_def by (rule notify_step.signal) (simp add: post_bit_def)
  ultimately show ?thesis by (blast intro: reachable.intros)
qed

abbreviation sample_at ::
  "u32 \<Rightarrow> worker_pc \<Rightarrow> (ram, bytes list) virtio_net_device \<Rightarrow> (nat \<times> nat) set \<Rightarrow> (ram, bytes list) virtio_net_device notify_sys" where
  "sample_at w p d un \<equiv> \<lparr>pend = [w], flag = False, stop_flag = False, posting = 0, pc = p, devs = [d], unserved = un\<rparr>"

lemma sample_sys_eq: "sample_sys = (sample_at 2 Waiting (sample_net 0 sample_packet) {(0, 1)})\<lparr>flag := True\<rparr>"
  by (simp add: sample_sys_def post_flag_def post_bit_def virtio_start_pending_notify_thread_def notify_init_def)

lemma sample_served:
  obtains d where "sample_qn 0 1 (sample_net 0 sample_packet) = Some d" "es d = [[1, 2, 3]]"
  using net_tx_served [where junk = "\<lambda>_. 0", OF sample_tx(1,2) sample_order sample_net_sel(2) sample_tx(3) _ sample_tx(4,5)] that
  by (auto simp: run_notify_def)

lemma worker_steps_unroll:
  "worker_step qn s = Some t \<Longrightarrow> worker_steps qn s u \<longleftrightarrow> u = s \<or> worker_steps qn t u"
  "worker_step qn s = None \<Longrightarrow> worker_steps qn s u \<longleftrightarrow> u = s"
  by (auto elim: worker_steps.cases intro: worker_steps.intros)

lemma sample_run:
  assumes "sample_qn 0 1 (sample_net 0 sample_packet) = Some d"
  shows "worker_steps sample_qn sample_sys t \<longleftrightarrow> t = sample_sys
    \<or> t = sample_at 2 (Scanning 0) (sample_net 0 sample_packet) {(0, 1)}
    \<or> t = sample_at 0 (Serving 0 2 0) (sample_net 0 sample_packet) {(0, 1)}
    \<or> t = sample_at 0 (Serving 0 2 1) (sample_net 0 sample_packet) {(0, 1)}
    \<or> t = sample_at 0 (Serving 0 0 2) d {} \<or> t = sample_at 0 (Scanning 1) d {} \<or> t = sample_at 0 Waiting d {}"
proof -
  have w: "worker_step sample_qn sample_sys = Some (sample_at 2 (Scanning 0) (sample_net 0 sample_packet) {(0, 1)})"
    "worker_step sample_qn (sample_at 2 (Scanning 0) (sample_net 0 sample_packet) {(0, 1)}) =
       Some (sample_at 0 (Serving 0 2 0) (sample_net 0 sample_packet) {(0, 1)})"
    "worker_step sample_qn (sample_at 0 (Serving 0 2 0) (sample_net 0 sample_packet) {(0, 1)}) =
       Some (sample_at 0 (Serving 0 2 1) (sample_net 0 sample_packet) {(0, 1)})"
    "worker_step sample_qn (sample_at 0 (Serving 0 2 1) (sample_net 0 sample_packet) {(0, 1)}) = Some (sample_at 0 (Serving 0 0 2) d {})"
    "worker_step sample_qn (sample_at 0 (Serving 0 0 2) d {}) = Some (sample_at 0 (Scanning 1) d {})"
    "worker_step sample_qn (sample_at 0 (Scanning 1) d {}) = Some (sample_at 0 Waiting d {})"
    "worker_step sample_qn (sample_at 0 Waiting d {}) = None"
    using assms by (simp_all add: worker_step_def sample_sys_eq bit_simps)
  show ?thesis by (simp only: worker_steps_unroll(1) [OF w(1)] worker_steps_unroll(1) [OF w(2)] worker_steps_unroll(1) [OF w(3)]
    worker_steps_unroll(1) [OF w(4)] worker_steps_unroll(1) [OF w(5)] worker_steps_unroll(1) [OF w(6)] worker_steps_unroll(2) [OF w(7)])
qed

theorem no_lost_notification_witness:
  "\<exists>t. reachable sample_qn [sample_net 0 sample_packet] t \<and> pc t = Waiting \<and> es (devs t ! 0) = [[1, 2, 3]] \<and> unserved t = {}"
proof -
  obtain d where d: "sample_qn 0 1 (sample_net 0 sample_packet) = Some d" "es d = [[1, 2, 3]]" by (rule sample_served)
  let ?t = "sample_at 0 Waiting d {}"
  have r: "reachable sample_qn [sample_net 0 sample_packet] ?t"
    by (rule reachable_worker [OF _ sample_reachable]) (simp add: sample_run [OF d(1)])
  with no_lost_notification [OF r] d(2) show ?thesis by (intro exI [of _ ?t]) simp
qed

theorem worker_serves_all_witness:
  "unserved sample_sys = {(0, 1)}
    \<and> (\<exists>t. worker_steps sample_qn sample_sys t \<and> pc t = Waiting \<and> unserved t = {} \<and> es (devs t ! 0) = [[1, 2, 3]])"
proof -
  let ?recv = "\<lambda>_ :: nat. virtio_net_recv_request flat_ram collect_net (\<lambda>_. 0)"
  obtain d where d: "sample_qn 0 1 (sample_net 0 sample_packet) = Some d" "es d = [[1, 2, 3]]" by (rule sample_served)
  have s: "pc sample_sys \<noteq> Stopped" "\<not> stop_flag sample_sys" "posting sample_sys = 0" "unserved sample_sys = {(0, 1)}"
    by (simp_all add: sample_sys_eq)
  obtain t where t: "worker_steps sample_qn sample_sys t" "pc t = Waiting \<and> unserved t = {}
      \<or> (\<exists>i n j. pc t = Serving i n j \<and> i < length [sample_net 0 sample_packet] \<and> j < 32 \<and> bit n j
          \<and> (\<nexists>d. queue_notify flat_ram (?recv i) j (devs t ! i) = Some (Inr ((), d))))"
    using worker_serves_all [OF sample_reachable s(1-3)] by blast
  have q: "\<exists>d. queue_notify flat_ram (?recv 0) 1 (sample_net 0 sample_packet) = Some (Inr ((), d))"
    using d(1) by (auto simp: run_notify_def split: option.splits sum.splits)
  have "pc t = Waiting \<and> unserved t = {} \<and> es (devs t ! 0) = [[1, 2, 3]]"
    using t(2) q d(2) t(1) [unfolded sample_run [OF d(1)]] by (auto simp: sample_sys_eq bit_simps)
  with t(1) s(4) show ?thesis by blast
qed

end
