(* ===== verification/List_Head.thy ===== *)
theory List_Head
  imports Prelude
begin

text \<open>
  Model of \<open>src/src/list.h\<close>: circular doubly linked lists whose links live inside the elements.  The
  heap maps the address of a \<open>struct list_head\<close> to its two pointers; 0 is the null pointer.  The
  other theories represent such a list by the HOL list of its elements; the refinement here is what
  entitles them to.
\<close>

section \<open>Heap\<close>

type_synonym addr = nat

record list_head =
  lprev :: addr
  lnext :: addr

type_synonym lheap = "addr \<Rightarrow> list_head option"

type_synonym 'a list_vm = "(lheap, 'a) vm"

definition node :: "addr \<Rightarrow> list_head list_vm" where
  "node p = (\<lambda>h. if p = 0 then Some (Inl NullDeref)
     else case h p of None \<Rightarrow> Some (Inl UseAfterFree) | Some n \<Rightarrow> Some (Inr (n, h)))"

definition set_next :: "addr \<Rightarrow> addr \<Rightarrow> unit list_vm" where
  "set_next p q = bnd (node p) (\<lambda>n. modify (\<lambda>h. h(p \<mapsto> n\<lparr>lnext := q\<rparr>)))"

definition set_prev :: "addr \<Rightarrow> addr \<Rightarrow> unit list_vm" where
  "set_prev p q = bnd (node p) (\<lambda>n. modify (\<lambda>h. h(p \<mapsto> n\<lparr>lprev := q\<rparr>)))"

section \<open>Operations\<close>

definition init_list_head :: "addr \<Rightarrow> unit list_vm" where
  "init_list_head head = andthen (set_prev head head) (set_next head head)"

text \<open>\<open>__list_add\<close>.\<close>

definition list_add_between :: "addr \<Rightarrow> addr \<Rightarrow> addr \<Rightarrow> unit list_vm" where
  "list_add_between el prev nxt =
     andthen (set_next prev el) (andthen (set_prev el prev) (andthen (set_next el nxt) (set_prev nxt el)))"

definition list_add :: "addr \<Rightarrow> addr \<Rightarrow> unit list_vm" where
  "list_add el head = bnd (node head) (\<lambda>n. list_add_between el head (lnext n))"

definition list_add_tail :: "addr \<Rightarrow> addr \<Rightarrow> unit list_vm" where
  "list_add_tail el head = bnd (node head) (\<lambda>n. list_add_between el (lprev n) head)"

definition list_del :: "addr \<Rightarrow> unit list_vm" where
  "list_del el = bnd (node el) (\<lambda>n.
     andthen (set_next (lprev n) (lnext n)) (andthen (set_prev (lnext n) (lprev n))
     (andthen (set_prev el 0) (set_next el 0))))"

definition list_empty :: "addr \<Rightarrow> bool list_vm" where
  "list_empty el = bnd (node el) (\<lambda>n. ret (lnext n = el))"

text \<open>\<open>list_for_each\<close>: the addresses the loop variable takes, in order.\<close>

definition for_each_body :: "addr \<Rightarrow> addr \<times> addr list \<Rightarrow> (addr \<times> addr list, addr list) step list_vm" where
  "for_each_body head = (\<lambda>(el, seen). if el = head then ret (Done seen)
     else bnd (node el) (\<lambda>n. ret (Again (lnext n, seen @ [el]))))"

definition list_for_each :: "addr \<Rightarrow> addr list list_vm" where
  "list_for_each head = bnd (node head) (\<lambda>n. loop (for_each_body head) (lnext n, []))"

text \<open>
  \<open>list_for_each_safe\<close>: the next element is read before the body runs on the present one, so the
  body may unlink and free it.  The look-ahead also reads the element after the last one, which is
  the head itself.
\<close>

definition for_each_safe_step :: "addr \<Rightarrow> (addr \<Rightarrow> unit list_vm) \<Rightarrow> addr \<times> addr \<Rightarrow> (addr \<times> addr, unit) step list_vm" where
  "for_each_safe_step head body = (\<lambda>(el, el1). if el = head then ret (Done ())
     else andthen (body el) (bnd (node el1) (\<lambda>n. ret (Again (el1, lnext n)))))"

definition list_for_each_safe :: "addr \<Rightarrow> (addr \<Rightarrow> unit list_vm) \<Rightarrow> unit list_vm" where
  "list_for_each_safe head body = bnd (node head) (\<lambda>n. bnd (node (lnext n)) (\<lambda>n1.
     loop (for_each_safe_step head body) (lnext n, lnext n1)))"

text \<open>\<open>list_for_each_prev\<close>.\<close>

definition for_each_prev_body :: "addr \<Rightarrow> addr \<times> addr list \<Rightarrow> (addr \<times> addr list, addr list) step list_vm" where
  "for_each_prev_body head = (\<lambda>(el, seen). if el = head then ret (Done seen)
     else bnd (node el) (\<lambda>n. ret (Again (lprev n, seen @ [el]))))"

definition list_for_each_prev :: "addr \<Rightarrow> addr list list_vm" where
  "list_for_each_prev head = bnd (node head) (\<lambda>n. loop (for_each_prev_body head) (lprev n, []))"

section \<open>The list a head stands for\<close>

definition nexts :: "lheap \<Rightarrow> addr \<Rightarrow> addr option" where
  "nexts h a = map_option lnext (h a)"

definition prevs :: "lheap \<Rightarrow> addr \<Rightarrow> addr option" where
  "prevs h a = map_option lprev (h a)"

text \<open>Consecutive addresses are linked both ways.\<close>

fun links :: "lheap \<Rightarrow> addr list \<Rightarrow> bool" where
  "links h (a # b # l) \<longleftrightarrow> nexts h a = Some b \<and> prevs h b = Some a \<and> links h (b # l)"
| "links h _ \<longleftrightarrow> True"

definition dll :: "lheap \<Rightarrow> addr \<Rightarrow> addr list \<Rightarrow> bool" where
  "dll h head xs \<longleftrightarrow> distinct (head # xs) \<and> 0 \<notin> set (head # xs) \<and> links h (head # xs @ [head])"

lemma links_join: "links h (xs @ a # ys) \<longleftrightarrow> links h (xs @ [a]) \<and> links h (a # ys)"
proof (induction xs)
  case (Cons x xs)
  then show ?case by (cases xs) auto
qed simp

lemma links_frame:
  "links h l \<Longrightarrow> \<forall>a \<in> set (butlast l). nexts h' a = nexts h a \<Longrightarrow> \<forall>a \<in> set (tl l). prevs h' a = prevs h a \<Longrightarrow> links h' l"
proof (induction h l rule: links.induct)
  case (1 h a b l)
  then show ?case by (cases l) auto
qed auto

lemma node_run: "p \<noteq> 0 \<Longrightarrow> h p = Some n \<Longrightarrow> node p h = Some (Inr (n, h))"
  by (simp add: node_def)

lemma set_next_run:
  assumes "p \<noteq> 0" and "nexts h p \<noteq> None"
  shows "\<exists>h'. set_next p q h = Some (Inr ((), h')) \<and> nexts h' = (nexts h)(p \<mapsto> q) \<and> prevs h' = prevs h"
proof -
  obtain n where n: "h p = Some n" using assms(2) by (auto simp: nexts_def)
  then have "set_next p q h = Some (Inr ((), h(p \<mapsto> n\<lparr>lnext := q\<rparr>)))"
    using assms(1) by (simp add: set_next_def node_run bnd_run)
  then show ?thesis using n
    by (intro exI [of _ "h(p \<mapsto> n\<lparr>lnext := q\<rparr>)"]) (auto simp: nexts_def prevs_def fun_eq_iff)
qed

lemma set_prev_run:
  assumes "p \<noteq> 0" and "nexts h p \<noteq> None"
  shows "\<exists>h'. set_prev p q h = Some (Inr ((), h')) \<and> nexts h' = nexts h \<and> prevs h' = (prevs h)(p \<mapsto> q)"
proof -
  obtain n where n: "h p = Some n" using assms(2) by (auto simp: nexts_def)
  then have "set_prev p q h = Some (Inr ((), h(p \<mapsto> n\<lparr>lprev := q\<rparr>)))"
    using assms(1) by (simp add: set_prev_def node_run bnd_run)
  then show ?thesis using n
    by (intro exI [of _ "h(p \<mapsto> n\<lparr>lprev := q\<rparr>)"]) (auto simp: nexts_def prevs_def fun_eq_iff)
qed

lemma add_between_run:
  assumes "nexts h p \<noteq> None" "nexts h q \<noteq> None" "nexts h el \<noteq> None" and "0 \<notin> {el, p, q}"
  shows "\<exists>h'. list_add_between el p q h = Some (Inr ((), h'))
    \<and> nexts h' = (nexts h)(p \<mapsto> el, el \<mapsto> q) \<and> prevs h' = (prevs h)(el \<mapsto> p, q \<mapsto> el)"
proof -
  have z: "el \<noteq> 0" "p \<noteq> 0" "q \<noteq> 0" using assms(4) by auto
  obtain h1 where h1: "set_next p el h = Some (Inr ((), h1))" "nexts h1 = (nexts h)(p \<mapsto> el)" "prevs h1 = prevs h"
    using set_next_run [OF z(2) assms(1)] by blast
  have nn: "nexts h1 el \<noteq> None" "nexts h1 q \<noteq> None" using assms(2,3) h1(2) by auto
  obtain h2 where h2: "set_prev el p h1 = Some (Inr ((), h2))" "nexts h2 = nexts h1" "prevs h2 = (prevs h1)(el \<mapsto> p)"
    using set_prev_run [OF z(1), of h1 p] nn(1) by blast
  obtain h3 where h3: "set_next el q h2 = Some (Inr ((), h3))" "nexts h3 = (nexts h2)(el \<mapsto> q)" "prevs h3 = prevs h2"
    using set_next_run [OF z(1), of h2 q] nn(1) h2(2) by auto
  have nn3: "nexts h3 q \<noteq> None" using nn(2) h2(2) h3(2) by auto
  obtain h4 where h4: "set_prev q el h3 = Some (Inr ((), h4))" "nexts h4 = nexts h3" "prevs h4 = (prevs h3)(q \<mapsto> el)"
    using set_prev_run [OF z(3) nn3] by blast
  show ?thesis using h1 h2 h3 h4 by (simp add: list_add_between_def andthen_run)
qed

text \<open>Inserting a new element between two neighbours of a ring.\<close>

lemma insert_ring:
  assumes ring: "links h (xs @ p # q # ys)" and el: "el \<notin> set (xs @ p # q # ys)"
    and new: "nexts h' = (nexts h)(p \<mapsto> el, el \<mapsto> q)" "prevs h' = (prevs h)(el \<mapsto> p, q \<mapsto> el)"
    and once: "p \<notin> set (butlast (q # ys))" "p \<notin> set xs" "q \<notin> set (tl (xs @ [p]))" "q \<notin> set ys"
  shows "links h' (xs @ p # el # q # ys)"
proof -
  have "links h (xs @ [p])" "links h (q # ys)" using ring links_join [of h xs p "q # ys"] by auto
  moreover have "el \<notin> set (butlast (q # ys))" "el \<notin> set (tl (xs @ [p]))"
    using el by (auto dest: in_set_butlastD list.set_sel(2) [rotated])
  ultimately have "links h' (xs @ [p])" "links h' (q # ys)"
    using el new once by (auto intro!: links_frame [of h])
  moreover have "nexts h' p = Some el" "prevs h' el = Some p" "nexts h' el = Some q" "prevs h' q = Some el"
    using el new by auto
  ultimately show ?thesis using links_join [of h' xs p "el # q # ys"] by simp
qed

text \<open>What an operation on one list leaves of the rest of the heap.\<close>

definition same_outside :: "addr set \<Rightarrow> lheap \<Rightarrow> lheap \<Rightarrow> bool" where
  "same_outside A h h' \<longleftrightarrow> (\<forall>a. a \<notin> A \<longrightarrow> nexts h' a = nexts h a \<and> prevs h' a = prevs h a)"

lemma links_mem: "links h l \<Longrightarrow> a \<in> set l \<Longrightarrow> length l \<noteq> 1 \<Longrightarrow> nexts h a \<noteq> None"
proof (induction h l rule: links.induct)
  case (1 h x y l)
  have "nexts h y \<noteq> None" using 1(2) by (auto simp: nexts_def prevs_def)
  then show ?case using 1 by (cases l) auto
qed auto

lemma dll_mem: "dll h head xs \<Longrightarrow> a \<in> set (head # xs) \<Longrightarrow> nexts h a \<noteq> None \<and> a \<noteq> 0"
  using links_mem [of h "head # xs @ [head]" a] by (auto simp: dll_def intro: gr0I)

text \<open>The neighbours of the head.\<close>

lemma dll_first: "dll h head xs \<Longrightarrow> nexts h head = Some (hd (xs @ [head]))"
  by (cases xs) (simp_all add: dll_def)

lemma dll_last: "dll h head xs \<Longrightarrow> prevs h head = Some (last (head # xs))"
  using links_join [of h "butlast (head # xs)" "last (head # xs)" "[head]"]
  by (cases xs rule: rev_cases) (simp_all add: dll_def)

lemma list_add_run:
  assumes "dll h head xs" and "el \<notin> set (head # xs)" "el \<noteq> 0" "nexts h el \<noteq> None"
  shows "\<exists>h'. list_add el head h = Some (Inr ((), h')) \<and> dll h' head (el # xs)
    \<and> same_outside (set (head # el # xs)) h h'"
proof -
  let ?q = "hd (xs @ [head])" and ?ys = "tl (xs @ [head])"
  have q: "?q \<in> set (head # xs)" "xs @ [head] = ?q # ?ys" by (cases xs; simp)+
  obtain n where n: "h head = Some n" "lnext n = ?q" using dll_first [OF assms(1)] by (auto simp: nexts_def)
  have mem: "nexts h head \<noteq> None" "nexts h ?q \<noteq> None" "0 \<notin> {el, head, ?q}"
    using dll_mem [OF assms(1)] q(1) assms(3) by auto
  obtain h' where h': "list_add_between el head ?q h = Some (Inr ((), h'))"
    "nexts h' = (nexts h)(head \<mapsto> el, el \<mapsto> ?q)" "prevs h' = (prevs h)(el \<mapsto> head, ?q \<mapsto> el)"
    using add_between_run [OF mem(1,2) assms(4) mem(3)] by blast
  have "links h' ([] @ head # el # ?q # ?ys)"
  proof (rule insert_ring [OF _ _ h'(2,3)])
    show "links h ([] @ head # ?q # ?ys)" "el \<notin> set ([] @ head # ?q # ?ys)"
      using assms(1,2) by (auto simp: dll_def simp flip: q(2))
    show "head \<notin> set (butlast (?q # ?ys))" "?q \<notin> set ?ys"
      using assms(1) by (auto simp: dll_def simp flip: q(2)) (cases xs; auto)
  qed simp_all
  then have "dll h' head (el # xs)" using assms by (auto simp: dll_def simp flip: q(2))
  moreover have "list_add el head h = Some (Inr ((), h'))"
    using n h'(1) mem(3) by (simp add: list_add_def node_run bnd_run)
  moreover have "same_outside (set (head # el # xs)) h h'"
    using h'(2,3) q(1) by (auto simp: same_outside_def)
  ultimately show ?thesis by blast
qed

lemma list_add_tail_run:
  assumes "dll h head xs" and "el \<notin> set (head # xs)" "el \<noteq> 0" "nexts h el \<noteq> None"
  shows "\<exists>h'. list_add_tail el head h = Some (Inr ((), h')) \<and> dll h' head (xs @ [el])
    \<and> same_outside (set (head # el # xs)) h h'"
proof -
  let ?p = "last (head # xs)" and ?us = "butlast (head # xs)"
  have p: "?p \<in> set (head # xs)" "head # xs = ?us @ [?p]" by (rule last_in_set) simp_all
  obtain n where n: "h head = Some n" "lprev n = ?p" using dll_last [OF assms(1)] by (auto simp: prevs_def)
  have mem: "nexts h head \<noteq> None" "nexts h ?p \<noteq> None" "0 \<notin> {el, ?p, head}"
    using dll_mem [OF assms(1)] p(1) assms(3) by auto
  obtain h' where h': "list_add_between el ?p head h = Some (Inr ((), h'))"
    "nexts h' = (nexts h)(?p \<mapsto> el, el \<mapsto> head)" "prevs h' = (prevs h)(el \<mapsto> ?p, head \<mapsto> el)"
    using add_between_run [OF mem(2,1) assms(4) mem(3)] by blast
  have d: "distinct (?us @ [?p])" using assms(1) p(2) by (metis dll_def)
  have "links h' (?us @ ?p # el # head # [])"
  proof (rule insert_ring [OF _ _ h'(2,3)])
    show "links h (?us @ ?p # head # [])" "el \<notin> set (?us @ ?p # head # [])"
      using assms(1,2) p(2) by (metis append.assoc append_Cons append_Nil dll_def) (use assms(2) p(2) in \<open>auto dest: in_set_butlastD\<close>)
    show "?p \<notin> set ?us" using d by simp
    show "head \<notin> set (tl (?us @ [?p]))" using assms(1) unfolding p(2) [symmetric] by (simp add: dll_def)
  qed simp_all
  then have "links h' (head # (xs @ [el]) @ [head])" using p(2) by (metis append.assoc append_Cons append_Nil)
  then have "dll h' head (xs @ [el])" using assms by (auto simp: dll_def)
  moreover have "list_add_tail el head h = Some (Inr ((), h'))"
    using n h'(1) mem(3) by (simp add: list_add_tail_def node_run bnd_run)
  moreover have "same_outside (set (head # el # xs)) h h'"
    using h'(2,3) p(1) by (auto simp: same_outside_def simp del: last.simps)
  ultimately show ?thesis by blast
qed

text \<open>Unlinking the element between two neighbours of a ring.\<close>

lemma delete_ring:
  assumes ring: "links h (xs @ p # el # q # ys)"
    and new: "nexts h' = (nexts h)(p \<mapsto> q, el \<mapsto> 0)" "prevs h' = (prevs h)(q \<mapsto> p, el \<mapsto> 0)"
    and once: "el \<notin> set (xs @ p # q # ys)" "p \<notin> set (butlast (q # ys))" "p \<notin> set xs"
      "q \<notin> set (tl (xs @ [p]))" "q \<notin> set ys"
  shows "links h' (xs @ p # q # ys)"
proof -
  have "links h (xs @ [p])" "links h (q # ys)" using ring links_join [of h xs p "el # q # ys"] by auto
  moreover have "el \<notin> set (butlast (q # ys))" "el \<notin> set (tl (xs @ [p]))"
    using once(1) by (auto dest: in_set_butlastD list.set_sel(2) [rotated])
  ultimately have "links h' (xs @ [p])" "links h' (q # ys)"
    using new once by (auto intro!: links_frame [of h])
  moreover have "nexts h' p = Some q" "prevs h' q = Some p" using once(1) new by auto
  ultimately show ?thesis using links_join [of h' xs p "q # ys"] by simp
qed

lemma del_run:
  assumes "nexts h el = Some q" "prevs h el = Some p" "nexts h p \<noteq> None" "nexts h q \<noteq> None"
    and "0 \<notin> {el, p, q}" "el \<notin> {p, q}"
  shows "\<exists>h'. list_del el h = Some (Inr ((), h'))
    \<and> nexts h' = (nexts h)(p \<mapsto> q, el \<mapsto> 0) \<and> prevs h' = (prevs h)(q \<mapsto> p, el \<mapsto> 0)"
proof -
  have z: "el \<noteq> 0" "p \<noteq> 0" "q \<noteq> 0" using assms(5) by auto
  obtain n where n: "h el = Some n" "lnext n = q" "lprev n = p"
    using assms(1,2) by (auto simp: nexts_def prevs_def)
  obtain h1 where h1: "set_next p q h = Some (Inr ((), h1))" "nexts h1 = (nexts h)(p \<mapsto> q)" "prevs h1 = prevs h"
    using set_next_run [OF z(2) assms(3)] by blast
  have "nexts h1 q \<noteq> None" using assms(4) h1(2) by auto
  then obtain h2 where h2: "set_prev q p h1 = Some (Inr ((), h2))" "nexts h2 = nexts h1" "prevs h2 = (prevs h1)(q \<mapsto> p)"
    using set_prev_run [OF z(3), of h1 p] by blast
  have nn: "nexts h2 el \<noteq> None" using assms(1) h1(2) h2(2) by auto
  obtain h3 where h3: "set_prev el 0 h2 = Some (Inr ((), h3))" "nexts h3 = nexts h2" "prevs h3 = (prevs h2)(el \<mapsto> 0)"
    using set_prev_run [OF z(1) nn] by blast
  obtain h4 where h4: "set_next el 0 h3 = Some (Inr ((), h4))" "nexts h4 = (nexts h3)(el \<mapsto> 0)" "prevs h4 = prevs h3"
    using set_next_run [OF z(1), of h3 0] nn h3(2) by auto
  show ?thesis using n h1 h2 h3 h4 z by (simp add: list_del_def node_run bnd_run andthen_run)
qed

lemma list_del_run:
  assumes "dll h head (ys @ el # zs)"
  shows "\<exists>h'. list_del el h = Some (Inr ((), h')) \<and> dll h' head (ys @ zs) \<and> nexts h' el = Some 0 \<and> prevs h' el = Some 0
    \<and> same_outside (set (head # ys @ el # zs)) h h'"
proof -
  let ?p = "last (head # ys)" and ?us = "butlast (head # ys)" and ?q = "hd (zs @ [head])" and ?vs = "tl (zs @ [head])"
  have p: "?p \<in> set (head # ys)" "head # ys = ?us @ [?p]" by (rule last_in_set) simp_all
  have q: "?q \<in> set (head # zs)" "zs @ [head] = ?q # ?vs" by (cases zs; simp)+
  have d: "distinct (head # ys @ el # zs)" using assms by (simp add: dll_def)
  have ring: "links h (?us @ ?p # el # ?q # ?vs)"
    using assms p(2) q(2) by (metis append.assoc append_Cons append_Nil dll_def)
  then have nb: "nexts h ?p = Some el" "prevs h el = Some ?p" "nexts h el = Some ?q"
    using links_join [of h ?us ?p "el # ?q # ?vs"] by (simp_all only: links.simps)
  have mem: "nexts h ?p \<noteq> None" "nexts h ?q \<noteq> None" "0 \<notin> {el, ?p, ?q}" "el \<notin> {?p, ?q}"
    using dll_mem [OF assms] p(1) q(1) d by (auto simp del: last.simps)
  obtain h' where h': "list_del el h = Some (Inr ((), h'))"
    "nexts h' = (nexts h)(?p \<mapsto> ?q, el \<mapsto> 0)" "prevs h' = (prevs h)(?q \<mapsto> ?p, el \<mapsto> 0)"
    using del_run [OF nb(3,2) mem] by blast
  have us: "distinct (?us @ [?p])" using d p(2) by (metis append_Cons distinct_append)
  have eq: "set (?us @ [?p]) = set (head # ys)" "set (?q # ?vs) = set (head # zs)"
    using p(2) q(2) by (metis, metis insert_absorb2 list.simps(15) rotate1.simps(2) set_rotate1)
  have "links h' (?us @ ?p # ?q # ?vs)"
  proof (rule delete_ring [OF ring h'(2,3)])
    show "el \<notin> set (?us @ ?p # ?q # ?vs)" using eq d by auto
    show "?p \<notin> set (butlast (?q # ?vs))" using d p(1) unfolding q(2) [symmetric] by (auto simp del: last.simps)
    show "?p \<notin> set ?us" using us by simp
    show "?q \<notin> set (tl (?us @ [?p]))" using d q(1) unfolding p(2) [symmetric] by auto
    show "?q \<notin> set ?vs" using d by (cases zs) auto
  qed
  then have "links h' (head # (ys @ zs) @ [head])" using p(2) q(2) by (metis append.assoc append_Cons append_Nil)
  then have "dll h' head (ys @ zs)" using assms by (auto simp: dll_def)
  moreover have "same_outside (set (head # ys @ el # zs)) h h'"
    using h'(2,3) p(1) q(1) by (auto simp: same_outside_def simp del: last.simps)
  ultimately show ?thesis using h' mem(4) by auto
qed

lemma dll_frame: "dll h head xs \<Longrightarrow> same_outside A h h' \<Longrightarrow> set (head # xs) \<inter> A = {} \<Longrightarrow> dll h' head xs"
proof -
  assume a: "dll h head xs" "same_outside A h h'" "set (head # xs) \<inter> A = {}"
  have "a \<in> set (head # xs @ [head]) \<Longrightarrow> nexts h' a = nexts h a \<and> prevs h' a = prevs h a" for a
    using a(2,3) by (auto simp: same_outside_def)
  then have "links h' (head # xs @ [head])"
    using a(1) links_frame [of h "head # xs @ [head]" h'] by (auto simp: dll_def dest!: in_set_butlastD)
  then show ?thesis using a(1) by (simp add: dll_def)
qed

lemma init_list_head_run:
  assumes "head \<noteq> 0" "nexts h head \<noteq> None"
  shows "\<exists>h'. init_list_head head h = Some (Inr ((), h')) \<and> dll h' head [] \<and> same_outside {head} h h'"
proof -
  obtain h1 where h1: "set_prev head head h = Some (Inr ((), h1))" "nexts h1 = nexts h" "prevs h1 = (prevs h)(head \<mapsto> head)"
    using set_prev_run [OF assms] by blast
  obtain h2 where h2: "set_next head head h1 = Some (Inr ((), h2))" "nexts h2 = (nexts h1)(head \<mapsto> head)" "prevs h2 = prevs h1"
    using set_next_run [OF assms(1), of h1 head] assms(2) h1(2) by auto
  show ?thesis using assms(1) h1 h2 by (simp add: init_list_head_def andthen_run dll_def same_outside_def)
qed

lemma dll_node: "dll h head xs \<Longrightarrow> a \<in> set (head # xs) \<Longrightarrow> \<exists>n. h a = Some n \<and> node a h = Some (Inr (n, h))"
  using dll_mem [of h head xs a] by (auto simp: nexts_def node_def)

lemma list_empty_run:
  assumes "dll h head xs"
  shows "list_empty head h = Some (Inr (xs = [], h))"
proof -
  obtain n where n: "h head = Some n" "node head h = Some (Inr (n, h))" using dll_node [OF assms] by auto
  then have "lnext n = hd (xs @ [head])" using dll_first [OF assms] by (simp add: nexts_def)
  moreover have "head \<notin> set xs" using assms by (simp add: dll_def)
  ultimately have "(lnext n = head) = (xs = [])" by (cases xs) auto
  then show ?thesis using n by (simp add: list_empty_def bnd_run)
qed

text \<open>The loops of the header visit the elements in order, forwards and backwards, and end.\<close>

lemma for_each_loop:
  assumes "links h (el # zs)" "last (el # zs) = head" "head \<notin> set (butlast (el # zs))" "0 \<notin> set (el # zs)"
  shows "loop (for_each_body head) (el, seen) h = Some (Inr (seen @ butlast (el # zs), h))"
  using assms
proof (induction zs arbitrary: el seen)
  case Nil
  then show ?case by (simp add: loop_done for_each_body_def)
next
  case (Cons z zs)
  obtain n where n: "h el = Some n" "lnext n = z" using Cons.prems(1) by (auto simp: nexts_def)
  then have "for_each_body head (el, seen) h = Some (Inr (Again (z, seen @ [el]), h))"
    using Cons.prems(3,4) by (simp add: for_each_body_def node_run bnd_run)
  then show ?case using Cons.IH [of z "seen @ [el]"] Cons.prems by (simp add: loop_again)
qed

lemma list_for_each_run:
  assumes "dll h head xs"
  shows "list_for_each head h = Some (Inr (xs, h))"
proof -
  obtain n where n: "h head = Some n" "node head h = Some (Inr (n, h))" using dll_node [OF assms] by auto
  have q: "lnext n = hd (xs @ [head])" using n dll_first [OF assms] by (simp add: nexts_def)
  have e: "xs @ [head] = hd (xs @ [head]) # tl (xs @ [head])" by simp
  have "links h (xs @ [head])" using assms by (cases xs) (auto simp: dll_def)
  then have "loop (for_each_body head) (hd (xs @ [head]), []) h = Some (Inr ([] @ butlast (xs @ [head]), h))"
    using assms for_each_loop [of h "hd (xs @ [head])" "tl (xs @ [head])" head "[]"]
    unfolding e [symmetric] by (auto simp: dll_def)
  then show ?thesis using n q by (simp add: list_for_each_def bnd_run)
qed

lemma for_each_prev_loop:
  assumes "links h (zs @ [el])" "hd (zs @ [el]) = head" "head \<notin> set (tl (zs @ [el]))" "0 \<notin> set (zs @ [el])"
  shows "loop (for_each_prev_body head) (el, seen) h = Some (Inr (seen @ rev (tl (zs @ [el])), h))"
  using assms
proof (induction zs arbitrary: el seen rule: rev_induct)
  case Nil
  then show ?case by (simp add: loop_done for_each_prev_body_def)
next
  case (snoc z zs)
  have l: "links h (zs @ [z])" "prevs h el = Some z" using snoc.prems(1) links_join [of h zs z "[el]"] by auto
  obtain n where n: "h el = Some n" "lprev n = z" using l(2) by (auto simp: prevs_def)
  have "el \<noteq> head" using snoc.prems(3) by (cases zs) auto
  then have "for_each_prev_body head (el, seen) h = Some (Inr (Again (z, seen @ [el]), h))"
    using n snoc.prems(4) by (simp add: for_each_prev_body_def node_run bnd_run)
  moreover have "hd (zs @ [z]) = head" "head \<notin> set (tl (zs @ [z]))" "tl ((zs @ [z]) @ [el]) = tl (zs @ [z]) @ [el]"
    using snoc.prems(2,3) by (cases zs; auto)+
  ultimately show ?case using snoc.IH [OF l(1), of "seen @ [el]"] snoc.prems(4) by (simp add: loop_again)
qed

lemma list_for_each_prev_run:
  assumes "dll h head xs"
  shows "list_for_each_prev head h = Some (Inr (rev xs, h))"
proof -
  obtain n where n: "h head = Some n" "node head h = Some (Inr (n, h))" using dll_node [OF assms] by auto
  have q: "lprev n = last (head # xs)" using n dll_last [OF assms] by (simp add: prevs_def)
  have e: "butlast (head # xs) @ [last (head # xs)] = head # xs" by (rule append_butlast_last_id) simp
  have "links h ([head] @ xs @ [head])" using assms by (simp add: dll_def)
  then have "links h (head # xs)" using links_join [of h "butlast (head # xs)" "last (head # xs)" "[head]"] e
    by (metis append.assoc append_Cons append_Nil)
  then have "loop (for_each_prev_body head) (last (head # xs), []) h = Some (Inr ([] @ rev (tl (head # xs)), h))"
    using assms for_each_prev_loop [of h "butlast (head # xs)" "last (head # xs)" head "[]"]
    unfolding e by (auto simp: dll_def)
  then show ?thesis using n q by (simp add: list_for_each_prev_def bnd_run)
qed

text \<open>
  \<open>list_for_each_safe\<close> may unlink the elements it visits: with \<open>list_del\<close> as its body it empties the
  list and ends.
\<close>

lemma for_each_safe_del:
  assumes "dll h head xs" "nexts h (hd (xs @ [head])) = Some el1"
  shows "\<exists>h'. loop (for_each_safe_step head list_del) (hd (xs @ [head]), el1) h = Some (Inr ((), h')) \<and> dll h' head []
    \<and> (\<forall>a \<in> set xs. nexts h' a = Some 0 \<and> prevs h' a = Some 0) \<and> same_outside (set (head # xs)) h h'"
  using assms
proof (induction xs arbitrary: h el1)
  case Nil
  then show ?case by (simp add: loop_done for_each_safe_step_def same_outside_def)
next
  case (Cons x xs)
  have l: "links h (head # x # xs @ [head])" "x \<noteq> head" "x \<notin> set xs" using Cons.prems(1) by (auto simp: dll_def)
  then have el1: "el1 = hd (xs @ [head])" using Cons.prems(2) by (cases xs) auto
  obtain h1 where h1: "list_del x h = Some (Inr ((), h1))" "dll h1 head xs" "nexts h1 x = Some 0" "prevs h1 x = Some 0"
    "same_outside (set (head # x # xs)) h h1"
    using list_del_run [of h head "[]" x xs] Cons.prems(1) by auto
  obtain n where n: "h1 el1 = Some n" "node el1 h1 = Some (Inr (n, h1))"
    using dll_node [OF h1(2), of el1] el1 by (cases xs) auto
  then have "for_each_safe_step head list_del (x, el1) h = Some (Inr (Again (el1, lnext n), h1))"
    using h1(1) l(2) by (simp add: for_each_safe_step_def andthen_run bnd_run)
  moreover obtain h' where h': "loop (for_each_safe_step head list_del) (el1, lnext n) h1 = Some (Inr ((), h'))"
    "dll h' head []" "\<forall>a \<in> set xs. nexts h' a = Some 0 \<and> prevs h' a = Some 0" "same_outside (set (head # xs)) h1 h'"
    using Cons.IH [OF h1(2), of "lnext n"] n(1) el1 by (auto simp: nexts_def)
  moreover have "nexts h' x = Some 0" "prevs h' x = Some 0"
    using h1(3,4) h'(4) l(2,3) by (simp_all add: same_outside_def)
  moreover have "same_outside (set (head # x # xs)) h h'" using h1(5) h'(4) by (auto simp: same_outside_def)
  ultimately show ?case by (auto simp: loop_again)
qed

lemma list_for_each_safe_del_run:
  assumes "dll h head xs"
  shows "\<exists>h'. list_for_each_safe head list_del h = Some (Inr ((), h')) \<and> dll h' head []
    \<and> (\<forall>a \<in> set xs. nexts h' a = Some 0 \<and> prevs h' a = Some 0) \<and> same_outside (set (head # xs)) h h'"
proof -
  obtain n where n: "h head = Some n" "node head h = Some (Inr (n, h))" using dll_node [OF assms] by auto
  have q: "lnext n = hd (xs @ [head])" using n dll_first [OF assms] by (simp add: nexts_def)
  obtain n1 where n1: "h (lnext n) = Some n1" "node (lnext n) h = Some (Inr (n1, h))"
    using dll_node [OF assms, of "lnext n"] q by (cases xs) auto
  show ?thesis using for_each_safe_del [OF assms, of "lnext n1"] n n1 q
    by (auto simp: list_for_each_safe_def bnd_run nexts_def)
qed

section \<open>Sequences of operations\<close>

datatype list_op = Add addr | Add_tail addr | Del addr

fun list_step :: "addr \<Rightarrow> list_op \<Rightarrow> unit list_vm" where
  "list_step head (Add el) = list_add el head"
| "list_step head (Add_tail el) = list_add_tail el head"
| "list_step head (Del el) = list_del el"

fun list_steps :: "addr \<Rightarrow> list_op list \<Rightarrow> unit list_vm" where
  "list_steps head [] = ret ()"
| "list_steps head (op # ops) = andthen (list_step head op) (list_steps head ops)"

text \<open>The same on HOL lists, and what a caller must respect: an element is in one list at a time.\<close>

fun abs_step :: "list_op \<Rightarrow> addr list \<Rightarrow> addr list" where
  "abs_step (Add el) xs = el # xs"
| "abs_step (Add_tail el) xs = xs @ [el]"
| "abs_step (Del el) xs = remove1 el xs"

fun elem_of :: "list_op \<Rightarrow> addr" where
  "elem_of (Add el) = el"
| "elem_of (Add_tail el) = el"
| "elem_of (Del el) = el"

fun ops_ok :: "addr \<Rightarrow> list_op list \<Rightarrow> addr list \<Rightarrow> bool" where
  "ops_ok head [] xs = True"
| "ops_ok head (Del el # ops) xs = (el \<in> set xs \<and> ops_ok head ops (remove1 el xs))"
| "ops_ok head (op # ops) xs = (elem_of op \<notin> set (head # xs) \<and> ops_ok head ops (abs_step op xs))"

lemma list_step_run:
  assumes "dll h head xs" "ops_ok head [op] xs" "elem_of op \<noteq> 0" "h (elem_of op) \<noteq> None"
  shows "\<exists>h'. list_step head op h = Some (Inr ((), h')) \<and> dll h' head (abs_step op xs) \<and> (\<forall>a. h a \<noteq> None \<longrightarrow> h' a \<noteq> None)"
proof -
  have kept: "\<forall>a. h a \<noteq> None \<longrightarrow> h' a \<noteq> None"
    if "dll h' head ys" "same_outside (set (head # zs)) h h'" "\<forall>a \<in> set zs - set ys. nexts h' a \<noteq> None" for h' ys zs
  proof (intro allI impI)
    fix a assume "h a \<noteq> None"
    then have "nexts h a \<noteq> None" by (simp add: nexts_def)
    then have "nexts h' a \<noteq> None"
      using that(2,3) dll_mem [OF that(1), of a] by (cases "a \<in> set (head # zs)") (auto simp: same_outside_def)
    then show "h' a \<noteq> None" by (auto simp: nexts_def)
  qed
  have n: "nexts h (elem_of op) \<noteq> None" using assms(4) by (auto simp: nexts_def)
  show ?thesis
  proof (cases op)
    case (Add el)
    then show ?thesis using list_add_run [OF assms(1), of el] assms(2,3) n kept [of _ "el # xs" "el # xs"] by auto
  next
    case (Add_tail el)
    then show ?thesis using list_add_tail_run [OF assms(1), of el] assms(2,3) n kept [of _ "xs @ [el]" "el # xs"] by auto
  next
    case (Del el)
    then obtain ys zs where xs: "xs = ys @ el # zs" using assms(2) by (auto dest: split_list)
    have "el \<notin> set ys" using assms(1) xs by (simp add: dll_def)
    then have r: "remove1 el xs = ys @ zs" by (simp add: xs remove1_append)
    obtain h' where h': "list_del el h = Some (Inr ((), h'))" "dll h' head (ys @ zs)" "nexts h' el = Some 0"
      "same_outside (set (head # ys @ el # zs)) h h'" using list_del_run [OF assms(1) [unfolded xs]] by blast
    have "\<forall>a. h a \<noteq> None \<longrightarrow> h' a \<noteq> None" by (rule kept [OF h'(2,4)]) (use h'(3) in auto)
    then show ?thesis using Del r h'(1,2) by auto
  qed
qed

text \<open>
  C31: The doubly linked lists of \<open>list.h\<close> refine sequences: any valid sequence of insertions at either end and deletions
  runs without following a bad pointer, leaves a well-linked ring, and the loops over it in both directions visit
  exactly the elements, in order, that the same operations on a plain sequence give.
\<close>

theorem list_ops_refine:
  assumes "dll h head xs" "ops_ok head ops xs" "\<forall>op \<in> set ops. elem_of op \<noteq> 0 \<and> h (elem_of op) \<noteq> None"
  shows "\<exists>h'. list_steps head ops h = Some (Inr ((), h')) \<and> dll h' head (fold abs_step ops xs)
    \<and> list_for_each head h' = Some (Inr (fold abs_step ops xs, h')) \<and> list_for_each_prev head h' = Some (Inr (rev (fold abs_step ops xs), h'))
    \<and> list_empty head h' = Some (Inr (fold abs_step ops xs = [], h'))"
  using assms
proof (induction ops arbitrary: h xs)
  case Nil
  then show ?case using list_for_each_run [OF Nil(1)] list_for_each_prev_run [OF Nil(1)] list_empty_run [OF Nil(1)] by simp
next
  case (Cons op ops)
  have ok: "ops_ok head [op] xs" "ops_ok head ops (abs_step op xs)" using Cons.prems(2) by (cases op; simp)+
  obtain h1 where "list_step head op h = Some (Inr ((), h1))" "dll h1 head (abs_step op xs)" "\<forall>a. h a \<noteq> None \<longrightarrow> h1 a \<noteq> None"
    using list_step_run [OF Cons.prems(1) ok(1)] Cons.prems(3) by auto
  then show ?case using Cons.IH [OF _ ok(2), of h1] Cons.prems(3) by (simp add: andthen_run)
qed

theorem list_ops_refine_witness:
  "\<exists>h'. list_steps 1 [Add 2, Add_tail 3, Add 4, Del 2] (\<lambda>a. if a \<le> 4 then Some \<lparr>lprev = 1, lnext = 1\<rparr> else None) = Some (Inr ((), h'))
    \<and> list_for_each 1 h' = Some (Inr ([4, 3], h')) \<and> list_for_each_prev 1 h' = Some (Inr ([3, 4], h'))"
  using list_ops_refine [of "\<lambda>a. if a \<le> 4 then Some \<lparr>lprev = 1, lnext = 1\<rparr> else None" 1 "[]" "[Add 2, Add_tail 3, Add 4, Del 2]"]
  by (auto simp: dll_def nexts_def prevs_def)

end
