(* ===== verification/Pbkdf2.thy ===== *)
theory Pbkdf2
  imports Cutils
begin

text \<open>
  Model of the built-in key derivation of \<open>src/src/fs_wget.c\<close> (\<open>hmac_sha256_init\<close>, \<open>hmac_sha256_update\<close>,
  \<open>hmac_sha256_final\<close>, \<open>pbkdf2_hmac_sha256\<close>) and its agreement with the definitions of HMAC and PBKDF2.
  SHA-256 comes from code outside the repository: it is the parameter \<open>sha_lib\<close>.
\<close>

section \<open>Code\<close>

record 'c sha_lib =
  sha_hash :: "bytes \<Rightarrow> bytes"
  ctx_init :: 'c
  ctx_add :: "'c \<Rightarrow> bytes \<Rightarrow> 'c"
  ctx_final :: "'c \<Rightarrow> bytes"

text \<open>The locals of \<open>pbkdf2_hmac_sha256\<close>: the HMAC context, \<open>F\<close>, \<open>U\<close> and the output array.\<close>

record 'c pbkdf2_vars =
  sha_ctx :: 'c
  hmac_K :: bytes
  pb_F :: bytes
  pb_U :: bytes
  pb_out :: bytes

type_synonym ('c, 'a) pb_vm = "('c pbkdf2_vars, 'a) vm"

definition store_K :: "int \<Rightarrow> bytes \<Rightarrow> ('c, unit) pb_vm" where
  "store_K off bs = bnd (gets hmac_K) (\<lambda>k. bnd (lift (poke k off bs)) (\<lambda>k'. modify (\<lambda>s. s\<lparr>hmac_K := k'\<rparr>)))"

definition xor_K :: "u8 \<Rightarrow> ('c, unit) pb_vm" where
  "xor_K v = modify (\<lambda>s. s\<lparr>hmac_K := map (\<lambda>b. b XOR v) (take 64 (hmac_K s)) @ drop 64 (hmac_K s)\<rparr>)"

definition hmac_sha256_init :: "'c sha_lib \<Rightarrow> bytes \<Rightarrow> int \<Rightarrow> ('c, unit) pb_vm" where
  "hmac_sha256_init lib key key_len =
     andthen (guard OutOfBounds (0 \<le> key_len))
     (bnd (lift (peek key 0 (nat key_len))) (\<lambda>k.
      bnd (if 64 < key_len then andthen (store_K 0 (sha_hash lib k)) (ret 32)
           else andthen (store_K 0 k) (ret key_len)) (\<lambda>l.
      andthen (store_K l (replicate (nat (64 - l)) 0))
      (andthen (xor_K 0x36)
      (modify (\<lambda>s. s\<lparr>sha_ctx := ctx_add lib (ctx_init lib) (take 64 (hmac_K s))\<rparr>))))))"

definition hmac_sha256_update :: "'c sha_lib \<Rightarrow> bytes \<Rightarrow> ('c, unit) pb_vm" where
  "hmac_sha256_update lib buf = modify (\<lambda>s. s\<lparr>sha_ctx := ctx_add lib (sha_ctx s) buf\<rparr>)"

definition hmac_sha256_final :: "'c sha_lib \<Rightarrow> ('c, bytes) pb_vm" where
  "hmac_sha256_final lib = bnd (gets sha_ctx) (\<lambda>c. andthen (store_K 64 (ctx_final lib c))
     (andthen (xor_K (0x36 XOR 0x5c)) (bnd (gets hmac_K) (\<lambda>k. bnd (lift (peek k 0 96)) (\<lambda>m. ret (sha_hash lib m))))))"

definition store_U :: "int \<Rightarrow> bytes \<Rightarrow> ('c, unit) pb_vm" where
  "store_U off bs = bnd (gets pb_U) (\<lambda>u. bnd (lift (poke u off bs)) (\<lambda>u'. modify (\<lambda>s. s\<lparr>pb_U := u'\<rparr>)))"

definition pbkdf2_round :: "'c sha_lib \<Rightarrow> bytes \<Rightarrow> int \<Rightarrow> int \<Rightarrow> int \<times> int \<Rightarrow> ('c, (int \<times> int, unit) step) pb_vm" where
  "pbkdf2_round lib pwd pwd_len iter = (\<lambda>(it, U_len).
     if it < iter then
       andthen (hmac_sha256_init lib pwd pwd_len)
       (bnd (gets pb_U) (\<lambda>u. bnd (lift (peek u 0 (nat U_len))) (\<lambda>m. andthen (hmac_sha256_update lib m)
       (bnd (hmac_sha256_final lib) (\<lambda>h. andthen (store_U 0 h)
       (andthen (modify (\<lambda>s. s\<lparr>pb_F := map2 (XOR) (pb_F s) (take 32 (pb_U s))\<rparr>))
       (ret (Again (it + 1, 32)))))))))
     else ret (Done ()))"

definition pbkdf2_block ::
  "'c sha_lib \<Rightarrow> bytes \<Rightarrow> int \<Rightarrow> bytes \<Rightarrow> int \<Rightarrow> int \<Rightarrow> int \<times> int \<times> u32 \<Rightarrow> ('c, (int \<times> int \<times> u32, unit) step) pb_vm" where
  "pbkdf2_block lib pwd pwd_len salt salt_len iter = (\<lambda>(key_len, out, i).
     if 0 < key_len then
       andthen (modify (\<lambda>s. s\<lparr>pb_F := replicate 32 0\<rparr>))
       (andthen (guard OutOfBounds (0 \<le> salt_len))
       (bnd (lift (peek salt 0 (nat salt_len))) (\<lambda>sl. andthen (store_U 0 sl)
       (andthen (store_U salt_len [ucast (drop_bit 24 i)])
       (andthen (store_U (salt_len + 1) [ucast (drop_bit 16 i)])
       (andthen (store_U (salt_len + 2) [ucast (drop_bit 8 i)])
       (andthen (store_U (salt_len + 3) [ucast i])
       (andthen (loop (pbkdf2_round lib pwd pwd_len iter) (0, salt_len + 4))
       (let l = min_int key_len 32 in
        bnd (gets pb_F) (\<lambda>f. bnd (gets pb_out) (\<lambda>b. bnd (lift (poke b out (take (nat l) f))) (\<lambda>b'.
        andthen (modify (\<lambda>s. s\<lparr>pb_out := b'\<rparr>)) (ret (Again (key_len - l, out + l, i + 1)))))))))))))))
     else ret (Done ()))"

definition pbkdf2_hmac_sha256 ::
  "'c sha_lib \<Rightarrow> bytes \<Rightarrow> int \<Rightarrow> bytes \<Rightarrow> int \<Rightarrow> int \<Rightarrow> int \<Rightarrow> ('c, unit) pb_vm" where
  "pbkdf2_hmac_sha256 lib pwd pwd_len salt salt_len iter key_len =
     andthen (guard AssertFail (salt_len \<le> 32))
       (loop (pbkdf2_block lib pwd pwd_len salt salt_len iter) (key_len, 0, 1))"

section \<open>Reference\<close>

definition xor_bytes :: "bytes \<Rightarrow> bytes \<Rightarrow> bytes" where
  "xor_bytes a b = map2 (XOR) a b"

definition hmac_key :: "'c sha_lib \<Rightarrow> bytes \<Rightarrow> bytes" where
  "hmac_key lib key = (let k = if 64 < length key then sha_hash lib key else key in k @ replicate (64 - length k) 0)"

definition hmac_ref :: "'c sha_lib \<Rightarrow> bytes \<Rightarrow> bytes \<Rightarrow> bytes" where
  "hmac_ref lib key m =
     (let k = hmac_key lib key in
      sha_hash lib (map (\<lambda>b. b XOR 0x5c) k @ sha_hash lib (map (\<lambda>b. b XOR 0x36) k @ m)))"

text \<open>\<open>U\<^sub>j\<close> and the exclusive or of \<open>U\<^sub>1\<close> to \<open>U\<^sub>n\<close>, from the message \<open>m\<close> of the first round.\<close>

primrec pb_rounds :: "'c sha_lib \<Rightarrow> bytes \<Rightarrow> bytes \<Rightarrow> nat \<Rightarrow> bytes" where
  "pb_rounds lib pwd m 0 = m"
| "pb_rounds lib pwd m (Suc n) = hmac_ref lib pwd (pb_rounds lib pwd m n)"

primrec pb_xor :: "'c sha_lib \<Rightarrow> bytes \<Rightarrow> bytes \<Rightarrow> nat \<Rightarrow> bytes" where
  "pb_xor lib pwd m 0 = replicate 32 0"
| "pb_xor lib pwd m (Suc n) = xor_bytes (pb_xor lib pwd m n) (pb_rounds lib pwd m (Suc n))"

definition pb_T :: "'c sha_lib \<Rightarrow> bytes \<Rightarrow> bytes \<Rightarrow> nat \<Rightarrow> nat \<Rightarrow> bytes" where
  "pb_T lib pwd salt iter i = pb_xor lib pwd (salt @ put_be32 (of_nat i)) iter"

definition pbkdf2_ref :: "'c sha_lib \<Rightarrow> bytes \<Rightarrow> bytes \<Rightarrow> nat \<Rightarrow> nat \<Rightarrow> bytes" where
  "pbkdf2_ref lib pwd salt iter key_len =
     take key_len (concat (map (pb_T lib pwd salt iter) [1..<key_len div 32 + 2]))"

text \<open>What is used of SHA-256.\<close>

definition sha_law :: "'c sha_lib \<Rightarrow> bool" where
  "sha_law lib \<longleftrightarrow> (\<forall>a. length (sha_hash lib a) = 32)
     \<and> (\<forall>a b. ctx_final lib (ctx_add lib (ctx_add lib (ctx_init lib) a) b) = sha_hash lib (a @ b))"

section \<open>Agreement\<close>

lemma length_pb_xor [simp]: "sha_law lib \<Longrightarrow> length (pb_xor lib pwd m n) = 32"
  by (induction n) (simp_all add: xor_bytes_def hmac_ref_def Let_def sha_law_def)

lemma length_pb_T [simp]: "sha_law lib \<Longrightarrow> length (pb_T lib pwd salt iter i) = 32"
  by (simp add: pb_T_def)

lemma length_hmac_key: "sha_law lib \<Longrightarrow> length (hmac_key lib key) = 64"
  by (auto simp: hmac_key_def Let_def sha_law_def)

lemma store_K_run: "off + length bs \<le> length (hmac_K s) \<Longrightarrow>
    store_K (int off) bs s = Some (Inr ((), s\<lparr>hmac_K := blit (hmac_K s) off bs\<rparr>))"
  by (simp add: store_K_def bnd_run poke_nat)

lemma store_U_run: "off + length bs \<le> length (pb_U s) \<Longrightarrow>
    store_U (int off) bs s = Some (Inr ((), s\<lparr>pb_U := blit (pb_U s) off bs\<rparr>))"
  by (simp add: store_U_def bnd_run poke_nat)

lemma hmac_init_run:
  assumes law: "sha_law lib" and K: "length (hmac_K s) = 96"
  shows "hmac_sha256_init lib key (int (length key)) s = Some (Inr ((), s\<lparr>
    hmac_K := map (\<lambda>b. b XOR 0x36) (hmac_key lib key) @ drop 64 (hmac_K s),
    sha_ctx := ctx_add lib (ctx_init lib) (map (\<lambda>b. b XOR 0x36) (hmac_key lib key))\<rparr>))"
proof -
  let ?k = "if 64 < length key then sha_hash lib key else key"
  have l: "length ?k \<le> 64" using law by (simp add: sha_law_def)
  have bl: "blit (blit (hmac_K s) 0 ?k) (length ?k) (replicate (64 - length ?k) 0) = hmac_key lib key @ drop 64 (hmac_K s)"
    using blit_blit_append [of 0 ?k "replicate (64 - length ?k) 0" "hmac_K s"] l K
    by (simp add: hmac_key_def Let_def blit_def)
  have first: "(if 64 < int (length key) then andthen (store_K 0 (sha_hash lib key)) (ret 32)
      else andthen (store_K 0 key) (ret (int (length key)))) s =
      Some (Inr (int (length ?k), s\<lparr>hmac_K := blit (hmac_K s) 0 ?k\<rparr>))"
    using store_K_run [of 0 ?k s] l K law by (simp add: andthen_run sha_law_def split: if_splits)
  have "store_K (int (length ?k)) (replicate (64 - length ?k) 0) (s\<lparr>hmac_K := blit (hmac_K s) 0 ?k\<rparr>)
      = Some (Inr ((), s\<lparr>hmac_K := hmac_key lib key @ drop 64 (hmac_K s)\<rparr>))"
    using store_K_run [of "length ?k" "replicate (64 - length ?k) 0" "s\<lparr>hmac_K := blit (hmac_K s) 0 ?k\<rparr>"] bl l K by simp
  moreover have "nat (64 - int (length ?k)) = 64 - length ?k" using l by linarith
  ultimately show ?thesis
    using first length_hmac_key [OF law, of key]
    by (simp add: hmac_sha256_init_def peek_nat [of 0, simplified] bnd_run andthen_run xor_K_def del: if_split)
qed

lemma repad: "map ((\<lambda>b. b XOR (106 :: u8)) \<circ> (\<lambda>b. b XOR 54)) k = map (\<lambda>b. b XOR 92) k"
  by (simp add: xor.assoc)

lemma hmac_final_run:
  assumes law: "sha_law lib" and k: "length k = 64" "hmac_K s = map (\<lambda>b. b XOR 0x36) k @ r" "length r = 32"
    and c: "sha_ctx s = ctx_add lib (ctx_add lib (ctx_init lib) (map (\<lambda>b. b XOR 0x36) k)) m"
  shows "\<exists>K. length K = 96 \<and> hmac_sha256_final lib s = Some (Inr
    (sha_hash lib (map (\<lambda>b. b XOR 0x5c) k @ sha_hash lib (map (\<lambda>b. b XOR 0x36) k @ m)), s\<lparr>hmac_K := K\<rparr>))"
proof -
  let ?h = "sha_hash lib (map (\<lambda>b. b XOR 0x36) k @ m)" and ?K = "map (\<lambda>b. b XOR 0x36) k"
  have h: "ctx_final lib (sha_ctx s) = ?h" "length ?h = 32" using law c by (simp_all add: sha_law_def)
  have "store_K 64 ?h s = Some (Inr ((), s\<lparr>hmac_K := ?K @ ?h\<rparr>))"
    using store_K_run [of 64 ?h s] h(2) k by (simp add: blit_def)
  then show ?thesis
    using h k peek_nat [of 0 96 "map (\<lambda>b. b XOR 0x5c) k @ ?h"]
    by (intro exI [of _ "map (\<lambda>b. b XOR 0x5c) k @ ?h"])
      (simp add: hmac_sha256_final_def bnd_run andthen_run xor_K_def repad)
qed

text \<open>One round replaces \<open>U\<close> by its HMAC and folds it into \<open>F\<close>.\<close>

definition pb_ok :: "'c pbkdf2_vars \<Rightarrow> bool" where
  "pb_ok s \<longleftrightarrow> length (hmac_K s) = 96 \<and> length (pb_U s) = 36"

lemma round_run:
  assumes law: "sha_law lib" and ok: "pb_ok s" and m: "take (length m) (pb_U s) = m" "length m \<le> 36"
    and F: "length (pb_F s) = 32" and it: "it < iter"
  shows "\<exists>s'. pbkdf2_round lib pwd (int (length pwd)) iter (it, int (length m)) s = Some (Inr (Again (it + 1, 32), s'))
    \<and> pb_ok s' \<and> take 32 (pb_U s') = hmac_ref lib pwd m \<and> pb_F s' = xor_bytes (pb_F s) (hmac_ref lib pwd m)
    \<and> pb_out s' = pb_out s"
proof -
  let ?k = "hmac_key lib pwd" and ?h = "hmac_ref lib pwd m"
  let ?s1 = "s\<lparr>hmac_K := map (\<lambda>b. b XOR 0x36) ?k @ drop 64 (hmac_K s),
    sha_ctx := ctx_add lib (ctx_init lib) (map (\<lambda>b. b XOR 0x36) ?k)\<rparr>"
  let ?s2 = "?s1\<lparr>sha_ctx := ctx_add lib (sha_ctx ?s1) m\<rparr>"
  have i: "hmac_sha256_init lib pwd (int (length pwd)) s = Some (Inr ((), ?s1))"
    by (rule hmac_init_run [OF law]) (use ok in \<open>simp add: pb_ok_def\<close>)
  have pk: "peek (pb_U s) 0 (length m) = Inr m"
    using m ok peek_nat [of 0 "length m" "pb_U s"] by (simp add: pb_ok_def)
  have "\<exists>K. length K = 96 \<and> hmac_sha256_final lib ?s2 = Some (Inr
    (sha_hash lib (map (\<lambda>b. b XOR 0x5c) ?k @ sha_hash lib (map (\<lambda>b. b XOR 0x36) ?k @ m)), ?s2\<lparr>hmac_K := K\<rparr>))"
    by (rule hmac_final_run [OF law length_hmac_key [OF law], of _ _ "drop 64 (hmac_K s)"])
      (use ok in \<open>simp_all add: pb_ok_def\<close>)
  then obtain K where K: "length K = 96" "hmac_sha256_final lib ?s2 = Some (Inr (?h, ?s2\<lparr>hmac_K := K\<rparr>))"
    by (auto simp: hmac_ref_def Let_def)
  let ?s3 = "?s2\<lparr>hmac_K := K\<rparr>"
  have h: "length ?h = 32" using law by (simp add: hmac_ref_def Let_def sha_law_def)
  have u: "store_U 0 ?h ?s3 = Some (Inr ((), ?s3\<lparr>pb_U := blit (pb_U s) 0 ?h\<rparr>))"
    using store_U_run [of 0 ?h ?s3] h ok by (simp add: pb_ok_def)
  have b: "take 32 (blit (pb_U s) 0 ?h) = ?h" "length (blit (pb_U s) 0 ?h) = 36"
    using h ok by (simp_all add: blit_def pb_ok_def)
  show ?thesis
    using i pk K u b it
    by (intro exI [of _ "?s3\<lparr>pb_U := blit (pb_U s) 0 ?h, pb_F := map2 (XOR) (pb_F s) ?h\<rparr>"])
      (simp add: pbkdf2_round_def andthen_run bnd_run hmac_sha256_update_def pb_ok_def xor_bytes_def)
qed

lemma rounds_run:
  assumes law: "sha_law lib" and "pb_ok s" and "take (length (pb_rounds lib pwd m n)) (pb_U s) = pb_rounds lib pwd m n"
    and "length (pb_rounds lib pwd m n) \<le> 36" and "pb_F s = pb_xor lib pwd m n" and "n \<le> iter"
  shows "\<exists>s'. loop (pbkdf2_round lib pwd (int (length pwd)) (int iter)) (int n, int (length (pb_rounds lib pwd m n))) s
      = Some (Inr ((), s')) \<and> pb_ok s' \<and> pb_F s' = pb_xor lib pwd m iter \<and> pb_out s' = pb_out s"
  using assms(2-)
proof (induction "iter - n" arbitrary: n s)
  case 0
  have "pbkdf2_round lib pwd (int (length pwd)) (int iter) (int n, int (length (pb_rounds lib pwd m n))) s = Some (Inr (Done (), s))"
    using 0 by (simp add: pbkdf2_round_def)
  then show ?case using 0 by (auto simp: loop_done)
next
  case (Suc x)
  have lt: "n < iter" using Suc.hyps(2) by simp
  have F: "length (pb_F s) = 32" using Suc.prems(4) law by simp
  obtain s1 where s1: "pbkdf2_round lib pwd (int (length pwd)) (int iter) (int n, int (length (pb_rounds lib pwd m n))) s
      = Some (Inr (Again (int n + 1, 32), s1))" "pb_ok s1" "take 32 (pb_U s1) = pb_rounds lib pwd m (Suc n)"
    "pb_F s1 = pb_xor lib pwd m (Suc n)" "pb_out s1 = pb_out s"
    using round_run [OF law Suc.prems(1,2,3) F, of "int n" "int iter" pwd] lt Suc.prems(4) by auto
  have l: "length (pb_rounds lib pwd m (Suc n)) = 32" using law by (simp add: hmac_ref_def Let_def sha_law_def)
  have "x = iter - Suc n" using Suc.hyps(2) by simp
  then show ?case
    using Suc.hyps(1) [of "Suc n" s1] s1 l lt loop_again [of "pbkdf2_round lib pwd (int (length pwd)) (int iter)", OF s1(1)]
    by (simp add: add.commute)
qed

lemma block_run:
  assumes law: "sha_law lib" and ok: "pb_ok s" and salt: "length salt \<le> 32" and n: "0 < n" "p + n \<le> length (pb_out s)"
  defines "l \<equiv> min n 32"
  shows "\<exists>s'. pbkdf2_block lib pwd (int (length pwd)) salt (int (length salt)) (int iter) (int n, int p, of_nat i) s
      = Some (Inr (Again (int (n - l), int (p + l), of_nat (Suc i)), s'))
    \<and> pb_ok s' \<and> pb_out s' = blit (pb_out s) p (take l (pb_T lib pwd salt iter i))"
proof -
  let ?i = "of_nat i :: u32" and ?s1 = "s\<lparr>pb_F := replicate 32 0\<rparr>"
  define b where "b = ([ucast (drop_bit 24 ?i), ucast (drop_bit 16 ?i), ucast (drop_bit 8 ?i), ucast ?i] :: bytes)"
  have b: "length b = 4" "b ! 0 = ucast (drop_bit 24 ?i)" "b ! 1 = ucast (drop_bit 16 ?i)" "b ! 2 = ucast (drop_bit 8 ?i)" "b ! 3 = ucast ?i"
    "b = put_be32 ?i"
    by (simp_all add: b_def put_be32_def)
  let ?U = "\<lambda>k. blit (pb_U s) 0 (salt @ take k b)"
  have U: "length (pb_U s) = 36" using ok by (simp add: pb_ok_def)
  have st0: "store_U 0 salt ?s1 = Some (Inr ((), ?s1\<lparr>pb_U := ?U 0\<rparr>))"
    using store_U_run [of 0 salt ?s1] U salt by simp
  have st: "store_U (int (length salt) + int k) [b ! k] (?s1\<lparr>pb_U := ?U k\<rparr>) = Some (Inr ((), ?s1\<lparr>pb_U := ?U (Suc k)\<rparr>))"
    if k: "k < 4" for k
  proof -
    have "blit (?U k) (length salt + k) [b ! k] = ?U (Suc k)"
      using blit_blit_append [of 0 "salt @ take k b" "[b ! k]" "pb_U s"] U salt k
      b(1) by (simp add: take_Suc_conv_app_nth min_absorb1)
    moreover have "length (?U k) = 36" using U salt k b(1) by simp
    ultimately show ?thesis
      using store_U_run [of "length salt + k" "[b ! k]" "?s1\<lparr>pb_U := ?U k\<rparr>"] k salt b(1) by simp
  qed
  let ?m = "salt @ put_be32 ?i"
  have m: "?U 4 = blit (pb_U s) 0 ?m" using b(1,6) by simp
  let ?s2 = "?s1\<lparr>pb_U := ?U 4\<rparr>"
  have pre: "take (length ?m) (pb_U ?s2) = ?m" "length ?m = length salt + 4" "pb_ok ?s2"
    using U salt ok unfolding m by (simp_all add: blit_def pb_ok_def put_be32_def)
  obtain s3 where s3: "loop (pbkdf2_round lib pwd (int (length pwd)) (int iter)) (0, int (length salt) + 4) ?s2 = Some (Inr ((), s3))"
    "pb_ok s3" "pb_F s3 = pb_T lib pwd salt iter i" "pb_out s3 = pb_out s"
    using rounds_run [OF law pre(3), of pwd ?m 0 iter] pre(1,2) salt by (auto simp: pb_T_def)
  have l: "min_int (int n) 32 = int l" "l \<le> n" by (auto simp: l_def min_int_def)
  have "poke (pb_out s3) (int p) (take l (pb_F s3)) = Inr (blit (pb_out s) p (take l (pb_T lib pwd salt iter i)))"
    using s3(3,4) n l law by (simp add: poke_nat l_def)
  moreover have "peek salt 0 (length salt) = Inr salt" using peek_nat [of 0 "length salt" salt] by simp
  ultimately show ?thesis
    using st0 st [of 0] st [of 1] st [of 2] st [of 3] s3 l n(1) b(2-5)
    by (intro exI [of _ "s3\<lparr>pb_out := blit (pb_out s) p (take l (pb_T lib pwd salt iter i))\<rparr>"])
      (simp add: pbkdf2_block_def andthen_run bnd_run Let_def pb_ok_def eval_nat_numeral)
qed

lemma blocks_run:
  assumes law: "sha_law lib" and salt: "length salt \<le> 32"
    and "pb_ok s" "p + n \<le> length (pb_out s)"
  shows "\<exists>s'. loop (pbkdf2_block lib pwd (int (length pwd)) salt (int (length salt)) (int iter)) (int n, int p, of_nat i) s
      = Some (Inr ((), s'))
    \<and> pb_out s' = blit (pb_out s) p (take n (concat (map (pb_T lib pwd salt iter) [i..<i + n div 32 + 1])))"
  using assms(3,4)
proof (induction n arbitrary: p i s rule: less_induct)
  case (less n)
  show ?case
  proof (cases "n = 0")
    case True
    have "pbkdf2_block lib pwd (int (length pwd)) salt (int (length salt)) (int iter) (0, int p, of_nat i) s = Some (Inr (Done (), s))"
      by (simp add: pbkdf2_block_def)
    then show ?thesis using True by (simp add: loop_done)
  next
    case False
    define l where "l = min n 32"
    obtain s1 where s1: "pbkdf2_block lib pwd (int (length pwd)) salt (int (length salt)) (int iter) (int n, int p, of_nat i) s
        = Some (Inr (Again (int (n - l), int (p + l), of_nat (Suc i)), s1))"
      "pb_ok s1" "pb_out s1 = blit (pb_out s) p (take l (pb_T lib pwd salt iter i))"
      using block_run [OF law less.prems(1) salt _ less.prems(2), of pwd iter i] False unfolding l_def
      by (elim meta_impE exE conjE) simp_all
    let ?t = "take l (pb_T lib pwd salt iter i)"
    let ?r = "\<lambda>i n. take n (concat (map (pb_T lib pwd salt iter) [i..<i + n div 32 + 1]))"
    have lt: "length ?t = l" "l \<le> n" "0 < l" using law False by (auto simp: l_def)
    have len: "length (?r (Suc i) (n - l)) \<le> n - l" by (simp only: length_take min.cobounded2)
    have lo: "length (pb_out s1) = length (pb_out s)" using s1(3) lt less.prems(2) by simp
    obtain s' where s': "loop (pbkdf2_block lib pwd (int (length pwd)) salt (int (length salt)) (int iter))
        (int (n - l), int (p + l), of_nat (Suc i)) s1 = Some (Inr ((), s'))"
      "pb_out s' = blit (pb_out s1) (p + l) (?r (Suc i) (n - l))"
      using less.IH [of "n - l" s1 "p + l" "Suc i"] lt s1(2) lo less.prems(2) by auto
    have "blit (blit (pb_out s) p ?t) (p + length ?t) (?r (Suc i) (n - l)) = blit (pb_out s) p (?t @ ?r (Suc i) (n - l))"
      by (rule blit_blit_append) (use lt len less.prems(2) in linarith)
    moreover have "?t @ ?r (Suc i) (n - l) = ?r i n"
    proof (cases "n < 32")
      case True
      then show ?thesis using law by (simp add: l_def)
    next
      case False
      then have d: "n div 32 = Suc ((n - 32) div 32)" by (simp add: le_div_geq)
      have e: "[i..<i + n div 32 + 1] = i # [Suc i..<Suc i + (n - 32) div 32 + 1]" unfolding d by (simp add: upt_conv_Cons)
      show ?thesis unfolding e using False law by (simp add: l_def)
    qed
    ultimately show ?thesis
      using s' s1(3) lt loop_again [of "pbkdf2_block lib pwd (int (length pwd)) salt (int (length salt)) (int iter)", OF s1(1)] by simp
  qed
qed

lemma length_pbkdf2_ref: "sha_law lib \<Longrightarrow> length (pbkdf2_ref lib pwd salt iter n) = n"
proof -
  assume law: "sha_law lib"
  have "length (concat (map (pb_T lib pwd salt iter) xs)) = 32 * length xs" for xs
    using law by (induction xs) simp_all
  then have "length (concat (map (pb_T lib pwd salt iter) [1..<n div 32 + 2])) = 32 * (n div 32 + 1)" by (simp only: length_upt) simp
  moreover have "n \<le> 32 * (n div 32 + 1)" by presburger
  ultimately show ?thesis by (simp only: pbkdf2_ref_def length_take)
qed

lemma pbkdf2_out:
  assumes "sha_law lib" and "pb_ok s" and "length salt \<le> 32" and "n \<le> length (pb_out s)"
  shows "\<exists>s'. pbkdf2_hmac_sha256 lib pwd (int (length pwd)) salt (int (length salt)) (int iter) (int n) s = Some (Inr ((), s'))
    \<and> pb_out s' = blit (pb_out s) 0 (pbkdf2_ref lib pwd salt iter n)"
  using blocks_run [OF assms(1,3,2), of 0 n pwd iter 1] assms(3,4) by (auto simp: pbkdf2_ref_def pbkdf2_hmac_sha256_def andthen_run)

section \<open>Property\<close>

text \<open>
  C25: the built-in \<open>pbkdf2_hmac_sha256\<close> returns, writes nothing but the \<open>key_len\<close> bytes of the key, and
  these are the key PBKDF2 defines with HMAC-SHA-256: the blocks \<open>T\<^sub>i = U\<^sub>1 xor \<dots> xor U\<^sub>c\<close> one after
  the other, cut to the length asked for.  The salt has at most 32 bytes.
\<close>

theorem pbkdf2_correct:
  assumes "sha_law lib" and "pb_ok s" and "length salt \<le> 32" and "n \<le> length (pb_out s)"
  shows "\<exists>s'. pbkdf2_hmac_sha256 lib pwd (int (length pwd)) salt (int (length salt)) (int iter) (int n) s = Some (Inr ((), s'))
    \<and> take n (pb_out s') = pbkdf2_ref lib pwd salt iter n \<and> drop n (pb_out s') = drop n (pb_out s)"
proof -
  obtain s' where "pbkdf2_hmac_sha256 lib pwd (int (length pwd)) salt (int (length salt)) (int iter) (int n) s = Some (Inr ((), s'))"
    "pb_out s' = blit (pb_out s) 0 (pbkdf2_ref lib pwd salt iter n)"
    using pbkdf2_out [OF assms] by blast
  then show ?thesis using assms(4) length_pbkdf2_ref [OF assms(1), of pwd salt iter n] by (simp add: blit_def)
qed

definition sample_sha :: "bytes sha_lib" where
  "sample_sha = \<lparr>sha_hash = (\<lambda>a. take 32 (a @ replicate 32 0)), ctx_init = [], ctx_add = (@), ctx_final = (\<lambda>a. take 32 (a @ replicate 32 0))\<rparr>"

definition sample_pb :: "bytes pbkdf2_vars" where
  "sample_pb = \<lparr>sha_ctx = [], hmac_K = replicate 96 0, pb_F = replicate 32 0, pb_U = replicate 36 0, pb_out = replicate 64 0\<rparr>"

lemma pbkdf2_correct_witness:
  "sha_law sample_sha \<and> (\<exists>s'. pbkdf2_hmac_sha256 sample_sha [1, 2] 2 [3, 4, 5] 3 (int 2) (int 40) sample_pb = Some (Inr ((), s'))
    \<and> take 40 (pb_out s') = pbkdf2_ref sample_sha [1, 2] [3, 4, 5] 2 40 \<and> drop 40 (pb_out s') = drop 40 (pb_out sample_pb))"
proof -
  have l: "sha_law sample_sha" by (auto simp: sha_law_def sample_sha_def min_def)
  moreover have "pb_ok sample_pb" "length [3 :: u8, 4, 5] \<le> 32" "40 \<le> length (pb_out sample_pb)"
    by (simp_all add: pb_ok_def sample_pb_def)
  ultimately show ?thesis using pbkdf2_correct [of sample_sha sample_pb "[3, 4, 5]" 40 "[1, 2]" 2] by simp
qed

end
