(* ===== verification/Fs_Wget.thy ===== *)
theory Fs_Wget
  imports Cutils
begin

text \<open>
  Model of \<open>src/src/fs_wget.c\<close>: the incremental decryption of a downloaded file (\<open>decrypt_file_init\<close>,
  \<open>decrypt_file\<close>, \<open>decrypt_file_flush\<close>).  AES in CBC mode and the magic number of an encrypted file come
  from code outside the repository: they are the parameter \<open>aes_lib\<close>.  The decrypted data goes to a callback, a computation over the state
  of its owner; the interface \<open>write_sink\<close> says what the decryption relies on.
\<close>

section \<open>Incremental decryption\<close>

abbreviation AES_BLOCK_SIZE :: int where "AES_BLOCK_SIZE \<equiv> 16"
abbreviation ENCRYPTED_FILE_HEADER_SIZE :: int where "ENCRYPTED_FILE_HEADER_SIZE \<equiv> 20"
abbreviation DEC_BUF_SIZE :: int where "DEC_BUF_SIZE \<equiv> 4096"

text \<open>
  \<open>aes_cbc lib key iv data\<close>: \<open>AES_cbc_encrypt\<close> in decryption mode, the plaintext and the new contents
  of the initialisation vector.
\<close>

record 'k aes_lib =
  aes_cbc :: "'k \<Rightarrow> bytes \<Rightarrow> bytes \<Rightarrow> bytes \<times> bytes"
  encrypted_file_magic :: bytes

record decrypt_file_state =
  dec_state :: int
  dec_buf_pos :: int
  dec_iv :: bytes
  dec_buf :: bytes

definition decrypt_file_init :: decrypt_file_state where
  "decrypt_file_init = \<lparr>dec_state = 0, dec_buf_pos = 0, dec_iv = replicate 16 0, dec_buf = replicate 4096 0\<rparr>"

text \<open>A \<open>size_t\<close> passed as an \<open>int\<close>.\<close>

definition int_of_size :: "nat \<Rightarrow> int" where
  "int_of_size n = int_of_u32 (of_nat n)"

text \<open>
  \<open>memcpy(s->dec_buf + s->dec_buf_pos, data, l); s->dec_buf_pos += l\<close>.  A negative length becomes an
  enormous one.
\<close>

definition fill_dec_buf :: "int \<Rightarrow> bytes \<Rightarrow> decrypt_file_state \<Rightarrow> fault + decrypt_file_state" where
  "fill_dec_buf l data s = (if l < 0 \<or> int (length data) < l then Inl OutOfBounds
     else case poke (dec_buf s) (dec_buf_pos s) (take (nat l) data) of Inl f \<Rightarrow> Inl f
       | Inr b \<Rightarrow> Inr (s\<lparr>dec_buf := b, dec_buf_pos := dec_buf_pos s + l\<rparr>))"

text \<open>In-place decryption of the first \<open>len\<close> bytes of the buffer.\<close>

definition decrypt_in_place :: "'k aes_lib \<Rightarrow> 'k \<Rightarrow> int \<Rightarrow> decrypt_file_state \<Rightarrow> fault + decrypt_file_state" where
  "decrypt_in_place lib key len s = (case peek (dec_buf s) 0 (nat len) of Inl f \<Rightarrow> Inl f
     | Inr c \<Rightarrow> let (p, iv) = aes_cbc lib key (dec_iv s) c in
         (case poke (dec_buf s) 0 p of Inl f \<Rightarrow> Inl f | Inr b \<Rightarrow> Inr (s\<lparr>dec_buf := b, dec_iv := iv\<rparr>)))"

type_synonym ('s, 'a) dec_vm = "(decrypt_file_state \<times> 's, 'a) vm"

definition put_dec :: "decrypt_file_state \<Rightarrow> ('s, unit) dec_vm" where
  "put_dec s = modify (\<lambda>(_, t). (s, t))"

definition call_write_cb :: "(bytes \<Rightarrow> ('s, int) vm) \<Rightarrow> int \<Rightarrow> ('s, int) dec_vm" where
  "call_write_cb write_cb len = bnd (gets fst) (\<lambda>s. bnd (lift (peek (dec_buf s) 0 (nat len))) (\<lambda>d.
     zoom snd (\<lambda>t (s, _). (s, t)) (write_cb d)))"

text \<open>One pass of the loop of \<open>decrypt_file\<close>: the header, then the encrypted blocks.\<close>

definition decrypt_header ::
  "'k aes_lib \<Rightarrow> bytes \<Rightarrow> ('s, (bytes, int) step) dec_vm" where
  "decrypt_header lib data = bnd (gets fst) (\<lambda>s0.
     let l = min_int (int_of_size (length data)) (ENCRYPTED_FILE_HEADER_SIZE - dec_buf_pos s0) in
     bnd (lift (fill_dec_buf l data s0)) (\<lambda>s. andthen (put_dec s)
       (if dec_buf_pos s \<ge> ENCRYPTED_FILE_HEADER_SIZE then
          bnd (lift (peek (dec_buf s) 0 4)) (\<lambda>m.
            if m \<noteq> encrypted_file_magic lib then ret (Done (- 1))
            else bnd (lift (peek (dec_buf s) 4 16)) (\<lambda>iv.
              andthen (put_dec (s\<lparr>dec_iv := iv, dec_state := 1, dec_buf_pos := 0\<rparr>)) (ret (Again (drop (nat l) data)))))
        else ret (Again (drop (nat l) data)))))"

definition decrypt_blocks ::
  "'k aes_lib \<Rightarrow> 'k \<Rightarrow> (bytes \<Rightarrow> ('s, int) vm) \<Rightarrow> bytes \<Rightarrow> ('s, (bytes, int) step) dec_vm" where
  "decrypt_blocks lib key write_cb data = bnd (gets fst) (\<lambda>s0.
     let l = min_int (int_of_size (length data)) (DEC_BUF_SIZE - dec_buf_pos s0) in
     bnd (lift (fill_dec_buf l data s0)) (\<lambda>s. andthen (put_dec s)
       (if dec_buf_pos s \<ge> DEC_BUF_SIZE then
          let len = dec_buf_pos s - AES_BLOCK_SIZE in
          bnd (lift (decrypt_in_place lib key len s)) (\<lambda>s1. andthen (put_dec s1)
          (bnd (call_write_cb write_cb len) (\<lambda>ret_val.
            if ret_val < 0 then ret (Done ret_val)
            else bnd (lift (peek (dec_buf s1) (dec_buf_pos s1 - AES_BLOCK_SIZE) 16)) (\<lambda>b.
              bnd (lift (poke (dec_buf s1) 0 b)) (\<lambda>buf.
              andthen (put_dec (s1\<lparr>dec_buf := buf, dec_buf_pos := AES_BLOCK_SIZE\<rparr>)) (ret (Again (drop (nat l) data))))))))
        else ret (Again (drop (nat l) data)))))"

definition decrypt_step ::
  "'k aes_lib \<Rightarrow> 'k \<Rightarrow> (bytes \<Rightarrow> ('s, int) vm) \<Rightarrow> bytes \<Rightarrow> ('s, (bytes, int) step) dec_vm" where
  "decrypt_step lib key write_cb data = (if data = [] then ret (Done 0) else
     bnd (gets (dec_state \<circ> fst)) (\<lambda>st.
       if st = 0 then decrypt_header lib data
       else if st = 1 then decrypt_blocks lib key write_cb data
       else fault Abort))"

definition decrypt_file ::
  "'k aes_lib \<Rightarrow> 'k \<Rightarrow> (bytes \<Rightarrow> ('s, int) vm) \<Rightarrow> bytes \<Rightarrow> ('s, int) dec_vm" where
  "decrypt_file lib key write_cb data = loop (decrypt_step lib key write_cb) data"

definition decrypt_file_flush ::
  "'k aes_lib \<Rightarrow> 'k \<Rightarrow> (bytes \<Rightarrow> ('s, int) vm) \<Rightarrow> ('s, int) dec_vm" where
  "decrypt_file_flush lib key write_cb = bnd (gets fst) (\<lambda>s.
     if dec_state s \<noteq> 1 then ret (- 1)
     else let len = dec_buf_pos s in
       if len = 0 \<or> len mod AES_BLOCK_SIZE \<noteq> 0 then ret (- 1)
       else bnd (lift (decrypt_in_place lib key len s)) (\<lambda>s1. andthen (put_dec s1)
         (bnd (lift (peek (dec_buf s1) (dec_buf_pos s1 - 1) 1)) (\<lambda>b.
           let pad_len = uint (hd b) in
           if pad_len < 1 \<or> AES_BLOCK_SIZE < pad_len then ret (- 1)
           else if len - pad_len \<noteq> 0 then
             bnd (call_write_cb write_cb (len - pad_len)) (\<lambda>r. if r < 0 then ret r else ret 0)
           else ret 0))))"

text \<open>
  What the callers do with the chunks of a transfer (\<open>fs_open_cb\<close>, \<open>fs_wget_file_on_load\<close>): each
  goes through \<open>decrypt_file\<close> until one fails, and the end of the transfer flushes.
\<close>

fun decrypt_transfer ::
  "'k aes_lib \<Rightarrow> 'k \<Rightarrow> (bytes \<Rightarrow> ('s, int) vm) \<Rightarrow> bytes list \<Rightarrow> ('s, int) dec_vm" where
  "decrypt_transfer lib key write_cb [] = decrypt_file_flush lib key write_cb"
| "decrypt_transfer lib key write_cb (d # ds) = bnd (decrypt_file lib key write_cb d) (\<lambda>r.
     if r < 0 then ret r else decrypt_transfer lib key write_cb ds)"

section \<open>Reference\<close>

text \<open>
  The whole file at once: a header of the magic number and the initialisation vector, then a positive
  number of blocks, whose plaintext ends in a padding of 1 to 16 bytes that all the last byte counts.
\<close>

definition decrypt_ref :: "'k aes_lib \<Rightarrow> 'k \<Rightarrow> bytes \<Rightarrow> bytes option" where
  "decrypt_ref lib key f =
     (let c = drop 20 f; p = fst (aes_cbc lib key (take 16 (drop 4 f)) c); pad = unat (last p) in
      if length f < 36 \<or> take 4 f \<noteq> encrypted_file_magic lib \<or> length c mod 16 \<noteq> 0 \<or> pad < 1 \<or> 16 < pad then None
      else Some (take (length p - pad) p))"

text \<open>
  What is used of AES in CBC mode: whole blocks are decrypted one after the other, the vector carries
  the state across calls, and the lengths are kept.
\<close>

definition cbc_law :: "'k aes_lib \<Rightarrow> 'k \<Rightarrow> bool" where
  "cbc_law lib key \<longleftrightarrow> (\<forall>iv a b. length iv = 16 \<longrightarrow> length a mod 16 = 0 \<longrightarrow> length b mod 16 = 0 \<longrightarrow>
     length (fst (aes_cbc lib key iv a)) = length a \<and> length (snd (aes_cbc lib key iv a)) = 16
     \<and> aes_cbc lib key iv [] = ([], iv)
     \<and> aes_cbc lib key iv (a @ b) =
         (fst (aes_cbc lib key iv a) @ fst (aes_cbc lib key (snd (aes_cbc lib key iv a)) b),
          snd (aes_cbc lib key (snd (aes_cbc lib key iv a)) b)))"

lemma cbc_Nil: "cbc_law lib key \<Longrightarrow> length iv = 16 \<Longrightarrow> aes_cbc lib key iv [] = ([], iv)"
  unfolding cbc_law_def by (metis length_0_conv mod_0 list.size(3))

lemma cbc_length:
  assumes "cbc_law lib key" "length iv = 16" "length a mod 16 = 0" "aes_cbc lib key iv a = (p, iv')"
  shows "length p = length a" "length iv' = 16"
  using assms unfolding cbc_law_def by (metis fst_conv, metis snd_conv)

lemma cbc_append:
  assumes "cbc_law lib key" "length iv = 16" "length a mod 16 = 0" "length b mod 16 = 0"
    and "aes_cbc lib key iv a = (p, iv')" "aes_cbc lib key iv' b = (q, iv'')"
  shows "aes_cbc lib key iv (a @ b) = (p @ q, iv'')"
  using assms unfolding cbc_law_def by (metis fst_conv snd_conv)

text \<open>
  What the decryption relies on of its callback: it accepts the data (no negative result; never more than the
  size of the decryption buffer at once) and takes it as a stream, so that only the concatenation of what it is given matters.
\<close>

locale write_sink =
  fixes write_cb :: "bytes \<Rightarrow> ('s, int) vm"
    and emit :: "bytes \<Rightarrow> 's \<Rightarrow> 's"
    and ready :: "'s \<Rightarrow> bool"
  assumes write_run: "ready t \<Longrightarrow> length d \<le> 4096 \<Longrightarrow> \<exists>r \<ge> 0. write_cb d t = Some (Inr (r, emit d t))"
    and emit_ready: "ready t \<Longrightarrow> ready (emit d t)"
    and emit_Nil: "ready t \<Longrightarrow> emit [] t = t"
    and emit_append: "ready t \<Longrightarrow> emit (a @ b) t = emit b (emit a t)"

section \<open>The representation of what has been received\<close>

definition header_bad :: "'k aes_lib \<Rightarrow> bytes \<Rightarrow> bool" where
  "header_bad lib f \<longleftrightarrow> 20 \<le> length f \<and> take 4 f \<noteq> encrypted_file_magic lib"

text \<open>
  After the bytes \<open>f\<close> the decryption has emitted \<open>out\<close>: within the header nothing, later the plaintext
  of a number of whole blocks \<open>c\<close>, and the buffer holds the rest \<open>r\<close>.
\<close>

definition dec_rep :: "'k aes_lib \<Rightarrow> 'k \<Rightarrow> bytes \<Rightarrow> bytes \<Rightarrow> decrypt_file_state \<Rightarrow> bool" where
  "dec_rep lib key f out s \<longleftrightarrow> length (dec_buf s) = 4096 \<and>
     (if length f < 20 then dec_state s = 0 \<and> dec_buf_pos s = int (length f) \<and> take (length f) (dec_buf s) = f \<and> out = []
      else take 4 f = encrypted_file_magic lib \<and> dec_state s = 1 \<and> (\<exists>c r. drop 20 f = c @ r \<and> length c mod 16 = 0
        \<and> length r < 4096 \<and> dec_buf_pos s = int (length r) \<and> take (length r) (dec_buf s) = r
        \<and> aes_cbc lib key (take 16 (drop 4 f)) c = (out, dec_iv s) \<and> (c \<noteq> [] \<longrightarrow> 16 \<le> length r)))"

lemma dec_rep_blocksI:
  assumes "length (dec_buf s) = 4096" "20 \<le> length f" "take 4 f = encrypted_file_magic lib" "dec_state s = 1"
    "drop 20 f = c @ r" "length c mod 16 = 0" "length r < 4096" "dec_buf_pos s = int (length r)"
    "take (length r) (dec_buf s) = r" "aes_cbc lib key (take 16 (drop 4 f)) c = (out, dec_iv s)" "c \<noteq> [] \<Longrightarrow> 16 \<le> length r"
  shows "dec_rep lib key f out s"
proof -
  have "\<exists>c r. drop 20 f = c @ r \<and> length c mod 16 = 0 \<and> length r < 4096 \<and> dec_buf_pos s = int (length r)
    \<and> take (length r) (dec_buf s) = r \<and> aes_cbc lib key (take 16 (drop 4 f)) c = (out, dec_iv s) \<and> (c \<noteq> [] \<longrightarrow> 16 \<le> length r)"
    by (intro exI [of _ c] exI [of _ r]) (use assms(5-) in auto)
  then show ?thesis using assms(1-4) by (simp add: dec_rep_def)
qed

lemma int_of_size_small: "n < 2147483648 \<Longrightarrow> int_of_size n = int n"
  by (simp add: int_of_size_def int_of_u32_small unat_of_nat)

lemma fill_run:
  assumes "length (dec_buf s) = 4096" "dec_buf_pos s = int p" "p + l \<le> 4096" "l \<le> length data"
  shows "fill_dec_buf (int l) data s =
    Inr (s\<lparr>dec_buf := blit (dec_buf s) p (take l data), dec_buf_pos := int (p + l)\<rparr>)"
  using assms by (simp add: fill_dec_buf_def poke_nat)

lemma take_blit_end: "p + length xs \<le> length a \<Longrightarrow> take (p + length xs) (blit a p xs) = take p a @ xs"
  by (simp add: blit_def)

lemma peek_prefix:
  assumes "take m a = x" "m \<le> length a" "off + n \<le> m"
  shows "peek a (int off) n = Inr (take n (drop off x))"
  using assms by (auto simp: peek_nat drop_take min_absorb1)

lemma init_rep: "dec_rep lib key [] [] decrypt_file_init"
  by (simp add: dec_rep_def decrypt_file_init_def)

lemma call_write_run:
  assumes "peek (dec_buf s) 0 (nat len) = Inr d" and "write_cb d t = Some (Inr (r, t'))"
  shows "call_write_cb write_cb len (s, t) = Some (Inr (r, (s, t')))"
  using assms by (simp add: call_write_cb_def bnd_run zoom_run)

lemma in_place_run:
  assumes "length (dec_buf s) = 4096" "n \<le> 4096" and "length p = n"
    and "aes_cbc lib key (dec_iv s) (take n (dec_buf s)) = (p, iv)"
  shows "decrypt_in_place lib key (int n) s = Inr (s\<lparr>dec_buf := blit (dec_buf s) 0 p, dec_iv := iv\<rparr>)"
  using assms peek_nat [of 0 n "dec_buf s"] poke_nat [of 0 p "dec_buf s"] by (simp add: decrypt_in_place_def)

lemma flush_eval:
  assumes "dec_state s = 1" "dec_buf_pos s = len" "len \<noteq> 0" "len mod 16 = 0"
    and "decrypt_in_place lib key len s = Inr s1" "peek (dec_buf s1) (dec_buf_pos s1 - 1) 1 = Inr [b]"
  shows "decrypt_file_flush lib key wcb (s, t) =
    (if uint b < 1 \<or> 16 < uint b then Some (Inr (- 1, (s1, t)))
     else if len - uint b \<noteq> 0 then bnd (call_write_cb wcb (len - uint b)) (\<lambda>r. if r < 0 then ret r else ret 0) (s1, t)
     else Some (Inr (0, (s1, t))))"
  using assms by (simp add: decrypt_file_flush_def bnd_run andthen_run put_dec_def Let_def)

text \<open>A pass over part of the header.\<close>

lemma header_step:
  assumes rep: "dec_rep lib key f out s" and f: "length f < 20" and d: "data \<noteq> []" "length data < 2147483648"
  defines "l \<equiv> min (length data) (20 - length f)"
  assumes magic: "length (encrypted_file_magic lib) = 4" and cbc: "cbc_law lib key"
  shows "\<exists>s'. decrypt_step lib key wcb data (s, t) = Some (Inr
    (if header_bad lib (f @ take l data) then Done (- 1) else Again (drop l data), (s', t)))
    \<and> (\<not> header_bad lib (f @ take l data) \<longrightarrow> dec_rep lib key (f @ take l data) out s')"
proof -
  have s: "length (dec_buf s) = 4096" "dec_state s = 0" "dec_buf_pos s = int (length f)" "take (length f) (dec_buf s) = f" "out = []"
    using rep f by (auto simp: dec_rep_def)
  let ?s = "s\<lparr>dec_buf := blit (dec_buf s) (length f) (take l data), dec_buf_pos := int (length f + l)\<rparr>"
  have l: "l \<le> length data" "length f + l \<le> 20" "min_int (int_of_size (length data)) (20 - dec_buf_pos s) = int l"
    using f s(3) d(2) by (auto simp: l_def int_of_size_small min_int_def)
  have fill: "fill_dec_buf (int l) data s = Inr ?s" using fill_run [OF s(1,3), of l data] l f by simp
  have buf: "take (length f + l) (dec_buf ?s) = f @ take l data" "length (dec_buf ?s) = 4096"
    using take_blit_end [of "length f" "take l data" "dec_buf s"] l s(1,4) by (simp_all add: min_absorb2)
  show ?thesis
  proof (cases "length f + l = 20")
    case False
    then have lt: "length (f @ take l data) < 20" using l by simp
    then have "\<not> header_bad lib (f @ take l data)" by (simp add: header_bad_def)
    moreover have "dec_rep lib key (f @ take l data) out ?s"
      using lt buf s l by (simp add: dec_rep_def min_absorb2)
    moreover have "decrypt_step lib key wcb data (s, t) = Some (Inr (Again (drop l data), (?s, t)))"
      using d(1) s(2) l fill False
      by (simp add: decrypt_step_def decrypt_header_def bnd_run andthen_run put_dec_def Let_def)
    ultimately show ?thesis by auto
  next
    case True
    let ?f = "f @ take l data"
    have len: "length ?f = 20" using True l by simp
    have pk: "peek (dec_buf ?s) 0 4 = Inr (take 4 ?f)" "peek (dec_buf ?s) 4 16 = Inr (take 16 (drop 4 ?f))"
      using peek_prefix [of 20 "dec_buf ?s" ?f 0 4] peek_prefix [of 20 "dec_buf ?s" ?f 4 16] buf True by simp_all
    show ?thesis
    proof (cases "take 4 ?f = encrypted_file_magic lib")
      case False
      then have "decrypt_step lib key wcb data (s, t) = Some (Inr (Done (- 1), (?s, t)))"
        using d(1) s(2) l fill True pk
        by (simp add: decrypt_step_def decrypt_header_def bnd_run andthen_run put_dec_def Let_def)
      then show ?thesis using False len by (auto simp: header_bad_def)
    next
      case m: True
      let ?s2 = "?s\<lparr>dec_iv := take 16 (drop 4 ?f), dec_state := 1, dec_buf_pos := 0\<rparr>"
      have "decrypt_step lib key wcb data (s, t) = Some (Inr (Again (drop l data), (?s2, t)))"
        using d(1) s(2) l fill True pk m
        by (simp add: decrypt_step_def decrypt_header_def bnd_run andthen_run put_dec_def Let_def)
      moreover have "aes_cbc lib key (take 16 (drop 4 ?f)) [] = ([], take 16 (drop 4 ?f))"
        by (rule cbc_Nil [OF cbc]) (unfold length_take length_drop len, simp)
      then have "dec_rep lib key ?f out ?s2" using m len buf(2) s(5) by (simp add: dec_rep_def)
      ultimately show ?thesis using m len by (auto simp: header_bad_def)
    qed
  qed
qed

text \<open>A pass that does not fill the buffer only adds to it.\<close>

lemma fill_step:
  assumes rep: "dec_rep lib key f out s" and s: "20 \<le> length f" "dec_buf_pos s = int k" and d: "data \<noteq> []" "length data < 2147483648"
    and k: "k + length data < 4096"
  shows "\<exists>s'. decrypt_step lib key wcb data (s, t) = Some (Inr (Again [], (s', t))) \<and> dec_rep lib key (f @ data) out s'
    \<and> dec_buf_pos s' = int (k + length data)"
proof -
  obtain c r where r: "take 4 f = encrypted_file_magic lib" "dec_state s = 1" "drop 20 f = c @ r" "length c mod 16 = 0"
    "length r = k" "take (length r) (dec_buf s) = r" "length (dec_buf s) = 4096"
    "aes_cbc lib key (take 16 (drop 4 f)) c = (out, dec_iv s)" "c \<noteq> [] \<longrightarrow> 16 \<le> length r"
    using rep s by (auto simp: dec_rep_def)
  let ?s = "s\<lparr>dec_buf := blit (dec_buf s) k data, dec_buf_pos := int (k + length data)\<rparr>"
  have l: "min_int (int_of_size (length data)) (4096 - dec_buf_pos s) = int (length data)"
    using s(2) d(2) k by (simp add: int_of_size_small min_int_def)
  have fill: "fill_dec_buf (int (length data)) data s = Inr ?s" using fill_run [OF r(7) s(2), of "length data" data] k by simp
  have buf: "take (k + length data) (dec_buf ?s) = r @ data" "length (dec_buf ?s) = 4096"
    using take_blit_end [of k data "dec_buf s"] k r(5-7) by simp_all
  have "decrypt_step lib key wcb data (s, t) = Some (Inr (Again [], (?s, t)))"
    using d(1) r(2) l fill k by (simp add: decrypt_step_def decrypt_blocks_def bnd_run andthen_run put_dec_def Let_def)
  moreover have "dec_rep lib key (f @ data) out ?s"
    by (rule dec_rep_blocksI [where c = c and r = "r @ data"]) (use r buf k s in auto)
  ultimately show ?thesis by (intro exI [of _ ?s]) simp
qed

text \<open>
  The end of a transfer with a number of whole blocks left in the buffer: they are decrypted to \<open>q\<close>, which goes to the
  callback without the padding.
\<close>

lemma flush_blocks:
  assumes cbc: "cbc_law lib key" and rep: "dec_rep lib key f out s" "20 \<le> length f"
    and pos: "dec_buf_pos s = int k" "k \<noteq> 0" "k mod 16 = 0"
  obtains q s1 where "length q = k" "take k (dec_buf s1) = q" "length (dec_buf s1) = 4096" "k < 4096"
    "decrypt_ref lib key f = (if unat (last q) < 1 \<or> 16 < unat (last q) then None else Some (out @ take (k - unat (last q)) q))"
    "decrypt_file_flush lib key wcb (s, t) =
      (if unat (last q) < 1 \<or> 16 < unat (last q) then Some (Inr (- 1, (s1, t)))
       else if k \<noteq> unat (last q) then bnd (call_write_cb wcb (int (k - unat (last q)))) (\<lambda>r. if r < 0 then ret r else ret 0) (s1, t)
       else Some (Inr (0, (s1, t))))"
proof -
  obtain c r where s: "take 4 f = encrypted_file_magic lib" "dec_state s = 1" "drop 20 f = c @ r" "length c mod 16 = 0"
    "length r < 4096" "dec_buf_pos s = int (length r)" "take (length r) (dec_buf s) = r" "length (dec_buf s) = 4096"
    "aes_cbc lib key (take 16 (drop 4 f)) c = (out, dec_iv s)"
    using rep by (auto simp: dec_rep_def)
  have lr: "length r = k" using pos(1) s(6) by simp
  let ?iv = "take 16 (drop 4 f)"
  have iv: "length ?iv = 16" "length (dec_iv s) = 16" using rep(2) cbc_length [OF cbc _ s(4,9)] by auto
  obtain q iv' where q: "aes_cbc lib key (dec_iv s) r = (q, iv')" by fastforce
  have lq: "length q = k" using cbc_length [OF cbc iv(2) _ q] pos(3) lr by simp
  let ?pad = "unat (last q)"
  have all: "aes_cbc lib key ?iv (c @ r) = (out @ q, iv')"
    using cbc_append [OF cbc iv(1) s(4) _ s(9) q] pos(3) lr by simp
  have "16 \<le> k" "(length c + k) mod 16 = 0" using pos s(4) by presburger+
  moreover have "last (out @ q) = last q" using lq pos(2) by (cases q) auto
  moreover have "length f = 20 + length c + k" using arg_cong [OF s(3), of length] rep(2) lr by simp
  ultimately have ref: "decrypt_ref lib key f = (if ?pad < 1 \<or> 16 < ?pad then None else Some (out @ take (k - ?pad) q))"
    using all s(1,3) lr lq by (auto simp: decrypt_ref_def Let_def)
  let ?s1 = "s\<lparr>dec_buf := blit (dec_buf s) 0 q, dec_iv := iv'\<rparr>"
  have ip: "decrypt_in_place lib key (int k) s = Inr ?s1"
    using in_place_run [of s k q lib key iv'] q lq lr s(5,7,8) by simp
  have b: "take k (dec_buf ?s1) = q" "k \<le> length (dec_buf ?s1)" "length (dec_buf ?s1) = 4096"
    using lq lr s(5,8) by (simp_all add: blit_def)
  have pk: "peek (dec_buf ?s1) (dec_buf_pos ?s1 - 1) 1 = Inr [last q]"
    using peek_prefix [OF b(1,2), of "k - 1" 1] pos(1,2) lq by (cases q rule: rev_cases) (auto simp: of_nat_diff)
  have len: "int k mod 16 = 0" using pos(3) by presburger
  have pad: "uint (last q) = int ?pad" "\<not> (?pad < 1 \<or> 16 < ?pad) \<Longrightarrow> ?pad \<le> k" using pos(2,3) by (simp, presburger)
  have "decrypt_file_flush lib key wcb (s, t) =
      (if ?pad < 1 \<or> 16 < ?pad then Some (Inr (- 1, (?s1, t)))
       else if k \<noteq> ?pad then bnd (call_write_cb wcb (int (k - ?pad))) (\<lambda>r. if r < 0 then ret r else ret 0) (?s1, t)
       else Some (Inr (0, (?s1, t))))"
  proof (cases "?pad < 1 \<or> 16 < ?pad")
    case True
    then have "uint (last q) < 1 \<or> 16 < uint (last q)" using pad(1) by linarith
    then show ?thesis using flush_eval [OF s(2) pos(1) _ len ip pk, of wcb t] pos(2) True by simp
  next
    case False
    then have "\<not> (uint (last q) < 1 \<or> 16 < uint (last q))" "int k - uint (last q) = int (k - ?pad)" "k \<noteq> ?pad \<longleftrightarrow> int (k - ?pad) \<noteq> 0"
      using pad by linarith+
    then show ?thesis using flush_eval [OF s(2) pos(1) _ len ip pk, of wcb t] pos(2) False by (simp only: of_nat_eq_0_iff simp_thms if_False)
  qed
  from that [OF lq b(1,3) _ ref this] show thesis using s(5) lr by simp
qed

lemma accepted_pos:
  assumes rep: "dec_rep lib key f out s" and ref: "decrypt_ref lib key f = Some p"
  obtains k where "20 \<le> length f" "dec_buf_pos s = int k" "k \<noteq> 0" "k mod 16 = 0"
proof -
  have f: "36 \<le> length f" "(length f - 20) mod 16 = 0" using ref by (auto simp: decrypt_ref_def Let_def split: if_splits)
  then obtain c r where r: "drop 20 f = c @ r" "length c mod 16 = 0" "dec_buf_pos s = int (length r)" "c \<noteq> [] \<longrightarrow> 16 \<le> length r"
    using rep by (auto simp: dec_rep_def)
  have "length f - 20 = length c + length r" using arg_cong [OF r(1), of length] by simp
  then have "length r mod 16 = 0" "length r \<noteq> 0" using f r(2,4) by (presburger, cases "c = []") auto
  then show thesis using that [of "length r"] f(1) r(3) by simp
qed

text \<open>A transfer that does not decrypt is refused, and nothing more is handed to the callback.\<close>

lemma flush_rejects:
  assumes cbc: "cbc_law lib key" and rep: "dec_rep lib key f out s" and ref: "decrypt_ref lib key f = None"
  shows "\<exists>s'. decrypt_file_flush lib key wcb (s, t) = Some (Inr (- 1, (s', t)))"
proof (cases "length f < 20 \<or> dec_buf_pos s = 0 \<or> dec_buf_pos s mod 16 \<noteq> 0")
  case True
  then show ?thesis using rep by (auto simp: dec_rep_def decrypt_file_flush_def bnd_run Let_def split: if_splits)
next
  case False
  then obtain k where "dec_buf_pos s = int k" "20 \<le> length f" using rep by (auto simp: dec_rep_def)
  moreover from this False have "k \<noteq> 0" "k mod 16 = 0" by (simp_all, presburger)
  ultimately have k: "20 \<le> length f" "dec_buf_pos s = int k" "k \<noteq> 0" "k mod 16 = 0" by simp_all
  show ?thesis by (rule flush_blocks [OF cbc rep k, of wcb t]) (use ref in \<open>auto split: if_splits\<close>)
qed

text \<open>
  A pass over encrypted blocks.  When the buffer is full, all but its last block is decrypted and
  handed over; the last one stays, because it may hold the padding.
\<close>

context write_sink
begin

lemma blocks_step:
  assumes rep: "dec_rep lib key f out s" and f: "20 \<le> length f" and d: "data \<noteq> []" "length data < 2147483648"
    and cbc: "cbc_law lib key" and rdy: "ready t"
  shows "\<exists>s' l out'. decrypt_step lib key write_cb data (s, emit out t) = Some (Inr (Again (drop l data), (s', emit out' t)))
    \<and> dec_rep lib key (f @ take l data) out' s' \<and> 0 < l"
proof -
  obtain c r where s: "take 4 f = encrypted_file_magic lib" "dec_state s = 1" "drop 20 f = c @ r" "length c mod 16 = 0"
    "length r < 4096" "dec_buf_pos s = int (length r)" "take (length r) (dec_buf s) = r" "length (dec_buf s) = 4096"
    "aes_cbc lib key (take 16 (drop 4 f)) c = (out, dec_iv s)" "c \<noteq> [] \<longrightarrow> 16 \<le> length r"
    using rep f by (auto simp: dec_rep_def)
  define l where "l = min (length data) (4096 - length r)"
  let ?iv = "take 16 (drop 4 f)"
  let ?s = "s\<lparr>dec_buf := blit (dec_buf s) (length r) (take l data), dec_buf_pos := int (length r + l)\<rparr>"
  have iv: "length ?iv = 16" "length (dec_iv s) = 16" using f cbc_length [OF cbc _ s(4,9)] by auto
  have l: "0 < l" "l \<le> length data" "length r + l \<le> 4096" "min_int (int_of_size (length data)) (4096 - dec_buf_pos s) = int l"
    using s(5,6) d by (auto simp: l_def int_of_size_small min_int_def)
  have fill: "fill_dec_buf (int l) data s = Inr ?s" using fill_run [OF s(8,6) l(3,2)] .
  have buf: "take (length r + l) (dec_buf ?s) = r @ take l data" "length (dec_buf ?s) = 4096"
    using take_blit_end [of "length r" "take l data" "dec_buf s"] l s(7,8) by (simp_all add: min_absorb2)
  have f': "take 4 (f @ take l data) = take 4 f" "drop 20 (f @ take l data) = c @ r @ take l data"
    "take 16 (drop 4 (f @ take l data)) = ?iv" "20 \<le> length (f @ take l data)" using f s(3) by auto
  show ?thesis
  proof (cases "length r + l = 4096")
    case False
    then have all: "l = length data" "length r + length data < 4096" using l(2,3) by (auto simp: l_def)
    obtain s' where "decrypt_step lib key write_cb data (s, emit out t) = Some (Inr (Again [], (s', emit out t)))"
      "dec_rep lib key (f @ data) out s'" using fill_step [OF rep f s(6) d all(2), of write_cb "emit out t"] by auto
    then show ?thesis using all(1) l(1) by (intro exI [of _ s'] exI [of _ l] exI [of _ out]) simp
  next
    case full: True
    define b where "b = r @ take l data"
    let ?c = "take 4080 b" and ?r = "drop 4080 b"
    have b: "dec_buf ?s = b" "length b = 4096" unfolding b_def using buf full l by (simp_all add: min_absorb2)
    obtain p iv' where p: "aes_cbc lib key (dec_iv s) ?c = (p, iv')" by fastforce
    have lp: "length p = 4080" using cbc_length [OF cbc iv(2) _ p] b(2) by simp
    let ?s1 = "?s\<lparr>dec_buf := p @ ?r, dec_iv := iv'\<rparr>"
    let ?s2 = "?s1\<lparr>dec_buf := ?r @ drop 16 (p @ ?r), dec_buf_pos := 16\<rparr>"
    have bl: "blit b 0 p = p @ ?r" using lp by (simp add: blit_def)
    have ip: "decrypt_in_place lib key 4080 ?s = Inr ?s1"
      using in_place_run [of ?s 4080 p lib key iv'] p lp b buf(2) full bl by simp
    obtain rv where rv: "rv \<ge> 0" "write_cb p (emit out t) = Some (Inr (rv, emit (out @ p) t))"
      using write_run [OF emit_ready [OF rdy], of p out] emit_append [OF rdy, of out p] lp by auto
    have "peek (dec_buf ?s1) 0 (nat 4080) = Inr p" using peek_nat [of 0 4080 "p @ ?r"] lp b(2) by simp
    then have wr: "call_write_cb write_cb 4080 (?s1, emit out t) = Some (Inr (rv, (?s1, emit (out @ p) t)))"
      by (rule call_write_run) (rule rv(2))
    have pk: "peek (dec_buf ?s1) (dec_buf_pos ?s1 - 16) 16 = Inr ?r"
      using peek_nat [of 4080 16 "p @ ?r"] lp b(2) full by simp
    have po: "poke (dec_buf ?s1) 0 ?r = Inr (dec_buf ?s2)"
      using poke_nat [of 0 ?r "p @ ?r"] lp b(2) by (simp add: blit_def)
    have run: "decrypt_step lib key write_cb data (s, emit out t) = Some (Inr (Again (drop l data), (?s2, emit (out @ p) t)))"
      using d(1) s(2) l fill full ip wr rv(1) pk po
      by (simp add: decrypt_step_def decrypt_blocks_def bnd_run andthen_run put_dec_def Let_def)
    have "aes_cbc lib key ?iv (c @ ?c) = (out @ p, iv')"
      using cbc_append [OF cbc iv(1) s(4) _ s(9) p] b(2) by simp
    moreover have "(length c + 4080) mod 16 = 0" using s(4) by presburger
    ultimately have "dec_rep lib key (f @ take l data) (out @ p) ?s2"
      by (intro dec_rep_blocksI [OF _ f'(4), where c = "c @ ?c" and r = ?r], unfold f' b_def [symmetric])
        (use s(1,2,4) b(2) lp in \<open>simp_all\<close>)
    then show ?thesis using run l(1) by blast
  qed
qed

text \<open>Feeding a chunk: the result does not depend on where the passes cut it.\<close>

lemma bad_append: "header_bad lib f \<Longrightarrow> header_bad lib (f @ d)"
  by (simp add: header_bad_def)

lemma decrypt_file_run:
  assumes "length (encrypted_file_magic lib) = 4" "cbc_law lib key" "ready t"
    and "dec_rep lib key f out s" "length data < 2147483648"
  shows "\<exists>s' out'. decrypt_file lib key write_cb data (s, emit out t) =
      Some (Inr (if header_bad lib (f @ data) then - 1 else 0, (s', emit out' t)))
    \<and> (\<not> header_bad lib (f @ data) \<longrightarrow> dec_rep lib key (f @ data) out' s')"
  using assms(4,5)
proof (induction "length data" arbitrary: data f out s rule: less_induct)
  case less
  have nb: "\<not> header_bad lib f" using less.prems(1) by (auto simp: dec_rep_def header_bad_def split: if_splits)
  show ?case
  proof (cases "data = []")
    case True
    have "decrypt_step lib key write_cb [] (s, emit out t) = Some (Inr (Done 0, (s, emit out t)))"
      by (simp add: decrypt_step_def)
    then show ?thesis using True nb less.prems(1) by (auto simp: decrypt_file_def loop_done)
  next
    case False
    have next_pass: ?thesis if st: "decrypt_step lib key write_cb data (s, emit out t) = Some (Inr (Again (drop l data), (s', emit out' t)))"
        and rp: "dec_rep lib key (f @ take l data) out' s'" and l: "0 < l" for l s' out'
      using less.hyps [of "drop l data" "f @ take l data" out' s'] False l rp less.prems(2)
      by (simp add: decrypt_file_def loop_again [of "decrypt_step lib key write_cb", OF st])
    show ?thesis
    proof (cases "length f < 20")
      case f: True
      let ?l = "min (length data) (20 - length f)"
      obtain s' where s': "decrypt_step lib key write_cb data (s, emit out t) = Some (Inr
          (if header_bad lib (f @ take ?l data) then Done (- 1) else Again (drop ?l data), (s', emit out t)))"
        "\<not> header_bad lib (f @ take ?l data) \<longrightarrow> dec_rep lib key (f @ take ?l data) out s'"
        using header_step [OF less.prems(1) f False less.prems(2) assms(1,2), of write_cb "emit out t"] by (elim exE conjE)
      show ?thesis
      proof (cases "header_bad lib (f @ take ?l data)")
        case True
        then have "header_bad lib (f @ data)" using bad_append [of lib "f @ take ?l data" "drop ?l data"] by simp
        moreover have "decrypt_file lib key write_cb data (s, emit out t) = Some (Inr (- 1, (s', emit out t)))"
          unfolding decrypt_file_def by (rule loop_done) (use s'(1) True in simp)
        ultimately show ?thesis by auto
      next
        case nb': False
        show ?thesis by (rule next_pass [of ?l s' out]) (use s' nb' f False in auto)
      qed
    next
      case f: False
      then have "20 \<le> length f" by simp
      from blocks_step [OF less.prems(1) this False less.prems(2) assms(2,3)]
      obtain s' l out' where "decrypt_step lib key write_cb data (s, emit out t) = Some (Inr (Again (drop l data), (s', emit out' t)))"
        "dec_rep lib key (f @ take l data) out' s'" "0 < l" by (elim exE conjE)
      then show ?thesis by (rule next_pass)
    qed
  qed
qed

text \<open>The end of the transfer.\<close>

lemma flush_run:
  assumes cbc: "cbc_law lib key" and rdy: "ready t" and rep: "dec_rep lib key f out s"
  shows "\<exists>r s' t'. decrypt_file_flush lib key write_cb (s, emit out t) = Some (Inr (r, (s', t')))
    \<and> (case decrypt_ref lib key f of None \<Rightarrow> r < 0 | Some p \<Rightarrow> r = 0 \<and> t' = emit p t)"
proof (cases "decrypt_ref lib key f")
  case None
  then show ?thesis using flush_rejects [OF cbc rep None, of write_cb "emit out t"] by auto
next
  case (Some p)
  obtain k where k: "20 \<le> length f" "dec_buf_pos s = int k" "k \<noteq> 0" "k mod 16 = 0" by (rule accepted_pos [OF rep Some])
  obtain q s1 where q: "length q = k" "take k (dec_buf s1) = q" "length (dec_buf s1) = 4096" "k < 4096"
    "decrypt_ref lib key f = (if unat (last q) < 1 \<or> 16 < unat (last q) then None else Some (out @ take (k - unat (last q)) q))"
    "decrypt_file_flush lib key write_cb (s, emit out t) =
      (if unat (last q) < 1 \<or> 16 < unat (last q) then Some (Inr (- 1, (s1, emit out t)))
       else if k \<noteq> unat (last q) then bnd (call_write_cb write_cb (int (k - unat (last q)))) (\<lambda>r. if r < 0 then ret r else ret 0) (s1, emit out t)
       else Some (Inr (0, (s1, emit out t))))"
    by (rule flush_blocks [OF cbc rep k, of write_cb "emit out t"])
  let ?d = "take (k - unat (last q)) q"
  have p: "p = out @ ?d" "\<not> (unat (last q) < 1 \<or> 16 < unat (last q))" using Some q(5) by (auto split: if_splits)
  show ?thesis
  proof (cases "k = unat (last q)")
    case True
    then show ?thesis using q(6) p Some by auto
  next
    case False
    have "length ?d \<le> 4096" using q(1,4) by simp
    from write_run [OF emit_ready [OF rdy] this, of out]
    obtain rv where rv: "rv \<ge> 0" "write_cb ?d (emit out t) = Some (Inr (rv, emit (out @ ?d) t))"
      using emit_append [OF rdy, of out ?d] by auto
    have "peek (dec_buf s1) 0 (nat (int (k - unat (last q)))) = Inr ?d"
      using peek_prefix [OF q(2), of 0 "k - unat (last q)"] q(1,3,4) by simp
    then have "call_write_cb write_cb (int (k - unat (last q))) (s1, emit out t) = Some (Inr (rv, (s1, emit (out @ ?d) t)))"
      by (rule call_write_run) (rule rv(2))
    then have "decrypt_file_flush lib key write_cb (s, emit out t) = Some (Inr (0, (s1, emit p t)))"
      using q(6) p False rv(1) by (simp add: bnd_run(3))
    then show ?thesis using Some by auto
  qed
qed

text \<open>The chunked decryption is the reference, however the file is cut.\<close>

lemma transfer_from:
  assumes "length (encrypted_file_magic lib) = 4" "cbc_law lib key" "ready t"
    and "dec_rep lib key f out s" "\<forall>d \<in> set ds. length d < 2147483648"
  shows "\<exists>r s' t'. decrypt_transfer lib key write_cb ds (s, emit out t) = Some (Inr (r, (s', t')))
    \<and> (case decrypt_ref lib key (f @ concat ds) of None \<Rightarrow> r < 0 | Some p \<Rightarrow> r = 0 \<and> t' = emit p t)"
  using assms(4,5)
proof (induction ds arbitrary: f out s)
  case Nil
  then show ?case using flush_run [OF assms(2,3)] by simp
next
  case (Cons d ds)
  obtain s1 out1 where d: "decrypt_file lib key write_cb d (s, emit out t) =
      Some (Inr (if header_bad lib (f @ d) then - 1 else 0, (s1, emit out1 t)))"
    "\<not> header_bad lib (f @ d) \<longrightarrow> dec_rep lib key (f @ d) out1 s1"
    using decrypt_file_run [OF assms(1,2,3) Cons.prems(1), of d] Cons.prems(2) by auto
  show ?case
  proof (cases "header_bad lib (f @ d)")
    case True
    then have "decrypt_ref lib key (f @ concat (d # ds)) = None" by (auto simp: header_bad_def decrypt_ref_def Let_def)
    then show ?thesis using d True by (simp add: bnd_run)
  next
    case False
    then show ?thesis using d Cons.IH [of "f @ d" out1 s1] Cons.prems(2) by (simp add: bnd_run)
  qed
qed

lemma transfer_ref:
  assumes "length (encrypted_file_magic lib) = 4" "cbc_law lib key" "ready t" "\<forall>d \<in> set ds. length d < 2147483648"
  shows "\<exists>r s' t'. decrypt_transfer lib key write_cb ds (decrypt_file_init, t) = Some (Inr (r, (s', t')))
    \<and> (case decrypt_ref lib key (concat ds) of None \<Rightarrow> r < 0 | Some p \<Rightarrow> r = 0 \<and> t' = emit p t)"
  using transfer_from [OF assms(1-3) init_rep assms(4)] emit_Nil [OF assms(3)] by simp

end

end
