(* ===== verification/Fs_Node.thy ===== *)
theory Fs_Node
  imports Fs_Device Fs_Wget
begin

text \<open>
  Model of the data of \<open>src/src/fs_net.c\<close> and of the operations on inodes, directory entries and file
  buffers.  A pointer to a heap object is a number, 0 the null pointer; each kind of object has its own
  heap, in which a freed object is \<open>None\<close>.  A list of \<open>list.h\<close> is the HOL list of the objects it links
  (theory \<open>List_Head\<close>).  A C string is the list of its characters before the terminating null.  The members of the
  union of an inode are separate fields: the code reads a member only after testing the type it belongs to.
  The structure \<open>FileBuffer\<close> is declared outside the repository; its two fields are those the functions
  here use.  The fields under \<open>DUMP_CACHE_LOAD\<close> serve \<open>dump_loaded_file\<close> only, which returns at once
  because nothing in the program calls \<open>fs_dump_cache_load\<close> to set \<open>dump_cache_load\<close>; they are left out.
\<close>

section \<open>Types\<close>

abbreviation FT_FIFO :: u32 where "FT_FIFO \<equiv> 1"
abbreviation FT_CHR :: u32 where "FT_CHR \<equiv> 2"
abbreviation FT_DIR :: u32 where "FT_DIR \<equiv> 4"
abbreviation FT_BLK :: u32 where "FT_BLK \<equiv> 6"
abbreviation FT_REG :: u32 where "FT_REG \<equiv> 8"
abbreviation FT_LNK :: u32 where "FT_LNK \<equiv> 10"
abbreviation FT_SOCK :: u32 where "FT_SOCK \<equiv> 12"

abbreviation P9_EPERM :: int where "P9_EPERM \<equiv> 1"
abbreviation P9_ENOENT :: int where "P9_ENOENT \<equiv> 2"
abbreviation P9_EIO :: int where "P9_EIO \<equiv> 5"
abbreviation P9_EEXIST :: int where "P9_EEXIST \<equiv> 17"
abbreviation P9_ENOTDIR :: int where "P9_ENOTDIR \<equiv> 20"
abbreviation P9_EINVAL :: int where "P9_EINVAL \<equiv> 22"
abbreviation P9_ENOSPC :: int where "P9_ENOSPC \<equiv> 28"
abbreviation P9_ENOTEMPTY :: int where "P9_ENOTEMPTY \<equiv> 39"

abbreviation P9_QTDIR :: u8 where "P9_QTDIR \<equiv> 0x80"
abbreviation P9_QTSYMLINK :: u8 where "P9_QTSYMLINK \<equiv> 0x02"
abbreviation P9_QTFILE :: u8 where "P9_QTFILE \<equiv> 0x00"

datatype reg_state = REG_STATE_LOCAL | REG_STATE_UNLOADED | REG_STATE_LOADING | REG_STATE_LOADED

type_synonym ptr = nat

record file_buffer =
  fb_data :: bytes
  allocated_size :: u64

record reg_inode =
  rstate :: reg_state
  rsize :: u64
  fbuf :: file_buffer
  rbase_url :: ptr
  rfile_id :: u64
  ropen_info :: ptr
  is_fscmd :: bool

record fsinode =
  inode_num :: u64
  refcount :: int
  open_count :: int
  itype :: u32
  imode :: u32
  iuid :: u32
  igid :: u32
  mtime_sec :: u32
  ctime_sec :: u32
  mtime_nsec :: u32
  ctime_nsec :: u32
  reg :: reg_inode
  de_list :: "ptr list"
  dir_size :: int
  dev_major :: u32
  dev_minor :: u32
  symlink_name :: "bytes option"

record fsdirentry =
  de_inode :: ptr
  de_name :: bytes

datatype fscmd_type = FS_CMD_XHR | FS_CMD_PBKDF2

record fscmd_request =
  req_type :: fscmd_type
  req_xhr_state :: ptr
  reply_len :: int
  reply_buf :: bytes

record fsfile =
  f_uid :: u32
  f_inode :: ptr
  is_opened :: bool
  open_flags :: u32
  f_req :: ptr

record 'k fsbaseurl =
  bu_ref_count :: int
  base_url_id :: bytes
  bu_url :: bytes
  bu_user :: "bytes option"
  bu_password :: "bytes option"
  bu_encrypted :: bool
  bu_aes_state :: "'k option"

record preload_file =
  pf_is_archive :: bool
  pf_name :: bytes

record preload_entry =
  pe_file_id :: u64
  pe_files :: "preload_file list"

record preload_archive_file =
  paf_file_id :: u64
  paf_size :: u64
  paf_name :: bytes

record preload_archive =
  pa_name :: bytes
  pa_files :: "preload_archive_file list"

datatype fs_open_wget_type = FS_OPEN_WGET_REG | FS_OPEN_WGET_ARCHIVE | FS_OPEN_WGET_ARCHIVE_FILE

text \<open>
  \<open>oi_cb\<close>: the opaque argument of the completion callback, if there is one.  \<open>oi_dec\<close>: the decryption
  state and the base URL whose key it points to.
\<close>

record fsopeninfo =
  oi_type :: fs_open_wget_type
  oi_xhr :: ptr
  oi_n :: ptr
  oi_dec :: "(decrypt_file_state \<times> ptr) option"
  cur_pos :: u64
  archive_offset :: u64
  archive_file_list :: "ptr list"
  oi_f :: ptr
  oi_cb :: "nat option"

text \<open>
  A transfer handed to \<open>fs_wget2\<close> that has not ended, with the \<open>FSOpenInfo\<close> or the \<open>FSWGetFileState\<close> its
  callback gets.
\<close>

datatype xhr_client = Open_Info ptr | Wget_File ptr

record xhr =
  xhr_url :: bytes
  xhr_user :: "bytes option"
  xhr_password :: "bytes option"
  xhr_post_len :: u64
  xhr_opaque :: xhr_client

text \<open>\<open>CmdXHRState\<close>.\<close>

record 'k cmdxhrstate =
  cx_req_fd :: ptr
  cx_root_fd :: ptr
  cx_fd :: ptr
  cx_post_fd :: ptr
  cx_aes_state :: "'k option"

text \<open>
  The callback of a download to a file (\<open>FSWGetFileCB\<close>) with its opaque argument, and \<open>FSWGetFileState\<close>.  The
  key the decryption points to is kept beside its state: it is not changed before the download ends.
\<close>

datatype wget_file_cb = Cmd_Xhr_On_Load ptr | Head_Loaded ptr | Filelist_Loaded ptr

record 'k fswgetfilestate =
  wf_f :: ptr
  wf_pos :: int
  wf_cb :: wget_file_cb
  wf_posted_file :: ptr
  wf_read_pos :: int
  wf_dec :: "(decrypt_file_state \<times> 'k) option"

text \<open>\<open>FSNetInitState\<close>; \<open>is_start\<close>: the opaque argument of \<open>start_cb\<close>, if there is one.\<close>

record fsnetinitstate =
  is_url :: bytes
  is_start :: "nat option"
  is_root_fd :: ptr
  is_fd :: ptr
  is_file_index :: int

text \<open>
  What the host answers to the n-th call: the time of day (seconds and microseconds), whether a
  \<open>realloc\<close> succeeds, and what new memory holds.
\<close>

record host =
  host_time :: "nat \<Rightarrow> u32 \<times> u32"
  host_mem :: "nat \<Rightarrow> nat \<Rightarrow> bool"
  host_junk :: "nat \<Rightarrow> nat \<Rightarrow> u8"

text \<open>
  \<open>FSDeviceMem\<close>, with the heaps of the objects it owns, the host and the number of calls made to it, the
  calls of completion callbacks so far (opaque argument, qid, error), and those of \<open>start_cb\<close>.
\<close>

record 'k fsdevicemem =
  inodes :: "ptr \<Rightarrow> fsinode option"
  dirents :: "ptr \<Rightarrow> fsdirentry option"
  files :: "ptr \<Rightarrow> fsfile option"
  open_infos :: "ptr \<Rightarrow> fsopeninfo option"
  base_urls :: "ptr \<Rightarrow> 'k fsbaseurl option"
  requests :: "ptr \<Rightarrow> fscmd_request option"
  cmd_xhrs :: "ptr \<Rightarrow> 'k cmdxhrstate option"
  xhrs :: "ptr \<Rightarrow> xhr option"
  wget_files :: "ptr \<Rightarrow> 'k fswgetfilestate option"
  init_states :: "ptr \<Rightarrow> fsnetinitstate option"
  next_ptr :: ptr
  fs_host :: host
  host_calls :: nat
  completions :: "(nat \<times> fsqid option \<times> int) list"
  started :: "nat list"
  inode_list :: "ptr list"
  inode_count :: int
  inode_limit :: u64
  fs_blocks :: int
  fs_max_blocks :: u64
  inode_num_alloc :: u64
  block_size_log2 :: nat
  block_size :: u32
  root_inode :: ptr
  inode_cache_list :: "ptr list"
  inode_cache_size :: int
  inode_cache_size_limit :: int
  preload_list :: "preload_entry list"
  preload_archive_list :: "preload_archive list"
  base_url_list :: "ptr list"
  import_dir :: bytes

type_synonym ('k, 'a) fs_vm = "('k fsdevicemem, 'a) vm"

section \<open>Heaps\<close>

definition load :: "('s \<Rightarrow> ptr \<Rightarrow> 'a option) \<Rightarrow> ptr \<Rightarrow> ('s, 'a) vm" where
  "load heap p = (\<lambda>s. if p = 0 then Some (Inl NullDeref)
     else case heap s p of None \<Rightarrow> Some (Inl UseAfterFree) | Some a \<Rightarrow> Some (Inr (a, s)))"

lemma wp_load:
  "heap s p = Some a \<Longrightarrow> p \<noteq> 0 \<Longrightarrow> Q a s \<Longrightarrow> wlp (load heap p) Q F s"
  by (simp add: wlp_def load_def)

lemma wlp_load:
  "wlp (load heap p) Q F s = (if p = 0 then F NullDeref else case heap s p of None \<Rightarrow> F UseAfterFree | Some a \<Rightarrow> Q a s)"
  by (simp add: wlp_def load_def split: option.splits)

abbreviation inode_of :: "ptr \<Rightarrow> ('k, fsinode) fs_vm" where "inode_of \<equiv> load inodes"
abbreviation dirent_of :: "ptr \<Rightarrow> ('k, fsdirentry) fs_vm" where "dirent_of \<equiv> load dirents"
abbreviation file_of :: "ptr \<Rightarrow> ('k, fsfile) fs_vm" where "file_of \<equiv> load files"
abbreviation open_info_of :: "ptr \<Rightarrow> ('k, fsopeninfo) fs_vm" where "open_info_of \<equiv> load open_infos"
abbreviation base_url_of :: "ptr \<Rightarrow> ('k, 'k fsbaseurl) fs_vm" where "base_url_of \<equiv> load base_urls"

definition upd_inode :: "ptr \<Rightarrow> (fsinode \<Rightarrow> fsinode) \<Rightarrow> ('k, unit) fs_vm" where
  "upd_inode p g = bnd (inode_of p) (\<lambda>n. modify (\<lambda>s. s\<lparr>inodes := (inodes s)(p \<mapsto> g n)\<rparr>))"

definition upd_reg :: "ptr \<Rightarrow> (reg_inode \<Rightarrow> reg_inode) \<Rightarrow> ('k, unit) fs_vm" where
  "upd_reg p g = upd_inode p (\<lambda>n. n\<lparr>reg := g (reg n)\<rparr>)"

definition upd_file :: "ptr \<Rightarrow> (fsfile \<Rightarrow> fsfile) \<Rightarrow> ('k, unit) fs_vm" where
  "upd_file p g = bnd (file_of p) (\<lambda>f. modify (\<lambda>s. s\<lparr>files := (files s)(p \<mapsto> g f)\<rparr>))"

definition upd_open_info :: "ptr \<Rightarrow> (fsopeninfo \<Rightarrow> fsopeninfo) \<Rightarrow> ('k, unit) fs_vm" where
  "upd_open_info p g = bnd (open_info_of p) (\<lambda>oi. modify (\<lambda>s. s\<lparr>open_infos := (open_infos s)(p \<mapsto> g oi)\<rparr>))"

definition upd_base_url :: "ptr \<Rightarrow> ('k fsbaseurl \<Rightarrow> 'k fsbaseurl) \<Rightarrow> ('k, unit) fs_vm" where
  "upd_base_url p g = bnd (base_url_of p) (\<lambda>b. modify (\<lambda>s. s\<lparr>base_urls := (base_urls s)(p \<mapsto> g b)\<rparr>))"

text \<open>A fresh address.\<close>

definition fresh :: "('k, ptr) fs_vm" where
  "fresh = bnd (gets next_ptr) (\<lambda>p. andthen (modify (\<lambda>s. s\<lparr>next_ptr := Suc p\<rparr>)) (ret p))"

text \<open>Signed 64-bit arithmetic.\<close>

definition cint64 :: "int \<Rightarrow> ('s, int) vm" where
  "cint64 i = (if - 9223372036854775808 \<le> i \<and> i < 9223372036854775808 then ret i else fault SignedOverflow)"

lemma keeps_load [keeps_intros]: "keeps I (load heap p)"
  by (simp add: keeps_def wlp_load split: option.splits)

lemma keeps_cint64 [keeps_intros]: "keeps I (cint64 i)"
  by (simp add: keeps_def cint64_def wlp_simps)

lemma total_load [total_intros]: "total (load heap p)"
  by (simp add: total_def returns_def load_def split: option.splits)

lemma total_cint64 [total_intros]: "total (cint64 i)"
  unfolding cint64_def by (intro total_intros)

definition add_blocks :: "int \<Rightarrow> ('k, unit) fs_vm" where
  "add_blocks d = bnd (gets fs_blocks) (\<lambda>b. bnd (cint64 (b + d)) (\<lambda>b'. modify (\<lambda>s. s\<lparr>fs_blocks := b'\<rparr>)))"

definition add_inode_count :: "int \<Rightarrow> ('k, unit) fs_vm" where
  "add_inode_count d = bnd (gets inode_count) (\<lambda>b. bnd (cint64 (b + d)) (\<lambda>b'. modify (\<lambda>s. s\<lparr>inode_count := b'\<rparr>)))"

text \<open>An \<open>int64_t\<close> plus or minus a \<open>size_t\<close> is computed without sign.\<close>

definition add_cache_size :: "u64 \<Rightarrow> ('k, unit) fs_vm" where
  "add_cache_size d = modify (\<lambda>s. s\<lparr>inode_cache_size := sint (word_of_int (inode_cache_size s) + d)\<rparr>)"

definition gettimeofday :: "('k, u32 \<times> u32) fs_vm" where
  "gettimeofday = bnd (gets (\<lambda>s. host_time (fs_host s) (host_calls s))) (\<lambda>tv.
     andthen (modify (\<lambda>s. s\<lparr>host_calls := Suc (host_calls s)\<rparr>)) (ret tv))"

section \<open>File buffers\<close>

definition file_buffer_init :: file_buffer where
  "file_buffer_init = \<lparr>fb_data = [], allocated_size = 0\<rparr>"

definition file_buffer_reset :: "ptr \<Rightarrow> ('k, unit) fs_vm" where
  "file_buffer_reset p = upd_reg p (\<lambda>r. r\<lparr>fbuf := file_buffer_init\<rparr>)"

text \<open>\<open>realloc\<close> keeps the common part of the old contents; a request for no memory cannot fail.\<close>

definition file_buffer_resize :: "ptr \<Rightarrow> u64 \<Rightarrow> ('k, int) fs_vm" where
  "file_buffer_resize p new_size = bnd (inode_of p) (\<lambda>n. bnd (gets (\<lambda>s. (fs_host s, host_calls s))) (\<lambda>(h, c).
     andthen (modify (\<lambda>s. s\<lparr>host_calls := Suc c\<rparr>))
     (if \<not> host_mem h c (unat new_size) \<and> new_size \<noteq> 0 then ret (- 1)
      else andthen (upd_reg p (\<lambda>r. r\<lparr>fbuf := \<lparr>fb_data = realloc (host_junk h c) (fb_data (fbuf r)) (unat new_size),
               allocated_size = new_size\<rparr>\<rparr>)) (ret 0))))"

text \<open>\<open>memcpy\<close> and \<open>memset\<close> into the buffer, and \<open>memcpy\<close> out of it.\<close>

definition file_buffer_write :: "ptr \<Rightarrow> u64 \<Rightarrow> bytes \<Rightarrow> ('k, unit) fs_vm" where
  "file_buffer_write p offset buf = bnd (inode_of p) (\<lambda>n.
     bnd (lift (poke (fb_data (fbuf (reg n))) (uint offset) buf)) (\<lambda>d.
     upd_reg p (\<lambda>r. r\<lparr>fbuf := (fbuf r)\<lparr>fb_data := d\<rparr>\<rparr>)))"

definition file_buffer_set :: "ptr \<Rightarrow> u64 \<Rightarrow> u8 \<Rightarrow> u64 \<Rightarrow> ('k, unit) fs_vm" where
  "file_buffer_set p offset val len = file_buffer_write p offset (replicate (unat len) val)"

definition file_buffer_read :: "ptr \<Rightarrow> u64 \<Rightarrow> u64 \<Rightarrow> ('k, bytes) fs_vm" where
  "file_buffer_read p offset len = bnd (inode_of p) (\<lambda>n.
     lift (peek (fb_data (fbuf (reg n))) (uint offset) (unat len)))"

section \<open>Inodes\<close>

definition to_blocks :: "'k fsdevicemem \<Rightarrow> u64 \<Rightarrow> int" where
  "to_blocks s sz = sint (drop_bit (block_size_log2 s) (sz + ucast (block_size s) - 1))"

definition inode_incref :: "ptr \<Rightarrow> ('k, ptr) fs_vm" where
  "inode_incref p = bnd (inode_of p) (\<lambda>n. bnd (cint (refcount n + 1)) (\<lambda>c.
     andthen (upd_inode p (\<lambda>n. n\<lparr>refcount := c\<rparr>)) (ret p)))"

definition inode_inc_open :: "ptr \<Rightarrow> ('k, ptr) fs_vm" where
  "inode_inc_open p = bnd (inode_of p) (\<lambda>n. bnd (cint (open_count n + 1)) (\<lambda>c.
     andthen (upd_inode p (\<lambda>n. n\<lparr>open_count := c\<rparr>)) (ret p)))"

text \<open>What freeing the inode of a file that is being loaded needs of the loading.\<close>

definition fs_base_url_decref :: "ptr \<Rightarrow> ('k, unit) fs_vm" where
  "fs_base_url_decref p = bnd (base_url_of p) (\<lambda>b. andthen (guard AssertFail (1 \<le> bu_ref_count b))
     (andthen (upd_base_url p (\<lambda>b. b\<lparr>bu_ref_count := bu_ref_count b - 1\<rparr>))
     (if bu_ref_count b - 1 = 0
      then modify (\<lambda>s. s\<lparr>base_url_list := remove1 p (base_url_list s), base_urls := (base_urls s)(p := None)\<rparr>)
      else ret ())))"

text \<open>\<open>list_del(&oi->archive_link)\<close> takes the object out of the list it is in.\<close>

definition archive_unlink :: "ptr \<Rightarrow> ('k, unit) fs_vm" where
  "archive_unlink p = modify (\<lambda>s. s\<lparr>open_infos := (\<lambda>q.
     map_option (\<lambda>oi. oi\<lparr>archive_file_list := remove1 p (archive_file_list oi)\<rparr>) (open_infos s q))\<rparr>)"

definition fs_open_end :: "ptr \<Rightarrow> ('k, unit) fs_vm" where
  "fs_open_end p = bnd (open_info_of p) (\<lambda>oi.
     andthen (if oi_type oi = FS_OPEN_WGET_ARCHIVE_FILE then archive_unlink p else ret ())
     (modify (\<lambda>s. s\<lparr>open_infos := (open_infos s)(p := None)\<rparr>)))"

definition fs_wget_set_error :: "ptr \<Rightarrow> ('k, unit) fs_vm" where
  "fs_wget_set_error p = bnd (inode_of p) (\<lambda>n. andthen (guard AssertFail (rstate (reg n) = REG_STATE_LOADING))
     (bnd (open_info_of (ropen_info (reg n))) (\<lambda>oi.
      andthen (upd_reg p (\<lambda>r. r\<lparr>rstate := REG_STATE_UNLOADED\<rparr>))
      (andthen (file_buffer_reset p)
      (andthen (case oi_cb oi of None \<Rightarrow> ret ()
         | Some opaque \<Rightarrow> modify (\<lambda>s. s\<lparr>completions := completions s @ [(opaque, None, - P9_EIO)]\<rparr>))
      (fs_open_end (ropen_info (reg n))))))))"

text \<open>\<open>list_for_each_safe\<close> over the files of an archive.\<close>

fun error_archive_files :: "ptr list \<Rightarrow> ('k, unit) fs_vm" where
  "error_archive_files [] = ret ()"
| "error_archive_files (el # els) = bnd (open_info_of el) (\<lambda>oi1.
     andthen (fs_wget_set_error (oi_n oi1)) (error_archive_files els))"

definition fs_error_archive :: "ptr \<Rightarrow> ('k, unit) fs_vm" where
  "fs_error_archive p = bnd (open_info_of p) (\<lambda>oi. error_archive_files (archive_file_list oi))"

definition fs_wget_free :: "ptr \<Rightarrow> ('k, unit) fs_vm" where
  "fs_wget_free x = bnd (load xhrs x) (\<lambda>_. modify (\<lambda>s. s\<lparr>xhrs := (xhrs s)(x := None)\<rparr>))"

definition inode_free_loading :: "fsinode \<Rightarrow> ('k, unit) fs_vm" where
  "inode_free_loading n = bnd (open_info_of (ropen_info (reg n))) (\<lambda>oi.
     andthen (if oi_xhr oi \<noteq> 0 then fs_wget_free (oi_xhr oi) else ret ())
     (andthen (if oi_type oi = FS_OPEN_WGET_ARCHIVE then fs_error_archive (ropen_info (reg n)) else ret ())
     (andthen (fs_open_end (ropen_info (reg n))) (fs_base_url_decref (rbase_url (reg n))))))"

definition cache_unlink :: "ptr \<Rightarrow> u64 \<Rightarrow> ('k, unit) fs_vm" where
  "cache_unlink p sz = andthen (modify (\<lambda>s. s\<lparr>inode_cache_list := remove1 p (inode_cache_list s)\<rparr>))
     (andthen (add_cache_size (- sz)) (bnd (gets inode_cache_size) (\<lambda>c. guard AssertFail (0 \<le> c))))"

definition inode_free :: "ptr \<Rightarrow> ('k, unit) fs_vm" where
  "inode_free p = bnd (inode_of p) (\<lambda>n.
     andthen (guard AssertFail (refcount n = 0))
     (andthen (guard AssertFail (open_count n = 0))
     (andthen
       (if itype n = FT_REG then
          bnd (gets (\<lambda>s. to_blocks s (rsize (reg n)))) (\<lambda>b. andthen (add_blocks (- b))
          (bnd (gets fs_blocks) (\<lambda>b. andthen (guard AssertFail (0 \<le> b))
          (andthen (file_buffer_reset p)
          (case rstate (reg n) of
             REG_STATE_LOADED \<Rightarrow> andthen (cache_unlink p (rsize (reg n))) (fs_base_url_decref (rbase_url (reg n)))
           | REG_STATE_LOADING \<Rightarrow> inode_free_loading n
           | REG_STATE_UNLOADED \<Rightarrow> fs_base_url_decref (rbase_url (reg n))
           | REG_STATE_LOCAL \<Rightarrow> ret ())))))
        else if itype n = FT_DIR then guard AssertFail (de_list n = [])
        else ret ())
     (andthen (modify (\<lambda>s. s\<lparr>inode_list := remove1 p (inode_list s), inodes := (inodes s)(p := None)\<rparr>))
     (andthen (add_inode_count (- 1)) (bnd (gets inode_count) (\<lambda>c. guard AssertFail (0 \<le> c))))))))"

definition inode_decref :: "ptr \<Rightarrow> ('k, unit) fs_vm" where
  "inode_decref p = bnd (inode_of p) (\<lambda>n. andthen (guard AssertFail (1 \<le> refcount n))
     (andthen (upd_inode p (\<lambda>n. n\<lparr>refcount := refcount n - 1\<rparr>))
     (if refcount n - 1 \<le> 0 \<and> open_count n \<le> 0 then inode_free p else ret ())))"

definition inode_dec_open :: "ptr \<Rightarrow> ('k, unit) fs_vm" where
  "inode_dec_open p = bnd (inode_of p) (\<lambda>n. andthen (guard AssertFail (1 \<le> open_count n))
     (andthen (upd_inode p (\<lambda>n. n\<lparr>open_count := open_count n - 1\<rparr>))
     (if open_count n - 1 \<le> 0 \<and> refcount n \<le> 0 then inode_free p else ret ())))"

definition inode_update_mtime :: "ptr \<Rightarrow> ('k, unit) fs_vm" where
  "inode_update_mtime p = bnd gettimeofday (\<lambda>(sec, usec).
     upd_inode p (\<lambda>n. n\<lparr>mtime_sec := sec, mtime_nsec := usec * 1000\<rparr>))"

definition empty_inode :: fsinode where
  "empty_inode = \<lparr>inode_num = 0, refcount = 0, open_count = 0, itype = 0, imode = 0, iuid = 0, igid = 0,
     mtime_sec = 0, ctime_sec = 0, mtime_nsec = 0, ctime_nsec = 0,
     reg = \<lparr>rstate = REG_STATE_LOCAL, rsize = 0, fbuf = file_buffer_init, rbase_url = 0, rfile_id = 0,
            ropen_info = 0, is_fscmd = False\<rparr>,
     de_list = [], dir_size = 0, dev_major = 0, dev_minor = 0, symlink_name = None\<rparr>"

definition inode_new :: "u32 \<Rightarrow> u32 \<Rightarrow> u32 \<Rightarrow> u32 \<Rightarrow> ('k, ptr) fs_vm" where
  "inode_new type mode uid gid = bnd fresh (\<lambda>p. bnd (gets inode_num_alloc) (\<lambda>num.
     andthen (modify (\<lambda>s. s\<lparr>inodes := (inodes s)(p \<mapsto> empty_inode\<lparr>refcount := 1, inode_num := num, itype := type,
                imode := mode AND 0xfff, iuid := uid, igid := gid\<rparr>),
              inode_num_alloc := num + 1, inode_list := p # inode_list s\<rparr>))
     (andthen (add_inode_count 1)
     (andthen (inode_update_mtime p)
     (andthen (upd_inode p (\<lambda>n. n\<lparr>ctime_sec := mtime_sec n, ctime_nsec := mtime_nsec n\<rparr>))
     (ret p))))))"

section \<open>Directories\<close>

text \<open>\<open>sizeof(FSDirEntry) + strlen(name) + 1\<close> as an \<open>int\<close>; the header is 32 bytes on a 64-bit host.\<close>

definition dirent_size :: "bytes \<Rightarrow> int" where
  "dirent_size name = int_of_u32 (of_nat (32 + length name + 1))"

text \<open>Changing the size of a directory, and the blocks it counts for.\<close>

definition dir_resize :: "ptr \<Rightarrow> int \<Rightarrow> ('k, unit) fs_vm" where
  "dir_resize p d = bnd (inode_of p) (\<lambda>n. bnd (cint (dir_size n + d)) (\<lambda>new_size.
     bnd (gets (\<lambda>s. to_blocks s (word_of_int new_size) - to_blocks s (word_of_int (dir_size n)))) (\<lambda>db.
     andthen (add_blocks db) (upd_inode p (\<lambda>n. n\<lparr>dir_size := new_size\<rparr>)))))"

definition inode_dir_add :: "ptr \<Rightarrow> bytes \<Rightarrow> ptr \<Rightarrow> ('k, ptr) fs_vm" where
  "inode_dir_add p name p1 = bnd (inode_of p) (\<lambda>n. andthen (guard AssertFail (itype n = FT_DIR))
     (bnd fresh (\<lambda>de. andthen (modify (\<lambda>s. s\<lparr>dirents := (dirents s)(de \<mapsto> \<lparr>de_inode = p1, de_name = name\<rparr>)\<rparr>))
     (andthen (dir_resize p (dirent_size name))
     (andthen (upd_inode p (\<lambda>n. n\<lparr>de_list := de_list n @ [de]\<rparr>)) (ret de))))))"

text \<open>A \<open>list_for_each\<close> over the entries of a directory with an early return.\<close>

fun find_dirent :: "(fsdirentry \<Rightarrow> bool) \<Rightarrow> ptr list \<Rightarrow> ('k, ptr) fs_vm" where
  "find_dirent P [] = ret 0"
| "find_dirent P (d # ds) = bnd (dirent_of d) (\<lambda>de. if P de then ret d else find_dirent P ds)"

definition inode_search :: "ptr \<Rightarrow> bytes \<Rightarrow> ('k, ptr) fs_vm" where
  "inode_search p name = bnd (inode_of p) (\<lambda>n.
     if itype n \<noteq> FT_DIR then ret 0 else find_dirent (\<lambda>de. de_name de = name) (de_list n))"

text \<open>
  The loop of \<open>inode_search_path1\<close>, on the characters of the path left; a component of more than 1023
  characters does not fit the local buffer.
\<close>

function search_path_loop :: "ptr \<Rightarrow> bytes \<Rightarrow> ('k, ptr) fs_vm" where
  "search_path_loop n p =
     (let name = takeWhile (\<lambda>c. c \<noteq> SLASH) p in
      if 1023 < length name then ret 0
      else bnd (inode_of n) (\<lambda>i. if itype i \<noteq> FT_DIR then ret 0
        else bnd (inode_search n name) (\<lambda>de. if de = 0 then ret 0
          else bnd (dirent_of de) (\<lambda>d. case dropWhile (\<lambda>c. c \<noteq> SLASH) p of
              [] \<Rightarrow> ret (de_inode d)
            | _ # p1 \<Rightarrow> search_path_loop (de_inode d) p1))))"
  by pat_completeness auto
termination
  by (relation "measure (\<lambda>(_, p). length p)") (auto dest: dropWhile_rest_shorter)

declare search_path_loop.simps [simp del]

definition inode_search_path1 :: "ptr \<Rightarrow> bytes \<Rightarrow> ('k, ptr) fs_vm" where
  "inode_search_path1 n path =
     (let p = (if take 1 path = [SLASH] then tl path else path) in
      if p = [] then ret n else search_path_loop n p)"

definition inode_search_path :: "bytes \<Rightarrow> ('k, ptr) fs_vm" where
  "inode_search_path path = bnd (gets root_inode) (\<lambda>r. inode_search_path1 r path)"

abbreviation DOT :: bytes where "DOT \<equiv> [0x2e]"
abbreviation DOTDOT :: bytes where "DOTDOT \<equiv> [0x2e, 0x2e]"

definition is_empty_dir :: "ptr \<Rightarrow> ('k, bool) fs_vm" where
  "is_empty_dir p = bnd (inode_of p) (\<lambda>n.
     bnd (find_dirent (\<lambda>de. de_name de \<noteq> DOT \<and> de_name de \<noteq> DOTDOT) (de_list n)) (\<lambda>d. ret (d = 0)))"

definition inode_dirent_delete_no_decref :: "ptr \<Rightarrow> ptr \<Rightarrow> ('k, unit) fs_vm" where
  "inode_dirent_delete_no_decref p d = bnd (dirent_of d) (\<lambda>de.
     andthen (dir_resize p (- dirent_size (de_name de)))
     (bnd (inode_of p) (\<lambda>n. andthen (guard AssertFail (0 \<le> dir_size n))
     (bnd (gets fs_blocks) (\<lambda>b. andthen (guard AssertFail (0 \<le> b))
     (andthen (upd_inode p (\<lambda>n. n\<lparr>de_list := remove1 d (de_list n)\<rparr>))
     (modify (\<lambda>s. s\<lparr>dirents := (dirents s)(d := None)\<rparr>))))))))"

definition inode_dirent_delete :: "ptr \<Rightarrow> ptr \<Rightarrow> ('k, unit) fs_vm" where
  "inode_dirent_delete p d = bnd (dirent_of d) (\<lambda>de.
     andthen (inode_dirent_delete_no_decref p d) (inode_decref (de_inode de)))"

fun flush_entries :: "ptr \<Rightarrow> ptr list \<Rightarrow> ('k, unit) fs_vm" where
  "flush_entries p [] = ret ()"
| "flush_entries p (d # ds) = andthen (inode_dirent_delete p d) (flush_entries p ds)"

definition flush_dir :: "ptr \<Rightarrow> ('k, unit) fs_vm" where
  "flush_dir p = bnd (inode_of p) (\<lambda>n. andthen (flush_entries p (de_list n))
     (bnd (inode_of p) (\<lambda>n. guard AssertFail (dir_size n = 0))))"

definition inode_to_qid :: "fsinode \<Rightarrow> fsqid" where
  "inode_to_qid n = \<lparr>qtype = (if itype n = FT_DIR then P9_QTDIR else if itype n = FT_LNK then P9_QTSYMLINK else P9_QTFILE),
     qversion = 0, qpath = inode_num n\<rparr>"

end
