(* ===== verification/Fs_Load.thy ===== *)
theory Fs_Load
  imports Fs_Node
begin

text \<open>
  Model of the loading of file contents in \<open>src/src/fs_net.c\<close>: the cache of loaded files
  (\<open>fs_trim_cache\<close>), the transfers (\<open>fs_open_wget\<close>, \<open>fs_open_cb\<close>), archives and preloading, and the
  base URLs.  A transfer is an entry of \<open>xhrs\<close>; the data it delivers arrives as a call of
  \<open>fs_open_cb\<close>, in which the call of \<open>dump_loaded_file\<close>, always disabled, is left out.  The path functions of \<open>fs_utils.h\<close> and AES are outside the repository: they are the
  parameter \<open>net_lib\<close>.
\<close>

record 'k net_lib =
  nl_aes :: "'k aes_lib"
  compose_path :: "bytes \<Rightarrow> bytes \<Rightarrow> bytes"
  file_id_to_filename :: "u64 \<Rightarrow> bytes"

section \<open>Cache\<close>

definition cache_fits :: "int \<Rightarrow> ('k, bool) fs_vm" where
  "cache_fits added_size = bnd (gets (\<lambda>s. (inode_cache_size s, inode_cache_size_limit s))) (\<lambda>(c, l).
     bnd (cint64 (c + added_size)) (\<lambda>t. ret (t \<le> l)))"

fun trim_cache_list :: "int \<Rightarrow> ptr list \<Rightarrow> ('k, unit) fs_vm" where
  "trim_cache_list added_size [] = ret ()"
| "trim_cache_list added_size (el # els) = bnd (inode_of el) (\<lambda>n.
     andthen (guard AssertFail (rstate (reg n) = REG_STATE_LOADED))
     (if open_count n \<noteq> 0 then trim_cache_list added_size els
      else andthen (file_buffer_reset el)
        (andthen (upd_reg el (\<lambda>r. r\<lparr>rstate := REG_STATE_UNLOADED\<rparr>))
        (andthen (cache_unlink el (rsize (reg n)))
        (bnd (cache_fits added_size) (\<lambda>ok. if ok then ret () else trim_cache_list added_size els))))))"

definition fs_trim_cache :: "int \<Rightarrow> ('k, unit) fs_vm" where
  "fs_trim_cache added_size = bnd (cache_fits added_size) (\<lambda>ok.
     if ok then ret () else bnd (gets inode_cache_list) (\<lambda>l. trim_cache_list added_size (rev l)))"

section \<open>Transfers\<close>

definition fs_open_write_cb :: "ptr \<Rightarrow> bytes \<Rightarrow> ('k, int) fs_vm" where
  "fs_open_write_cb p data = bnd (open_info_of p) (\<lambda>oi. bnd (inode_of (oi_n oi)) (\<lambda>n.
     let len = rsize (reg n) - cur_pos oi;
         len = (if of_nat (length data) < len then of_nat (length data) else len) in
     andthen (file_buffer_write (oi_n oi) (cur_pos oi) (take (unat len) data))
     (andthen (upd_open_info p (\<lambda>oi. oi\<lparr>cur_pos := cur_pos oi + len\<rparr>)) (ret 0))))"

definition fs_wget_set_loaded :: "ptr \<Rightarrow> ('k, unit) fs_vm" where
  "fs_wget_set_loaded p = bnd (inode_of p) (\<lambda>n. andthen (guard AssertFail (rstate (reg n) = REG_STATE_LOADING))
     (bnd (open_info_of (ropen_info (reg n))) (\<lambda>oi.
      andthen (upd_reg p (\<lambda>r. r\<lparr>rstate := REG_STATE_LOADED\<rparr>))
      (andthen (modify (\<lambda>s. s\<lparr>inode_cache_list := p # inode_cache_list s\<rparr>))
      (andthen (add_cache_size (rsize (reg n)))
      (andthen (case oi_cb oi of None \<Rightarrow> ret ()
         | Some opaque \<Rightarrow> andthen (upd_file (oi_f oi) (\<lambda>f. f\<lparr>is_opened := True\<rparr>))
             (modify (\<lambda>s. s\<lparr>completions := completions s @ [(opaque, Some (inode_to_qid n), 0)]\<rparr>)))
      (fs_open_end (ropen_info (reg n)))))))))"

text \<open>Copying a file out of its archive, 1024 bytes at a time.\<close>

definition archive_copy_step :: "ptr \<Rightarrow> ptr \<Rightarrow> u64 \<times> u64 \<Rightarrow> ('k, (u64 \<times> u64, unit) step) fs_vm" where
  "archive_copy_step n n1 = (\<lambda>(pos, pos1). bnd (inode_of n1) (\<lambda>i1.
     if pos1 < rsize (reg i1) then
       let l = rsize (reg i1) - pos1; l = (if 1024 < l then 1024 else l) in
       bnd (file_buffer_read n pos l) (\<lambda>buf. andthen (file_buffer_write n1 pos1 buf) (ret (Again (pos + l, pos1 + l))))
     else ret (Done ())))"

fun read_archive_files :: "ptr \<Rightarrow> ptr list \<Rightarrow> ('k, unit) fs_vm" where
  "read_archive_files n [] = ret ()"
| "read_archive_files n (el # els) = bnd (open_info_of el) (\<lambda>oi1.
     andthen (loop (archive_copy_step n (oi_n oi1)) (archive_offset oi1, 0))
     (andthen (fs_wget_set_loaded (oi_n oi1)) (read_archive_files n els)))"

definition fs_read_archive :: "ptr \<Rightarrow> ('k, unit) fs_vm" where
  "fs_read_archive p = bnd (open_info_of p) (\<lambda>oi. read_archive_files (oi_n oi) (archive_file_list oi))"

text \<open>
  Running the decryption of a transfer: its state lives in the \<open>FSOpenInfo\<close>, its key in the base URL, and its
  callback is \<open>fs_open_write_cb\<close>.
\<close>

definition run_decrypt :: "ptr \<Rightarrow> ('k \<Rightarrow> ('k fsdevicemem, int) dec_vm) \<Rightarrow> ('k, int) fs_vm" where
  "run_decrypt p m = bnd (open_info_of p) (\<lambda>oi. case oi_dec oi of None \<Rightarrow> fault NullDeref
     | Some (d, bu) \<Rightarrow> bnd (base_url_of bu) (\<lambda>b. case bu_aes_state b of None \<Rightarrow> fault NullDeref
         | Some key \<Rightarrow> (\<lambda>s. case m key (d, s) of None \<Rightarrow> None | Some (Inl f) \<Rightarrow> Some (Inl f)
             | Some (Inr (r, (d', s'))) \<Rightarrow>
                 andthen (upd_open_info p (\<lambda>oi. oi\<lparr>oi_dec := Some (d', bu)\<rparr>)) (ret r) s')))"

definition fs_open_error :: "ptr \<Rightarrow> fsopeninfo \<Rightarrow> ('k, unit) fs_vm" where
  "fs_open_error p oi = andthen (if oi_type oi = FS_OPEN_WGET_ARCHIVE then fs_error_archive p else ret ())
     (fs_wget_set_error (oi_n oi))"

definition fs_open_done :: "ptr \<Rightarrow> ('k, unit) fs_vm" where
  "fs_open_done p = bnd (open_info_of p) (\<lambda>oi. bnd (inode_of (oi_n oi)) (\<lambda>n.
     if cur_pos oi \<noteq> rsize (reg n) then fs_open_error p oi
     else andthen (if oi_type oi = FS_OPEN_WGET_ARCHIVE then fs_read_archive p else ret ())
       (fs_wget_set_loaded (oi_n oi))))"

definition fs_open_cb :: "'k net_lib \<Rightarrow> ptr \<Rightarrow> int \<Rightarrow> bytes \<Rightarrow> ('k, unit) fs_vm" where
  "fs_open_cb lib p err data = bnd (open_info_of p) (\<lambda>oi.
     if err < 0 then fs_open_error p oi
     else bnd (if oi_dec oi \<noteq> None then
            bnd (run_decrypt p (\<lambda>key. decrypt_file (nl_aes lib) key (fs_open_write_cb p) data)) (\<lambda>r.
              if r < 0 then ret r
              else if err = 0 then run_decrypt p (\<lambda>key. decrypt_file_flush (nl_aes lib) key (fs_open_write_cb p))
              else ret r)
          else fs_open_write_cb p data) (\<lambda>r.
       if r < 0 then fs_open_error p oi
       else if err = 0 then fs_open_done p
       else ret ()))"

definition empty_open_info :: fsopeninfo where
  "empty_open_info = \<lparr>oi_type = FS_OPEN_WGET_REG, oi_xhr = 0, oi_n = 0, oi_dec = None, cur_pos = 0, archive_offset = 0,
     archive_file_list = [], oi_f = 0, oi_cb = None\<rparr>"

definition fs_wget2 :: "bytes \<Rightarrow> bytes option \<Rightarrow> bytes option \<Rightarrow> u64 \<Rightarrow> xhr_client \<Rightarrow> ('k, ptr) fs_vm" where
  "fs_wget2 url user password post_data_len opaque = bnd fresh (\<lambda>x.
     andthen (modify (\<lambda>s. s\<lparr>xhrs := (xhrs s)(x \<mapsto> \<lparr>xhr_url = url, xhr_user = user, xhr_password = password,
        xhr_post_len = post_data_len, xhr_opaque = opaque\<rparr>)\<rparr>)) (ret x))"

definition fs_wget :: "bytes \<Rightarrow> bytes option \<Rightarrow> bytes option \<Rightarrow> xhr_client \<Rightarrow> ('k, ptr) fs_vm" where
  "fs_wget url user password opaque = fs_wget2 url user password 0 opaque"

definition fs_open_wget :: "'k net_lib \<Rightarrow> ptr \<Rightarrow> fs_open_wget_type \<Rightarrow> ('k, int) fs_vm" where
  "fs_open_wget lib p open_type = bnd (inode_of p) (\<lambda>n.
     andthen (guard AssertFail (rstate (reg n) = REG_STATE_UNLOADED))
     (andthen (fs_trim_cache (sint (rsize (reg n))))
     (bnd (file_buffer_resize p (rsize (reg n))) (\<lambda>r. if r < 0 then ret (- P9_EIO)
      else andthen (upd_reg p (\<lambda>r. r\<lparr>rstate := REG_STATE_LOADING\<rparr>))
        (bnd fresh (\<lambda>oi.
         andthen (modify (\<lambda>s. s\<lparr>open_infos := (open_infos s)(oi \<mapsto> empty_open_info\<lparr>oi_n := p, oi_type := open_type\<rparr>)\<rparr>))
         (andthen
           (if open_type \<noteq> FS_OPEN_WGET_ARCHIVE_FILE then
              bnd (base_url_of (rbase_url (reg n))) (\<lambda>bu.
              andthen (if bu_encrypted bu
                then upd_open_info oi (\<lambda>o1. o1\<lparr>oi_dec := Some (decrypt_file_init, rbase_url (reg n))\<rparr>) else ret ())
              (bnd (fs_wget (compose_path lib (bu_url bu) (file_id_to_filename lib (rfile_id (reg n))))
                     (bu_user bu) (bu_password bu) (Open_Info oi)) (\<lambda>x.
               upd_open_info oi (\<lambda>o1. o1\<lparr>oi_xhr := x\<rparr>))))
            else ret ())
         (andthen (upd_reg p (\<lambda>r. r\<lparr>ropen_info := oi\<rparr>)) (ret 0)))))))))"

section \<open>Preloading\<close>

definition is_unloaded :: "ptr \<Rightarrow> ('k, bool) fs_vm" where
  "is_unloaded n = (if n = 0 then ret False
     else bnd (inode_of n) (\<lambda>i. ret (itype i = FT_REG \<and> rstate (reg i) = REG_STATE_UNLOADED)))"

definition fs_preload_file :: "'k net_lib \<Rightarrow> bytes \<Rightarrow> ('k, unit) fs_vm" where
  "fs_preload_file lib filename = bnd (inode_search_path filename) (\<lambda>n. bnd (is_unloaded n) (\<lambda>u.
     if u then andthen (fs_open_wget lib n FS_OPEN_WGET_REG) (ret ()) else ret ()))"

definition find_preload_archive :: "bytes \<Rightarrow> ('k, preload_archive option) fs_vm" where
  "find_preload_archive filename = gets (\<lambda>s. find (\<lambda>pa. pa_name pa = filename) (preload_archive_list s))"

fun preload_separately :: "'k net_lib \<Rightarrow> preload_archive_file list \<Rightarrow> ('k, unit) fs_vm" where
  "preload_separately lib [] = ret ()"
| "preload_separately lib (paf # pafs) = andthen (fs_preload_file lib (paf_name paf)) (preload_separately lib pafs)"

text \<open>The first pass over the files of an archive: whether one is unloaded, and the sum of the sizes.\<close>

fun archive_survey :: "preload_archive_file list \<Rightarrow> bool \<Rightarrow> u64 \<Rightarrow> ('k, bool \<times> u64) fs_vm" where
  "archive_survey [] has_unloaded offset = ret (has_unloaded, offset)"
| "archive_survey (paf # pafs) has_unloaded offset = bnd (inode_search_path (paf_name paf)) (\<lambda>n1. bnd (is_unloaded n1) (\<lambda>u.
     archive_survey pafs (has_unloaded \<or> u) (offset + paf_size paf)))"

text \<open>The second pass: the unloaded files whose size and id agree join the transfer of the archive \<open>n\<close>.\<close>

fun archive_join :: "'k net_lib \<Rightarrow> ptr \<Rightarrow> preload_archive_file list \<Rightarrow> u64 \<Rightarrow> ('k, unit) fs_vm" where
  "archive_join lib n [] offset = ret ()"
| "archive_join lib n (paf # pafs) offset = bnd (inode_search_path (paf_name paf)) (\<lambda>n1. bnd (is_unloaded n1) (\<lambda>u.
     andthen
       (if u then bnd (inode_of n1) (\<lambda>i1.
          if rsize (reg i1) = paf_size paf \<and> rfile_id (reg i1) = paf_file_id paf then
            andthen (fs_open_wget lib n1 FS_OPEN_WGET_ARCHIVE_FILE)
            (bnd (inode_of n1) (\<lambda>i1. bnd (open_info_of (ropen_info (reg i1))) (\<lambda>_. bnd (inode_of n) (\<lambda>i.
             andthen (upd_open_info (ropen_info (reg i)) (\<lambda>oi. oi\<lparr>archive_file_list := archive_file_list oi @ [ropen_info (reg i1)]\<rparr>))
             (upd_open_info (ropen_info (reg i1)) (\<lambda>oi. oi\<lparr>archive_offset := offset\<rparr>))))))
          else fs_preload_file lib (paf_name paf))
        else ret ())
     (archive_join lib n pafs (offset + paf_size paf))))"

definition fs_preload_archive :: "'k net_lib \<Rightarrow> bytes \<Rightarrow> ('k, unit) fs_vm" where
  "fs_preload_archive lib filename = bnd (find_preload_archive filename) (\<lambda>pa. case pa of None \<Rightarrow> ret ()
     | Some pa \<Rightarrow> bnd (inode_search_path filename) (\<lambda>n. bnd (is_unloaded n) (\<lambda>u.
         if u then bnd (archive_survey (pa_files pa) False 0) (\<lambda>(has_unloaded, offset).
           if \<not> has_unloaded then ret ()
           else bnd (inode_of n) (\<lambda>i. if offset \<noteq> rsize (reg i) then preload_separately lib (pa_files pa)
             else andthen (fs_open_wget lib n FS_OPEN_WGET_ARCHIVE) (archive_join lib n (pa_files pa) 0)))
         else preload_separately lib (pa_files pa))))"

fun preload_each :: "'k net_lib \<Rightarrow> preload_file list \<Rightarrow> ('k, unit) fs_vm" where
  "preload_each lib [] = ret ()"
| "preload_each lib (pf # pfs) =
     andthen (if pf_is_archive pf then fs_preload_archive lib (pf_name pf) else fs_preload_file lib (pf_name pf))
     (preload_each lib pfs)"

definition fs_preload_files :: "'k net_lib \<Rightarrow> u64 \<Rightarrow> ('k, unit) fs_vm" where
  "fs_preload_files lib file_id = bnd (gets preload_list) (\<lambda>l. case find (\<lambda>pe. pe_file_id pe = file_id) l of
     None \<Rightarrow> ret () | Some pe \<Rightarrow> preload_each lib (pe_files pe))"

section \<open>Base URLs\<close>

fun find_base_url :: "bytes \<Rightarrow> ptr list \<Rightarrow> ('k, ptr) fs_vm" where
  "find_base_url ident [] = ret 0"
| "find_base_url ident (p # ps) = bnd (base_url_of p) (\<lambda>b. if base_url_id b = ident then ret p else find_base_url ident ps)"

definition fs_find_base_url :: "bytes \<Rightarrow> ('k, ptr) fs_vm" where
  "fs_find_base_url ident = bnd (gets base_url_list) (find_base_url ident)"

definition fs_net_set_base_url ::
  "bytes \<Rightarrow> bytes \<Rightarrow> bytes option \<Rightarrow> bytes option \<Rightarrow> 'k option \<Rightarrow> ('k, ptr) fs_vm" where
  "fs_net_set_base_url ident url user password aes_state = bnd (fs_find_base_url ident) (\<lambda>bu0.
     bnd (if bu0 = 0 then bnd fresh (\<lambda>p.
            andthen (modify (\<lambda>s. s\<lparr>base_urls := (base_urls s)(p \<mapsto> \<lparr>bu_ref_count = 1, base_url_id = ident, bu_url = [],
                bu_user = None, bu_password = None, bu_encrypted = False, bu_aes_state = None\<rparr>),
              base_url_list := base_url_list s @ [p]\<rparr>)) (ret p))
          else ret bu0) (\<lambda>bu.
     andthen (upd_base_url bu (\<lambda>b. b\<lparr>bu_url := url, bu_user := user, bu_password := password,
         bu_encrypted := (aes_state \<noteq> None),
         bu_aes_state := (case aes_state of None \<Rightarrow> bu_aes_state b | Some k \<Rightarrow> Some k)\<rparr>)) (ret bu)))"

definition fs_net_reset_base_url :: "bytes \<Rightarrow> ('k, int) fs_vm" where
  "fs_net_reset_base_url ident = bnd (fs_find_base_url ident) (\<lambda>bu.
     if bu = 0 then ret (- P9_ENOENT) else andthen (fs_base_url_decref bu) (ret 0))"

definition fs_net_set_fs_max_size :: "u64 \<Rightarrow> ('k, unit) fs_vm" where
  "fs_net_set_fs_max_size fs_max_size = modify (\<lambda>s. s\<lparr>fs_max_blocks := word_of_int (to_blocks s fs_max_size)\<rparr>)"

definition fs_net_set_url :: "ptr \<Rightarrow> bytes \<Rightarrow> u64 \<Rightarrow> u64 \<Rightarrow> ('k, int) fs_vm" where
  "fs_net_set_url p ident file_id sz = bnd (fs_find_base_url ident) (\<lambda>bu.
     if bu = 0 then ret (- P9_ENOENT)
     else bnd (inode_of p) (\<lambda>n.
       if itype n \<noteq> FT_REG \<or> rstate (reg n) \<noteq> REG_STATE_LOCAL \<or> allocated_size (fbuf (reg n)) \<noteq> 0 then ret (- P9_EIO)
       else if 0 < sz then
         andthen (upd_reg p (\<lambda>r. r\<lparr>rstate := REG_STATE_UNLOADED, rbase_url := bu\<rparr>))
         (bnd (base_url_of bu) (\<lambda>b. bnd (cint (bu_ref_count b + 1)) (\<lambda>c.
          andthen (upd_base_url bu (\<lambda>b. b\<lparr>bu_ref_count := c\<rparr>))
          (andthen (upd_reg p (\<lambda>r. r\<lparr>rsize := sz\<rparr>))
          (bnd (gets (\<lambda>s. to_blocks s sz)) (\<lambda>b. andthen (add_blocks b)
          (andthen (upd_reg p (\<lambda>r. r\<lparr>rfile_id := file_id\<rparr>)) (ret 0))))))))
       else ret 0))"

end
