(* ===== verification/Fs_Mem.thy ===== *)
theory Fs_Mem
  imports Fs_Load
begin

text \<open>
  Model of the file system operations of \<open>src/src/fs_net.c\<close>: the functions \<open>fs_mem_init\<close> installs in an
  \<open>FSDevice\<close>.  A file handle (\<open>FSFile *\<close>) is an address of the heap \<open>files\<close>.  Names clash with the
  fields of \<open>FSDevice\<close> and carry the suffix \<open>_mem\<close>.  Writing to the command file is a parameter of
  \<open>fs_write_mem\<close>, which theory \<open>Fs_Cmd\<close> instantiates.
\<close>

abbreviation P9_O_NOACCESS :: u32 where "P9_O_NOACCESS \<equiv> 3"
abbreviation P9_O_RDONLY :: u32 where "P9_O_RDONLY \<equiv> 0"
abbreviation P9_O_WRONLY :: u32 where "P9_O_WRONLY \<equiv> 1"
abbreviation P9_O_TRUNC :: u32 where "P9_O_TRUNC \<equiv> 0x200"
abbreviation P9_O_DIRECTORY :: u32 where "P9_O_DIRECTORY \<equiv> 0x10000"

text \<open>What a \<open>FSQID\<close> variable holds that a call leaves unset.\<close>

definition unset_qid :: fsqid where
  "unset_qid = \<lparr>qtype = 0, qversion = 0, qpath = 0\<rparr>"

section \<open>Handles\<close>

text \<open>\<open>fs_cmd_close\<close>: the request of a handle of the command file.\<close>

definition fs_cmd_close :: "ptr \<Rightarrow> ('k, unit) fs_vm" where
  "fs_cmd_close f = bnd (file_of f) (\<lambda>fl. if f_req fl = 0 then ret ()
     else bnd (load requests (f_req fl)) (\<lambda>req.
       andthen (if req_xhr_state req \<noteq> 0 then bnd (load cmd_xhrs (req_xhr_state req)) (\<lambda>x.
           modify (\<lambda>s. s\<lparr>cmd_xhrs := (cmd_xhrs s)(req_xhr_state req \<mapsto> x\<lparr>cx_req_fd := 0\<rparr>)\<rparr>)) else ret ())
       (andthen (modify (\<lambda>s. s\<lparr>requests := (requests s)(f_req fl := None)\<rparr>))
       (upd_file f (\<lambda>fl. fl\<lparr>f_req := 0\<rparr>)))))"

definition fs_close_mem :: "ptr \<Rightarrow> ('k, unit) fs_vm" where
  "fs_close_mem f = bnd (file_of f) (\<lambda>fl.
     andthen (if is_opened fl then upd_file f (\<lambda>fl. fl\<lparr>is_opened := False\<rparr>) else ret ())
     (if f_req fl \<noteq> 0 then fs_cmd_close f else ret ()))"

definition fs_delete_mem :: "ptr \<Rightarrow> ('k, unit) fs_vm" where
  "fs_delete_mem f = andthen (fs_close_mem f) (bnd (file_of f) (\<lambda>fl.
     andthen (inode_dec_open (f_inode fl)) (modify (\<lambda>s. s\<lparr>files := (files s)(f := None)\<rparr>))))"

definition fid_create :: "ptr \<Rightarrow> u32 \<Rightarrow> ('k, ptr) fs_vm" where
  "fid_create n uid = bnd fresh (\<lambda>f. bnd (inode_inc_open n) (\<lambda>n.
     andthen (modify (\<lambda>s. s\<lparr>files := (files s)(f \<mapsto> \<lparr>f_uid = uid, f_inode = n, is_opened = False, open_flags = 0, f_req = 0\<rparr>)\<rparr>))
     (ret f)))"

definition fs_statfs_mem :: "('k, fsstatfs) fs_vm" where
  "fs_statfs_mem = gets (\<lambda>s.
     let bfree = push_bit (block_size_log2 s - 10) (fs_max_blocks s - word_of_int (fs_blocks s)) in
     \<lparr>f_bsize = 1024, f_blocks = push_bit (block_size_log2 s - 10) (fs_max_blocks s), f_bfree = bfree, f_bavail = bfree,
      f_files = inode_limit s, f_ffree = inode_limit s - word_of_int (inode_count s)\<rparr>)"

definition fs_attach_mem :: "u32 \<Rightarrow> ('k, int \<times> ptr \<times> fsqid) fs_vm" where
  "fs_attach_mem uid = bnd (gets root_inode) (\<lambda>r. bnd (fid_create r uid) (\<lambda>f. bnd (inode_of r) (\<lambda>n.
     ret (0, f, inode_to_qid n))))"

fun walk_names :: "ptr \<Rightarrow> bytes list \<Rightarrow> fsqid list \<Rightarrow> ('k, ptr \<times> fsqid list) fs_vm" where
  "walk_names n [] qids = ret (n, qids)"
| "walk_names n (name # names) qids = bnd (inode_search n name) (\<lambda>de.
     if de = 0 then ret (n, qids)
     else bnd (dirent_of de) (\<lambda>d. bnd (inode_of (de_inode d)) (\<lambda>i.
       walk_names (de_inode d) names (qids @ [inode_to_qid i]))))"

definition fs_walk_mem :: "ptr \<Rightarrow> bytes list \<Rightarrow> ('k, int \<times> ptr \<times> fsqid list) fs_vm" where
  "fs_walk_mem f names = bnd (file_of f) (\<lambda>fl. bnd (walk_names (f_inode fl) names []) (\<lambda>(n, qids).
     bnd (fid_create n (f_uid fl)) (\<lambda>pf. ret (int (length qids), pf, qids))))"

section \<open>Creating\<close>

definition fs_mkdir_mem :: "ptr \<Rightarrow> bytes \<Rightarrow> u32 \<Rightarrow> u32 \<Rightarrow> ('k, int \<times> fsqid) fs_vm" where
  "fs_mkdir_mem f name mode gid = bnd (file_of f) (\<lambda>fl. bnd (inode_of (f_inode fl)) (\<lambda>n.
     if itype n \<noteq> FT_DIR then ret (- P9_ENOTDIR, unset_qid)
     else bnd (inode_search (f_inode fl) name) (\<lambda>de. if de \<noteq> 0 then ret (- P9_EEXIST, unset_qid)
     else bnd (inode_new FT_DIR mode (f_uid fl) gid) (\<lambda>n1.
       bnd (inode_incref n1) (\<lambda>a. andthen (inode_dir_add n1 DOT a)
       (bnd (inode_incref (f_inode fl)) (\<lambda>b. andthen (inode_dir_add n1 DOTDOT b)
       (andthen (inode_dir_add (f_inode fl) name n1)
       (bnd (inode_of n1) (\<lambda>i. ret (0, inode_to_qid i)))))))))))"

definition fs_create_mem :: "ptr \<Rightarrow> bytes \<Rightarrow> u32 \<Rightarrow> u32 \<Rightarrow> u32 \<Rightarrow> ('k, int \<times> fsqid) fs_vm" where
  "fs_create_mem f name flags mode gid = bnd (file_of f) (\<lambda>fl. bnd (inode_of (f_inode fl)) (\<lambda>n.
     if itype n \<noteq> FT_DIR then ret (- P9_ENOTDIR, unset_qid)
     else bnd (inode_search (f_inode fl) name) (\<lambda>de. if de \<noteq> 0 then ret (- P9_EEXIST, unset_qid)
     else andthen (fs_close_mem f)
       (bnd (inode_new FT_REG mode (f_uid fl) gid) (\<lambda>n1.
        andthen (inode_dir_add (f_inode fl) name n1)
        (andthen (inode_dec_open (f_inode fl))
        (bnd (inode_inc_open n1) (\<lambda>n1.
         andthen (upd_file f (\<lambda>fl. fl\<lparr>f_inode := n1, is_opened := True, open_flags := flags\<rparr>))
         (bnd (inode_of n1) (\<lambda>i. ret (0, inode_to_qid i)))))))))))"

definition fs_link_mem :: "ptr \<Rightarrow> ptr \<Rightarrow> bytes \<Rightarrow> ('k, int) fs_vm" where
  "fs_link_mem df f name = bnd (file_of df) (\<lambda>dfl. bnd (file_of f) (\<lambda>fl. bnd (inode_of (f_inode fl)) (\<lambda>i.
     if itype i = FT_DIR then ret (- P9_EPERM)
     else bnd (inode_search (f_inode dfl) name) (\<lambda>de. if de \<noteq> 0 then ret (- P9_EEXIST)
     else bnd (inode_incref (f_inode fl)) (\<lambda>n1. andthen (inode_dir_add (f_inode dfl) name n1) (ret 0))))))"

definition fs_symlink_mem :: "ptr \<Rightarrow> bytes \<Rightarrow> bytes \<Rightarrow> u32 \<Rightarrow> ('k, int \<times> fsqid) fs_vm" where
  "fs_symlink_mem f name symgt gid = bnd (file_of f) (\<lambda>fl.
     bnd (inode_search (f_inode fl) name) (\<lambda>de. if de \<noteq> 0 then ret (- P9_EEXIST, unset_qid)
     else bnd (inode_new FT_LNK 0x1ff (f_uid fl) gid) (\<lambda>n1.
       andthen (upd_inode n1 (\<lambda>i. i\<lparr>symlink_name := Some symgt\<rparr>))
       (andthen (inode_dir_add (f_inode fl) name n1)
       (bnd (inode_of n1) (\<lambda>i. ret (0, inode_to_qid i)))))))"

definition fs_mknod_mem :: "ptr \<Rightarrow> bytes \<Rightarrow> u32 \<Rightarrow> u32 \<Rightarrow> u32 \<Rightarrow> u32 \<Rightarrow> ('k, int \<times> fsqid) fs_vm" where
  "fs_mknod_mem f name mode major minor gid = bnd (file_of f) (\<lambda>fl.
     let type = drop_bit 12 (mode AND 0xf000) in
     if type \<notin> {FT_FIFO, FT_CHR, FT_BLK, FT_REG, FT_SOCK} then ret (- P9_EINVAL, unset_qid)
     else bnd (inode_search (f_inode fl) name) (\<lambda>de. if de \<noteq> 0 then ret (- P9_EEXIST, unset_qid)
     else bnd (inode_new type mode (f_uid fl) gid) (\<lambda>n1.
       andthen (if type = FT_CHR \<or> type = FT_BLK then upd_inode n1 (\<lambda>i. i\<lparr>dev_major := major, dev_minor := minor\<rparr>) else ret ())
       (andthen (inode_dir_add (f_inode fl) name n1)
       (bnd (inode_of n1) (\<lambda>i. ret (0, inode_to_qid i)))))))"

section \<open>Contents\<close>

definition fs_truncate :: "ptr \<Rightarrow> u64 \<Rightarrow> ('k, int) fs_vm" where
  "fs_truncate p sz = bnd (inode_of p) (\<lambda>n.
     if itype n \<noteq> FT_REG then ret (- P9_EINVAL)
     else let r = reg n; diff = sint (sz - rsize r) in
       if diff = 0 then ret 0
       else bnd (gets (\<lambda>s. (to_blocks s sz - to_blocks s (rsize r), fs_blocks s, fs_max_blocks s))) (\<lambda>(d, b, m).
         bnd (cint64 d) (\<lambda>diff_blocks.
         let finish = andthen (add_blocks diff_blocks) (bnd (gets fs_blocks) (\<lambda>b. andthen (guard AssertFail (0 \<le> b))
               (andthen (upd_reg p (\<lambda>r. r\<lparr>rsize := sz\<rparr>)) (ret 0))));
             localise = (if rstate r = REG_STATE_LOADED
               then andthen (cache_unlink p (rsize r)) (upd_reg p (\<lambda>r. r\<lparr>rstate := REG_STATE_LOCAL\<rparr>)) else ret ())
         in case rstate r of
           REG_STATE_LOADING \<Rightarrow> ret (- P9_EIO)
         | REG_STATE_UNLOADED \<Rightarrow>
             andthen (if sz = 0 then upd_reg p (\<lambda>r. r\<lparr>rstate := REG_STATE_LOCAL\<rparr>) else ret ()) finish
         | _ \<Rightarrow>
             if 0 < diff then
               bnd (cint64 (b + diff_blocks)) (\<lambda>t. if m < word_of_int t then ret (- P9_ENOSPC)
               else bnd (if allocated_size (fbuf r) < sz then
                    let na = allocated_size (fbuf r) * 5 div 4 in file_buffer_resize p (if na < sz then sz else na)
                  else ret 0) (\<lambda>e. if e < 0 then ret (- P9_ENOSPC)
                  else andthen (file_buffer_set p (rsize r) 0 (sz - rsize r)) (andthen localise finish)))
             else
               let na = allocated_size (fbuf r) * 4 div 5 in
               bnd (if sz \<le> na then file_buffer_resize p na else ret 0) (\<lambda>e. if e < 0 then ret (- P9_ENOSPC)
                 else andthen localise finish))))"

definition fs_open_mem :: "'k net_lib \<Rightarrow> ptr \<Rightarrow> u32 \<Rightarrow> nat option \<Rightarrow> ('k, int \<times> fsqid) fs_vm" where
  "fs_open_mem lib f flags opaque = bnd (file_of f) (\<lambda>fl. let p = f_inode fl in
     andthen (fs_close_mem f) (bnd (inode_of p) (\<lambda>n.
     if flags AND P9_O_DIRECTORY \<noteq> 0 \<and> itype n \<noteq> FT_DIR then ret (- P9_ENOTDIR, unset_qid)
     else if flags AND P9_O_DIRECTORY = 0 \<and> itype n \<noteq> FT_REG \<and> itype n \<noteq> FT_DIR then ret (- P9_EINVAL, unset_qid)
     else andthen (upd_file f (\<lambda>fl. fl\<lparr>open_flags := flags\<rparr>))
       (let do_open = andthen (upd_file f (\<lambda>fl. fl\<lparr>is_opened := True\<rparr>)) (bnd (inode_of p) (\<lambda>n. ret (0, inode_to_qid n)));
            set_cb = bnd (inode_of p) (\<lambda>n. andthen (upd_open_info (ropen_info (reg n)) (\<lambda>oi. oi\<lparr>oi_f := f, oi_cb := opaque\<rparr>))
              (ret (1, unset_qid)));
            handle_loading = bnd (inode_of p) (\<lambda>n. bnd (open_info_of (ropen_info (reg n))) (\<lambda>oi.
              if oi_cb oi \<noteq> None then ret (- P9_EIO, unset_qid) else set_cb))
        in if itype n = FT_REG then
          andthen (if flags AND P9_O_TRUNC \<noteq> 0 \<and> flags AND P9_O_NOACCESS \<noteq> P9_O_RDONLY
              then andthen (fs_truncate p 0) (ret ()) else ret ())
          (bnd (inode_of p) (\<lambda>n. case rstate (reg n) of
             REG_STATE_UNLOADED \<Rightarrow> andthen (fs_preload_files lib (rfile_id (reg n)))
               (bnd (inode_of p) (\<lambda>n. if rstate (reg n) = REG_STATE_LOADING then handle_loading
                else bnd (fs_open_wget lib p FS_OPEN_WGET_REG) (\<lambda>r. if r \<noteq> 0 then ret (r, unset_qid) else set_cb)))
           | REG_STATE_LOADING \<Rightarrow> handle_loading
           | REG_STATE_LOCAL \<Rightarrow> do_open
           | REG_STATE_LOADED \<Rightarrow> andthen (modify (\<lambda>s. s\<lparr>inode_cache_list := p # remove1 p (inode_cache_list s)\<rparr>)) do_open))
        else do_open))))"

text \<open>One directory entry as \<open>fs_readdir\<close> stores it.\<close>

definition readdir_entry :: "fsinode \<Rightarrow> u64 \<Rightarrow> bytes \<Rightarrow> bytes" where
  "readdir_entry n1 offset name =
     [if itype n1 = FT_DIR then P9_QTDIR else if itype n1 = FT_LNK then P9_QTSYMLINK else P9_QTFILE]
     @ put_le32 0 @ put_le64 (inode_num n1) @ put_le64 offset @ [ucast (itype n1)] @ put_le16 (of_nat (length name)) @ name"

fun readdir_loop :: "ptr list \<Rightarrow> u64 \<Rightarrow> int \<Rightarrow> int \<Rightarrow> bytes \<Rightarrow> ('k, int \<times> bytes) fs_vm" where
  "readdir_loop [] offset pos count buf = ret (pos, buf)"
| "readdir_loop (el # els) offset pos count buf = bnd (dirent_of el) (\<lambda>de.
     let name_len = int_of_u32 (of_nat (length (de_name de))) in
     bnd (cint (13 + 8 + 1 + 2 + name_len)) (\<lambda>len. bnd (cint (pos + len)) (\<lambda>end_pos.
     if count < end_pos then ret (pos, buf)
     else bnd (inode_of (de_inode de)) (\<lambda>n1.
       bnd (lift (poke buf pos (readdir_entry n1 (offset + 1) (de_name de)))) (\<lambda>buf.
       readdir_loop els (offset + 1) end_pos count buf)))))"

definition fs_readdir_mem :: "ptr \<Rightarrow> u64 \<Rightarrow> bytes \<Rightarrow> int \<Rightarrow> ('k, int \<times> bytes) fs_vm" where
  "fs_readdir_mem f offset1 buf count = bnd (file_of f) (\<lambda>fl. if \<not> is_opened fl then ret (- P9_EPROTO, buf) else bnd (inode_of (f_inode fl)) (\<lambda>n.
     if itype n \<noteq> FT_DIR then ret (- P9_EPROTO, buf)
     else if length (de_list n) < unat offset1 then ret (0, buf)
     else readdir_loop (drop (unat offset1) (de_list n)) offset1 0 count buf))"

definition fs_cmd_read :: "ptr \<Rightarrow> bytes \<Rightarrow> int \<Rightarrow> ('k, int \<times> bytes) fs_vm" where
  "fs_cmd_read f buf buf_len = bnd (file_of f) (\<lambda>fl. if f_req fl = 0 then ret (- P9_EIO, buf)
     else bnd (load requests (f_req fl)) (\<lambda>req. let l = min_int (reply_len req) buf_len in
       andthen (guard OutOfBounds (0 \<le> l))
       (bnd (lift (peek (reply_buf req) 0 (nat l))) (\<lambda>d. bnd (lift (poke buf 0 d)) (\<lambda>buf. ret (l, buf))))))"

definition fs_read_mem :: "ptr \<Rightarrow> u64 \<Rightarrow> bytes \<Rightarrow> int \<Rightarrow> ('k, int \<times> bytes) fs_vm" where
  "fs_read_mem f offset buf count = bnd (file_of f) (\<lambda>fl. if \<not> is_opened fl then ret (- P9_EPROTO, buf) else bnd (inode_of (f_inode fl)) (\<lambda>n.
     if itype n \<noteq> FT_REG then ret (- P9_EIO, buf)
     else if open_flags fl AND P9_O_NOACCESS = P9_O_WRONLY then ret (- P9_EIO, buf)
     else if is_fscmd (reg n) then fs_cmd_read f buf count
     else if rsize (reg n) \<le> offset then ret (0, buf)
     else let count1 = rsize (reg n) - offset;
              count = (if count1 < word_of_int count then int_of_u32 (ucast count1) else count) in
       bnd (file_buffer_read (f_inode fl) offset (word_of_int count)) (\<lambda>d.
       bnd (lift (poke buf 0 d)) (\<lambda>buf. ret (count, buf)))))"

definition fs_write_mem ::
  "(ptr \<Rightarrow> bytes \<Rightarrow> int \<Rightarrow> ('k, int) fs_vm) \<Rightarrow> ptr \<Rightarrow> u64 \<Rightarrow> bytes \<Rightarrow> int \<Rightarrow> ('k, int) fs_vm" where
  "fs_write_mem cmd_write f offset buf count = bnd (file_of f) (\<lambda>fl. if \<not> is_opened fl then ret (- P9_EPROTO)
     else let p = f_inode fl in bnd (inode_of p) (\<lambda>n.
     if itype n \<noteq> FT_REG then ret (- P9_EIO)
     else if open_flags fl AND P9_O_NOACCESS = P9_O_RDONLY then ret (- P9_EIO)
     else if count = 0 then ret 0
     else if is_fscmd (reg n) then cmd_write f buf count
     else let end_pos = offset + word_of_int count in
       bnd (if rsize (reg n) < end_pos then fs_truncate p end_pos else ret 0) (\<lambda>err. if err \<noteq> 0 then ret err
       else andthen (inode_update_mtime p)
         (bnd (inode_of p) (\<lambda>n.
          andthen (if rstate (reg n) = REG_STATE_LOADED
            then andthen (cache_unlink p (rsize (reg n))) (upd_reg p (\<lambda>r. r\<lparr>rstate := REG_STATE_LOCAL\<rparr>)) else ret ())
          (andthen (guard OutOfBounds (0 \<le> count \<and> count \<le> int (length buf)))
          (andthen (file_buffer_write p offset (take (nat count) buf)) (ret count))))))))"

section \<open>Attributes\<close>

definition fs_stat_mem :: "ptr \<Rightarrow> ('k, int \<times> fsstat) fs_vm" where
  "fs_stat_mem f = bnd (file_of f) (\<lambda>fl. bnd (inode_of (f_inode fl)) (\<lambda>n.
     bnd (if itype n = FT_REG then ret (rsize (reg n))
          else if itype n = FT_LNK then (case symlink_name n of None \<Rightarrow> fault NullDeref | Some nm \<Rightarrow> ret (of_nat (length nm)))
          else if itype n = FT_DIR then ret (word_of_int (dir_size n)) else ret 0) (\<lambda>sz.
     bnd (gets (\<lambda>s. (block_size s, push_bit (block_size_log2 s - 9) (word_of_int (to_blocks s sz))))) (\<lambda>(bs, blocks).
     ret (0, \<lparr>st_qid = inode_to_qid n, st_mode = imode n OR push_bit 12 (itype n), st_uid = iuid n, st_gid = igid n,
       st_nlink = word_of_int (refcount n),
       st_rdev = (if itype n = FT_BLK \<or> itype n = FT_CHR then ucast (push_bit 8 (dev_major n) OR dev_minor n) else 0),
       st_size = sz, st_blksize = ucast bs, st_blocks = blocks,
       st_atime_sec = ucast (mtime_sec n), st_atime_nsec = mtime_nsec n,
       st_mtime_sec = ucast (mtime_sec n), st_mtime_nsec = mtime_nsec n,
       st_ctime_sec = ucast (ctime_sec n), st_ctime_nsec = ctime_nsec n\<rparr>)))))"

definition fs_setattr_mem ::
  "ptr \<Rightarrow> u32 \<Rightarrow> u32 \<Rightarrow> u32 \<Rightarrow> u32 \<Rightarrow> u64 \<Rightarrow> u64 \<Rightarrow> u64 \<Rightarrow> u64 \<Rightarrow> u64 \<Rightarrow> ('k, int) fs_vm" where
  "fs_setattr_mem f msk mode uid gid sz atime_s atime_ns mtime_s mtime_ns = bnd (file_of f) (\<lambda>fl. let p = f_inode fl in
     andthen (if msk AND 0x1 \<noteq> 0 then upd_inode p (\<lambda>n. n\<lparr>imode := mode\<rparr>) else ret ())
     (andthen (if msk AND 0x2 \<noteq> 0 then upd_inode p (\<lambda>n. n\<lparr>iuid := uid\<rparr>) else ret ())
     (andthen (if msk AND 0x4 \<noteq> 0 then upd_inode p (\<lambda>n. n\<lparr>igid := gid\<rparr>) else ret ())
     (bnd (if msk AND 0x8 \<noteq> 0 then fs_truncate p sz else ret 0) (\<lambda>r. if r \<noteq> 0 then ret r
      else andthen (if msk AND 0x20 \<noteq> 0 then
          (if msk AND 0x100 \<noteq> 0 then upd_inode p (\<lambda>n. n\<lparr>mtime_sec := ucast mtime_s, mtime_nsec := ucast mtime_ns\<rparr>)
           else inode_update_mtime p) else ret ())
        (andthen (if msk AND 0x40 \<noteq> 0 then bnd gettimeofday (\<lambda>(sec, usec).
            upd_inode p (\<lambda>n. n\<lparr>ctime_sec := sec, ctime_nsec := usec * 1000\<rparr>)) else ret ())
        (ret 0)))))))"

definition fs_readlink_mem :: "ptr \<Rightarrow> bytes \<Rightarrow> int \<Rightarrow> ('k, int \<times> bytes) fs_vm" where
  "fs_readlink_mem f buf buf_size = bnd (file_of f) (\<lambda>fl. bnd (inode_of (f_inode fl)) (\<lambda>n.
     if itype n \<noteq> FT_LNK then ret (- P9_EIO, buf)
     else case symlink_name n of None \<Rightarrow> fault NullDeref
       | Some nm \<Rightarrow> let len = min_int (int_of_size (length nm)) (buf_size - 1) in
           andthen (guard OutOfBounds (0 \<le> len))
           (bnd (lift (poke buf 0 (take (nat len) nm))) (\<lambda>buf. bnd (lift (poke buf len [0])) (\<lambda>buf. ret (0, buf))))))"

definition fs_lock_mem :: "ptr \<Rightarrow> fslock \<Rightarrow> ('k, int) fs_vm" where
  "fs_lock_mem f lock = bnd (file_of f) (\<lambda>fl. if \<not> is_opened fl then ret (- P9_EPROTO) else bnd (inode_of (f_inode fl)) (\<lambda>n.
     if itype n \<noteq> FT_REG then ret (- P9_EIO) else ret 0))"

definition fs_getlock_mem :: "ptr \<Rightarrow> fslock \<Rightarrow> ('k, int \<times> fslock) fs_vm" where
  "fs_getlock_mem f lock = bnd (file_of f) (\<lambda>fl. if \<not> is_opened fl then ret (- P9_EPROTO, lock) else bnd (inode_of (f_inode fl)) (\<lambda>n.
     if itype n \<noteq> FT_REG then ret (- P9_EIO, lock) else ret (0, lock)))"

section \<open>Renaming and removing\<close>

definition fs_renameat_mem :: "ptr \<Rightarrow> bytes \<Rightarrow> ptr \<Rightarrow> bytes \<Rightarrow> ('k, int) fs_vm" where
  "fs_renameat_mem f name new_f new_name = bnd (file_of f) (\<lambda>fl.
     bnd (inode_search (f_inode fl) name) (\<lambda>de. if de = 0 then ret (- P9_ENOENT)
     else bnd (file_of new_f) (\<lambda>nfl. bnd (inode_search (f_inode nfl) new_name) (\<lambda>de1.
       let finish = (\<lambda>n1. bnd (dirent_of de) (\<lambda>d. bnd (inode_incref (de_inode d)) (\<lambda>i.
             andthen (inode_dir_add (f_inode nfl) new_name i)
             (andthen (inode_dirent_delete (f_inode fl) de)
             (andthen (if n1 \<noteq> 0 then inode_decref n1 else ret ()) (ret 0))))))
       in if de1 = 0 then finish 0
       else bnd (dirent_of de1) (\<lambda>d1. bnd (inode_of (de_inode d1)) (\<lambda>n1.
         if itype n1 = FT_DIR then ret (- P9_EEXIST)
         else andthen (inode_dirent_delete_no_decref (f_inode nfl) de1) (finish (de_inode d1))))))))"

definition fs_unlinkat_mem :: "ptr \<Rightarrow> bytes \<Rightarrow> ('k, int) fs_vm" where
  "fs_unlinkat_mem f name = (if name = DOT \<or> name = DOTDOT then ret (- P9_ENOENT)
     else bnd (file_of f) (\<lambda>fl. bnd (inode_search (f_inode fl) name) (\<lambda>de. if de = 0 then ret (- P9_ENOENT)
     else bnd (dirent_of de) (\<lambda>d. bnd (inode_of (de_inode d)) (\<lambda>n.
       if itype n = FT_DIR then
         bnd (is_empty_dir (de_inode d)) (\<lambda>e. if \<not> e then ret (- P9_ENOTEMPTY)
         else andthen (flush_dir (de_inode d)) (andthen (inode_dirent_delete (f_inode fl) de) (ret 0)))
       else andthen (inode_dirent_delete (f_inode fl) de) (ret 0))))))"

section \<open>Creating and ending a file system\<close>

text \<open>\<open>FS_BLOCK_SIZE_LOG2\<close> comes from a header outside the repository: it is the parameter \<open>log2\<close>.\<close>

definition fs_mem_zero :: "host \<Rightarrow> nat \<Rightarrow> 'k fsdevicemem" where
  "fs_mem_zero h log2 = \<lparr>inodes = Map.empty, dirents = Map.empty, files = Map.empty, open_infos = Map.empty,
     base_urls = Map.empty, requests = Map.empty, cmd_xhrs = Map.empty, xhrs = Map.empty, wget_files = Map.empty, init_states = Map.empty, next_ptr = 1, fs_host = h, host_calls = 0,
     completions = [], started = [], inode_list = [], inode_count = 0, inode_limit = push_bit 20 1, fs_blocks = 0,
     fs_max_blocks = push_bit (30 - log2) 1, inode_num_alloc = 1, block_size_log2 = log2, block_size = push_bit log2 1,
     root_inode = 0, inode_cache_list = [], inode_cache_size = 0, inode_cache_size_limit = 268435456,
     preload_list = [], preload_archive_list = [], base_url_list = [], import_dir = []\<rparr>"

definition fs_mem_init :: "('k, unit) fs_vm" where
  "fs_mem_init = bnd (inode_new FT_DIR 0x1ff 0 0) (\<lambda>n.
     bnd (inode_incref n) (\<lambda>a. andthen (inode_dir_add n DOT a)
     (bnd (inode_incref n) (\<lambda>b. andthen (inode_dir_add n DOTDOT b)
     (modify (\<lambda>s. s\<lparr>root_inode := n\<rparr>))))))"

fun free_dirents :: "ptr list \<Rightarrow> ('k, unit) fs_vm" where
  "free_dirents [] = ret ()"
| "free_dirents (d # ds) = andthen (modify (\<lambda>s. s\<lparr>dirents := (dirents s)(d := None)\<rparr>)) (free_dirents ds)"

fun end_inodes :: "ptr list \<Rightarrow> ('k, unit) fs_vm" where
  "end_inodes [] = ret ()"
| "end_inodes (p # ps) = bnd (inode_of p) (\<lambda>n.
     andthen (upd_inode p (\<lambda>n. n\<lparr>refcount := 0\<rparr>))
     (andthen (if itype n = FT_DIR then andthen (free_dirents (de_list n)) (upd_inode p (\<lambda>n. n\<lparr>de_list := []\<rparr>)) else ret ())
     (andthen (inode_free p) (end_inodes ps))))"

definition fs_mem_end :: "('k, unit) fs_vm" where
  "fs_mem_end = bnd (gets inode_list) (\<lambda>l. andthen (end_inodes l)
     (bnd (gets inode_cache_list) (\<lambda>c. guard AssertFail (c = []))))"

section \<open>The interface\<close>

text \<open>A string argument of the interface is a null-terminated array.\<close>

definition with_str :: "bytes \<Rightarrow> (bytes \<Rightarrow> ('s, 'a) vm) \<Rightarrow> ('s, 'a) vm" where
  "with_str a m = (if 0 \<in> set a then m (cstr a) else fault OutOfBounds)"

definition fs_mem_ops ::
  "'k net_lib \<Rightarrow> (ptr \<Rightarrow> bytes \<Rightarrow> int \<Rightarrow> ('k, int) fs_vm) \<Rightarrow> nat \<Rightarrow> (ptr, 'k fsdevicemem) fs_ops" where
  "fs_mem_ops lib cmd_write opaque = \<lparr>
     fs_delete = fs_delete_mem,
     fs_statfs = fs_statfs_mem,
     fs_attach = (\<lambda>uid uname aname. fs_attach_mem uid),
     fs_walk = (\<lambda>f names. if \<forall>n \<in> set names. 0 \<in> set n then fs_walk_mem f (map cstr names) else fault OutOfBounds),
     fs_mkdir = (\<lambda>f name mode gid. with_str name (\<lambda>nm. fs_mkdir_mem f nm mode gid)),
     fs_open = (\<lambda>f flags. fs_open_mem lib f flags (Some opaque)),
     fs_create = (\<lambda>f name flags mode gid. with_str name (\<lambda>nm. fs_create_mem f nm flags mode gid)),
     fs_stat = fs_stat_mem,
     fs_setattr = fs_setattr_mem,
     fs_readdir = fs_readdir_mem,
     fs_read = fs_read_mem,
     fs_write = fs_write_mem cmd_write,
     fs_link = (\<lambda>df f name. with_str name (fs_link_mem df f)),
     fs_symlink = (\<lambda>f name symgt gid. with_str name (\<lambda>nm. with_str symgt (\<lambda>st. fs_symlink_mem f nm st gid))),
     fs_mknod = (\<lambda>f name mode major minor gid. with_str name (\<lambda>nm. fs_mknod_mem f nm mode major minor gid)),
     fs_readlink = fs_readlink_mem,
     fs_renameat = (\<lambda>f name new_f new_name. with_str name (\<lambda>nm. with_str new_name (\<lambda>nn. fs_renameat_mem f nm new_f nn))),
     fs_unlinkat = (\<lambda>f name. with_str name (fs_unlinkat_mem f)),
     fs_lock = fs_lock_mem,
     fs_getlock = fs_getlock_mem\<rparr>"

end
