(* ===== verification/Fs_Inv.thy ===== *)
theory Fs_Inv
  imports Fs_Mem
begin

text \<open>
  The invariant of the local file system of \<open>src/src/fs_net.c\<close> and the rules of its building blocks: the
  reference and open counts of the inodes are exactly the numbers of directory entries and handles that
  point to them.  A file system is local when no file has been given a network location and no request
  runs on its command file, as \<open>fs_mem_init\<close> makes it.
\<close>

section \<open>Invariant\<close>

text \<open>The references to an inode from directory entries, and from handles outside \<open>E\<close>.\<close>

definition refs :: "'k fsdevicemem \<Rightarrow> ptr \<Rightarrow> nat" where
  "refs s p = card {d. \<exists>de. dirents s d = Some de \<and> de_inode de = p}"

definition opens :: "ptr set \<Rightarrow> 'k fsdevicemem \<Rightarrow> ptr \<Rightarrow> nat" where
  "opens E s p = card {f. f \<notin> E \<and> (\<exists>fl. files s f = Some fl \<and> f_inode fl = p)}"

text \<open>
  A local regular file: its buffer holds the whole file, and its size is below half the address space.
  Only directories have entries.
\<close>

definition node_ok :: "fsinode \<Rightarrow> bool" where
  "node_ok n \<longleftrightarrow> (itype n = FT_REG \<longrightarrow> rstate (reg n) = REG_STATE_LOCAL \<and> \<not> is_fscmd (reg n)
       \<and> unat (rsize (reg n)) \<le> length (fb_data (fbuf (reg n))) \<and> length (fb_data (fbuf (reg n))) = unat (allocated_size (fbuf (reg n)))
       \<and> unat (rsize (reg n)) < 2 ^ 63)
     \<and> (itype n \<noteq> FT_DIR \<longrightarrow> de_list n = [])"

text \<open>
  \<open>X p\<close> and \<open>Y p\<close> count the references to \<open>p\<close> that local variables hold in the middle of an operation; the
  handles in \<open>E\<close> have given theirs up.  Between operations all three are empty.
\<close>

definition fs_inv :: "(ptr \<Rightarrow> nat) \<Rightarrow> (ptr \<Rightarrow> nat) \<Rightarrow> ptr set \<Rightarrow> 'k fsdevicemem \<Rightarrow> bool" where
  "fs_inv X Y E s \<longleftrightarrow> 0 < next_ptr s
   \<and> (\<forall>p. p = 0 \<or> next_ptr s \<le> p \<longrightarrow> inodes s p = None \<and> dirents s p = None \<and> files s p = None)
   \<and> (\<forall>p n. inodes s p = Some n \<longrightarrow> node_ok n
        \<and> refcount n = int (refs s p + X p + (if p = root_inode s then 1 else 0))
        \<and> open_count n = int (opens E s p + Y p))
   \<and> (\<forall>p. inodes s p = None \<longrightarrow> X p = 0 \<and> Y p = 0 \<and> (p = root_inode s \<longrightarrow> p = 0))
   \<and> (\<forall>d de. dirents s d = Some de \<longrightarrow> inodes s (de_inode de) \<noteq> None)
   \<and> (\<forall>f fl. files s f = Some fl \<longrightarrow> f_req fl = 0 \<and> (f \<notin> E \<longrightarrow> inodes s (f_inode fl) \<noteq> None))
   \<and> (\<forall>p n. inodes s p = Some n \<longrightarrow> distinct (de_list n) \<and> (\<forall>d \<in> set (de_list n). dirents s d \<noteq> None))
   \<and> (\<forall>p n q m d. inodes s p = Some n \<longrightarrow> inodes s q = Some m \<longrightarrow> d \<in> set (de_list n) \<longrightarrow> d \<in> set (de_list m) \<longrightarrow> p = q)"

text \<open>What an operation that creates no inode leaves: entries, handles, and the shape of the surviving inodes.\<close>

definition tree_le :: "'k fsdevicemem \<Rightarrow> 'k fsdevicemem \<Rightarrow> bool" where
  "tree_le s t \<longleftrightarrow> files t = files s \<and> dirents t = dirents s \<and> root_inode t = root_inode s
     \<and> (\<forall>p n'. inodes t p = Some n' \<longrightarrow> (\<exists>n. inodes s p = Some n \<and> itype n' = itype n \<and> de_list n' = de_list n))"

lemma tree_le_refl [simp]: "tree_le s s"
  by (simp add: tree_le_def)

lemma tree_le_node: "tree_le s t \<Longrightarrow> inodes t p = Some n' \<Longrightarrow> \<exists>n. inodes s p = Some n \<and> itype n' = itype n \<and> de_list n' = de_list n"
  by (simp add: tree_le_def)

lemma tree_le_trans: "tree_le s t \<Longrightarrow> tree_le t u \<Longrightarrow> tree_le s u"
  unfolding tree_le_def by metis

text \<open>The faults that remain possible: a failed assertion and a counter that leaves the range of its type.\<close>

abbreviation tame :: "fault \<Rightarrow> bool" where
  "tame f \<equiv> f = AssertFail \<or> f = SignedOverflow"

lemmas inv_cong = fs_inv_def refs_def opens_def

lemma fs_inv_other [simp]:
  "fs_inv X Y E (s\<lparr>fs_blocks := b\<rparr>) = fs_inv X Y E s" "fs_inv X Y E (s\<lparr>inode_count := c\<rparr>) = fs_inv X Y E s"
  "fs_inv X Y E (s\<lparr>host_calls := h\<rparr>) = fs_inv X Y E s" "fs_inv X Y E (s\<lparr>inode_list := l\<rparr>) = fs_inv X Y E s"
  "fs_inv X Y E (s\<lparr>inode_num_alloc := a\<rparr>) = fs_inv X Y E s"
  by (simp_all add: inv_cong)

lemma tree_le_other [simp]:
  "tree_le s (t\<lparr>fs_blocks := b\<rparr>) = tree_le s t" "tree_le s (t\<lparr>inode_count := c\<rparr>) = tree_le s t"
  "tree_le s (t\<lparr>host_calls := h\<rparr>) = tree_le s t" "tree_le s (t\<lparr>inode_list := l\<rparr>) = tree_le s t"
  "tree_le s (t\<lparr>inode_num_alloc := a\<rparr>) = tree_le s t"
  by (simp_all add: tree_le_def)

text \<open>The invariant and the shape only read the three heaps, the root and the bound of the addresses in use.\<close>

definition same_heaps :: "'k fsdevicemem \<Rightarrow> 'k fsdevicemem \<Rightarrow> bool" where
  "same_heaps s t \<longleftrightarrow> inodes t = inodes s \<and> dirents t = dirents s \<and> files t = files s \<and> next_ptr t = next_ptr s
     \<and> root_inode t = root_inode s"

lemma inv_same_iff: "same_heaps s t \<Longrightarrow> fs_inv X Y E t = fs_inv X Y E s"
  unfolding same_heaps_def inv_cong by (elim conjE) (simp only:)

lemma inv_same: "fs_inv X Y E s \<Longrightarrow> same_heaps s t \<Longrightarrow> fs_inv X Y E t"
  by (simp only: inv_same_iff)

lemma tree_same: "tree_le u s \<Longrightarrow> same_heaps s t \<Longrightarrow> tree_le u t"
  by (simp add: tree_le_def same_heaps_def)

lemma node_ok_other [simp]:
  "node_ok (n\<lparr>refcount := c\<rparr>) = node_ok n" "node_ok (n\<lparr>open_count := c\<rparr>) = node_ok n"
  "node_ok (n\<lparr>mtime_sec := a, mtime_nsec := b\<rparr>) = node_ok n" "node_ok (n\<lparr>ctime_sec := a, ctime_nsec := b\<rparr>) = node_ok n"
  "node_ok (n\<lparr>imode := u\<rparr>) = node_ok n" "node_ok (n\<lparr>iuid := u\<rparr>) = node_ok n" "node_ok (n\<lparr>igid := u\<rparr>) = node_ok n"
  "node_ok (n\<lparr>dir_size := z\<rparr>) = node_ok n" "node_ok (n\<lparr>symlink_name := y\<rparr>) = node_ok n"
  "node_ok (n\<lparr>dev_major := u, dev_minor := v\<rparr>) = node_ok n"
  unfolding node_ok_def by simp_all

subsection \<open>What the invariant gives\<close>

lemma fs_invI:
  assumes "0 < next_ptr s" and "\<And>p. p = 0 \<or> next_ptr s \<le> p \<Longrightarrow> inodes s p = None \<and> dirents s p = None \<and> files s p = None"
    and "\<And>p n. inodes s p = Some n \<Longrightarrow> node_ok n \<and> refcount n = int (refs s p + X p + (if p = root_inode s then 1 else 0))
        \<and> open_count n = int (opens E s p + Y p)"
    and "\<And>p. inodes s p = None \<Longrightarrow> X p = 0 \<and> Y p = 0 \<and> (p = root_inode s \<longrightarrow> p = 0)"
    and "\<And>d de. dirents s d = Some de \<Longrightarrow> inodes s (de_inode de) \<noteq> None"
    and "\<And>f fl. files s f = Some fl \<Longrightarrow> f_req fl = 0 \<and> (f \<notin> E \<longrightarrow> inodes s (f_inode fl) \<noteq> None)"
    and "\<And>p n. inodes s p = Some n \<Longrightarrow> distinct (de_list n) \<and> (\<forall>d \<in> set (de_list n). dirents s d \<noteq> None)"
    and "\<And>p n q m d. inodes s p = Some n \<Longrightarrow> inodes s q = Some m \<Longrightarrow> d \<in> set (de_list n) \<Longrightarrow> d \<in> set (de_list m) \<Longrightarrow> p = q"
  shows "fs_inv X Y E s"
  unfolding fs_inv_def
proof (intro conjI)
  show "0 < next_ptr s" by (rule assms(1))
  show "\<forall>p. p = 0 \<or> next_ptr s \<le> p \<longrightarrow> inodes s p = None \<and> dirents s p = None \<and> files s p = None"
    using assms(2) by blast
  show "\<forall>p n. inodes s p = Some n \<longrightarrow> node_ok n \<and> refcount n = int (refs s p + X p + (if p = root_inode s then 1 else 0))
        \<and> open_count n = int (opens E s p + Y p)" using assms(3) by blast
  show "\<forall>p. inodes s p = None \<longrightarrow> X p = 0 \<and> Y p = 0 \<and> (p = root_inode s \<longrightarrow> p = 0)" using assms(4) by blast
  show "\<forall>d de. dirents s d = Some de \<longrightarrow> inodes s (de_inode de) \<noteq> None" using assms(5) by blast
  show "\<forall>f fl. files s f = Some fl \<longrightarrow> f_req fl = 0 \<and> (f \<notin> E \<longrightarrow> inodes s (f_inode fl) \<noteq> None)" using assms(6) by blast
  show "\<forall>p n. inodes s p = Some n \<longrightarrow> distinct (de_list n) \<and> (\<forall>d \<in> set (de_list n). dirents s d \<noteq> None)" using assms(7) by blast
  show "\<forall>p n q m d. inodes s p = Some n \<longrightarrow> inodes s q = Some m \<longrightarrow> d \<in> set (de_list n) \<longrightarrow> d \<in> set (de_list m) \<longrightarrow> p = q"
    using assms(8) by blast
qed

lemma inv_parts:
  assumes "fs_inv X Y E s"
  shows "\<forall>p. p = 0 \<or> next_ptr s \<le> p \<longrightarrow> inodes s p = None \<and> dirents s p = None \<and> files s p = None"
    and "\<forall>p n. inodes s p = Some n \<longrightarrow> node_ok n \<and> refcount n = int (refs s p + X p + (if p = root_inode s then 1 else 0))
        \<and> open_count n = int (opens E s p + Y p)"
    and "\<forall>p. inodes s p = None \<longrightarrow> X p = 0 \<and> Y p = 0 \<and> (p = root_inode s \<longrightarrow> p = 0)"
    and "\<forall>d de. dirents s d = Some de \<longrightarrow> inodes s (de_inode de) \<noteq> None"
    and "\<forall>f fl. files s f = Some fl \<longrightarrow> f_req fl = 0 \<and> (f \<notin> E \<longrightarrow> inodes s (f_inode fl) \<noteq> None)"
    and "\<forall>p n. inodes s p = Some n \<longrightarrow> distinct (de_list n) \<and> (\<forall>d \<in> set (de_list n). dirents s d \<noteq> None)"
    and "\<forall>p n q m d. inodes s p = Some n \<longrightarrow> inodes s q = Some m \<longrightarrow> d \<in> set (de_list n) \<longrightarrow> d \<in> set (de_list m) \<longrightarrow> p = q"
  using assms [unfolded fs_inv_def] by - (elim conjE, assumption)+

lemma inv_next: "fs_inv X Y E s \<Longrightarrow> 0 < next_ptr s"
  unfolding fs_inv_def by (erule conjunct1)

lemma inv_fresh: "fs_inv X Y E s \<Longrightarrow> p = 0 \<or> next_ptr s \<le> p \<Longrightarrow> inodes s p = None \<and> dirents s p = None \<and> files s p = None"
  by (drule inv_parts(1), drule spec [of _ p], erule mp)

lemma inv_none: "fs_inv X Y E s \<Longrightarrow> inodes s p = None \<Longrightarrow> X p = 0 \<and> Y p = 0 \<and> (p = root_inode s \<longrightarrow> p = 0)"
  by (drule inv_parts(3), drule spec [of _ p], erule mp)

lemma inv_node:
  assumes "fs_inv X Y E s" "inodes s p = Some n"
  shows "p \<noteq> 0" "node_ok n" "refcount n = int (refs s p + X p + (if p = root_inode s then 1 else 0))"
    "open_count n = int (opens E s p + Y p)" "distinct (de_list n)"
proof -
  show "p \<noteq> 0" using inv_fresh [OF assms(1), of p] assms(2) by (cases "p = 0") simp_all
  show "node_ok n" "refcount n = int (refs s p + X p + (if p = root_inode s then 1 else 0))" "open_count n = int (opens E s p + Y p)"
    using inv_parts(2) [OF assms(1)] assms(2) by blast+
  show "distinct (de_list n)" using inv_parts(6) [OF assms(1)] assms(2) by blast
qed

lemma inv_file:
  assumes "fs_inv X Y E s" "files s f = Some fl"
  shows "f \<noteq> 0" "f_req fl = 0" "f \<notin> E \<Longrightarrow> \<exists>n. inodes s (f_inode fl) = Some n"
proof -
  show "f \<noteq> 0" using inv_fresh [OF assms(1), of f] assms(2) by (cases "f = 0") simp_all
  show "f_req fl = 0" "f \<notin> E \<Longrightarrow> \<exists>n. inodes s (f_inode fl) = Some n" using inv_parts(5) [OF assms(1)] assms(2) by blast+
qed

lemma inv_dirent:
  assumes "fs_inv X Y E s" "dirents s d = Some de"
  shows "d \<noteq> 0" "\<exists>n. inodes s (de_inode de) = Some n"
proof -
  show "d \<noteq> 0" using inv_fresh [OF assms(1), of d] assms(2) by (cases "d = 0") simp_all
  show "\<exists>n. inodes s (de_inode de) = Some n" using inv_parts(4) [OF assms(1)] assms(2) by blast
qed

lemma inv_entry:
  assumes "fs_inv X Y E s" "inodes s p = Some n" "d \<in> set (de_list n)"
  shows "\<exists>de. dirents s d = Some de"
  using inv_parts(6) [OF assms(1)] assms(2,3) by blast

lemma inv_entry_unique:
  "fs_inv X Y E s \<Longrightarrow> inodes s p = Some n \<Longrightarrow> inodes s q = Some m \<Longrightarrow> d \<in> set (de_list n) \<Longrightarrow> d \<in> set (de_list m) \<Longrightarrow> p = q"
  by (drule inv_parts(7)) blast

lemma inv_held:
  assumes "fs_inv X Y E s" "0 < X p \<or> 0 < Y p \<or> (p = root_inode s \<and> p \<noteq> 0)"
  shows "\<exists>n. inodes s p = Some n"
  using inv_none [OF assms(1), of p] assms(2) by (cases "inodes s p") auto

lemma inv_finite:
  assumes "fs_inv X Y E s"
  shows "finite {d. \<exists>de. dirents s d = Some de \<and> de_inode de = p}" "finite {f. f \<notin> E \<and> (\<exists>fl. files s f = Some fl \<and> f_inode fl = p)}"
proof -
  have "{d. \<exists>de. dirents s d = Some de \<and> de_inode de = p} \<subseteq> {..<next_ptr s}"
    "{f. f \<notin> E \<and> (\<exists>fl. files s f = Some fl \<and> f_inode fl = p)} \<subseteq> {..<next_ptr s}"
    using inv_fresh [OF assms] by (auto simp: not_le [symmetric] intro: ccontr)
  then show "finite {d. \<exists>de. dirents s d = Some de \<and> de_inode de = p}" "finite {f. f \<notin> E \<and> (\<exists>fl. files s f = Some fl \<and> f_inode fl = p)}"
    using finite_lessThan finite_subset by blast+
qed

section \<open>Rules for the operations on inodes\<close>

lemma wp_inode: "fs_inv X Y E s \<Longrightarrow> inodes s p = Some n \<Longrightarrow> Q n s \<Longrightarrow> wlp (inode_of p) Q F s"
  by (rule wp_load) (auto dest: inv_node(1))

lemma wp_file: "fs_inv X Y E s \<Longrightarrow> files s p = Some n \<Longrightarrow> Q n s \<Longrightarrow> wlp (file_of p) Q F s"
  by (rule wp_load) (auto dest: inv_file(1))

lemma wp_dirent: "fs_inv X Y E s \<Longrightarrow> dirents s p = Some n \<Longrightarrow> Q n s \<Longrightarrow> wlp (dirent_of p) Q F s"
  by (rule wp_load) (auto dest: inv_dirent(1))

lemma wp_upd_inode:
  "fs_inv X Y E s \<Longrightarrow> inodes s p = Some n \<Longrightarrow> Q () (s\<lparr>inodes := (inodes s)(p \<mapsto> g n)\<rparr>) \<Longrightarrow> wlp (upd_inode p g) Q F s"
  unfolding upd_inode_def wlp_bnd by (rule wp_inode) (simp_all add: wlp_simps)

text \<open>Replacing an inode by one of the same shape.\<close>

lemma inv_upd:
  assumes inv: "fs_inv X Y E s" and n: "inodes s p = Some n"
    and same: "itype n' = itype n" "de_list n' = de_list n" "node_ok n'"
    and counts: "refcount n' + int (X p) = refcount n + int x" "open_count n' + int (Y p) = open_count n + int y"
  shows "fs_inv (X(p := x)) (Y(p := y)) E (s\<lparr>inodes := (inodes s)(p \<mapsto> n')\<rparr>)"
    and "tree_le s (s\<lparr>inodes := (inodes s)(p \<mapsto> n')\<rparr>)"
proof -
  let ?s = "s\<lparr>inodes := (inodes s)(p \<mapsto> n')\<rparr>"
  have r: "refs ?s = refs s" "opens E ?s = opens E s" by (simp_all add: fun_eq_iff refs_def opens_def)
  have "refcount n' = int (refs s p + x + (if p = root_inode s then 1 else 0))" "open_count n' = int (opens E s p + y)"
    using inv_node(3,4) [OF inv n] counts by simp_all
  note c = this
  show "fs_inv (X(p := x)) (Y(p := y)) E ?s"
  proof (rule fs_invI, unfold r)
    fix q m assume "inodes ?s q = Some m"
    then show "node_ok m \<and> refcount m = int (refs s q + (X(p := x)) q + (if q = root_inode ?s then 1 else 0))
        \<and> open_count m = int (opens E s q + (Y(p := y)) q)"
      using c same(3) inv_node(2,3,4) [OF inv, of q] by (cases "q = p") auto
  next
    fix q m assume "inodes ?s q = Some m"
    then show "distinct (de_list m) \<and> (\<forall>d \<in> set (de_list m). dirents ?s d \<noteq> None)"
      using inv_node(5) [OF inv] inv_entry [OF inv] n same(2) by (cases "q = p") auto
  next
    fix q m q' m' d assume "inodes ?s q = Some m" "inodes ?s q' = Some m'" "d \<in> set (de_list m)" "d \<in> set (de_list m')"
    then show "q = q'" using inv_entry_unique [OF inv, of q _ q' _ d] n same(2) by (auto split: if_splits)
  next
    show "0 < next_ptr ?s" using inv_next [OF inv] by simp
  next
    fix q assume "q = 0 \<or> next_ptr ?s \<le> q"
    then show "inodes ?s q = None \<and> dirents ?s q = None \<and> files ?s q = None" using inv_fresh [OF inv, of q] n by auto
  next
    fix q assume "inodes ?s q = None"
    then show "(X(p := x)) q = 0 \<and> (Y(p := y)) q = 0 \<and> (q = root_inode ?s \<longrightarrow> q = 0)"
      using inv_none [OF inv, of q] by (auto split: if_splits)
  next
    fix d de assume "dirents ?s d = Some de"
    then show "inodes ?s (de_inode de) \<noteq> None" using inv_dirent(2) [OF inv, of d de] by auto
  next
    fix f fl assume "files ?s f = Some fl"
    then show "f_req fl = 0 \<and> (f \<notin> E \<longrightarrow> inodes ?s (f_inode fl) \<noteq> None)" using inv_file(2,3) [OF inv, of f fl] by auto
  qed
  show "tree_le s ?s" using n same by (simp add: tree_le_def)
qed

lemmas inv_upd_same = inv_upd [where x = "X p" and y = "Y p" for X Y p, simplified]

lemma wlp_cint64 [wlp_simps]:
  "wlp (cint64 i) Q F s = (if - 9223372036854775808 \<le> i \<and> i < 9223372036854775808 then Q i s else F SignedOverflow)"
  by (simp add: cint64_def wlp_def)

lemma wp_add_blocks: "Q () (s\<lparr>fs_blocks := fs_blocks s + d\<rparr>) \<Longrightarrow> F SignedOverflow \<Longrightarrow> wlp (add_blocks d) Q F s"
  by (simp add: add_blocks_def wlp_simps)

lemma wp_add_count: "Q () (s\<lparr>inode_count := inode_count s + d\<rparr>) \<Longrightarrow> F SignedOverflow \<Longrightarrow> wlp (add_inode_count d) Q F s"
  by (simp add: add_inode_count_def wlp_simps)

lemma wp_incref:
  assumes "fs_inv X Y E s" "inodes s p \<noteq> None"
    and "\<And>t. fs_inv (X(p := Suc (X p))) Y E t \<Longrightarrow> tree_le s t \<Longrightarrow> Q p t"
  shows "wlp (inode_incref p) Q tame s"
proof -
  obtain n where n: "inodes s p = Some n" using assms(2) by auto
  let ?n = "n\<lparr>refcount := refcount n + 1\<rparr>"
  have "node_ok ?n" using inv_node(2) [OF assms(1) n] by simp
  then have "fs_inv (X(p := Suc (X p))) (Y(p := Y p)) E (s\<lparr>inodes := (inodes s)(p \<mapsto> ?n)\<rparr>)"
    "tree_le s (s\<lparr>inodes := (inodes s)(p \<mapsto> ?n)\<rparr>)"
    using inv_upd [OF assms(1) n, of ?n "Suc (X p)" "Y p"] by auto
  then have "Q p (s\<lparr>inodes := (inodes s)(p \<mapsto> ?n)\<rparr>)" using assms(3) by simp
  then show ?thesis unfolding inode_incref_def wlp_bnd wlp_andthen
    by (intro wp_inode [OF assms(1) n]) (auto simp: wlp_simps intro!: wp_upd_inode [OF assms(1) n])
qed

lemma wp_inc_open:
  assumes "fs_inv X Y E s" "inodes s p \<noteq> None"
    and "\<And>t. fs_inv X (Y(p := Suc (Y p))) E t \<Longrightarrow> tree_le s t \<Longrightarrow> Q p t"
  shows "wlp (inode_inc_open p) Q tame s"
proof -
  obtain n where n: "inodes s p = Some n" using assms(2) by auto
  let ?n = "n\<lparr>open_count := open_count n + 1\<rparr>"
  have "node_ok ?n" using inv_node(2) [OF assms(1) n] by simp
  then have "fs_inv (X(p := X p)) (Y(p := Suc (Y p))) E (s\<lparr>inodes := (inodes s)(p \<mapsto> ?n)\<rparr>)"
    "tree_le s (s\<lparr>inodes := (inodes s)(p \<mapsto> ?n)\<rparr>)"
    using inv_upd [OF assms(1) n, of ?n "X p" "Suc (Y p)"] by auto
  then have "Q p (s\<lparr>inodes := (inodes s)(p \<mapsto> ?n)\<rparr>)" using assms(3) by simp
  then show ?thesis unfolding inode_inc_open_def wlp_bnd wlp_andthen
    by (intro wp_inode [OF assms(1) n]) (auto simp: wlp_simps intro!: wp_upd_inode [OF assms(1) n])
qed

text \<open>Freeing an inode nothing refers to.\<close>

lemma inv_remove:
  assumes inv: "fs_inv X Y E s" and n: "inodes s p = Some n" "refcount n = 0" "open_count n = 0" "de_list n = []"
  shows "fs_inv X Y E (s\<lparr>inodes := (inodes s)(p := None)\<rparr>)" "tree_le s (s\<lparr>inodes := (inodes s)(p := None)\<rparr>)"
proof -
  let ?s = "s\<lparr>inodes := (inodes s)(p := None)\<rparr>"
  have r: "refs ?s = refs s" "opens E ?s = opens E s" by (simp_all add: fun_eq_iff refs_def opens_def)
  have z: "refs s p = 0" "X p = 0" "p \<noteq> root_inode s" "opens E s p = 0" "Y p = 0"
    using inv_node(3,4) [OF inv n(1)] n(2,3) by (auto split: if_splits)
  have nd: "dirents s d = Some de \<Longrightarrow> de_inode de \<noteq> p" for d de
    using z(1) inv_finite(1) [OF inv, of p] by (auto simp: refs_def)
  have nf: "files s f = Some fl \<Longrightarrow> f \<notin> E \<Longrightarrow> f_inode fl \<noteq> p" for f fl
    using z(4) inv_finite(2) [OF inv, of p] by (auto simp: opens_def)
  show "fs_inv X Y E ?s"
  proof (rule fs_invI, unfold r)
    fix q m q' m' d assume "inodes ?s q = Some m" "inodes ?s q' = Some m'" "d \<in> set (de_list m)" "d \<in> set (de_list m')"
    then show "q = q'" using inv_entry_unique [OF inv, of q _ q' _ d] by (auto split: if_splits)
  next
    fix q m assume "inodes ?s q = Some m"
    then show "distinct (de_list m) \<and> (\<forall>d \<in> set (de_list m). dirents ?s d \<noteq> None)"
      using inv_node(5) [OF inv] inv_entry [OF inv] by (auto split: if_splits)
  next
    fix q m assume "inodes ?s q = Some m"
    then show "node_ok m \<and> refcount m = int (refs s q + X q + (if q = root_inode ?s then 1 else 0)) \<and> open_count m = int (opens E s q + Y q)"
      using inv_node(2,3,4) [OF inv, of q] by (auto split: if_splits)
  next
    show "0 < next_ptr ?s" using inv_next [OF inv] by simp
  next
    fix q assume "q = 0 \<or> next_ptr ?s \<le> q"
    then show "inodes ?s q = None \<and> dirents ?s q = None \<and> files ?s q = None" using inv_fresh [OF inv, of q] by auto
  next
    fix q assume "inodes ?s q = None"
    then show "X q = 0 \<and> Y q = 0 \<and> (q = root_inode ?s \<longrightarrow> q = 0)"
      using inv_none [OF inv, of q] z by (auto split: if_splits)
  next
    fix d de assume "dirents ?s d = Some de"
    then show "inodes ?s (de_inode de) \<noteq> None" using inv_dirent(2) [OF inv, of d de] nd by auto
  next
    fix f fl assume "files ?s f = Some fl"
    then show "f_req fl = 0 \<and> (f \<notin> E \<longrightarrow> inodes ?s (f_inode fl) \<noteq> None)" using inv_file(2,3) [OF inv, of f fl] nf by auto
  qed
  show "tree_le s ?s" by (simp add: tree_le_def)
qed

lemma wp_free:
  assumes inv: "fs_inv X Y E s" and n: "inodes s p = Some n"
    and Q: "\<And>t. fs_inv X Y E t \<Longrightarrow> tree_le s t \<Longrightarrow> Q () t"
  shows "wlp (inode_free p) Q tame s"
proof (cases "refcount n = 0 \<and> open_count n = 0 \<and> (itype n = FT_DIR \<longrightarrow> de_list n = [])")
  case False
  then show ?thesis unfolding inode_free_def wlp_bnd by (intro wp_inode [OF inv n]) (auto simp: wlp_simps)
next
  case True
  have ok: "node_ok n" by (rule inv_node(2) [OF inv n])
  have e: "de_list n = []" using True ok by (cases "itype n = FT_DIR") (auto simp: node_ok_def)
  have rm: "fs_inv X Y E (s\<lparr>inodes := (inodes s)(p := None)\<rparr>)" "tree_le s (s\<lparr>inodes := (inodes s)(p := None)\<rparr>)"
    using inv_remove [OF inv n _ _ e] True by auto
  let ?tail = "andthen (modify (\<lambda>s. s\<lparr>inode_list := remove1 p (inode_list s), inodes := (inodes s)(p := None)\<rparr>))
     (andthen (add_inode_count (- 1)) (bnd (gets inode_count) (\<lambda>c. guard AssertFail (0 \<le> c))))"
  have fin: "wlp ?tail Q tame (s\<lparr>fs_blocks := b, inodes := (inodes s)(p \<mapsto> n')\<rparr>)" for b n'
    unfolding wlp_andthen wlp_modify
    by (rule wp_add_count) (auto simp: wlp_simps same_heaps_def intro!: Q inv_same [OF rm(1)] tree_same [OF rm(2)])
  have fin0: "wlp ?tail Q tame s"
    unfolding wlp_andthen wlp_modify
    by (rule wp_add_count) (auto simp: wlp_simps same_heaps_def intro!: Q inv_same [OF rm(1)] tree_same [OF rm(2)])
  show ?thesis
  proof (cases "itype n = FT_REG")
    case reg: True
    then have l: "rstate (reg n) = REG_STATE_LOCAL" using ok by (simp add: node_ok_def)
    show ?thesis unfolding inode_free_def wlp_bnd
      by (intro wp_inode [OF inv n])
        (use True reg l fin n inv_node(1) [OF inv n] in \<open>simp add: wlp_simps file_buffer_reset_def upd_reg_def upd_inode_def wp_load
          del: fun_upd_apply add: wlp_andthen; intro wp_add_blocks; simp add: wlp_simps wp_load upd_inode_def\<close>)
  next
    case False
    then show ?thesis unfolding inode_free_def wlp_bnd
      by (intro wp_inode [OF inv n]) (use True fin0 in \<open>simp add: wlp_guard wlp_ret wlp_andthen\<close>)
  qed
qed

lemma wp_decref:
  assumes inv: "fs_inv X Y E s" and X: "0 < X p"
    and Q: "\<And>t. fs_inv (X(p := X p - 1)) Y E t \<Longrightarrow> tree_le s t \<Longrightarrow> Q () t"
  shows "wlp (inode_decref p) Q tame s"
proof -
  obtain n where n: "inodes s p = Some n" using inv_held [OF inv] X by blast
  let ?n = "n\<lparr>refcount := refcount n - 1\<rparr>" and ?X = "X(p := X p - 1)"
  let ?s = "s\<lparr>inodes := (inodes s)(p \<mapsto> ?n)\<rparr>"
  have 1: "fs_inv ?X (Y(p := Y p)) E ?s" "tree_le s ?s"
    using inv_upd [OF inv n, of ?n "X p - 1" "Y p"] inv_node(2) [OF inv n] X by auto
  then have i1: "fs_inv ?X Y E ?s" by simp
  have f: "wlp (inode_free p) Q tame ?s"
    by (rule wp_free [OF i1, of p ?n]) (use Q tree_le_trans [OF 1(2)] in auto)
  show ?thesis unfolding inode_decref_def wlp_bnd wlp_andthen
    by (intro wp_inode [OF inv n]) (use Q [OF i1 1(2)] f in \<open>auto simp: wlp_guard wlp_simps intro!: wp_upd_inode [OF inv n]\<close>)
qed

lemma wp_dec_open:
  assumes inv: "fs_inv X Y E s" and Y: "0 < Y p"
    and Q: "\<And>t. fs_inv X (Y(p := Y p - 1)) E t \<Longrightarrow> tree_le s t \<Longrightarrow> Q () t"
  shows "wlp (inode_dec_open p) Q tame s"
proof -
  obtain n where n: "inodes s p = Some n" using inv_held [OF inv] Y by blast
  let ?n = "n\<lparr>open_count := open_count n - 1\<rparr>" and ?Y = "Y(p := Y p - 1)"
  let ?s = "s\<lparr>inodes := (inodes s)(p \<mapsto> ?n)\<rparr>"
  have 1: "fs_inv (X(p := X p)) ?Y E ?s" "tree_le s ?s"
    using inv_upd [OF inv n, of ?n "X p" "Y p - 1"] inv_node(2) [OF inv n] Y by auto
  then have i1: "fs_inv X ?Y E ?s" by simp
  have f: "wlp (inode_free p) Q tame ?s"
    by (rule wp_free [OF i1, of p ?n]) (use Q tree_le_trans [OF 1(2)] in auto)
  show ?thesis unfolding inode_dec_open_def wlp_bnd wlp_andthen
    by (intro wp_inode [OF inv n]) (use Q [OF i1 1(2)] f in \<open>auto simp: wlp_guard wlp_simps intro!: wp_upd_inode [OF inv n]\<close>)
qed

text \<open>A new inode.\<close>

lemma inv_alloc:
  assumes inv: "fs_inv X Y E s" and n: "node_ok n" "refcount n = 1" "open_count n = 0" "de_list n = []"
  defines "p \<equiv> next_ptr s"
  shows "fs_inv (X(p := 1)) Y E (s\<lparr>inodes := (inodes s)(p \<mapsto> n), next_ptr := Suc p\<rparr>)"
proof -
  let ?s = "s\<lparr>inodes := (inodes s)(p \<mapsto> n), next_ptr := Suc p\<rparr>"
  have r: "refs ?s = refs s" "opens E ?s = opens E s" by (simp_all add: fun_eq_iff refs_def opens_def)
  have new: "inodes s p = None" "p \<noteq> 0" using inv_fresh [OF inv, of p] inv_next [OF inv] by (simp_all add: p_def)
  have nd: "dirents s d = Some de \<Longrightarrow> de_inode de \<noteq> p" for d de using inv_dirent(2) [OF inv, of d de] new by auto
  have nf: "files s f = Some fl \<Longrightarrow> f \<notin> E \<Longrightarrow> f_inode fl \<noteq> p" for f fl using inv_file(3) [OF inv, of f fl] new by auto
  have e: "{d. \<exists>de. dirents s d = Some de \<and> de_inode de = p} = {}" "{f. f \<notin> E \<and> (\<exists>fl. files s f = Some fl \<and> f_inode fl = p)} = {}"
    using nd nf by blast+
  have z: "refs s p = 0" "opens E s p = 0" by (simp_all only: refs_def opens_def e card.empty)
  have z': "Y p = 0" "p \<noteq> root_inode s" using inv_none [OF inv new(1)] new(2) by auto
  show ?thesis
  proof (rule fs_invI, unfold r)
    fix q m assume "inodes ?s q = Some m"
    then show "node_ok m \<and> refcount m = int (refs s q + (X(p := 1)) q + (if q = root_inode ?s then 1 else 0))
        \<and> open_count m = int (opens E s q + Y q)"
      using n z z' inv_node(2,3,4) [OF inv, of q] by (cases "q = p") auto
  next
    fix q m assume "inodes ?s q = Some m"
    then show "distinct (de_list m) \<and> (\<forall>d \<in> set (de_list m). dirents ?s d \<noteq> None)"
      using inv_node(5) [OF inv] inv_entry [OF inv] n(4) by (cases "q = p") auto
  next
    fix q m q' m' d assume "inodes ?s q = Some m" "inodes ?s q' = Some m'" "d \<in> set (de_list m)" "d \<in> set (de_list m')"
    then show "q = q'" using inv_entry_unique [OF inv, of q _ q' _ d] n(4) by (auto split: if_splits)
  next
    show "0 < next_ptr ?s" by simp
  next
    fix q assume "q = 0 \<or> next_ptr ?s \<le> q"
    then show "inodes ?s q = None \<and> dirents ?s q = None \<and> files ?s q = None"
      using inv_fresh [OF inv, of q] new(2) by (auto simp: p_def)
  next
    fix q assume "inodes ?s q = None"
    then show "(X(p := 1)) q = 0 \<and> Y q = 0 \<and> (q = root_inode ?s \<longrightarrow> q = 0)"
      using inv_none [OF inv, of q] by (auto split: if_splits)
  next
    fix d de assume "dirents ?s d = Some de"
    then show "inodes ?s (de_inode de) \<noteq> None" using inv_dirent(2) [OF inv, of d de] by auto
  next
    fix f fl assume "files ?s f = Some fl"
    then show "f_req fl = 0 \<and> (f \<notin> E \<longrightarrow> inodes ?s (f_inode fl) \<noteq> None)" using inv_file(2,3) [OF inv, of f fl] by auto
  qed
qed

lemma wp_new:
  assumes inv: "fs_inv X Y E s"
    and Q: "\<And>t p n. fs_inv (X(p := 1)) Y E t \<Longrightarrow> inodes s p = None \<Longrightarrow> inodes t = (inodes s)(p \<mapsto> n) \<Longrightarrow> itype n = type \<Longrightarrow>
      de_list n = [] \<Longrightarrow> files t = files s \<Longrightarrow> dirents t = dirents s \<Longrightarrow> root_inode t = root_inode s \<Longrightarrow> Q p t"
  shows "wlp (inode_new type mode uid gid) Q tame s"
proof -
  define p where "p = next_ptr s"
  define tv where "tv = host_time (fs_host s) (host_calls s)"
  let ?n0 = "empty_inode\<lparr>refcount := 1, inode_num := inode_num_alloc s, itype := type, imode := mode AND 0xfff, iuid := uid, igid := gid\<rparr>"
  let ?n = "?n0\<lparr>mtime_sec := fst tv, mtime_nsec := snd tv * 1000, ctime_sec := fst tv, ctime_nsec := snd tv * 1000\<rparr>"
  let ?s = "s\<lparr>inodes := (inodes s)(p \<mapsto> ?n), next_ptr := Suc p\<rparr>"
  have p: "p \<noteq> 0" "inodes s p = None" using inv_next [OF inv] inv_fresh [OF inv, of p] by (simp_all add: p_def)
  have i: "fs_inv (X(p := 1)) Y E ?s"
    unfolding p_def by (rule inv_alloc [OF inv]) (simp_all add: empty_inode_def node_ok_def file_buffer_init_def)
  have q: "Q p t" if "same_heaps ?s t" for t
    by (rule Q [of p t ?n, OF inv_same [OF i that]]) (use that p in \<open>simp_all add: same_heaps_def empty_inode_def\<close>)
  show ?thesis unfolding inode_new_def fresh_def wlp_simps p_def [symmetric]
    by (rule wp_add_count)
      (use p in \<open>auto simp: inode_update_mtime_def gettimeofday_def upd_inode_def wlp_simps wlp_load tv_def same_heaps_def
         split: prod.splits intro!: q\<close>)
qed

section \<open>Rules for directories\<close>

lemma inv_add_entry:
  assumes inv: "fs_inv X Y E s" and n: "inodes s p = Some n" "node_ok n'" "itype n' = itype n"
    "refcount n' = refcount n" "open_count n' = open_count n" "de_list n' = de_list n @ [d]"
    and d: "d = next_ptr s" and x: "0 < X p1"
  shows "fs_inv (X(p1 := X p1 - 1)) Y E (s\<lparr>inodes := (inodes s)(p \<mapsto> n'),
    dirents := (dirents s)(d \<mapsto> \<lparr>de_inode = p1, de_name = name\<rparr>), next_ptr := Suc d\<rparr>)"
proof -
  let ?s = "s\<lparr>inodes := (inodes s)(p \<mapsto> n'), dirents := (dirents s)(d \<mapsto> \<lparr>de_inode = p1, de_name = name\<rparr>), next_ptr := Suc d\<rparr>"
  have new: "dirents s d = None" "d \<noteq> 0" using inv_fresh [OF inv, of d] inv_next [OF inv] d by simp_all
  have old: "d \<notin> set (de_list m)" if "inodes s q = Some m" for q m using inv_entry [OF inv that, of d] new(1) by auto
  have o: "opens E ?s = opens E s" by (simp add: fun_eq_iff opens_def)
  have r: "refs ?s q = refs s q + (if q = p1 then 1 else 0)" for q
  proof -
    define A where "A = {x. \<exists>de. dirents s x = Some de \<and> de_inode de = q}"
    have e: "{x. \<exists>de. dirents ?s x = Some de \<and> de_inode de = q} = (if q = p1 then insert d A else A)"
      using new(1) by (auto simp: A_def)
    have "finite A" "d \<notin> A" using inv_finite(1) [OF inv, of q] new(1) by (simp_all add: A_def)
    then show ?thesis unfolding refs_def e A_def [symmetric] by simp
  qed
  have p1: "inodes s p1 \<noteq> None" using inv_held [OF inv] x by auto
  show ?thesis
  proof (rule fs_invI, unfold r o)
    fix q m assume "inodes ?s q = Some m"
    then show "node_ok m \<and> refcount m = int (refs s q + (if q = p1 then 1 else 0) + (X(p1 := X p1 - 1)) q + (if q = root_inode ?s then 1 else 0))
        \<and> open_count m = int (opens E s q + Y q)"
      using n inv_node(2,3,4) [OF inv, of q] x by (cases "q = p") auto
  next
    fix q m assume "inodes ?s q = Some m"
    then show "distinct (de_list m) \<and> (\<forall>d \<in> set (de_list m). dirents ?s d \<noteq> None)"
      using inv_node(5) [OF inv, of q] inv_entry [OF inv, of q] n(1,6) old [of q] by (cases "q = p") auto
  next
    fix q m q' m' x assume "inodes ?s q = Some m" "inodes ?s q' = Some m'" "x \<in> set (de_list m)" "x \<in> set (de_list m')"
    then show "q = q'" using inv_entry_unique [OF inv, of q _ q' _ x] n(1,6) old by (auto split: if_splits)
  next
    show "0 < next_ptr ?s" by simp
  next
    fix q assume "q = 0 \<or> next_ptr ?s \<le> q"
    then show "inodes ?s q = None \<and> dirents ?s q = None \<and> files ?s q = None"
      using inv_fresh [OF inv, of q] new(2) n(1) d by auto
  next
    fix q assume "inodes ?s q = None"
    then show "(X(p1 := X p1 - 1)) q = 0 \<and> Y q = 0 \<and> (q = root_inode ?s \<longrightarrow> q = 0)"
      using inv_none [OF inv, of q] by (auto split: if_splits)
  next
    fix x de assume "dirents ?s x = Some de"
    then show "inodes ?s (de_inode de) \<noteq> None" using inv_dirent(2) [OF inv, of x de] p1 by (auto split: if_splits)
  next
    fix f fl assume "files ?s f = Some fl"
    then show "f_req fl = 0 \<and> (f \<notin> E \<longrightarrow> inodes ?s (f_inode fl) \<noteq> None)" using inv_file(2,3) [OF inv, of f fl] by auto
  qed
qed

lemma inv_del_entry:
  assumes inv: "fs_inv X Y E s" and n: "inodes s p = Some n" "node_ok n'" "itype n' = itype n"
    "refcount n' = refcount n" "open_count n' = open_count n" "de_list n' = remove1 d (de_list n)"
    and d: "dirents s d = Some de" "d \<in> set (de_list n)"
  shows "fs_inv (X(de_inode de := Suc (X (de_inode de)))) Y E (s\<lparr>inodes := (inodes s)(p \<mapsto> n'), dirents := (dirents s)(d := None)\<rparr>)"
proof -
  let ?s = "s\<lparr>inodes := (inodes s)(p \<mapsto> n'), dirents := (dirents s)(d := None)\<rparr>" and ?p1 = "de_inode de"
  have o: "opens E ?s = opens E s" by (simp add: fun_eq_iff opens_def)
  have old: "d \<notin> set (de_list m)" if "inodes s q = Some m" "q \<noteq> p" for q m
    using inv_entry_unique [OF inv n(1) that(1) d(2)] that(2) by auto
  have r: "refs s q = refs ?s q + (if q = ?p1 then 1 else 0)" for q
  proof -
    define A where "A = {x. \<exists>de. dirents ?s x = Some de \<and> de_inode de = q}"
    have e: "{x. \<exists>de. dirents s x = Some de \<and> de_inode de = q} = (if q = ?p1 then insert d A else A)"
      using d(1) by (auto simp: A_def split: if_splits)
    have "finite A" unfolding A_def by (rule finite_subset [OF _ inv_finite(1) [OF inv, of q]]) auto
    moreover have "d \<notin> A" by (simp add: A_def)
    ultimately show ?thesis unfolding refs_def e A_def [symmetric] by simp
  qed
  have dl: "set (de_list n') = set (de_list n) - {d}" "distinct (de_list n')"
    using inv_node(5) [OF inv n(1)] n(6) by simp_all
  show ?thesis
  proof (rule fs_invI, unfold o)
    fix q m assume "inodes ?s q = Some m"
    then show "node_ok m \<and> refcount m = int (refs ?s q + (X(?p1 := Suc (X ?p1))) q + (if q = root_inode ?s then 1 else 0))
        \<and> open_count m = int (opens E s q + Y q)"
      using n inv_node(2,3,4) [OF inv, of q] r [of q] by (cases "q = p") auto
  next
    fix q m assume "inodes ?s q = Some m"
    then show "distinct (de_list m) \<and> (\<forall>d \<in> set (de_list m). dirents ?s d \<noteq> None)"
      using inv_node(5) [OF inv, of q] inv_entry [OF inv, of q] n(1) dl old [of q] by (cases "q = p") auto
  next
    fix q m q' m' x assume "inodes ?s q = Some m" "inodes ?s q' = Some m'" "x \<in> set (de_list m)" "x \<in> set (de_list m')"
    then show "q = q'" using inv_entry_unique [OF inv, of q _ q' _ x] n(1) dl by (auto split: if_splits)
  next
    show "0 < next_ptr ?s" using inv_next [OF inv] by simp
  next
    fix q assume "q = 0 \<or> next_ptr ?s \<le> q"
    then show "inodes ?s q = None \<and> dirents ?s q = None \<and> files ?s q = None" using inv_fresh [OF inv, of q] n(1) by auto
  next
    fix q assume "inodes ?s q = None"
    then show "(X(?p1 := Suc (X ?p1))) q = 0 \<and> Y q = 0 \<and> (q = root_inode ?s \<longrightarrow> q = 0)"
      using inv_none [OF inv, of q] inv_dirent(2) [OF inv d(1)] by (auto split: if_splits)
  next
    fix x de' assume "dirents ?s x = Some de'"
    then show "inodes ?s (de_inode de') \<noteq> None" using inv_dirent(2) [OF inv, of x de'] by (auto split: if_splits)
  next
    fix f fl assume "files ?s f = Some fl"
    then show "f_req fl = 0 \<and> (f \<notin> E \<longrightarrow> inodes ?s (f_inode fl) \<noteq> None)" using inv_file(2,3) [OF inv, of f fl] by auto
  qed
qed

lemma wp_dir_add:
  assumes inv: "fs_inv X Y E s" and n: "inodes s p = Some n" and x: "0 < X p1"
    and Q: "\<And>t d n'. fs_inv (X(p1 := X p1 - 1)) Y E t \<Longrightarrow> dirents s d = None \<Longrightarrow>
      dirents t = (dirents s)(d \<mapsto> \<lparr>de_inode = p1, de_name = name\<rparr>) \<Longrightarrow> inodes t = (inodes s)(p \<mapsto> n') \<Longrightarrow>
      itype n = FT_DIR \<Longrightarrow> itype n' = FT_DIR \<Longrightarrow> de_list n' = de_list n @ [d] \<Longrightarrow> files t = files s \<Longrightarrow> root_inode t = root_inode s \<Longrightarrow> Q d t"
  shows "wlp (inode_dir_add p name p1) Q tame s"
proof (cases "itype n = FT_DIR")
  case False
  then show ?thesis unfolding inode_dir_add_def wlp_bnd by (intro wp_inode [OF inv n]) (simp add: wlp_simps)
next
  case True
  define d where "d = next_ptr s"
  have p0: "p \<noteq> 0" by (rule inv_node(1) [OF inv n])
  have q: "Q d t" if t: "same_heaps (s\<lparr>inodes := (inodes s)(p \<mapsto> n\<lparr>dir_size := z, de_list := de_list n @ [d]\<rparr>),
      dirents := (dirents s)(d \<mapsto> \<lparr>de_inode = p1, de_name = name\<rparr>), next_ptr := Suc d\<rparr>) t" for t z
  proof (rule Q [of t d "n\<lparr>dir_size := z, de_list := de_list n @ [d]\<rparr>"])
    show "fs_inv (X(p1 := X p1 - 1)) Y E t"
      by (rule inv_same [OF inv_add_entry [OF inv n] t])
        (use inv_node(2) [OF inv n] True x in \<open>simp_all add: d_def node_ok_def\<close>)
    show "dirents s d = None" using inv_fresh [OF inv, of d] by (simp add: d_def)
  qed (use t True in \<open>simp_all add: same_heaps_def\<close>)
  show ?thesis unfolding inode_dir_add_def wlp_bnd
    by (intro wp_inode [OF inv n])
      (use True n p0 in \<open>auto simp: wlp_simps fresh_def dir_resize_def upd_inode_def wlp_load same_heaps_def d_def [symmetric]
         intro!: wp_add_blocks q\<close>)
qed

lemma wp_delete_no_decref:
  assumes inv: "fs_inv X Y E s" and n: "inodes s p = Some n" and d: "dirents s d = Some de" "d \<in> set (de_list n)"
    and Q: "\<And>t n'. fs_inv (X(de_inode de := Suc (X (de_inode de)))) Y E t \<Longrightarrow> dirents t = (dirents s)(d := None) \<Longrightarrow>
      inodes t = (inodes s)(p \<mapsto> n') \<Longrightarrow> itype n' = itype n \<Longrightarrow> de_list n' = remove1 d (de_list n) \<Longrightarrow>
      files t = files s \<Longrightarrow> root_inode t = root_inode s \<Longrightarrow> Q () t"
  shows "wlp (inode_dirent_delete_no_decref p d) Q tame s"
proof -
  have p0: "p \<noteq> 0" by (rule inv_node(1) [OF inv n])
  have q: "Q () t" if t: "same_heaps (s\<lparr>inodes := (inodes s)(p \<mapsto> n\<lparr>dir_size := z, de_list := remove1 d (de_list n)\<rparr>),
      dirents := (dirents s)(d := None)\<rparr>) t" for t z
  proof (rule Q [of t "n\<lparr>dir_size := z, de_list := remove1 d (de_list n)\<rparr>"])
    show "fs_inv (X(de_inode de := Suc (X (de_inode de)))) Y E t"
      by (rule inv_same [OF inv_del_entry [OF inv n _ _ _ _ _ d] t])
        (use inv_node(2) [OF inv n] d(2) in \<open>auto simp: node_ok_def\<close>)
  qed (use t in \<open>simp_all add: same_heaps_def\<close>)
  show ?thesis unfolding inode_dirent_delete_no_decref_def wlp_bnd
    by (intro wp_dirent [OF inv d(1)])
      (use n p0 in \<open>auto simp: wlp_simps dir_resize_def upd_inode_def wlp_load same_heaps_def intro!: wp_add_blocks q\<close>)
qed

text \<open>What deleting an entry leaves: only the list of its directory changes, and an inode may go.\<close>

definition entry_gone :: "ptr \<Rightarrow> ptr \<Rightarrow> 'k fsdevicemem \<Rightarrow> 'k fsdevicemem \<Rightarrow> bool" where
  "entry_gone p d s t \<longleftrightarrow> files t = files s \<and> root_inode t = root_inode s \<and> dirents t = (dirents s)(d := None)
     \<and> (\<forall>q m'. inodes t q = Some m' \<longrightarrow> (\<exists>m. inodes s q = Some m \<and> itype m' = itype m
          \<and> de_list m' = (if q = p then remove1 d (de_list m) else de_list m)))"

lemma entry_gone_node:
  "entry_gone p d s t \<Longrightarrow> inodes t q = Some m' \<Longrightarrow>
    \<exists>m. inodes s q = Some m \<and> itype m' = itype m \<and> de_list m' = (if q = p then remove1 d (de_list m) else de_list m)"
  by (simp add: entry_gone_def)

lemma wp_dirent_delete:
  fixes s :: "'k fsdevicemem"
  assumes inv: "fs_inv X Y E s" and n: "inodes s p = Some n" and d: "dirents s d = Some de" "d \<in> set (de_list n)"
    and Q: "\<And>t. fs_inv X Y E t \<Longrightarrow> entry_gone p d s t \<Longrightarrow> Q () t"
  shows "wlp (inode_dirent_delete p d) Q tame s"
  unfolding inode_dirent_delete_def wlp_bnd wlp_andthen
proof (rule wp_dirent [OF inv d(1)], rule wp_delete_no_decref [OF inv n d])
  fix t :: "'k fsdevicemem" and n'
  assume 1: "fs_inv (X(de_inode de := Suc (X (de_inode de)))) Y E t" "dirents t = (dirents s)(d := None)"
    "inodes t = (inodes s)(p \<mapsto> n')" "itype n' = itype n" "de_list n' = remove1 d (de_list n)" "files t = files s" "root_inode t = root_inode s"
  show "wlp (inode_decref (de_inode de)) Q tame t"
  proof (rule wp_decref [OF 1(1)])
    fix u
    assume u: "fs_inv ((X(de_inode de := Suc (X (de_inode de))))(de_inode de := (X(de_inode de := Suc (X (de_inode de)))) (de_inode de) - 1)) Y E u"
      "tree_le t u"
    have "\<exists>m. inodes s q = Some m \<and> itype m' = itype m \<and> de_list m' = (if q = p then remove1 d (de_list m) else de_list m)"
      if iu: "inodes u q = Some m'" for q m'
    proof -
      obtain m where "inodes t q = Some m" "itype m' = itype m" "de_list m' = de_list m"
        using tree_le_node [OF u(2) iu] by blast
      then show ?thesis using 1(3,4,5) n by (cases "q = p") auto
    qed
    moreover have "files u = files s" "root_inode u = root_inode s" "dirents u = (dirents s)(d := None)"
      using u(2) 1 by (simp_all add: tree_le_def)
    ultimately show "Q () u" using u(1) by (intro Q) (simp_all add: entry_gone_def)
  qed simp
qed

text \<open>Looking up a name.\<close>

lemma wp_find:
  assumes "fs_inv X Y E s" "\<forall>d \<in> set ds. dirents s d \<noteq> None"
    and "(\<forall>d \<in> set ds. \<forall>de. dirents s d = Some de \<longrightarrow> \<not> P de) \<Longrightarrow> Q 0 s"
    and "\<And>d de. d \<in> set ds \<Longrightarrow> dirents s d = Some de \<Longrightarrow> P de \<Longrightarrow> Q d s"
  shows "wlp (find_dirent P ds) Q F s"
  using assms(2-)
proof (induction ds)
  case Nil
  then show ?case unfolding find_dirent.simps wlp_ret by simp
next
  case (Cons d ds)
  obtain de where de: "dirents s d = Some de" using Cons.prems(1) by auto
  show ?case unfolding find_dirent.simps wlp_bnd
    by (rule wp_dirent [OF assms(1) de]) (use Cons de in \<open>auto simp: wlp_simps\<close>)
qed

lemma wp_search:
  assumes inv: "fs_inv X Y E s" and n: "inodes s p = Some n"
    and "Q 0 s" and "\<And>d de. d \<in> set (de_list n) \<Longrightarrow> dirents s d = Some de \<Longrightarrow> de_name de = name \<Longrightarrow> d \<noteq> 0 \<Longrightarrow> itype n = FT_DIR \<Longrightarrow> Q d s"
  shows "wlp (inode_search p name) Q F s"
  unfolding inode_search_def wlp_bnd
proof (rule wp_inode [OF inv n])
  show "wlp (if itype n \<noteq> FT_DIR then ret 0 else find_dirent (\<lambda>de. de_name de = name) (de_list n)) Q F s"
  proof (cases "itype n = FT_DIR")
    case True
    have "wlp (find_dirent (\<lambda>de. de_name de = name) (de_list n)) Q F s"
      by (rule wp_find [OF inv]) (use inv_entry [OF inv n] inv_dirent(1) [OF inv] assms(3,4) True in auto)
    then show ?thesis using True by simp
  qed (use assms(3) in \<open>simp add: wlp_simps\<close>)
qed

text \<open>Emptying a directory that another entry keeps alive.\<close>

lemma wp_flush_entries:
  fixes s :: "'k fsdevicemem"
  assumes "fs_inv X Y E s" "inodes s p = Some n" "set ds \<subseteq> set (de_list n)" "distinct ds"
    and "dirents s d0 = Some de0" "de_inode de0 = p" "d0 \<notin> set ds"
    and "\<And>t. fs_inv X Y E t \<Longrightarrow> files t = files s \<Longrightarrow> root_inode t = root_inode s \<Longrightarrow> (\<forall>d. d \<notin> set ds \<longrightarrow> dirents t d = dirents s d) \<Longrightarrow>
      (\<forall>q m'. inodes t q = Some m' \<longrightarrow> (\<exists>m. inodes s q = Some m \<and> itype m' = itype m \<and> (q \<noteq> p \<longrightarrow> de_list m' = de_list m))) \<Longrightarrow> Q () t"
  shows "wlp (flush_entries p ds) Q tame s"
  using assms
proof (induction ds arbitrary: s n)
  case Nil
  show ?case unfolding flush_entries.simps wlp_ret by (rule Nil.prems(8)) (use Nil.prems(1) in auto)
next
  case (Cons d ds)
  have dn: "d \<in> set (de_list n)" using Cons.prems(3) by simp
  obtain de where de: "dirents s d = Some de" using inv_entry [OF Cons.prems(1,2) dn] by blast
  show ?case unfolding flush_entries.simps wlp_andthen
  proof (rule wp_dirent_delete [OF Cons.prems(1,2) de dn])
    fix t :: "'k fsdevicemem"
    assume t: "fs_inv X Y E t" "entry_gone p d s t"
    have d0: "dirents t d0 = Some de0" using t(2) Cons.prems(5,7) by (simp add: entry_gone_def)
    obtain n' where n': "inodes t p = Some n'" using inv_dirent(2) [OF t(1) d0] Cons.prems(6) by auto
    have "de_list n' = remove1 d (de_list n)" using entry_gone_node [OF t(2) n'] Cons.prems(2) by auto
    then have sub: "set ds \<subseteq> set (de_list n')"
      using Cons.prems(3,4) inv_node(5) [OF Cons.prems(1,2)] by auto
    show "wlp (flush_entries p ds) Q tame t"
    proof (rule Cons.IH [OF t(1) n' sub _ d0 Cons.prems(6)])
      fix u :: "'k fsdevicemem"
      assume u: "fs_inv X Y E u" "files u = files t" "root_inode u = root_inode t" "\<forall>d. d \<notin> set ds \<longrightarrow> dirents u d = dirents t d"
        "\<forall>q m'. inodes u q = Some m' \<longrightarrow> (\<exists>m. inodes t q = Some m \<and> itype m' = itype m \<and> (q \<noteq> p \<longrightarrow> de_list m' = de_list m))"
      have "\<exists>m. inodes s q = Some m \<and> itype m' = itype m \<and> (q \<noteq> p \<longrightarrow> de_list m' = de_list m)" if iu: "inodes u q = Some m'" for q m'
      proof -
        obtain m1 where m1: "inodes t q = Some m1" "itype m' = itype m1" "q \<noteq> p \<longrightarrow> de_list m' = de_list m1"
          using u(5) iu by blast
        then obtain m where "inodes s q = Some m" "itype m1 = itype m" "q \<noteq> p \<longrightarrow> de_list m1 = de_list m"
          using entry_gone_node [OF t(2) m1(1)] by (auto split: if_splits)
        then show ?thesis using m1 by auto
      qed
      then show "Q () u" using u t(2) by (intro Cons.prems(8)) (auto simp: entry_gone_def)
    qed (use Cons.prems(4,7) in auto)
  qed
qed

section \<open>Rules for handles\<close>

lemma inv_set_file:
  assumes inv: "fs_inv X Y E s" and f: "f \<in> E \<or> files s f = None" "f \<noteq> 0" "f < next_ptr s"
    and fl: "f_inode fl = p" "f_req fl = 0" and y: "0 < Y p"
  shows "fs_inv X (Y(p := Y p - 1)) (E - {f}) (s\<lparr>files := (files s)(f \<mapsto> fl)\<rparr>)"
proof -
  let ?s = "s\<lparr>files := (files s)(f \<mapsto> fl)\<rparr>"
  have r: "refs ?s = refs s" by (simp add: fun_eq_iff refs_def)
  have o: "opens (E - {f}) ?s q = opens E s q + (if q = p then 1 else 0)" for q
  proof -
    define A where "A = {x. x \<notin> E \<and> (\<exists>fl. files s x = Some fl \<and> f_inode fl = q)}"
    have e: "{x. x \<notin> E - {f} \<and> (\<exists>fl. files ?s x = Some fl \<and> f_inode fl = q)} = (if q = p then insert f A else A)"
      using f(1) fl(1) by (auto simp: A_def)
    have "finite A" "f \<notin> A" using inv_finite(2) [OF inv, of q] f(1) by (auto simp: A_def)
    then show ?thesis unfolding opens_def e A_def [symmetric] by simp
  qed
  have p: "inodes s p \<noteq> None" using inv_held [OF inv] y by auto
  show ?thesis
  proof (rule fs_invI, unfold r o)
    fix q m assume "inodes ?s q = Some m"
    then show "node_ok m \<and> refcount m = int (refs s q + X q + (if q = root_inode ?s then 1 else 0))
        \<and> open_count m = int (opens E s q + (if q = p then 1 else 0) + (Y(p := Y p - 1)) q)"
      using inv_node(2,3,4) [OF inv, of q] y by auto
  next
    fix q m assume "inodes ?s q = Some m"
    then show "distinct (de_list m) \<and> (\<forall>d \<in> set (de_list m). dirents ?s d \<noteq> None)"
      using inv_node(5) [OF inv] inv_entry [OF inv] by auto
  next
    fix q m q' m' d assume "inodes ?s q = Some m" "inodes ?s q' = Some m'" "d \<in> set (de_list m)" "d \<in> set (de_list m')"
    then show "q = q'" using inv_entry_unique [OF inv, of q _ q' _ d] by auto
  next
    show "0 < next_ptr ?s" using inv_next [OF inv] by simp
  next
    fix q assume "q = 0 \<or> next_ptr ?s \<le> q"
    then show "inodes ?s q = None \<and> dirents ?s q = None \<and> files ?s q = None" using inv_fresh [OF inv, of q] f(2,3) by auto
  next
    fix q assume "inodes ?s q = None"
    then show "X q = 0 \<and> (Y(p := Y p - 1)) q = 0 \<and> (q = root_inode ?s \<longrightarrow> q = 0)" using inv_none [OF inv, of q] by auto
  next
    fix d de assume "dirents ?s d = Some de"
    then show "inodes ?s (de_inode de) \<noteq> None" using inv_dirent(2) [OF inv, of d de] by auto
  next
    fix x xl assume "files ?s x = Some xl"
    then show "f_req xl = 0 \<and> (x \<notin> E - {f} \<longrightarrow> inodes ?s (f_inode xl) \<noteq> None)"
      using inv_file(2,3) [OF inv, of x xl] fl p by (cases "x = f") auto
  qed
qed

text \<open>A handle gives up its reference to the local variable that holds it.\<close>

lemma inv_release_file:
  assumes inv: "fs_inv X Y E s" and f: "files s f = Some fl" "f \<notin> E"
  shows "fs_inv X (Y(f_inode fl := Suc (Y (f_inode fl)))) (insert f E) s"
proof -
  let ?p = "f_inode fl"
  have o: "opens E s q = opens (insert f E) s q + (if q = ?p then 1 else 0)" for q
  proof -
    define A where "A = {x. x \<notin> insert f E \<and> (\<exists>fl. files s x = Some fl \<and> f_inode fl = q)}"
    have e: "{x. x \<notin> E \<and> (\<exists>fl. files s x = Some fl \<and> f_inode fl = q)} = (if q = ?p then insert f A else A)"
      using f by (auto simp: A_def)
    have "finite A" unfolding A_def by (rule finite_subset [OF _ inv_finite(2) [OF inv, of q]]) auto
    moreover have "f \<notin> A" by (simp add: A_def)
    ultimately show ?thesis unfolding opens_def e A_def [symmetric] by simp
  qed
  show ?thesis
  proof (rule fs_invI)
    fix q m assume "inodes s q = Some m"
    then show "node_ok m \<and> refcount m = int (refs s q + X q + (if q = root_inode s then 1 else 0))
        \<and> open_count m = int (opens (insert f E) s q + (Y(?p := Suc (Y ?p))) q)"
      using inv_node(2,3,4) [OF inv, of q] o [of q] by auto
  next
    fix q assume "inodes s q = None"
    then show "X q = 0 \<and> (Y(?p := Suc (Y ?p))) q = 0 \<and> (q = root_inode s \<longrightarrow> q = 0)"
      using inv_none [OF inv, of q] inv_file(3) [OF inv f] by auto
  next
    show "0 < next_ptr s" by (rule inv_next [OF inv])
  next
    fix q assume "q = 0 \<or> next_ptr s \<le> q"
    then show "inodes s q = None \<and> dirents s q = None \<and> files s q = None" by (rule inv_fresh [OF inv])
  next
    fix q m assume "inodes s q = Some m"
    then show "distinct (de_list m) \<and> (\<forall>d \<in> set (de_list m). dirents s d \<noteq> None)"
      using inv_node(5) [OF inv] inv_entry [OF inv] by auto
  next
    fix q m q' m' d assume "inodes s q = Some m" "inodes s q' = Some m'" "d \<in> set (de_list m)" "d \<in> set (de_list m')"
    then show "q = q'" by (rule inv_entry_unique [OF inv])
  next
    fix d de assume "dirents s d = Some de"
    then show "inodes s (de_inode de) \<noteq> None" using inv_dirent(2) [OF inv, of d de] by auto
  next
    fix x xl assume "files s x = Some xl"
    then show "f_req xl = 0 \<and> (x \<notin> insert f E \<longrightarrow> inodes s (f_inode xl) \<noteq> None)" using inv_file(2,3) [OF inv, of x xl] by auto
  qed
qed

lemma inv_free_file:
  assumes inv: "fs_inv X Y E s" and f: "f \<in> E"
  shows "fs_inv X Y (E - {f}) (s\<lparr>files := (files s)(f := None)\<rparr>)"
proof -
  let ?s = "s\<lparr>files := (files s)(f := None)\<rparr>"
  have r: "refs ?s = refs s" by (simp add: fun_eq_iff refs_def)
  have o: "opens (E - {f}) ?s = opens E s"
  proof
    fix q
    have "{x. x \<notin> E - {f} \<and> (\<exists>fl. files ?s x = Some fl \<and> f_inode fl = q)} = {x. x \<notin> E \<and> (\<exists>fl. files s x = Some fl \<and> f_inode fl = q)}"
      using f by auto
    then show "opens (E - {f}) ?s q = opens E s q" by (simp only: opens_def)
  qed
  show ?thesis
  proof (rule fs_invI, unfold r o)
    fix q m assume "inodes ?s q = Some m"
    then show "node_ok m \<and> refcount m = int (refs s q + X q + (if q = root_inode ?s then 1 else 0)) \<and> open_count m = int (opens E s q + Y q)"
      using inv_node(2,3,4) [OF inv, of q] by auto
  next
    fix q m assume "inodes ?s q = Some m"
    then show "distinct (de_list m) \<and> (\<forall>d \<in> set (de_list m). dirents ?s d \<noteq> None)"
      using inv_node(5) [OF inv] inv_entry [OF inv] by auto
  next
    fix q m q' m' d assume "inodes ?s q = Some m" "inodes ?s q' = Some m'" "d \<in> set (de_list m)" "d \<in> set (de_list m')"
    then show "q = q'" using inv_entry_unique [OF inv, of q _ q' _ d] by auto
  next
    show "0 < next_ptr ?s" using inv_next [OF inv] by simp
  next
    fix q assume "q = 0 \<or> next_ptr ?s \<le> q"
    then show "inodes ?s q = None \<and> dirents ?s q = None \<and> files ?s q = None" using inv_fresh [OF inv, of q] by auto
  next
    fix q assume "inodes ?s q = None"
    then show "X q = 0 \<and> Y q = 0 \<and> (q = root_inode ?s \<longrightarrow> q = 0)" using inv_none [OF inv, of q] by auto
  next
    fix d de assume "dirents ?s d = Some de"
    then show "inodes ?s (de_inode de) \<noteq> None" using inv_dirent(2) [OF inv, of d de] by auto
  next
    fix x xl assume "files ?s x = Some xl"
    then show "f_req xl = 0 \<and> (x \<notin> E - {f} \<longrightarrow> inodes ?s (f_inode xl) \<noteq> None)"
      using inv_file(2,3) [OF inv, of x xl] by (cases "x = f") auto
  qed
qed

text \<open>A handle whose flags change.\<close>

lemma inv_upd_file:
  assumes inv: "fs_inv X Y E s" and f: "files s f = Some fl" "f \<notin> E" "f_inode fl' = f_inode fl" "f_req fl' = 0"
  shows "fs_inv X Y E (s\<lparr>files := (files s)(f \<mapsto> fl')\<rparr>)"
proof -
  have "\<not> (f = 0 \<or> next_ptr s \<le> f)" by (rule notI, drule inv_fresh [OF inv]) (simp add: f(1))
  then have lt: "f < next_ptr s" "f \<noteq> 0" by auto
  have "fs_inv X ((Y(f_inode fl := Suc (Y (f_inode fl))))(f_inode fl := Suc (Y (f_inode fl)) - 1)) (insert f E - {f})
      (s\<lparr>files := (files s)(f \<mapsto> fl')\<rparr>)"
    using inv_set_file [OF inv_release_file [OF inv f(1,2)], of f fl' "f_inode fl"] lt f(3,4) by simp
  then show ?thesis using f(2) by simp
qed

end
