(* ===== verification/Fs_Safe.thy ===== *)
theory Fs_Safe
  imports Fs_Inv
begin

text \<open>
  Memory safety of the local file system of \<open>src/src/fs_net.c\<close>: every operation of the interface keeps the
  invariant of theory \<open>Fs_Inv\<close>, and no operation follows a null or dangling pointer or leaves a buffer.
\<close>

section \<open>Handles\<close>

abbreviation none_held :: "ptr \<Rightarrow> nat" where
  "none_held \<equiv> \<lambda>_. 0"

abbreviation fs_ok :: "'k fsdevicemem \<Rightarrow> bool" where
  "fs_ok s \<equiv> fs_inv none_held none_held {} s"

lemma wp_upd_file:
  "fs_inv X Y E s \<Longrightarrow> files s f = Some fl \<Longrightarrow> Q () (s\<lparr>files := (files s)(f \<mapsto> g fl)\<rparr>) \<Longrightarrow> wlp (upd_file f g) Q F s"
  unfolding upd_file_def wlp_bnd by (rule wp_file) (simp_all add: wlp_simps)

lemma wp_close:
  assumes inv: "fs_inv X Y E s" and f: "files s f = Some fl" "f \<notin> E"
    and Q: "\<And>t fl'. fs_inv X Y E t \<Longrightarrow> t = s\<lparr>files := (files s)(f \<mapsto> fl')\<rparr> \<Longrightarrow> f_inode fl' = f_inode fl \<Longrightarrow> f_uid fl' = f_uid fl \<Longrightarrow> Q () t"
  shows "wlp (fs_close_mem f) Q F s"
proof -
  have r: "f_req fl = 0" by (rule inv_file(2) [OF inv f(1)])
  have same: "s = s\<lparr>files := (files s)(f \<mapsto> fl)\<rparr>" using f(1) by (simp add: fun_upd_idem)
  have "Q () s" by (rule Q [OF inv same]) simp_all
  moreover have "Q () (s\<lparr>files := (files s)(f \<mapsto> fl\<lparr>is_opened := False\<rparr>)\<rparr>)"
    by (rule Q [OF inv_upd_file [OF inv f] refl]) (simp_all add: r)
  ultimately show ?thesis unfolding fs_close_mem_def wlp_bnd
    by (intro wp_file [OF inv f(1)]) (auto simp: wlp_simps r intro!: wp_upd_file [OF inv f(1)])
qed

lemma inv_bump:
  assumes "fs_inv X Y E s" "inodes t = inodes s" "dirents t = dirents s" "files t = files s" "root_inode t = root_inode s"
    and "next_ptr s \<le> next_ptr t"
  shows "fs_inv X Y E t"
proof -
  have 1: "\<forall>p. p = 0 \<or> next_ptr t \<le> p \<longrightarrow> inodes s p = None \<and> dirents s p = None \<and> files s p = None"
    by (intro allI impI inv_fresh [OF assms(1)]) (use assms(6) in auto)
  have 2: "0 < next_ptr t" using inv_next [OF assms(1)] assms(6) by simp
  have r: "refs t = refs s" "opens E t = opens E s" by (simp_all add: fun_eq_iff refs_def opens_def assms)
  show ?thesis unfolding fs_inv_def r assms(2-5)
    by (intro conjI) (rule 1 2 inv_parts(2-) [OF assms(1)])+
qed

lemma wp_fid_create:
  assumes inv: "fs_inv X Y E s" and n: "inodes s n \<noteq> None" and E: "E = {}"
    and Q: "\<And>t f fl. fs_inv X Y E t \<Longrightarrow> files s f = None \<Longrightarrow> files t = (files s)(f \<mapsto> fl) \<Longrightarrow> f_inode fl = n \<Longrightarrow> f_uid fl = uid \<Longrightarrow>
      dirents t = dirents s \<Longrightarrow> root_inode t = root_inode s \<Longrightarrow>
      (\<And>p m. inodes s p = Some m \<Longrightarrow> \<exists>m'. inodes t p = Some m' \<and> itype m' = itype m \<and> de_list m' = de_list m \<and> inode_num m' = inode_num m) \<Longrightarrow> Q f t"
  shows "wlp (fid_create n uid) Q tame s"
proof -
  define f where "f = next_ptr s"
  let ?s = "s\<lparr>next_ptr := Suc f\<rparr>"
  have i: "fs_inv X Y E ?s" by (rule inv_bump [OF inv]) (simp_all add: f_def)
  obtain m where m: "inodes s n = Some m" using n by auto
  let ?fl = "\<lparr>f_uid = uid, f_inode = n, is_opened = False, open_flags = 0, f_req = 0\<rparr>"
  let ?m = "m\<lparr>open_count := open_count m + 1\<rparr>"
  let ?t = "?s\<lparr>inodes := (inodes ?s)(n \<mapsto> ?m)\<rparr>"
  have u: "fs_inv (X(n := X n)) (Y(n := Suc (Y n))) E ?t"
    by (rule inv_upd [OF i, of n m]) (use m inv_node(2) [OF inv m] in auto)
  have nf: "files s f = None" "f \<noteq> 0" using inv_fresh [OF inv, of f] inv_next [OF inv] by (simp_all add: f_def)
  have "fs_inv X ((Y(n := Suc (Y n)))(n := Suc (Y n) - 1)) (E - {f}) (?t\<lparr>files := (files ?t)(f \<mapsto> ?fl)\<rparr>)"
    using inv_set_file [of X "Y(n := Suc (Y n))" E ?t f ?fl n] u nf by (simp add: f_def)
  then have j: "fs_inv X Y E (?t\<lparr>files := (files ?t)(f \<mapsto> ?fl)\<rparr>)" using E by simp
  have "Q f (?t\<lparr>files := (files ?t)(f \<mapsto> ?fl)\<rparr>)" by (rule Q [OF j nf(1)]) (use m in auto)
  then show ?thesis
    unfolding fid_create_def fresh_def inode_inc_open_def upd_inode_def
    using m inv_node(1) [OF inv m] by (simp add: wlp_simps wlp_load f_def [symmetric])
qed

lemma wp_delete:
  assumes inv: "fs_ok s" and f: "files s f = Some fl"
    and Q: "\<And>t. fs_ok t \<Longrightarrow> files t = (files s)(f := None) \<Longrightarrow> dirents t = dirents s \<Longrightarrow> root_inode t = root_inode s \<Longrightarrow> Q () t"
  shows "wlp (fs_delete_mem f) Q tame s"
  unfolding fs_delete_mem_def wlp_andthen
proof (rule wp_close [OF inv f])
  fix t fl'
  assume t: "fs_ok t" "t = s\<lparr>files := (files s)(f \<mapsto> fl')\<rparr>" "f_inode fl' = f_inode fl" "f_uid fl' = f_uid fl"
  have f': "files t f = Some fl'" using t(2) by simp
  let ?Y = "none_held(f_inode fl' := Suc 0)"
  have i: "fs_inv none_held ?Y {f} t" using inv_release_file [OF t(1) f'] by simp
  show "wlp (bnd (file_of f) (\<lambda>fl. andthen (inode_dec_open (f_inode fl)) (modify (\<lambda>s. s\<lparr>files := (files s)(f := None)\<rparr>)))) Q tame t"
    unfolding wlp_bnd wlp_andthen wlp_modify
  proof (rule wp_file [OF t(1) f'], rule wp_dec_open [OF i])
    fix u assume u: "fs_inv none_held (?Y(f_inode fl' := ?Y (f_inode fl') - 1)) {f} u" "tree_le t u"
    have "?Y(f_inode fl' := ?Y (f_inode fl') - 1) = none_held" by auto
    then have "fs_inv none_held none_held {f} u" using u(1) by simp
    from inv_free_file [OF this, of f] have k: "fs_ok (u\<lparr>files := (files u)(f := None)\<rparr>)" by simp
    show "Q () (u\<lparr>files := (files u)(f := None)\<rparr>)"
      by (rule Q [OF k]) (use u(2) t(2) in \<open>simp_all add: tree_le_def\<close>)
  qed simp
qed simp

section \<open>Operations\<close>

text \<open>What every operation keeps.\<close>

abbreviation kept :: "'k fsdevicemem \<Rightarrow> 'a \<Rightarrow> 'k fsdevicemem \<Rightarrow> bool" where
  "kept s \<equiv> \<lambda>_ t. fs_ok t \<and> root_inode t = root_inode s"

text \<open>A new inode, already counted once, becomes an entry of a directory.\<close>

lemma wp_add_entry:
  fixes s :: "'k fsdevicemem"
  assumes inv: "fs_inv X none_held {} s" and n: "inodes s p \<noteq> None" and X: "0 < X p1"
    and Q: "\<And>t d. fs_inv (X(p1 := X p1 - 1)) none_held {} t \<Longrightarrow> root_inode t = root_inode s \<Longrightarrow> files t = files s \<Longrightarrow>
      (\<And>d de. dirents s d = Some de \<Longrightarrow> dirents t d = Some de) \<Longrightarrow>
      (\<And>q m. inodes s q = Some m \<Longrightarrow> \<exists>m'. inodes t q = Some m' \<and> itype m' = itype m \<and> set (de_list m) \<subseteq> set (de_list m')) \<Longrightarrow> Q d t"
  shows "wlp (inode_dir_add p name p1) Q tame s"
proof -
  obtain m where m: "inodes s p = Some m" using n by auto
  show ?thesis by (rule wp_dir_add [where p = p, OF inv m]) (use X m in \<open>auto intro!: Q\<close>)
qed

lemma wp_hold: "fs_ok s \<Longrightarrow> inodes s p \<noteq> None \<Longrightarrow>
    (\<And>t. fs_inv (none_held(p := Suc 0)) none_held {} t \<Longrightarrow> tree_le s t \<Longrightarrow> Q p t) \<Longrightarrow> wlp (inode_incref p) Q tame s"
  by (rule wp_incref) simp_all

lemma attach_ok:
  assumes inv: "fs_ok s" and r: "root_inode s \<noteq> 0"
  shows "wlp (fs_attach_mem uid) (kept s) tame s"
proof -
  obtain n where n: "inodes s (root_inode s) = Some n" using inv_held [OF inv] r by blast
  show ?thesis unfolding fs_attach_mem_def wlp_simps
  proof (rule wp_fid_create [OF inv])
    fix t :: "'a fsdevicemem" and f fl
    assume t: "fs_ok t" "root_inode t = root_inode s"
      "\<And>p m. inodes s p = Some m \<Longrightarrow> \<exists>m'. inodes t p = Some m' \<and> itype m' = itype m \<and> de_list m' = de_list m \<and> inode_num m' = inode_num m"
    obtain m' where m': "inodes t (root_inode s) = Some m'" using t(3) [OF n] by blast
    show "wlp (inode_of (root_inode s)) (\<lambda>a. kept s (0 :: int, f, inode_to_qid a)) tame t"
      by (rule wp_inode [OF t(1) m']) (use t in simp)
  qed (use n in simp_all)
qed

lemma wp_walk:
  assumes inv: "fs_inv X Y E s" and n: "inodes s n \<noteq> None" and Q: "\<And>n' q. inodes s n' \<noteq> None \<Longrightarrow> Q (n', q) s"
  shows "wlp (walk_names n names qids) Q F s"
  using n
proof (induction names arbitrary: n qids)
  case Nil
  show ?case unfolding walk_names.simps wlp_ret by (rule Q [OF Nil])
next
  case (Cons name names)
  obtain m where m: "inodes s n = Some m" using Cons.prems by auto
  show ?case unfolding walk_names.simps wlp_bnd
  proof (rule wp_search [OF inv m])
    show "wlp (if 0 = 0 then ret (n, qids) else bnd (dirent_of 0) (\<lambda>d. bnd (inode_of (de_inode d)) (\<lambda>i.
        walk_names (de_inode d) names (qids @ [inode_to_qid i])))) Q F s" for k :: nat
      using Q [OF Cons.prems] by (simp add: wlp_simps)
  next
    fix d de assume d: "dirents s d = Some de" "d \<noteq> 0"
    obtain i where i: "inodes s (de_inode de) = Some i" using inv_dirent(2) [OF inv d(1)] by blast
    have "wlp (bnd (dirent_of d) (\<lambda>d. bnd (inode_of (de_inode d)) (\<lambda>i. walk_names (de_inode d) names (qids @ [inode_to_qid i])))) Q F s"
      unfolding wlp_bnd by (rule wp_dirent [OF inv d(1)], rule wp_inode [OF inv i], rule Cons.IH) (simp add: i)
    then show "wlp (if d = 0 then ret (n, qids) else bnd (dirent_of d) (\<lambda>d. bnd (inode_of (de_inode d)) (\<lambda>i.
        walk_names (de_inode d) names (qids @ [inode_to_qid i])))) Q F s" using d(2) by simp
  qed
qed

lemma walk_ok:
  assumes inv: "fs_ok s" and f: "files s f = Some fl"
  shows "wlp (fs_walk_mem f names) (kept s) tame s"
proof -
  have n: "inodes s (f_inode fl) \<noteq> None" using inv_file(3) [OF inv f] by auto
  show ?thesis unfolding fs_walk_mem_def wlp_bnd
  proof (rule wp_file [OF inv f], rule wp_walk [OF inv n])
    fix n' q assume "inodes s n' \<noteq> None"
    then show "wlp (case (n', q) of (n, qids) \<Rightarrow> bnd (fid_create n (f_uid fl)) (\<lambda>pf. ret (int (length qids), pf, qids))) (kept s) tame s"
      by (auto simp: wlp_simps intro!: wp_fid_create [OF inv])
  qed
qed

text \<open>
  In the middle of an operation that started in \<open>s\<close>: local variables hold the references \<open>X\<close> and \<open>Y\<close>, and the
  handles are those of \<open>s\<close>.
\<close>

definition mid :: "(ptr \<Rightarrow> nat) \<Rightarrow> (ptr \<Rightarrow> nat) \<Rightarrow> 'k fsdevicemem \<Rightarrow> 'k fsdevicemem \<Rightarrow> bool" where
  "mid X Y s t \<longleftrightarrow> fs_inv X Y {} t \<and> root_inode t = root_inode s \<and> files t = files s"

lemma wlp_seq: "wlp m P F s \<Longrightarrow> (\<And>a t. P a t \<Longrightarrow> wlp (k a) Q F t) \<Longrightarrow> wlp (bnd m k) Q F s"
  unfolding wlp_bnd by (erule wlp_mono) auto

lemma wlp_then: "wlp m P F s \<Longrightarrow> (\<And>a t. P a t \<Longrightarrow> wlp k Q F t) \<Longrightarrow> wlp (andthen m k) Q F s"
  unfolding andthen_def by (rule wlp_seq)

lemma file_seq: "fs_inv X Y E s \<Longrightarrow> files s f = Some fl \<Longrightarrow> wlp (k fl) Q F s \<Longrightarrow> wlp (bnd (file_of f) k) Q F s"
  unfolding wlp_bnd by (rule wp_file)

lemma inode_seq: "fs_inv X Y E s \<Longrightarrow> inodes s p = Some n \<Longrightarrow> wlp (k n) Q F s \<Longrightarrow> wlp (bnd (inode_of p) k) Q F s"
  unfolding wlp_bnd by (rule wp_inode)

lemma dirent_seq: "fs_inv X Y E s \<Longrightarrow> dirents s d = Some de \<Longrightarrow> wlp (k de) Q F s \<Longrightarrow> wlp (bnd (dirent_of d) k) Q F s"
  unfolding wlp_bnd by (rule wp_dirent)

lemma mid_start: "fs_ok s \<Longrightarrow> mid none_held none_held s s"
  by (simp add: mid_def)

lemma mid_kept: "mid none_held none_held s t \<Longrightarrow> kept s a t"
  by (simp add: mid_def)

lemma mid_file: "mid X Y s t \<Longrightarrow> files s f = Some fl \<Longrightarrow> inodes t (f_inode fl) \<noteq> None"
  using inv_file(3) [of X Y "{}" t f fl] by (auto simp: mid_def)

lemma mid_held: "mid X Y s t \<Longrightarrow> 0 < X p \<Longrightarrow> inodes t p \<noteq> None"
  using inv_held [of X Y "{}" t p] by (auto simp: mid_def)

lemma mid_frame: "mid X Y s t \<Longrightarrow> fs_inv X' Y' {} u \<Longrightarrow> tree_le t u \<Longrightarrow> mid X' Y' s u"
  by (simp add: mid_def tree_le_def)

lemma mid_incref:
  "mid X Y s t \<Longrightarrow> inodes t p \<noteq> None \<Longrightarrow> wlp (inode_incref p) (\<lambda>r u. r = p \<and> mid (X(p := Suc (X p))) Y s u) tame t"
  using wp_incref [of X Y "{}" t p] mid_frame [of X Y s t] by (auto simp: mid_def)

lemma mid_decref: "mid X Y s t \<Longrightarrow> 0 < X p \<Longrightarrow> wlp (inode_decref p) (\<lambda>_. mid (X(p := X p - 1)) Y s) tame t"
  using wp_decref [of X Y "{}" t p] mid_frame [of X Y s t] by (auto simp: mid_def)

lemma mid_new: "mid X Y s t \<Longrightarrow> wlp (inode_new type mode uid gid) (\<lambda>p u. inodes t p = None \<and> mid (X(p := 1)) Y s u
    \<and> (\<exists>n. inodes u p = Some n \<and> itype n = type)) tame t"
  by (rule wp_new [of X Y "{}"]) (simp_all add: mid_def)

lemma mid_add: "mid X Y s t \<Longrightarrow> inodes t p \<noteq> None \<Longrightarrow> 0 < X p1 \<Longrightarrow> wlp (inode_dir_add p name p1) (\<lambda>_. mid (X(p1 := X p1 - 1)) Y s) tame t"
  using wp_dir_add [of X Y "{}" t p _ p1] by (auto simp: mid_def)

lemma mid_inode: "mid X Y s t \<Longrightarrow> inodes t p = Some n \<Longrightarrow> wlp (inode_of p) (\<lambda>a u. u = t \<and> a = n) F t"
  by (rule wp_inode [of X Y "{}"]) (simp_all add: mid_def)

text \<open>An update of an inode that keeps its shape.\<close>

lemma mid_upd:
  assumes "mid X Y s t" "inodes t p = Some n" "itype (g n) = itype n" "de_list (g n) = de_list n" "node_ok (g n)"
    "refcount (g n) = refcount n" "open_count (g n) = open_count n"
  shows "wlp (upd_inode p g) (\<lambda>_ u. mid X Y s u \<and> u = t\<lparr>inodes := (inodes t)(p \<mapsto> g n)\<rparr>) F t"
proof -
  have i: "fs_inv X Y {} t" using assms(1) by (simp add: mid_def)
  have "fs_inv (X(p := X p)) (Y(p := Y p)) {} (t\<lparr>inodes := (inodes t)(p \<mapsto> g n)\<rparr>)" "tree_le t (t\<lparr>inodes := (inodes t)(p \<mapsto> g n)\<rparr>)"
    using inv_upd [OF i assms(2), of "g n" "X p" "Y p"] assms by auto
  then show ?thesis using mid_frame [OF assms(1)] by (intro wp_upd_inode [OF i assms(2)]) simp
qed

lemma hold_one: "none_held(p := Suc 0, p := (none_held(p := Suc 0)) p - 1) = none_held" "none_held(p := Suc 0, p := 0) = none_held"
  "none_held(p := 0) = none_held"
  by auto

text \<open>The common end of the operations that create an inode: it becomes an entry, and its qid is returned.\<close>

lemma mid_link_new:
  fixes s t :: "'k fsdevicemem"
  assumes m: "mid (none_held(p1 := Suc 0)) none_held s t" and f: "files s f = Some fl"
  shows "wlp (andthen (inode_dir_add (f_inode fl) name p1) (bnd (inode_of p1) (\<lambda>i. ret (0 :: int, inode_to_qid i)))) (kept s) tame t"
proof -
  have i: "fs_inv (none_held(p1 := Suc 0)) none_held {} t" using m by (simp add: mid_def)
  have l: "inodes t p1 \<noteq> None" "inodes t (f_inode fl) \<noteq> None" using mid_held [OF m] mid_file [OF m f] by auto
  have "wlp (inode_dir_add (f_inode fl) name p1) (\<lambda>_ u. mid none_held none_held s u \<and> inodes u p1 \<noteq> None) tame t"
  proof (rule wp_add_entry [OF i l(2)])
    fix u :: "'k fsdevicemem" and d
    assume u: "fs_inv (none_held(p1 := Suc 0, p1 := (none_held(p1 := Suc 0)) p1 - 1)) none_held {} u" "root_inode u = root_inode t"
      "files u = files t"
      "\<And>q m. inodes t q = Some m \<Longrightarrow> \<exists>m'. inodes u q = Some m' \<and> itype m' = itype m \<and> set (de_list m) \<subseteq> set (de_list m')"
    obtain n1 where "inodes t p1 = Some n1" using l(1) by auto
    then have "inodes u p1 \<noteq> None" using u(4) [of p1] by auto
    then show "mid none_held none_held s u \<and> inodes u p1 \<noteq> None" using u(1-3) m unfolding hold_one by (simp add: mid_def)
  qed simp
  then show ?thesis
    by (rule wlp_then) (auto simp: wlp_simps mid_def intro!: wp_inode)
qed

lemma wp_search_free:
  assumes inv: "fs_inv X Y E s" and n: "inodes s p \<noteq> None" and "wlp m Q F s" "Q e s"
  shows "wlp (bnd (inode_search p name) (\<lambda>de. if de \<noteq> 0 then ret e else m)) Q F s"
proof -
  obtain i where i: "inodes s p = Some i" using n by auto
  show ?thesis unfolding wlp_bnd by (rule wp_search [OF inv i]) (use assms(3,4) in \<open>auto simp: wlp_simps\<close>)
qed


lemma mkdir_ok:
  assumes inv: "fs_ok s" and f: "files s f = Some fl"
  shows "wlp (fs_mkdir_mem f name mode gid) (kept s) tame s"
proof -
  obtain n where n: "inodes s (f_inode fl) = Some n" using inv_file(3) [OF inv f] by auto
  let ?p = "f_inode fl"
  let ?add = "\<lambda>n1. bnd (inode_incref n1) (\<lambda>a. andthen (inode_dir_add n1 DOT a)
       (bnd (inode_incref ?p) (\<lambda>b. andthen (inode_dir_add n1 DOTDOT b)
       (andthen (inode_dir_add ?p name n1) (bnd (inode_of n1) (\<lambda>i. ret (0 :: int, inode_to_qid i)))))))"
  have add: "wlp (?add p) (kept s) tame t" if t: "mid (none_held(p := Suc 0)) none_held s t" "p \<noteq> ?p" for p t
  proof (rule wlp_seq [OF mid_incref [OF t(1) mid_held [OF t(1)]]], simp, elim conjE, hypsubst, rule wlp_then)
    fix a and u :: "'a fsdevicemem"
    assume u: "mid (none_held(p := Suc 0, p := Suc ((none_held(p := Suc 0)) p))) none_held s u"
    show "wlp (inode_dir_add p DOT p) (\<lambda>_. mid (none_held(p := Suc 0)) none_held s) tame u"
      using mid_add [OF u mid_held [OF u], of p p DOT] by simp
    fix b and v :: "'a fsdevicemem"
    assume v: "mid (none_held(p := Suc 0)) none_held s v"
    show "wlp (bnd (inode_incref ?p) (\<lambda>b. andthen (inode_dir_add p DOTDOT b)
       (andthen (inode_dir_add ?p name p) (bnd (inode_of p) (\<lambda>i. ret (0 :: int, inode_to_qid i)))))) (kept s) tame v"
    proof (rule wlp_seq [OF mid_incref [OF v mid_file [OF v f]]], elim conjE, hypsubst, rule wlp_then)
      fix a and w :: "'a fsdevicemem"
      assume w: "mid (none_held(p := Suc 0, ?p := Suc ((none_held(p := Suc 0)) ?p))) none_held s w"
      have "none_held(p := Suc 0, ?p := 0) = none_held(p := Suc 0)" using t(2) by auto
      then show "wlp (inode_dir_add p DOTDOT ?p) (\<lambda>_. mid (none_held(p := Suc 0)) none_held s) tame w"
        using mid_add [OF w mid_held [OF w, of p], of ?p DOTDOT] t(2) by simp
    next
      fix a c and w x :: "'a fsdevicemem"
      assume "mid (none_held(p := Suc 0)) none_held s x"
      then show "wlp (andthen (inode_dir_add ?p name p) (bnd (inode_of p) (\<lambda>i. ret (0 :: int, inode_to_qid i)))) (kept s) tame x"
        by (rule mid_link_new [OF _ f])
    qed
  qed
  have "wlp (bnd (inode_new FT_DIR mode (f_uid fl) gid) ?add) (kept s) tame s"
    by (rule wlp_seq [OF mid_new [OF mid_start [OF inv]]], elim conjE, rule add) (use n in auto)
  then show ?thesis unfolding fs_mkdir_mem_def
    by (intro file_seq [OF inv f] inode_seq [OF inv n]) (auto simp: wlp_ret inv n simp del: neq0_conv intro!: wp_search_free [OF inv])
qed


lemma link_ok:
  assumes inv: "fs_ok s" and df: "files s df = Some dfl" and f: "files s f = Some fl"
  shows "wlp (fs_link_mem df f name) (kept s) tame s"
proof -
  obtain n where n: "inodes s (f_inode fl) = Some n" using inv_file(3) [OF inv f] by auto
  have d: "inodes s (f_inode dfl) \<noteq> None" using inv_file(3) [OF inv df] by auto
  have "wlp (bnd (inode_incref (f_inode fl)) (\<lambda>n1. andthen (inode_dir_add (f_inode dfl) name n1) (ret (0 :: int)))) (kept s) tame s"
  proof (rule wlp_seq [OF mid_incref [OF mid_start [OF inv]]], simp add: n, elim conjE, hypsubst, rule wlp_then)
    fix t
    assume t: "mid (none_held(f_inode fl := Suc (none_held (f_inode fl)))) none_held s t"
    show "wlp (inode_dir_add (f_inode dfl) name (f_inode fl)) (\<lambda>_. mid none_held none_held s) tame t"
      using mid_add [OF t mid_file [OF t df], of "f_inode fl" name] by (simp add: hold_one)
  qed (simp add: wlp_ret mid_def)
  then show ?thesis unfolding fs_link_mem_def
    by (intro file_seq [OF inv df] file_seq [OF inv f] inode_seq [OF inv n])
      (auto simp: wlp_ret inv simp del: neq0_conv intro!: wp_search_free [OF inv d])
qed

lemma symlink_ok:
  assumes inv: "fs_ok s" and f: "files s f = Some fl"
  shows "wlp (fs_symlink_mem f name symgt gid) (kept s) tame s"
proof -
  have n: "inodes s (f_inode fl) \<noteq> None" using inv_file(3) [OF inv f] by auto
  have "wlp (bnd (inode_new FT_LNK 0x1ff (f_uid fl) gid) (\<lambda>n1. andthen (upd_inode n1 (\<lambda>i. i\<lparr>symlink_name := Some symgt\<rparr>))
       (andthen (inode_dir_add (f_inode fl) name n1) (bnd (inode_of n1) (\<lambda>i. ret (0 :: int, inode_to_qid i)))))) (kept s) tame s"
  proof (rule wlp_seq [OF mid_new [OF mid_start [OF inv]]], elim conjE exE, rule wlp_then)
    fix p t m
    assume t: "mid (none_held(p := 1)) none_held s t" "inodes t p = Some m"
    have "node_ok m" using inv_node(2) [of "none_held(p := 1)" none_held "{}" t p m] t by (simp add: mid_def)
    then show "wlp (upd_inode p (\<lambda>i. i\<lparr>symlink_name := Some symgt\<rparr>)) (\<lambda>_. mid (none_held(p := Suc 0)) none_held s) tame t"
      by (intro wlp_mono [OF mid_upd [OF t]]) simp_all
  qed (rule mid_link_new [OF _ f])
  then show ?thesis unfolding fs_symlink_mem_def
    by (intro file_seq [OF inv f]) (auto simp: wlp_ret inv simp del: neq0_conv intro!: wp_search_free [OF inv n])
qed

lemma mknod_ok:
  assumes inv: "fs_ok s" and f: "files s f = Some fl"
  shows "wlp (fs_mknod_mem f name mode major minor gid) (kept s) tame s"
proof -
  have n: "inodes s (f_inode fl) \<noteq> None" using inv_file(3) [OF inv f] by auto
  let ?type = "drop_bit 12 (mode AND 0xf000)"
  have "wlp (bnd (inode_new ?type mode (f_uid fl) gid) (\<lambda>n1.
       andthen (if ?type = FT_CHR \<or> ?type = FT_BLK then upd_inode n1 (\<lambda>i. i\<lparr>dev_major := major, dev_minor := minor\<rparr>) else ret ())
       (andthen (inode_dir_add (f_inode fl) name n1) (bnd (inode_of n1) (\<lambda>i. ret (0 :: int, inode_to_qid i)))))) (kept s) tame s"
  proof (rule wlp_seq [OF mid_new [OF mid_start [OF inv]]], elim conjE exE, rule wlp_then)
    fix p t m
    assume t: "mid (none_held(p := 1)) none_held s t" "inodes t p = Some m"
    have "node_ok m" using inv_node(2) [of "none_held(p := 1)" none_held "{}" t p m] t by (simp add: mid_def)
    then have "wlp (upd_inode p (\<lambda>i. i\<lparr>dev_major := major, dev_minor := minor\<rparr>)) (\<lambda>_. mid (none_held(p := Suc 0)) none_held s) tame t"
      by (intro wlp_mono [OF mid_upd [OF t]]) simp_all
    then show "wlp (if ?type = FT_CHR \<or> ?type = FT_BLK then upd_inode p (\<lambda>i. i\<lparr>dev_major := major, dev_minor := minor\<rparr>) else ret ())
        (\<lambda>_. mid (none_held(p := Suc 0)) none_held s) tame t" using t(1) by (simp add: wlp_ret)
  qed (rule mid_link_new [OF _ f])
  then show ?thesis unfolding fs_mknod_mem_def Let_def
    by (intro file_seq [OF inv f]) (auto simp: wlp_ret inv simp del: neq0_conv intro!: wp_search_free [OF inv n])
qed


text \<open>Renaming: the entry is found again after the new one has been added, and the target it replaced is released last.\<close>

lemma rename_finish:
  fixes s t :: "'k fsdevicemem"
  assumes m: "mid X none_held s t" and f: "files s f = Some fl" and nf: "files s new_f = Some nfl"
    and de: "dirents t de = Some d" "inodes t (f_inode fl) = Some i" "de \<in> set (de_list i)"
    and X: "X = (if n1 = 0 then none_held else none_held(n1 := Suc 0))"
  shows "wlp (bnd (dirent_of de) (\<lambda>d. bnd (inode_incref (de_inode d)) (\<lambda>i.
             andthen (inode_dir_add (f_inode nfl) new_name i)
             (andthen (inode_dirent_delete (f_inode fl) de)
             (andthen (if n1 \<noteq> 0 then inode_decref n1 else ret ()) (ret (0 :: int))))))) (kept s) tame t"
proof -
  let ?q = "de_inode d" and ?P = "\<lambda>t. dirents t de = Some d \<and> (\<exists>i. inodes t (f_inode fl) = Some i \<and> de \<in> set (de_list i))"
  have inv: "fs_inv X none_held {} t" using m by (simp add: mid_def)
  have q: "inodes t ?q \<noteq> None" using inv_dirent(2) [OF inv de(1)] by auto
  have end': "wlp (andthen (if n1 \<noteq> 0 then inode_decref n1 else ret ()) (ret (0 :: int))) (kept s) tame v" if v: "mid X none_held s v" for v
  proof (cases "n1 = 0")
    case True
    then show ?thesis using v X by (simp add: wlp_andthen wlp_ret mid_def)
  next
    case False
    then have "wlp (inode_decref n1) (\<lambda>_. mid none_held none_held s) tame v"
      using mid_decref [OF v, of n1] X by (simp add: hold_one)
    then have "wlp (andthen (inode_decref n1) (ret (0 :: int))) (kept s) tame v" by (rule wlp_then) (simp add: wlp_ret mid_def)
    then show ?thesis using False by simp
  qed
  have del: "wlp (andthen (inode_dirent_delete (f_inode fl) de) (andthen (if n1 \<noteq> 0 then inode_decref n1 else ret ()) (ret (0 :: int)))) (kept s) tame u"
    if u: "mid X none_held s u" "?P u" for u
  proof (rule wlp_then [OF _ end'])
    obtain i where i: "inodes u (f_inode fl) = Some i" "de \<in> set (de_list i)" using u(2) by auto
    show "wlp (inode_dirent_delete (f_inode fl) de) (\<lambda>_. mid X none_held s) tame u"
      by (rule wp_dirent_delete [OF _ i(1) _ i(2)]) (use u in \<open>auto simp: mid_def entry_gone_def\<close>)
  qed
  have incref: "wlp (inode_incref ?q) (\<lambda>r u. r = ?q \<and> mid (X(?q := Suc (X ?q))) none_held s u \<and> ?P u) tame t"
  proof (rule wp_incref [OF inv q])
    fix u assume u: "fs_inv (X(?q := Suc (X ?q))) none_held {} u" "tree_le t u"
    have mu: "mid (X(?q := Suc (X ?q))) none_held s u" using mid_frame [OF m u] .
    obtain j where j: "inodes u (f_inode fl) = Some j" using mid_file [OF mu f] by auto
    have "de \<in> set (de_list j)" using tree_le_node [OF u(2) j] de(2,3) by auto
    then show "?q = ?q \<and> mid (X(?q := Suc (X ?q))) none_held s u \<and> ?P u" using mu j u(2) de(1) by (auto simp: tree_le_def)
  qed
  have add: "wlp (inode_dir_add (f_inode nfl) new_name ?q) (\<lambda>_ v. mid X none_held s v \<and> ?P v) tame u"
    if u: "mid (X(?q := Suc (X ?q))) none_held s u" "?P u" for u
  proof (rule wp_add_entry)
    show "fs_inv (X(?q := Suc (X ?q))) none_held {} u" "inodes u (f_inode nfl) \<noteq> None" "0 < (X(?q := Suc (X ?q))) ?q"
      using u mid_file [OF u(1) nf] by (simp_all add: mid_def)
    fix v :: "'k fsdevicemem" and d'
    assume v: "fs_inv (X(?q := Suc (X ?q), ?q := (X(?q := Suc (X ?q))) ?q - 1)) none_held {} v" "root_inode v = root_inode u" "files v = files u"
      "\<And>d de. dirents u d = Some de \<Longrightarrow> dirents v d = Some de"
      "\<And>q m. inodes u q = Some m \<Longrightarrow> \<exists>m'. inodes v q = Some m' \<and> itype m' = itype m \<and> set (de_list m) \<subseteq> set (de_list m')"
    obtain j where j: "inodes u (f_inode fl) = Some j" "de \<in> set (de_list j)" using u(2) by auto
    obtain j' where "inodes v (f_inode fl) = Some j'" "de \<in> set (de_list j')" using v(5) [OF j(1)] j(2) by auto
    moreover have "mid X none_held s v" using v(1-3) u(1) by (simp add: mid_def)
    ultimately show "mid X none_held s v \<and> ?P v" using v(4) u(2) by auto
  qed
  show ?thesis
  proof (rule dirent_seq [OF inv de(1)], rule wlp_seq [OF incref], elim conjE, hypsubst)
    fix u assume u: "mid (X(?q := Suc (X ?q))) none_held s u" "dirents u de = Some d" "\<exists>i. inodes u (f_inode fl) = Some i \<and> de \<in> set (de_list i)"
    show "wlp (andthen (inode_dir_add (f_inode nfl) new_name ?q) (andthen (inode_dirent_delete (f_inode fl) de)
        (andthen (if n1 \<noteq> 0 then inode_decref n1 else ret ()) (ret (0 :: int))))) (kept s) tame u"
      by (rule wlp_then [OF add [OF u(1) conjI [OF u(2,3)]]], erule conjE, rule del)
  qed
qed

lemma renameat_ok:
  fixes s :: "'k fsdevicemem"
  assumes inv: "fs_ok s" and f: "files s f = Some fl" and nf: "files s new_f = Some nfl"
    and ne: "f_inode fl \<noteq> f_inode nfl \<or> name \<noteq> new_name"
  shows "wlp (fs_renameat_mem f name new_f new_name) (kept s) tame s"
proof -
  obtain i where i: "inodes s (f_inode fl) = Some i" using inv_file(3) [OF inv f] by auto
  obtain j where j: "inodes s (f_inode nfl) = Some j" using inv_file(3) [OF inv nf] by auto
  let ?fin = "\<lambda>de n1. bnd (dirent_of de) (\<lambda>d. bnd (inode_incref (de_inode d)) (\<lambda>i.
             andthen (inode_dir_add (f_inode nfl) new_name i)
             (andthen (inode_dirent_delete (f_inode fl) de)
             (andthen (if n1 \<noteq> 0 then inode_decref n1 else ret ()) (ret (0 :: int))))))"
  have k: "kept s (a :: int) s" for a using inv by simp
  have main: "wlp (bnd (inode_search (f_inode nfl) new_name) (\<lambda>de1. if de1 = 0 then ?fin de 0
       else bnd (dirent_of de1) (\<lambda>d1. bnd (inode_of (de_inode d1)) (\<lambda>n1.
         if itype n1 = FT_DIR then ret (- P9_EEXIST)
         else andthen (inode_dirent_delete_no_decref (f_inode nfl) de1) (?fin de (de_inode d1)))))) (kept s) tame s"
    if de: "de \<in> set (de_list i)" "dirents s de = Some d" "de_name d = name" for de d
    unfolding wlp_bnd [of "inode_search (f_inode nfl) new_name"]
  proof (rule wp_search [OF inv j])
    show "wlp (if 0 = 0 then ?fin de 0 else bnd (dirent_of 0) (\<lambda>d1. bnd (inode_of (de_inode d1)) (\<lambda>n1.
         if itype n1 = FT_DIR then ret (- P9_EEXIST)
         else andthen (inode_dirent_delete_no_decref (f_inode nfl) 0) (?fin de (de_inode d1))))) (kept s) tame s"
      using rename_finish [OF mid_start [OF inv] f nf de(2) i de(1), of 0 new_name] by simp
  next
    fix de1 d1
    assume de1: "de1 \<in> set (de_list j)" "dirents s de1 = Some d1" "de_name d1 = new_name" "de1 \<noteq> 0"
    have "de \<noteq> de1" using de de1 inv_entry_unique [OF inv i j, of de] ne by auto
    obtain n1 where n1: "inodes s (de_inode d1) = Some n1" using inv_dirent(2) [OF inv de1(2)] by auto
    have p0: "de_inode d1 \<noteq> 0" by (rule inv_node(1) [OF inv n1])
    have "wlp (andthen (inode_dirent_delete_no_decref (f_inode nfl) de1) (?fin de (de_inode d1))) (kept s) tame s"
      unfolding wlp_andthen
    proof (rule wp_delete_no_decref [OF inv j de1(2,1)])
      fix t :: "'k fsdevicemem" and n'
      assume t: "fs_inv (none_held(de_inode d1 := Suc (none_held (de_inode d1)))) none_held {} t" "dirents t = (dirents s)(de1 := None)"
        "inodes t = (inodes s)(f_inode nfl \<mapsto> n')" "de_list n' = remove1 de1 (de_list j)" "files t = files s" "root_inode t = root_inode s"
      have "\<exists>i'. inodes t (f_inode fl) = Some i' \<and> de \<in> set (de_list i')"
        using t(3,4) i j de(1) \<open>de \<noteq> de1\<close> by (cases "f_inode fl = f_inode nfl") auto
      then obtain i' where "inodes t (f_inode fl) = Some i'" "de \<in> set (de_list i')" by blast
      moreover have "dirents t de = Some d" using t(2) de(2) \<open>de \<noteq> de1\<close> by simp
      moreover have "mid (none_held(de_inode d1 := Suc 0)) none_held s t" using t by (simp add: mid_def)
      ultimately show "wlp (?fin de (de_inode d1)) (kept s) tame t"
        using rename_finish [OF _ f nf, of "none_held(de_inode d1 := Suc 0)" t de d i' "de_inode d1" new_name] p0 by simp
    qed
    then show "wlp (if de1 = 0 then ?fin de 0 else bnd (dirent_of de1) (\<lambda>d1. bnd (inode_of (de_inode d1)) (\<lambda>n1.
         if itype n1 = FT_DIR then ret (- P9_EEXIST)
         else andthen (inode_dirent_delete_no_decref (f_inode nfl) de1) (?fin de (de_inode d1))))) (kept s) tame s"
      using de1(4) k by (simp del: neq0_conv) (intro dirent_seq [OF inv de1(2)] inode_seq [OF inv n1], simp add: wlp_ret)
  qed
  show ?thesis unfolding fs_renameat_mem_def Let_def
  proof (intro file_seq [OF inv f], unfold wlp_bnd [of "inode_search (f_inode fl) name"], rule wp_search [OF inv i])
    fix de d
    assume d: "de \<in> set (de_list i)" "dirents s de = Some d" "de_name d = name" "de \<noteq> 0"
    show "wlp (if de = 0 then ret (- P9_ENOENT) else bnd (file_of new_f) (\<lambda>nfl. bnd (inode_search (f_inode nfl) new_name) (\<lambda>de1.
         if de1 = 0 then bnd (dirent_of de) (\<lambda>d. bnd (inode_incref (de_inode d)) (\<lambda>i.
             andthen (inode_dir_add (f_inode nfl) new_name i) (andthen (inode_dirent_delete (f_inode fl) de)
             (andthen (if 0 \<noteq> (0 :: ptr) then inode_decref 0 else ret ()) (ret 0)))))
         else bnd (dirent_of de1) (\<lambda>d1. bnd (inode_of (de_inode d1)) (\<lambda>n1. if itype n1 = FT_DIR then ret (- P9_EEXIST)
           else andthen (inode_dirent_delete_no_decref (f_inode nfl) de1) (bnd (dirent_of de) (\<lambda>d. bnd (inode_incref (de_inode d)) (\<lambda>i.
             andthen (inode_dir_add (f_inode nfl) new_name i) (andthen (inode_dirent_delete (f_inode fl) de)
             (andthen (if de_inode d1 \<noteq> 0 then inode_decref (de_inode d1) else ret ()) (ret 0))))))))))) (kept s) tame s"
      unfolding if_not_P [OF d(4)] by (rule file_seq [OF inv nf], rule main [OF d(1-3)])
  qed (use k in \<open>simp add: wlp_ret\<close>)
qed


text \<open>Removing: a directory is emptied first, while its entry still keeps it alive.\<close>

lemma wp_is_empty:
  assumes inv: "fs_inv X Y E s" and n: "inodes s p = Some n"
    and "Q False s" and "(\<forall>d \<in> set (de_list n). \<forall>de. dirents s d = Some de \<longrightarrow> de_name de = DOT \<or> de_name de = DOTDOT) \<Longrightarrow> Q True s"
  shows "wlp (is_empty_dir p) Q F s"
  unfolding is_empty_dir_def
proof (rule inode_seq [OF inv n], unfold wlp_bnd, rule wp_find [OF inv])
  show "\<forall>d \<in> set (de_list n). dirents s d \<noteq> None" using inv_entry [OF inv n] by auto
next
  fix d de assume "dirents s d = Some de"
  then have "d \<noteq> 0" by (rule inv_dirent(1) [OF inv])
  then show "wlp (ret (d = 0)) Q F s" using assms(3) by (simp add: wlp_ret)
qed (use assms(4) in \<open>auto simp: wlp_ret\<close>)

lemma delete_entry_ok:
  assumes m: "mid none_held none_held s t" and f: "files s f = Some fl"
    and de: "inodes t (f_inode fl) = Some i" "de \<in> set (de_list i)"
  shows "wlp (andthen (inode_dirent_delete (f_inode fl) de) (ret (0 :: int))) (kept s) tame t"
proof -
  have inv: "fs_ok t" using m by (simp add: mid_def)
  obtain d where d: "dirents t de = Some d" using inv_entry [OF inv de] by blast
  show ?thesis unfolding wlp_andthen
    by (rule wp_dirent_delete [OF inv de(1) d de(2)]) (use m in \<open>simp add: wlp_ret mid_def entry_gone_def\<close>)
qed

lemma unlinkat_ok:
  fixes s :: "'k fsdevicemem"
  assumes inv: "fs_ok s" and f: "files s f = Some fl"
  shows "wlp (fs_unlinkat_mem f name) (kept s) tame s"
proof -
  obtain i where i: "inodes s (f_inode fl) = Some i" using inv_file(3) [OF inv f] by auto
  have k: "kept s (a :: int) s" for a using inv by simp
  have main: "wlp (bnd (dirent_of de) (\<lambda>d. bnd (inode_of (de_inode d)) (\<lambda>n.
       if itype n = FT_DIR then
         bnd (is_empty_dir (de_inode d)) (\<lambda>e. if \<not> e then ret (- P9_ENOTEMPTY)
         else andthen (flush_dir (de_inode d)) (andthen (inode_dirent_delete (f_inode fl) de) (ret 0)))
       else andthen (inode_dirent_delete (f_inode fl) de) (ret 0)))) (kept s) tame s"
    if de: "de \<in> set (de_list i)" "dirents s de = Some d" "de_name d \<noteq> DOT" "de_name d \<noteq> DOTDOT" for de d
  proof -
    obtain n where n: "inodes s (de_inode d) = Some n" using inv_dirent(2) [OF inv de(2)] by blast
    have "wlp (andthen (flush_dir (de_inode d)) (andthen (inode_dirent_delete (f_inode fl) de) (ret (0 :: int)))) (kept s) tame s"
      if emp: "\<forall>x \<in> set (de_list n). \<forall>dx. dirents s x = Some dx \<longrightarrow> de_name dx = DOT \<or> de_name dx = DOTDOT"
    proof -
      have dn: "de \<notin> set (de_list n)" using emp de(2-4) by auto
      then have other: "f_inode fl \<noteq> de_inode d" using n i de(1) by auto
      have "wlp (flush_dir (de_inode d)) (\<lambda>_ t. mid none_held none_held s t \<and> (\<exists>i. inodes t (f_inode fl) = Some i \<and> de \<in> set (de_list i))) tame s"
        unfolding flush_dir_def wlp_andthen
      proof (rule inode_seq [OF inv n], unfold wlp_andthen, rule wp_flush_entries [OF inv n _ _ de(2) refl dn])
        fix t :: "'k fsdevicemem"
        assume t: "fs_ok t" "files t = files s" "root_inode t = root_inode s" "\<forall>d. d \<notin> set (de_list n) \<longrightarrow> dirents t d = dirents s d"
          "\<forall>q m'. inodes t q = Some m' \<longrightarrow> (\<exists>m. inodes s q = Some m \<and> itype m' = itype m \<and> (q \<noteq> de_inode d \<longrightarrow> de_list m' = de_list m))"
        have mt: "mid none_held none_held s t" using t(1-3) by (simp add: mid_def)
        obtain j where j: "inodes t (f_inode fl) = Some j" using mid_file [OF mt f] by auto
        have "de \<in> set (de_list j)" using t(5) j other i de(1) by fastforce
        moreover have "dirents t de = Some d" using t(4) dn de(2) by simp
        then obtain n' where n': "inodes t (de_inode d) = Some n'" using inv_dirent(2) [OF t(1)] by blast
        ultimately show "wlp (bnd (inode_of (de_inode d)) (\<lambda>n. guard AssertFail (dir_size n = 0)))
            (\<lambda>_ t. mid none_held none_held s t \<and> (\<exists>i. inodes t (f_inode fl) = Some i \<and> de \<in> set (de_list i))) tame t"
          using mt j by (intro inode_seq [OF t(1) n']) (auto simp: wlp_guard)
      qed (use inv_node(5) [OF inv n] in auto)
      then show ?thesis by (rule wlp_then) (auto intro: delete_entry_ok [OF _ f])
    qed
    then have dir: "wlp (bnd (is_empty_dir (de_inode d)) (\<lambda>e. if \<not> e then ret (- P9_ENOTEMPTY)
         else andthen (flush_dir (de_inode d)) (andthen (inode_dirent_delete (f_inode fl) de) (ret 0)))) (kept s) tame s"
      unfolding wlp_bnd by (intro wp_is_empty [OF inv n]) (use k in \<open>auto simp: wlp_ret\<close>)
    show ?thesis
      by (intro dirent_seq [OF inv de(2)] inode_seq [OF inv n])
        (use dir delete_entry_ok [OF mid_start [OF inv] f i de(1)] in simp)
  qed
  show ?thesis
  proof (cases "name = DOT \<or> name = DOTDOT")
    case True
    then show ?thesis using k by (auto simp: fs_unlinkat_mem_def wlp_ret)
  next
    case False
    show ?thesis unfolding fs_unlinkat_mem_def if_not_P [OF False]
    proof (intro file_seq [OF inv f], unfold wlp_bnd [of "inode_search (f_inode fl) name"], rule wp_search [OF inv i])
      fix de d
      assume d: "de \<in> set (de_list i)" "dirents s de = Some d" "de_name d = name" "de \<noteq> 0"
      show "wlp (if de = 0 then ret (- P9_ENOENT) else bnd (dirent_of de) (\<lambda>d. bnd (inode_of (de_inode d)) (\<lambda>n.
         if itype n = FT_DIR then
           bnd (is_empty_dir (de_inode d)) (\<lambda>e. if \<not> e then ret (- P9_ENOTEMPTY)
           else andthen (flush_dir (de_inode d)) (andthen (inode_dirent_delete (f_inode fl) de) (ret 0)))
         else andthen (inode_dirent_delete (f_inode fl) de) (ret 0)))) (kept s) tame s"
        unfolding if_not_P [OF d(4)] by (rule main [OF d(1,2)]) (use d(3) False in auto)
    qed (use k in \<open>simp add: wlp_ret\<close>)
  qed
qed

lemma delete_ok:
  assumes "fs_ok s" "files s f = Some fl"
  shows "wlp (fs_delete_mem f) (kept s) tame s"
  by (rule wp_delete [OF assms]) simp

text \<open>Creating moves the handle from the directory to the new file.\<close>

lemma create_ok:
  fixes s :: "'k fsdevicemem"
  assumes inv: "fs_ok s" and f: "files s f = Some fl"
  shows "wlp (fs_create_mem f name flags mode gid) (kept s) tame s"
proof -
  obtain n where n: "inodes s (f_inode fl) = Some n" using inv_file(3) [OF inv f] by auto
  let ?q = "f_inode fl"
  let ?tail = "\<lambda>n1. andthen (inode_dec_open ?q) (bnd (inode_inc_open n1) (\<lambda>n1.
         andthen (upd_file f (\<lambda>fl. fl\<lparr>f_inode := n1, is_opened := True, open_flags := flags\<rparr>))
         (bnd (inode_of n1) (\<lambda>i. ret (0 :: int, inode_to_qid i)))))"
  have move: "wlp (?tail p) (kept s) tame t"
    if t: "fs_ok t" "root_inode t = root_inode s" "files t f = Some fl'" "f_inode fl' = ?q" "dirents t d = Some de" "de_inode de = p" for t :: "'k fsdevicemem" and p fl' d de
    unfolding wlp_andthen
  proof (rule wp_dec_open [of none_held "none_held(?q := Suc 0)" "{f}"])
    show "fs_inv none_held (none_held(?q := Suc 0)) {f} t" using inv_release_file [OF t(1,3)] t(4) by simp
    fix u :: "'k fsdevicemem"
    assume u: "fs_inv none_held (none_held(?q := Suc 0, ?q := (none_held(?q := Suc 0)) ?q - 1)) {f} u" "tree_le t u"
    have ui: "fs_inv none_held none_held {f} u" using u(1) unfolding hold_one .
    have "dirents u d = Some de" "files u f = Some fl'" using u(2) t by (simp_all add: tree_le_def)
    note uf = this
    have p: "inodes u p \<noteq> None" using inv_dirent(2) [OF ui uf(1)] t(6) by auto
    show "wlp (bnd (inode_inc_open p) (\<lambda>n1. andthen (upd_file f (\<lambda>fl. fl\<lparr>f_inode := n1, is_opened := True, open_flags := flags\<rparr>))
         (bnd (inode_of n1) (\<lambda>i. ret (0, inode_to_qid i))))) (kept s) tame u"
      unfolding wlp_bnd
    proof (rule wp_inc_open [OF ui p])
      fix v :: "'k fsdevicemem"
      assume v: "fs_inv none_held (none_held(p := Suc (none_held p))) {f} v" "tree_le u v"
      let ?fl = "fl'\<lparr>f_inode := p, is_opened := True, open_flags := flags\<rparr>"
      have vf: "files v f = Some fl'" using v(2) uf by (simp add: tree_le_def)
      have lt: "f \<noteq> 0" "f < next_ptr v"
        using inv_fresh [OF v(1), of f] vf by (cases "f = 0"; cases "next_ptr v \<le> f"; simp)+
      have "fs_inv none_held (none_held(p := Suc 0, p := 0)) ({f} - {f}) (v\<lparr>files := (files v)(f \<mapsto> ?fl)\<rparr>)"
        using inv_set_file [OF v(1), of f ?fl p] lt inv_file(2) [OF v(1) vf] by simp
      then have w: "fs_ok (v\<lparr>files := (files v)(f \<mapsto> ?fl)\<rparr>)" unfolding hold_one by simp
      obtain i where i: "inodes v p = Some i" using inv_held [OF v(1), of p] by auto
      show "wlp (andthen (upd_file f (\<lambda>fl. fl\<lparr>f_inode := p, is_opened := True, open_flags := flags\<rparr>))
         (bnd (inode_of p) (\<lambda>i. ret (0, inode_to_qid i)))) (kept s) tame v"
        unfolding wlp_andthen
        by (rule wp_upd_file [OF v(1) vf], rule inode_seq [OF w, of p i])
          (use i w u(2) v(2) t(2) in \<open>simp_all add: wlp_ret tree_le_def\<close>)
    qed
  qed simp
  have "wlp (andthen (fs_close_mem f) (bnd (inode_new FT_REG mode (f_uid fl) gid) (\<lambda>n1. andthen (inode_dir_add ?q name n1) (?tail n1)))) (kept s) tame s"
    unfolding wlp_andthen
  proof (rule wp_close [OF inv f])
    fix t :: "'k fsdevicemem" and fl'
    assume t: "fs_ok t" "t = s\<lparr>files := (files s)(f \<mapsto> fl')\<rparr>" "f_inode fl' = ?q"
    show "wlp (bnd (inode_new FT_REG mode (f_uid fl) gid) (\<lambda>n1. andthen (inode_dir_add ?q name n1) (?tail n1))) (kept s) tame t"
    proof (rule wlp_seq [OF mid_new [OF mid_start [OF t(1)]]], elim conjE)
      fix p and u :: "'k fsdevicemem"
      assume u: "mid (none_held(p := 1)) none_held t u"
      have uf: "files u f = Some fl'" using u t(2) by (simp add: mid_def)
      have ui: "fs_inv (none_held(p := 1)) none_held {} u" using u by (simp add: mid_def)
      obtain m where m: "inodes u ?q = Some m" using inv_file(3) [OF ui uf] t(3) by auto
      show "wlp (andthen (inode_dir_add ?q name p) (?tail p)) (kept s) tame u"
        unfolding wlp_andthen [of "inode_dir_add ?q name p"]
      proof (rule wp_dir_add [OF ui m])
        fix v :: "'k fsdevicemem" and d n'
        assume v: "fs_inv (none_held(p := 1, p := (none_held(p := 1)) p - 1)) none_held {} v"
          "dirents v = (dirents u)(d \<mapsto> \<lparr>de_inode = p, de_name = name\<rparr>)" "files v = files u" "root_inode v = root_inode u"
        have "fs_ok v" using v(1) by (simp add: hold_one)
        then show "wlp (?tail p) (kept s) tame v"
          by (rule move [of v fl' d "\<lparr>de_inode = p, de_name = name\<rparr>"]) (use v u t uf in \<open>simp_all add: mid_def\<close>)
      qed simp
    qed
  qed simp
  then show ?thesis unfolding fs_create_mem_def
    by (intro file_seq [OF inv f] inode_seq [OF inv n]) (auto simp: wlp_ret inv n simp del: neq0_conv intro!: wp_search_free [OF inv])
qed

end
