(* ===== verification/Fs_Content.thy ===== *)
theory Fs_Content
  imports Fs_Safe
begin

text \<open>
  The contents of the regular files of \<open>src/src/fs_net.c\<close>: what truncating, writing and reading do to them, and
  that they keep the invariant of the file system.
\<close>

section \<open>One inode at a time\<close>

text \<open>\<open>t\<close> is \<open>s\<close> with the inode \<open>p\<close> replaced, but for counters that are no part of the tree.\<close>

definition only_at :: "'k fsdevicemem \<Rightarrow> ptr \<Rightarrow> fsinode \<Rightarrow> 'k fsdevicemem \<Rightarrow> bool" where
  "only_at s p m t \<longleftrightarrow> same_heaps (s\<lparr>inodes := (inodes s)(p \<mapsto> m)\<rparr>) t"

lemma only_inode: "only_at s p m t \<Longrightarrow> inodes t = (inodes s)(p \<mapsto> m)"
  by (simp add: only_at_def same_heaps_def)

lemma only_files: "only_at s p m t \<Longrightarrow> files t = files s"
  by (simp add: only_at_def same_heaps_def)

lemma only_refl: "inodes s p = Some n \<Longrightarrow> only_at s p n s"
  by (simp add: only_at_def same_heaps_def fun_upd_idem)

lemma only_other [simp]:
  "only_at s p m (t\<lparr>fs_blocks := b\<rparr>) = only_at s p m t" "only_at s p m (t\<lparr>host_calls := c\<rparr>) = only_at s p m t"
  "only_at s p m (t\<lparr>inode_cache_list := l\<rparr>) = only_at s p m t"
  by (simp_all add: only_at_def same_heaps_def)

lemma only_upd: "only_at s p m t \<Longrightarrow> only_at s p m' (t\<lparr>inodes := (inodes t)(p \<mapsto> m')\<rparr>)"
  by (simp add: only_at_def same_heaps_def)

lemma only_trans: "only_at s p m t \<Longrightarrow> only_at t p m' u \<Longrightarrow> only_at s p m' u"
  by (simp add: only_at_def same_heaps_def)

lemma only_inv:
  assumes inv: "fs_inv X Y E s" and n: "inodes s p = Some n" and u: "only_at s p m t"
    and same: "itype m = itype n" "de_list m = de_list n" "node_ok m" "refcount m = refcount n" "open_count m = open_count n"
  shows "fs_inv X Y E t"
  by (rule inv_same [OF _ u [unfolded only_at_def]])
    (use inv_upd(1) [OF inv n same(1-3), of "X p" "Y p"] same(4,5) in simp)

lemma only_load: "only_at s p m t \<Longrightarrow> p \<noteq> 0 \<Longrightarrow> Q m t \<Longrightarrow> wlp (inode_of p) Q F t"
  by (rule wp_load) (simp_all add: only_inode)

lemma only_upd_inode: "only_at s p m t \<Longrightarrow> p \<noteq> 0 \<Longrightarrow> wlp (upd_inode p g) (\<lambda>_. only_at s p (g m)) F t"
  unfolding upd_inode_def wlp_bnd by (rule only_load) (auto simp: wlp_simps intro: only_upd)

lemma only_upd_reg: "only_at s p m t \<Longrightarrow> p \<noteq> 0 \<Longrightarrow> wlp (upd_reg p g) (\<lambda>_. only_at s p (m\<lparr>reg := g (reg m)\<rparr>)) F t"
  unfolding upd_reg_def by (rule only_upd_inode)

lemma only_blocks: "only_at s p m t \<Longrightarrow> wlp (add_blocks d) (\<lambda>_. only_at s p m) tame t"
  by (rule wp_add_blocks) simp_all

lemma only_mtime: "only_at s p m t \<Longrightarrow> p \<noteq> 0 \<Longrightarrow>
    wlp (inode_update_mtime p) (\<lambda>_ u. \<exists>a b. only_at s p (m\<lparr>mtime_sec := a, mtime_nsec := b\<rparr>) u) F t"
  unfolding inode_update_mtime_def gettimeofday_def
  by (auto simp: wlp_simps split: prod.splits intro!: wlp_mono [OF only_upd_inode])

lemma wlp_ifI: "(b \<Longrightarrow> wlp m Q F s) \<Longrightarrow> (\<not> b \<Longrightarrow> wlp m' Q F s) \<Longrightarrow> wlp (if b then m else m') Q F s"
  by simp

lemma gets_seq: "wlp (k (g s)) Q F s \<Longrightarrow> wlp (bnd (gets g) k) Q F s"
  by (simp add: wlp_simps)

lemma cint64_seq: "wlp (k i) Q F s \<Longrightarrow> F SignedOverflow \<Longrightarrow> wlp (bnd (cint64 i) k) Q F s"
  by (simp add: wlp_simps)

section \<open>File buffers\<close>

lemma only_resize:
  assumes u: "only_at s p m t" and p: "p \<noteq> 0"
  shows "wlp (file_buffer_resize p sz) (\<lambda>e u. e = -1 \<and> only_at s p m u
     \<or> e = 0 \<and> (\<exists>junk. only_at s p (m\<lparr>reg := (reg m)\<lparr>fbuf := \<lparr>fb_data = realloc junk (fb_data (fbuf (reg m))) (unat sz), allocated_size = sz\<rparr>\<rparr>\<rparr>) u)) F t"
  unfolding file_buffer_resize_def wlp_bnd
  by (rule only_load [OF u p]) (auto simp: wlp_simps u split: prod.splits intro!: wlp_mono [OF only_upd_reg [OF _ p]])

lemma only_write:
  assumes u: "only_at s p m t" and p: "p \<noteq> 0" and len: "unat offset + length buf \<le> length (fb_data (fbuf (reg m)))"
  shows "wlp (file_buffer_write p offset buf)
    (\<lambda>_. only_at s p (m\<lparr>reg := (reg m)\<lparr>fbuf := (fbuf (reg m))\<lparr>fb_data := blit (fb_data (fbuf (reg m))) (unat offset) buf\<rparr>\<rparr>\<rparr>)) F t"
proof -
  have k: "poke (fb_data (fbuf (reg m))) (uint offset) buf = Inr (blit (fb_data (fbuf (reg m))) (unat offset) buf)"
    using poke_nat [OF len] by simp
  show ?thesis unfolding file_buffer_write_def wlp_bnd
    by (rule only_load [OF u p]) (simp add: wlp_lift k only_upd_reg [OF u p, THEN wlp_mono])
qed

lemma wp_file_read:
  assumes "fs_inv X Y E s" "inodes s p = Some n" "unat offset + unat len \<le> length (fb_data (fbuf (reg n)))"
    and "Q (take (unat len) (drop (unat offset) (fb_data (fbuf (reg n))))) s"
  shows "wlp (file_buffer_read p offset len) Q F s"
proof -
  have "peek (fb_data (fbuf (reg n))) (uint offset) (unat len) = Inr (take (unat len) (drop (unat offset) (fb_data (fbuf (reg n)))))"
    using peek_nat [OF assms(3)] by simp
  then show ?thesis unfolding file_buffer_read_def
    by (intro inode_seq [OF assms(1,2)]) (simp add: wlp_lift assms(4))
qed

section \<open>Contents\<close>

text \<open>The bytes of a file.\<close>

definition content :: "fsinode \<Rightarrow> bytes" where
  "content n = take (unat (rsize (reg n))) (fb_data (fbuf (reg n)))"

text \<open>
  What a file holds after a change of its size, and after a write: a write beyond the end fills the gap with
  zeroes, a write of nothing changes nothing.
\<close>

definition resized :: "nat \<Rightarrow> bytes \<Rightarrow> bytes" where
  "resized k xs = take k xs @ replicate (k - length xs) 0"

definition spliced :: "nat \<Rightarrow> bytes \<Rightarrow> bytes \<Rightarrow> bytes" where
  "spliced off bs xs = (if bs = [] then xs else let ys = resized (max (length xs) (off + length bs)) xs in take off ys @ bs @ drop (off + length bs) ys)"

lemma length_resized [simp]: "length (resized k xs) = k"
  by (simp add: resized_def)

lemma length_spliced [simp]: "bs \<noteq> [] \<Longrightarrow> length (spliced off bs xs) = max (length xs) (off + length bs)"
  by (auto simp: spliced_def Let_def max_def)

lemma resized_id [simp]: "resized (length xs) xs = xs"
  by (simp add: resized_def)

text \<open>Reading back what was written, and the rest unchanged.\<close>

lemma spliced_written: "take (length bs) (drop off (spliced off bs xs)) = bs"
  by (simp add: spliced_def Let_def)

lemma spliced_before: "k \<le> off \<Longrightarrow> k \<le> length xs \<Longrightarrow> take k (spliced off bs xs) = take k xs"
  by (simp add: spliced_def Let_def resized_def max_def min_def)

lemma spliced_after: "off + length bs \<le> k \<Longrightarrow> k \<le> length xs \<Longrightarrow> drop k (spliced off bs xs) = drop k xs"
  by (simp add: spliced_def Let_def resized_def max_def)

lemma content_length: "node_ok n \<Longrightarrow> itype n = FT_REG \<Longrightarrow> length (content n) = unat (rsize (reg n))"
  by (simp add: content_def node_ok_def)

lemma sint_diff:
  fixes a b :: u64
  assumes "unat a < 2 ^ 63" "unat b < 2 ^ 63"
  shows "sint (a - b) = int (unat a) - int (unat b)"
proof -
  have "int (unat a) < 2 ^ 63" "int (unat b) < 2 ^ 63" using assms by (metis of_nat_less_iff of_nat_numeral of_nat_power)+
  note lt = this
  have "a - b = word_of_int (int (unat a) - int (unat b))" by simp
  also have "sint \<dots> = signed_take_bit 63 (int (unat a) - int (unat b))" by (subst signed_of_int) simp
  also have "\<dots> = int (unat a) - int (unat b)" by (rule signed_take_bit_int_eq_self) (use lt in linarith)+
  finally show ?thesis .
qed


text \<open>The two ways the buffer is brought to a new size.\<close>

lemma grown:
  assumes n: "node_ok n" "itype n = FT_REG" and sz: "rsize (reg n) < sz" "unat sz < 2 ^ 63"
    and d: "take (unat (rsize (reg n))) d = content n" "length d = unat a" "sz \<le> a"
    and m: "m = n\<lparr>reg := (reg n)\<lparr>fbuf := \<lparr>fb_data = blit d (unat (rsize (reg n))) (replicate (unat (sz - rsize (reg n))) 0), allocated_size = a\<rparr>,
      rsize := sz\<rparr>\<rparr>"
  shows "node_ok m \<and> content m = resized (unat sz) (content n)"
proof -
  have c: "length (content n) = unat (rsize (reg n))" by (rule content_length [OF n])
  have l: "unat (sz - rsize (reg n)) = unat sz - unat (rsize (reg n))" "unat (rsize (reg n)) < unat sz" "unat sz \<le> unat a"
    using sz d(3) by (auto simp: unat_sub word_less_nat_alt word_le_nat_alt)
  have "length (blit d (unat (rsize (reg n))) (replicate (unat (sz - rsize (reg n))) 0)) = unat a"
    using l d(2) by (simp add: blit_def)
  then have "node_ok m" using n sz l by (simp add: node_ok_def m)
  moreover have "content m = content n @ replicate (unat sz - unat (rsize (reg n))) 0"
    unfolding content_def [of m] using l c d(1) by (simp add: m blit_def)
  then have "content m = resized (unat sz) (content n)" using l c by (simp add: resized_def)
  ultimately show ?thesis ..
qed

lemma shrunk:
  assumes n: "node_ok n" "itype n = FT_REG" and sz: "sz \<le> rsize (reg n)"
    and d: "take (unat sz) d = take (unat sz) (content n)" "length d = unat a" "sz \<le> a"
    and m: "m = n\<lparr>reg := (reg n)\<lparr>fbuf := \<lparr>fb_data = d, allocated_size = a\<rparr>, rsize := sz\<rparr>\<rparr>"
  shows "node_ok m \<and> content m = resized (unat sz) (content n)"
proof -
  have c: "length (content n) = unat (rsize (reg n))" by (rule content_length [OF n])
  have l: "unat sz \<le> unat (rsize (reg n))" "unat sz \<le> unat a" using sz d(3) by (auto simp: word_le_nat_alt)
  have "node_ok m" using n d l by (simp add: node_ok_def m)
  moreover have "content m = take (unat sz) (content n)"
    unfolding content_def [of m] using d(1) by (simp add: m)
  then have "content m = resized (unat sz) (content n)" using l c by (simp add: resized_def)
  ultimately show ?thesis ..
qed

lemma resize_target: "s \<le> (if na < s then s else na)" for s na :: u64
  by auto

definition truncated :: "fsinode \<Rightarrow> u64 \<Rightarrow> int \<Rightarrow> fsinode \<Rightarrow> bool" where
  "truncated n sz e m \<longleftrightarrow> m = n\<lparr>reg := reg m\<rparr> \<and> node_ok m \<and> e \<le> 0
     \<and> (if e = 0 then rsize (reg m) = sz \<and> content m = resized (unat sz) (content n)
        else rsize (reg m) = rsize (reg n) \<and> content m = content n)"

lemma truncate_finish:
  assumes "only_at s p m t" "p \<noteq> 0" "truncated n sz 0 (m\<lparr>reg := (reg m)\<lparr>rsize := sz\<rparr>\<rparr>)"
  shows "wlp (andthen (add_blocks d) (bnd (gets fs_blocks) (\<lambda>b. andthen (guard AssertFail (0 \<le> b))
      (andthen (upd_reg p (\<lambda>r. r\<lparr>rsize := sz\<rparr>)) (ret (0 :: int)))))) (\<lambda>e u. \<exists>m. only_at s p m u \<and> truncated n sz e m) tame t"
proof (rule wlp_then [OF only_blocks [OF assms(1)]])
  fix u assume u: "only_at s p m u"
  show "wlp (bnd (gets fs_blocks) (\<lambda>b. andthen (guard AssertFail (0 \<le> b))
      (andthen (upd_reg p (\<lambda>r. r\<lparr>rsize := sz\<rparr>)) (ret (0 :: int))))) (\<lambda>e u. \<exists>m. only_at s p m u \<and> truncated n sz e m) tame u"
    using assms(3) by (auto simp: wlp_simps intro!: wlp_mono [OF only_upd_reg [OF u assms(2)]])
qed

lemma truncate_rule:
  assumes inv: "fs_inv X Y E s" and n: "inodes s p = Some n" and sz: "unat sz < 2 ^ 63"
  shows "wlp (fs_truncate p sz) (\<lambda>e u. \<exists>m. only_at s p m u \<and> truncated n sz e m) tame s"
proof (cases "itype n = FT_REG")
  case False
  then show ?thesis unfolding fs_truncate_def
    by (intro inode_seq [OF inv n]) (use only_refl [OF n] inv_node(2) [OF inv n] in \<open>auto simp: wlp_ret truncated_def\<close>)
next
  case reg: True
  have ok: "node_ok n" and p: "p \<noteq> 0" by (rule inv_node(2,1) [OF inv n])+
  have loc: "rstate (reg n) = REG_STATE_LOCAL" "unat (rsize (reg n)) < 2 ^ 63" "length (fb_data (fbuf (reg n))) = unat (allocated_size (fbuf (reg n)))"
    "unat (rsize (reg n)) \<le> length (fb_data (fbuf (reg n)))"
    using ok reg by (simp_all add: node_ok_def)
  have df: "sint (sz - rsize (reg n)) = int (unat sz) - int (unat (rsize (reg n)))" by (rule sint_diff [OF sz loc(2)])
  have lt_iff: "(0 < int (unat sz) - int (unat (rsize (reg n)))) = (rsize (reg n) < sz)"
    by (simp only: word_less_nat_alt) linarith
  have same: "\<exists>m. only_at s p m u \<and> truncated n sz e m" if "only_at s p n u" "e < 0" for u e
    using that ok by (auto simp: truncated_def)
  let ?Q = "\<lambda>e u. \<exists>m. only_at s p m u \<and> truncated n sz e m" and ?d = "fb_data (fbuf (reg n))" and ?a = "allocated_size (fbuf (reg n))"
  let ?fin = "\<lambda>d. andthen (add_blocks d) (bnd (gets fs_blocks) (\<lambda>b. andthen (guard AssertFail (0 \<le> b))
               (andthen (upd_reg p (\<lambda>r. r\<lparr>rsize := sz\<rparr>)) (ret (0 :: int)))))"
  have keep: "take k (content n) = take k ?d" if "k \<le> unat (rsize (reg n))" for k using that by (simp add: content_def)
  have grow: "wlp (andthen (file_buffer_set p (rsize (reg n)) 0 (sz - rsize (reg n))) (andthen (ret ()) (?fin d))) ?Q tame t"
    if t: "only_at s p (n\<lparr>reg := (reg n)\<lparr>fbuf := \<lparr>fb_data = b, allocated_size = a\<rparr>\<rparr>\<rparr>) t" and lt: "rsize (reg n) < sz"
      and b: "take (unat (rsize (reg n))) b = content n" "length b = unat a" "sz \<le> a" for t b a d
  proof -
    have l: "unat (rsize (reg n)) + unat (sz - rsize (reg n)) \<le> length b"
      using lt b by (simp add: unat_sub word_less_nat_alt word_le_nat_alt)
    show ?thesis unfolding file_buffer_set_def wlp_andthen [of "ret ()"] wlp_ret wlp_andthen [of "file_buffer_write _ _ _"]
    proof (rule wlp_mono [OF only_write [OF t p]])
      fix u :: "'a fsdevicemem"
      let ?m = "n\<lparr>reg := (reg n)\<lparr>fbuf := \<lparr>fb_data = blit b (unat (rsize (reg n))) (replicate (unat (sz - rsize (reg n))) 0), allocated_size = a\<rparr>\<rparr>\<rparr>"
      assume "only_at s p (n\<lparr>reg := (reg n)\<lparr>fbuf := \<lparr>fb_data = b, allocated_size = a\<rparr>\<rparr>, reg := (reg (n\<lparr>reg := (reg n)\<lparr>fbuf := \<lparr>fb_data = b, allocated_size = a\<rparr>\<rparr>\<rparr>))
        \<lparr>fbuf := (fbuf (reg (n\<lparr>reg := (reg n)\<lparr>fbuf := \<lparr>fb_data = b, allocated_size = a\<rparr>\<rparr>\<rparr>)))\<lparr>fb_data := blit (fb_data (fbuf (reg (n\<lparr>reg := (reg n)
        \<lparr>fbuf := \<lparr>fb_data = b, allocated_size = a\<rparr>\<rparr>\<rparr>)))) (unat (rsize (reg n))) (replicate (unat (sz - rsize (reg n))) 0)\<rparr>\<rparr>\<rparr>) u"
      then have u: "only_at s p ?m u" by simp
      show "wlp (?fin d) ?Q tame u"
        by (rule truncate_finish [OF u p]) (use grown [OF ok reg lt sz b refl] in \<open>simp add: truncated_def\<close>)
    qed (use l in simp_all)
  qed
  have shrink: "wlp (andthen (ret ()) (?fin d)) ?Q tame t"
    if t: "only_at s p (n\<lparr>reg := (reg n)\<lparr>fbuf := \<lparr>fb_data = b, allocated_size = a\<rparr>\<rparr>\<rparr>) t" and lt: "sz \<le> rsize (reg n)"
      and b: "take (unat sz) b = take (unat sz) (content n)" "length b = unat a" "sz \<le> a" for t b a d
    unfolding wlp_andthen [of "ret ()"] wlp_ret
    by (rule truncate_finish [OF t p]) (use shrunk [OF ok reg lt b refl] in \<open>simp add: truncated_def\<close>)
  have eq: "n\<lparr>reg := (reg n)\<lparr>fbuf := \<lparr>fb_data = ?d, allocated_size = ?a\<rparr>\<rparr>\<rparr> = n" by simp
  let ?room = "\<lambda>k e t. e = -1 \<and> only_at s p n t \<or> e = 0 \<and> (\<exists>b a. only_at s p (n\<lparr>reg := (reg n)\<lparr>fbuf := \<lparr>fb_data = b, allocated_size = a\<rparr>\<rparr>\<rparr>) t
      \<and> take (unat k) b = take (unat k) (content n) \<and> length b = unat a \<and> sz \<le> a)"
  have room: "wlp (if c then file_buffer_resize p na else ret (0 :: int)) (?room k) tame s"
    if "c \<Longrightarrow> sz \<le> na" "\<not> c \<Longrightarrow> sz \<le> ?a" "k \<le> rsize (reg n)" "k \<le> sz" for c na k
  proof (cases c)
    case True
    have "unat k \<le> length ?d" "unat k \<le> unat na" using that True loc(4) by (auto simp: word_le_nat_alt)
    then have "take (unat k) (realloc junk ?d (unat na)) = take (unat k) (content n)" for junk
      using keep [of "unat k"] that(3) by (simp add: take_realloc word_le_nat_alt)
    then show ?thesis using True that(1)
      by (auto intro!: wlp_mono [OF only_resize [OF only_refl [OF n] p]] exI [of _ na] exI [of _ "realloc _ ?d (unat na)"])
  next
    case False
    have "take (unat k) ?d = take (unat k) (content n)" using keep [of "unat k"] that(3) by (simp add: word_le_nat_alt)
    then show ?thesis using False that(2) loc(3) only_refl [OF n]
      by (auto simp: wlp_ret eq intro!: exI [of _ ?a] exI [of _ ?d])
  qed
  have all: "take (unat (rsize (reg n))) (content n) = content n" using content_length [OF ok reg] by simp
  have grow': "wlp (bnd (if c then file_buffer_resize p na else ret 0) (\<lambda>e. if e < 0 then ret (- P9_ENOSPC)
      else andthen (file_buffer_set p (rsize (reg n)) 0 (sz - rsize (reg n))) (andthen (ret ()) (?fin d)))) ?Q tame s"
    if "rsize (reg n) < sz" "c \<Longrightarrow> sz \<le> na" "\<not> c \<Longrightarrow> sz \<le> ?a" for c na d
    by (rule wlp_seq [OF room [of c na "rsize (reg n)"]]) (use that all in \<open>auto intro!: grow same simp: wlp_ret\<close>)
  have shrink': "wlp (bnd (if c then file_buffer_resize p na else ret 0) (\<lambda>e. if e < 0 then ret (- P9_ENOSPC)
      else andthen (ret ()) (?fin d))) ?Q tame s"
    if "sz \<le> rsize (reg n)" "c \<Longrightarrow> sz \<le> na" "\<not> c \<Longrightarrow> sz \<le> ?a" for c na d
    by (rule wlp_seq [OF room [of c na sz]]) (use that in \<open>auto intro!: shrink same simp: wlp_ret\<close>)
  have le: "sz \<le> ?a" if "sz \<le> rsize (reg n)" using that loc(3,4) by (simp add: word_le_nat_alt)
  have id: "truncated n sz 0 n" if "sz = rsize (reg n)"
    using that ok resized_id [of "content n", unfolded content_length [OF ok reg]] by (simp add: truncated_def)
  show ?thesis unfolding fs_truncate_def Let_def
  proof (rule inode_seq [OF inv n], simp only: reg loc(1) reg_state.case df lt_iff if_False simp_thms reg_state.distinct, intro wlp_ifI)
    assume "int (unat sz) - int (unat (rsize (reg n))) = 0"
    then have "unat sz = unat (rsize (reg n))" by linarith
    then have "sz = rsize (reg n)" by (simp only: word_unat_eq_iff)
    then show "wlp (ret 0) ?Q tame s" using only_refl [OF n] id by (auto simp: wlp_ret)
  qed (rule gets_seq, unfold prod.case, (intro cint64_seq wlp_ifI grow' shrink'; (simp add: wlp_ret same only_refl [OF n] le not_less; fail)?))
qed

section \<open>Operations\<close>

lemma truncated_keeps:
  assumes "truncated n sz e m"
  shows "itype m = itype n" "de_list m = de_list n" "node_ok m" "refcount m = refcount n" "open_count m = open_count n"
    "symlink_name m = symlink_name n"
proof -
  have "m = n\<lparr>reg := reg m\<rparr>" "node_ok m" using assms by (simp_all add: truncated_def)
  moreover have "itype (n\<lparr>reg := reg m\<rparr>) = itype n" "de_list (n\<lparr>reg := reg m\<rparr>) = de_list n" "refcount (n\<lparr>reg := reg m\<rparr>) = refcount n"
    "open_count (n\<lparr>reg := reg m\<rparr>) = open_count n" "symlink_name (n\<lparr>reg := reg m\<rparr>) = symlink_name n" by simp_all
  ultimately show "itype m = itype n" "de_list m = de_list n" "node_ok m" "refcount m = refcount n" "open_count m = open_count n"
    "symlink_name m = symlink_name n" by metis+
qed

text \<open>
  Writing through an open, writable handle: on success the file holds the old bytes with the new ones in
  place, zeroes filling a gap; on an error it is as before.
\<close>

definition written :: "fsinode \<Rightarrow> nat \<Rightarrow> bytes \<Rightarrow> int \<Rightarrow> fsinode \<Rightarrow> bool" where
  "written n off bs e m \<longleftrightarrow> itype m = itype n \<and> de_list m = de_list n \<and> node_ok m \<and> refcount m = refcount n \<and> open_count m = open_count n
     \<and> symlink_name m = symlink_name n
     \<and> (if e = int (length bs) then content m = spliced off bs (content n) else content m = content n)"

lemma written_data:
  assumes ok: "node_ok n" "itype n = FT_REG" and le: "off + length bs \<le> unat (rsize (reg n))"
    and m: "m = n\<lparr>mtime_sec := a, mtime_nsec := b, reg := (reg n)\<lparr>fbuf := (fbuf (reg n))\<lparr>fb_data := blit (fb_data (fbuf (reg n))) off bs\<rparr>\<rparr>\<rparr>"
  shows "node_ok m \<and> content m = blit (content n) off bs"
proof -
  have l: "unat (rsize (reg n)) \<le> length (fb_data (fbuf (reg n)))" using ok by (simp add: node_ok_def)
  then have "length (blit (fb_data (fbuf (reg n))) off bs) = length (fb_data (fbuf (reg n)))" using le by (simp add: blit_def)
  then have "node_ok m" using ok by (simp add: node_ok_def m)
  moreover have "content m = blit (content n) off bs"
    using le l by (auto simp: content_def m blit_def take_drop)
  ultimately show ?thesis ..
qed

lemma blit_resized: "bs \<noteq> [] \<Longrightarrow> off + length bs \<le> k \<Longrightarrow> k = max (length xs) (off + length bs) \<Longrightarrow> blit (resized k xs) off bs = spliced off bs xs"
  by (simp add: blit_def spliced_def Let_def)


lemma write_data_rule:
  fixes s t :: "'k fsdevicemem"
  assumes t: "only_at s p m t" and p: "p \<noteq> 0" and m: "node_ok m" "itype m = FT_REG" and fits: "off + length bs \<le> unat (rsize (reg m))"
    and off: "off = unat offset" "bs = take (nat count) buf" "0 \<le> count" "count \<le> int (length buf)"
    and Q: "\<And>m' u. only_at s p m' u \<Longrightarrow> itype m' = itype m \<Longrightarrow> de_list m' = de_list m \<Longrightarrow> node_ok m' \<Longrightarrow> refcount m' = refcount m \<Longrightarrow>
      open_count m' = open_count m \<Longrightarrow> symlink_name m' = symlink_name m \<Longrightarrow> content m' = blit (content m) off bs \<Longrightarrow> Q count u"
  shows "wlp (andthen (inode_update_mtime p)
         (bnd (inode_of p) (\<lambda>n.
          andthen (if rstate (reg n) = REG_STATE_LOADED
            then andthen (cache_unlink p (rsize (reg n))) (upd_reg p (\<lambda>r. r\<lparr>rstate := REG_STATE_LOCAL\<rparr>)) else ret ())
          (andthen (guard OutOfBounds (0 \<le> count \<and> count \<le> int (length buf)))
          (andthen (file_buffer_write p offset (take (nat count) buf)) (ret count)))))) Q tame t"
proof (rule wlp_then [OF only_mtime [OF t p]], elim exE)
  fix u :: "'k fsdevicemem" and a b
  let ?m = "m\<lparr>mtime_sec := a, mtime_nsec := b\<rparr>"
  assume u: "only_at s p ?m u"
  have loc: "rstate (reg m) = REG_STATE_LOCAL" "unat (rsize (reg m)) \<le> length (fb_data (fbuf (reg m)))" using m by (simp_all add: node_ok_def)
  have w: "wlp (file_buffer_write p offset bs) Q' tame u"
    if "\<And>v. only_at s p (?m\<lparr>reg := (reg m)\<lparr>fbuf := (fbuf (reg m))\<lparr>fb_data := blit (fb_data (fbuf (reg m))) off bs\<rparr>\<rparr>\<rparr>) v \<Longrightarrow> Q' () v" for Q'
    by (rule wlp_mono [OF only_write [OF u p]]) (use that off(1) loc(2) fits in auto)
  show "wlp (bnd (inode_of p) (\<lambda>n.
          andthen (if rstate (reg n) = REG_STATE_LOADED
            then andthen (cache_unlink p (rsize (reg n))) (upd_reg p (\<lambda>r. r\<lparr>rstate := REG_STATE_LOCAL\<rparr>)) else ret ())
          (andthen (guard OutOfBounds (0 \<le> count \<and> count \<le> int (length buf)))
          (andthen (file_buffer_write p offset (take (nat count) buf)) (ret count))))) Q tame u"
    unfolding wlp_bnd
  proof (rule only_load [OF u p], simp add: loc off(3,4) wlp_andthen wlp_ret wlp_guard flip: off(2), rule w, unfold wlp_ret, erule Q)
  qed (use written_data [OF m fits refl] in simp_all)
qed

lemma write_rule:
  fixes s :: "'k fsdevicemem"
  assumes inv: "fs_ok s" and f: "files s f = Some fl" and n: "inodes s (f_inode fl) = Some n"
    and count: "0 \<le> count" "count \<le> int (length buf)" "unat offset + nat count < 2 ^ 63"
  shows "wlp (fs_write_mem cmd_write f offset buf count) (\<lambda>e t. \<exists>m. only_at s (f_inode fl) m t
     \<and> written n (unat offset) (if e < 0 then [] else take (nat count) buf) (if e < 0 then - 1 else e) m
     \<and> (e < 0 \<or> e = count)) tame s"
  (is "wlp _ ?Q _ _")
proof -
  have ok: "node_ok n" and p: "f_inode fl \<noteq> 0" by (rule inv_node(2,1) [OF inv n])+
  have same: "wlp (ret e) ?Q tame s" if "e < 0" for e
    using that ok only_refl [OF n] by (auto simp: wlp_ret written_def)
  let ?p = "f_inode fl" and ?bs = "take (nat count) buf" and ?tail = "offset + word_of_int count :: u64"
  have len: "int (length ?bs) = count" "length ?bs = nat count" using count by simp_all
  have fits: "unat ?tail = unat offset + nat count"
  proof -
    have "nat count < 2 ^ 63" using count(3) by linarith
    then have "count < 2 ^ 64" using count(1) by simp
    then have "uint (word_of_int count :: u64) = count" using count(1) by (simp add: uint_word_of_int_eq take_bit_int_eq_self)
    then have "unat (word_of_int count :: u64) = nat count" by (simp only: unat_eq_nat_uint)
    then show ?thesis using count(3) unat_add_lem [of offset "word_of_int count"] by simp
  qed
  let ?rest = "andthen (inode_update_mtime ?p)
         (bnd (inode_of ?p) (\<lambda>n.
          andthen (if rstate (reg n) = REG_STATE_LOADED
            then andthen (cache_unlink ?p (rsize (reg n))) (upd_reg ?p (\<lambda>r. r\<lparr>rstate := REG_STATE_LOCAL\<rparr>)) else ret ())
          (andthen (guard OutOfBounds (0 \<le> count \<and> count \<le> int (length buf)))
          (andthen (file_buffer_write ?p offset (take (nat count) buf)) (ret count)))))"
  have rest: "wlp ?rest ?Q tame t"
    if t: "only_at s ?p m t" "itype m = itype n" "de_list m = de_list n" "node_ok m" "refcount m = refcount n" "open_count m = open_count n"
        "symlink_name m = symlink_name n"
      and c: "content m = resized (max (length (content n)) (unat offset + nat count)) (content n)"
      and r: "unat offset + nat count \<le> unat (rsize (reg m))" "itype n = FT_REG" "?bs \<noteq> []" for t m
  proof (rule write_data_rule [OF t(1) p t(4) _ _ refl refl count(1,2)])
    fix m' u
    assume "only_at s ?p m' u" "itype m' = itype m" "de_list m' = de_list m" "node_ok m'" "refcount m' = refcount m" "open_count m' = open_count m"
      "symlink_name m' = symlink_name m" "content m' = blit (content m) (unat offset) ?bs"
    then show "?Q count u" using t count(1) blit_resized [OF r(3), of "unat offset" _ "content n"] c len by (auto simp: written_def)
  qed (use t(2) r len in simp_all)
  have big: "wlp (bnd (if rsize (reg n) < ?tail then fs_truncate ?p ?tail else ret 0) (\<lambda>err. if err \<noteq> 0 then ret err else ?rest)) ?Q tame s"
    if reg: "itype n = FT_REG" "?bs \<noteq> []"
  proof (cases "rsize (reg n) < ?tail")
    case True
    have lt: "length (content n) < unat offset + nat count" using True fits content_length [OF ok reg(1)] by (simp add: word_less_nat_alt)
    have "unat ?tail < 2 ^ 63" using fits count(3) by simp
    then have "wlp (bnd (fs_truncate ?p ?tail) (\<lambda>err. if err \<noteq> 0 then ret err else ?rest)) ?Q tame s"
    proof (rule wlp_seq [OF truncate_rule [OF inv n]], elim exE conjE)
      fix e t m assume t: "only_at s ?p m t" "truncated n ?tail e m"
      note k = truncated_keeps [OF t(2)]
      show "wlp (if e \<noteq> 0 then ret e else ?rest) ?Q tame t"
      proof (cases "e = 0")
        case True
        then have "content m = resized (unat offset + nat count) (content n)" "rsize (reg m) = ?tail"
          using t(2) fits by (simp_all add: truncated_def)
        then have "wlp ?rest ?Q tame t" using lt fits reg by (intro rest [OF t(1) k]) (simp_all add: max_def)
        then show ?thesis using True by simp
      next
        case False
        then show ?thesis using t k by (auto simp: wlp_ret truncated_def written_def)
      qed
    qed
    then show ?thesis using True by simp
  next
    case False
    have c: "length (content n) = unat (rsize (reg n))" by (rule content_length [OF ok reg(1)])
    have "unat offset + nat count \<le> unat (rsize (reg n))" using False fits by (simp add: word_less_nat_alt)
    moreover from this have "content n = resized (max (length (content n)) (unat offset + nat count)) (content n)"
      using c resized_id [of "content n", unfolded c] by (simp add: max_def)
    ultimately have "wlp ?rest ?Q tame s" using only_refl [OF n] ok reg by (intro rest) simp_all
    then show ?thesis using False by (simp add: wlp_bnd [of "ret 0"] wlp_ret)
  qed
  have zero: "wlp (ret 0) ?Q tame s" if "count = 0" using that ok only_refl [OF n] by (auto simp: wlp_ret written_def spliced_def)
  have bs: "?bs \<noteq> []" if "count \<noteq> 0" using that count by auto
  have "\<not> is_fscmd (reg n)" if "itype n = FT_REG" using that ok by (simp add: node_ok_def)
  then show ?thesis unfolding fs_write_mem_def Let_def
    by (intro file_seq [OF inv f] wlp_ifI inode_seq [OF inv n] big same zero bs) simp_all
qed


text \<open>Reading: the bytes of the file from the offset on, as many as there are and fit.\<close>

lemma content_read:
  assumes "node_ok n" "itype n = FT_REG" "off + k \<le> unat (rsize (reg n))"
  shows "take k (drop off (fb_data (fbuf (reg n)))) = take k (drop off (content n))" "off + k \<le> length (fb_data (fbuf (reg n)))"
proof -
  show "off + k \<le> length (fb_data (fbuf (reg n)))" using assms by (simp add: node_ok_def)
  show "take k (drop off (fb_data (fbuf (reg n)))) = take k (drop off (content n))"
    using assms(3) by (simp add: content_def drop_take min_def)
qed

definition readable :: "fsfile \<Rightarrow> fsinode \<Rightarrow> bool" where
  "readable fl n \<longleftrightarrow> is_opened fl \<and> itype n = FT_REG \<and> open_flags fl AND P9_O_NOACCESS \<noteq> P9_O_WRONLY"

lemma read_rule:
  assumes inv: "fs_ok s" and f: "files s f = Some fl" and n: "inodes s (f_inode fl) = Some n"
    and count: "0 \<le> count" "count < 2147483648" "nat count \<le> length buf"
  shows "wlp (fs_read_mem f offset buf count) (\<lambda>(e, b) t. t = s \<and> (\<not> readable fl n \<and> e < 0 \<and> b = buf
     \<or> readable fl n \<and> e = int (length (take (nat count) (drop (unat offset) (content n))))
       \<and> b = blit buf 0 (take (nat count) (drop (unat offset) (content n))))) F s"
  (is "wlp _ ?Q _ _")
proof -
  let ?p = "f_inode fl" and ?sz = "rsize (reg n)"
  let ?c = "if ?sz - offset < word_of_int count then int_of_u32 (ucast (?sz - offset)) else count"
  have ok: "node_ok n" by (rule inv_node(2) [OF inv n])
  have cmd: "\<not> is_fscmd (reg n)" if "itype n = FT_REG" using that ok by (simp add: node_ok_def)
  have bad: "wlp (ret (e, buf)) ?Q F s" if "e < 0" "\<not> readable fl n" for e using that by (simp add: wlp_ret)
  have "uint (word_of_int count :: u64) = count" using count by (simp add: uint_word_of_int_eq take_bit_int_eq_self)
  then have w: "unat (word_of_int count :: u64) = nat count" by (simp only: unat_eq_nat_uint)
  have past: "wlp (ret (0, buf)) ?Q F s" if "itype n = FT_REG" "readable fl n" "?sz \<le> offset"
    using that content_length [OF ok that(1)] by (simp add: wlp_ret word_le_nat_alt blit_def)
  have main: "wlp (bnd (file_buffer_read ?p offset (word_of_int ?c)) (\<lambda>d. bnd (lift (poke buf 0 d)) (\<lambda>b. ret (?c, b)))) ?Q F s"
    if r: "itype n = FT_REG" "readable fl n" "\<not> ?sz \<le> offset"
  proof -
    define k where "k = min (nat count) (unat ?sz - unat offset)"
    have sub: "unat (?sz - offset) = unat ?sz - unat offset" using r(3) by (simp add: unat_sub)
    have c: "?c = int k"
    proof (cases "?sz - offset < word_of_int count")
      case True
      then have lt: "unat ?sz - unat offset < nat count" using w sub by (simp add: word_less_nat_alt)
      then have "unat (?sz - offset) < 2147483648" using sub count(1,2) by linarith
      then have "unat (ucast (?sz - offset) :: u32) = unat ?sz - unat offset" 
        using sub by (simp add: unsigned_ucast_eq unsigned_take_bit_eq take_bit_nat_eq_self)
      then show ?thesis using True lt count \<open>unat (?sz - offset) < 2147483648\<close> sub int_of_u32_small [of "ucast (?sz - offset)"] by (simp add: k_def)
    next
      case False
      then show ?thesis using w sub count(1) by (simp add: word_less_nat_alt k_def)
    qed
    have "k < 2147483648" using count(1,2) by (simp add: k_def)
    then have wk: "unat (word_of_int (int k) :: u64) = k" by (simp add: unat_of_nat take_bit_nat_eq_self)
    have le: "unat offset + k \<le> unat ?sz" using r(3) by (simp add: k_def word_le_nat_alt)
    have d: "take (nat count) (drop (unat offset) (content n)) = take k (drop (unat offset) (content n))"
      using content_length [OF ok r(1)] by (simp add: k_def min_def)
    have l: "length (take k (drop (unat offset) (content n))) = k" using content_length [OF ok r(1)] le by simp
    have "wlp (file_buffer_read ?p offset (word_of_int (int k))) (\<lambda>d t. t = s \<and> d = take k (drop (unat offset) (content n))) F s"
      by (rule wp_file_read [OF inv n]) (use content_read [OF ok r(1) le] wk in simp_all)
    moreover have "k \<le> length buf" using count(3) by (simp add: k_def)
    then have "poke buf 0 (take k (drop (unat offset) (content n))) = Inr (blit buf 0 (take k (drop (unat offset) (content n))))"
      using poke_nat [of 0 "take k (drop (unat offset) (content n))" buf] l by simp
    ultimately show ?thesis unfolding c by (elim wlp_seq) (use l d r in \<open>auto simp: wlp_bnd wlp_lift wlp_ret\<close>)
  qed
  show ?thesis unfolding fs_read_mem_def Let_def
    by (intro file_seq [OF inv f] wlp_ifI inode_seq [OF inv n] bad past main) (simp_all add: cmd readable_def)
qed


text \<open>Attributes, and opening: a local file is truncated when asked for and opened at once.\<close>

lemma only_ok:
  assumes "fs_ok s" "inodes s p = Some n" "only_at s p m t" "itype m = itype n" "de_list m = de_list n" "node_ok m"
    "refcount m = refcount n" "open_count m = open_count n"
  shows "fs_ok t" "root_inode t = root_inode s" "files t = files s" "inodes t p = Some m"
  using only_inv [OF assms(1-3)] assms by (simp_all add: only_at_def same_heaps_def)

definition alike :: "fsinode \<Rightarrow> fsinode \<Rightarrow> bool" where
  "alike n m \<longleftrightarrow> itype m = itype n \<and> de_list m = de_list n \<and> node_ok m \<and> refcount m = refcount n \<and> open_count m = open_count n"

lemma setattr_ok:
  fixes s :: "'k fsdevicemem"
  assumes inv: "fs_ok s" and f: "files s f = Some fl" and sz: "msk AND 0x8 = 0 \<or> unat sz < 2 ^ 63"
  shows "wlp (fs_setattr_mem f msk mode uid gid sz atime_s atime_ns mtime_s mtime_ns) (kept s) tame s"
proof -
  let ?p = "f_inode fl"
  obtain n where n: "inodes s ?p = Some n" using inv_file(3) [OF inv f] by auto
  have p: "?p \<noteq> 0" by (rule inv_node(1) [OF inv n])
  define J where "J = (\<lambda>t. \<exists>m. only_at s ?p m t \<and> alike n m)"
  have start: "J s" using only_refl [OF n] inv_node(2) [OF inv n] by (auto simp: J_def alike_def)
  have ok: "fs_ok t" "root_inode t = root_inode s" if "J t" for t
    using that only_ok [OF inv n] by (auto simp: J_def alike_def)
  have set: "wlp (upd_inode ?p g) (\<lambda>_. J) tame t" if "J t" "\<And>m. alike n m \<Longrightarrow> alike n (g m)" for g t
    using that by (auto simp: J_def intro!: wlp_mono [OF only_upd_inode [OF _ p]])
  have now: "wlp (inode_update_mtime ?p) (\<lambda>_. J) tame t" if "J t" for t
    using that by (auto simp: J_def alike_def intro!: wlp_mono [OF only_mtime [OF _ p]])
  have ctime: "wlp (bnd gettimeofday (\<lambda>(sec, usec). upd_inode ?p (\<lambda>n. n\<lparr>ctime_sec := sec, ctime_nsec := usec * 1000\<rparr>))) (\<lambda>_. J) tame t"
    if "J t" for t
    unfolding gettimeofday_def wlp_simps using that
    by (cases "host_time (fs_host t) (host_calls t)") (simp, rule set, simp_all add: J_def alike_def)
  have opt: "wlp (if c then m else ret ()) (\<lambda>_. J) tame t" if "J t" "\<And>t. J t \<Longrightarrow> wlp m (\<lambda>_. J) tame t" for c m t
    using that by (simp add: wlp_ret)
  have trunc: "wlp (if msk AND 0x8 \<noteq> 0 then fs_truncate ?p sz else ret 0) (\<lambda>_. J) tame t" if t: "J t" for t
  proof (cases "msk AND 0x8 = 0")
    case True
    then show ?thesis using t by (simp add: wlp_ret)
  next
    case False
    obtain m where m: "only_at s ?p m t" "alike n m" using t by (auto simp: J_def)
    have mt: "inodes t ?p = Some m" using only_inode [OF m(1)] by simp
    have "wlp (fs_truncate ?p sz) (\<lambda>_. J) tame t"
    proof (rule wlp_mono [OF truncate_rule [OF ok(1) [OF t] mt]])
      fix e u assume "\<exists>m'. only_at t ?p m' u \<and> truncated m sz e m'"
      then obtain m' where "only_at t ?p m' u" "truncated m sz e m'" by blast
      then show "J u" using only_trans [OF m(1)] truncated_keeps [of m sz e m'] m(2) by (auto simp: J_def alike_def)
    qed (use sz False in auto)
    then show ?thesis using False by simp
  qed
  have fin: "wlp (ret r) (kept s) tame t" if "J t" for t and r :: int using ok [OF that] by (simp add: wlp_ret)
  have mt: "wlp (if c then upd_inode ?p (\<lambda>n. n\<lparr>mtime_sec := a, mtime_nsec := b\<rparr>) else inode_update_mtime ?p) (\<lambda>_. J) tame t"
    if "J t" for c a b t using that by (auto intro!: now set simp: alike_def)
  show ?thesis unfolding fs_setattr_mem_def Let_def
    apply (rule file_seq [OF inv f])
    apply (rule wlp_then, rule opt [OF start], rule set, assumption, simp add: alike_def)
    apply (rule wlp_then, erule opt, rule set, assumption, simp add: alike_def)+
    apply (rule wlp_seq, erule trunc, rule wlp_ifI, erule fin)
    apply (rule wlp_then, erule opt, erule mt)
    apply (rule wlp_then, erule opt, erule ctime, erule fin)
    done
qed


lemma upd_file_step:
  assumes inv: "fs_ok t" "root_inode t = r" and f: "files t f = Some fl" and g: "\<And>fl. f_inode (g fl) = f_inode fl" "\<And>fl. f_req (g fl) = f_req fl"
  shows "wlp (upd_file f g) (\<lambda>_ u. fs_ok u \<and> root_inode u = r \<and> inodes u = inodes t \<and> files u f = Some (g fl)) F t"
  by (rule wp_upd_file [OF inv(1) f]) (use inv_upd_file [OF inv(1) f, of "g fl"] inv_file(2) [OF inv(1) f] g inv(2) in simp)

lemma open_ok:
  fixes s :: "'k fsdevicemem"
  assumes inv: "fs_ok s" and f: "files s f = Some fl"
  shows "wlp (fs_open_mem lib f flags opaque) (kept s) tame s"
proof -
  let ?p = "f_inode fl"
  obtain n where n: "inodes s ?p = Some n" using inv_file(3) [OF inv f] by auto
  define J where "J = (\<lambda>t :: 'k fsdevicemem. fs_ok t \<and> root_inode t = root_inode s \<and> (\<exists>fl'. files t f = Some fl' \<and> f_inode fl' = ?p)
     \<and> (\<exists>m. inodes t ?p = Some m \<and> itype m = itype n))"
  have J: "fs_ok t" "root_inode t = root_inode s" "\<exists>fl'. files t f = Some fl' \<and> f_inode fl' = ?p" "\<exists>m. inodes t ?p = Some m \<and> itype m = itype n"
    if "J t" for t using that by (auto simp: J_def)
  have fin: "wlp (ret r) (kept s) tame t" if "J t" for t and r :: "int \<times> fsqid" using J [OF that] by (simp add: wlp_ret)
  have set: "wlp (upd_file f g) (\<lambda>_. J) tame t" if t: "J t" and g: "\<And>fl. f_inode (g fl) = f_inode fl" "\<And>fl. f_req (g fl) = f_req fl" for t g
  proof -
    obtain fl' where fl': "files t f = Some fl'" "f_inode fl' = ?p" using J(3) [OF t] by blast
    show ?thesis by (rule wlp_mono [OF upd_file_step [OF J(1,2) [OF t] fl'(1), of g]]) (use g fl'(2) J(4) [OF t] in \<open>auto simp: J_def\<close>)
  qed
  have opened: "wlp (andthen (upd_file f (\<lambda>fl. fl\<lparr>is_opened := True\<rparr>)) (bnd (inode_of ?p) (\<lambda>n. ret (0 :: int, inode_to_qid n)))) (kept s) tame t"
    if t: "J t" for t
  proof (rule wlp_then [OF set [OF t]])
    fix u :: "'k fsdevicemem" assume u: "J u"
    obtain m where "inodes u ?p = Some m" using J(4) [OF u] by blast
    then show "wlp (bnd (inode_of ?p) (\<lambda>n. ret (0 :: int, inode_to_qid n))) (kept s) tame u"
      by (rule inode_seq [OF J(1) [OF u]]) (rule fin [OF u])
  qed simp_all
  have trunc: "wlp (if c then andthen (fs_truncate ?p 0) (ret ()) else ret ()) (\<lambda>_. J) tame t" if t: "J t" for c t
  proof -
    obtain m where m: "inodes t ?p = Some m" "itype m = itype n" using J(4) [OF t] by blast
    have "wlp (fs_truncate ?p 0) (\<lambda>_. J) tame t"
    proof (rule wlp_mono [OF truncate_rule [OF J(1) [OF t] m(1)]])
      fix e u assume "\<exists>m'. only_at t ?p m' u \<and> truncated m 0 e m'"
      then obtain m' where m': "only_at t ?p m' u" "truncated m 0 e m'" by blast
      show "J u" using only_ok [OF J(1) [OF t] m(1) m'(1)] truncated_keeps [OF m'(2)] J(2,3) [OF t] m(2) by (auto simp: J_def)
    qed simp_all
    then have "wlp (andthen (fs_truncate ?p 0) (ret ())) (\<lambda>_. J) tame t" by (rule wlp_then) (simp add: wlp_ret)
    then show ?thesis using t by (simp add: wlp_ret)
  qed
  have close: "wlp (fs_close_mem f) (\<lambda>_. J) tame s"
    by (rule wp_close [OF inv f]) (auto simp: J_def n)
  have reg: "wlp (bnd (inode_of ?p) (\<lambda>n. case rstate (reg n) of REG_STATE_LOCAL \<Rightarrow> k1 | REG_STATE_UNLOADED \<Rightarrow> k2 n | REG_STATE_LOADING \<Rightarrow> k3
        | REG_STATE_LOADED \<Rightarrow> k4)) (kept s) tame t" if t: "J t" "itype n = FT_REG" "wlp k1 (kept s) tame t" for k1 k2 k3 t and k4 :: "('k, int \<times> fsqid) fs_vm"
  proof -
    obtain m where m: "inodes t ?p = Some m" "itype m = FT_REG" using J(4) [OF t(1)] t(2) by auto
    then have "rstate (reg m) = REG_STATE_LOCAL" using inv_node(2) [OF J(1) [OF t(1)] m(1)] by (simp add: node_ok_def)
    then show ?thesis using t(3) by (intro inode_seq [OF J(1) [OF t(1)] m(1)]) simp
  qed
  show ?thesis unfolding fs_open_mem_def Let_def
    apply (rule file_seq [OF inv f], rule wlp_then [OF close])
    apply (frule J(4), elim exE conjE, rule inode_seq, erule J(1), assumption)
    apply (intro wlp_ifI)
    apply (erule fin)+
    apply (rule wlp_then, erule set, simp, simp)
    apply (rule wlp_ifI)
    apply (rule wlp_then, erule trunc)
    apply (rule reg, assumption, simp, erule opened)
    apply (erule opened)
    done
qed

end
