(* ===== verification/Fs_Transfer.thy ===== *)
theory Fs_Transfer
  imports Fs_Content
begin

text \<open>
  Storing a decrypted transfer (\<open>fs_open_write_cb\<close> in \<open>src/src/fs_net.c\<close>): the callback satisfies what the
  decryption of \<open>src/src/fs_wget.c\<close> relies on, so that a file that arrives encrypted in chunks is stored as its
  plaintext, however it was cut.
\<close>

section \<open>The callback as a stream\<close>

text \<open>How much of \<open>d\<close> still fits the file, and the state after storing it.\<close>

definition room :: "fsinode \<Rightarrow> fsopeninfo \<Rightarrow> bytes \<Rightarrow> nat" where
  "room n oi d = min (length d) (unat (rsize (reg n)) - unat (cur_pos oi))"

definition put_data :: "fsinode \<Rightarrow> nat \<Rightarrow> bytes \<Rightarrow> fsinode" where
  "put_data n pos d = n\<lparr>reg := (reg n)\<lparr>fbuf := (fbuf (reg n))\<lparr>fb_data := blit (fb_data (fbuf (reg n))) pos d\<rparr>\<rparr>\<rparr>"

definition store_data :: "ptr \<Rightarrow> bytes \<Rightarrow> 'k fsdevicemem \<Rightarrow> 'k fsdevicemem" where
  "store_data p d s = (case open_infos s p of None \<Rightarrow> s | Some oi \<Rightarrow> (case inodes s (oi_n oi) of None \<Rightarrow> s | Some n \<Rightarrow>
     let k = room n oi d in
     s\<lparr>inodes := (inodes s)(oi_n oi \<mapsto> put_data n (unat (cur_pos oi)) (take k d)),
       open_infos := (open_infos s)(p \<mapsto> oi\<lparr>cur_pos := cur_pos oi + of_nat k\<rparr>)\<rparr>))"

text \<open>A transfer whose buffer has been allocated for the whole file.\<close>

definition receiving :: "ptr \<Rightarrow> 'k fsdevicemem \<Rightarrow> bool" where
  "receiving p s \<longleftrightarrow> p \<noteq> 0 \<and> (\<exists>oi n. open_infos s p = Some oi \<and> oi_n oi \<noteq> 0 \<and> inodes s (oi_n oi) = Some n
     \<and> unat (rsize (reg n)) \<le> length (fb_data (fbuf (reg n))) \<and> cur_pos oi \<le> rsize (reg n))"

lemma receivingE:
  assumes "receiving p s"
  obtains oi n where "open_infos s p = Some oi" "oi_n oi \<noteq> 0" "inodes s (oi_n oi) = Some n" "p \<noteq> 0"
    "unat (rsize (reg n)) \<le> length (fb_data (fbuf (reg n)))" "unat (cur_pos oi) \<le> unat (rsize (reg n))"
  using assms by (auto simp: receiving_def word_le_nat_alt)

lemma put_data_fields [simp]:
  "rsize (reg (put_data n pos d)) = rsize (reg n)" "fb_data (fbuf (reg (put_data n pos d))) = blit (fb_data (fbuf (reg n))) pos d"
  by (simp_all add: put_data_def)

lemma cur_pos_add:
  assumes "unat (cur_pos oi) \<le> unat (rsize (reg n))" "k \<le> unat (rsize (reg n)) - unat (cur_pos oi)"
  shows "unat (cur_pos oi + of_nat k) = unat (cur_pos oi) + k"
proof -
  have "unat (rsize (reg n)) < 2 ^ 64" using unsigned_less [of "rsize (reg n)"] by simp
  then have "k < 2 ^ 64" "unat (cur_pos oi) + k < 2 ^ 64" using assms by linarith+
  moreover from this have "unat (of_nat k :: u64) = k" by (simp add: unat_of_nat take_bit_nat_eq_self)
  ultimately show ?thesis using unat_add_lem [of "cur_pos oi" "of_nat k"] by simp
qed

lemma store_run:
  assumes s: "receiving p s" and d: "length d < 2 ^ 64"
  shows "fs_open_write_cb p d s = Some (Inr (0, store_data p d s))"
proof -
  obtain oi n where o: "open_infos s p = Some oi" "oi_n oi \<noteq> 0" "inodes s (oi_n oi) = Some n" "p \<noteq> 0"
    "unat (rsize (reg n)) \<le> length (fb_data (fbuf (reg n)))" "unat (cur_pos oi) \<le> unat (rsize (reg n))" by (rule receivingE [OF s])
  have sub: "unat (rsize (reg n) - cur_pos oi) = unat (rsize (reg n)) - unat (cur_pos oi)"
    using o(6) by (simp add: unat_sub word_le_nat_alt)
  have dl: "unat (of_nat (length d) :: u64) = length d" using d by (simp add: unat_of_nat take_bit_nat_eq_self)
  define len :: u64 where "len = (if of_nat (length d) < rsize (reg n) - cur_pos oi then of_nat (length d) else rsize (reg n) - cur_pos oi)"
  have k: "unat len = room n oi d" using sub dl by (auto simp: len_def room_def word_less_nat_alt)
  have "len = of_nat (unat len)" by simp
  then have len: "of_nat (room n oi d) = len" unfolding k ..
  have "room n oi d \<le> length d" "unat (cur_pos oi) + room n oi d \<le> length (fb_data (fbuf (reg n)))" using o(5,6) by (auto simp: room_def)
  then have "poke (fb_data (fbuf (reg n))) (uint (cur_pos oi)) (take (room n oi d) d)
      = Inr (blit (fb_data (fbuf (reg n))) (unat (cur_pos oi)) (take (room n oi d) d))"
    using poke_nat [of "unat (cur_pos oi)" "take (room n oi d) d" "fb_data (fbuf (reg n))"] by simp
  note pk = this
  have "fs_open_write_cb p d s = (andthen (file_buffer_write (oi_n oi) (cur_pos oi) (take (room n oi d) d))
     (andthen (upd_open_info p (\<lambda>x. x\<lparr>cur_pos := cur_pos x + of_nat (room n oi d)\<rparr>)) (ret 0))) s"
    unfolding fs_open_write_cb_def Let_def len k [symmetric] by (simp add: bnd_run load_def o len_def)
  then show ?thesis
    using o pk by (simp add: file_buffer_write_def upd_open_info_def upd_reg_def upd_inode_def load_def bnd_run andthen_run store_data_def Let_def put_data_def)
qed

lemma store_info:
  assumes "receiving p s" "open_infos s p = Some oi" "inodes s (oi_n oi) = Some n"
  shows "open_infos (store_data p d s) p = Some (oi\<lparr>cur_pos := cur_pos oi + of_nat (room n oi d)\<rparr>)"
    "inodes (store_data p d s) (oi_n oi) = Some (put_data n (unat (cur_pos oi)) (take (room n oi d) d))"
  using assms by (simp_all add: store_data_def Let_def)

lemma room_pos:
  assumes "unat (cur_pos oi) \<le> unat (rsize (reg n))"
  shows "unat (cur_pos oi + of_nat (room n oi d)) = unat (cur_pos oi) + room n oi d" "unat (cur_pos oi) + room n oi d \<le> unat (rsize (reg n))"
  using cur_pos_add [OF assms, of "room n oi d"] assms by (auto simp: room_def)

lemma store_receiving:
  assumes "receiving p s"
  shows "receiving p (store_data p d s)"
proof -
  obtain oi n where o: "open_infos s p = Some oi" "oi_n oi \<noteq> 0" "inodes s (oi_n oi) = Some n" "p \<noteq> 0"
    "unat (rsize (reg n)) \<le> length (fb_data (fbuf (reg n)))" "unat (cur_pos oi) \<le> unat (rsize (reg n))" by (rule receivingE [OF assms])
  have "room n oi d \<le> length d" by (simp add: room_def)
  then show ?thesis unfolding receiving_def using o store_info [OF assms o(1,3), of d] room_pos [OF o(6), of d]
    by (simp add: word_le_nat_alt)
qed

lemma store_data_append:
  assumes "receiving p s"
  shows "store_data p (a @ b) s = store_data p b (store_data p a s)"
proof -
  obtain oi n where o: "open_infos s p = Some oi" "oi_n oi \<noteq> 0" "inodes s (oi_n oi) = Some n" "p \<noteq> 0"
    "unat (rsize (reg n)) \<le> length (fb_data (fbuf (reg n)))" "unat (cur_pos oi) \<le> unat (rsize (reg n))" by (rule receivingE [OF assms])
  let ?oi = "oi\<lparr>cur_pos := cur_pos oi + of_nat (room n oi a)\<rparr>" and ?n = "put_data n (unat (cur_pos oi)) (take (room n oi a) a)"
  let ?k = "room n oi a" and ?l = "room ?n ?oi b"
  have k: "unat (cur_pos ?oi) = unat (cur_pos oi) + ?k" "unat (cur_pos oi) + ?k \<le> unat (rsize (reg n))" using room_pos [OF o(6)] by simp_all
  have l: "?l = min (length b) (unat (rsize (reg n)) - (unat (cur_pos oi) + ?k))" unfolding room_def [of ?n] k(1) by simp
  have sum: "room n oi (a @ b) = ?k + ?l" unfolding l using o(6) by (auto simp: room_def min_def)
  have tk: "take (room n oi (a @ b)) (a @ b) = take ?k a @ take ?l b"
    using k(2) unfolding sum l by (auto simp: room_def min_def)
  have kl: "?k \<le> length a" "?l \<le> length b" "?l \<le> unat (rsize (reg n)) - (unat (cur_pos oi) + ?k)" using k by (auto simp: room_def)
  have bl: "blit (blit (fb_data (fbuf (reg n))) (unat (cur_pos oi)) (take ?k a)) (unat (cur_pos oi) + ?k) (take ?l b)
      = blit (fb_data (fbuf (reg n))) (unat (cur_pos oi)) (take ?k a @ take ?l b)"
    using blit_blit_append [of "unat (cur_pos oi)" "take ?k a" "take ?l b" "fb_data (fbuf (reg n))"] kl k(2) o(5) by simp
  have pd: "put_data ?n (unat (cur_pos ?oi)) (take ?l b) = put_data n (unat (cur_pos oi)) (take (room n oi (a @ b)) (a @ b))"
    unfolding k(1) tk using bl by (simp add: put_data_def)
  have "store_data p b (store_data p a s) = s\<lparr>inodes := (inodes s)(oi_n oi \<mapsto> put_data ?n (unat (cur_pos ?oi)) (take ?l b)),
      open_infos := (open_infos s)(p \<mapsto> ?oi\<lparr>cur_pos := cur_pos ?oi + of_nat ?l\<rparr>)\<rparr>"
    using o by (simp add: store_data_def Let_def)
  also have "\<dots> = store_data p (a @ b) s" unfolding pd using o by (simp add: store_data_def Let_def sum add.assoc)
  finally show ?thesis ..
qed

lemma store_Nil: "receiving p s \<Longrightarrow> store_data p [] s = s"
  by (erule receivingE) (simp add: store_data_def Let_def room_def put_data_def blit_def fun_upd_idem)

interpretation store: write_sink "fs_open_write_cb p" "store_data p" "receiving p" for p
  by unfold_locales (simp_all add: store_run store_receiving store_data_append store_Nil)

section \<open>A whole transfer\<close>

text \<open>The calls of \<open>fs_open_cb\<close> for a file that arrives as \<open>ds\<close> and then \<open>d\<close>.\<close>

fun fs_deliver :: "'k net_lib \<Rightarrow> ptr \<Rightarrow> bytes list \<Rightarrow> bytes \<Rightarrow> ('k, unit) fs_vm" where
  "fs_deliver lib p [] d = fs_open_cb lib p 0 d"
| "fs_deliver lib p (c # ds) d = andthen (fs_open_cb lib p 1 c) (fs_deliver lib p ds d)"

definition set_dec :: "ptr \<Rightarrow> (decrypt_file_state \<times> ptr) option \<Rightarrow> 'k fsdevicemem \<Rightarrow> 'k fsdevicemem" where
  "set_dec p x s = (case open_infos s p of None \<Rightarrow> s | Some oi \<Rightarrow> s\<lparr>open_infos := (open_infos s)(p \<mapsto> oi\<lparr>oi_dec := x\<rparr>)\<rparr>)"

lemma set_dec_set [simp]: "set_dec p y (set_dec p x s) = set_dec p y s"
  by (simp add: set_dec_def split: option.splits)

lemma info_update_swap: "oi\<lparr>cur_pos := a, oi_dec := x\<rparr> = oi\<lparr>oi_dec := x, cur_pos := a\<rparr>"
  by simp

lemma set_dec_store: "set_dec p x (store_data p d s) = store_data p d (set_dec p x s)"
  by (simp add: set_dec_def store_data_def Let_def room_def info_update_swap split: option.splits)

lemma receiving_set_dec [simp]: "receiving p (set_dec p x s) = receiving p s"
  by (auto simp: set_dec_def receiving_def split: option.splits)

lemma base_urls_kept [simp]: "base_urls (set_dec p x s) = base_urls s" "base_urls (store_data p d s) = base_urls s"
  by (simp_all add: set_dec_def store_data_def Let_def split: option.splits)

lemma set_dec_info: "receiving p s \<Longrightarrow> \<exists>oi. open_infos (set_dec p x s) p = Some oi \<and> oi_dec oi = x"
  by (auto simp: receiving_def set_dec_def)

lemma run_decrypt_run:
  assumes s: "receiving p s" "receiving p s'" and b: "bu \<noteq> 0" "base_urls s bu = Some b" "bu_aes_state b = Some key"
    and m: "m key (d, set_dec p (Some (d, bu)) s) = Some (Inr (r, (d', s')))"
  shows "run_decrypt p m (set_dec p (Some (d, bu)) s) = Some (Inr (r, set_dec p (Some (d', bu)) s'))"
proof -
  obtain oi where oi: "open_infos (set_dec p (Some (d, bu)) s) p = Some oi" "oi_dec oi = Some (d, bu)" using set_dec_info [OF s(1)] by blast
  obtain oi' where oi': "open_infos s' p = Some oi'" "p \<noteq> 0" using s(2) by (auto simp: receiving_def)
  show ?thesis using oi oi' b m
    by (simp add: run_decrypt_def bnd_run load_def upd_open_info_def andthen_run set_dec_def [of p "Some (d', bu)"])
qed

lemma open_cb_unfold:
  assumes "receiving p s" "0 \<le> err"
  shows "\<exists>oi. fs_open_cb lib p err data (set_dec p (Some x) s) = bnd (bnd (run_decrypt p (\<lambda>key. decrypt_file (nl_aes lib) key (fs_open_write_cb p) data)) (\<lambda>r.
        if r < 0 then ret r
        else if err = 0 then run_decrypt p (\<lambda>key. decrypt_file_flush (nl_aes lib) key (fs_open_write_cb p)) else ret r))
      (\<lambda>r. if r < 0 then fs_open_error p oi else if err = 0 then fs_open_done p else ret ())
      (set_dec p (Some x) s)"
proof -
  obtain oi where "open_infos (set_dec p (Some x) s) p = Some oi" "oi_dec oi = Some x" using set_dec_info [OF assms(1)] by blast
  moreover have "p \<noteq> 0" using assms(1) by (simp add: receiving_def)
  ultimately show ?thesis using assms(2) by (intro exI [of _ oi]) (simp add: fs_open_cb_def bnd_run load_def)
qed

lemma header_bad_ref: "header_bad lib f \<Longrightarrow> decrypt_ref lib key (f @ x) = None"
  by (auto simp: header_bad_def decrypt_ref_def Let_def)

lemma cb_chunk:
  assumes s: "receiving p s" and b: "bu \<noteq> 0" "base_urls s bu = Some b" "bu_aes_state b = Some key"
    and aes: "length (encrypted_file_magic (nl_aes lib)) = 4" "cbc_law (nl_aes lib) key"
    and rep: "dec_rep (nl_aes lib) key f out d" and c: "length c < 2147483648" "\<not> header_bad (nl_aes lib) (f @ c)"
  obtains d' out' where "dec_rep (nl_aes lib) key (f @ c) out' d'"
    "run_decrypt p (\<lambda>key. decrypt_file (nl_aes lib) key (fs_open_write_cb p) c) (set_dec p (Some (d, bu)) (store_data p out s))
       = Some (Inr (0, set_dec p (Some (d', bu)) (store_data p out' s)))"
proof -
  have r: "receiving p (set_dec p (Some (d, bu)) s)" using s by simp
  from store.decrypt_file_run [OF aes r rep c(1)] c(2) obtain d' out'
    where m: "decrypt_file (nl_aes lib) key (fs_open_write_cb p) c (d, store_data p out (set_dec p (Some (d, bu)) s))
        = Some (Inr (0, (d', store_data p out' (set_dec p (Some (d, bu)) s))))" "dec_rep (nl_aes lib) key (f @ c) out' d'" by auto
  have "run_decrypt p (\<lambda>key. decrypt_file (nl_aes lib) key (fs_open_write_cb p) c) (set_dec p (Some (d, bu)) (store_data p out s))
       = Some (Inr (0, set_dec p (Some (d', bu)) (store_data p out' (set_dec p (Some (d, bu)) s))))"
    by (rule run_decrypt_run [OF _ _ b(1) _ b(3)]) (use s b m(1) in \<open>simp_all add: store_receiving set_dec_store\<close>)
  then show thesis using that m(2) by (simp add: set_dec_store)
qed


lemma cb_last:
  assumes s: "receiving p s" and b: "bu \<noteq> 0" "base_urls s bu = Some b" "bu_aes_state b = Some key"
    and aes: "length (encrypted_file_magic (nl_aes lib)) = 4" "cbc_law (nl_aes lib) key"
    and rep: "dec_rep (nl_aes lib) key f out d" and c: "length c < 2147483648" and ref: "decrypt_ref (nl_aes lib) key (f @ c) = Some pt"
  shows "\<exists>x. fs_open_cb lib p 0 c (set_dec p (Some (d, bu)) (store_data p out s)) = fs_open_done p (set_dec p x (store_data p pt s))"
proof -
  have nb: "\<not> header_bad (nl_aes lib) (f @ c)" using header_bad_ref [of _ "f @ c" key "[]"] ref by auto
  obtain d' out' where d': "dec_rep (nl_aes lib) key (f @ c) out' d'"
    "run_decrypt p (\<lambda>key. decrypt_file (nl_aes lib) key (fs_open_write_cb p) c) (set_dec p (Some (d, bu)) (store_data p out s))
       = Some (Inr (0, set_dec p (Some (d', bu)) (store_data p out' s)))" by (rule cb_chunk [OF s b aes rep c nb])
  have r: "receiving p (set_dec p (Some (d', bu)) s)" using s by simp
  from store.flush_run [OF aes(2) r d'(1)] ref obtain d2
    where m: "decrypt_file_flush (nl_aes lib) key (fs_open_write_cb p) (d', store_data p out' (set_dec p (Some (d', bu)) s))
        = Some (Inr (0, (d2, store_data p pt (set_dec p (Some (d', bu)) s))))" by auto
  have fl: "run_decrypt p (\<lambda>key. decrypt_file_flush (nl_aes lib) key (fs_open_write_cb p)) (set_dec p (Some (d', bu)) (store_data p out' s))
       = Some (Inr (0, set_dec p (Some (d2, bu)) (store_data p pt (set_dec p (Some (d', bu)) s))))"
    by (rule run_decrypt_run [OF _ _ b(1) _ b(3)]) (use s b m in \<open>simp_all add: store_receiving set_dec_store\<close>)
  obtain oi where "fs_open_cb lib p 0 c (set_dec p (Some (d, bu)) (store_data p out s)) = bnd (bnd (run_decrypt p (\<lambda>key. decrypt_file (nl_aes lib) key (fs_open_write_cb p) c)) (\<lambda>r.
        if r < 0 then ret r
        else if (0 :: int) = 0 then run_decrypt p (\<lambda>key. decrypt_file_flush (nl_aes lib) key (fs_open_write_cb p)) else ret r))
      (\<lambda>r. if r < 0 then fs_open_error p oi else if (0 :: int) = 0 then fs_open_done p else ret ())
      (set_dec p (Some (d, bu)) (store_data p out s))"
    using open_cb_unfold [OF store_receiving [OF s], of 0 lib c "(d, bu)" out] by auto
  also have "\<dots> = fs_open_done p (set_dec p (Some (d2, bu)) (store_data p pt s))"
    using d'(2) fl by (simp add: bnd_run set_dec_store)
  finally show ?thesis by blast
qed

lemma deliver_from:
  assumes s: "receiving p s" and b: "bu \<noteq> 0" "base_urls s bu = Some b" "bu_aes_state b = Some key"
    and aes: "length (encrypted_file_magic (nl_aes lib)) = 4" "cbc_law (nl_aes lib) key"
    and rep: "dec_rep (nl_aes lib) key f out d" and c: "\<forall>c \<in> set ds. length c < 2147483648" "length e < 2147483648"
    and ref: "decrypt_ref (nl_aes lib) key (f @ concat ds @ e) = Some pt"
  shows "\<exists>x. fs_deliver lib p ds e (set_dec p (Some (d, bu)) (store_data p out s)) = fs_open_done p (set_dec p x (store_data p pt s))"
  using rep c(1) ref
proof (induction ds arbitrary: f out d)
  case Nil
  then show ?case using cb_last [OF s b aes _ c(2)] by simp
next
  case (Cons c ds)
  have nb: "\<not> header_bad (nl_aes lib) (f @ c)" using header_bad_ref [of _ "f @ c" key "concat ds @ e"] Cons.prems(3) by auto
  obtain d' out' where d': "dec_rep (nl_aes lib) key (f @ c) out' d'"
    "run_decrypt p (\<lambda>key. decrypt_file (nl_aes lib) key (fs_open_write_cb p) c) (set_dec p (Some (d, bu)) (store_data p out s))
       = Some (Inr (0, set_dec p (Some (d', bu)) (store_data p out' s)))"
    by (rule cb_chunk [OF s b aes Cons.prems(1) _ nb]) (use Cons.prems(2) in auto)
  have "fs_open_cb lib p 1 c (set_dec p (Some (d, bu)) (store_data p out s)) = Some (Inr ((), set_dec p (Some (d', bu)) (store_data p out' s)))"
    using open_cb_unfold [OF store_receiving [OF s], of 1 lib c "(d, bu)" out] d'(2) by (auto simp: bnd_run)
  then show ?case using Cons.IH [OF d'(1)] Cons.prems(2,3) by (simp add: andthen_run)
qed


text \<open>The end of a transfer that filled the file: the inode joins the cache, and the handle that waited is told.\<close>

definition told :: "fsopeninfo \<Rightarrow> fsinode \<Rightarrow> (nat \<times> fsqid option \<times> int) list" where
  "told oi n = (case oi_cb oi of None \<Rightarrow> [] | Some opaque \<Rightarrow> [(opaque, Some (inode_to_qid n), 0)])"

lemma done_run:
  assumes "open_infos s p = Some oi" "p \<noteq> 0" "oi_n oi \<noteq> 0" "inodes s (oi_n oi) = Some n" "cur_pos oi = rsize (reg n)"
    and "oi_type oi = FS_OPEN_WGET_REG" "rstate (reg n) = REG_STATE_LOADING" "ropen_info (reg n) = p"
    and "oi_cb oi \<noteq> None \<Longrightarrow> oi_f oi \<noteq> 0 \<and> files s (oi_f oi) \<noteq> None"
  shows "\<exists>t. fs_open_done p s = Some (Inr ((), t)) \<and> inodes t (oi_n oi) = Some (n\<lparr>reg := (reg n)\<lparr>rstate := REG_STATE_LOADED\<rparr>\<rparr>)
    \<and> open_infos t p = None \<and> inode_cache_list t = oi_n oi # inode_cache_list s \<and> completions t = completions s @ told oi n"
  using assms
  by (cases "oi_cb oi") (auto simp: fs_open_done_def fs_wget_set_loaded_def fs_open_end_def upd_reg_def upd_inode_def upd_file_def add_cache_size_def
    load_def guard_def bnd_run andthen_run told_def inode_to_qid_def)


section \<open>Loading an encrypted file\<close>

text \<open>The inode \<open>q\<close> is being loaded by \<open>p\<close> from a base URL with the key \<open>key\<close>, and nothing has arrived yet.\<close>

definition loading :: "ptr \<Rightarrow> ptr \<Rightarrow> 'k \<Rightarrow> 'k fsdevicemem \<Rightarrow> bool" where
  "loading p q key s \<longleftrightarrow> p \<noteq> 0 \<and> q \<noteq> 0 \<and> (\<exists>oi n bu b. open_infos s p = Some oi \<and> oi_n oi = q \<and> inodes s q = Some n
     \<and> oi_type oi = FS_OPEN_WGET_REG \<and> cur_pos oi = 0 \<and> oi_dec oi = Some (decrypt_file_init, bu)
     \<and> (oi_cb oi \<noteq> None \<longrightarrow> oi_f oi \<noteq> 0 \<and> files s (oi_f oi) \<noteq> None)
     \<and> rstate (reg n) = REG_STATE_LOADING \<and> ropen_info (reg n) = p \<and> unat (rsize (reg n)) \<le> length (fb_data (fbuf (reg n)))
     \<and> bu \<noteq> 0 \<and> base_urls s bu = Some b \<and> bu_aes_state b = Some key)"

lemma deliver_loads:
  assumes s: "loading p q key s" and n: "inodes s q = Some n" "open_infos s p = Some oi"
    and aes: "length (encrypted_file_magic (nl_aes lib)) = 4" "cbc_law (nl_aes lib) key"
    and c: "\<forall>c \<in> set ds. length c < 2147483648" "length e < 2147483648"
    and ref: "decrypt_ref (nl_aes lib) key (concat ds @ e) = Some pt" "length pt = unat (rsize (reg n))"
  shows "\<exists>t n'. fs_deliver lib p ds e s = Some (Inr ((), t)) \<and> inodes t q = Some n' \<and> rstate (reg n') = REG_STATE_LOADED
    \<and> content n' = pt \<and> open_infos t p = None \<and> completions t = completions s @ told oi n"
proof -
  obtain bu b where o: "p \<noteq> 0" "q \<noteq> 0" "oi_n oi = q" "oi_type oi = FS_OPEN_WGET_REG" "cur_pos oi = 0" "oi_dec oi = Some (decrypt_file_init, bu)"
    "oi_cb oi \<noteq> None \<longrightarrow> oi_f oi \<noteq> 0 \<and> files s (oi_f oi) \<noteq> None" "rstate (reg n) = REG_STATE_LOADING" "ropen_info (reg n) = p"
    "unat (rsize (reg n)) \<le> length (fb_data (fbuf (reg n)))" "bu \<noteq> 0" "base_urls s bu = Some b" "bu_aes_state b = Some key"
    using s n unfolding loading_def by auto
  have rc: "receiving p s" unfolding receiving_def using o n by auto
  have id: "set_dec p (Some (decrypt_file_init, bu)) (store_data p [] s) = s"
    unfolding store_Nil [OF rc] using o(6) n by (simp add: set_dec_def fun_upd_idem)
  obtain x where x: "fs_deliver lib p ds e s = fs_open_done p (set_dec p x (store_data p pt s))"
    using deliver_from [OF rc o(11-13) aes init_rep c, of pt] ref(1) unfolding id by auto
  let ?u = "set_dec p x (store_data p pt s)" and ?n = "put_data n 0 pt"
  have room: "room n oi pt = length pt" using ref(2) o(5) by (simp add: room_def)
  let ?oi = "oi\<lparr>cur_pos := of_nat (length pt), oi_dec := x\<rparr>"
  have u: "open_infos ?u p = Some ?oi" "inodes ?u q = Some ?n" "files ?u = files s" "completions ?u = completions s"
    using n o(3,5) room by (simp_all add: set_dec_def store_data_def Let_def)
  have "of_nat (length pt) = rsize (reg n)" unfolding ref(2) by simp
  then obtain t where t: "fs_open_done p ?u = Some (Inr ((), t))" "inodes t q = Some (?n\<lparr>reg := (reg ?n)\<lparr>rstate := REG_STATE_LOADED\<rparr>\<rparr>)"
    "open_infos t p = None" "completions t = completions s @ told ?oi ?n"
    using done_run [OF u(1) o(1), of ?n] u o by (auto simp: put_data_def)
  have "content (?n\<lparr>reg := (reg ?n)\<lparr>rstate := REG_STATE_LOADED\<rparr>\<rparr>) = pt"
    using ref(2) o(10) by (simp add: content_def blit_def)
  moreover have "told ?oi ?n = told oi n" by (simp add: told_def inode_to_qid_def put_data_def split: option.splits)
  ultimately show ?thesis using x t by auto
qed

text \<open>\<open>fs_open_wget\<close> starts such a transfer.\<close>

lemma trim_keeps:
  assumes "rstate (reg n) = REG_STATE_UNLOADED"
  shows "keeps (\<lambda>s. inodes s q = Some n \<and> base_urls s = B \<and> next_ptr s \<noteq> 0) (fs_trim_cache k)" (is "keeps ?I _")
proof -
  have fits: "keeps ?I (cache_fits k)" unfolding cache_fits_def
    by (auto simp: keeps_def wlp_simps)
  have list: "keeps ?I (trim_cache_list k els)" for els
  proof (induction els)
    case Nil
    show ?case unfolding trim_cache_list.simps by (rule keeps_ret)
  next
    case (Cons el els)
    show ?case
      unfolding trim_cache_list.simps file_buffer_reset_def upd_reg_def upd_inode_def cache_unlink_def add_cache_size_def
      using assms Cons.IH by (auto simp: keeps_def wlp_simps wlp_load split: option.splits intro!: wlp_keeps [OF fits])
  qed
  show ?thesis unfolding fs_trim_cache_def by (intro keeps_bnd keeps_if fits list keeps_ret keeps_gets)
qed


lemma inode_loaded: "inodes s p = Some n \<Longrightarrow> p \<noteq> 0 \<Longrightarrow> wlp (k n) Q F s \<Longrightarrow> wlp (bnd (inode_of p) k) Q F s"
  unfolding wlp_bnd by (rule wp_load)

lemma open_wget_loading:
  assumes n: "inodes s q = Some n" "rstate (reg n) = REG_STATE_UNLOADED" "q \<noteq> 0" "next_ptr s \<noteq> 0"
    and b: "rbase_url (reg n) \<noteq> 0" "base_urls s (rbase_url (reg n)) = Some b" "bu_encrypted b" "bu_aes_state b = Some key"
    and r: "fs_open_wget lib q FS_OPEN_WGET_REG s = Some (Inr (0, t))"
  shows "\<exists>n'. inodes t q = Some n' \<and> rsize (reg n') = rsize (reg n) \<and> loading (ropen_info (reg n')) q key t"
proof -
  have "wlp (fs_open_wget lib q FS_OPEN_WGET_REG)
    (\<lambda>r t. r = 0 \<longrightarrow> (\<exists>n'. inodes t q = Some n' \<and> rsize (reg n') = rsize (reg n) \<and> loading (ropen_info (reg n')) q key t)) (\<lambda>_. True) s"
    unfolding fs_open_wget_def
  proof (rule inode_loaded [OF n(1,3)], unfold wlp_andthen wlp_guard if_P [OF n(2)],
      rule wlp_keeps [OF trim_keeps [OF n(2), where q = q and B = "base_urls s"]], use n in simp, elim conjE)
  qed (use n b in \<open>auto simp: file_buffer_resize_def upd_reg_def upd_inode_def upd_open_info_def fresh_def fs_wget_def fs_wget2_def
        wlp_simps wlp_load loading_def empty_open_info_def\<close>)
  from wlp_D(1) [OF this r] show ?thesis by simp
qed

text \<open>
  C11: A file that is opened from an encrypted base URL and arrives in pieces, however it was cut, is loaded as
  the plaintext the one-shot decryption of the whole file gives: when \<open>fs_open_wget\<close> has started the transfer and the
  pieces are handed to \<open>fs_open_cb\<close>, the inode ends loaded with exactly these contents and the transfer's record is freed.
\<close>

theorem encrypted_file_loads:
  assumes "inodes s q = Some n" "rstate (reg n) = REG_STATE_UNLOADED" "q \<noteq> 0" "next_ptr s \<noteq> 0"
    and "rbase_url (reg n) \<noteq> 0" "base_urls s (rbase_url (reg n)) = Some b" "bu_encrypted b" "bu_aes_state b = Some key"
    and "fs_open_wget lib q FS_OPEN_WGET_REG s = Some (Inr (0, t))"
    and "length (encrypted_file_magic (nl_aes lib)) = 4" "cbc_law (nl_aes lib) key"
    and "\<forall>c \<in> set ds. length c < 2147483648" "length e < 2147483648"
    and "decrypt_ref (nl_aes lib) key (concat ds @ e) = Some pt" "length pt = unat (rsize (reg n))"
  shows "\<exists>n1 u n'. inodes t q = Some n1 \<and> fs_deliver lib (ropen_info (reg n1)) ds e t = Some (Inr ((), u)) \<and> inodes u q = Some n'
    \<and> rstate (reg n') = REG_STATE_LOADED \<and> content n' = pt \<and> open_infos u (ropen_info (reg n1)) = None"
proof -
  obtain n1 where n1: "inodes t q = Some n1" "rsize (reg n1) = rsize (reg n)" "loading (ropen_info (reg n1)) q key t"
    using open_wget_loading [OF assms(1-9)] by blast
  obtain oi where "open_infos t (ropen_info (reg n1)) = Some oi" using n1(3) by (auto simp: loading_def)
  from deliver_loads [OF n1(3,1) this assms(10-14)] show ?thesis using n1 assms(15) by auto
qed

text \<open>A sample: a cipher that leaves the data alone, a file of one byte, and its transfer in two pieces.\<close>

definition plain_lib :: "unit net_lib" where
  "plain_lib = \<lparr>nl_aes = \<lparr>aes_cbc = (\<lambda>key iv data. (data, iv)), encrypted_file_magic = [1, 2, 3, 4]\<rparr>,
     compose_path = (\<lambda>a b. a @ b), file_id_to_filename = (\<lambda>_. [])\<rparr>"

definition remote_fs :: "unit fsdevicemem" where
  "remote_fs = (fs_mem_zero \<lparr>host_time = (\<lambda>_. (7, 8)), host_mem = (\<lambda>_ _. True), host_junk = (\<lambda>_ _. 0xaa)\<rparr> 12)\<lparr>
     inodes := [1 \<mapsto> empty_inode\<lparr>itype := FT_REG, refcount := 1, reg := (reg empty_inode)\<lparr>rstate := REG_STATE_UNLOADED, rsize := 1, rbase_url := 2\<rparr>\<rparr>],
     base_urls := [2 \<mapsto> \<lparr>bu_ref_count = 2, base_url_id = [], bu_url = [], bu_user = None, bu_password = None, bu_encrypted = True, bu_aes_state = Some ()\<rparr>],
     next_ptr := 3\<rparr>"

theorem encrypted_file_loads_witness:
  "\<exists>t n1 u n'. fs_open_wget plain_lib 1 FS_OPEN_WGET_REG remote_fs = Some (Inr (0, t)) \<and> inodes t 1 = Some n1
    \<and> fs_deliver plain_lib (ropen_info (reg n1)) [[1, 2, 3]] (4 # replicate 16 0 @ 0x42 # replicate 15 15) t = Some (Inr ((), u))
    \<and> inodes u 1 = Some n' \<and> rstate (reg n') = REG_STATE_LOADED \<and> content n' = [0x42]"
proof -
  have "\<exists>t. fs_open_wget plain_lib 1 FS_OPEN_WGET_REG remote_fs = Some (Inr (0, t))"
    by (simp add: fs_open_wget_def remote_fs_def fs_mem_zero_def empty_inode_def plain_lib_def bnd_def andthen_def load_def guard_def fs_trim_cache_def
      cache_fits_def cint64_def file_buffer_resize_def upd_reg_def upd_inode_def upd_open_info_def fresh_def fs_wget_def fs_wget2_def empty_open_info_def)
  then obtain t where t: "fs_open_wget plain_lib 1 FS_OPEN_WGET_REG remote_fs = Some (Inr (0, t))" by blast
  have n: "inodes remote_fs 1 = Some (empty_inode\<lparr>itype := FT_REG, refcount := 1, reg := (reg empty_inode)\<lparr>rstate := REG_STATE_UNLOADED, rsize := 1, rbase_url := 2\<rparr>\<rparr>)"
    by (simp add: remote_fs_def)
  have cbc: "cbc_law (nl_aes plain_lib) ()" by (simp add: cbc_law_def plain_lib_def)
  have ref: "decrypt_ref (nl_aes plain_lib) () (concat [[1, 2, 3]] @ 4 # replicate 16 0 @ 0x42 # replicate 15 15) = Some [0x42]"
    by (simp add: decrypt_ref_def plain_lib_def Let_def)
  have "\<exists>n1 u n'. inodes t 1 = Some n1
    \<and> fs_deliver plain_lib (ropen_info (reg n1)) [[1, 2, 3]] (4 # replicate 16 0 @ 0x42 # replicate 15 15) t = Some (Inr ((), u)) \<and> inodes u 1 = Some n'
    \<and> rstate (reg n') = REG_STATE_LOADED \<and> content n' = [0x42] \<and> open_infos u (ropen_info (reg n1)) = None"
    by (rule encrypted_file_loads [OF n _ _ _ _ _ _ _ t _ cbc _ _ ref, where b = "\<lparr>bu_ref_count = 2, base_url_id = [], bu_url = [], bu_user = None,
        bu_password = None, bu_encrypted = True, bu_aes_state = Some ()\<rparr>"]) (simp_all add: remote_fs_def plain_lib_def)
  then show ?thesis using t by blast
qed

end
