(* ===== verification/Fs_Reach.thy ===== *)
theory Fs_Reach
  imports Fs_Content
begin

text \<open>
  Every sequence of operations on the local file system of \<open>src/src/fs_net.c\<close>: the states reached from
  \<open>fs_mem_init\<close>, the invariant that holds in all of them, and what it excludes.
\<close>

section \<open>Names and link targets\<close>

text \<open>
  Names and link targets have a length the 9p device can send (its messages give lengths in 16 bits), and a
  symbolic link has a target.
\<close>

definition tidy :: "'k fsdevicemem \<Rightarrow> bool" where
  "tidy s \<longleftrightarrow> (\<forall>d de. dirents s d = Some de \<longrightarrow> length (de_name de) < 65536)
     \<and> (\<forall>p n. inodes s p = Some n \<longrightarrow> itype n = FT_LNK \<longrightarrow> (\<exists>nm. symlink_name n = Some nm \<and> length nm < 65536))"

lemma tidy_other [simp]:
  "tidy (s\<lparr>fs_blocks := b\<rparr>) = tidy s" "tidy (s\<lparr>inode_count := c\<rparr>) = tidy s" "tidy (s\<lparr>host_calls := h\<rparr>) = tidy s"
  "tidy (s\<lparr>inode_cache_list := l\<rparr>) = tidy s" "tidy (s\<lparr>inode_cache_size := k\<rparr>) = tidy s" "tidy (s\<lparr>files := f\<rparr>) = tidy s"
  "tidy (s\<lparr>next_ptr := q\<rparr>) = tidy s" "tidy (s\<lparr>root_inode := q\<rparr>) = tidy s" "tidy (s\<lparr>open_infos := oi\<rparr>) = tidy s"
  "tidy (s\<lparr>completions := co\<rparr>) = tidy s" "tidy (s\<lparr>xhrs := xs\<rparr>) = tidy s" "tidy (s\<lparr>base_urls := bu\<rparr>) = tidy s"
  "tidy (s\<lparr>base_url_list := bl\<rparr>) = tidy s" "tidy (s\<lparr>inode_list := l\<rparr>) = tidy s" "tidy (s\<lparr>requests := rq\<rparr>) = tidy s" "tidy (s\<lparr>cmd_xhrs := cx\<rparr>) = tidy s"
  by (simp_all add: tidy_def)

lemma wlp_and_keeps: "wlp m Q F s \<Longrightarrow> keeps I m \<Longrightarrow> I s \<Longrightarrow> wlp m (\<lambda>a t. Q a t \<and> I t) F s"
  unfolding keeps_def by (drule spec [of _ s]) (auto simp: wlp_def split: option.splits sum.splits)

lemma tidy_upd [keeps_intros]:
  assumes "\<And>n. itype (g n) = itype n" "\<And>n. symlink_name (g n) = symlink_name n"
  shows "keeps tidy (upd_inode p g)"
  using assms unfolding keeps_def upd_inode_def wlp_simps wlp_load tidy_def by (auto split: option.splits)

lemma tidy_mod: "(\<And>s. tidy (h s) = tidy s) \<Longrightarrow> keeps tidy (modify h)"
  by (rule keeps_modify) simp

lemma tidy_reg [keeps_intros]: "keeps tidy (upd_reg p g)"
  unfolding upd_reg_def by (rule tidy_upd) simp_all

lemma tidy_simple [keeps_intros]:
  "keeps tidy (upd_file p g1)" "keeps tidy (upd_open_info p g2)" "keeps tidy (upd_base_url p g3)" "keeps tidy fresh"
  "keeps tidy (add_blocks d)" "keeps tidy (add_inode_count d)" "keeps tidy (add_cache_size w)" "keeps tidy gettimeofday"
  unfolding upd_file_def upd_open_info_def upd_base_url_def fresh_def add_blocks_def add_inode_count_def add_cache_size_def gettimeofday_def
  by (intro keeps_intros tidy_mod; simp)+

lemma tidy_free_inode: "tidy s \<Longrightarrow> tidy (s\<lparr>inode_list := l, inodes := (inodes s)(p := None)\<rparr>)"
  by (simp add: tidy_def)

lemma tidy_drop_dirent: "tidy s \<Longrightarrow> tidy (s\<lparr>dirents := (dirents s)(d := None)\<rparr>)"
  by (simp add: tidy_def)

lemma tidy_buffers [keeps_intros]:
  "keeps tidy (file_buffer_reset p)" "keeps tidy (file_buffer_resize p sz)" "keeps tidy (file_buffer_write p off buf)"
  "keeps tidy (file_buffer_set p off v len)" "keeps tidy (file_buffer_read p off len)"
  unfolding file_buffer_reset_def file_buffer_resize_def file_buffer_write_def file_buffer_set_def file_buffer_read_def
  by (intro keeps_intros tidy_mod; simp)+

lemma tidy_base_url_decref [keeps_intros]: "keeps tidy (fs_base_url_decref p)"
  unfolding fs_base_url_decref_def by (intro keeps_intros tidy_mod; simp)

lemma tidy_open_end [keeps_intros]: "keeps tidy (fs_open_end p)"
  unfolding fs_open_end_def archive_unlink_def by (intro keeps_intros tidy_mod; simp)

lemma tidy_wget_free [keeps_intros]: "keeps tidy (fs_wget_free x)"
  unfolding fs_wget_free_def by (intro keeps_intros tidy_mod; simp)

lemma tidy_wget_set_error [keeps_intros]: "keeps tidy (fs_wget_set_error p)"
  unfolding fs_wget_set_error_def by (intro keeps_intros tidy_mod; simp)

lemma tidy_error_archive_files [keeps_intros]: "keeps tidy (error_archive_files els)"
  by (induction els; unfold error_archive_files.simps; (intro keeps_intros | assumption)+)

lemma keeps_reg_state [keeps_intros]:
  "keeps I m1 \<Longrightarrow> keeps I m2 \<Longrightarrow> keeps I m3 \<Longrightarrow> keeps I m4 \<Longrightarrow>
     keeps I (case r of REG_STATE_LOCAL \<Rightarrow> m1 | REG_STATE_UNLOADED \<Rightarrow> m2 | REG_STATE_LOADING \<Rightarrow> m3 | REG_STATE_LOADED \<Rightarrow> m4)"
  by (cases r) simp_all

lemma tidy_inode_free [keeps_intros]: "keeps tidy (inode_free p)"
  unfolding inode_free_def inode_free_loading_def fs_error_archive_def cache_unlink_def
  by (intro keeps_intros keeps_modify tidy_free_inode; simp)

lemma tidy_counts [keeps_intros]:
  "keeps tidy (inode_incref p)" "keeps tidy (inode_inc_open p)" "keeps tidy (inode_decref p)" "keeps tidy (inode_dec_open p)"
  "keeps tidy (inode_update_mtime p)" "keeps tidy (dir_resize p d)"
  unfolding inode_incref_def inode_inc_open_def inode_decref_def inode_dec_open_def inode_update_mtime_def dir_resize_def
  by (intro keeps_intros; simp)+


text \<open>Searching changes nothing.\<close>

lemma keeps_find_dirent [keeps_intros]: "keeps I (find_dirent P ds)"
  by (induction ds; unfold find_dirent.simps; (intro keeps_intros | assumption)+)

lemma keeps_inode_search [keeps_intros]: "keeps I (inode_search p name)"
  unfolding inode_search_def by (intro keeps_intros)

lemma keeps_search_path [keeps_intros]: "keeps I (inode_search_path path)"
proof -
  have "keeps I (search_path_loop n p)" for n p
    by (induction n p rule: search_path_loop.induct, subst search_path_loop.simps)
      (intro keeps_intros; auto intro!: keeps_intros split: list.splits)
  then show ?thesis unfolding inode_search_path_def inode_search_path1_def by (intro keeps_intros)
qed

lemma keeps_is_empty_dir [keeps_intros]: "keeps I (is_empty_dir p)"
  unfolding is_empty_dir_def by (intro keeps_intros)

lemma keeps_is_unloaded [keeps_intros]: "keeps I (is_unloaded p)"
  unfolding is_unloaded_def by (intro keeps_intros)

text \<open>Loading.\<close>

lemma tidy_cache_unlink [keeps_intros]: "keeps tidy (cache_unlink p sz)"
  unfolding cache_unlink_def by (intro keeps_intros tidy_mod; simp)

lemma tidy_trim_cache [keeps_intros]: "keeps tidy (fs_trim_cache k)"
proof -
  have fits: "keeps tidy (cache_fits k)" unfolding cache_fits_def by (intro keeps_intros)
  have "keeps tidy (trim_cache_list k els)" for els
    by (induction els; unfold trim_cache_list.simps; (intro keeps_intros fits | assumption)+)
  then show ?thesis unfolding fs_trim_cache_def by (intro keeps_intros fits)
qed

lemma tidy_open_wget [keeps_intros]: "keeps tidy (fs_open_wget lib p ty)"
  unfolding fs_open_wget_def fs_wget_def fs_wget2_def by (intro keeps_intros tidy_mod; simp)

lemma tidy_preload_file [keeps_intros]: "keeps tidy (fs_preload_file lib name)"
  unfolding fs_preload_file_def by (intro keeps_intros)

lemma tidy_preload_archive [keeps_intros]: "keeps tidy (fs_preload_archive lib name)"
proof -
  have 1: "keeps tidy (preload_separately lib fs)" for fs
    by (induction fs; unfold preload_separately.simps; (intro keeps_intros | assumption)+)
  have 2: "keeps tidy (archive_survey fs u off)" for fs u off
    by (induction fs arbitrary: u off; unfold archive_survey.simps; (intro keeps_intros | assumption)+)
  have 3: "keeps tidy (archive_join lib n fs off)" for n fs off
    by (induction fs arbitrary: off; unfold archive_join.simps; (intro keeps_intros | assumption)+)
  show ?thesis unfolding fs_preload_archive_def find_preload_archive_def by (intro keeps_intros 1 2 3)
qed

lemma tidy_preload_files [keeps_intros]: "keeps tidy (fs_preload_files lib fid)"
proof -
  have "keeps tidy (preload_each lib fs)" for fs
    by (induction fs; unfold preload_each.simps; (intro keeps_intros | assumption)+)
  then show ?thesis unfolding fs_preload_files_def by (intro keeps_intros)
qed


text \<open>The operations.\<close>

lemma tidy_close [keeps_intros]: "keeps tidy (fs_close_mem f)"
  unfolding fs_close_mem_def fs_cmd_close_def by (intro keeps_intros tidy_mod; simp)

lemma tidy_delete [keeps_intros]: "keeps tidy (fs_delete_mem f)"
  unfolding fs_delete_mem_def by (intro keeps_intros tidy_mod; simp)

lemma tidy_fid_create [keeps_intros]: "keeps tidy (fid_create n uid)"
  unfolding fid_create_def by (intro keeps_intros tidy_mod; simp)

lemma tidy_attach [keeps_intros]: "keeps tidy (fs_attach_mem uid)"
  unfolding fs_attach_mem_def by (intro keeps_intros)

lemma tidy_walk [keeps_intros]: "keeps tidy (fs_walk_mem f names)"
proof -
  have "keeps tidy (walk_names n names q)" for n names q
    by (induction names arbitrary: n q; unfold walk_names.simps; (intro keeps_intros | assumption)+)
  then show ?thesis unfolding fs_walk_mem_def by (intro keeps_intros)
qed

lemma tidy_new_inode: "tidy s \<Longrightarrow> itype n \<noteq> FT_LNK \<Longrightarrow> tidy (s\<lparr>inodes := (inodes s)(p \<mapsto> n), inode_num_alloc := a, inode_list := l\<rparr>)"
  by (simp add: tidy_def)

lemma tidy_inode_new [keeps_intros]: "type \<noteq> FT_LNK \<Longrightarrow> keeps tidy (inode_new type mode uid gid)"
  unfolding inode_new_def by (intro keeps_intros keeps_modify tidy_new_inode; simp)

lemma tidy_dir_add [keeps_intros]: "length name < 65536 \<Longrightarrow> keeps tidy (inode_dir_add p name p1)"
  unfolding inode_dir_add_def by (intro keeps_intros keeps_modify; simp add: tidy_def)

lemma tidy_mkdir [keeps_intros]: "length name < 65536 \<Longrightarrow> keeps tidy (fs_mkdir_mem f name mode gid)"
  unfolding fs_mkdir_mem_def by (intro keeps_intros; simp)

lemma tidy_create [keeps_intros]: "length name < 65536 \<Longrightarrow> keeps tidy (fs_create_mem f name flags mode gid)"
  unfolding fs_create_mem_def by (intro keeps_intros; simp)

lemma tidy_link [keeps_intros]: "length name < 65536 \<Longrightarrow> keeps tidy (fs_link_mem df f name)"
  unfolding fs_link_mem_def by (intro keeps_intros; simp)

lemma tidy_mknod [keeps_intros]: "length name < 65536 \<Longrightarrow> keeps tidy (fs_mknod_mem f name mode major minor gid)"
  unfolding fs_mknod_mem_def by (intro keeps_intros; auto)

lemma tidy_truncate [keeps_intros]: "keeps tidy (fs_truncate p sz)"
  unfolding fs_truncate_def Let_def by (intro keeps_intros)

lemma tidy_open [keeps_intros]: "keeps tidy (fs_open_mem lib f flags opaque)"
  unfolding fs_open_mem_def Let_def by (intro keeps_intros tidy_mod; simp)

lemma tidy_setattr [keeps_intros]: "keeps tidy (fs_setattr_mem f msk mode uid gid sz a b c d)"
  unfolding fs_setattr_mem_def Let_def by (intro keeps_intros; simp)

lemma tidy_delete_no_decref [keeps_intros]: "keeps tidy (inode_dirent_delete_no_decref p d)"
  unfolding inode_dirent_delete_no_decref_def by (intro keeps_intros keeps_modify tidy_drop_dirent; simp)

lemma tidy_dirent_delete [keeps_intros]: "keeps tidy (inode_dirent_delete p d)"
  unfolding inode_dirent_delete_def by (intro keeps_intros)

lemma tidy_renameat [keeps_intros]: "length new_name < 65536 \<Longrightarrow> keeps tidy (fs_renameat_mem f name new_f new_name)"
  unfolding fs_renameat_mem_def Let_def by (intro keeps_intros; simp)

lemma tidy_unlinkat [keeps_intros]: "keeps tidy (fs_unlinkat_mem f name)"
proof -
  have "keeps tidy (flush_entries p ds)" for p ds
    by (induction ds; unfold flush_entries.simps; (intro keeps_intros | assumption)+)
  then show ?thesis unfolding fs_unlinkat_mem_def flush_dir_def by (intro keeps_intros)
qed

text \<open>A new link gets its target before anything else can see it.\<close>

lemma tidy_symlink [keeps_intros]:
  assumes "length name < 65536" "length symgt < 65536"
  shows "keeps tidy (fs_symlink_mem f name symgt gid)"
proof -
  have "keeps tidy (bnd (inode_new FT_LNK mode uid gid) (\<lambda>p. andthen (upd_inode p (\<lambda>i. i\<lparr>symlink_name := Some symgt\<rparr>)) (k p)))"
    if k: "\<And>p. keeps tidy (k p)" for mode uid and k :: "ptr \<Rightarrow> ('k, int \<times> fsqid) fs_vm"
    unfolding inode_new_def fresh_def add_inode_count_def inode_update_mtime_def gettimeofday_def upd_inode_def
    using assms(2) by (intro keepsI) (auto simp: wlp_simps wlp_load tidy_def split: prod.splits intro!: keeps_wlp [OF k])
  note new = this
  show ?thesis unfolding fs_symlink_mem_def using assms(1) by (intro keeps_load keeps_inode_search keeps_bnd keeps_if keeps_ret new; intro keeps_intros)
qed


section \<open>The operations that only read\<close>

lemma lock_ok: "fs_ok s \<Longrightarrow> files s f = Some fl \<Longrightarrow> wlp (fs_lock_mem f lock) (\<lambda>_ t. t = s) F s"
  unfolding fs_lock_mem_def using inv_file(3) [of none_held none_held "{}" s f fl]
  by (auto simp: wlp_ret intro!: file_seq inode_seq)

lemma getlock_ok: "fs_ok s \<Longrightarrow> files s f = Some fl \<Longrightarrow> wlp (fs_getlock_mem f lock) (\<lambda>_ t. t = s) F s"
  unfolding fs_getlock_mem_def using inv_file(3) [of none_held none_held "{}" s f fl]
  by (auto simp: wlp_ret intro!: file_seq inode_seq)

lemma tidy_link_target: "tidy s \<Longrightarrow> inodes s p = Some n \<Longrightarrow> itype n = FT_LNK \<Longrightarrow> \<exists>nm. symlink_name n = Some nm \<and> length nm < 65536"
  by (simp add: tidy_def)

lemma stat_ok:
  assumes inv: "fs_ok s" "tidy s" and f: "files s f = Some fl"
  shows "wlp (fs_stat_mem f) (\<lambda>_ t. t = s) F s"
proof -
  obtain n where n: "inodes s (f_inode fl) = Some n" using inv_file(3) [OF inv(1) f] by auto
  show ?thesis unfolding fs_stat_mem_def
    by (intro file_seq [OF inv(1) f] inode_seq [OF inv(1) n]) (use tidy_link_target [OF inv(2) n] in \<open>auto simp: wlp_simps\<close>)
qed

lemma readlink_ok:
  assumes inv: "fs_ok s" "tidy s" and f: "files s f = Some fl" and b: "0 < buf_size" "buf_size \<le> int (length buf)"
  shows "wlp (fs_readlink_mem f buf buf_size) (\<lambda>_ t. t = s) F s"
proof -
  obtain n where n: "inodes s (f_inode fl) = Some n" using inv_file(3) [OF inv(1) f] by auto
  have "wlp (case symlink_name n of None \<Rightarrow> fault NullDeref
       | Some nm \<Rightarrow> let len = min_int (int_of_size (length nm)) (buf_size - 1) in
           andthen (guard OutOfBounds (0 \<le> len))
           (bnd (lift (poke buf 0 (take (nat len) nm))) (\<lambda>buf. bnd (lift (poke buf len [0])) (\<lambda>buf. ret (0 :: int, buf))))) (\<lambda>_ t. t = s) F s"
    if l: "itype n = FT_LNK"
  proof -
    obtain nm where nm: "symlink_name n = Some nm" "length nm < 65536" using tidy_link_target [OF inv(2) n l] by auto
    define k where "k = min (length nm) (nat (buf_size - 1))"
    have "int_of_size (length nm) = int (length nm)" using nm(2)
      by (simp add: int_of_size_def int_of_u32_small unat_of_nat take_bit_nat_eq_self)
    then have len: "min_int (int_of_size (length nm)) (buf_size - 1) = int k" using b(1) by (simp add: min_int_def k_def)
    have "k < length buf" using b by (simp add: k_def)
    then show ?thesis
      using poke_nat [of 0 "take k nm" buf] poke_nat [of k "[0]" "blit buf 0 (take k nm)"]
      by (simp add: nm(1) len Let_def wlp_simps k_def)
  qed
  then show ?thesis unfolding fs_readlink_mem_def
    by (intro file_seq [OF inv(1) f] inode_seq [OF inv(1) n] wlp_ifI) (simp_all add: wlp_ret)
qed

lemma if_cases: "(b \<Longrightarrow> P) \<Longrightarrow> (\<not> b \<Longrightarrow> Q) \<Longrightarrow> if b then P else Q"
  by simp

lemma readdir_ok:
  assumes inv: "fs_ok s" "tidy s" and f: "files s f = Some fl" and b: "count \<le> int (length buf)"
  shows "wlp (fs_readdir_mem f offset1 buf count) (\<lambda>_ t. t = s) tame s"
proof -
  obtain n where n: "inodes s (f_inode fl) = Some n" using inv_file(3) [OF inv(1) f] by auto
  have loop: "wlp (readdir_loop els offset pos count buf) (\<lambda>_ t. t = s) tame s"
    if "\<forall>d \<in> set els. dirents s d \<noteq> None" "0 \<le> pos" "count \<le> int (length buf)" for els offset pos buf
    using that
  proof (induction els arbitrary: offset pos buf)
    case Nil
    show ?case unfolding readdir_loop.simps wlp_ret by (rule refl)
  next
    case (Cons el els)
    obtain de where de: "dirents s el = Some de" using Cons.prems(1) by auto
    obtain i where i: "inodes s (de_inode de) = Some i" using inv_dirent(2) [OF inv(1) de] by auto
    have l: "length (de_name de) < 65536" using inv(2) de by (simp add: tidy_def)
    then have nl: "int_of_u32 (of_nat (length (de_name de))) = int (length (de_name de))"
      by (simp add: int_of_u32_small unat_of_nat take_bit_nat_eq_self)
    have e: "length (readdir_entry i (offset + 1) (de_name de)) = 24 + length (de_name de)" by (simp add: readdir_entry_def le16.enc_length le32.enc_length le64.enc_length)
    show ?case unfolding readdir_loop.simps Let_def nl
    proof (rule dirent_seq [OF inv(1) de], unfold wlp_bnd [of "cint _"] wlp_cint nl, intro if_cases wlp_ifI)
      assume lt: "\<not> count < pos + (13 + 8 + 1 + 2 + int (length (de_name de)))"
      let ?e = "readdir_entry i (offset + 1) (de_name de)"
      have "poke buf pos ?e = Inr (blit buf (nat pos) ?e)"
        using poke_nat [of "nat pos" ?e buf] lt e Cons.prems(2,3) by simp
      moreover have "nat pos + length ?e \<le> length buf" using lt e Cons.prems(2,3) by linarith
      ultimately show "wlp (bnd (inode_of (de_inode de)) (\<lambda>n1. bnd (lift (poke buf pos (readdir_entry n1 (offset + 1) (de_name de)))) (\<lambda>buf.
          readdir_loop els (offset + 1) (pos + (13 + 8 + 1 + 2 + int (length (de_name de)))) count buf))) (\<lambda>_ t. t = s) tame s"
        using Cons.prems by (intro inode_seq [OF inv(1) i]) (auto simp: wlp_bnd wlp_lift length_blit intro!: Cons.IH)
    qed (simp_all add: wlp_ret)
  qed
  show ?thesis unfolding fs_readdir_mem_def
    by (intro file_seq [OF inv(1) f] inode_seq [OF inv(1) n] wlp_ifI loop)
      (use inv_entry [OF inv(1) n] b in \<open>auto simp: wlp_ret dest: in_set_dropD\<close>)
qed


section \<open>A new file system\<close>

lemma inv_set_root:
  assumes inv: "fs_inv (none_held(p := Suc 0)) none_held {} s" and r: "root_inode s = 0"
  shows "fs_ok (s\<lparr>root_inode := p\<rparr>)"
proof -
  let ?s = "s\<lparr>root_inode := p\<rparr>"
  have live: "inodes s p \<noteq> None" using inv_held [OF inv, of p] by auto
  have q: "refs ?s = refs s" "opens {} ?s = opens {} s" by (simp_all add: fun_eq_iff refs_def opens_def)
  show ?thesis
  proof (rule fs_invI, unfold q)
    fix x n assume "inodes ?s x = Some n"
    then have x: "inodes s x = Some n" by simp
    show "node_ok n \<and> refcount n = int (refs s x + 0 + (if x = root_inode ?s then 1 else 0)) \<and> open_count n = int (opens {} s x + 0)"
      using inv_node(1-4) [OF inv x] r by auto
  next
    fix x assume "inodes ?s x = None"
    then show "(0 :: nat) = 0 \<and> (0 :: nat) = 0 \<and> (x = root_inode ?s \<longrightarrow> x = 0)" using live by auto
  qed (use inv_next [OF inv] inv_fresh [OF inv] inv_dirent(2) [OF inv] inv_file(2,3) [OF inv] inv_node(5) [OF inv] inv_entry [OF inv]
      inv_entry_unique [OF inv] in \<open>auto\<close>)
qed

lemma zero_ok: "fs_ok (fs_mem_zero h log2)" "tidy (fs_mem_zero h log2)"
  by (simp_all add: fs_inv_def tidy_def fs_mem_zero_def)

lemma init_ok: "wlp fs_mem_init (\<lambda>_ t. fs_ok t \<and> tidy t \<and> root_inode t \<noteq> 0) tame (fs_mem_zero h log2)"
proof -
  let ?s = "fs_mem_zero h log2 :: 'k fsdevicemem"
  have tidy: "keeps tidy fs_mem_init" unfolding fs_mem_init_def by (intro keeps_intros tidy_mod; simp)
  have "wlp fs_mem_init (\<lambda>_ t. fs_ok t \<and> root_inode t \<noteq> 0) tame ?s"
    unfolding fs_mem_init_def
  proof (rule wlp_seq [OF mid_new [OF mid_start [OF zero_ok(1)]]], elim conjE)
    fix p and t :: "'k fsdevicemem"
    assume t: "mid (none_held(p := 1)) none_held ?s t"
    have step: "wlp (bnd (inode_incref p) (\<lambda>a. andthen (inode_dir_add p name a) k)) Q tame u"
      if u: "mid (none_held(p := 1)) none_held ?s u" and k: "\<And>v. mid (none_held(p := 1)) none_held ?s v \<Longrightarrow> wlp k Q tame v" for u name k Q
    proof (rule wlp_seq [OF mid_incref [OF u mid_held [OF u]]], simp, elim conjE, hypsubst, rule wlp_then)
      fix v assume v: "mid (none_held(p := 1, p := Suc ((none_held(p := 1)) p))) none_held ?s v"
      show "wlp (inode_dir_add p name p) (\<lambda>_. mid (none_held(p := 1)) none_held ?s) tame v"
        using mid_add [OF v mid_held [OF v], of p p name] by simp
    qed (rule k)
    show "wlp (bnd (inode_incref p) (\<lambda>a. andthen (inode_dir_add p DOT a) (bnd (inode_incref p) (\<lambda>b. andthen (inode_dir_add p DOTDOT b)
        (modify (\<lambda>s. s\<lparr>root_inode := p\<rparr>)))))) (\<lambda>_ t. fs_ok t \<and> root_inode t \<noteq> 0) tame t"
    proof (rule step [OF t], rule step)
      fix v assume v: "mid (none_held(p := 1)) none_held ?s v"
      then have i: "fs_inv (none_held(p := Suc 0)) none_held {} v" "root_inode v = 0" by (simp_all add: mid_def fs_mem_zero_def)
      have "p \<noteq> 0" using inv_held [OF i(1), of p] inv_node(1) [OF i(1)] by auto
      then show "wlp (modify (\<lambda>s. s\<lparr>root_inode := p\<rparr>)) (\<lambda>_ t. fs_ok t \<and> root_inode t \<noteq> 0) tame v"
        using inv_set_root [OF i] by (simp add: wlp_modify)
    qed
  qed
  from wlp_and_keeps [OF this tidy zero_ok(2)] show ?thesis by (rule wlp_mono) auto
qed


section \<open>Sequences of operations\<close>

text \<open>A call through the interface \<open>FSDevice\<close>, with its arguments.\<close>

datatype 'h fs_op =
    Delete 'h | Statfs | Attach u32 bytes bytes | Walk 'h "bytes list" | Mkdir 'h bytes u32 u32 | Open 'h u32
  | Create 'h bytes u32 u32 u32 | Stat 'h | Setattr 'h u32 u32 u32 u32 u64 u64 u64 u64 u64 | Readdir 'h u64 bytes int
  | Read 'h u64 bytes int | Write 'h u64 bytes int | Link 'h 'h bytes | Symlink 'h bytes bytes u32
  | Mknod 'h bytes u32 u32 u32 u32 | Readlink 'h bytes int | Renameat 'h bytes 'h bytes | Unlinkat 'h bytes
  | Lock 'h fslock | Getlock 'h fslock

abbreviation void :: "('s, 'a) vm \<Rightarrow> ('s, unit) vm" where
  "void m \<equiv> andthen m (ret ())"

fun fs_call :: "('h, 's) fs_ops \<Rightarrow> 'h fs_op \<Rightarrow> ('s, unit) vm" where
  "fs_call fs (Delete f) = fs_delete fs f"
| "fs_call fs Statfs = void (fs_statfs fs)"
| "fs_call fs (Attach uid uname aname) = void (fs_attach fs uid uname aname)"
| "fs_call fs (Walk f names) = void (fs_walk fs f names)"
| "fs_call fs (Mkdir f name mode gid) = void (fs_mkdir fs f name mode gid)"
| "fs_call fs (Open f flags) = void (fs_open fs f flags)"
| "fs_call fs (Create f name flags mode gid) = void (fs_create fs f name flags mode gid)"
| "fs_call fs (Stat f) = void (fs_stat fs f)"
| "fs_call fs (Setattr f msk mode uid gid sz a b c d) = void (fs_setattr fs f msk mode uid gid sz a b c d)"
| "fs_call fs (Readdir f offset buf count) = void (fs_readdir fs f offset buf count)"
| "fs_call fs (Read f offset buf count) = void (fs_read fs f offset buf count)"
| "fs_call fs (Write f offset buf count) = void (fs_write fs f offset buf count)"
| "fs_call fs (Link df f name) = void (fs_link fs df f name)"
| "fs_call fs (Symlink f name symgt gid) = void (fs_symlink fs f name symgt gid)"
| "fs_call fs (Mknod f name mode major minor gid) = void (fs_mknod fs f name mode major minor gid)"
| "fs_call fs (Readlink f buf buf_size) = void (fs_readlink fs f buf buf_size)"
| "fs_call fs (Renameat f name new_f new_name) = void (fs_renameat fs f name new_f new_name)"
| "fs_call fs (Unlinkat f name) = void (fs_unlinkat fs f name)"
| "fs_call fs (Lock f lock) = void (fs_lock fs f lock)"
| "fs_call fs (Getlock f lock) = void (fs_getlock fs f lock)"

text \<open>
  What a caller must respect: handles it got and has not deleted, terminated names no longer than a message can
  hold, buffers of the size given, file sizes below $2^{63}$, and no renaming of an entry onto itself.
\<close>

definition c_name :: "bytes \<Rightarrow> bool" where
  "c_name a \<longleftrightarrow> 0 \<in> set a \<and> length (cstr a) < 65536"

definition held :: "'k fsdevicemem \<Rightarrow> ptr \<Rightarrow> bool" where
  "held s f \<longleftrightarrow> files s f \<noteq> None"

fun op_ok :: "'k fsdevicemem \<Rightarrow> ptr fs_op \<Rightarrow> bool" where
  "op_ok s (Delete f) = held s f"
| "op_ok s Statfs = True"
| "op_ok s (Attach uid uname aname) = True"
| "op_ok s (Walk f names) = (held s f \<and> list_all (\<lambda>n. 0 \<in> set n) names)"
| "op_ok s (Mkdir f name mode gid) = (held s f \<and> c_name name)"
| "op_ok s (Open f flags) = held s f"
| "op_ok s (Create f name flags mode gid) = (held s f \<and> c_name name)"
| "op_ok s (Stat f) = held s f"
| "op_ok s (Setattr f msk mode uid gid sz a b c d) = (held s f \<and> (msk AND 0x8 = 0 \<or> unat sz < 2 ^ 63))"
| "op_ok s (Readdir f offset buf count) = (held s f \<and> count \<le> int (length buf))"
| "op_ok s (Read f offset buf count) = (held s f \<and> 0 \<le> count \<and> count < 2147483648 \<and> nat count \<le> length buf)"
| "op_ok s (Write f offset buf count) = (held s f \<and> 0 \<le> count \<and> count \<le> int (length buf) \<and> unat offset + nat count < 2 ^ 63)"
| "op_ok s (Link df f name) = (held s df \<and> held s f \<and> c_name name)"
| "op_ok s (Symlink f name symgt gid) = (held s f \<and> c_name name \<and> c_name symgt)"
| "op_ok s (Mknod f name mode major minor gid) = (held s f \<and> c_name name)"
| "op_ok s (Readlink f buf buf_size) = (held s f \<and> 0 < buf_size \<and> buf_size \<le> int (length buf))"
| "op_ok s (Renameat f name new_f new_name) = (held s f \<and> held s new_f \<and> c_name name \<and> c_name new_name
     \<and> \<not> (map_option f_inode (files s f) = map_option f_inode (files s new_f) \<and> cstr name = cstr new_name))"
| "op_ok s (Unlinkat f name) = (held s f \<and> 0 \<in> set name)"
| "op_ok s (Lock f lock) = held s f"
| "op_ok s (Getlock f lock) = held s f"

text \<open>The states of a file system under such calls.\<close>

inductive fs_reach :: "('h, 's) fs_ops \<Rightarrow> ('s \<Rightarrow> 'h fs_op \<Rightarrow> bool) \<Rightarrow> 's \<Rightarrow> 's \<Rightarrow> bool"
  for fs ok s0 where
  init: "fs_reach fs ok s0 s0"
| call: "fs_reach fs ok s0 s \<Longrightarrow> ok s op \<Longrightarrow> fs_call fs op s = Some (Inr ((), t)) \<Longrightarrow> fs_reach fs ok s0 t"

definition fs_good :: "'k fsdevicemem \<Rightarrow> bool" where
  "fs_good s \<longleftrightarrow> fs_ok s \<and> tidy s \<and> root_inode s \<noteq> 0"

lemma wlp_void: "wlp m (\<lambda>_ t. P t) F s \<Longrightarrow> wlp (void m) (\<lambda>_ t. P t) F s"
  by (rule wlp_then) (simp_all add: wlp_ret)

lemma good_step:
  assumes "fs_good s" "wlp m (kept s) tame s" "keeps tidy m"
  shows "wlp m (\<lambda>_. fs_good) tame s"
proof -
  have "wlp m (\<lambda>a t. kept s a t \<and> tidy t) tame s" by (rule wlp_and_keeps) (use assms in \<open>simp_all add: fs_good_def\<close>)
  then show ?thesis by (rule wlp_mono) (use assms(1) in \<open>auto simp: fs_good_def\<close>)
qed

lemma good_read: "fs_good s \<Longrightarrow> wlp m (\<lambda>_ t. t = s) tame s \<Longrightarrow> wlp m (\<lambda>_. fs_good) tame s"
  by (erule wlp_mono) auto


lemma held_file: "held s f \<longleftrightarrow> (\<exists>fl. files s f = Some fl)"
  by (auto simp: held_def)

lemma with_str_name: "c_name a \<Longrightarrow> with_str a m = m (cstr a)"
  by (simp add: with_str_def c_name_def)

text \<open>Every call of the interface keeps the invariant and can only fail in an assertion or a counter.\<close>

lemma only_tidy:
  "tidy s \<Longrightarrow> inodes s p = Some n \<Longrightarrow> only_at s p m t \<Longrightarrow> itype m = itype n \<Longrightarrow> symlink_name m = symlink_name n \<Longrightarrow> tidy t"
  by (auto simp: tidy_def only_at_def same_heaps_def)

lemma write_ok:
  assumes s: "fs_good s" and f: "files s f = Some fl"
    and count: "0 \<le> count" "count \<le> int (length buf)" "unat offset + nat count < 2 ^ 63"
  shows "wlp (fs_write_mem cmd_write f offset buf count) (\<lambda>_. fs_good) tame s"
proof -
  have inv: "fs_ok s" "tidy s" using s by (simp_all add: fs_good_def)
  obtain n where n: "inodes s (f_inode fl) = Some n" using inv_file(3) [OF inv(1) f] by auto
  show ?thesis by (rule wlp_mono [OF write_rule [OF inv(1) f n count]])
    (use s in \<open>auto simp: written_def fs_good_def intro: only_tidy [OF inv(2) n] dest: only_ok [OF inv(1) n]\<close>)
qed

lemma read_ok:
  assumes inv: "fs_ok s" and f: "files s f = Some fl" and count: "0 \<le> count" "count < 2147483648" "nat count \<le> length buf"
  shows "wlp (fs_read_mem f offset buf count) (\<lambda>_ t. t = s) tame s"
proof -
  obtain n where n: "inodes s (f_inode fl) = Some n" using inv_file(3) [OF inv f] by auto
  show ?thesis by (rule wlp_mono [OF read_rule [OF inv f n count]]) auto
qed

lemma statfs_ok: "wlp fs_statfs_mem (\<lambda>_ t. t = s) F s"
  by (simp add: fs_statfs_mem_def wlp_gets)

lemmas changing_ops = delete_ok attach_ok walk_ok mkdir_ok open_ok create_ok setattr_ok link_ok symlink_ok mknod_ok renameat_ok unlinkat_ok
lemmas reading_ops = statfs_ok stat_ok readdir_ok read_ok readlink_ok lock_ok getlock_ok

lemma call_ok:
  assumes s: "fs_good s" and ok: "op_ok s op"
  shows "wlp (fs_call (fs_mem_ops lib cmd_write opaque) op) (\<lambda>_. fs_good) tame s"
proof -
  have "fs_ok s" "tidy s" "root_inode s \<noteq> 0" using s by (simp_all add: fs_good_def)
  then show ?thesis using ok
    by (cases op) (auto simp: fs_mem_ops_def held_file with_str_def c_name_def list_all_iff
      intro!: wlp_void write_ok [OF s] changing_ops [THEN good_step [OF s]] reading_ops [THEN good_read [OF s]] keeps_intros)
qed


lemma reach_good: "fs_reach (fs_mem_ops lib cmd_write opaque) op_ok s0 s \<Longrightarrow> fs_good s0 \<Longrightarrow> fs_good s"
proof (induction rule: fs_reach.induct)
  case (call s op t)
  then show ?case using wlp_D(1) [OF call_ok [OF _ call.hyps(2)] call.hyps(3)] by simp
qed

lemma init_good: "fs_mem_init (fs_mem_zero h log2) = Some (Inr ((), s)) \<Longrightarrow> fs_good s"
  using wlp_D(1) [OF init_ok] by (simp add: fs_good_def)

end
