(* ===== verification/Fs_Total.thy ===== *)
theory Fs_Total
  imports Fs_Reach
begin

text \<open>The operations of the file system of \<open>src/src/fs_net.c\<close> end: their loops run over lists that do not grow.\<close>

lemma total_reg_state [total_intros]:
  "total m1 \<Longrightarrow> total m2 \<Longrightarrow> total m3 \<Longrightarrow> total m4 \<Longrightarrow>
     total (case r of REG_STATE_LOCAL \<Rightarrow> m1 | REG_STATE_UNLOADED \<Rightarrow> m2 | REG_STATE_LOADING \<Rightarrow> m3 | REG_STATE_LOADED \<Rightarrow> m4)"
  by (cases r) simp_all

lemmas heap_defs = upd_inode_def upd_reg_def upd_file_def upd_open_info_def upd_base_url_def fresh_def add_blocks_def add_inode_count_def
  add_cache_size_def gettimeofday_def file_buffer_reset_def file_buffer_resize_def file_buffer_write_def file_buffer_set_def
  file_buffer_read_def inode_incref_def inode_inc_open_def inode_update_mtime_def cache_unlink_def fs_base_url_decref_def
  archive_unlink_def fs_open_end_def fs_wget_set_error_def fs_wget_free_def

lemma total_error_archive_files [total_intros]: "total (error_archive_files els)"
  by (induction els; unfold error_archive_files.simps heap_defs; (intro total_intros | assumption)+)

lemma total_inode_free [total_intros]: "total (inode_free p)"
  unfolding inode_free_def inode_free_loading_def fs_error_archive_def heap_defs by (intro total_intros)

lemma total_find_dirent [total_intros]: "total (find_dirent P ds)"
  by (induction ds; unfold find_dirent.simps; (intro total_intros | assumption)+)

lemma total_search_path [total_intros]: "total (inode_search_path path)"
proof -
  have "total (search_path_loop n p)" for n p
    by (induction n p rule: search_path_loop.induct, subst search_path_loop.simps)
      (unfold inode_search_def, intro total_intros; auto intro!: total_intros split: list.splits)
  then show ?thesis unfolding inode_search_path_def inode_search_path1_def Let_def by (intro total_intros)
qed

lemmas node_defs = inode_decref_def inode_dec_open_def inode_new_def dir_resize_def inode_dir_add_def inode_search_def is_empty_dir_def
  inode_dirent_delete_no_decref_def inode_dirent_delete_def fs_cmd_close_def fs_close_mem_def fid_create_def

lemma total_flush_entries [total_intros]: "total (flush_entries p ds)"
  by (induction ds; unfold flush_entries.simps node_defs heap_defs; (intro total_intros | assumption)+)

lemma total_walk_names [total_intros]: "total (walk_names n names q)"
  by (induction names arbitrary: n q; unfold walk_names.simps inode_search_def; (intro total_intros | assumption)+)

lemma total_trim_cache_list [total_intros]: "total (trim_cache_list k els)"
  by (induction els; unfold trim_cache_list.simps cache_fits_def heap_defs; (intro total_intros | assumption)+)

lemma total_open_wget [total_intros]: "total (fs_open_wget lib p ty)"
  unfolding fs_open_wget_def fs_trim_cache_def cache_fits_def fs_wget_def fs_wget2_def heap_defs by (intro total_intros)

lemma total_preload_file [total_intros]: "total (fs_preload_file lib name)"
  unfolding fs_preload_file_def is_unloaded_def by (intro total_intros)

lemma total_preload_archive [total_intros]: "total (fs_preload_archive lib name)"
proof -
  have 1: "total (preload_separately lib fs)" for fs
    by (induction fs; unfold preload_separately.simps; (intro total_intros | assumption)+)
  have 2: "total (archive_survey fs u off)" for fs u off
    by (induction fs arbitrary: u off; unfold archive_survey.simps is_unloaded_def; (intro total_intros | assumption)+)
  have 3: "total (archive_join lib n fs off)" for n fs off
    by (induction fs arbitrary: off; unfold archive_join.simps is_unloaded_def heap_defs; (intro total_intros | assumption)+)
  show ?thesis unfolding fs_preload_archive_def find_preload_archive_def is_unloaded_def by (intro total_intros 1 2 3)
qed

lemma total_preload_files [total_intros]: "total (fs_preload_files lib fid)"
proof -
  have "total (preload_each lib fs)" for fs
    by (induction fs; unfold preload_each.simps; (intro total_intros | assumption)+)
  then show ?thesis unfolding fs_preload_files_def by (intro total_intros)
qed

lemma total_readdir_loop [total_intros]: "total (readdir_loop els offset pos count buf)"
  by (induction els arbitrary: offset pos buf; unfold readdir_loop.simps Let_def; (intro total_intros | assumption)+)

lemma total_truncate [total_intros]: "total (fs_truncate p sz)"
  unfolding fs_truncate_def Let_def heap_defs by (intro total_intros)

lemma total_write: "(\<And>f b c. total (cw f b c)) \<Longrightarrow> total (fs_write_mem cw f offset buf count)"
  unfolding fs_write_mem_def Let_def heap_defs by (intro total_intros)

lemmas op_defs = fs_delete_mem_def fs_statfs_mem_def fs_attach_mem_def fs_walk_mem_def fs_mkdir_mem_def fs_open_mem_def fs_create_mem_def
  fs_stat_mem_def fs_setattr_mem_def fs_readdir_mem_def fs_read_mem_def fs_cmd_read_def fs_link_mem_def fs_symlink_mem_def fs_mknod_mem_def
  fs_readlink_mem_def fs_renameat_mem_def fs_unlinkat_mem_def flush_dir_def fs_lock_mem_def fs_getlock_mem_def

lemma total_ops [total_intros]:
  "total (fs_delete_mem f)" "total fs_statfs_mem" "total (fs_attach_mem uid)" "total (fs_walk_mem f names)" "total (fs_mkdir_mem f nm mode gid)"
  "total (fs_open_mem lib f flags opaque)" "total (fs_create_mem f nm flags mode gid)" "total (fs_stat_mem f)"
  "total (fs_setattr_mem f msk mode uid gid sz a b c d)" "total (fs_readdir_mem f offset buf count)" "total (fs_read_mem f offset buf count)"
  "total (fs_link_mem df f nm)" "total (fs_symlink_mem f nm sy gid)" "total (fs_mknod_mem f nm mode major minor gid)"
  "total (fs_readlink_mem f buf bs)" "total (fs_renameat_mem f nm f2 nm2)" "total (fs_unlinkat_mem f nm)" "total (fs_lock_mem f lock)"
  "total (fs_getlock_mem f lock)"
  unfolding op_defs node_defs heap_defs Let_def by (intro total_intros)+


text \<open>A local file system never gets to its command file.\<close>

lemma bnd_load: "heap s p = Some a \<Longrightarrow> p \<noteq> 0 \<Longrightarrow> bnd (load heap p) k s = k a s"
  by (simp add: bnd_def load_def)

lemma write_returns:
  assumes inv: "fs_ok s"
  shows "fs_write_mem cw f offset buf count s \<noteq> None"
proof -
  have eq: "fs_write_mem cw f offset buf count s = fs_write_mem (\<lambda>_ _ _. ret 0) f offset buf count s"
  proof (cases "files s f")
    case None
    then show ?thesis by (simp add: fs_write_mem_def bnd_def load_def)
  next
    case (Some fl)
    obtain n where n: "inodes s (f_inode fl) = Some n" using inv_file(3) [OF inv Some] by auto
    have "f \<noteq> 0" "f_inode fl \<noteq> 0" "itype n = FT_REG \<Longrightarrow> \<not> is_fscmd (reg n)"
      using inv_file(1) [OF inv Some] inv_node(1,2) [OF inv n] by (simp_all add: node_ok_def)
    then show ?thesis unfolding fs_write_mem_def Let_def using n Some
      by (simp add: bnd_load [where heap = files] bnd_load [where heap = inodes])
  qed
  have "total (fs_write_mem (\<lambda>_ _ _. ret 0) f offset buf count)" by (rule total_write) (rule total_basic)
  then show ?thesis unfolding eq by (auto simp: total_def returns_def)
qed

lemma total_with_str [total_intros]: "(\<And>b. total (m b)) \<Longrightarrow> total (with_str a m)"
  unfolding with_str_def by (intro total_intros)

lemma call_returns:
  fixes s :: "'k fsdevicemem"
  assumes "fs_ok s"
  shows "fs_call (fs_mem_ops lib cw opaque) op s \<noteq> None"
proof -
  have r: "m s \<noteq> None" if "total m" for m :: "('k, unit) fs_vm" using that by (auto simp: total_def returns_def)
  show ?thesis
  proof (cases op)
    case (Write f offset buf count)
    then show ?thesis using write_returns [OF assms, of cw f offset buf count]
      by (auto simp: fs_mem_ops_def andthen_def bnd_def split: option.splits sum.splits)
  qed (simp_all only: fs_call.simps fs_mem_ops_def fs_ops.simps, (rule r, intro total_intros)+)
qed

end
