(* ===== verification/Fs_Correct.thy ===== *)
theory Fs_Correct
  imports Fs_Total
begin

text \<open>
  What the file system of \<open>src/src/fs_net.c\<close> guarantees to its callers, for every sequence of calls after
  \<open>fs_mem_init\<close>: exact reference counts, no access to freed memory or beyond a buffer, contents as written;
  and the calls outside the contract that do reach freed memory or leave a buffer.
\<close>

section \<open>A sample file system\<close>

definition sample_lib :: "unit net_lib" where
  "sample_lib = \<lparr>nl_aes = \<lparr>aes_cbc = (\<lambda>key iv data. (data, iv)), encrypted_file_magic = []\<rparr>,
     compose_path = (\<lambda>a b. a @ b), file_id_to_filename = (\<lambda>_. [])\<rparr>"

definition sample_host :: host where
  "sample_host = \<lparr>host_time = (\<lambda>_. (7, 8)), host_mem = (\<lambda>_ _. True), host_junk = (\<lambda>_ _. 0xaa)\<rparr>"

definition sample_ops :: "(ptr, unit fsdevicemem) fs_ops" where
  "sample_ops = fs_mem_ops sample_lib (\<lambda>_ _ _. ret 0) 0"

text \<open>Two handles on the root, the second one turned into an open file \<open>a\<close>.\<close>

definition sample_calls :: "ptr fs_op list" where
  "sample_calls = [Attach 0 [] [], Attach 0 [] [], Create 5 [0x61, 0] 2 0 0]"

text \<open>The state after calls that all respect the contract and return.\<close>

fun fs_trace :: "('h, 's) fs_ops \<Rightarrow> ('s \<Rightarrow> 'h fs_op \<Rightarrow> bool) \<Rightarrow> 'h fs_op list \<Rightarrow> 's \<Rightarrow> 's option" where
  "fs_trace fs ok [] s = Some s"
| "fs_trace fs ok (op # ops) s = (if ok s op then
     case fs_call fs op s of Some (Inr (_, t)) \<Rightarrow> fs_trace fs ok ops t | _ \<Rightarrow> None else None)"

lemma trace_reach: "fs_trace fs ok ops s = Some t \<Longrightarrow> fs_reach fs ok s0 s \<Longrightarrow> fs_reach fs ok s0 t"
  by (induction ops arbitrary: s) (auto split: if_splits option.splits sum.splits intro: fs_reach.call)

lemma run_bnd:
  "bnd m k s = (case m s of None \<Rightarrow> None | Some (Inl f) \<Rightarrow> Some (Inl f) | Some (Inr (a, t)) \<Rightarrow> k a t)"
  "andthen m n s = (case m s of None \<Rightarrow> None | Some (Inl f) \<Rightarrow> Some (Inl f) | Some (Inr (a, t)) \<Rightarrow> n t)"
  by (auto simp: bnd_def andthen_def split: option.splits sum.splits)

lemmas fs_eval = run_bnd heap_defs node_defs op_defs fs_mem_init_def fs_mem_zero_def load_def guard_def cint_def int_in_range_def cint64_def
  empty_inode_def file_buffer_init_def dirent_size_def to_blocks_def int_of_u32_small with_str_def cstr_def inode_to_qid_def

lemma sample_state:
  obtains s0 s where "fs_mem_init (fs_mem_zero sample_host 12) = Some (Inr ((), s0))" "fs_trace sample_ops op_ok sample_calls s0 = Some s"
    "\<exists>fl. files s 4 = Some fl \<and> f_inode fl = 1" "\<exists>fl. files s 5 = Some fl \<and> f_inode fl = 6 \<and> is_opened fl \<and> open_flags fl = 2"
    "\<exists>n. inodes s 6 = Some n \<and> itype n = FT_REG \<and> refcount n = 1 \<and> rsize (reg n) = 0"
    "\<exists>n. inodes s 1 = Some n \<and> itype n = FT_DIR \<and> de_list n = [2, 3, 7]"
    "dirents s 7 = Some \<lparr>de_inode = 6, de_name = [0x61]\<rparr>"
    "dirents s 2 = Some \<lparr>de_inode = 1, de_name = DOT\<rparr>" "dirents s 3 = Some \<lparr>de_inode = 1, de_name = DOTDOT\<rparr>"
  by (simp add: fs_eval sample_host_def sample_ops_def sample_calls_def sample_lib_def fs_mem_ops_def held_def c_name_def)


lemma sample_file_write:
  obtains s0 s t where "fs_mem_init (fs_mem_zero sample_host 12) = Some (Inr ((), s0))" "fs_trace sample_ops op_ok sample_calls s0 = Some s"
    "\<exists>fl n. files s 5 = Some fl \<and> f_inode fl = 6 \<and> inodes s 6 = Some n \<and> readable fl n" "fs_write sample_ops 5 2 [1, 2, 3] 3 s = Some (Inr (3, t))"
  by (simp add: fs_eval sample_host_def sample_ops_def sample_calls_def sample_lib_def fs_mem_ops_def held_def c_name_def readable_def
    fs_write_mem_def fs_truncate_def Let_def realloc_def lift_def poke_def in_array_def blit_def)

lemma sample_reach:
  "fs_trace sample_ops op_ok sample_calls s0 = Some s \<Longrightarrow> fs_reach (fs_mem_ops sample_lib (\<lambda>_ _ _. ret 0) 0) op_ok s0 s"
  using trace_reach [OF _ fs_reach.init] by (simp add: sample_ops_def)

section \<open>Guarantees\<close>

text \<open>
  C8: Whatever calls are made after \<open>fs_mem_init\<close>, within the contract of the interface, the reference count of
  every inode is the number of directory entries that point to it, plus one for the root, and its open count is the
  number of handles on it.
\<close>

theorem fs_counts_exact:
  assumes "fs_mem_init (fs_mem_zero h log2) = Some (Inr ((), s0))"
    and "fs_reach (fs_mem_ops lib cmd_write opaque) op_ok s0 s" and "inodes s p = Some n"
  shows "refcount n = int (card {d. \<exists>de. dirents s d = Some de \<and> de_inode de = p}) + (if p = root_inode s then 1 else 0)
    \<and> open_count n = int (card {f. \<exists>fl. files s f = Some fl \<and> f_inode fl = p})"
proof -
  have "fs_ok s" using reach_good [OF assms(2) init_good [OF assms(1)]] by (simp add: fs_good_def)
  from inv_node(3,4) [OF this assms(3)] show ?thesis by (simp add: refs_def opens_def)
qed

theorem fs_counts_exact_witness:
  "\<exists>s0 s n. fs_mem_init (fs_mem_zero sample_host 12) = Some (Inr ((), s0)) \<and> fs_trace sample_ops op_ok sample_calls s0 = Some s
    \<and> inodes s 6 = Some n \<and> open_count n = int (card {f. \<exists>fl. files s f = Some fl \<and> f_inode fl = 6})"
proof -
  obtain s0 s where s: "fs_mem_init (fs_mem_zero sample_host 12) = Some (Inr ((), s0))" "fs_trace sample_ops op_ok sample_calls s0 = Some s"
    "\<exists>n. inodes s 6 = Some n \<and> itype n = FT_REG \<and> refcount n = 1 \<and> rsize (reg n) = 0"
    by (rule sample_state)
  then obtain n where n: "inodes s 6 = Some n" by blast
  show ?thesis using s(1,2) n fs_counts_exact [OF s(1) sample_reach [OF s(2)] n] by blast
qed

text \<open>
  C7: No call within the contract follows a null pointer or a pointer to freed memory or leaves a buffer, and every
  call ends: it returns, or stops in one of the assertions of the code or on a counter that leaves its type.
\<close>

theorem fs_calls_memory_safe:
  assumes "fs_mem_init (fs_mem_zero h log2) = Some (Inr ((), s0))"
    and "fs_reach (fs_mem_ops lib cmd_write opaque) op_ok s0 s" and "op_ok s op"
  shows "\<exists>r. fs_call (fs_mem_ops lib cmd_write opaque) op s = Some r \<and> (\<forall>f. r = Inl f \<longrightarrow> f = AssertFail \<or> f = SignedOverflow)"
proof -
  have s: "fs_good s" by (rule reach_good [OF assms(2) init_good [OF assms(1)]])
  then obtain r where "fs_call (fs_mem_ops lib cmd_write opaque) op s = Some r"
    using call_returns [of s lib cmd_write opaque op] by (auto simp: fs_good_def)
  then show ?thesis using wlp_D(2) [OF call_ok [OF s assms(3)]] by auto
qed

theorem fs_calls_memory_safe_witness:
  "\<exists>s0 s r. fs_mem_init (fs_mem_zero sample_host 12) = Some (Inr ((), s0)) \<and> fs_trace sample_ops op_ok sample_calls s0 = Some s
    \<and> op_ok s (Unlinkat 4 [0x61, 0]) \<and> fs_call sample_ops (Unlinkat 4 [0x61, 0]) s = Some r \<and> (\<forall>f. r = Inl f \<longrightarrow> f = AssertFail \<or> f = SignedOverflow)"
proof -
  obtain s0 s where s: "fs_mem_init (fs_mem_zero sample_host 12) = Some (Inr ((), s0))" "fs_trace sample_ops op_ok sample_calls s0 = Some s"
    "\<exists>fl. files s 4 = Some fl \<and> f_inode fl = 1"
    by (rule sample_state)
  have ok: "op_ok s (Unlinkat 4 [0x61, 0])" using s(3) by (auto simp: held_def)
  show ?thesis using s(1,2) ok fs_calls_memory_safe [OF s(1) sample_reach [OF s(2)] ok] by (auto simp: sample_ops_def)
qed

text \<open>The bytes of every file.\<close>

definition fs_contents :: "'k fsdevicemem \<Rightarrow> ptr \<Rightarrow> bytes option" where
  "fs_contents s p = map_option content (inodes s p)"

text \<open>
  C9: A write through a handle changes the contents of that file only, to the old bytes with the new ones in place and
  zeroes in a gap, and returns the number of bytes given; when it returns an error, no contents change.
\<close>

theorem fs_write_refines:
  assumes "fs_mem_init (fs_mem_zero h log2) = Some (Inr ((), s0))"
    and "fs_reach (fs_mem_ops lib cmd_write opaque) op_ok s0 s" and ok: "op_ok s (Write f offset buf count)"
    and f: "files s f = Some fl" and w: "fs_write (fs_mem_ops lib cmd_write opaque) f offset buf count s = Some (Inr (r, t))"
  shows "(r < 0 \<and> fs_contents t = fs_contents s)
    \<or> (r = count \<and> fs_contents t = (fs_contents s)(f_inode fl \<mapsto> spliced (unat offset) (take (nat count) buf) (the (fs_contents s (f_inode fl)))))"
proof -
  have s: "fs_ok s" using reach_good [OF assms(2) init_good [OF assms(1)]] by (simp add: fs_good_def)
  obtain n where n: "inodes s (f_inode fl) = Some n" using inv_file(3) [OF s f] by auto
  have c: "0 \<le> count" "count \<le> int (length buf)" "unat offset + nat count < 2 ^ 63" using ok by simp_all
  have "fs_write_mem cmd_write f offset buf count s = Some (Inr (r, t))" using w by (simp add: fs_mem_ops_def)
  from wlp_D(1) [OF write_rule [OF s f n c] this] obtain m where m: "only_at s (f_inode fl) m t" "r < 0 \<or> r = count"
    "written n (unat offset) (if r < 0 then [] else take (nat count) buf) (if r < 0 then - 1 else r) m" by auto
  have "fs_contents t = (fs_contents s)(f_inode fl \<mapsto> content m)" using only_inode [OF m(1)] by (auto simp: fs_contents_def)
  moreover have "fs_contents s (f_inode fl) = Some (content n)" using n by (simp add: fs_contents_def)
  ultimately show ?thesis using m(2,3) c by (auto simp: written_def fun_upd_idem split: if_splits)
qed


theorem fs_write_refines_witness:
  "\<exists>s0 s t. fs_mem_init (fs_mem_zero sample_host 12) = Some (Inr ((), s0)) \<and> fs_trace sample_ops op_ok sample_calls s0 = Some s
    \<and> fs_write sample_ops 5 2 [1, 2, 3] 3 s = Some (Inr (3, t))
    \<and> fs_contents t = (fs_contents s)(6 \<mapsto> spliced 2 [1, 2, 3] (the (fs_contents s 6)))"
proof -
  obtain s0 s t where s: "fs_mem_init (fs_mem_zero sample_host 12) = Some (Inr ((), s0))" "fs_trace sample_ops op_ok sample_calls s0 = Some s"
    "\<exists>fl n. files s 5 = Some fl \<and> f_inode fl = 6 \<and> inodes s 6 = Some n \<and> readable fl n" "fs_write sample_ops 5 2 [1, 2, 3] 3 s = Some (Inr (3, t))"
    by (rule sample_file_write)
  then obtain fl where fl: "files s 5 = Some fl" "f_inode fl = 6" by blast
  have ok: "op_ok s (Write 5 2 [1, 2, 3] 3)" using fl by (simp add: held_def)
  show ?thesis using s fl(2) fs_write_refines [OF s(1) sample_reach [OF s(2)] ok fl(1), of 3 t] by (auto simp: sample_ops_def)
qed

text \<open>
  C10: What was written is what is read: after a write of \<open>count\<close> bytes through a handle open for reading and writing, a read
  at the same offset into a buffer of that size returns those bytes and changes nothing.
\<close>

theorem fs_write_read:
  assumes "fs_mem_init (fs_mem_zero h log2) = Some (Inr ((), s0))"
    and "fs_reach (fs_mem_ops lib cmd_write opaque) op_ok s0 s" and ok: "op_ok s (Write f offset buf count)"
    and f: "files s f = Some fl" "inodes s (f_inode fl) = Some n" "readable fl n"
    and w: "fs_write (fs_mem_ops lib cmd_write opaque) f offset buf count s = Some (Inr (count, t))"
    and b: "0 < count" "count < 2147483648" "nat count \<le> length buf'"
  shows "fs_read (fs_mem_ops lib cmd_write opaque) f offset buf' count t = Some (Inr ((count, blit buf' 0 (take (nat count) buf)), t))"
proof -
  have s: "fs_ok s" using reach_good [OF assms(2) init_good [OF assms(1)]] by (simp add: fs_good_def)
  have c: "0 \<le> count" "count \<le> int (length buf)" "unat offset + nat count < 2 ^ 63" using ok by simp_all
  have "fs_write_mem cmd_write f offset buf count s = Some (Inr (count, t))" using w by (simp add: fs_mem_ops_def)
  from wlp_D(1) [OF write_rule [OF s f(1,2) c] this] obtain m where m: "only_at s (f_inode fl) m t"
    "written n (unat offset) (take (nat count) buf) count m" using b(1) by auto
  have t: "fs_ok t" "files t = files s" "inodes t (f_inode fl) = Some m"
    using only_ok [OF s f(2) m(1)] m(2) by (auto simp: written_def)
  have cm: "content m = spliced (unat offset) (take (nat count) buf) (content n)" using m(2) c by (simp add: written_def)
  have l: "length (take (nat count) buf) = nat count" using c by simp
  have d: "take (nat count) (drop (unat offset) (content m)) = take (nat count) buf"
    using spliced_written [of "take (nat count) buf" "unat offset" "content n"] l cm by simp
  have r: "readable fl m" using f(3) m(2) by (simp add: readable_def written_def)
  have ft: "files t f = Some fl" using f(1) t(2) by simp
  have "\<exists>a u. fs_read_mem f offset buf' count t = Some (Inr (a, u)) \<and> u = t \<and> a = (count, blit buf' 0 (take (nat count) buf))"
    by (rule total_result [OF total_ops(11)], rule wlp_mono [OF read_rule [OF t(1) ft t(3), of count buf' offset "\<lambda>_. False"]])
      (use b r d l c in auto)
  then show ?thesis by (auto simp: fs_mem_ops_def)
qed

theorem fs_write_read_witness:
  "\<exists>s0 s t. fs_mem_init (fs_mem_zero sample_host 12) = Some (Inr ((), s0)) \<and> fs_trace sample_ops op_ok sample_calls s0 = Some s
    \<and> fs_write sample_ops 5 2 [1, 2, 3] 3 s = Some (Inr (3, t))
    \<and> fs_read sample_ops 5 2 [0, 0, 0, 9] 3 t = Some (Inr ((3, [1, 2, 3, 9]), t))"
proof -
  obtain s0 s t where s: "fs_mem_init (fs_mem_zero sample_host 12) = Some (Inr ((), s0))" "fs_trace sample_ops op_ok sample_calls s0 = Some s"
    "\<exists>fl n. files s 5 = Some fl \<and> f_inode fl = 6 \<and> inodes s 6 = Some n \<and> readable fl n" "fs_write sample_ops 5 2 [1, 2, 3] 3 s = Some (Inr (3, t))"
    by (rule sample_file_write)
  then obtain fl n where fl: "files s 5 = Some fl" "inodes s (f_inode fl) = Some n" "readable fl n" by auto
  have ok: "op_ok s (Write 5 2 [1, 2, 3] 3)" using fl by (simp add: held_def)
  show ?thesis using s(1,2,4) fs_write_read [OF s(1) sample_reach [OF s(2)] ok fl, of t "[0, 0, 0, 9]"] by (auto simp: sample_ops_def blit_def)
qed


text \<open>
  A successful change of the size of a file keeps its first bytes, as many as fit, and fills what is added with zeroes;
  no other contents change; a failed one changes no contents.
\<close>

theorem fs_truncate_refines:
  assumes "fs_mem_init (fs_mem_zero h log2) = Some (Inr ((), s0))"
    and "fs_reach (fs_mem_ops lib cmd_write opaque) op_ok s0 s" and n: "inodes s p = Some n" and sz: "unat sz < 2 ^ 63"
    and t: "fs_truncate p sz s = Some (Inr (r, t))"
  shows "fs_contents t = (if r = 0 then (fs_contents s)(p \<mapsto> resized (unat sz) (content n)) else fs_contents s)"
proof -
  have s: "fs_ok s" using reach_good [OF assms(2) init_good [OF assms(1)]] by (simp add: fs_good_def)
  from wlp_D(1) [OF truncate_rule [OF s n sz] t] obtain m where m: "only_at s p m t" "truncated n sz r m" by blast
  have "fs_contents t = (fs_contents s)(p \<mapsto> content m)" using only_inode [OF m(1)] by (auto simp: fs_contents_def)
  moreover have "fs_contents s p = Some (content n)" using n by (simp add: fs_contents_def)
  ultimately show ?thesis using m(2) by (auto simp: truncated_def fun_upd_idem split: if_splits)
qed

lemma sample_truncate:
  obtains s0 s t n where "fs_mem_init (fs_mem_zero sample_host 12) = Some (Inr ((), s0))" "fs_trace sample_ops op_ok sample_calls s0 = Some s"
    "inodes s 6 = Some n" "content n = []" "fs_truncate 6 3 s = Some (Inr (0, t))"
  by (simp add: fs_eval sample_host_def sample_ops_def sample_calls_def sample_lib_def fs_mem_ops_def held_def c_name_def
    fs_truncate_def Let_def realloc_def lift_def poke_def in_array_def blit_def content_def)

theorem fs_truncate_refines_witness:
  "\<exists>s0 s t. fs_mem_init (fs_mem_zero sample_host 12) = Some (Inr ((), s0)) \<and> fs_trace sample_ops op_ok sample_calls s0 = Some s
    \<and> fs_truncate 6 3 s = Some (Inr (0, t)) \<and> fs_contents t 6 = Some [0, 0, 0]"
proof -
  obtain s0 s t n where s: "fs_mem_init (fs_mem_zero sample_host 12) = Some (Inr ((), s0))" "fs_trace sample_ops op_ok sample_calls s0 = Some s"
    "inodes s 6 = Some n" "content n = []" "fs_truncate 6 3 s = Some (Inr (0, t))" by (rule sample_truncate)
  have "fs_contents t = (fs_contents s)(6 \<mapsto> resized 3 [])" using fs_truncate_refines [OF s(1) sample_reach [OF s(2)] s(3) _ s(5)] s(4) by simp
  then show ?thesis using s by (auto simp: resized_def numeral_3_eq_3)
qed

section \<open>Calls outside the contract\<close>

lemma wlp_last:
  "(\<And>a t. wlp (k a) Q (\<lambda>_. True) t) \<Longrightarrow> wlp (bnd m k) Q (\<lambda>_. True) s"
  "(\<And>t. wlp m' Q (\<lambda>_. True) t) \<Longrightarrow> wlp (andthen m m') Q (\<lambda>_. True) s"
  by (simp_all add: wlp_bnd wlp_andthen wlp_triv)

lemma deleted_entry: "wlp (inode_dirent_delete_no_decref p d) (\<lambda>_ t. dirents t d = None) (\<lambda>_. True) s"
  unfolding inode_dirent_delete_no_decref_def by (intro wlp_last) (simp add: wlp_modify)

lemma load_run: "p \<noteq> 0 \<Longrightarrow> heap s p = Some a \<Longrightarrow> load heap p s = Some (Inr (a, s))"
  by (simp add: load_def)

lemma rename_onto_itself:
  assumes s: "fs_ok s" and f: "files s f = Some fl" "files s g = Some gl" "f_inode gl = f_inode fl"
    and e: "inode_search (f_inode fl) nm s = Some (Inr (de, s))" "dirents s de = Some d" "inodes s (de_inode d) = Some m" "itype m \<noteq> FT_DIR"
  shows "\<exists>x. fs_renameat_mem f nm g nm s = Some (Inl x) \<and> (x = UseAfterFree \<or> inode_dirent_delete_no_decref (f_inode fl) de s = Some (Inl x))"
proof -
  have p: "f \<noteq> 0" "g \<noteq> 0" "de \<noteq> 0" "de_inode d \<noteq> 0"
    using inv_file(1) [OF s] inv_dirent(1) [OF s] inv_node(1) [OF s] f e by blast+
  note l = load_run [OF p(1), of files s, OF f(1)] load_run [OF p(2), of files s, OF f(2)] load_run [OF p(3), of dirents s, OF e(2)]
    load_run [OF p(4), of inodes s, OF e(3)]
  have "total (inode_dirent_delete_no_decref (f_inode fl) de)" unfolding node_defs heap_defs by (intro total_intros)
  then have "inode_dirent_delete_no_decref (f_inode fl) de s \<noteq> None" by (auto simp: total_def returns_def)
  moreover have "load dirents de t = Some (Inl UseAfterFree)" if "inode_dirent_delete_no_decref (f_inode fl) de s = Some (Inr (u, t))" for u t
    using wlp_D(1) [OF deleted_entry that] p(3) by (simp add: load_def)
  ultimately show ?thesis using p(3) f(3) e(1,4)
    by (auto simp: fs_renameat_mem_def run_bnd l Let_def split: option.splits sum.splits)
qed

lemma wrapping_write:
  assumes s: "fs_ok s" and f: "files s f = Some fl" "inodes s (f_inode fl) = Some n"
    and w: "is_opened fl" "itype n = FT_REG" "open_flags fl AND P9_O_NOACCESS \<noteq> P9_O_RDONLY"
    and c: "0 < count" "count \<le> int (length buf)" "2 ^ 64 \<le> uint offset + count" "offset + word_of_int count \<le> rsize (reg n)"
  shows "fs_write_mem cmd_write f offset buf count s = Some (Inl OutOfBounds)"
proof -
  have p: "f \<noteq> 0" "f_inode fl \<noteq> 0" using inv_file(1) [OF s] inv_node(1) [OF s] f by blast+
  have r: "rstate (reg n) = REG_STATE_LOCAL" "\<not> is_fscmd (reg n)" "length (fb_data (fbuf (reg n))) < 2 ^ 64"
    using inv_node(2) [OF s f(2)] w(2) unsigned_less [of "allocated_size (fbuf (reg n))", where ?'a = nat] by (simp_all add: node_ok_def)
  have "take (nat count) buf \<noteq> []" "length (take (nat count) buf) = nat count" using c(1,2) by auto
  moreover have "\<not> in_array (fb_data (fbuf (reg n))) (uint offset) (nat count)" using c r(3) by (simp add: in_array_def)
  ultimately have "poke (fb_data (fbuf (reg n))) (uint offset) (take (nat count) buf) = Inl OutOfBounds" by (simp add: poke_def)
  then show ?thesis using p f w c(1,2,4) r(1,2)
    by (simp add: fs_write_mem_def run_bnd load_def Let_def heap_defs guard_def lift_def not_less [THEN iffD2] split: prod.splits)
qed

lemma sint_negative:
  fixes w :: u64
  assumes "2 ^ 63 \<le> unat w"
  shows "sint w < 0"
proof -
  have "unat w < 2 ^ 64" using unsigned_less [of w, where ?'a = nat] by simp
  then have "unat w div 2 ^ 63 = 1" using assms by (intro div_nat_eqI) simp_all
  then have "bit (unat w) 63" by (simp add: bit_iff_odd)
  then have "bit w 63" by (simp add: bit_simps)
  then show ?thesis using bit_last_iff [of w] by simp
qed

lemma oversized_truncate:
  assumes s: "fs_ok s" and n: "inodes s p = Some n" "itype n = FT_REG" and z: "2 ^ 63 + unat (rsize (reg n)) \<le> unat sz"
    and t: "fs_truncate p sz s = Some (Inr (r, t))"
  shows "r = 0 \<and> inodes t = (inodes s)(p \<mapsto> n\<lparr>reg := (reg n)\<lparr>rsize := sz\<rparr>\<rparr>) \<and> files t = files s"
proof -
  have p: "p \<noteq> 0" using inv_node(1) [OF s n(1)] .
  have r: "rstate (reg n) = REG_STATE_LOCAL" using inv_node(2) [OF s n(1)] n(2) by (simp add: node_ok_def)
  have u: "2 ^ 63 \<le> unat (sz - rsize (reg n))" using z by (simp add: unat_sub word_le_nat_alt)
  have d: "sint (sz - rsize (reg n)) < 0" by (rule sint_negative [OF u])
  have "unat (allocated_size (fbuf (reg n)) * 4 div 5) = unat (allocated_size (fbuf (reg n)) * 4) div 5" by (simp add: unat_div)
  then have a: "\<not> sz \<le> allocated_size (fbuf (reg n)) * 4 div 5"
    using z unsigned_less [of "allocated_size (fbuf (reg n)) * 4", where ?'a = nat] by (simp add: word_le_nat_alt)
  show ?thesis using t p n r d a
    by (auto simp: fs_truncate_def run_bnd load_def Let_def heap_defs guard_def cint64_def split: if_splits)
qed

lemma oversized_read:
  assumes s: "fs_ok s" and f: "files s f = Some fl" "inodes s (f_inode fl) = Some n"
    and w: "is_opened fl" "itype n = FT_REG" "open_flags fl AND P9_O_NOACCESS \<noteq> P9_O_WRONLY"
    and z: "2 ^ 63 + unat (rsize (reg n)) \<le> unat sz" "fs_setattr_mem f 8 mode uid gid sz a b c d s = Some (Inr (r, t))"
    and o: "0 < count" "count < 2147483648" "length (fb_data (fbuf (reg n))) < unat offset + nat count" "unat offset + nat count \<le> unat sz"
  shows "r = 0 \<and> fs_read_mem f offset buf count t = Some (Inl OutOfBounds)"
proof -
  have p: "f \<noteq> 0" "f_inode fl \<noteq> 0" using inv_file(1) [OF s] inv_node(1) [OF s] f by blast+
  have r: "\<not> is_fscmd (reg n)" using inv_node(2) [OF s f(2)] w(2) by (simp add: node_ok_def)
  obtain q where q: "fs_truncate (f_inode fl) sz s = Some (Inr (q, t))" "r = q"
    using z(2) p f by (auto simp: fs_setattr_mem_def run_bnd load_def Let_def split: option.splits sum.splits if_splits)
  note tr = oversized_truncate [OF s f(2) w(2) z(1) q(1)]
  have c: "\<not> sz \<le> offset" "\<not> sz - offset < word_of_int count" "unat (word_of_int count :: u64) = nat count"
  proof -
    have w: "word_of_int count = (of_nat (nat count) :: u64)" using o(1) by simp
    show u: "unat (word_of_int count :: u64) = nat count" unfolding w using o(2) by (simp add: unat_of_nat take_bit_nat_eq_self)
    have le: "offset \<le> sz" using o(4) by (simp add: word_le_nat_alt)
    show "\<not> sz \<le> offset" using o(1,4) by (simp add: word_le_nat_alt)
    show "\<not> sz - offset < word_of_int count" using o(4) unat_sub [OF le] by (simp add: word_less_nat_alt u)
  qed
  have "peek (fb_data (fbuf (reg n))) (uint offset) (nat count) = Inl OutOfBounds"
  proof -
    have "int (length (fb_data (fbuf (reg n)))) < int (unat offset) + count" using o(1,3) by linarith
    then show ?thesis using o(1) by (simp add: peek_def in_array_def)
  qed
  then show ?thesis using tr p f w r c q(2)
    by (simp add: fs_read_mem_def run_bnd load_def Let_def heap_defs lift_def)
qed

lemma entry_below_file:
  assumes s: "fs_ok s" and f: "files s f = Some fl" "inodes s (f_inode fl) = Some n" "itype n \<noteq> FT_DIR"
    and c: "- 9223372036854775808 \<le> inode_count s" "inode_count s < 9223372036854775807"
  shows "fs_symlink_mem f nm symgt gid s = Some (Inl AssertFail)"
proof -
  have p: "f \<noteq> 0" "f_inode fl \<noteq> 0" "f_inode fl \<noteq> next_ptr s" "next_ptr s \<noteq> 0"
    using inv_file(1) [OF s] inv_node(1) [OF s] inv_fresh [OF s, of "next_ptr s"] inv_next [OF s] f by auto
  show ?thesis using p f c
    by (simp add: fs_symlink_mem_def inode_search_def inode_new_def inode_dir_add_def run_bnd load_def heap_defs guard_def cint64_def split: prod.splits)
qed

lemma sample_misused:
  obtains s0 s fl fl5 n n1 t u where "fs_mem_init (fs_mem_zero sample_host 12) = Some (Inr ((), s0))" "fs_trace sample_ops op_ok sample_calls s0 = Some s"
    "files s 4 = Some fl" "f_inode fl = 1" "inodes s 1 = Some n1" "itype n1 = FT_DIR" "de_list n1 = [2, 3, 7]"
    "dirents s 7 = Some \<lparr>de_inode = 6, de_name = [0x61]\<rparr>"
    "dirents s 2 = Some \<lparr>de_inode = 1, de_name = DOT\<rparr>" "dirents s 3 = Some \<lparr>de_inode = 1, de_name = DOTDOT\<rparr>"
    "files s 5 = Some fl5" "f_inode fl5 = 6" "is_opened fl5" "open_flags fl5 = 2" "inodes s 6 = Some n" "itype n = FT_REG" "rsize (reg n) = 0"
    "fb_data (fbuf (reg n)) = []" "inode_count s = 2"
    "fs_setattr sample_ops 5 8 0 0 0 0x8000000000000000 0 0 0 0 s = Some (Inr (0, t))"
    "inode_dirent_delete_no_decref 1 7 s = Some (Inr ((), u))"
  by (simp add: fs_eval sample_host_def sample_ops_def sample_calls_def sample_lib_def fs_mem_ops_def held_def c_name_def
    fs_truncate_def Let_def realloc_def lift_def poke_def in_array_def blit_def)

text \<open>
  C24: Calls outside the contract of the interface, which a guest can make through the 9p device, leave memory or stop the
  program.  In every state reached by calls within the contract, for every handle: renaming an entry that is not a
  directory onto itself never returns, it follows the freed entry unless the removal of the entry already stops in an assertion or
  a counter; a write to a file whose end wraps around to at most the size of the file leaves the buffer; after a size was set that
  exceeds the old one by $2^{63}$ or more, a read beyond the old buffer leaves it; and adding a symbolic link below a handle that is
  no directory fails an assertion, as long as the number of inodes is an \<open>int64_t\<close>.
\<close>

theorem fs_calls_out_of_contract:
  assumes "fs_mem_init (fs_mem_zero h log2) = Some (Inr ((), s0))" and "fs_reach (fs_mem_ops lib cmd_write opaque) op_ok s0 s"
    and "files s f = Some fl" "inodes s (f_inode fl) = Some n"
  shows "(\<forall>name de d m. 0 \<in> set name \<and> inode_search (f_inode fl) (cstr name) s = Some (Inr (de, s)) \<and> dirents s de = Some d
        \<and> inodes s (de_inode d) = Some m \<and> itype m \<noteq> FT_DIR \<longrightarrow>
        (\<exists>x. fs_renameat (fs_mem_ops lib cmd_write opaque) f name f name s = Some (Inl x)
           \<and> (x = UseAfterFree \<or> inode_dirent_delete_no_decref (f_inode fl) de s = Some (Inl x))))
    \<and> (\<forall>offset buf count. is_opened fl \<and> itype n = FT_REG \<and> open_flags fl AND P9_O_NOACCESS \<noteq> P9_O_RDONLY
        \<and> 0 < count \<and> count \<le> int (length buf) \<and> 2 ^ 64 \<le> uint offset + count \<and> offset + word_of_int count \<le> rsize (reg n) \<longrightarrow>
        fs_write (fs_mem_ops lib cmd_write opaque) f offset buf count s = Some (Inl OutOfBounds))
    \<and> (\<forall>sz t r offset buf count. is_opened fl \<and> itype n = FT_REG \<and> open_flags fl AND P9_O_NOACCESS \<noteq> P9_O_WRONLY
        \<and> 2 ^ 63 + unat (rsize (reg n)) \<le> unat sz \<and> fs_setattr (fs_mem_ops lib cmd_write opaque) f 8 0 0 0 sz 0 0 0 0 s = Some (Inr (r, t))
        \<and> 0 < count \<and> count < 2147483648 \<and> length (fb_data (fbuf (reg n))) < unat offset + nat count \<and> unat offset + nat count \<le> unat sz \<longrightarrow>
        r = 0 \<and> fs_read (fs_mem_ops lib cmd_write opaque) f offset buf count t = Some (Inl OutOfBounds))
    \<and> (\<forall>name symgt gid. itype n \<noteq> FT_DIR \<and> 0 \<in> set name \<and> 0 \<in> set symgt
        \<and> - 9223372036854775808 \<le> inode_count s \<and> inode_count s < 9223372036854775807 \<longrightarrow>
        fs_symlink (fs_mem_ops lib cmd_write opaque) f name symgt gid s = Some (Inl AssertFail))"
    (is "?rename \<and> ?wrap \<and> ?size \<and> ?entry")
proof (intro conjI)
  have s: "fs_ok s" using reach_good [OF assms(2) init_good [OF assms(1)]] by (simp add: fs_good_def)
  show ?rename using rename_onto_itself [OF s assms(3,3) refl] by (simp add: fs_mem_ops_def with_str_def)
  show ?wrap using wrapping_write [OF s assms(3,4)] by (simp add: fs_mem_ops_def)
  show ?size using oversized_read [OF s assms(3,4)] by (simp add: fs_mem_ops_def) blast
  show ?entry using entry_below_file [OF s assms(3,4)] by (simp add: fs_mem_ops_def with_str_def)
qed

theorem fs_calls_out_of_contract_witness:
  "\<exists>s0 s t. fs_mem_init (fs_mem_zero sample_host 12) = Some (Inr ((), s0)) \<and> fs_trace sample_ops op_ok sample_calls s0 = Some s
    \<and> fs_renameat sample_ops 4 [0x61, 0] 4 [0x61, 0] s = Some (Inl UseAfterFree)
    \<and> fs_write sample_ops 5 0xffffffffffffffff [1] 1 s = Some (Inl OutOfBounds)
    \<and> fs_setattr sample_ops 5 8 0 0 0 0x8000000000000000 0 0 0 0 s = Some (Inr (0, t)) \<and> fs_read sample_ops 5 0 [0] 1 t = Some (Inl OutOfBounds)
    \<and> fs_symlink sample_ops 5 [0x62, 0] [0x63, 0] 0 s = Some (Inl AssertFail)"
proof -
  obtain s0 s fl fl5 n n1 t u where s: "fs_mem_init (fs_mem_zero sample_host 12) = Some (Inr ((), s0))" "fs_trace sample_ops op_ok sample_calls s0 = Some s"
    and f4: "files s 4 = Some fl" "f_inode fl = 1" "inodes s 1 = Some n1" "itype n1 = FT_DIR" "de_list n1 = [2, 3, 7]"
    and e: "dirents s 7 = Some \<lparr>de_inode = 6, de_name = [0x61]\<rparr>"
      "dirents s 2 = Some \<lparr>de_inode = 1, de_name = DOT\<rparr>" "dirents s 3 = Some \<lparr>de_inode = 1, de_name = DOTDOT\<rparr>"
    and f5: "files s 5 = Some fl5" "f_inode fl5 = 6" "is_opened fl5" "open_flags fl5 = 2" "inodes s 6 = Some n" "itype n = FT_REG" "rsize (reg n) = 0"
      "fb_data (fbuf (reg n)) = []" "inode_count s = 2"
    and t: "fs_setattr sample_ops 5 8 0 0 0 0x8000000000000000 0 0 0 0 s = Some (Inr (0, t))"
    and u: "inode_dirent_delete_no_decref 1 7 s = Some (Inr ((), u))"
    by (rule sample_misused)
  note r = sample_reach [OF s(2)]
  have "inode_search 1 (cstr [0x61, 0]) s = Some (Inr (7, s))"
    using f4 e by (simp add: inode_search_def run_bnd load_def cstr_def)
  then have "fs_renameat sample_ops 4 [0x61, 0] 4 [0x61, 0] s = Some (Inl UseAfterFree)"
    using fs_calls_out_of_contract [OF s(1) r f4(1), unfolded f4(2), OF f4(3), folded sample_ops_def, THEN conjunct1, rule_format,
      of "[0x61, 0]" 7 "\<lparr>de_inode = 6, de_name = [0x61]\<rparr>" n] e(1) f5(5,6) u by auto
  moreover note five = fs_calls_out_of_contract [OF s(1) r f5(1), unfolded f5(2), OF f5(5), folded sample_ops_def]
  have "fs_write sample_ops 5 0xffffffffffffffff [1] 1 s = Some (Inl OutOfBounds)"
    using five [THEN conjunct2, THEN conjunct1] f5 by simp
  moreover have "fs_read sample_ops 5 0 [0] 1 t = Some (Inl OutOfBounds)"
    using five [THEN conjunct2, THEN conjunct2, THEN conjunct1, rule_format, of "0x8000000000000000" 0 t 1 0 "[0]"] f5 t by simp
  moreover have "fs_symlink sample_ops 5 [0x62, 0] [0x63, 0] 0 s = Some (Inl AssertFail)"
    using five [THEN conjunct2, THEN conjunct2, THEN conjunct2] f5 by simp
  ultimately show ?thesis using s t by blast
qed

end
