(* ===== verification/Fs_Cmd.thy ===== *)
theory Fs_Cmd
  imports Fs_Mem Pbkdf2
begin

text \<open>
  Model of downloads into a file (\<open>fs_wget_file2\<close> and its callbacks in \<open>src/src/fs_wget.c\<close>) and of the command
  file of \<open>src/src/fs_net.c\<close> (\<open>fs_cmd_*\<close>): a file whose writes are commands, and whose reads give the reply to
  the last one.  The parsers of \<open>fs_utils.h\<close>, which is outside the repository, are the parameter \<open>fs_utils\<close>.  Keys are derived by the built-in
  function; \<open>fs_is_net\<close> holds for this file system.
\<close>

section \<open>What is outside the repository\<close>

text \<open>
  A parser gets the text after the pointer and returns what it read, or \<open>None\<close> for a negative result, and the text
  after the moved pointer.  \<open>FS_KEY_LEN\<close>, the file names and the prefix tests come from the same header.
  \<open>sha_junk\<close>: what a fresh SHA-256 context holds.
\<close>

record ('k, 'c) fs_utils =
  parse_fname :: "nat \<Rightarrow> bytes \<Rightarrow> bytes option \<times> bytes"
  parse_uint32 :: "bytes \<Rightarrow> u32 option \<times> bytes"
  parse_uint32_base :: "bytes \<Rightarrow> nat \<Rightarrow> u32 option \<times> bytes"
  parse_uint64 :: "bytes \<Rightarrow> u64 option \<times> bytes"
  parse_file_id :: "bytes \<Rightarrow> u64 option \<times> bytes"
  parse_time :: "bytes \<Rightarrow> (u32 \<times> u32) option \<times> bytes"
  decode_hex :: "bytes \<Rightarrow> nat \<Rightarrow> bytes option"
  skip_line :: "bytes \<Rightarrow> bytes"
  skip_header :: "bytes \<Rightarrow> bytes option"
  parse_tag_version :: "bytes \<Rightarrow> int"
  parse_tag_file_id :: "bytes \<Rightarrow> bytes \<Rightarrow> u64 option"
  parse_tag_uint64 :: "bytes \<Rightarrow> bytes \<Rightarrow> u64 option"
  compose_url :: "bytes \<Rightarrow> bytes \<Rightarrow> bytes"
  isspace_nolf :: "u8 \<Rightarrow> bool"
  HEAD_FILENAME :: bytes
  ROOT_FILENAME :: bytes
  FS_KEY_LEN :: nat
  AES_set_decrypt_key :: "bytes \<Rightarrow> 'k"
  u_net :: "'k net_lib"
  u_sha :: "'c sha_lib"
  sha_junk :: 'c

text \<open>The test \<open>if (parse(...) < 0) goto fail\<close> and what follows it.\<close>

definition parsed :: "'a option \<times> bytes \<Rightarrow> 'b \<Rightarrow> ('a \<Rightarrow> bytes \<Rightarrow> 'b) \<Rightarrow> 'b" where
  "parsed r bad ok = (case r of (None, _) \<Rightarrow> bad | (Some a, p) \<Rightarrow> ok a p)"

text \<open>A string literal.\<close>

definition ascii :: "string \<Rightarrow> bytes" where
  "ascii s = map of_char s"

section \<open>Downloads into a file\<close>

definition upd_wget_file :: "ptr \<Rightarrow> ('k fswgetfilestate \<Rightarrow> 'k fswgetfilestate) \<Rightarrow> ('k, unit) fs_vm" where
  "upd_wget_file w g = bnd (load wget_files w) (\<lambda>s. modify (\<lambda>t. t\<lparr>wget_files := (wget_files t)(w \<mapsto> g s)\<rparr>))"

definition fs_wget_file_write_cb ::
  "(ptr, 'k fsdevicemem) fs_ops \<Rightarrow> ptr \<Rightarrow> bytes \<Rightarrow> ('k, int) fs_vm" where
  "fs_wget_file_write_cb fops w data = bnd (load wget_files w) (\<lambda>s.
     bnd (fs_write fops (wf_f s) (word_of_int (wf_pos s)) data (int_of_size (length data))) (\<lambda>r.
     if r < 0 then ret r
     else bnd (cint64 (wf_pos s + r)) (\<lambda>pos. andthen (upd_wget_file w (\<lambda>s. s\<lparr>wf_pos := pos\<rparr>)) (ret r))))"

text \<open>A call of the decryption of a download: its state is kept in the \<open>FSWGetFileState\<close>.\<close>

definition run_wget_decrypt :: "ptr \<Rightarrow> ('k \<Rightarrow> ('k fsdevicemem, int) dec_vm) \<Rightarrow> ('k, int) fs_vm" where
  "run_wget_decrypt w m = bnd (load wget_files w) (\<lambda>s. case wf_dec s of None \<Rightarrow> fault NullDeref
     | Some (d, key) \<Rightarrow> (\<lambda>t. case m key (d, t) of None \<Rightarrow> None | Some (Inl f) \<Rightarrow> Some (Inl f)
         | Some (Inr (r, (d', t'))) \<Rightarrow> andthen (upd_wget_file w (\<lambda>s. s\<lparr>wf_dec := Some (d', key)\<rparr>)) (ret r) t'))"

text \<open>The end of a download: the callback, then the state is freed.\<close>

definition wget_file_done ::
  "(wget_file_cb \<Rightarrow> ptr \<Rightarrow> int \<Rightarrow> ('k, unit) fs_vm) \<Rightarrow> ptr \<Rightarrow> int \<Rightarrow> ('k, unit) fs_vm" where
  "wget_file_done cb w ret_size = bnd (load wget_files w) (\<lambda>s.
     andthen (cb (wf_cb s) (wf_f s) ret_size) (modify (\<lambda>t. t\<lparr>wget_files := (wget_files t)(w := None)\<rparr>)))"

definition fs_wget_file_on_load ::
  "(ptr, 'k fsdevicemem) fs_ops \<Rightarrow> 'k aes_lib \<Rightarrow> (wget_file_cb \<Rightarrow> ptr \<Rightarrow> int \<Rightarrow> ('k, unit) fs_vm)
    \<Rightarrow> ptr \<Rightarrow> int \<Rightarrow> bytes \<Rightarrow> ('k, unit) fs_vm" where
  "fs_wget_file_on_load fops aes cb w err data = bnd (load wget_files w) (\<lambda>s.
     if err < 0 then wget_file_done cb w err
     else bnd (case wf_dec s of
         Some _ \<Rightarrow> bnd (run_wget_decrypt w (\<lambda>key. decrypt_file aes key (fs_wget_file_write_cb fops w) data)) (\<lambda>r.
           andthen (if 0 \<le> r \<and> err = 0
             then andthen (run_wget_decrypt w (\<lambda>key. decrypt_file_flush aes key (fs_wget_file_write_cb fops w))) (ret ())
             else ret ()) (ret r))
       | None \<Rightarrow> fs_wget_file_write_cb fops w data) (\<lambda>r.
     if r < 0 then wget_file_done cb w r
     else if err = 0 then bnd (load wget_files w) (\<lambda>s. wget_file_done cb w (wf_pos s))
     else ret ()))"

text \<open>The data the transport asks for, to send it: the number of bytes and the buffer.\<close>

definition fs_wget_file_read_cb ::
  "(ptr, 'k fsdevicemem) fs_ops \<Rightarrow> ptr \<Rightarrow> bytes \<Rightarrow> ('k, int \<times> bytes) fs_vm" where
  "fs_wget_file_read_cb fops w data = bnd (load wget_files w) (\<lambda>s.
     if wf_posted_file s = 0 then ret (0, data)
     else bnd (fs_read fops (wf_posted_file s) (word_of_int (wf_read_pos s)) data (int_of_size (length data))) (\<lambda>(r, data).
       if r < 0 then ret (0, data)
       else bnd (cint64 (wf_read_pos s + r)) (\<lambda>pos. andthen (upd_wget_file w (\<lambda>s. s\<lparr>wf_read_pos := pos\<rparr>)) (ret (r, data)))))"

definition fs_wget_file2 ::
  "ptr \<Rightarrow> bytes \<Rightarrow> bytes option \<Rightarrow> bytes option \<Rightarrow> ptr \<Rightarrow> u64 \<Rightarrow> wget_file_cb \<Rightarrow> 'k option \<Rightarrow> ('k, unit) fs_vm" where
  "fs_wget_file2 f url user password posted_file post_data_len cb aes_state = bnd fresh (\<lambda>w.
     andthen (modify (\<lambda>s. s\<lparr>wget_files := (wget_files s)(w \<mapsto> \<lparr>wf_f = f, wf_pos = 0, wf_cb = cb, wf_posted_file = posted_file,
       wf_read_pos = 0, wf_dec = map_option (\<lambda>key. (decrypt_file_init, key)) aes_state\<rparr>)\<rparr>))
     (andthen (fs_wget2 url user password post_data_len (Wget_File w)) (ret ())))"

section \<open>Commands\<close>

abbreviation P9_O_RDWR :: u32 where "P9_O_RDWR \<equiv> 2"
abbreviation FS_CMD_REPLY_LEN_MAX :: nat where "FS_CMD_REPLY_LEN_MAX \<equiv> 64"

definition parse_hex_buf :: "('k, 'c) fs_utils \<Rightarrow> nat \<Rightarrow> bytes \<Rightarrow> bytes option \<times> bytes" where
  "parse_hex_buf u buf_size p = (case parse_fname u 1024 p of (None, p) \<Rightarrow> (None, p)
     | (Some buf1, p) \<Rightarrow> let len = length buf1 in
         if odd len then (None, p)
         else if buf_size < len div 2 then (None, p)
         else (decode_hex u buf1 (len div 2), p))"

text \<open>An empty string stands for no user or password.\<close>

definition nonempty :: "bytes \<Rightarrow> bytes option" where
  "nonempty s = (if s = [] then None else Some s)"

text \<open>The functions of the device that a command calls to find a file; none of them writes.\<close>

definition cmd_ops :: "('k, 'c) fs_utils \<Rightarrow> (ptr, 'k fsdevicemem) fs_ops" where
  "cmd_ops u = fs_mem_ops (u_net u) (\<lambda>_ _ _. fault Abort) 0"

definition attach_root :: "u32 \<Rightarrow> ('k, ptr) fs_vm" where
  "attach_root uid = bnd (fs_attach_mem uid) (\<lambda>(r, root_fd, _). andthen (guard AssertFail (r = 0)) (ret root_fd))"

definition cmd_xhr_fail1 :: "ptr \<Rightarrow> ptr \<Rightarrow> ptr \<Rightarrow> int \<Rightarrow> ('k, int) fs_vm" where
  "cmd_xhr_fail1 fd post_fd root_fd err =
     andthen (if fd \<noteq> 0 then fs_delete_mem fd else ret ())
     (andthen (if post_fd \<noteq> 0 then fs_delete_mem post_fd else ret ())
     (andthen (fs_delete_mem root_fd) (ret err)))"

definition cmd_xhr_start ::
  "ptr \<Rightarrow> ptr \<Rightarrow> ptr \<Rightarrow> ptr \<Rightarrow> u64 \<Rightarrow> bytes \<Rightarrow> bytes option \<Rightarrow> bytes option \<Rightarrow> 'k option \<Rightarrow> ('k, int) fs_vm" where
  "cmd_xhr_start f root_fd fd post_fd post_data_len url user password key = bnd fresh (\<lambda>s. bnd fresh (\<lambda>req.
     andthen (modify (\<lambda>t. t\<lparr>cmd_xhrs := (cmd_xhrs t)(s \<mapsto> \<lparr>cx_req_fd = f, cx_root_fd = root_fd, cx_fd = fd, cx_post_fd = post_fd,
          cx_aes_state = key\<rparr>),
        requests := (requests t)(req \<mapsto> \<lparr>req_type = FS_CMD_XHR, req_xhr_state = s, reply_len = 0,
          reply_buf = replicate FS_CMD_REPLY_LEN_MAX 0\<rparr>)\<rparr>))
     (andthen (upd_file f (\<lambda>fl. fl\<lparr>f_req := req\<rparr>))
     (andthen (fs_wget_file2 fd url user password post_fd post_data_len (Cmd_Xhr_On_Load s) key) (ret 0)))))"

text \<open>The file to send: its handle and size, or an error with the handle to delete.\<close>

definition cmd_xhr_post :: "('k, 'c) fs_utils \<Rightarrow> ptr \<Rightarrow> bytes \<Rightarrow> ('k, (ptr \<times> int) + (ptr \<times> u64)) fs_vm" where
  "cmd_xhr_post u root_fd post_filename = (if post_filename = [] then ret (Inr (0, 0))
     else bnd (fs_walk_path (cmd_ops u) root_fd post_filename) (\<lambda>r. case r of None \<Rightarrow> ret (Inl (0, - P9_ENOENT))
       | Some post_fd \<Rightarrow> bnd (fs_open_mem (u_net u) post_fd P9_O_RDONLY None) (\<lambda>(err, _).
           if err < 0 then ret (Inl (post_fd, err))
           else bnd (file_of post_fd) (\<lambda>fl. bnd (inode_of (f_inode fl)) (\<lambda>n.
             andthen (guard AssertFail (itype n = FT_REG \<and> rstate (reg n) = REG_STATE_LOCAL))
             (ret (Inr (post_fd, rsize (reg n)))))))))"

definition cmd_xhr_open ::
  "('k, 'c) fs_utils \<Rightarrow> ptr \<Rightarrow> bytes \<Rightarrow> bytes option \<Rightarrow> bytes option \<Rightarrow> bytes \<Rightarrow> bytes \<Rightarrow> 'k option \<Rightarrow> u32 \<Rightarrow> u32 \<Rightarrow> ('k, int) fs_vm" where
  "cmd_xhr_open u f url user password post_filename filename key uid gid = bnd (attach_root uid) (\<lambda>root_fd.
     bnd (fs_walk_path1 (cmd_ops u) root_fd filename True) (\<lambda>r. case r of
       (Some fd, Some name) \<Rightarrow>
         andthen (fs_unlinkat_mem fd name)
         (bnd (fs_create_mem fd name (P9_O_RDWR OR P9_O_TRUNC) 0x180 gid) (\<lambda>(err, _).
          if err < 0 then cmd_xhr_fail1 fd 0 root_fd err
          else bnd (cmd_xhr_post u root_fd post_filename) (\<lambda>r. case r of
              Inl (post_fd, err) \<Rightarrow> cmd_xhr_fail1 fd post_fd root_fd err
            | Inr (post_fd, len) \<Rightarrow> cmd_xhr_start f root_fd fd post_fd len url user password key)))
     | _ \<Rightarrow> cmd_xhr_fail1 0 0 root_fd (- P9_ENOENT)))"

definition fs_cmd_xhr :: "('k, 'c) fs_utils \<Rightarrow> ptr \<Rightarrow> bytes \<Rightarrow> u32 \<Rightarrow> u32 \<Rightarrow> ('k, int) fs_vm" where
  "fs_cmd_xhr u f p uid gid = bnd (file_of f) (\<lambda>fl. let bad = ret (- P9_EIO) in if f_req fl \<noteq> 0 then bad
     else parsed (parse_fname u 1024 p) bad (\<lambda>url p.
     parsed (parse_fname u 128 p) bad (\<lambda>user p.
     parsed (parse_fname u 128 p) bad (\<lambda>password p.
     parsed (parse_fname u 1024 p) bad (\<lambda>post_filename p.
     parsed (parse_fname u 1024 p) bad (\<lambda>filename p.
     parsed (parse_hex_buf u (FS_KEY_LEN u) p) bad (\<lambda>aes_key p.
     parsed (parse_uint32 u p) bad (\<lambda>flags p.
     if length aes_key \<noteq> 0 \<and> length aes_key \<noteq> FS_KEY_LEN u then bad
     else cmd_xhr_open u f url (nonempty user) (nonempty password) post_filename filename
       (if aes_key = [] then None else Some (AES_set_decrypt_key u aes_key)) uid gid))))))))"

definition fs_cmd_xhr_on_load :: "ptr \<Rightarrow> int \<Rightarrow> ('k, unit) fs_vm" where
  "fs_cmd_xhr_on_load x sz = bnd (load cmd_xhrs x) (\<lambda>s.
     andthen (if cx_fd s \<noteq> 0 then fs_delete_mem (cx_fd s) else ret ())
     (andthen (if cx_post_fd s \<noteq> 0 then fs_delete_mem (cx_post_fd s) else ret ())
     (andthen (fs_delete_mem (cx_root_fd s))
     (bnd (load cmd_xhrs x) (\<lambda>s.
      andthen (if cx_req_fd s \<noteq> 0 then bnd (file_of (cx_req_fd s)) (\<lambda>fl. bnd (load requests (f_req fl)) (\<lambda>req.
          bnd (lift (poke (reply_buf req) 0 (put_le32 (if sz < 0 then word_of_int sz else 0)))) (\<lambda>b.
          modify (\<lambda>t. t\<lparr>requests := (requests t)(f_req fl \<mapsto> req\<lparr>reply_buf := b, reply_len := 4, req_xhr_state := 0\<rparr>)\<rparr>))))
        else ret ())
      (modify (\<lambda>t. t\<lparr>cmd_xhrs := (cmd_xhrs t)(x := None)\<rparr>)))))))"

definition fs_cmd_set_base_url :: "('k, 'c) fs_utils \<Rightarrow> bytes \<Rightarrow> ('k, int) fs_vm" where
  "fs_cmd_set_base_url u p = (let bad = ret (- P9_EINVAL) in
     parsed (parse_fname u 1024 p) bad (\<lambda>ident p.
     parsed (parse_fname u 1024 p) bad (\<lambda>url p.
     parsed (parse_fname u 128 p) bad (\<lambda>user p.
     parsed (parse_fname u 128 p) bad (\<lambda>password p.
     parsed (parse_hex_buf u (FS_KEY_LEN u) p) bad (\<lambda>aes_key p.
     if length aes_key \<noteq> 0 \<and> length aes_key \<noteq> FS_KEY_LEN u then bad
     else andthen (fs_net_set_base_url ident url (nonempty user) (nonempty password)
         (if aes_key = [] then None else Some (AES_set_decrypt_key u aes_key)))
       (ret 0)))))))"

definition fs_cmd_reset_base_url :: "('k, 'c) fs_utils \<Rightarrow> bytes \<Rightarrow> ('k, int) fs_vm" where
  "fs_cmd_reset_base_url u p = parsed (parse_fname u 1024 p) (ret (- P9_EINVAL)) (\<lambda>ident p.
     andthen (fs_net_reset_base_url ident) (ret 0))"

definition fs_cmd_set_url :: "('k, 'c) fs_utils \<Rightarrow> bytes \<Rightarrow> ('k, int) fs_vm" where
  "fs_cmd_set_url u p = (let bad = ret (- P9_EINVAL) in
     parsed (parse_fname u 1024 p) bad (\<lambda>filename p.
     parsed (parse_fname u 1024 p) bad (\<lambda>ident p.
     parsed (parse_file_id u p) bad (\<lambda>file_id p.
     parsed (parse_uint64 u p) bad (\<lambda>sz p.
     bnd (inode_search_path filename) (\<lambda>n. if n = 0 then ret (- P9_ENOENT) else fs_net_set_url n ident file_id sz))))))"

text \<open>Outside a browser \<open>fs_export_file\<close> does nothing with the copy of the contents.\<close>

definition fs_cmd_export_file :: "('k, 'c) fs_utils \<Rightarrow> bytes \<Rightarrow> ('k, int) fs_vm" where
  "fs_cmd_export_file u p = parsed (parse_fname u 1024 p) (ret (- P9_EIO)) (\<lambda>filename p.
     bnd (inode_search_path filename) (\<lambda>n. if n = 0 then ret (- P9_ENOENT)
     else bnd (inode_of n) (\<lambda>i.
       if itype i \<noteq> FT_REG \<or> rstate (reg i) \<noteq> REG_STATE_LOCAL \<and> rstate (reg i) \<noteq> REG_STATE_LOADED then ret (- P9_EIO)
       else andthen (file_buffer_read n 0 (rsize (reg i))) (ret 0))))"

text \<open>The local variables of \<open>pbkdf2_hmac_sha256\<close>, with the reply buffer as the output.\<close>

definition pbkdf2_frame :: "('k, 'c) fs_utils \<Rightarrow> (nat \<Rightarrow> u8) \<Rightarrow> 'c pbkdf2_vars" where
  "pbkdf2_frame u junk = \<lparr>sha_ctx = sha_junk u, hmac_K = malloc junk 96, pb_F = malloc junk 32, pb_U = malloc junk 36,
     pb_out = replicate FS_CMD_REPLY_LEN_MAX 0\<rparr>"

definition run_pbkdf2 :: "('k, 'c) fs_utils \<Rightarrow> bytes \<Rightarrow> int \<Rightarrow> bytes \<Rightarrow> int \<Rightarrow> u32 \<Rightarrow> u32 \<Rightarrow> ('k, bytes) fs_vm" where
  "run_pbkdf2 u pwd pwd_len salt salt_len iter key_len = bnd (gets (\<lambda>s. host_junk (fs_host s) (host_calls s))) (\<lambda>junk s.
     case pbkdf2_hmac_sha256 (u_sha u) pwd pwd_len salt salt_len (int_of_u32 iter) (int_of_u32 key_len) (pbkdf2_frame u junk) of
       None \<Rightarrow> None | Some (Inl f) \<Rightarrow> Some (Inl f) | Some (Inr (_, v)) \<Rightarrow> Some (Inr (pb_out v, s)))"

text \<open>The test after the salt looks at \<open>pwd_len\<close> again: a salt that cannot be read has the length -1.\<close>

definition fs_cmd_pbkdf2 :: "('k, 'c) fs_utils \<Rightarrow> ptr \<Rightarrow> bytes \<Rightarrow> ('k, int) fs_vm" where
  "fs_cmd_pbkdf2 u f p = bnd (file_of f) (\<lambda>fl. if f_req fl \<noteq> 0 then ret (- P9_EIO)
     else let bad = ret (- P9_EINVAL) in
     parsed (parse_hex_buf u 1024 p) bad (\<lambda>pwd p.
     let (salt, p) = parse_hex_buf u 128 p;
         salt_len = (case salt of None \<Rightarrow> - 1 | Some b \<Rightarrow> int (length b)) in
     parsed (parse_uint32 u p) bad (\<lambda>iter p.
     parsed (parse_uint32 u p) bad (\<lambda>key_len p.
     if of_nat FS_CMD_REPLY_LEN_MAX < key_len \<or> key_len = 0 then bad
     else bnd fresh (\<lambda>req.
       bnd (run_pbkdf2 u pwd (int (length pwd)) (case salt of None \<Rightarrow> [] | Some b \<Rightarrow> b) salt_len iter key_len) (\<lambda>out.
       andthen (modify (\<lambda>t. t\<lparr>requests := (requests t)(req \<mapsto> \<lparr>req_type = FS_CMD_PBKDF2, req_xhr_state = 0,
         reply_len = int_of_u32 key_len, reply_buf = out\<rparr>)\<rparr>))
       (andthen (upd_file f (\<lambda>fl. fl\<lparr>f_req := req\<rparr>)) (ret 0))))))))"

definition fs_cmd_set_import_dir :: "('k, 'c) fs_utils \<Rightarrow> bytes \<Rightarrow> ('k, int) fs_vm" where
  "fs_cmd_set_import_dir u p = parsed (parse_fname u 1024 p) (ret (- P9_EINVAL)) (\<lambda>filename p.
     andthen (modify (\<lambda>s. s\<lparr>import_dir := filename\<rparr>)) (ret 0))"

definition fs_cmd_write :: "('k, 'c) fs_utils \<Rightarrow> ptr \<Rightarrow> bytes \<Rightarrow> int \<Rightarrow> ('k, int) fs_vm" where
  "fs_cmd_write u f buf buf_len = andthen (guard OutOfBounds (0 \<le> buf_len \<and> buf_len \<le> int (length buf)))
     (bnd (parsed (parse_fname u 64 (cstr (take (nat buf_len) buf))) (ret (- P9_EIO)) (\<lambda>cmd p.
        if cmd = ascii ''xhr'' then bnd (file_of f) (\<lambda>fl. fs_cmd_xhr u f p (f_uid fl) 0)
        else if cmd = ascii ''set_base_url'' then fs_cmd_set_base_url u p
        else if cmd = ascii ''reset_base_url'' then fs_cmd_reset_base_url u p
        else if cmd = ascii ''set_url'' then fs_cmd_set_url u p
        else if cmd = ascii ''export_file'' then fs_cmd_export_file u p
        else if cmd = ascii ''pbkdf2'' then fs_cmd_pbkdf2 u f p
        else if cmd = ascii ''set_import_dir'' then fs_cmd_set_import_dir u p
        else ret (- P9_EIO))) (\<lambda>err.
      if err = 0 then ret buf_len else ret err))"

text \<open>The file system with its command file.\<close>

definition fs_net_ops :: "('k, 'c) fs_utils \<Rightarrow> nat \<Rightarrow> (ptr, 'k fsdevicemem) fs_ops" where
  "fs_net_ops u opaque = fs_mem_ops (u_net u) (fs_cmd_write u) opaque"

definition fs_net_set_pwd :: "('k, 'c) fs_utils \<Rightarrow> bytes \<Rightarrow> ('k, unit) fs_vm" where
  "fs_net_set_pwd u pwd = bnd (attach_root 0) (\<lambda>root_fd.
     bnd (fs_create_mem root_fd (ascii ''.fscmd_pwd'') (P9_O_RDWR OR P9_O_TRUNC) 0x180 0) (\<lambda>(r, _).
     andthen (guard AssertFail (r = 0))
     (andthen (fs_write_mem (fs_cmd_write u) root_fd 0 pwd (int_of_size (length pwd)))
     (fs_delete_mem root_fd))))"

end
