(* ===== verification/Fs_Start.thy ===== *)
theory Fs_Start
  imports Fs_Cmd
begin

text \<open>
  Model of the start of a network file system in \<open>src/src/fs_net.c\<close>: the parsers of the file list
  (\<open>filelist_load\<close>) and of the preload lists (\<open>preload_parse\<close>), and the chain of downloads
  \<open>fs_net_init\<close>, \<open>head_loaded\<close>, \<open>filelist_loaded\<close>, \<open>kernel_load_cb\<close>.  \<open>exit\<close> is the fault \<open>Abort\<close>.
  A completion of \<open>fs_open\<close> whose opaque argument is an \<open>FSNetInitState\<close> is a call of \<open>kernel_load_cb\<close>.
\<close>

section \<open>File lists\<close>

abbreviation HASH :: u8 where "HASH \<equiv> 0x23"
abbreviation LF :: u8 where "LF \<equiv> 0x0a"
abbreviation FULL_STOP :: u8 where "FULL_STOP \<equiv> 0x2e"

text \<open>What follows the owner in a line: device numbers or the size; a directory gets its first entries.\<close>

definition filelist_type :: "('k, 'c) fs_utils \<Rightarrow> ptr \<Rightarrow> ptr \<Rightarrow> u32 \<Rightarrow> bytes \<Rightarrow> ('k, (u64 \<times> bytes) option) fs_vm" where
  "filelist_type u dir n type p =
     (if type = FT_CHR \<or> type = FT_BLK then
        parsed (parse_uint32 u p) (ret None) (\<lambda>major p. andthen (upd_inode n (\<lambda>i. i\<lparr>dev_major := major\<rparr>))
        (parsed (parse_uint32 u p) (ret None) (\<lambda>minor p. andthen (upd_inode n (\<lambda>i. i\<lparr>dev_minor := minor\<rparr>))
        (ret (Some (0, p))))))
      else if type = FT_REG then
        parsed (parse_uint64 u p) (ret None) (\<lambda>sz p. ret (Some (sz, p)))
      else if type = FT_DIR then
        bnd (inode_incref n) (\<lambda>a. andthen (inode_dir_add n DOT a)
        (bnd (inode_incref dir) (\<lambda>b. andthen (inode_dir_add n DOTDOT b) (ret (Some (0, p))))))
      else ret (Some (0, p)))"

text \<open>What follows the name: the target of a link, or the identifier of the contents of a file.\<close>

definition filelist_target :: "('k, 'c) fs_utils \<Rightarrow> ptr \<Rightarrow> u32 \<Rightarrow> u64 \<Rightarrow> bytes \<Rightarrow> ('k, bytes option) fs_vm" where
  "filelist_target u n type sz p =
     (if type = FT_LNK then
        parsed (parse_fname u 1024 p) (ret None) (\<lambda>lname p.
        andthen (upd_inode n (\<lambda>i. i\<lparr>symlink_name := Some lname\<rparr>)) (ret (Some p)))
      else if type = FT_REG \<and> 0 < sz then
        parsed (parse_file_id u p) (ret None) (\<lambda>file_id p.
        andthen (fs_net_set_url n [SLASH] file_id sz) (ret (Some p)))
      else ret (Some p))"

text \<open>
  One pass of the loop of \<open>filelist_load_rec\<close>.  The calls of the function for the directories being read are a
  stack: a directory entry calls it again, the end of a directory returns, the end of the text returns from all.
\<close>

definition filelist_line ::
  "('k, 'c) fs_utils \<Rightarrow> ptr \<Rightarrow> ptr list \<Rightarrow> bytes \<Rightarrow> ('k, (ptr list \<times> bytes, int) step) fs_vm" where
  "filelist_line u dir dirs p = (let bad = ret (Done (- 1)) in
     parsed (parse_uint32_base u p 8) bad (\<lambda>mode p. let type = drop_bit 12 mode in
     parsed (parse_uint32 u p) bad (\<lambda>uid p.
     parsed (parse_uint32 u p) bad (\<lambda>gid p.
     bnd (inode_new type (mode AND 0xfff) uid gid) (\<lambda>n.
     bnd (filelist_type u dir n type p) (\<lambda>r. case r of None \<Rightarrow> bad | Some (sz, p) \<Rightarrow>
     parsed (parse_time u p) bad (\<lambda>t p. andthen (upd_inode n (\<lambda>i. i\<lparr>mtime_sec := fst t, mtime_nsec := snd t\<rparr>))
     (parsed (parse_fname u 1024 p) bad (\<lambda>fname p. andthen (inode_dir_add dir fname n)
     (bnd (filelist_target u n type sz p) (\<lambda>r. case r of None \<Rightarrow> bad | Some p \<Rightarrow>
     ret (Again (if type = FT_DIR then n # dirs else dirs, skip_line u p)))))))))))))"

definition filelist_step ::
  "('k, 'c) fs_utils \<Rightarrow> ptr list \<times> bytes \<Rightarrow> ('k, (ptr list \<times> bytes, int) step) fs_vm" where
  "filelist_step u = (\<lambda>(dirs, p). case dirs of [] \<Rightarrow> ret (Done 0) | dir # up \<Rightarrow> (case p of [] \<Rightarrow> ret (Done 0)
     | c # p1 \<Rightarrow>
         if c = HASH then ret (Again (dirs, skip_line u p))
         else if c = FULL_STOP then ret (Again (up, skip_line u p1))
         else filelist_line u dir dirs p))"

definition filelist_load_rec :: "('k, 'c) fs_utils \<Rightarrow> bytes \<Rightarrow> ptr \<Rightarrow> ('k, int) fs_vm" where
  "filelist_load_rec u p dir = loop (filelist_step u) ([dir], p)"

definition filelist_load :: "('k, 'c) fs_utils \<Rightarrow> bytes \<Rightarrow> ('k, int) fs_vm" where
  "filelist_load u str = (if parse_tag_version u str \<noteq> 1 then ret (- 1)
     else case skip_header u str of None \<Rightarrow> ret (- 1)
       | Some p \<Rightarrow> bnd (gets root_inode) (filelist_load_rec u p))"

section \<open>Preload lists\<close>

abbreviation skip_spaces :: "('k, 'c) fs_utils \<Rightarrow> bytes \<Rightarrow> bytes" where
  "skip_spaces u p \<equiv> dropWhile (isspace_nolf u) p"

abbreviation rest_of_line :: "bytes \<Rightarrow> bytes" where
  "rest_of_line p \<equiv> dropWhile (\<lambda>c. c \<noteq> LF) p"

text \<open>Whether a file to preload for is not \<open>NULL\<close> and not local.\<close>

definition preload_target :: "ptr \<Rightarrow> ('k, fsinode option) fs_vm" where
  "preload_target n = (if n = 0 then ret None else bnd (inode_of n) (\<lambda>i.
     ret (if itype i \<noteq> FT_REG \<or> rstate (reg i) = REG_STATE_LOCAL then None else Some i)))"

text \<open>An entry or archive of the lists is known by its index: \<open>pe\<close> and \<open>pa\<close> point to one or are \<open>NULL\<close>.\<close>

definition add_preload_entry :: "u64 \<Rightarrow> ('k, nat) fs_vm" where
  "add_preload_entry file_id = bnd (gets (length \<circ> preload_list)) (\<lambda>k.
     andthen (modify (\<lambda>s. s\<lparr>preload_list := preload_list s @ [\<lparr>pe_file_id = file_id, pe_files = []\<rparr>]\<rparr>)) (ret k))"

definition add_preload_file :: "nat \<Rightarrow> bytes \<Rightarrow> bool \<Rightarrow> ('k, unit) fs_vm" where
  "add_preload_file k name is_archive = modify (\<lambda>s. s\<lparr>preload_list := (preload_list s)[k := (preload_list s ! k)
     \<lparr>pe_files := pe_files (preload_list s ! k) @ [\<lparr>pf_is_archive = is_archive, pf_name = name\<rparr>]\<rparr>]\<rparr>)"

definition add_preload_archive :: "bytes \<Rightarrow> ('k, nat) fs_vm" where
  "add_preload_archive name = bnd (gets (length \<circ> preload_archive_list)) (\<lambda>k.
     andthen (modify (\<lambda>s. s\<lparr>preload_archive_list := preload_archive_list s @ [\<lparr>pa_name = name, pa_files = []\<rparr>]\<rparr>)) (ret k))"

definition add_archive_file :: "nat \<Rightarrow> bytes \<Rightarrow> u64 \<Rightarrow> u64 \<Rightarrow> ('k, unit) fs_vm" where
  "add_archive_file k name file_id sz = modify (\<lambda>s. s\<lparr>preload_archive_list := (preload_archive_list s)[k := (preload_archive_list s ! k)
     \<lparr>pa_files := pa_files (preload_archive_list s ! k) @ [\<lparr>paf_file_id = file_id, paf_size = sz, paf_name = name\<rparr>]\<rparr>]\<rparr>)"

text \<open>The inner loop of \<open>preload_parse_str_old\<close>, over the files of a line: the text left, or an error.\<close>

definition preload_files_step :: "('k, 'c) fs_utils \<Rightarrow> nat \<Rightarrow> bytes \<Rightarrow> ('k, (bytes, bytes option) step) fs_vm" where
  "preload_files_step u pe p = (let p = skip_spaces u p in
     if p = [] \<or> hd p = LF then ret (Done (Some p))
     else parsed (parse_fname u 1024 p) (ret (Done None)) (\<lambda>fname p. andthen (add_preload_file pe fname False) (ret (Again p))))"

definition preload_old_step :: "('k, 'c) fs_utils \<Rightarrow> bytes \<Rightarrow> ('k, (bytes, unit) step) fs_vm" where
  "preload_old_step u p = (case skip_spaces u p of [] \<Rightarrow> ret (Done ())
     | c # p1 \<Rightarrow> if c = LF then ret (Again p1)
         else parsed (parse_fname u 1024 (c # p1)) (ret (Done ())) (\<lambda>fname p.
           bnd (inode_search_path fname) (\<lambda>n. bnd (preload_target n) (\<lambda>r. case r of
             None \<Rightarrow> ret (Again (rest_of_line p))
           | Some i \<Rightarrow> bnd (add_preload_entry (rfile_id (reg i))) (\<lambda>pe. bnd (loop (preload_files_step u pe) p) (\<lambda>r. case r of
                 None \<Rightarrow> ret (Done ()) | Some p \<Rightarrow> ret (Again p)))))))"

definition preload_parse_str_old :: "('k, 'c) fs_utils \<Rightarrow> bytes \<Rightarrow> ('k, unit) fs_vm" where
  "preload_parse_str_old u p = loop (preload_old_step u) p"

type_synonym preload_vars = "nat option \<times> nat option \<times> bytes"

text \<open>A line with a colon names the target of the lines after it.\<close>

definition preload_new_target :: "('k, 'c) fs_utils \<Rightarrow> bool \<Rightarrow> bytes \<Rightarrow> bytes \<Rightarrow> ('k, preload_vars) fs_vm" where
  "preload_new_target u is_archive fname p = bnd (inode_search_path fname) (\<lambda>n. bnd (preload_target n) (\<lambda>r. case r of
     None \<Rightarrow> ret (None, None, rest_of_line p)
   | Some i \<Rightarrow> if is_archive then bnd (add_preload_archive fname) (\<lambda>pa. ret (None, Some pa, p))
       else bnd (add_preload_entry (rfile_id (reg i))) (\<lambda>pe. ret (Some pe, None, p))))"

text \<open>Another line names a file of the target; the result is \<open>None\<close> when parsing ends there.\<close>

definition preload_member ::
  "('k, 'c) fs_utils \<Rightarrow> nat option \<Rightarrow> nat option \<Rightarrow> bool \<Rightarrow> bytes \<Rightarrow> bytes \<Rightarrow> ('k, preload_vars option) fs_vm" where
  "preload_member u pe pa is_archive fname p = (case pa of
     Some k \<Rightarrow>
       parsed (parse_uint64 u p) (ret None) (\<lambda>sz p.
       parsed (parse_file_id u p) (ret None) (\<lambda>file_id p.
       andthen (add_archive_file k fname file_id sz) (ret (Some (pe, pa, p)))))
   | None \<Rightarrow> (case pe of None \<Rightarrow> ret None
       | Some k \<Rightarrow> andthen (add_preload_file k fname is_archive) (ret (Some (pe, pa, p)))))"

text \<open>One pass of the loop of \<open>preload_parse_str\<close>; on a comment nothing is skipped.\<close>

definition preload_step :: "('k, 'c) fs_utils \<Rightarrow> preload_vars \<Rightarrow> ('k, (preload_vars, unit) step) fs_vm" where
  "preload_step u = (\<lambda>(pe, pa, p). case skip_spaces u p of [] \<Rightarrow> ret (Done ())
     | c # p1 \<Rightarrow>
         if c = LF then ret (Again (None, pa, p1))
         else if c = HASH then ret (Again (pe, pa, c # p1))
         else let is_archive = (c = 0x40) in
           parsed (parse_fname u 1024 (if is_archive then p1 else c # p1)) (ret (Done ())) (\<lambda>fname p.
           let p = skip_spaces u p in
           bnd (if take 1 p = [0x3a] then bnd (preload_new_target u is_archive fname (tl p)) (\<lambda>v. ret (Some v))
                else preload_member u pe pa is_archive fname p) (\<lambda>r. case r of
             None \<Rightarrow> ret (Done ())
           | Some (pe, pa, p) \<Rightarrow> ret (Again (pe, pa, tl (rest_of_line p))))))"

definition preload_parse_str :: "('k, 'c) fs_utils \<Rightarrow> bytes \<Rightarrow> ('k, unit) fs_vm" where
  "preload_parse_str u p = loop (preload_step u) (None, None, p)"

definition preload_parse :: "('k, 'c) fs_utils \<Rightarrow> bytes \<Rightarrow> bool \<Rightarrow> ('k, int) fs_vm" where
  "preload_parse u fname is_new = bnd (inode_search_path fname) (\<lambda>n. if n = 0 then ret (- 1)
     else bnd (inode_of n) (\<lambda>i.
       if itype i \<noteq> FT_REG \<or> rstate (reg i) \<noteq> REG_STATE_LOADED then ret (- 1)
       else bnd (file_buffer_read n 0 (rsize (reg i))) (\<lambda>buf.
         andthen (if is_new then preload_parse_str u (cstr buf) else preload_parse_str_old u (cstr buf)) (ret 0))))"

section \<open>Start\<close>

text \<open>\<open>fs_create\<close> under \<open>assert\<close>.\<close>

definition create_checked :: "ptr \<Rightarrow> bytes \<Rightarrow> u32 \<Rightarrow> ('k, unit) fs_vm" where
  "create_checked f name mode = bnd (fs_create_mem f name (P9_O_RDWR OR P9_O_TRUNC) mode 0) (\<lambda>(r, _). guard AssertFail (r = 0))"

definition FSCMD_NAME :: bytes where
  "FSCMD_NAME = ascii ''.fscmd''"

definition fs_create_cmd :: "('k, unit) fs_vm" where
  "fs_create_cmd = bnd (attach_root 0) (\<lambda>root_fd. andthen (create_checked root_fd FSCMD_NAME 0x1b6)
     (bnd (file_of root_fd) (\<lambda>fl. andthen (upd_reg (f_inode fl) (\<lambda>r. r\<lparr>is_fscmd := True\<rparr>)) (fs_delete_mem root_fd))))"

definition upd_init_state :: "ptr \<Rightarrow> (fsnetinitstate \<Rightarrow> fsnetinitstate) \<Rightarrow> ('k, unit) fs_vm" where
  "upd_init_state p g = bnd (load init_states p) (\<lambda>s. modify (\<lambda>t. t\<lparr>init_states := (init_states t)(p \<mapsto> g s)\<rparr>))"

text \<open>\<open>%\<close>\<open>PRId64\<close>.\<close>

definition dec_int :: "int \<Rightarrow> bytes" where
  "dec_int i = (if i < 0 then 0x2d # dec_digits (nat (- i)) else dec_digits (nat i))"

definition fs_initial_sync :: "('k, 'c) fs_utils \<Rightarrow> bytes \<Rightarrow> nat option \<Rightarrow> ('k, unit) fs_vm" where
  "fs_initial_sync u url start = bnd fresh (\<lambda>st.
     bnd (attach_root 0) (\<lambda>root_fd.
     andthen (modify (\<lambda>s. s\<lparr>init_states := (init_states s)(st \<mapsto> \<lparr>is_url = url, is_start = start, is_root_fd = root_fd,
       is_fd = 0, is_file_index = 0\<rparr>)\<rparr>))
     (bnd gettimeofday (\<lambda>(sec, usec).
      let buf = take 127 (HEAD_FILENAME u @ ascii ''?nocache='' @ dec_int (uint sec * 1000000 + uint usec)) in
      bnd (fs_dup (cmd_ops u) root_fd) (\<lambda>head_fd. andthen (create_checked head_fd (ascii ''.head'') 0x1a4)
      (fs_wget_file2 head_fd (compose_url u url buf) None None 0 0 (Head_Loaded st) None))))))"

definition fs_net_init :: "('k, 'c) fs_utils \<Rightarrow> bytes option \<Rightarrow> nat option \<Rightarrow> ('k, unit) fs_vm" where
  "fs_net_init u url start = andthen fs_mem_init
     (andthen (modify (\<lambda>s. s\<lparr>import_dir := ascii ''/tmp''\<rparr>))
     (andthen fs_create_cmd
     (case url of None \<Rightarrow> ret () | Some url \<Rightarrow> fs_initial_sync u url start)))"

text \<open>The text of a file that has been downloaded; its handle is closed and its entry removed.\<close>

definition take_download :: "ptr \<Rightarrow> ptr \<Rightarrow> bytes \<Rightarrow> int \<Rightarrow> ('k, bytes) fs_vm" where
  "take_download f root_fd name sz = andthen (guard Abort (0 \<le> sz))
     (bnd (gets (\<lambda>s. host_junk (fs_host s) (host_calls s))) (\<lambda>junk.
      bnd (fs_read_mem f 0 (malloc junk (sz + 1)) (int_of_u32 (word_of_int sz))) (\<lambda>(_, buf).
      bnd (lift (poke buf sz [0])) (\<lambda>buf.
      andthen (fs_delete_mem f) (andthen (fs_unlinkat_mem root_fd name) (ret (cstr buf)))))))"

definition head_loaded :: "('k, 'c) fs_utils \<Rightarrow> ptr \<Rightarrow> int \<Rightarrow> ptr \<Rightarrow> ('k, unit) fs_vm" where
  "head_loaded u f sz st = bnd (load init_states st) (\<lambda>s.
     bnd (take_download f (is_root_fd s) (ascii ''.head'') sz) (\<lambda>buf.
     andthen (guard Abort (parse_tag_version u buf = 1))
     (case parse_tag_file_id u buf (ascii ''RootID'') of None \<Rightarrow> fault Abort
      | Some root_id \<Rightarrow>
          andthen (case parse_tag_uint64 u buf (ascii ''FSMaxSize'') of None \<Rightarrow> ret ()
            | Some sz \<Rightarrow> if push_bit 20 1 \<le> sz then fs_net_set_fs_max_size sz else ret ())
          (let root_url = compose_url u (is_url s) (ROOT_FILENAME u) in
           andthen (fs_net_set_base_url [SLASH] root_url None None None)
           (bnd (fs_dup (cmd_ops u) (is_root_fd s)) (\<lambda>fd. andthen (create_checked fd (ascii ''.filelist.txt'') 0x1a4)
           (fs_wget_file2 fd (compose_url u root_url (file_id_to_filename (u_net u) root_id)) None None 0 0 (Filelist_Loaded st) None)))))))"

text \<open>The files that are loaded before the machine starts.\<close>

definition kernel_file_list :: "bytes list" where
  "kernel_file_list = [ascii ''.preload'', ascii ''.preload2/preload.txt'']"

text \<open>One call of \<open>kernel_load_cb\<close>; it calls itself when a file needs no loading.\<close>

definition kernel_load_step :: "('k, 'c) fs_utils \<Rightarrow> ptr \<Rightarrow> unit \<Rightarrow> ('k, (unit, unit) step) fs_vm" where
  "kernel_load_step u st _ = bnd (load init_states st) (\<lambda>s.
     andthen (if is_fd s \<noteq> 0 then andthen (fs_delete_mem (is_fd s)) (upd_init_state st (\<lambda>s. s\<lparr>is_fd := 0\<rparr>)) else ret ())
     (if 2 \<le> is_file_index s then
        bnd (preload_parse u (ascii ''.preload2/preload.txt'') True) (\<lambda>r.
        andthen (if r < 0 then andthen (preload_parse u (ascii ''.preload'') False) (ret ()) else ret ())
        (andthen (fs_delete_mem (is_root_fd s))
        (andthen (case is_start s of None \<Rightarrow> ret () | Some opaque \<Rightarrow> modify (\<lambda>t. t\<lparr>started := started t @ [opaque]\<rparr>))
        (andthen (modify (\<lambda>t. t\<lparr>init_states := (init_states t)(st := None)\<rparr>)) (ret (Done ()))))))
      else
        andthen (upd_init_state st (\<lambda>s. s\<lparr>is_file_index := is_file_index s + 1\<rparr>))
        (bnd (fs_walk_path (cmd_ops u) (is_root_fd s) (kernel_file_list ! nat (is_file_index s))) (\<lambda>r. case r of
           None \<Rightarrow> ret (Again ())
         | Some fd \<Rightarrow> andthen (upd_init_state st (\<lambda>s. s\<lparr>is_fd := fd\<rparr>))
             (bnd (fs_open_mem (u_net u) fd P9_O_RDONLY (Some st)) (\<lambda>(err, _). ret (if err \<le> 0 then Again () else Done ())))))))"

definition kernel_load_cb :: "('k, 'c) fs_utils \<Rightarrow> ptr \<Rightarrow> ('k, unit) fs_vm" where
  "kernel_load_cb u st = loop (kernel_load_step u st) ()"

definition filelist_loaded :: "('k, 'c) fs_utils \<Rightarrow> ptr \<Rightarrow> int \<Rightarrow> ptr \<Rightarrow> ('k, unit) fs_vm" where
  "filelist_loaded u f sz st = bnd (load init_states st) (\<lambda>s.
     bnd (take_download f (is_root_fd s) (ascii ''.filelist.txt'') sz) (\<lambda>buf.
     bnd (filelist_load u buf) (\<lambda>r. andthen (guard Abort (r = 0))
     (andthen (upd_init_state st (\<lambda>s. s\<lparr>is_file_index := 0\<rparr>)) (kernel_load_cb u st)))))"

text \<open>The callbacks of downloads in this program.\<close>

fun wget_file_call :: "('k, 'c) fs_utils \<Rightarrow> wget_file_cb \<Rightarrow> ptr \<Rightarrow> int \<Rightarrow> ('k, unit) fs_vm" where
  "wget_file_call u (Cmd_Xhr_On_Load x) f sz = fs_cmd_xhr_on_load x sz"
| "wget_file_call u (Head_Loaded st) f sz = head_loaded u f sz st"
| "wget_file_call u (Filelist_Loaded st) f sz = filelist_loaded u f sz st"

definition fs_download :: "('k, 'c) fs_utils \<Rightarrow> nat \<Rightarrow> ptr \<Rightarrow> int \<Rightarrow> bytes \<Rightarrow> ('k, unit) fs_vm" where
  "fs_download u opaque = fs_wget_file_on_load (fs_net_ops u opaque) (nl_aes (u_net u)) (wget_file_call u)"

end
