(* ===== verification/Cmd_Correct.thy ===== *)
theory Cmd_Correct
  imports Fs_Start Fs_Correct Fs_Transfer
begin

text \<open>
  Properties of the command file, of downloads into files and of the start of a network file system
  (\<open>src/src/fs_net.c\<close>, \<open>src/src/fs_wget.c\<close>).
\<close>

section \<open>Parsing\<close>

text \<open>
  What is used of the parsers of \<open>fs_utils.h\<close>: they never move back, a number has a digit, and skipping a line
  skips a character unless the text is at its end.
\<close>

definition parsers_advance :: "('k, 'c) fs_utils \<Rightarrow> bool" where
  "parsers_advance u \<longleftrightarrow> (\<forall>p c. length (skip_line u (c # p)) \<le> length p) \<and> length (skip_line u []) = 0
     \<and> (\<forall>p a p'. parse_uint32_base u p 8 = (Some a, p') \<longrightarrow> length p' < length p)
     \<and> (\<forall>p. length (snd (parse_uint32 u p)) \<le> length p) \<and> (\<forall>p. length (snd (parse_uint64 u p)) \<le> length p)
     \<and> (\<forall>p. length (snd (parse_file_id u p)) \<le> length p) \<and> (\<forall>p. length (snd (parse_time u p)) \<le> length p)
     \<and> (\<forall>n p. length (snd (parse_fname u n p)) \<le> length p)"

lemma skip_line_le: "parsers_advance u \<Longrightarrow> length (skip_line u p) \<le> length p"
  by (cases p) (auto simp: parsers_advance_def intro: le_SucI)

lemma parser_le:
  assumes "parsers_advance u"
  shows "parse_uint32 u p = (r1, p') \<Longrightarrow> length p' \<le> length p" "parse_uint64 u p = (r2, p') \<Longrightarrow> length p' \<le> length p"
    "parse_file_id u p = (r2, p') \<Longrightarrow> length p' \<le> length p" "parse_time u p = (r3, p') \<Longrightarrow> length p' \<le> length p"
    "parse_fname u n p = (r4, p') \<Longrightarrow> length p' \<le> length p"
  using assms unfolding parsers_advance_def by (metis snd_conv)+

lemma total_parsed [total_intros]: "total bad \<Longrightarrow> (\<And>a p. total (ok a p)) \<Longrightarrow> total (parsed r bad ok)"
  by (simp add: parsed_def split: prod.splits option.splits)

lemma yields_parsed:
  "yields P bad \<Longrightarrow> (\<And>a p. r = (Some a, p) \<Longrightarrow> yields P (ok a p)) \<Longrightarrow> yields P (parsed r bad ok)"
  by (simp add: parsed_def split: prod.splits option.splits)

section \<open>The file list\<close>

definition filelist_size :: "ptr list \<times> bytes \<Rightarrow> nat" where
  "filelist_size = (\<lambda>(dirs, p). 2 * length p + length dirs)"

lemma filelist_type_rest:
  assumes "parsers_advance u"
  shows "yields (\<lambda>r. case r of None \<Rightarrow> True | Some (sz, p') \<Rightarrow> length p' \<le> length p) (filelist_type u dir n type p)"
  unfolding filelist_type_def by (intro yields_intros yields_parsed) (auto dest!: parser_le [OF assms])

lemma filelist_target_rest:
  assumes "parsers_advance u"
  shows "yields (\<lambda>r. case r of None \<Rightarrow> True | Some p' \<Rightarrow> length p' \<le> length p) (filelist_target u n type sz p)"
  unfolding filelist_target_def by (intro yields_intros yields_parsed) (auto dest!: parser_le [OF assms])

lemma filelist_line_decreases:
  assumes u: "parsers_advance u"
  shows "yields (\<lambda>r. case r of Again x \<Rightarrow> filelist_size x < 2 * length p + length dirs | Done _ \<Rightarrow> True) (filelist_line u dir dirs p)"
proof -
  note adv = parser_le [OF u]
  have num: "parse_uint32_base u p 8 = (Some a, p') \<Longrightarrow> length p' < length p" for a p'
    using u unfolding parsers_advance_def by blast
  have skip: "filelist_size (n # dirs, skip_line u q) < 2 * length p + length dirs" "filelist_size (dirs, skip_line u q) < 2 * length p + length dirs"
    if "length q < length p" for n q
    using that skip_line_le [OF u, of q] by (simp_all add: filelist_size_def)
  show ?thesis
    unfolding filelist_line_def Let_def
    by (intro yields_parsed yields_ret yields_bnd [where m = "inode_new _ _ _ _"] yields_andthen yields_seq [OF filelist_type_rest [OF u]]
        yields_seq [OF filelist_target_rest [OF u]] yields_case_option yields_case_prod)
      (auto dest!: num adv intro!: skip)
qed

lemma filelist_step_decreases:
  assumes "parsers_advance u"
  shows "yields (\<lambda>r. case r of Again x' \<Rightarrow> filelist_size x' < filelist_size x | Done _ \<Rightarrow> True) (filelist_step u x)"
proof -
  obtain dirs p where x: "x = (dirs, p)" by fastforce
  have skip: "length (skip_line u (c # p)) \<le> length p" "length (skip_line u p) \<le> length p" for c p
    using assms skip_line_le [OF assms] by (simp_all add: parsers_advance_def)
  show ?thesis
  proof (cases dirs; cases p)
    fix d up c p1
    assume "dirs = d # up" "p = c # p1"
    then have eq: "dirs = d # up" "p = c # p1" "filelist_size (d # up, c # p1) = 2 * length p + length dirs" by (simp_all add: filelist_size_def)
    have "filelist_size (d # up, skip_line u (c # p1)) < 2 * length p + length dirs" "filelist_size (up, skip_line u p1) < 2 * length p + length dirs"
      using skip(1) [of c p1] skip(2) [of p1] eq(1,2) by (simp_all add: filelist_size_def)
    then show ?thesis unfolding x eq(1,2) filelist_step_def prod.case list.case eq(3)
      using filelist_line_decreases [OF assms, of p dirs d] by (intro yields_if yields_ret) (simp_all only: step.case eq(1,2))
  qed (auto simp: x filelist_step_def intro!: yields_intros)
qed

lemma total_filelist_step: "total (filelist_step u x)"
proof -
  have base: "total (find_base_url ident ps)" for ident ps
    by (induction ps; unfold find_base_url.simps; (intro total_intros | assumption)+)
  have "total (filelist_line u dir dirs p)" for dir dirs p
    unfolding filelist_line_def filelist_type_def filelist_target_def fs_net_set_url_def fs_find_base_url_def node_defs heap_defs Let_def
    by (intro total_intros base)
  then show ?thesis unfolding filelist_step_def by (auto intro!: total_intros split: prod.splits list.splits)
qed

text \<open>
  C27: reading a file list ends, whatever the list and the file system: \<open>filelist_load\<close> returns a result or stops in
  an assertion or a fault, and never loops, as long as the parsers move forward.
\<close>

theorem filelist_load_returns:
  assumes "parsers_advance u"
  shows "filelist_load u str s \<noteq> None"
proof -
  have "total (loop (filelist_step u) x)" for x
    by (rule total_loop [OF total_filelist_step filelist_step_decreases [OF assms]])
  then have "total (filelist_load u str)" unfolding filelist_load_def filelist_load_rec_def by (intro total_intros)
  then show ?thesis by (simp add: total_def returns_def)
qed

text \<open>
  Sample parsers: words end at a space or a new line, numbers have one digit, and a hexadecimal digit stands for a byte
  with its twin.
\<close>

definition sample_word :: "bytes \<Rightarrow> bytes option \<times> bytes" where
  "sample_word p = (Some (takeWhile (\<lambda>c. c \<noteq> 0x20 \<and> c \<noteq> LF) p), drop 1 (dropWhile (\<lambda>c. c \<noteq> 0x20 \<and> c \<noteq> LF) p))"

definition sample_digit :: "bytes \<Rightarrow> ('w :: len) word option \<times> bytes" where
  "sample_digit p = (if p = [] then (None, []) else (Some (ucast (hd p - 0x30)), drop 2 p))"

definition sample_utils :: "(unit, bytes) fs_utils" where
  "sample_utils = \<lparr>parse_fname = (\<lambda>_. sample_word), parse_uint32 = sample_digit, parse_uint32_base = (\<lambda>p _. sample_digit p),
     parse_uint64 = sample_digit, parse_file_id = sample_digit, parse_time = (\<lambda>p. (Some (7, 8), drop 2 p)),
     decode_hex = (\<lambda>b n. if 0x78 \<in> set b then None else Some (map (\<lambda>c. c - 0x30) (take n b))), skip_line = (\<lambda>p. tl (rest_of_line p)), skip_header = Some,
     parse_tag_version = (\<lambda>_. 1), parse_tag_file_id = (\<lambda>_ _. Some 1), parse_tag_uint64 = (\<lambda>_ _. None), compose_url = (@),
     isspace_nolf = (\<lambda>c. c = 0x20), HEAD_FILENAME = ascii ''head'', ROOT_FILENAME = ascii ''files'', FS_KEY_LEN = 16,
     AES_set_decrypt_key = (\<lambda>_. ()), u_net = plain_lib, u_sha = sample_sha, sha_junk = []\<rparr>"

theorem filelist_load_returns_witness:
  "parsers_advance sample_utils \<and> filelist_load sample_utils (ascii ''4 0 0 '') (fs_mem_zero sample_host 12) \<noteq> None"
proof -
  have "parsers_advance sample_utils"
    by (auto simp: parsers_advance_def sample_utils_def sample_word_def sample_digit_def le_diff_conv
        intro: le_SucI [OF length_dropWhile_le] split: if_splits)
  then show ?thesis using filelist_load_returns [of sample_utils] by blast
qed

section \<open>Key derivation\<close>

text \<open>An open handle of the command file on which no command has been given yet.\<close>

definition cmd_handle :: "'k fsdevicemem \<Rightarrow> ptr \<Rightarrow> bool" where
  "cmd_handle s f \<longleftrightarrow> f \<noteq> 0 \<and> next_ptr s \<noteq> 0 \<and> (\<exists>fl n. files s f = Some fl \<and> is_opened fl \<and> open_flags fl AND P9_O_NOACCESS = P9_O_RDWR
     \<and> f_req fl = 0 \<and> f_inode fl \<noteq> 0 \<and> inodes s (f_inode fl) = Some n \<and> itype n = FT_REG \<and> is_fscmd (reg n))"

text \<open>A command \<open>pbkdf2\<close> whose password and numbers can be read; \<open>salt\<close> is what the parser makes of the salt.\<close>

definition pbkdf2_command ::
  "('k, 'c) fs_utils \<Rightarrow> bytes \<Rightarrow> bytes \<Rightarrow> bytes option \<Rightarrow> u32 \<Rightarrow> u32 \<Rightarrow> bool" where
  "pbkdf2_command u text pwd salt iter key_len \<longleftrightarrow> (\<exists>p1 p2 p3 p4 p5. parse_fname u 64 text = (Some (ascii ''pbkdf2''), p1)
     \<and> parse_hex_buf u 1024 p1 = (Some pwd, p2) \<and> parse_hex_buf u 128 p2 = (salt, p3)
     \<and> parse_uint32 u p3 = (Some iter, p4) \<and> parse_uint32 u p4 = (Some key_len, p5))"

lemma pbkdf2_dispatch:
  assumes s: "cmd_handle s f" and cmd: "pbkdf2_command u (cstr (take (nat count) buf)) pwd salt iter key_len"
    and c: "0 < count" "count \<le> int (length buf)" and k: "key_len \<noteq> 0" "key_len \<le> 64"
  shows "fs_write (fs_net_ops u opaque) f offset buf count s =
    bnd (run_pbkdf2 u pwd (int (length pwd)) (case salt of None \<Rightarrow> [] | Some b \<Rightarrow> b) (case salt of None \<Rightarrow> - 1 | Some b \<Rightarrow> int (length b)) iter key_len)
      (\<lambda>out. andthen (modify (\<lambda>t. t\<lparr>requests := (requests t)(next_ptr s \<mapsto> \<lparr>req_type = FS_CMD_PBKDF2, req_xhr_state = 0,
         reply_len = int_of_u32 key_len, reply_buf = out\<rparr>)\<rparr>)) (andthen (upd_file f (\<lambda>fl. fl\<lparr>f_req := next_ptr s\<rparr>)) (ret count)))
      (s\<lparr>next_ptr := Suc (next_ptr s)\<rparr>)"
proof -
  obtain fl n where fl: "f \<noteq> 0" "files s f = Some fl" "is_opened fl" "open_flags fl AND 3 = 2" "f_req fl = 0" "f_inode fl \<noteq> 0"
    "inodes s (f_inode fl) = Some n" "itype n = FT_REG" "is_fscmd (reg n)" using s by (auto simp: cmd_handle_def)
  obtain p1 p2 p3 p4 p5 where p: "parse_fname u 64 (cstr (take (nat count) buf)) = (Some (ascii ''pbkdf2''), p1)"
    "parse_hex_buf u 1024 p1 = (Some pwd, p2)" "parse_hex_buf u 128 p2 = (salt, p3)"
    "parse_uint32 u p3 = (Some iter, p4)" "parse_uint32 u p4 = (Some key_len, p5)" using cmd by (auto simp: pbkdf2_command_def)
  let ?run = "run_pbkdf2 u pwd (int (length pwd)) (case salt of None \<Rightarrow> [] | Some b \<Rightarrow> b) (case salt of None \<Rightarrow> - 1 | Some b \<Rightarrow> int (length b)) iter key_len"
  have key: "\<not> ((64 :: u32) < key_len \<or> key_len = 0)" using k by auto
  have cmd: "fs_cmd_pbkdf2 u f p1 s = bnd ?run (\<lambda>out. andthen (modify (\<lambda>t. t\<lparr>requests := (requests t)(next_ptr s \<mapsto> \<lparr>req_type = FS_CMD_PBKDF2,
      req_xhr_state = 0, reply_len = int_of_u32 key_len, reply_buf = out\<rparr>)\<rparr>)) (andthen (upd_file f (\<lambda>fl. fl\<lparr>f_req := next_ptr s\<rparr>)) (ret 0)))
      (s\<lparr>next_ptr := Suc (next_ptr s)\<rparr>)"
    unfolding fs_cmd_pbkdf2_def bnd_load [of files, OF fl(2,1)] using fl(5) p key by (simp add: parsed_def fresh_def bnd_run andthen_run)
  have "fs_write (fs_net_ops u opaque) f offset buf count s = fs_cmd_write u f buf count s"
    using fl c by (simp add: fs_net_ops_def fs_mem_ops_def fs_write_mem_def bnd_load [of files] bnd_load [of inodes] Let_def)
  also have "\<dots> = bnd (fs_cmd_pbkdf2 u f p1) (\<lambda>err. if err = 0 then ret count else ret err) s"
    using p(1) c by (simp add: fs_cmd_write_def parsed_def ascii_def andthen_run)
  also have "\<dots> = bnd ?run (\<lambda>out. andthen (modify (\<lambda>t. t\<lparr>requests := (requests t)(next_ptr s \<mapsto> \<lparr>req_type = FS_CMD_PBKDF2,
      req_xhr_state = 0, reply_len = int_of_u32 key_len, reply_buf = out\<rparr>)\<rparr>)) (andthen (upd_file f (\<lambda>fl. fl\<lparr>f_req := next_ptr s\<rparr>)) (ret count)))
      (s\<lparr>next_ptr := Suc (next_ptr s)\<rparr>)"
    by (subst bnd_at [where m = "fs_cmd_pbkdf2 u f p1" and s = s, OF cmd]) (simp only: bnd_assoc andthen_def bnd_ret if_True refl)
  finally show ?thesis .
qed

lemma length_pbkdf2_frame: "pb_ok (pbkdf2_frame u junk)"
  by (simp add: pb_ok_def pbkdf2_frame_def)

text \<open>
  C26: the command \<open>pbkdf2\<close> answers with the derived key: after it has been written to the command file, a read of that
  handle returns as many bytes of the key PBKDF2 defines as it asks for, whatever the offset, and changes nothing.
\<close>

theorem cmd_pbkdf2_reply:
  assumes law: "sha_law (u_sha u)" and s: "cmd_handle s f"
    and cmd: "pbkdf2_command u (cstr (take (nat count) buf)) pwd (Some salt) iter key_len"
    and c: "0 < count" "count \<le> int (length buf)" and k: "key_len \<noteq> 0" "key_len \<le> 64" and salt: "length salt \<le> 32" "iter < 0x80000000"
  shows "\<exists>t. fs_write (fs_net_ops u opaque) f offset buf count s = Some (Inr (count, t))
    \<and> (\<forall>buf' m off. m \<le> length buf' \<longrightarrow> fs_read (fs_net_ops u opaque) f off buf' (int m) t =
          Some (Inr ((int (min (unat key_len) m), blit buf' 0 (take m (pbkdf2_ref (u_sha u) pwd salt (unat iter) (unat key_len)))), t)))"
proof -
  let ?s = "s\<lparr>next_ptr := Suc (next_ptr s)\<rparr>" and ?key = "pbkdf2_ref (u_sha u) pwd salt (unat iter) (unat key_len)"
  have n: "unat key_len \<le> 64" using k(2) by (simp add: word_le_nat_alt)
  have i: "int_of_u32 iter = int (unat iter)" "int_of_u32 key_len = int (unat key_len)"
    using salt(2) n by (simp_all add: int_of_u32_small word_less_nat_alt)
  have out: "length ?key = unat key_len" by (rule length_pbkdf2_ref [OF law])
  let ?out = "blit (replicate 64 0) 0 ?key"
  obtain v where "pbkdf2_hmac_sha256 (u_sha u) pwd (int (length pwd)) salt (int (length salt)) (int (unat iter)) (int (unat key_len))
      (pbkdf2_frame u (host_junk (fs_host s) (host_calls s))) = Some (Inr ((), v))" "pb_out v = ?out"
    using pbkdf2_out [OF law length_pbkdf2_frame salt(1), of "unat key_len" u _ pwd "unat iter"] n by (auto simp: pbkdf2_frame_def)
  then have run: "run_pbkdf2 u pwd (int (length pwd)) salt (int (length salt)) iter key_len ?s = Some (Inr (?out, ?s))"
    by (simp add: run_pbkdf2_def bnd_run i)
  obtain fl x where fl: "f \<noteq> 0" "files s f = Some fl" "is_opened fl" "open_flags fl AND 3 = 2" "f_inode fl \<noteq> 0"
    "inodes s (f_inode fl) = Some x" "itype x = FT_REG" "is_fscmd (reg x)" "next_ptr s \<noteq> 0" using s by (auto simp: cmd_handle_def)
  let ?t = "?s\<lparr>requests := (requests s)(next_ptr s \<mapsto> \<lparr>req_type = FS_CMD_PBKDF2, req_xhr_state = 0, reply_len = int (unat key_len), reply_buf = ?out\<rparr>),
      files := (files s)(f \<mapsto> fl\<lparr>f_req := next_ptr s\<rparr>)\<rparr>"
  have w: "fs_write (fs_net_ops u opaque) f offset buf count s = Some (Inr (count, ?t))"
    unfolding pbkdf2_dispatch [OF s cmd c k] option.case using fl(1,2) by (simp add: bnd_run run i upd_file_def load_def andthen_run)
  have r: "fs_read (fs_net_ops u opaque) f off buf' (int m) ?t = Some (Inr ((int (min (unat key_len) m), blit buf' 0 (take m ?key)), ?t))"
    if m: "m \<le> length buf'" for buf' m off
  proof -
    let ?l = "min (unat key_len) m"
    have pk: "peek ?out 0 ?l = Inr (take m ?key)"
      using peek_nat [of 0 ?l ?out] out n by (simp add: blit_def min_def)
    have po: "poke buf' 0 (take m ?key) = Inr (blit buf' 0 (take m ?key))" using poke_nat [of 0 "take m ?key" buf'] out m by simp
    have "min_int (int a) (int b) = int (min a b)" for a b by (simp add: min_int_def min_def)
    note l = this [of "unat key_len" m]
    show ?thesis using fl l pk po
      by (simp add: fs_net_ops_def fs_mem_ops_def fs_read_mem_def fs_cmd_read_def bnd_load [of files] bnd_load [of inodes] bnd_load [of requests]
          bnd_run andthen_run Let_def)
  qed
  from w r show ?thesis by blast
qed

text \<open>
  C28: a command \<open>pbkdf2\<close> whose salt cannot be read does not fail: the length -1 goes to \<open>memcpy\<close> and the program leaves
  the bounds of its buffers.
\<close>

theorem cmd_pbkdf2_bad_salt:
  assumes s: "cmd_handle s f" and cmd: "pbkdf2_command u (cstr (take (nat count) buf)) pwd None iter key_len"
    and c: "0 < count" "count \<le> int (length buf)" and k: "key_len \<noteq> 0" "key_len \<le> 64"
  shows "fs_write (fs_net_ops u opaque) f offset buf count s = Some (Inl OutOfBounds)"
proof -
  have "0 < unat key_len" "unat key_len \<le> 64" using k by (simp_all add: word_le_nat_alt unat_gt_0)
  moreover have "unat key_len \<le> 64 \<Longrightarrow> int_of_u32 key_len = int (unat key_len)" by (simp add: int_of_u32_small)
  ultimately have n: "0 < int_of_u32 key_len" by linarith
  have "pbkdf2_hmac_sha256 (u_sha u) pwd (int (length pwd)) [] (- 1) (int_of_u32 iter) (int_of_u32 key_len) v = Some (Inl OutOfBounds)" for v
    unfolding pbkdf2_hmac_sha256_def using n
    by (simp add: andthen_run) (rule loop_fault, simp add: pbkdf2_block_def andthen_run)
  then have "run_pbkdf2 u pwd (int (length pwd)) [] (- 1) iter key_len t = Some (Inl OutOfBounds)" for t
    by (simp add: run_pbkdf2_def bnd_run)
  then show ?thesis unfolding pbkdf2_dispatch [OF s cmd c k] option.case by (simp only: bnd_run)
qed

section \<open>Preload lists\<close>

text \<open>
  C30: a preload list with a comment never ends: when the text after the spaces begins with \<open>#\<close>,
  \<open>preload_parse_str\<close> looks at the same character for ever.
\<close>

theorem preload_comment_hangs:
  assumes "\<not> isspace_nolf u HASH"
  shows "preload_parse_str u (HASH # p) s = None"
  unfolding preload_parse_str_def
  by (rule loop_diverges [where D = "\<lambda>x _. \<exists>pe pa. x = (pe, pa, HASH # p)"]) (use assms in \<open>auto simp: preload_step_def\<close>)

section \<open>Downloads\<close>

lemma run_wget_decrypt_run:
  assumes "w \<noteq> 0" "wget_files s w = Some x" "wf_dec x = Some (d, key)" "m key (d, s) = Some (Inr (r, (d', s)))"
  shows "run_wget_decrypt w m s = Some (Inr (r, s\<lparr>wget_files := (wget_files s)(w \<mapsto> x\<lparr>wf_dec := Some (d', key)\<rparr>)\<rparr>))"
  using assms by (simp add: run_wget_decrypt_def upd_wget_file_def bnd_load [of wget_files] bnd_run andthen_run load_def)

text \<open>A short file in one piece: it stays in the buffer of the decryption.\<close>

lemma decrypt_short:
  assumes aes: "length (encrypted_file_magic lib) = 4" "cbc_law lib key"
    and data: "20 \<le> length data" "length data < 20 + 4096" "take 4 data = encrypted_file_magic lib"
  shows "\<exists>d. decrypt_file lib key wcb data (decrypt_file_init, t) = Some (Inr (0, (d, t))) \<and> dec_rep lib key data [] d"
proof -
  have d: "data \<noteq> []" "length data < 2147483648" "min (length data) 20 = 20" "\<not> header_bad lib (take 20 data)"
    using data by (auto simp: header_bad_def min_def)
  obtain d1 where d1: "decrypt_step lib key wcb data (decrypt_file_init, t) = Some (Inr (Again (drop 20 data), (d1, t)))"
    "dec_rep lib key (take 20 data) [] d1"
    using header_step [OF init_rep _ d(1,2) aes, of wcb t] d(3,4) by auto
  have fin: "loop (decrypt_step lib key wcb) [] (d, t) = Some (Inr (0, (d, t)))" for d
    by (rule loop_done) (simp add: decrypt_step_def)
  have "\<exists>d. loop (decrypt_step lib key wcb) (drop 20 data) (d1, t) = Some (Inr (0, (d, t))) \<and> dec_rep lib key data [] d"
  proof (cases "length data = 20")
    case True
    then show ?thesis using d1(2) fin by simp
  next
    case False
    have "dec_buf_pos d1 = int 0" using d1(2) data(1) by (auto simp: dec_rep_def)
    moreover have "20 \<le> length (take 20 data)" "drop 20 data \<noteq> []" "length (drop 20 data) < 2147483648" "0 + length (drop 20 data) < 4096"
      using data False d(2) by simp_all
    ultimately obtain d2 where "decrypt_step lib key wcb (drop 20 data) (d1, t) = Some (Inr (Again [], (d2, t)))"
      "dec_rep lib key (take 20 data @ drop 20 data) [] d2"
      using fill_step [OF d1(2), of 0 "drop 20 data" wcb t] by blast
    then show ?thesis using fin by (auto simp: loop_again)
  qed
  then show ?thesis using loop_again [of "decrypt_step lib key wcb", OF d1(1)] by (simp add: decrypt_file_def)
qed

text \<open>
  C29: a short download that cannot be decrypted is reported as complete, since the result of the last step of the decryption is
  ignored.  When a file of less than 4 KiB behind its header arrives in one piece, begins with the magic number of an encrypted file
  and is no valid one (not a whole number of cipher blocks, or with a bad padding), nothing is written to the target, and the
  callback gets the size 0, which is no error.
\<close>

theorem bad_download_reported_done:
  assumes w: "w \<noteq> 0" "wget_files s w = Some x" "wf_dec x = Some (decrypt_file_init, key)" "wf_pos x = 0"
    and aes: "length (encrypted_file_magic aes) = 4" "cbc_law aes key"
    and data: "20 \<le> length data" "length data < 20 + 4096" "take 4 data = encrypted_file_magic aes" "decrypt_ref aes key data = None"
  shows "\<exists>d. fs_wget_file_on_load fops aes cb w 0 data s =
    andthen (cb (wf_cb x) (wf_f x) 0) (modify (\<lambda>t. t\<lparr>wget_files := (wget_files t)(w := None)\<rparr>))
      (s\<lparr>wget_files := (wget_files s)(w \<mapsto> x\<lparr>wf_dec := Some (d, key)\<rparr>)\<rparr>)"
proof -
  let ?s = "\<lambda>d. s\<lparr>wget_files := (wget_files s)(w \<mapsto> x\<lparr>wf_dec := Some (d, key)\<rparr>)\<rparr>"
  obtain d where d: "decrypt_file aes key (fs_wget_file_write_cb fops w) data (decrypt_file_init, s) = Some (Inr (0, (d, s)))"
    "dec_rep aes key data [] d" using decrypt_short [OF aes data(1-3), of "fs_wget_file_write_cb fops w" s] by (elim exE conjE)
  obtain d' where d': "decrypt_file_flush aes key (fs_wget_file_write_cb fops w) (d, ?s d) = Some (Inr (- 1, (d', ?s d)))"
    using flush_rejects [OF aes(2) d(2) data(4), of "fs_wget_file_write_cb fops w" "?s d"] by (elim exE)
  have r1: "run_wget_decrypt w (\<lambda>key. decrypt_file aes key (fs_wget_file_write_cb fops w) data) s = Some (Inr (0, ?s d))"
    by (rule run_wget_decrypt_run [OF w(1-3)]) (rule d(1))
  have r2: "run_wget_decrypt w (\<lambda>key. decrypt_file_flush aes key (fs_wget_file_write_cb fops w)) (?s d) = Some (Inr (- 1, ?s d'))"
    using run_wget_decrypt_run [OF w(1), of "?s d" "x\<lparr>wf_dec := Some (d, key)\<rparr>" d key
        "\<lambda>key. decrypt_file_flush aes key (fs_wget_file_write_cb fops w)" "- 1" d'] d' by simp
  let ?m = "bnd (run_wget_decrypt w (\<lambda>key. decrypt_file aes key (fs_wget_file_write_cb fops w) data)) (\<lambda>r.
      andthen (if 0 \<le> r
        then andthen (run_wget_decrypt w (\<lambda>key. decrypt_file_flush aes key (fs_wget_file_write_cb fops w))) (ret ()) else ret ()) (ret r))"
  have r: "?m s = Some (Inr (0, ?s d'))" by (simp add: bnd_run r1 andthen_run r2)
  have w': "wget_files (?s d') w = Some (x\<lparr>wf_dec := Some (d', key)\<rparr>)" by simp
  let ?k = "\<lambda>r. if r < 0 then wget_file_done cb w r else bnd (load wget_files w) (\<lambda>s. wget_file_done cb w (wf_pos s))"
  have "fs_wget_file_on_load fops aes cb w 0 data s = bnd ?m ?k s"
    by (simp add: fs_wget_file_on_load_def bnd_load [of wget_files, OF w(2,1)] w(3))
  also have "\<dots> = ?k 0 (?s d')" by (rule bnd_run(3) [where m = ?m, OF r])
  also have "\<dots> = wget_file_done cb w 0 (?s d')" using w(4) by (simp add: bnd_load [of wget_files, OF w' w(1)])
  finally have "fs_wget_file_on_load fops aes cb w 0 data s = wget_file_done cb w 0 (?s d')" .
  then show ?thesis unfolding wget_file_done_def bnd_load [of wget_files, OF w' w(1)] by auto
qed

theorem bad_download_reported_done_witness:
  "\<exists>s t. fs_wget_file2 5 [] None None 0 0 (Cmd_Xhr_On_Load 9) (Some ()) (fs_mem_zero sample_host 12) = Some (Inr ((), s))
    \<and> fs_wget_file_on_load (fs_net_ops sample_utils 0) (nl_aes plain_lib) (\<lambda>_ _ sz. modify (\<lambda>t. t\<lparr>inode_cache_size := sz\<rparr>)) 1 0
        ([1, 2, 3, 4] @ replicate 17 0) s = Some (Inr ((), t)) \<and> inode_cache_size t = 0"
proof -
  obtain s x where s: "fs_wget_file2 5 [] None None 0 0 (Cmd_Xhr_On_Load 9) (Some ()) (fs_mem_zero sample_host 12) = Some (Inr ((), s))"
    "wget_files s 1 = Some x" "wf_dec x = Some (decrypt_file_init, ())" "wf_pos x = 0"
    by (simp add: fs_wget_file2_def fs_wget2_def fs_mem_zero_def fresh_def bnd_run andthen_run)
  have aes: "length (encrypted_file_magic (nl_aes plain_lib)) = 4" "cbc_law (nl_aes plain_lib) ()" by (simp_all add: cbc_law_def plain_lib_def)
  let ?data = "[1, 2, 3, 4] @ replicate 17 0 :: bytes" and ?cb = "\<lambda>_ _ sz. modify (\<lambda>t. t\<lparr>inode_cache_size := sz\<rparr>)"
  have data: "20 \<le> length ?data" "length ?data < 20 + 4096" "take 4 ?data = encrypted_file_magic (nl_aes plain_lib)"
    "decrypt_ref (nl_aes plain_lib) () ?data = None" by (simp_all add: decrypt_ref_def plain_lib_def Let_def)
  have "(1 :: nat) \<noteq> 0" by simp
  from bad_download_reported_done [OF this s(2-4) aes data, of "fs_net_ops sample_utils 0" ?cb]
  obtain d where "fs_wget_file_on_load (fs_net_ops sample_utils 0) (nl_aes plain_lib) ?cb 1 0 ?data s =
      andthen (?cb (wf_cb x) (wf_f x) 0) (modify (\<lambda>t. t\<lparr>wget_files := (wget_files t)(1 := None)\<rparr>))
      (s\<lparr>wget_files := (wget_files s)(1 \<mapsto> x\<lparr>wf_dec := Some (d, ())\<rparr>)\<rparr>)" by (elim exE)
  with s(1) show ?thesis by (simp add: andthen_run)
qed

theorem preload_comment_hangs_witness: "preload_parse_str sample_utils (ascii ''# files'') remote_fs = None"
  using preload_comment_hangs [of sample_utils "ascii '' files''" remote_fs] by (simp add: sample_utils_def ascii_def)

text \<open>The command file after \<open>fs_net_init\<close>, opened by its name.\<close>

definition open_cmd_file :: "(unit, ptr) fs_vm" where
  "open_cmd_file = andthen (fs_net_init sample_utils None None) (bnd (attach_root 0) (\<lambda>r. bnd (fs_walk_mem r [FSCMD_NAME]) (\<lambda>(_, f, _).
     andthen (fs_open_mem plain_lib f P9_O_RDWR None) (ret f))))"

lemma sample_cmd_handle: obtains s f where "open_cmd_file (fs_mem_zero sample_host 12) = Some (Inr (f, s))" "cmd_handle s f"
  by (simp add: open_cmd_file_def fs_eval sample_host_def fs_net_init_def fs_create_cmd_def attach_root_def create_checked_def FSCMD_NAME_def ascii_def
      cmd_handle_def Let_def)

lemma sample_command:
  "pbkdf2_command sample_utils (cstr (take (nat 17) (ascii ''pbkdf2 12 34 2 5 ''))) [1] (Some [3]) 2 5"
  "pbkdf2_command sample_utils (cstr (take (nat 17) (ascii ''pbkdf2 12 xx 2 5 ''))) [1] None 2 5"
  by (simp_all add: pbkdf2_command_def sample_utils_def sample_word_def sample_digit_def parse_hex_buf_def ascii_def Let_def)

theorem cmd_pbkdf2_reply_witness:
  "\<exists>s f t. open_cmd_file (fs_mem_zero sample_host 12) = Some (Inr (f, s))
    \<and> fs_write (fs_net_ops sample_utils 0) f 0 (ascii ''pbkdf2 12 34 2 5 '') 17 s = Some (Inr (17, t))
    \<and> fs_read (fs_net_ops sample_utils 0) f 0 [0, 0, 0] 3 t = Some (Inr ((3, blit [0, 0, 0] 0 (take 3 (pbkdf2_ref sample_sha [1] [3] 2 5))), t))"
proof -
  obtain s f where s: "open_cmd_file (fs_mem_zero sample_host 12) = Some (Inr (f, s))" "cmd_handle s f" by (rule sample_cmd_handle)
  have law: "sha_law (u_sha sample_utils)" by (auto simp: sha_law_def sample_sha_def sample_utils_def min_def)
  have c: "0 < (17 :: int)" "17 \<le> int (length (ascii ''pbkdf2 12 34 2 5 ''))" "(5 :: u32) \<noteq> 0" "(5 :: u32) \<le> 64" "length [3 :: u8] \<le> 32" "(2 :: u32) < 0x80000000"
    by (simp_all add: ascii_def)
  obtain t where t: "fs_write (fs_net_ops sample_utils 0) f 0 (ascii ''pbkdf2 12 34 2 5 '') 17 s = Some (Inr (17, t))"
    "\<forall>buf' m off. m \<le> length buf' \<longrightarrow> fs_read (fs_net_ops sample_utils 0) f off buf' (int m) t =
          Some (Inr ((int (min (unat (5 :: u32)) m), blit buf' 0 (take m (pbkdf2_ref (u_sha sample_utils) [1] [3] (unat (2 :: u32)) (unat (5 :: u32))))), t))"
    using cmd_pbkdf2_reply [OF law s(2) sample_command(1) c, of 0 0] by (elim exE conjE)
  have "fs_read (fs_net_ops sample_utils 0) f 0 [0, 0, 0] 3 t = Some (Inr ((3, blit [0, 0, 0] 0 (take 3 (pbkdf2_ref sample_sha [1] [3] 2 5))), t))"
    using t(2) [rule_format, of 3 "[0, 0, 0]" 0] by (simp add: sample_utils_def)
  then show ?thesis using s(1) t(1) by blast
qed

theorem cmd_pbkdf2_bad_salt_witness:
  "\<exists>s f. open_cmd_file (fs_mem_zero sample_host 12) = Some (Inr (f, s))
    \<and> fs_write (fs_net_ops sample_utils 0) f 0 (ascii ''pbkdf2 12 xx 2 5 '') 17 s = Some (Inl OutOfBounds)"
proof -
  obtain s f where s: "open_cmd_file (fs_mem_zero sample_host 12) = Some (Inr (f, s))" "cmd_handle s f" by (rule sample_cmd_handle)
  have c: "0 < (17 :: int)" "17 \<le> int (length (ascii ''pbkdf2 12 xx 2 5 ''))" "(5 :: u32) \<noteq> 0" "(5 :: u32) \<le> 64"
    by (simp_all add: ascii_def)
  show ?thesis using s(1) cmd_pbkdf2_bad_salt [OF s(2) sample_command(2) c, of 0 0] by blast
qed

end
