(* ===== verification/Block_Http.thy ===== *)
theory Block_Http
  imports Fs_Node
begin

text \<open>
  Model of the block device over HTTP of \<open>src/src/block_net.c\<close>: an image cut into blocks that are loaded
  from a server when they are first used and kept in a bounded cache, with the data a guest writes kept in
  clusters in memory.  A \<open>CachedBlock\<close> is an address of the heap \<open>cblocks\<close>.  A transfer started by
  \<open>fs_wget\<close> is an entry of \<open>wgets\<close> until its callback has been called; with \<open>single_write\<close> set, as here, the
  callback gets the whole file.  The completion function of a request (\<open>bf->cb\<close> with \<open>bf->opaque\<close>) is the
  parameter \<open>cb\<close>, a computation over a state that extends the device; \<open>bf_cb\<close> says whether it has been set.  JSON
  comes from outside the repository: the configuration is the parameter \<open>http_config\<close>.  \<open>exit\<close> is the
  fault \<open>Abort\<close>, a division by zero the fault \<open>SignedOverflow\<close>.
\<close>

unbundle bit_operations_syntax

section \<open>State\<close>

datatype cached_block_state = CBLOCK_LOADING | CBLOCK_LOADED

record cached_block =
  block_num :: u32
  cb_state :: cached_block_state
  cb_fbuf :: file_buffer

abbreviation PREFETCH_GROUP_LEN_MAX :: int where "PREFETCH_GROUP_LEN_MAX \<equiv> 32"

text \<open>\<open>n_block_num\<close> is the length of \<open>tab_block\<close>.\<close>

record prefetch_group_request =
  group_num :: int
  tab_block :: "ptr list"

datatype http_client = Wget_Config | Wget_Block ptr | Wget_Group prefetch_group_request

record block_device_http =
  bf_max_cache_size_kb :: int
  bf_url :: bytes
  bf_nb_sectors :: int
  bf_block_size :: int
  bf_nb_blocks :: int
  bf_cached_blocks :: "ptr list"
  bf_n_cached_blocks :: int
  bf_n_cached_blocks_max :: int
  bf_sectors_per_cluster :: int
  bf_clusters :: "file_buffer option list"
  bf_n_clusters :: int
  bf_n_allocated_clusters :: int
  bf_n_read_sectors :: int
  bf_n_read_blocks :: int
  bf_n_write_sectors :: int
  bf_is_write :: bool
  bf_sector_num :: u64
  bf_cur_block_num :: int
  bf_sector_index :: int
  bf_sector_count :: int
  bf_cb :: bool
  bf_io_buf :: bytes
  bf_prefetch_group_len :: int
  cblocks :: "ptr \<Rightarrow> cached_block option"
  http_next :: ptr
  http_host :: host
  http_calls :: nat
  wgets :: "(bytes \<times> http_client) list"

type_synonym ('w, 'a) http_vm = "('w block_device_http_scheme, 'a) vm"

abbreviation block_of :: "ptr \<Rightarrow> ('w, cached_block) http_vm" where "block_of \<equiv> load cblocks"

definition upd_block :: "ptr \<Rightarrow> (cached_block \<Rightarrow> cached_block) \<Rightarrow> ('w, unit) http_vm" where
  "upd_block p g = bnd (block_of p) (\<lambda>b. modify (\<lambda>s. s\<lparr>cblocks := (cblocks s)(p \<mapsto> g b)\<rparr>))"

text \<open>An \<open>int\<close> passed as \<open>size_t\<close>.\<close>

definition usize :: "int \<Rightarrow> u64" where
  "usize i = word_of_int i"

text \<open>\<open>file_buffer_init\<close> and \<open>file_buffer_resize\<close>, whose result the callers ignore.\<close>

definition new_buffer :: "int \<Rightarrow> ('w, file_buffer) http_vm" where
  "new_buffer sz = bnd (gets (\<lambda>s. (http_host s, http_calls s))) (\<lambda>(h, c).
     andthen (modify (\<lambda>s. s\<lparr>http_calls := Suc c\<rparr>))
     (ret (if \<not> host_mem h c (unat (usize sz)) \<and> usize sz \<noteq> 0 then file_buffer_init
       else \<lparr>fb_data = realloc (host_junk h c) [] (unat (usize sz)), allocated_size = usize sz\<rparr>)))"

definition fs_wget_http :: "bytes \<Rightarrow> http_client \<Rightarrow> ('w, unit) http_vm" where
  "fs_wget_http url opaque = modify (\<lambda>s. s\<lparr>wgets := wgets s @ [(url, opaque)]\<rparr>)"

section \<open>File names\<close>

text \<open>\<open>%09u\<close>.\<close>

definition dec9 :: "nat \<Rightarrow> bytes" where
  "dec9 n = (let d = dec_digits n in replicate (9 - length d) 48 @ d)"

text \<open>\<open>snprintf\<close> into 1024 bytes with \<open>"%sblk%09u.bin"\<close> and \<open>"%sgrp%09u.bin"\<close>.\<close>

definition BLK_FMT :: "bytes \<Rightarrow> u32 \<Rightarrow> bytes" where
  "BLK_FMT url k = take 1023 (url @ [0x62, 0x6c, 0x6b] @ dec9 (unat k) @ [0x2e, 0x62, 0x69, 0x6e])"

definition GROUP_FMT :: "bytes \<Rightarrow> u32 \<Rightarrow> bytes" where
  "GROUP_FMT url k = take 1023 (url @ [0x67, 0x72, 0x70] @ dec9 (unat k) @ [0x2e, 0x62, 0x69, 0x6e])"

section \<open>Cache\<close>

fun find_block :: "u32 \<Rightarrow> ptr list \<Rightarrow> ('w, ptr) http_vm" where
  "find_block num [] = ret 0"
| "find_block num (p # ps) = bnd (block_of p) (\<lambda>b. if block_num b = num then ret p else find_block num ps)"

definition bf_find_block :: "u32 \<Rightarrow> ('w, ptr) http_vm" where
  "bf_find_block num = bnd (gets bf_cached_blocks) (\<lambda>els. bnd (find_block num els) (\<lambda>p.
     andthen (if p \<noteq> 0 \<and> hd els \<noteq> p then modify (\<lambda>s. s\<lparr>bf_cached_blocks := p # remove1 p els\<rparr>) else ret ())
     (ret p)))"

definition add_n_cached :: "int \<Rightarrow> ('w, unit) http_vm" where
  "add_n_cached d = bnd (gets bf_n_cached_blocks) (\<lambda>n. bnd (cint (n + d)) (\<lambda>n'. modify (\<lambda>s. s\<lparr>bf_n_cached_blocks := n'\<rparr>)))"

definition bf_free_block :: "ptr \<Rightarrow> ('w, unit) http_vm" where
  "bf_free_block p = andthen (add_n_cached (- 1)) (bnd (block_of p) (\<lambda>b.
     modify (\<lambda>s. s\<lparr>bf_cached_blocks := remove1 p (bf_cached_blocks s), cblocks := (cblocks s)(p := None)\<rparr>)))"

text \<open>\<open>list_for_each_prev_safe\<close> over the cache.\<close>

fun evict_blocks :: "ptr list \<Rightarrow> ('w, unit) http_vm" where
  "evict_blocks [] = ret ()"
| "evict_blocks (p # ps) = bnd (block_of p) (\<lambda>b.
     if cb_state b = CBLOCK_LOADED then
       andthen (bf_free_block p) (bnd (gets (\<lambda>s. bf_n_cached_blocks s < bf_n_cached_blocks_max s)) (\<lambda>room.
         if room then ret () else evict_blocks ps))
     else evict_blocks ps)"

definition bf_add_block :: "u32 \<Rightarrow> ('w, ptr) http_vm" where
  "bf_add_block num = andthen
     (bnd (gets id) (\<lambda>s. if bf_n_cached_blocks s \<ge> bf_n_cached_blocks_max s then evict_blocks (rev (bf_cached_blocks s)) else ret ()))
     (bnd (gets bf_block_size) (\<lambda>bs. bnd (cint (bs * 512)) (\<lambda>sz. bnd (new_buffer sz) (\<lambda>fb. bnd (gets http_next) (\<lambda>p.
      andthen (modify (\<lambda>s. s\<lparr>http_next := Suc p, cblocks := (cblocks s)(p \<mapsto> \<lparr>block_num = num, cb_state = CBLOCK_LOADING, cb_fbuf = fb\<rparr>),
         bf_cached_blocks := p # bf_cached_blocks s\<rparr>))
      (andthen (add_n_cached 1) (ret p)))))))"

definition bf_get_sector_count_http :: "'w block_device_http_scheme \<Rightarrow> u64" where
  "bf_get_sector_count_http s = word_of_int (bf_nb_sectors s)"

section \<open>Loading\<close>

definition bf_start_load_block :: "int \<Rightarrow> ('w, unit) http_vm" where
  "bf_start_load_block num = bnd (bf_add_block (u32_of_int num)) (\<lambda>b.
     bnd (gets bf_n_read_blocks) (\<lambda>r. bnd (cint64 (r + 1)) (\<lambda>r'. andthen (modify (\<lambda>s. s\<lparr>bf_n_read_blocks := r'\<rparr>))
     (bnd (gets bf_url) (\<lambda>url. fs_wget_http (BLK_FMT url (u32_of_int num)) (Wget_Block b))))))"

text \<open>The loop over \<open>tab_block_num\<close>: the entries of \<open>tab_block\<close> and \<open>req_flag\<close>.\<close>

fun prefetch_blocks :: "int list \<Rightarrow> ('w, ptr list \<times> bool) http_vm" where
  "prefetch_blocks [] = ret ([], False)"
| "prefetch_blocks (k # ks) = bnd (bf_find_block (u32_of_int k)) (\<lambda>p.
     if p = 0 then bnd (bf_add_block (u32_of_int k)) (\<lambda>q. bnd (prefetch_blocks ks) (\<lambda>(ps, _). ret (q # ps, True)))
     else bnd (prefetch_blocks ks) (\<lambda>(ps, r). ret (0 # ps, r)))"

definition bf_start_load_prefetch_group :: "int \<Rightarrow> int list \<Rightarrow> ('w, unit) http_vm" where
  "bf_start_load_prefetch_group grp tab_block_num = bnd (prefetch_blocks tab_block_num) (\<lambda>(ps, req_flag).
     if req_flag then bnd (gets bf_url) (\<lambda>url.
       fs_wget_http (GROUP_FMT url (u32_of_int grp)) (Wget_Group \<lparr>group_num = grp, tab_block = ps\<rparr>))
     else ret ())"

section \<open>Requests\<close>

text \<open>\<open>file_buffer_read\<close> of \<open>n\<close> sectors from the sector \<open>offset\<close> of a buffer into \<open>io_buf\<close>, and the steps after it.\<close>

definition read_sectors :: "file_buffer \<Rightarrow> int \<Rightarrow> int \<Rightarrow> ('w, unit) http_vm" where
  "read_sectors fb offset n = bnd (gets id) (\<lambda>s.
     bnd (cint (offset * 512)) (\<lambda>o512. bnd (cint (bf_sector_index s * 512)) (\<lambda>i512. bnd (cint (n * 512)) (\<lambda>n512.
     bnd (lift (peek (fb_data fb) (uint (usize o512)) (unat (usize n512)))) (\<lambda>d.
     bnd (lift (poke (bf_io_buf s) i512 d)) (\<lambda>io. modify (\<lambda>s. s\<lparr>bf_io_buf := io\<rparr>)))))))"

definition write_sectors :: "int \<Rightarrow> file_buffer \<Rightarrow> int \<Rightarrow> int \<Rightarrow> ('w, unit) http_vm" where
  "write_sectors cluster fb offset n = bnd (gets id) (\<lambda>s.
     bnd (cint (offset * 512)) (\<lambda>o512. bnd (cint (bf_sector_index s * 512)) (\<lambda>i512. bnd (cint (n * 512)) (\<lambda>n512.
     bnd (lift (peek (bf_io_buf s) i512 (unat (usize n512)))) (\<lambda>d.
     bnd (lift (poke (fb_data fb) (uint (usize o512)) d)) (\<lambda>d'.
     modify (\<lambda>s. s\<lparr>bf_clusters := (bf_clusters s)[nat cluster := Some (fb\<lparr>fb_data := d'\<rparr>)]\<rparr>)))))))"

definition advance :: "int \<Rightarrow> ('w, unit) http_vm" where
  "advance n = bnd (gets bf_sector_index) (\<lambda>i. bnd (cint (i + n)) (\<lambda>i'.
     modify (\<lambda>s. s\<lparr>bf_sector_index := i', bf_sector_num := bf_sector_num s + word_of_int n\<rparr>)))"

text \<open>A new cluster with the data of the loaded block \<open>b\<close>.\<close>

definition new_cluster :: "int \<Rightarrow> cached_block \<Rightarrow> ('w, unit) http_vm" where
  "new_cluster cluster_num b = bnd (gets id) (\<lambda>s.
     bnd (cint (bf_sectors_per_cluster s * 512)) (\<lambda>cluster_size. bnd (new_buffer cluster_size) (\<lambda>fb.
     bnd (cint (cluster_num * bf_sectors_per_cluster s)) (\<lambda>first.
     bnd (cint ((first AND (bf_block_size s - 1)) * 512)) (\<lambda>cluster_offset.
     bnd (lift (peek (fb_data (cb_fbuf b)) (uint (usize cluster_offset)) (unat (usize cluster_size)))) (\<lambda>buf.
     bnd (lift (poke (fb_data fb) 0 buf)) (\<lambda>d.
     andthen (modify (\<lambda>s. s\<lparr>bf_clusters := (bf_clusters s)[nat cluster_num := Some (fb\<lparr>fb_data := d\<rparr>)]\<rparr>))
     (bnd (cint (bf_n_allocated_clusters s + 1)) (\<lambda>a. modify (\<lambda>s. s\<lparr>bf_n_allocated_clusters := a\<rparr>))))))))))"

text \<open>One round of the loop; the result is whether the request has to wait.\<close>

definition rw_step :: "unit \<Rightarrow> ('w, (unit, bool) step) http_vm" where
  "rw_step _ = bnd (gets id) (\<lambda>s. bnd (cint (bf_sector_count s - bf_sector_index s)) (\<lambda>n.
     if n = 0 then ret (Done False)
     else let spc = bf_sectors_per_cluster s; bs = bf_block_size s in
     andthen (guard SignedOverflow (spc \<noteq> 0))
     (let cluster_num = int_of_u32 (ucast (bf_sector_num s div word_of_int spc)) in
      andthen (guard OutOfBounds (0 \<le> cluster_num \<and> cluster_num < int (length (bf_clusters s))))
      (case bf_clusters s ! nat cluster_num of
         Some c \<Rightarrow>
           let offset = int_of_u32 (ucast (bf_sector_num s mod word_of_int spc)); n = min_int n (spc - offset) in
           andthen (if bf_is_write s then write_sectors cluster_num c offset n else read_sectors c offset n)
           (andthen (advance n) (ret (Again ())))
       | None \<Rightarrow>
           andthen (guard SignedOverflow (bs \<noteq> 0))
           (let num = int_of_u32 (ucast (bf_sector_num s div word_of_int bs));
                offset = int_of_u32 (ucast (bf_sector_num s mod word_of_int bs));
                n = min_int n (bs - offset) in
            andthen (modify (\<lambda>s. s\<lparr>bf_cur_block_num := num\<rparr>))
            (bnd (bf_find_block (u32_of_int num)) (\<lambda>p.
             if p = 0 then andthen (bf_start_load_block num) (ret (Done True))
             else bnd (block_of p) (\<lambda>b.
               if cb_state b = CBLOCK_LOADING then ret (Done True)
               else if bf_is_write s then andthen (new_cluster cluster_num b) (ret (Again ()))
               else andthen (read_sectors (cb_fbuf b) offset n)
                 (andthen (advance n)
                 (andthen (modify (\<lambda>s. s\<lparr>bf_cur_block_num := - 1\<rparr>)) (ret (Again ()))))))))))))"

definition bf_rw_async1 :: "(int \<Rightarrow> ('w, unit) http_vm) \<Rightarrow> bool \<Rightarrow> ('w, int) http_vm" where
  "bf_rw_async1 cb is_sync = bnd (loop rw_step ()) (\<lambda>wait.
     if wait then ret 1
     else andthen (if is_sync then ret () else bnd (gets bf_cb) (\<lambda>set. andthen (guard NullDeref set) (cb 0))) (ret 0))"

definition bf_update_block :: "(int \<Rightarrow> ('w, unit) http_vm) \<Rightarrow> ptr \<Rightarrow> bytes \<Rightarrow> ('w, unit) http_vm" where
  "bf_update_block cb p data = bnd (block_of p) (\<lambda>b. andthen (guard AssertFail (cb_state b = CBLOCK_LOADING))
     (bnd (gets bf_block_size) (\<lambda>bs. bnd (cint (bs * 512)) (\<lambda>sz.
      bnd (lift (peek data 0 (unat (usize sz)))) (\<lambda>d.
      bnd (lift (poke (fb_data (cb_fbuf b)) 0 d)) (\<lambda>d'.
      andthen (upd_block p (\<lambda>b. b\<lparr>cb_fbuf := (cb_fbuf b)\<lparr>fb_data := d'\<rparr>, cb_state := CBLOCK_LOADED\<rparr>))
      (bnd (gets bf_cur_block_num) (\<lambda>cur. if block_num b = u32_of_int cur
         then bnd (bf_rw_async1 cb False) (\<lambda>_. ret ()) else ret ()))))))))"

definition bf_read_onload :: "(int \<Rightarrow> ('w, unit) http_vm) \<Rightarrow> ptr \<Rightarrow> int \<Rightarrow> bytes \<Rightarrow> ('w, unit) http_vm" where
  "bf_read_onload cb p err data = bnd (block_of p) (\<lambda>b. if err < 0 then fault Abort
     else bnd (gets bf_block_size) (\<lambda>bs. bnd (cint (bs * 512)) (\<lambda>sz.
       andthen (guard AssertFail (of_nat (length data) = usize sz)) (bf_update_block cb p data))))"

text \<open>The loop over the blocks of a group.\<close>

fun update_group :: "(int \<Rightarrow> ('w, unit) http_vm) \<Rightarrow> int \<Rightarrow> ptr list \<Rightarrow> int \<Rightarrow> bytes \<Rightarrow> ('w, unit) http_vm" where
  "update_group cb block_bytes [] i data = ret ()"
| "update_group cb block_bytes (p # ps) i data =
     andthen (if p = 0 then ret () else bnd (cint (block_bytes * i)) (\<lambda>off.
       andthen (guard OutOfBounds (0 \<le> off \<and> off \<le> int (length data))) (bf_update_block cb p (drop (nat off) data))))
     (update_group cb block_bytes ps (i + 1) data)"

definition bf_prefetch_group_onload ::
  "(int \<Rightarrow> ('w, unit) http_vm) \<Rightarrow> prefetch_group_request \<Rightarrow> int \<Rightarrow> bytes \<Rightarrow> ('w, unit) http_vm" where
  "bf_prefetch_group_onload cb req err data = (if err < 0 then fault Abort
     else bnd (gets bf_block_size) (\<lambda>bs. bnd (cint (bs * 512)) (\<lambda>block_bytes.
       bnd (cint (block_bytes * int (length (tab_block req)))) (\<lambda>total.
       andthen (guard AssertFail (of_nat (length data) = usize total))
       (update_group cb block_bytes (tab_block req) 0 data)))))"

text \<open>The result of a read is in \<open>bf_io_buf\<close>, which is the buffer of the caller.\<close>

definition bf_read_async_http :: "(int \<Rightarrow> ('w, unit) http_vm) \<Rightarrow> u64 \<Rightarrow> bytes \<Rightarrow> int \<Rightarrow> ('w, int) http_vm" where
  "bf_read_async_http cb sector buf n =
     andthen (modify (\<lambda>s. s\<lparr>bf_is_write := False, bf_sector_num := sector, bf_io_buf := buf, bf_sector_count := n,
       bf_sector_index := 0, bf_cb := True\<rparr>))
     (bnd (gets bf_n_read_sectors) (\<lambda>r. bnd (cint64 (r + n)) (\<lambda>r'.
      andthen (modify (\<lambda>s. s\<lparr>bf_n_read_sectors := r'\<rparr>)) (bf_rw_async1 cb True))))"

definition bf_write_async_http :: "(int \<Rightarrow> ('w, unit) http_vm) \<Rightarrow> u64 \<Rightarrow> bytes \<Rightarrow> int \<Rightarrow> ('w, int) http_vm" where
  "bf_write_async_http cb sector buf n =
     andthen (modify (\<lambda>s. s\<lparr>bf_is_write := True, bf_sector_num := sector, bf_io_buf := buf, bf_sector_count := n,
       bf_sector_index := 0, bf_cb := True\<rparr>))
     (bnd (gets bf_n_write_sectors) (\<lambda>r. bnd (cint64 (r + n)) (\<lambda>r'.
      andthen (modify (\<lambda>s. s\<lparr>bf_n_write_sectors := r'\<rparr>)) (bf_rw_async1 cb True))))"

section \<open>Initialisation\<close>

text \<open>
  What the JSON functions give for the configuration: whether it parses, the integers of
  \<open>vm_get_int\<close> and \<open>vm_get_int_opt\<close> (\<open>None\<close> when they report an error), and the value of \<open>prefetch\<close>, an element of
  which is \<open>None\<close> when it is no integer.
\<close>

datatype json_prefetch = Json_Undefined | Json_Other | Json_Array "int option list"

record http_config =
  cfg_valid :: bool
  cfg_block_size :: "int option"
  cfg_n_block :: "int option"
  cfg_prefetch_group_len :: "int option"
  cfg_prefetch :: json_prefetch

text \<open>The loop over the array; \<open>els\<close> are its elements from \<open>idx\<close> on.\<close>

definition prefetch_step :: "int \<times> int option list \<Rightarrow> ('w, (int \<times> int option list, unit) step) http_vm" where
  "prefetch_step = (\<lambda>(idx, els). if els = [] then ret (Done ()) else
     bnd (gets bf_prefetch_group_len) (\<lambda>len.
     let l = min_int (int (length els)) len in
     if None \<in> set (take (nat l) els) then fault Abort
     else let nums = map the (take (nat l) els) in
       andthen (if l = 1 then bnd (bf_find_block (u32_of_int (hd nums))) (\<lambda>p.
           if p = 0 then bf_start_load_block (hd nums) else ret ())
         else andthen (guard SignedOverflow (len \<noteq> 0)) (bf_start_load_prefetch_group (cdiv idx len) nums))
       (bnd (cint (idx + l)) (\<lambda>idx'. ret (Again (idx', drop (nat l) els))))))"

definition bf_init_onload :: "('w, unit) http_vm option \<Rightarrow> int \<Rightarrow> http_config \<Rightarrow> ('w, unit) http_vm" where
  "bf_init_onload start_cb err cfg = (if err < 0 \<or> \<not> cfg_valid cfg then fault Abort
     else case cfg_block_size cfg of None \<Rightarrow> fault Abort | Some block_size_kb \<Rightarrow>
     bnd (cint (block_size_kb * 2)) (\<lambda>bs.
     if bs \<le> 0 \<or> bs AND (bs - 1) \<noteq> 0 then fault Abort
     else case cfg_n_block cfg of None \<Rightarrow> fault Abort | Some nb \<Rightarrow>
     if nb \<le> 0 then fault Abort
     else bnd (gets bf_max_cache_size_kb) (\<lambda>max_kb.
     let sectors = sint (word_of_int bs * word_of_int nb :: u64) in
     bnd (cint64 (sectors + 8 - 1)) (\<lambda>t.
     let nc = int_of_u32 (ucast (word_of_int (cdiv t 8) :: u64)) in
     andthen (guard OutOfBounds (0 \<le> nc))
     (andthen (modify (\<lambda>s. s\<lparr>bf_block_size := bs, bf_nb_blocks := nb, bf_nb_sectors := sectors, bf_n_cached_blocks := 0,
        bf_n_cached_blocks_max := max_int 1 (cdiv max_kb block_size_kb), bf_cur_block_num := - 1, bf_sectors_per_cluster := 8,
        bf_n_clusters := nc, bf_clusters := replicate (nat nc) None\<rparr>))
     (case cfg_prefetch_group_len cfg of None \<Rightarrow> fault Abort | Some len \<Rightarrow>
      if len > PREFETCH_GROUP_LEN_MAX then fault Abort
      else andthen (modify (\<lambda>s. s\<lparr>bf_prefetch_group_len := len\<rparr>))
       (andthen (case cfg_prefetch cfg of Json_Undefined \<Rightarrow> ret () | Json_Other \<Rightarrow> fault Abort
          | Json_Array els \<Rightarrow> loop prefetch_step (0, els))
        (case start_cb of None \<Rightarrow> ret () | Some start \<Rightarrow> start))))))))"

text \<open>\<open>strrchr (url, '/')\<close>: the path with its last slash.\<close>

definition url_dir :: "bytes \<Rightarrow> bytes" where
  "url_dir url = rev (dropWhile (\<lambda>c. c \<noteq> 0x2f) (rev url))"

definition zero_http :: "host \<Rightarrow> block_device_http" where
  "zero_http h = \<lparr>bf_max_cache_size_kb = 0, bf_url = [], bf_nb_sectors = 0, bf_block_size = 0, bf_nb_blocks = 0, bf_cached_blocks = [],
     bf_n_cached_blocks = 0, bf_n_cached_blocks_max = 0, bf_sectors_per_cluster = 0, bf_clusters = [], bf_n_clusters = 0,
     bf_n_allocated_clusters = 0, bf_n_read_sectors = 0, bf_n_read_blocks = 0, bf_n_write_sectors = 0, bf_is_write = False,
     bf_sector_num = 0, bf_cur_block_num = 0, bf_sector_index = 0, bf_sector_count = 0, bf_cb = False, bf_io_buf = [],
     bf_prefetch_group_len = 0, cblocks = Map.empty, http_next = 1, http_host = h, http_calls = 0, wgets = []\<rparr>"

definition block_device_init_http :: "bytes \<Rightarrow> int \<Rightarrow> ('w, unit) http_vm" where
  "block_device_init_http url max_kb = andthen (guard OutOfBounds (length url < 1024))
     (andthen (modify (\<lambda>s. s\<lparr>bf_url := url_dir url, bf_cached_blocks := [], bf_max_cache_size_kb := max_kb\<rparr>))
     (fs_wget_http url Wget_Config))"

end
