(* ===== verification/Http_Cache.thy ===== *)
theory Http_Cache
  imports Block_Http
begin

text \<open>
  The cache of the block device over HTTP: its invariant and the rules of the operations on it.  \<open>img k\<close> is
  block \<open>k\<close> of the image and \<open>srv url\<close> the file the server has under a name.
\<close>

section \<open>Sectors of a buffer\<close>

definition chunk :: "bytes \<Rightarrow> nat \<Rightarrow> bytes" where
  "chunk d i = take 512 (drop (512 * i) d)"

lemma chunks_concat: "concat (map (chunk d) [k..<k + n]) = take (512 * n) (drop (512 * k) d)"
proof (induction n)
  case (Suc n)
  have "take (512 * Suc n) (drop (512 * k) d) = take (512 * n) (drop (512 * k) d) @ take 512 (drop (512 * n) (drop (512 * k) d))"
    using take_add [of "512 * n" 512 "drop (512 * k) d"] by (simp add: add.commute)
  with Suc show ?case by (simp add: chunk_def add.commute distrib_left)
qed simp

lemma chunk_blit:
  assumes "length e = 512 * n" "512 * k + length e \<le> length d"
  shows "chunk (blit d (512 * k) e) i = (if k \<le> i \<and> i < k + n then chunk e (i - k) else chunk d i)"
proof (rule nth_equalityI)
  have len: "length (blit d (512 * k) e) = length d" by (rule length_blit [OF assms(2)])
  show "length (chunk (blit d (512 * k) e) i) = length (if k \<le> i \<and> i < k + n then chunk e (i - k) else chunk d i)"
    using assms len by (auto simp: chunk_def)
  fix x assume x: "x < length (chunk (blit d (512 * k) e) i)"
  then have x512: "x < 512" "512 * i + x < length d" using len by (auto simp: chunk_def)
  have "chunk (blit d (512 * k) e) i ! x = blit d (512 * k) e ! (512 * i + x)" using x512 len by (simp add: chunk_def)
  also have "\<dots> = (if k \<le> i \<and> i < k + n then e ! (512 * i + x - 512 * k) else d ! (512 * i + x))"
    using nth_blit [OF assms(2) x512(2)] assms(1) x512(1) by auto
  also have "\<dots> = (if k \<le> i \<and> i < k + n then chunk e (i - k) else chunk d i) ! x"
  proof (cases "k \<le> i \<and> i < k + n")
    case True
    then have "512 * (i - k) + x < length e" using assms(1) x512(1) by linarith
    moreover have "512 * i + x - 512 * k = 512 * (i - k) + x" using True by (simp add: diff_mult_distrib2)
    ultimately show ?thesis using True x512 by (simp add: chunk_def)
  next
    case False
    then show ?thesis using x512 by (auto simp: chunk_def)
  qed
  finally show "chunk (blit d (512 * k) e) i ! x = (if k \<le> i \<and> i < k + n then chunk e (i - k) else chunk d i) ! x" .
qed

lemma chunk_chunk: "i < n \<Longrightarrow> chunk (take (512 * n) (drop (512 * k) d)) i = chunk d (k + i)"
  by (simp add: chunk_def drop_take min_def algebra_simps)

section \<open>Numbers\<close>

lemma u64_small: "j < 2 ^ 40 \<Longrightarrow> unat (of_nat j :: u64) = j"
  by (simp add: unat_of_nat take_bit_nat_eq_self)

lemma int_of_u64:
  assumes "unat (x :: u64) < 2147483648"
  shows "int_of_u32 (ucast x) = int (unat x)"
proof -
  have "unat (ucast x :: u32) = unat x" using assms by (simp add: unsigned_ucast_eq take_bit_nat_eq_self)
  with assms show ?thesis by (simp add: int_of_u32_small)
qed

lemma sector_div_mod:
  assumes "j < 2 ^ 40" "0 < n" "n < 2147483648" "j div n < 2147483648"
  shows "int_of_u32 (ucast ((of_nat j :: u64) div word_of_int (int n))) = int (j div n)"
    "int_of_u32 (ucast ((of_nat j :: u64) mod word_of_int (int n))) = int (j mod n)"
proof -
  have u: "unat (of_nat j :: u64) = j" "unat (of_nat n :: u64) = n" using assms by (simp_all add: u64_small)
  have m: "j mod n < 2147483648" using mod_less_divisor [OF assms(2), of j] assms(3) by linarith
  have "unat ((of_nat j :: u64) div of_nat n) = j div n" by (simp add: unat_div u)
  then show "int_of_u32 (ucast ((of_nat j :: u64) div word_of_int (int n))) = int (j div n)"
    using int_of_u64 [of "(of_nat j :: u64) div of_nat n"] assms(4) by simp
  have "unat ((of_nat j :: u64) mod of_nat n) = j mod n" by (simp add: unat_mod u)
  then show "int_of_u32 (ucast ((of_nat j :: u64) mod word_of_int (int n))) = int (j mod n)"
    using int_of_u64 [of "(of_nat j :: u64) mod of_nat n"] m by simp
qed

lemma usize_nat: "n < 2147483648 \<Longrightarrow> unat (usize (int n)) = n" "n < 2147483648 \<Longrightarrow> uint (usize (int n)) = int n"
  by (simp_all add: usize_def unat_of_nat uint_nat take_bit_nat_eq_self)

lemma wlp_cint_nat:
  "(n < 2147483648 \<Longrightarrow> Q (int n) s) \<Longrightarrow> F SignedOverflow \<Longrightarrow> wlp (cint (int n)) Q F s"
  by (auto simp: wlp_cint int_in_range_def)

section \<open>Invariant of the cache\<close>

text \<open>The blocks a transfer fills.\<close>

fun client_blocks :: "http_client \<Rightarrow> ptr list" where
  "client_blocks Wget_Config = []"
| "client_blocks (Wget_Block p) = [p]"
| "client_blocks (Wget_Group r) = filter (\<lambda>p. p \<noteq> 0) (tab_block r)"

definition awaited :: "(bytes \<times> http_client) list \<Rightarrow> ptr list" where
  "awaited ws = concat (map (client_blocks \<circ> snd) ws)"

lemma awaited_simps [simp]: "awaited [] = []" "awaited (a @ b) = awaited a @ awaited b" "awaited ((u, c) # ws) = client_blocks c @ awaited ws"
  by (simp_all add: awaited_def)

definition holds :: "'w block_device_http_scheme \<Rightarrow> ptr \<Rightarrow> u32 \<Rightarrow> bool" where
  "holds s p k \<longleftrightarrow> (\<exists>b. cblocks s p = Some b \<and> block_num b = k)"

text \<open>What a transfer delivers: the blocks it was started for.\<close>

definition slices :: "(nat \<Rightarrow> bytes) \<Rightarrow> 'w block_device_http_scheme \<Rightarrow> ptr list \<Rightarrow> bytes \<Rightarrow> bool" where
  "slices img s ps d \<longleftrightarrow> length d = 512 * nat (bf_block_size s) * length ps
     \<and> (\<forall>i < length ps. ps ! i \<noteq> 0 \<longrightarrow> (\<exists>k. holds s (ps ! i) k
         \<and> take (512 * nat (bf_block_size s)) (drop (512 * nat (bf_block_size s) * i) d) = img (unat k)))"

fun served :: "(bytes \<Rightarrow> bytes) \<Rightarrow> (nat \<Rightarrow> bytes) \<Rightarrow> 'w block_device_http_scheme \<Rightarrow> bytes \<Rightarrow> http_client \<Rightarrow> bool" where
  "served srv img s url Wget_Config = False"
| "served srv img s url (Wget_Block p) = slices img s [p] (srv url)"
| "served srv img s url (Wget_Group r) = slices img s (tab_block r) (srv url)"

definition block_ok :: "(nat \<Rightarrow> bytes) \<Rightarrow> int \<Rightarrow> cached_block \<Rightarrow> bool" where
  "block_ok img bs b \<longleftrightarrow> block_num b \<noteq> - 1 \<and> length (fb_data (cb_fbuf b)) = 512 * nat bs
     \<and> (cb_state b = CBLOCK_LOADED \<longrightarrow> fb_data (cb_fbuf b) = img (unat (block_num b)))"

definition loading :: "'w block_device_http_scheme \<Rightarrow> ptr \<Rightarrow> bool" where
  "loading s p \<longleftrightarrow> p \<in> set (bf_cached_blocks s) \<and> (\<exists>b. cblocks s p = Some b \<and> cb_state b = CBLOCK_LOADING)"

text \<open>
  Every block of the cache has its own number and a buffer of the size of a block, which holds the block of the
  image once it is loaded; the blocks being loaded are those in \<open>A\<close> and those the transfers under way fill.
\<close>

definition cache_ok :: "(bytes \<Rightarrow> bytes) \<Rightarrow> (nat \<Rightarrow> bytes) \<Rightarrow> ptr list \<Rightarrow> 'w block_device_http_scheme \<Rightarrow> bool" where
  "cache_ok srv img A s \<longleftrightarrow> distinct (bf_cached_blocks s)
     \<and> (\<forall>p \<in> set (bf_cached_blocks s). p \<noteq> 0 \<and> p < http_next s \<and> (\<exists>b. cblocks s p = Some b \<and> block_ok img (bf_block_size s) b))
     \<and> (\<forall>p \<in> set (bf_cached_blocks s). \<forall>q \<in> set (bf_cached_blocks s). \<forall>k. holds s p k \<longrightarrow> holds s q k \<longrightarrow> p = q)
     \<and> distinct (A @ awaited (wgets s)) \<and> (\<forall>p. p \<in> set (A @ awaited (wgets s)) \<longleftrightarrow> loading s p)
     \<and> (\<forall>(url, c) \<in> set (wgets s). served srv img s url c)"

lemma cache_okD:
  assumes "cache_ok srv img A s" "p \<in> set (bf_cached_blocks s)"
  shows "p \<noteq> 0" "p < http_next s" "\<exists>b. cblocks s p = Some b \<and> block_ok img (bf_block_size s) b"
  using assms by (auto simp: cache_ok_def)

lemma cache_unique:
  "cache_ok srv img A s \<Longrightarrow> p \<in> set (bf_cached_blocks s) \<Longrightarrow> q \<in> set (bf_cached_blocks s) \<Longrightarrow> holds s p k \<Longrightarrow> holds s q k \<Longrightarrow> p = q"
  by (auto simp: cache_ok_def)

text \<open>The parts of the state the cache does not depend on.\<close>

lemma holds_cong: "cblocks t = cblocks s \<Longrightarrow> holds t = holds s"
  by (intro ext) (simp add: holds_def)

lemma cache_cong:
  assumes "bf_cached_blocks t = bf_cached_blocks s" "cblocks t = cblocks s" "http_next t = http_next s" "wgets t = wgets s"
    "bf_block_size t = bf_block_size s"
  shows "cache_ok srv img A t = cache_ok srv img A s"
proof -
  have sl: "slices img t ps d = slices img s ps d" for ps d using assms by (simp add: slices_def holds_cong [OF assms(2)])
  have "served srv img t url c = served srv img s url c" for url c by (cases c) (simp_all add: sl)
  moreover have "loading t p = loading s p" for p using assms by (simp add: loading_def)
  ultimately show ?thesis using assms by (simp add: cache_ok_def holds_cong [OF assms(2)])
qed


lemma served_mono:
  assumes "served srv img s url c" "bf_block_size t = bf_block_size s" "\<forall>q \<in> set (client_blocks c). \<forall>k. holds s q k \<longrightarrow> holds t q k"
  shows "served srv img t url c"
proof -
  have sl: "slices img s ps d \<Longrightarrow> slices img t ps d" if "\<forall>q \<in> set ps. q \<noteq> 0 \<longrightarrow> (\<forall>k. holds s q k \<longrightarrow> holds t q k)" for ps d
    unfolding slices_def assms(2) using that by (metis nth_mem)
  show ?thesis using assms(1,3) by (cases c) (auto intro!: sl)
qed

text \<open>
  How one state of the cache may follow another: the blocks being loaded, apart from those in \<open>N\<close>, are blocks that
  were being loaded before, and none of these is lost.
\<close>

definition cache_step :: "ptr set \<Rightarrow> 'w block_device_http_scheme \<Rightarrow> 'w block_device_http_scheme \<Rightarrow> bool" where
  "cache_step N s t \<longleftrightarrow> (\<exists>l n h q c. t = s\<lparr>bf_cached_blocks := l, bf_n_cached_blocks := n, cblocks := h, http_next := q, http_calls := c\<rparr>)
     \<and> http_next s \<le> http_next t \<and> (\<forall>p \<in> N. http_next s \<le> p)
     \<and> (\<forall>p \<in> set (bf_cached_blocks t). p \<in> N \<or> p \<in> set (bf_cached_blocks s) \<and> cblocks t p = cblocks s p)
     \<and> (\<forall>p. loading s p \<longrightarrow> p \<in> set (bf_cached_blocks t) \<and> cblocks t p = cblocks s p)"

lemma cache_step_fields:
  assumes "cache_step N s t"
  shows "bf_clusters t = bf_clusters s" "bf_block_size t = bf_block_size s" "bf_sectors_per_cluster t = bf_sectors_per_cluster s"
    "bf_nb_sectors t = bf_nb_sectors s" "bf_nb_blocks t = bf_nb_blocks s" "http_host t = http_host s" "bf_url t = bf_url s" "wgets t = wgets s"
    "bf_sector_num t = bf_sector_num s" "bf_sector_index t = bf_sector_index s" "bf_sector_count t = bf_sector_count s"
    "bf_io_buf t = bf_io_buf s" "bf_is_write t = bf_is_write s" "bf_cur_block_num t = bf_cur_block_num s" "bf_cb t = bf_cb s"
    "bf_prefetch_group_len t = bf_prefetch_group_len s" "block_device_http.more t = block_device_http.more s"
  using assms by (auto simp: cache_step_def)

lemma cache_step_refl: "cache_step {} s s"
  unfolding cache_step_def by (intro conjI exI [of _ "bf_cached_blocks s"] exI [of _ "bf_n_cached_blocks s"] exI [of _ "cblocks s"]
    exI [of _ "http_next s"] exI [of _ "http_calls s"]) (auto simp: loading_def)

lemma cache_step_loading: "cache_step N s t \<Longrightarrow> loading s p \<Longrightarrow> loading t p \<and> cblocks t p = cblocks s p"
  by (auto simp: cache_step_def loading_def)

lemma cache_step_trans:
  assumes st: "cache_step M s t" and tu: "cache_step N t u"
  shows "cache_step (M \<union> N) s u"
proof -
  obtain l n h q c where t: "t = s\<lparr>bf_cached_blocks := l, bf_n_cached_blocks := n, cblocks := h, http_next := q, http_calls := c\<rparr>"
    using st by (auto simp: cache_step_def)
  obtain l' n' h' q' c' where u: "u = t\<lparr>bf_cached_blocks := l', bf_n_cached_blocks := n', cblocks := h', http_next := q', http_calls := c'\<rparr>"
    using tu by (auto simp: cache_step_def)
  have "u = s\<lparr>bf_cached_blocks := l', bf_n_cached_blocks := n', cblocks := h', http_next := q', http_calls := c'\<rparr>" by (simp add: u t)
  moreover have "p \<in> set (bf_cached_blocks u) \<and> cblocks u p = cblocks s p" if "loading s p" for p
    using cache_step_loading [OF st that] tu by (auto simp: cache_step_def)
  moreover have "p \<in> M \<union> N \<or> p \<in> set (bf_cached_blocks s) \<and> cblocks u p = cblocks s p" if "p \<in> set (bf_cached_blocks u)" for p
    using that st tu by (fastforce simp: cache_step_def)
  moreover have "http_next s \<le> http_next u" "\<forall>p \<in> M \<union> N. http_next s \<le> p"
    using st tu unfolding cache_step_def by (auto intro: order_trans)
  ultimately show ?thesis unfolding cache_step_def by blast
qed

definition ovf :: "fault \<Rightarrow> bool" where
  "ovf f \<longleftrightarrow> f = SignedOverflow"

lemma ovf_simps [simp]: "ovf SignedOverflow" "\<not> ovf OutOfBounds" "\<not> ovf NullDeref" "\<not> ovf UseAfterFree" "\<not> ovf AssertFail" "\<not> ovf Abort"
  by (simp_all add: ovf_def)

section \<open>Finding a block\<close>

lemma wp_find_block_list:
  assumes "\<forall>p \<in> set ps. p \<noteq> 0 \<and> cblocks s p \<noteq> None" "(\<forall>p \<in> set ps. \<not> holds s p k) \<Longrightarrow> Q 0 s"
    and "\<And>p. p \<in> set ps \<Longrightarrow> holds s p k \<Longrightarrow> Q p s"
  shows "wlp (find_block k ps) Q F s"
  using assms
proof (induction ps)
  case (Cons p ps)
  then obtain b where b: "cblocks s p = Some b" "p \<noteq> 0" by auto
  have "wlp (find_block k ps) Q F s" if "block_num b \<noteq> k"
    using that b Cons by (intro Cons.IH) (auto simp: holds_def)
  then show ?case using b Cons.prems(3) [of p] by (simp add: wlp_bnd wlp_load wlp_ret holds_def)
qed (simp add: wlp_ret)

lemma cache_perm:
  assumes "cache_ok srv img A s" "distinct l" "set l = set (bf_cached_blocks s)"
  shows "cache_ok srv img A (s\<lparr>bf_cached_blocks := l\<rparr>)" (is "cache_ok _ _ _ ?t")
proof -
  have h: "holds ?t = holds s" by (rule holds_cong) simp
  have "slices img ?t ps d = slices img s ps d" for ps d by (simp add: slices_def h)
  then have "served srv img ?t url c = served srv img s url c" for url c by (cases c) simp_all
  moreover have "loading ?t p = loading s p" for p using assms(3) by (simp add: loading_def)
  ultimately show ?thesis using assms by (simp add: cache_ok_def h)
qed

lemma perm_step: "set l = set (bf_cached_blocks s) \<Longrightarrow> cache_step {} s (s\<lparr>bf_cached_blocks := l\<rparr>)"
  unfolding cache_step_def by (intro conjI exI [of _ l] exI [of _ "bf_n_cached_blocks s"] exI [of _ "cblocks s"]
    exI [of _ "http_next s"] exI [of _ "http_calls s"]) (auto simp: loading_def)

lemma wp_bf_find_block:
  assumes inv: "cache_ok srv img A s"
    and miss: "(\<forall>p \<in> set (bf_cached_blocks s). \<not> holds s p k) \<Longrightarrow> Q 0 s"
    and hit: "\<And>p l. p \<in> set l \<Longrightarrow> holds s p k \<Longrightarrow> distinct l \<Longrightarrow> set l = set (bf_cached_blocks s) \<Longrightarrow> Q p (s\<lparr>bf_cached_blocks := l\<rparr>)"
  shows "wlp (bf_find_block k) Q F s"
proof -
  let ?l = "bf_cached_blocks s"
  have d: "distinct ?l" using inv by (simp add: cache_ok_def)
  have found: "wlp (andthen (if p \<noteq> 0 \<and> hd ?l \<noteq> p then modify (\<lambda>s. s\<lparr>bf_cached_blocks := p # remove1 p ?l\<rparr>) else ret ()) (ret p)) Q F s"
    if p: "p \<in> set ?l" "holds s p k" for p
    using hit [of p ?l] hit [of p "p # remove1 p ?l"] p d cache_okD(1) [OF inv p(1)] by (auto simp: wlp_simps)
  show ?thesis unfolding bf_find_block_def wlp_bnd wlp_gets
  proof (rule wp_find_block_list, goal_cases)
    case 1
    then show ?case using cache_okD(1,3) [OF inv] by fastforce
  next
    case 2
    then show ?case using miss by (simp add: wlp_simps)
  qed (rule found)
qed

section \<open>Adding a block\<close>

lemma cache_awaited: "cache_ok srv img A s \<Longrightarrow> loading s p \<longleftrightarrow> p \<in> set (A @ awaited (wgets s))"
  unfolding cache_ok_def by metis

lemma cache_served:
  assumes "cache_ok srv img A s" "(url, c) \<in> set (wgets s)"
  shows "served srv img s url c" "q \<in> set (client_blocks c) \<Longrightarrow> loading s q"
proof -
  show "served srv img s url c" using assms by (auto simp: cache_ok_def)
  assume "q \<in> set (client_blocks c)"
  then have "q \<in> set (awaited (wgets s))" using assms(2) by (force simp: awaited_def)
  then show "loading s q" using cache_awaited [OF assms(1)] by simp
qed

lemma cache_free:
  assumes inv: "cache_ok srv img A s" and p: "\<not> loading s p"
  shows "cache_ok srv img A (s\<lparr>bf_cached_blocks := remove1 p (bf_cached_blocks s), cblocks := (cblocks s)(p := None)\<rparr>)" (is "cache_ok _ _ _ ?t")
proof -
  have h: "holds ?t q k = holds s q k" if "q \<noteq> p" for q k using that by (simp add: holds_def)
  have d: "distinct (bf_cached_blocks s)" using inv by (simp add: cache_ok_def)
  have l: "loading ?t q = loading s q" for q using p d by (auto simp: loading_def)
  have "served srv img ?t url c" if "(url, c) \<in> set (wgets s)" for url c
  proof (rule served_mono [OF cache_served(1) [OF inv that]], goal_cases)
    case 2
    then show ?case using cache_served(2) [OF inv that] p h by metis
  qed simp
  then show ?thesis using inv d unfolding cache_ok_def l by (auto simp: h)
qed

lemma free_step: 
  assumes "\<not> loading s p" "distinct (bf_cached_blocks s)"
  shows "cache_step {} s (s\<lparr>bf_n_cached_blocks := n, bf_cached_blocks := remove1 p (bf_cached_blocks s), cblocks := (cblocks s)(p := None)\<rparr>)"
  unfolding cache_step_def by (intro conjI exI [of _ "remove1 p (bf_cached_blocks s)"] exI [of _ n] exI [of _ "(cblocks s)(p := None)"]
    exI [of _ "http_next s"] exI [of _ "http_calls s"]) (use assms in \<open>auto simp: loading_def\<close>)

lemma wp_add_n_cached: "(\<And>n. Q () (s\<lparr>bf_n_cached_blocks := n\<rparr>)) \<Longrightarrow> wlp (add_n_cached d) Q ovf s"
  by (simp add: add_n_cached_def wlp_simps)

lemma wp_free_block:
  assumes inv: "cache_ok srv img A s" and p: "p \<in> set (bf_cached_blocks s)" "\<not> loading s p"
    and Q: "\<And>t. cache_ok srv img A t \<Longrightarrow> cache_step {} s t \<Longrightarrow> bf_cached_blocks t = remove1 p (bf_cached_blocks s) \<Longrightarrow> Q () t"
  shows "wlp (bf_free_block p) Q ovf s"
proof -
  obtain b where b: "cblocks s p = Some b" "p \<noteq> 0" using cache_okD [OF inv p(1)] by auto
  have d: "distinct (bf_cached_blocks s)" using inv by (simp add: cache_ok_def)
  let ?t = "\<lambda>n. s\<lparr>bf_n_cached_blocks := n, bf_cached_blocks := remove1 p (bf_cached_blocks s), cblocks := (cblocks s)(p := None)\<rparr>"
  have "Q () (?t n)" for n
  proof (rule Q)
    show "cache_ok srv img A (?t n)" using cache_free [OF inv p(2)] by (subst cache_cong) simp_all
    show "cache_step {} s (?t n)" by (rule free_step [OF p(2) d])
  qed simp
  then show ?thesis unfolding bf_free_block_def wlp_andthen by (intro wp_add_n_cached) (simp add: wlp_simps wlp_load b)
qed

lemma wp_evict:
  assumes "cache_ok srv img A s" "set ps \<subseteq> set (bf_cached_blocks s)" "distinct ps"
  shows "wlp (evict_blocks ps) (\<lambda>_ t. cache_ok srv img A t \<and> cache_step {} s t) ovf s"
  using assms
proof (induction ps arbitrary: s)
  case Nil
  then show ?case unfolding evict_blocks.simps wlp_ret by (simp add: cache_step_refl)
next
  case (Cons p ps)
  obtain b where b: "cblocks s p = Some b" "p \<noteq> 0" "p \<in> set (bf_cached_blocks s)" using cache_okD [OF Cons.prems(1), of p] Cons.prems(2) by auto
  have go: "wlp (evict_blocks ps) (\<lambda>_ u. cache_ok srv img A u \<and> cache_step {} s u) ovf t"
    if "cache_ok srv img A t" "cache_step {} s t" "set ps \<subseteq> set (bf_cached_blocks t)" for t
    by (rule wlp_mono [OF Cons.IH [OF that(1,3)]]) (use Cons.prems(3) cache_step_trans [OF that(2)] in auto)
  have "distinct (bf_cached_blocks s)" using Cons.prems(1) by (simp add: cache_ok_def)
  then have sub: "set ps \<subseteq> set (remove1 p (bf_cached_blocks s))" using Cons.prems(2,3) by auto
  show ?case
  proof (cases "cb_state b")
    case CBLOCK_LOADING
    then show ?thesis using go [OF Cons.prems(1) cache_step_refl] Cons.prems(2) b by (simp add: wlp_bnd wlp_load)
  next
    case CBLOCK_LOADED
    then have "\<not> loading s p" using b by (auto simp: loading_def)
    from wp_free_block [OF Cons.prems(1) b(3) this] go sub CBLOCK_LOADED b
    show ?thesis by (simp add: wlp_bnd wlp_load wlp_andthen wlp_gets wlp_ret)
  qed
qed

text \<open>The state after a block has been added.\<close>

definition with_block :: "nat \<Rightarrow> int \<Rightarrow> cached_block \<Rightarrow> 'w block_device_http_scheme \<Rightarrow> 'w block_device_http_scheme" where
  "with_block c n b t = t\<lparr>http_calls := c, http_next := Suc (http_next t), cblocks := (cblocks t)(http_next t \<mapsto> b),
     bf_cached_blocks := http_next t # bf_cached_blocks t, bf_n_cached_blocks := n\<rparr>"

lemma with_block_step:
  assumes "cache_ok srv img A t"
  shows "cache_step {http_next t} t (with_block c n b t)"
proof -
  have "p < http_next t" if "p \<in> set (bf_cached_blocks t)" for p by (rule cache_okD(2) [OF assms that])
  then show ?thesis
    unfolding cache_step_def with_block_def
    by (intro conjI exI [of _ "http_next t # bf_cached_blocks t"] exI [of _ n] exI [of _ "(cblocks t)(http_next t \<mapsto> b)"]
      exI [of _ "Suc (http_next t)"] exI [of _ c]) (auto simp: loading_def)
qed

lemma with_block_ok:
  assumes inv: "cache_ok srv img A t" and new: "\<forall>p \<in> set (bf_cached_blocks t). \<not> holds t p (block_num b)"
    and b: "block_ok img (bf_block_size t) b" "cb_state b = CBLOCK_LOADING" and nz: "http_next t \<noteq> 0"
  shows "cache_ok srv img (http_next t # A) (with_block c n b t)" (is "cache_ok _ _ (?p # A) ?u")
proof -
  have lt: "q < ?p" if "q \<in> set (bf_cached_blocks t)" for q by (rule cache_okD(2) [OF inv that])
  have h: "holds ?u q k = (if q = ?p then block_num b = k else holds t q k)" for q k by (auto simp: holds_def with_block_def)
  have l: "loading ?u q \<longleftrightarrow> q = ?p \<or> loading t q" for q using b(2) lt by (auto simp: loading_def with_block_def)
  have np: "\<not> loading t ?p" using lt by (auto simp: loading_def)
  have "served srv img ?u url c" if "(url, c) \<in> set (wgets t)" for url c
  proof (rule served_mono [OF cache_served(1) [OF inv that]], goal_cases)
    case 2
    then show ?case using cache_served(2) [OF inv that] np h by metis
  qed (simp add: with_block_def)
  moreover have "?p \<notin> set (A @ awaited (wgets t))" using cache_awaited [OF inv] np by simp
  moreover have "\<forall>p \<in> set (?p # bf_cached_blocks t). \<forall>q \<in> set (?p # bf_cached_blocks t). \<forall>k. holds ?u p k \<longrightarrow> holds ?u q k \<longrightarrow> p = q"
    using new cache_unique [OF inv] by (auto simp: h)
  moreover have "\<forall>p \<in> set (?p # bf_cached_blocks t). p \<noteq> 0 \<and> p < Suc ?p \<and> (\<exists>b'. cblocks ?u p = Some b' \<and> block_ok img (bf_block_size t) b')"
    using b(1) nz cache_okD [OF inv] lt by (force simp: with_block_def)
  ultimately show ?thesis using inv lt unfolding cache_ok_def l by (auto simp: with_block_def simp del: fun_upd_apply)
qed

lemma wp_new_buffer:
  assumes "\<forall>c n. host_mem (http_host s) c n" and "\<And>fb. length (fb_data fb) = unat (usize sz) \<Longrightarrow> Q fb (s\<lparr>http_calls := Suc (http_calls s)\<rparr>)"
  shows "wlp (new_buffer sz) Q F s"
  using assms by (simp add: new_buffer_def wlp_simps realloc_def)

lemma wp_add_block:
  assumes inv: "cache_ok srv img A s" and new: "\<forall>p \<in> set (bf_cached_blocks s). \<not> holds s p k" and k: "k \<noteq> - 1"
    and bs: "0 < bf_block_size s" and mem: "\<forall>c n. host_mem (http_host s) c n" and nz: "0 < http_next s"
    and Q: "\<And>p t. cache_ok srv img (p # A) t \<Longrightarrow> cache_step {p} s t \<Longrightarrow> holds t p k \<Longrightarrow> p \<in> set (bf_cached_blocks t) \<Longrightarrow> Q p t"
  shows "wlp (bf_add_block k) Q ovf s"
proof -
  have add: "wlp (bnd (gets bf_block_size) (\<lambda>bs. bnd (cint (bs * 512)) (\<lambda>sz. bnd (new_buffer sz) (\<lambda>fb. bnd (gets http_next) (\<lambda>p.
      andthen (modify (\<lambda>s. s\<lparr>http_next := Suc p, cblocks := (cblocks s)(p \<mapsto> \<lparr>block_num = k, cb_state = CBLOCK_LOADING, cb_fbuf = fb\<rparr>),
         bf_cached_blocks := p # bf_cached_blocks s\<rparr>)) (andthen (add_n_cached 1) (ret p))))))) Q ovf t"
    if t: "cache_ok srv img A t" "cache_step {} s t" for t
  proof -
    note f = cache_step_fields [OF t(2)]
    obtain n where n: "bf_block_size s * 512 = int n" using bs by (metis pos_int_cases zero_less_mult_iff zero_less_numeral)
    have nt: "0 < http_next t" using t(2) nz by (auto simp: cache_step_def)
    have new': "\<forall>p \<in> set (bf_cached_blocks t). \<not> holds t p k" using new t(2) by (auto simp: cache_step_def holds_def)
    have fin: "Q (http_next t) (with_block (Suc (http_calls t)) m \<lparr>block_num = k, cb_state = CBLOCK_LOADING, cb_fbuf = fb\<rparr> t)"
      if "length (fb_data fb) = n" for m fb
    proof (rule Q)
      have "512 * nat (bf_block_size s) = n" using n by linarith
      then show "cache_ok srv img (http_next t # A) (with_block (Suc (http_calls t)) m \<lparr>block_num = k, cb_state = CBLOCK_LOADING, cb_fbuf = fb\<rparr> t)"
        using that new' k nt f(2) by (intro with_block_ok [OF t(1)]) (simp_all add: block_ok_def)
      show "cache_step {http_next t} s (with_block (Suc (http_calls t)) m \<lparr>block_num = k, cb_state = CBLOCK_LOADING, cb_fbuf = fb\<rparr> t)"
        using cache_step_trans [OF t(2) with_block_step [OF t(1)]] by simp
    qed (simp_all add: with_block_def holds_def)
    show ?thesis unfolding wlp_bnd wlp_gets f n
      by (intro wlp_cint_nat wp_new_buffer; (simp add: f mem wlp_simps)?; intro wp_add_n_cached)
        (use fin in \<open>simp add: usize_nat with_block_def wlp_ret\<close>)
  qed
  have d: "set (rev (bf_cached_blocks s)) \<subseteq> set (bf_cached_blocks s)" "distinct (rev (bf_cached_blocks s))" using inv by (auto simp: cache_ok_def)
  have "wlp (if bf_n_cached_blocks_max s \<le> bf_n_cached_blocks s then evict_blocks (rev (bf_cached_blocks s)) else ret ())
      (\<lambda>_ t. cache_ok srv img A t \<and> cache_step {} s t) ovf s"
    using wp_evict [OF inv d] inv cache_step_refl [of s] by (simp add: wlp_ret)
  then show ?thesis unfolding bf_add_block_def wlp_andthen [of "bnd (gets id) _"] wlp_bnd [of "gets id"] wlp_gets id_apply
    by (rule wlp_mono) (use add in blast)+
qed

section \<open>Starting a transfer\<close>

lemma cache_reorder:
  assumes "cache_ok srv img A s" "set B = set A" "length B = length A"
  shows "cache_ok srv img B s"
proof -
  have "distinct A" using assms(1) by (simp add: cache_ok_def)
  then have "distinct B" using assms(2,3) by (metis card_distinct distinct_card)
  then show ?thesis using assms by (simp add: cache_ok_def)
qed

lemma cache_wget:
  assumes inv: "cache_ok srv img (client_blocks c @ A) s" and c: "served srv img s url c"
  shows "cache_ok srv img A (s\<lparr>bf_n_read_blocks := r, wgets := wgets s @ [(url, c)]\<rparr>)" (is "cache_ok _ _ _ ?t")
proof -
  have h: "holds ?t = holds s" by (rule holds_cong) simp
  have "slices img ?t ps d = slices img s ps d" for ps d by (simp add: slices_def h)
  then have "served srv img ?t u d = served srv img s u d" for u d by (cases d) simp_all
  moreover have "loading ?t p = loading s p" for p by (simp add: loading_def)
  moreover have "distinct (A @ awaited (wgets s) @ client_blocks c)" using inv by (auto simp: cache_ok_def)
  ultimately show ?thesis using inv c by (auto simp: cache_ok_def h)
qed

lemma wp_start_load:
  assumes inv: "cache_ok srv img A s" and new: "\<forall>p \<in> set (bf_cached_blocks s). \<not> holds s p (u32_of_int num)" and k: "u32_of_int num \<noteq> - 1"
    and bs: "0 < bf_block_size s" and mem: "\<forall>c n. host_mem (http_host s) c n" and nz: "0 < http_next s"
    and srv: "srv (BLK_FMT (bf_url s) (u32_of_int num)) = img (unat (u32_of_int num))" "length (img (unat (u32_of_int num))) = 512 * nat (bf_block_size s)"
    and Q: "\<And>p t u. cache_step {p} s t \<Longrightarrow> loading t p \<Longrightarrow> holds t p (u32_of_int num) \<Longrightarrow> (\<exists>w r. u = t\<lparr>bf_n_read_blocks := r, wgets := wgets t @ [w]\<rparr>) \<Longrightarrow>
        cache_ok srv img A u \<Longrightarrow> Q () u"
  shows "wlp (bf_start_load_block num) Q ovf s"
  unfolding bf_start_load_block_def wlp_bnd
proof (rule wp_add_block [OF inv new k bs mem nz], goal_cases)
  case (1 p t)
  let ?w = "(BLK_FMT (bf_url s) (u32_of_int num), Wget_Block p)"
  have "slices img t [p] (srv (BLK_FMT (bf_url s) (u32_of_int num)))"
    using 1(3) srv cache_step_fields(2) [OF 1(2)] by (simp add: slices_def) blast
  then have "cache_ok srv img A (t\<lparr>bf_n_read_blocks := r, wgets := wgets t @ [?w]\<rparr>)" for r
    using 1(1) by (intro cache_wget) simp_all
  moreover have "loading t p" using cache_awaited [OF 1(1), of p] by simp
  ultimately have "Q () (t\<lparr>bf_n_read_blocks := r, wgets := wgets t @ [?w]\<rparr>)" for r using Q [OF 1(2) _ 1(3)] by blast
  then show ?case using cache_step_fields(7) [OF 1(2)] by (auto simp: wlp_simps cint64_def fs_wget_http_def)
qed

lemma wp_prefetch_blocks:
  assumes "cache_ok srv img A s" and "\<forall>k \<in> set ks. u32_of_int k \<noteq> - 1"
    and "0 < bf_block_size s" "\<forall>c n. host_mem (http_host s) c n" "0 < http_next s"
  shows "wlp (prefetch_blocks ks) (\<lambda>(ps, r) t. cache_ok srv img (filter (\<lambda>p. p \<noteq> 0) ps @ A) t \<and> (\<exists>N. cache_step N s t)
    \<and> length ps = length ks \<and> (\<forall>i < length ks. ps ! i \<noteq> 0 \<longrightarrow> holds t (ps ! i) (u32_of_int (ks ! i)))
    \<and> (r \<longleftrightarrow> filter (\<lambda>p. p \<noteq> 0) ps \<noteq> [])) ovf s"
  using assms
proof (induction ks arbitrary: A s)
  case Nil
  then show ?case unfolding prefetch_blocks.simps wlp_ret using cache_step_refl [of s] by auto
next
  case (Cons k ks)
  have rest: "wlp (prefetch_blocks ks) (\<lambda>(ps, r) u. cache_ok srv img (filter (\<lambda>p. p \<noteq> 0) ps @ B) u \<and> (\<exists>N. cache_step N t u)
      \<and> length ps = length ks \<and> (\<forall>i < length ks. ps ! i \<noteq> 0 \<longrightarrow> holds u (ps ! i) (u32_of_int (ks ! i)))
      \<and> (r \<longleftrightarrow> filter (\<lambda>p. p \<noteq> 0) ps \<noteq> [])) ovf t" if t: "cache_ok srv img B t" "cache_step N s t" for B N t
    using Cons.prems(2-) cache_step_fields [OF t(2)] t(2) by (intro Cons.IH [OF t(1)]) (auto simp: cache_step_def)
  show ?case unfolding prefetch_blocks.simps wlp_bnd
  proof (rule wp_bf_find_block [OF Cons.prems(1)], goal_cases)
    case 1
    have k: "u32_of_int k \<noteq> - 1" using Cons.prems(2) by simp
    show ?case unfolding wlp_if if_P [OF refl] wlp_bnd
    proof (rule wp_add_block [OF Cons.prems(1) 1 k Cons.prems(3-)], rule wlp_mono, rule rest, assumption, assumption, goal_cases)
      case (1 p t a u)
      obtain ps r where a: "a = (ps, r)" by (cases a)
      have u: "cache_ok srv img (filter (\<lambda>p. p \<noteq> 0) ps @ p # A) u" "\<exists>N. cache_step N t u" "length ps = length ks"
        "\<forall>i < length ks. ps ! i \<noteq> 0 \<longrightarrow> holds u (ps ! i) (u32_of_int (ks ! i))"
        using 1(5) by (auto simp: a)
      have p: "p \<noteq> 0" by (rule cache_okD(1) [OF 1(1,4)])
      have "loading t p" using cache_awaited [OF 1(1), of p] by simp
      then have "cblocks u p = cblocks t p" using cache_step_loading u(2) by blast
      then have "holds u p (u32_of_int k)" using 1(3) by (simp add: holds_def)
      moreover have "cache_ok srv img (p # filter (\<lambda>p. p \<noteq> 0) ps @ A) u" by (rule cache_reorder [OF u(1)]) auto
      moreover have "\<exists>N. cache_step N s u" using cache_step_trans [OF 1(2)] u(2) by blast
      ultimately show ?case using u(3,4) p by (auto simp: a wlp_ret nth_Cons split: nat.split)
    qed simp
  next
    case (2 p l)
    have p: "p \<noteq> 0" using cache_okD(1) [OF Cons.prems(1), of p] 2 by simp
    show ?case unfolding wlp_if if_not_P [OF p] wlp_bnd
    proof (rule wlp_mono, rule rest [OF cache_perm [OF Cons.prems(1) 2(3,4)] perm_step [OF 2(4)]], goal_cases)
      case (1 a u)
      obtain ps r where a: "a = (ps, r)" by (cases a)
      have "\<exists>N. cache_step N s u" using cache_step_trans [OF perm_step [OF 2(4)]] 1 by (auto simp: a)
      then show ?case using 1 p by (auto simp: a wlp_ret nth_Cons split: nat.split)
    qed simp
  qed
qed

lemma wp_start_group:
  assumes inv: "cache_ok srv img A s" and ks: "\<forall>k \<in> set ks. u32_of_int k \<noteq> - 1"
    and geo: "0 < bf_block_size s" "\<forall>c n. host_mem (http_host s) c n" "0 < http_next s"
    and srv: "srv (GROUP_FMT (bf_url s) (u32_of_int g)) = concat (map (\<lambda>k. img (unat (u32_of_int k))) ks)"
    and img: "\<forall>k. length (img k) = 512 * nat (bf_block_size s)"
    and Q: "\<And>N t u. cache_step N s t \<Longrightarrow> (\<exists>ws. u = t\<lparr>wgets := wgets t @ ws\<rparr>) \<Longrightarrow> cache_ok srv img A u \<Longrightarrow> Q () u"
  shows "wlp (bf_start_load_prefetch_group g ks) Q ovf s"
  unfolding bf_start_load_prefetch_group_def wlp_bnd
proof (rule wlp_mono, rule wp_prefetch_blocks [OF inv ks geo], goal_cases)
  case (1 a t)
  obtain ps r where a: "a = (ps, r)" by (cases a)
  from 1 obtain N where t: "cache_ok srv img (filter (\<lambda>p. p \<noteq> 0) ps @ A) t" "cache_step N s t" "length ps = length ks"
    "\<forall>i < length ks. ps ! i \<noteq> 0 \<longrightarrow> holds t (ps ! i) (u32_of_int (ks ! i))" "r \<longleftrightarrow> filter (\<lambda>p. p \<noteq> 0) ps \<noteq> []" by (auto simp: a)
  note f = cache_step_fields [OF t(2)]
  let ?c = "Wget_Group \<lparr>group_num = g, tab_block = ps\<rparr>" and ?m = "512 * nat (bf_block_size s)"
  let ?xs = "map (\<lambda>k. img (unat (u32_of_int k))) ks"
  have m: "\<forall>x \<in> set ?xs. length x = ?m" using img by auto
  have "length (concat ?xs) = ?m * length ks"
  proof (cases ks)
    case (Cons k ks')
    then show ?thesis using concat_uniform(3) [OF m, of 0] by simp
  qed simp
  moreover have "take ?m (drop (?m * i) (concat ?xs)) = img (unat (u32_of_int (ks ! i)))" if "i < length ks" for i
    using concat_uniform(1) [OF m, of i] that by simp
  ultimately have "served srv img t (GROUP_FMT (bf_url s) (u32_of_int g)) ?c"
    using t(3,4) f(2) srv by (auto simp: slices_def)
  then have "cache_ok srv img A (t\<lparr>bf_n_read_blocks := bf_n_read_blocks t, wgets := wgets t @ [(GROUP_FMT (bf_url s) (u32_of_int g), ?c)]\<rparr>)"
    by (intro cache_wget) (use t(1) in simp_all)
  then have "Q () (t\<lparr>wgets := wgets t @ [(GROUP_FMT (bf_url s) (u32_of_int g), ?c)]\<rparr>)" by (intro Q [OF t(2)]) auto
  moreover have "Q () t" if "\<not> r" using that t(1,5) by (intro Q [OF t(2)] exI [of _ "[]"]) simp_all
  ultimately show ?case using f(7) by (simp add: a wlp_simps fs_wget_http_def)
qed simp

end
