(* ===== verification/Http_Disk.thy ===== *)
theory Http_Disk
  imports Http_Cache
begin

text \<open>
  Requests on the block device over HTTP: the disk it stands for, and what each round of \<open>bf_rw_async1\<close> does to
  it and to the request.
\<close>

unbundle bit_operations_syntax

section \<open>The disk\<close>

text \<open>A sector is that of its cluster if something was written there and that of the image otherwise.\<close>

definition sector :: "(nat \<Rightarrow> bytes) \<Rightarrow> 'w block_device_http_scheme \<Rightarrow> nat \<Rightarrow> bytes" where
  "sector img s j = (case bf_clusters s ! (j div 8) of Some c \<Rightarrow> chunk (fb_data c) (j mod 8)
     | None \<Rightarrow> chunk (img (j div nat (bf_block_size s))) (j mod nat (bf_block_size s)))"

text \<open>
  The geometry: the block size is a power of two and at least a cluster, the number of clusters is an \<open>int\<close>; memory
  suffices; the server has the blocks of the image.
\<close>

definition geo :: "(bytes \<Rightarrow> bytes) \<Rightarrow> (nat \<Rightarrow> bytes) \<Rightarrow> 'w block_device_http_scheme \<Rightarrow> bool" where
  "geo srv img s \<longleftrightarrow> bf_sectors_per_cluster s = 8 \<and> (\<exists>m. bf_block_size s = 2 ^ m \<and> 3 \<le> m \<and> m < 31)
     \<and> 0 \<le> bf_nb_blocks s \<and> bf_nb_sectors s = bf_block_size s * bf_nb_blocks s \<and> bf_nb_sectors s \<le> 17179869176
     \<and> length (bf_clusters s) = nat (bf_nb_sectors s) div 8 \<and> (\<forall>c. Some c \<in> set (bf_clusters s) \<longrightarrow> length (fb_data c) = 4096)
     \<and> (\<forall>c n. host_mem (http_host s) c n) \<and> 0 < http_next s
     \<and> (\<forall>k. length (img k) = 512 * nat (bf_block_size s))
     \<and> (\<forall>k. int (unat k) < bf_nb_blocks s \<longrightarrow> srv (BLK_FMT (bf_url s) k) = img (unat k))"

lemma geo_cong:
  assumes "bf_sectors_per_cluster t = bf_sectors_per_cluster s" "bf_block_size t = bf_block_size s" "bf_nb_blocks t = bf_nb_blocks s"
    "bf_nb_sectors t = bf_nb_sectors s" "bf_clusters t = bf_clusters s" "http_host t = http_host s" "http_next s \<le> http_next t" "bf_url t = bf_url s"
    and "geo srv img s"
  shows "geo srv img t"
  using assms by (simp add: geo_def)

lemma geo_step: "cache_step N s t \<Longrightarrow> geo srv img s \<Longrightarrow> geo srv img t"
  by (rule geo_cong) (use cache_step_fields [of N s t] in \<open>auto simp: cache_step_def\<close>)

lemma geo_unit:
  assumes "geo srv img s"
  obtains m where "bf_block_size s = int (2 ^ m)" "nat (bf_block_size s) = 2 ^ m" "3 \<le> m" "m < 31" "8 dvd (2 ^ m :: nat)" "(2 :: nat) ^ m < 2147483648" "bf_sectors_per_cluster s = 8"
proof -
  obtain m where m: "bf_block_size s = 2 ^ m" "3 \<le> m" "m < 31" using assms by (auto simp: geo_def)
  have "nat (bf_block_size s) = 2 ^ m" unfolding m(1) by (simp add: nat_power_eq)
  moreover have "8 dvd (2 ^ m :: nat)" using le_imp_power_dvd [OF m(2), of "2 :: nat"] by simp
  moreover have "(2 :: nat) ^ m < 2147483648" using power_strict_increasing [OF m(3), of "2 :: nat"] by simp
  ultimately show ?thesis using that m assms by (simp add: geo_def)
qed

lemma div_mod_run:
  assumes "x < n - j mod (n :: nat)"
  shows "(j + x) div n = j div n" "(j + x) mod n = j mod n + x"
proof -
  define a b where ab: "a = j div n" "b = j mod n"
  have j: "j = n * a + b" and lt: "b + x < n" using assms by (auto simp: ab)
  have "j + x = (b + x) + n * a" by (simp add: j)
  then have "(j + x) div n = a" "(j + x) mod n = b + x"
    using lt div_mult_self2 [of n "b + x" a] mod_mult_self2 [of "b + x" n a] by (metis add_cancel_right_right div_less not_less_zero, metis mod_less)
  then show "(j + x) div n = j div n" "(j + x) mod n = j mod n + x" by (simp_all add: ab)
qed

lemma geo_sector:
  assumes g: "geo srv img s" and j: "j < nat (bf_nb_sectors s)"
  shows "j < 2 ^ 40" "j div 8 < length (bf_clusters s)" "j div 8 < 2147483648"
    "int (j div nat (bf_block_size s)) < bf_nb_blocks s" "j div nat (bf_block_size s) < 2147483648"
proof -
  obtain m where m: "nat (bf_block_size s) = 2 ^ m" "bf_block_size s = int (2 ^ m)" "8 dvd (2 ^ m :: nat)" by (rule geo_unit [OF g])
  have n: "nat (bf_nb_sectors s) = 2 ^ m * nat (bf_nb_blocks s)" "bf_nb_sectors s \<le> 17179869176" using g m by (simp_all add: geo_def nat_mult_distrib)
  have j': "j < 17179869176" using j n(2) by linarith
  then show "j < 2 ^ 40" "j div 8 < 2147483648" by simp_all
  have "8 dvd nat (bf_nb_sectors s)" using n(1) m(3) by simp
  then show "j div 8 < length (bf_clusters s)" using j g by (auto simp: geo_def elim!: dvdE)
  have "j div 2 ^ m < nat (bf_nb_blocks s)" using j n(1) by (simp add: less_mult_imp_div_less mult.commute)
  then show "int (j div nat (bf_block_size s)) < bf_nb_blocks s" unfolding m(1) by linarith
  obtain c where "(2 :: nat) ^ m = 8 * c" "0 < c" using m(3) by (metis dvdE mult_0_right neq0_conv power_not_zero zero_neq_numeral)
  then have "j div 2 ^ m \<le> j div 8" by (simp add: div_le_mono2)
  then show "j div nat (bf_block_size s) < 2147483648" unfolding m(1) using \<open>j div 8 < 2147483648\<close> by linarith
qed

lemma cluster_length: "geo srv img s \<Longrightarrow> k < length (bf_clusters s) \<Longrightarrow> bf_clusters s ! k = Some c \<Longrightarrow> length (fb_data c) = 4096"
  unfolding geo_def by (metis nth_mem)

lemma sector_length:
  assumes "geo srv img s" "j < nat (bf_nb_sectors s)"
  shows "length (sector img s j) = 512"
proof -
  obtain m where m: "nat (bf_block_size s) = 2 ^ m" by (rule geo_unit [OF assms(1)])
  have "j mod 8 < 8" "j mod 2 ^ m < 2 ^ m" by simp_all
  then have "512 \<le> 4096 - 512 * (j mod 8)" "512 \<le> 512 * 2 ^ m - 512 * (j mod 2 ^ m)" by linarith+
  moreover have "length (img k) = 512 * 2 ^ m" for k using assms(1) m by (simp add: geo_def)
  ultimately show ?thesis using cluster_length [OF assms(1) geo_sector(2) [OF assms]]
    unfolding sector_def chunk_def m by (auto split: option.splits)
qed

section \<open>Copying\<close>

lemma wp_cint_sectors:
  "(512 * n < 2147483648 \<Longrightarrow> Q (int (512 * n)) s) \<Longrightarrow> F SignedOverflow \<Longrightarrow> wlp (cint (int n * 512)) Q F s"
  using wlp_cint_nat [of "512 * n" Q s F] by (simp add: mult.commute)

lemma wp_read_sectors:
  assumes "bf_sector_index s = int i" "512 * (k + l) \<le> length (fb_data fb)" "512 * (i + l) \<le> length (bf_io_buf s)"
    and Q: "Q () (s\<lparr>bf_io_buf := blit (bf_io_buf s) (512 * i) (take (512 * l) (drop (512 * k) (fb_data fb)))\<rparr>)"
  shows "wlp (read_sectors fb (int k) (int l)) Q ovf s"
proof -
  let ?d = "take (512 * l) (drop (512 * k) (fb_data fb))"
  have "peek (fb_data fb) (int (512 * k)) (512 * l) = Inr ?d" using assms(2) by (intro peek_nat) simp
  moreover have "poke (bf_io_buf s) (int (512 * i)) ?d = Inr (blit (bf_io_buf s) (512 * i) ?d)" using assms(3) by (intro poke_nat) simp
  ultimately show ?thesis unfolding read_sectors_def wlp_bnd wlp_gets id_apply assms(1)
    by (intro wp_cint_sectors) (simp_all add: usize_nat Q wlp_simps del: of_nat_mult)
qed

lemma wp_write_sectors:
  assumes "bf_sector_index s = int i" "512 * (k + l) \<le> length (fb_data fb)" "512 * (i + l) \<le> length (bf_io_buf s)"
    and Q: "Q () (s\<lparr>bf_clusters := (bf_clusters s)[c := Some (fb\<lparr>fb_data := blit (fb_data fb) (512 * k) (take (512 * l) (drop (512 * i) (bf_io_buf s)))\<rparr>)]\<rparr>)"
  shows "wlp (write_sectors (int c) fb (int k) (int l)) Q ovf s"
proof -
  let ?d = "take (512 * l) (drop (512 * i) (bf_io_buf s))"
  have "peek (bf_io_buf s) (int (512 * i)) (512 * l) = Inr ?d" using assms(3) by (intro peek_nat) simp
  moreover have "poke (fb_data fb) (int (512 * k)) ?d = Inr (blit (fb_data fb) (512 * k) ?d)" using assms(2) by (intro poke_nat) simp
  ultimately show ?thesis unfolding write_sectors_def wlp_bnd wlp_gets id_apply assms(1)
    by (intro wp_cint_sectors) (simp_all add: usize_nat Q wlp_simps del: of_nat_mult)
qed

lemma wp_advance:
  assumes "bf_sector_index s = int i" "bf_sector_num s = of_nat j" "Q () (s\<lparr>bf_sector_index := int (i + l), bf_sector_num := of_nat (j + l)\<rparr>)"
  shows "wlp (advance (int l)) Q ovf s"
  using assms by (simp add: advance_def wlp_simps)

section \<open>Progress of a request\<close>

record http_request =
  rq_write :: bool
  rq_start :: nat
  rq_buf :: bytes
  rq_n :: nat

text \<open>
  A read takes what is left of a block from the block when the cluster it has reached was never written, so
  that clusters written behind it in the same block are missed: it must not go from the one to the other.
\<close>

definition unmixed :: "nat \<Rightarrow> nat \<Rightarrow> 'w block_device_http_scheme \<Rightarrow> bool" where
  "unmixed a b s \<longleftrightarrow> (\<forall>x y. a \<le> x \<longrightarrow> x \<le> y \<longrightarrow> y < b \<longrightarrow> x div nat (bf_block_size s) = y div nat (bf_block_size s) \<longrightarrow>
     bf_clusters s ! (x div 8) = None \<longrightarrow> bf_clusters s ! (y div 8) = None)"

definition fits :: "http_request \<Rightarrow> 'w block_device_http_scheme \<Rightarrow> bool" where
  "fits rq s \<longleftrightarrow> rq_start rq + rq_n rq \<le> nat (bf_nb_sectors s) \<and> 512 * rq_n rq \<le> length (rq_buf rq)
     \<and> (rq_write rq \<or> unmixed (rq_start rq) (rq_start rq + rq_n rq) s)"

text \<open>
  The first \<open>i\<close> sectors of the request are done: a read has copied them from the disk \<open>D\<close>, a write has changed
  them and nothing else.
\<close>

definition progress :: "(nat \<Rightarrow> bytes) \<Rightarrow> (nat \<Rightarrow> bytes) \<Rightarrow> http_request \<Rightarrow> nat \<Rightarrow> 'w block_device_http_scheme \<Rightarrow> bool" where
  "progress img D rq i s \<longleftrightarrow> bf_is_write s = rq_write rq \<and> bf_sector_count s = int (rq_n rq) \<and> i \<le> rq_n rq
     \<and> bf_sector_index s = int i \<and> bf_sector_num s = of_nat (rq_start rq + i)
     \<and> bf_io_buf s = (if rq_write rq then rq_buf rq else blit (rq_buf rq) 0 (concat (map D [rq_start rq..<rq_start rq + i])))
     \<and> (\<forall>j < nat (bf_nb_sectors s). sector img s j =
          (if rq_write rq \<and> rq_start rq \<le> j \<and> j < rq_start rq + i then chunk (rq_buf rq) (j - rq_start rq) else D j))"

lemma sector_cong:
  assumes "bf_clusters t = bf_clusters s" "bf_block_size t = bf_block_size s"
  shows "sector img t = sector img s"
  by (rule ext, unfold sector_def assms) (rule refl)

lemma progress_cong:
  assumes "bf_clusters t = bf_clusters s" "bf_block_size t = bf_block_size s" "bf_is_write t = bf_is_write s" "bf_sector_count t = bf_sector_count s"
    "bf_sector_index t = bf_sector_index s" "bf_sector_num t = bf_sector_num s" "bf_io_buf t = bf_io_buf s" "bf_nb_sectors t = bf_nb_sectors s"
  shows "progress img D rq i t = progress img D rq i s"
  using assms sector_cong [OF assms(1,2)] by (simp add: progress_def)

lemma progress_step: "cache_step N s t \<Longrightarrow> progress img D rq i t = progress img D rq i s"
  by (rule progress_cong) (use cache_step_fields [of N s t] in auto)

text \<open>The next \<open>l\<close> sectors are sectors \<open>k\<close> and following of a buffer \<open>d\<close>.\<close>

lemma progress_read:
  assumes p: "progress img D rq i s" "\<not> rq_write rq" and l: "i + l \<le> rq_n rq" and f: "fits rq s" and g: "geo srv img s"
    and d: "\<And>x. x < l \<Longrightarrow> sector img s (rq_start rq + i + x) = chunk d (k + x)" "512 * (k + l) \<le> length d"
    and u: "bf_clusters u = bf_clusters s" "bf_block_size u = bf_block_size s" "bf_is_write u = bf_is_write s" "bf_sector_count u = bf_sector_count s"
      "bf_nb_sectors u = bf_nb_sectors s" "bf_sector_index u = int (i + l)" "bf_sector_num u = of_nat (rq_start rq + i + l)"
      "bf_io_buf u = blit (bf_io_buf s) (512 * i) (take (512 * l) (drop (512 * k) d))"
  shows "progress img D rq (i + l) u"
proof -
  let ?j = "rq_start rq + i" and ?X = "concat (map D [rq_start rq..<rq_start rq + i])" and ?Y = "take (512 * l) (drop (512 * k) d)"
  have D: "sector img s j = D j" if "j < nat (bf_nb_sectors s)" for j using p that by (simp add: progress_def)
  have lenD: "length (D j) = 512" if "j < nat (bf_nb_sectors s)" for j using sector_length [OF g that] D [OF that] by simp
  have "map D [?j..<?j + l] = map (chunk d) [k..<k + l]"
    by (rule nth_equalityI) (use d(1) D f l in \<open>auto simp: fits_def\<close>)
  then have Y: "concat (map D [?j..<?j + l]) = ?Y" by (simp only: chunks_concat)
  have D512: "map (length \<circ> D) [rq_start rq..<?j] = map (\<lambda>_. 512) [rq_start rq..<?j]" using lenD f l by (auto simp: fits_def)
  have "length ?X = 512 * i" unfolding length_concat map_map D512 by (simp add: sum_list_triv)
  moreover have "length ?Y = 512 * l" using d(2) by simp
  moreover have "512 * (i + l) \<le> length (rq_buf rq)" using f l by (auto simp: fits_def)
  ultimately have "blit (blit (rq_buf rq) 0 ?X) (512 * i) ?Y = blit (rq_buf rq) 0 (?X @ ?Y)"
    using blit_blit_append [of 0 ?X ?Y "rq_buf rq"] by simp
  moreover have "?X @ ?Y = concat (map D [rq_start rq..<rq_start rq + (i + l)])"
    unfolding Y [symmetric] concat_append [symmetric] map_append [symmetric] using upt_add_eq_append [of "rq_start rq" "?j" l] by (simp add: add.assoc)
  ultimately show ?thesis using p l u sector_cong [OF u(1,2)] by (simp add: progress_def add.assoc)
qed

lemma same_cluster: 
  assumes "j' div 8 = j div (8 :: nat)" "l \<le> 8 - j mod 8"
  shows "(j mod 8 \<le> j' mod 8 \<and> j' mod 8 < j mod 8 + l) = (j \<le> j' \<and> j' < j + l)" "j \<le> j' \<Longrightarrow> j' mod 8 - j mod 8 = j' - j"
  using assms div_mult_mod_eq [of j 8] div_mult_mod_eq [of j' 8] by linarith+

lemma progress_write:
  assumes p: "progress img D rq i s" "rq_write rq" and l: "i + l \<le> rq_n rq" "l \<le> 8 - (rq_start rq + i) mod 8" "0 < l" and f: "fits rq s" and g: "geo srv img s"
    and c: "bf_clusters s ! ((rq_start rq + i) div 8) = Some c"
    and u: "bf_clusters u = (bf_clusters s)[(rq_start rq + i) div 8 := Some (c\<lparr>fb_data := blit (fb_data c) (512 * ((rq_start rq + i) mod 8))
          (take (512 * l) (drop (512 * i) (bf_io_buf s)))\<rparr>)]"
      "bf_block_size u = bf_block_size s" "bf_is_write u = bf_is_write s" "bf_sector_count u = bf_sector_count s" "bf_io_buf u = bf_io_buf s"
      "bf_nb_sectors u = bf_nb_sectors s" "bf_sector_index u = int (i + l)" "bf_sector_num u = of_nat (rq_start rq + i + l)"
  shows "progress img D rq (i + l) u"
proof -
  let ?j = "rq_start rq + i" and ?b = "rq_buf rq"
  let ?e = "take (512 * l) (drop (512 * i) ?b)"
  have io: "bf_io_buf s = ?b" using p by (simp add: progress_def)
  have jn: "?j < nat (bf_nb_sectors s)" using f l by (simp add: fits_def)
  have k: "?j div 8 < length (bf_clusters s)" by (rule geo_sector(2) [OF g jn])
  have lc: "length (fb_data c) = 4096" by (rule cluster_length [OF g k c])
  have e: "length ?e = 512 * l" using f l by (auto simp: fits_def)
  have blit: "chunk (blit (fb_data c) (512 * (?j mod 8)) ?e) x = (if ?j mod 8 \<le> x \<and> x < ?j mod 8 + l then chunk ?e (x - ?j mod 8) else chunk (fb_data c) x)" for x
    by (rule chunk_blit [OF e]) (use e l(2) lc in linarith)
  have "sector img u j = (if rq_start rq \<le> j \<and> j < rq_start rq + (i + l) then chunk ?b (j - rq_start rq) else D j)"
    if j: "j < nat (bf_nb_sectors s)" for j
  proof -
    have old: "sector img s j = (if rq_start rq \<le> j \<and> j < ?j then chunk ?b (j - rq_start rq) else D j)" using p j by (simp add: progress_def)
    show ?thesis
    proof (cases "j div 8 = ?j div 8")
      case False
      then have "sector img u j = sector img s j" unfolding sector_def u(1,2) by simp
      moreover have "\<not> (?j \<le> j \<and> j < ?j + l)" using False l(2) div_mod_run(1) [of "j - ?j" 8 ?j] by force
      ultimately show ?thesis using old by auto
    next
      case True
      have "sector img u j = chunk (blit (fb_data c) (512 * (?j mod 8)) ?e) (j mod 8)" using True k by (simp add: sector_def u(1) io)
      also have "\<dots> = (if ?j \<le> j \<and> j < ?j + l then chunk ?e (j - ?j) else sector img s j)"
        unfolding blit using same_cluster [OF True l(2)] True c by (auto simp: sector_def)
      also have "\<dots> = (if rq_start rq \<le> j \<and> j < ?j + l then chunk ?b (j - rq_start rq) else D j)"
        using old chunk_chunk [of "j - ?j" l i ?b] by auto
      finally show ?thesis by (simp add: add.assoc)
    qed
  qed
  then show ?thesis using p l u by (simp add: progress_def add.assoc)
qed

text \<open>A new cluster holds what the sectors had.\<close>

lemma new_cluster_data:
  assumes g: "geo srv img s" and j: "j < nat (bf_nb_sectors s)" and none: "bf_clusters s ! (j div 8) = None"
  shows "512 * (8 * (j div 8) mod nat (bf_block_size s) + 8) \<le> 512 * nat (bf_block_size s)"
    and "bf_clusters u = (bf_clusters s)[j div 8 := Some (fb\<lparr>fb_data :=
        take 4096 (drop (512 * (8 * (j div 8) mod nat (bf_block_size s))) (img (j div nat (bf_block_size s))))\<rparr>)] \<Longrightarrow>
      bf_block_size u = bf_block_size s \<Longrightarrow> j' < nat (bf_nb_sectors s) \<Longrightarrow> sector img u j' = sector img s j'"
proof -
  obtain m where m: "nat (bf_block_size s) = 2 ^ m" "8 dvd (2 ^ m :: nat)" by (rule geo_unit [OF g])
  let ?n = "2 ^ m :: nat" and ?a = "8 * (j div 8)"
  have fit: "?a mod ?n + 8 \<le> ?n"
  proof -
    have "8 dvd ?a mod ?n" using m(2) by (simp add: dvd_mod)
    then obtain x where x: "?a mod ?n = 8 * x" by (auto elim: dvdE)
    obtain y where y: "?n = 8 * y" using m(2) by (auto elim: dvdE)
    have "?a mod ?n < ?n" by simp
    then have "x < y" unfolding x unfolding y by simp
    then show ?thesis unfolding x unfolding y by linarith
  qed
  then show "512 * (8 * (j div 8) mod nat (bf_block_size s) + 8) \<le> 512 * nat (bf_block_size s)" unfolding m(1) by (rule mult_le_mono2)
  have run: "(?a + x) div ?n = ?a div ?n" "(?a + x) mod ?n = ?a mod ?n + x" if "x < 8" for x
  proof -
    have "x < ?n - ?a mod ?n" unfolding less_diff_conv by (rule order_less_le_trans [OF _ fit]) (use that in simp)
    then show "(?a + x) div ?n = ?a div ?n" "(?a + x) mod ?n = ?a mod ?n + x" by (rule div_mod_run)+
  qed
  have "?a div ?n = j div ?n" using run(1) [of "j mod 8"] by simp
  note run = run [unfolded this]
  show "sector img u j' = sector img s j'" if u: "bf_clusters u = (bf_clusters s)[j div 8 := Some (fb\<lparr>fb_data :=
      take 4096 (drop (512 * (8 * (j div 8) mod nat (bf_block_size s))) (img (j div nat (bf_block_size s))))\<rparr>)]"
    "bf_block_size u = bf_block_size s" "j' < nat (bf_nb_sectors s)"
  proof (cases "j' div 8 = j div 8")
    case False
    then show ?thesis unfolding sector_def u(1,2) by simp
  next
    case True
    have j': "j' = ?a + j' mod 8" unfolding True [symmetric] by simp
    have "sector img u j' = chunk (take (512 * 8) (drop (512 * (?a mod ?n)) (img (j div ?n)))) (j' mod 8)"
      using True geo_sector(2) [OF g j] unfolding sector_def u(1,2) m(1) by simp
    also have "\<dots> = chunk (img (j div ?n)) (?a mod ?n + j' mod 8)" by (rule chunk_chunk) simp
    also have "\<dots> = sector img s j'" using none True run [of "j' mod 8"] j' unfolding sector_def m(1) by simp
    finally show ?thesis .
  qed
qed

end
