(* ===== verification/Http_Request.thy ===== *)
theory Http_Request
  imports Http_Disk
begin

text \<open>
  The rounds of \<open>bf_rw_async1\<close>, and what the arrival of a block does to a waiting request.
\<close>

unbundle bit_operations_syntax

section \<open>One round\<close>

text \<open>A request waits for a block that is being loaded.\<close>

definition waiting :: "'w block_device_http_scheme \<Rightarrow> bool" where
  "waiting s \<longleftrightarrow> (\<exists>p. loading s p \<and> holds s p (u32_of_int (bf_cur_block_num s)))"

definition http_inv :: "(bytes \<Rightarrow> bytes) \<Rightarrow> (nat \<Rightarrow> bytes) \<Rightarrow> ptr list \<Rightarrow> 'w block_device_http_scheme \<Rightarrow> bool" where
  "http_inv srv img A s \<longleftrightarrow> geo srv img s \<and> cache_ok srv img A s"

text \<open>What a request leaves alone; the blocks being loaded stay.\<close>

definition keeps_loading :: "'w block_device_http_scheme \<Rightarrow> 'w block_device_http_scheme \<Rightarrow> bool" where
  "keeps_loading s u \<longleftrightarrow> (\<forall>q. loading s q \<longrightarrow> loading u q \<and> cblocks u q = cblocks s q)"

lemma keeps_loading_cong [simp]: "bf_cached_blocks u = bf_cached_blocks s \<Longrightarrow> cblocks u = cblocks s \<Longrightarrow> keeps_loading s u"
  by (simp add: keeps_loading_def loading_def)

lemma keeps_loading_trans: "keeps_loading s t \<Longrightarrow> keeps_loading t u \<Longrightarrow> keeps_loading s u"
  by (simp add: keeps_loading_def)

definition same_client :: "'w block_device_http_scheme \<Rightarrow> 'w block_device_http_scheme \<Rightarrow> bool" where
  "same_client s u \<longleftrightarrow> bf_nb_sectors u = bf_nb_sectors s \<and> bf_block_size u = bf_block_size s \<and> bf_cb u = bf_cb s \<and> block_device_http.more u = block_device_http.more s
     \<and> keeps_loading s u"

lemma same_client_refl [simp]: "same_client s s"
  by (simp add: same_client_def)

lemma same_client_trans: "same_client s t \<Longrightarrow> same_client t u \<Longrightarrow> same_client s u"
  unfolding same_client_def using keeps_loading_trans by metis

lemma same_client_step: "cache_step N s t \<Longrightarrow> same_client s t"
  by (simp add: same_client_def cache_step_fields keeps_loading_def cache_step_loading)

definition rounds :: "'w block_device_http_scheme \<Rightarrow> nat" where
  "rounds s = 2 * nat (bf_sector_count s - bf_sector_index s)
     + (if bf_clusters s ! (unat (bf_sector_num s) div 8) = None then 1 else 0)"

lemma min_int_nat: "min_int (int a) (int b) = int (min a b)"
  by (simp add: min_int_def min_def)

lemma wp_rw_step:
  assumes g: "geo srv img s" and p: "progress img D rq i s" and j: "rq_start rq + i < nat (bf_nb_sectors s)" and i: "i < rq_n rq"
    and hit: "\<And>c l. bf_clusters s ! ((rq_start rq + i) div 8) = Some c \<Longrightarrow> l = min (rq_n rq - i) (8 - (rq_start rq + i) mod 8) \<Longrightarrow>
      wlp (andthen (if rq_write rq then write_sectors (int ((rq_start rq + i) div 8)) c (int ((rq_start rq + i) mod 8)) (int l)
          else read_sectors c (int ((rq_start rq + i) mod 8)) (int l)) (andthen (advance (int l)) (ret (Again ())))) Q ovf s"
    and miss: "\<And>n num l. bf_clusters s ! ((rq_start rq + i) div 8) = None \<Longrightarrow> n = nat (bf_block_size s) \<Longrightarrow> num = int ((rq_start rq + i) div n) \<Longrightarrow>
      l = min (rq_n rq - i) (n - (rq_start rq + i) mod n) \<Longrightarrow>
      wlp (bnd (bf_find_block (u32_of_int num)) (\<lambda>p.
             if p = 0 then andthen (bf_start_load_block num) (ret (Done True))
             else bnd (block_of p) (\<lambda>b.
               if cb_state b = CBLOCK_LOADING then ret (Done True)
               else if rq_write rq then andthen (new_cluster (int ((rq_start rq + i) div 8)) b) (ret (Again ()))
               else andthen (read_sectors (cb_fbuf b) (int ((rq_start rq + i) mod n)) (int l))
                 (andthen (advance (int l))
                 (andthen (modify (\<lambda>s. s\<lparr>bf_cur_block_num := - 1\<rparr>)) (ret (Again ()))))))) Q ovf (s\<lparr>bf_cur_block_num := num\<rparr>)"
  shows "wlp (rw_step ()) Q ovf s"
proof -
  let ?j = "rq_start rq + i"
  note gs = geo_sector [OF g j]
  obtain m where m: "bf_block_size s = int (2 ^ m)" "(2 :: nat) ^ m < 2147483648" "bf_sectors_per_cluster s = 8" by (rule geo_unit [OF g])
  have pr: "bf_is_write s = rq_write rq" "bf_sector_count s - bf_sector_index s = int (rq_n rq - i)" "bf_sector_num s = of_nat ?j"
    using p i by (simp_all add: progress_def of_nat_diff)
  have eight: "int_of_u32 (ucast (of_nat ?j div word_of_int 8 :: u64)) = int (?j div 8)" "int_of_u32 (ucast (of_nat ?j mod word_of_int 8 :: u64)) = int (?j mod 8)"
    using sector_div_mod [OF gs(1), of 8] gs(3) by simp_all
  have blk: "int_of_u32 (ucast (of_nat ?j div word_of_int (int (2 ^ m)) :: u64)) = int (?j div 2 ^ m)"
    "int_of_u32 (ucast (of_nat ?j mod word_of_int (int (2 ^ m)) :: u64)) = int (?j mod 2 ^ m)"
    using sector_div_mod [OF gs(1) _ m(2) gs(5) [unfolded m(1) nat_int]] by (simp_all only: zero_less_power zero_less_numeral)
  have d: "8 - int (?j mod 8) = int (8 - ?j mod 8)" "int (2 ^ m) - int (?j mod 2 ^ m) = int (2 ^ m - ?j mod 2 ^ m)"
    by (simp_all add: of_nat_diff mod_le_divisor less_imp_le)
  have nz: "rq_n rq - i \<noteq> 0" "int (2 ^ m) \<noteq> 0" using i by simp_all
  show ?thesis unfolding rw_step_def wlp_bnd [of "gets id"] wlp_gets id_apply wlp_bnd [of "cint _"] pr m
  proof (rule wlp_cint_nat, goal_cases)
    case 1
    show ?case using nz gs(2) hit miss [OF _ _ refl refl]
      by (simp only: of_nat_eq_0_iff if_False Let_def wlp_andthen [of "guard _ _"] wlp_guard m pr eight blk d nat_int min_int_nat of_nat_less_iff
          of_nat_0_le_iff simp_thms if_True wlp_andthen [of "modify _"] wlp_modify numeral_neq_zero)
        (cases "bf_clusters s ! (?j div 8)"; simp only: option.case wlp_andthen [of "guard _ _"] wlp_guard nz simp_thms if_True wlp_andthen [of "modify _"] wlp_modify)
  qed simp
qed

text \<open>
  A request that stops at a sector waits for the block of that sector; if it stopped at once, the block was not
  there or not loaded.
\<close>

definition blocked :: "http_request \<Rightarrow> nat \<Rightarrow> 'w block_device_http_scheme \<Rightarrow> 'w block_device_http_scheme \<Rightarrow> bool" where
  "blocked rq i s u \<longleftrightarrow> bf_cur_block_num u = int ((rq_start rq + i) div nat (bf_block_size u)) \<and> rounds u \<le> rounds s
     \<and> (rounds u = rounds s \<longrightarrow> (\<forall>p \<in> set (bf_cached_blocks s). holds s p (u32_of_int (bf_cur_block_num u)) \<longrightarrow> loading s p))"

text \<open>The state after a round from a state with \<open>i\<close> sectors done.\<close>

definition rw_post :: "(bytes \<Rightarrow> bytes) \<Rightarrow> (nat \<Rightarrow> bytes) \<Rightarrow> (nat \<Rightarrow> bytes) \<Rightarrow> http_request \<Rightarrow> ptr list \<Rightarrow> nat \<Rightarrow> 'w block_device_http_scheme \<Rightarrow>
    (unit, bool) step \<Rightarrow> 'w block_device_http_scheme \<Rightarrow> bool" where
  "rw_post srv img D rq A i s r u \<longleftrightarrow> http_inv srv img A u \<and> same_client s u \<and> (rq_write rq \<or> bf_clusters u = bf_clusters s) \<and> (\<exists>i' \<ge> i. progress img D rq i' u \<and>
     (case r of Again _ \<Rightarrow> \<not> waiting u \<and> wgets u = wgets s \<and> rounds u < rounds s
      | Done True \<Rightarrow> waiting u \<and> i' < rq_n rq \<and> length (wgets u) \<le> Suc (length (wgets s)) \<and> blocked rq i' s u
      | Done False \<Rightarrow> \<not> waiting u \<and> i' = rq_n rq \<and> wgets u = wgets s))"

lemma geo_cluster:
  assumes "geo srv img s" "length d = 4096"
  shows "geo srv img (s\<lparr>bf_clusters := (bf_clusters s)[k := Some (fb\<lparr>fb_data := d\<rparr>)]\<rparr>)"
  using assms set_update_subset_insert [of "bf_clusters s" k "Some (fb\<lparr>fb_data := d\<rparr>)"] by (auto simp: geo_def)

lemma rounds_advance:
  assumes "progress img D rq i s" "progress img D rq (i + l) u" "0 < l"
  shows "rounds u < rounds s"
proof -
  have "bf_sector_count u - bf_sector_index u = int (rq_n rq - (i + l))" "bf_sector_count s - bf_sector_index s = int (rq_n rq - i)" "i + l \<le> rq_n rq"
    using assms by (auto simp: progress_def)
  then show ?thesis using assms(3) unfolding rounds_def by (simp only: nat_int) auto
qed

lemma waiting_cong:
  "bf_cached_blocks t = bf_cached_blocks s \<Longrightarrow> cblocks t = cblocks s \<Longrightarrow> bf_cur_block_num t = bf_cur_block_num s \<Longrightarrow> waiting t = waiting s"
  by (simp add: waiting_def loading_def holds_def)

lemma rw_hit:
  assumes inv: "http_inv srv img A s" and p: "progress img D rq i s" and f: "fits rq s" and i: "i < rq_n rq" and w: "\<not> waiting s"
    and c: "bf_clusters s ! ((rq_start rq + i) div 8) = Some c" and l: "l = min (rq_n rq - i) (8 - (rq_start rq + i) mod 8)"
  shows "wlp (andthen (if rq_write rq then write_sectors (int ((rq_start rq + i) div 8)) c (int ((rq_start rq + i) mod 8)) (int l)
          else read_sectors c (int ((rq_start rq + i) mod 8)) (int l)) (andthen (advance (int l)) (ret (Again ()))))
      (rw_post srv img D rq A i s) ovf s"
proof -
  let ?j = "rq_start rq + i" and ?d = "take (512 * l) (drop (512 * i) (bf_io_buf s))"
  let ?c = "c\<lparr>fb_data := blit (fb_data c) (512 * (?j mod 8)) ?d\<rparr>"
  let ?w = "s\<lparr>bf_clusters := (bf_clusters s)[?j div 8 := Some ?c]\<rparr>"
  let ?r = "s\<lparr>bf_io_buf := blit (bf_io_buf s) (512 * i) (take (512 * l) (drop (512 * (?j mod 8)) (fb_data c)))\<rparr>"
  have g: "geo srv img s" and ca: "cache_ok srv img A s" using inv by (simp_all add: http_inv_def)
  have j: "?j < nat (bf_nb_sectors s)" using f i by (simp add: fits_def)
  have lc: "length (fb_data c) = 4096" by (rule cluster_length [OF g geo_sector(2) [OF g j] c])
  have jm: "?j mod 8 < 8" by simp
  have l': "0 < l" "i + l \<le> rq_n rq" "l \<le> 8 - ?j mod 8" "?j mod 8 + l \<le> 8" using l i jm by auto
  have ix: "bf_sector_index s = int i" "bf_sector_num s = of_nat ?j" using p by (simp_all add: progress_def)
  have buf: "512 * (i + l) \<le> length (rq_buf rq)" using f l'(2) by (auto simp: fits_def)
  have io: "512 * (i + l) \<le> length (bf_io_buf s)"
  proof (cases "rq_write rq")
    case False
    then have "bf_io_buf s = blit (rq_buf rq) 0 (concat (map D [rq_start rq..<?j]))" using p by (simp add: progress_def)
    then show ?thesis using buf by (simp add: blit_def)
  qed (use p buf in \<open>simp add: progress_def\<close>)
  let ?adv = "\<lambda>t. t\<lparr>bf_sector_index := int (i + l), bf_sector_num := of_nat (?j + l)\<rparr>"
  have post: "rw_post srv img D rq A i s (Again ()) u"
    if "progress img D rq (i + l) u" "geo srv img u" "cache_ok srv img A u" "waiting u = waiting s" "same_client s u" "wgets u = wgets s" "rq_write rq \<or> bf_clusters u = bf_clusters s" for u
    unfolding rw_post_def using that w rounds_advance [OF p that(1) l'(1)] by (intro conjI exI [of _ "i + l"]) (simp_all add: http_inv_def)
  have wr: "rw_post srv img D rq A i s (Again ()) (?adv ?w)" if "rq_write rq"
  proof (rule post)
    show "progress img D rq (i + l) (?adv ?w)" by (rule progress_write [OF p that l'(2,3,1) f g c]) simp_all
    have "length (blit (fb_data c) (512 * (?j mod 8)) ?d) = 4096" using lc l'(4) io by (subst length_blit) simp_all
    then show "geo srv img (?adv ?w)" by (intro geo_cong [OF _ _ _ _ _ _ _ _ geo_cluster [OF g]]) simp_all
    show "cache_ok srv img A (?adv ?w)" using ca by (subst cache_cong) simp_all
    show "waiting (?adv ?w) = waiting s" by (rule waiting_cong) simp_all
  qed (simp_all add: same_client_def that)
  have rd: "rw_post srv img D rq A i s (Again ()) (?adv ?r)" if "\<not> rq_write rq"
  proof (rule post)
    have "sector img s (?j + x) = chunk (fb_data c) (?j mod 8 + x)" if "x < l" for x
      using div_mod_run [of x 8 ?j] that l'(3) c by (simp add: sector_def)
    then show "progress img D rq (i + l) (?adv ?r)" by (rule progress_read [OF p that l'(2) f g]) (use lc l'(4) in simp_all)
    show "geo srv img (?adv ?r)" by (rule geo_cong [OF _ _ _ _ _ _ _ _ g]) simp_all
    show "cache_ok srv img A (?adv ?r)" using ca by (subst cache_cong) simp_all
    show "waiting (?adv ?r) = waiting s" by (rule waiting_cong) simp_all
  qed (simp_all add: same_client_def)
  have adv: "wlp (andthen (advance (int l)) (ret (Again ()))) (rw_post srv img D rq A i s) ovf t"
    if "rw_post srv img D rq A i s (Again ()) (?adv t)" "bf_sector_index t = int i" "bf_sector_num t = of_nat ?j" for t
    unfolding wlp_andthen by (rule wp_advance [OF that(2,3)], unfold wlp_ret) (rule that(1))
  show ?thesis
  proof (cases "rq_write rq")
    case True
    show ?thesis unfolding wlp_andthen if_P [OF True]
      by (rule wp_write_sectors [OF ix(1)]) (use lc l'(4) io ix adv [unfolded wlp_andthen, of ?w] wr [OF True] in simp_all)
  next
    case False
    show ?thesis unfolding wlp_andthen if_not_P [OF False]
      by (rule wp_read_sectors [OF ix(1)]) (use lc l'(4) io ix adv [unfolded wlp_andthen, of ?r] rd [OF False] in simp_all)
  qed
qed

lemma and_mask_nat: "int a AND (int (2 ^ m) - 1) = int (a mod 2 ^ m)"
  by (simp add: zmod_int of_nat_take_bit flip: mask_eq_exp_minus_1 take_bit_eq_mask take_bit_eq_mod)

lemma wp_new_cluster:
  assumes g: "geo srv img s" and j: "j < nat (bf_nb_sectors s)" and none: "bf_clusters s ! (j div 8) = None"
    and b: "fb_data (cb_fbuf b) = img (j div nat (bf_block_size s))"
    and Q: "\<And>c fb a. Q () (s\<lparr>http_calls := c, bf_clusters := (bf_clusters s)[j div 8 := Some (fb\<lparr>fb_data :=
        take 4096 (drop (512 * (8 * (j div 8) mod nat (bf_block_size s))) (img (j div nat (bf_block_size s))))\<rparr>)], bf_n_allocated_clusters := a\<rparr>)"
  shows "wlp (new_cluster (int (j div 8)) b) Q ovf s"
proof -
  obtain m where m: "bf_block_size s = int (2 ^ m)" "bf_sectors_per_cluster s = 8" by (rule geo_unit [OF g])
  let ?k = "8 * (j div 8) mod 2 ^ m" and ?b = "img (j div 2 ^ m)"
  have lb: "length ?b = 512 * 2 ^ m" using g m by (simp add: geo_def)
  have fit: "512 * ?k + 4096 \<le> length ?b" using new_cluster_data(1) [OF g j none] unfolding m nat_int lb by (simp add: algebra_simps)
  have mem: "\<forall>c n. host_mem (http_host s) c n" using g by (simp add: geo_def)
  have e: "int (j div 8) * 8 = int (8 * (j div 8))" "8 * 512 = int 4096" by simp_all
  have "peek ?b (int (512 * ?k)) 4096 = Inr (take 4096 (drop (512 * ?k) ?b))" by (rule peek_nat [OF fit])
  then have pk': "512 * ?k < 2147483648 \<Longrightarrow> peek ?b (uint (usize (int (512 * ?k)))) (unat (usize (int 4096))) = Inr (take 4096 (drop (512 * ?k) ?b))"
    by (simp only: usize_nat)
  have b': "fb_data (cb_fbuf b) = ?b" using b unfolding m nat_int .
  note Q' = Q [unfolded m nat_int]
  have len: "length (take 4096 (drop (512 * ?k) ?b)) = 4096" using fit by simp
  show ?thesis
    unfolding new_cluster_def wlp_bnd wlp_gets id_apply m e
  proof (rule wlp_cint_nat, rule wp_new_buffer [OF mem], rule wlp_cint_nat, unfold and_mask_nat, rule wp_cint_sectors, goal_cases)
    case (1 fb)
    then have "poke (fb_data fb) 0 (take 4096 (drop (512 * ?k) ?b)) = Inr (take 4096 (drop (512 * ?k) ?b))"
      using poke_nat [of 0 "take 4096 (drop (512 * ?k) ?b)" "fb_data fb"] len by (simp add: usize_def blit_0_full)
    note pk = this
    show ?case unfolding b' wlp_lift pk' [OF 1(4)] sum.case pk wlp_andthen wlp_modify wlp_bnd wlp_cint using Q' by simp
  qed simp_all
qed

lemma rw_miss_read:
  assumes inv: "http_inv srv img A s" and p: "progress img D rq i s" "\<not> rq_write rq" and f: "fits rq s" and i: "i < rq_n rq"
    and none: "bf_clusters s ! ((rq_start rq + i) div 8) = None" and n: "n = nat (bf_block_size s)" and l: "l = min (rq_n rq - i) (n - (rq_start rq + i) mod n)"
    and b: "fb_data fb = img ((rq_start rq + i) div n)"
    and Q: "\<And>t. progress img D rq (i + l) t \<Longrightarrow> geo srv img t \<Longrightarrow> cache_ok srv img A t \<Longrightarrow> rounds t < rounds s \<Longrightarrow> same_client s t \<Longrightarrow> wgets t = wgets s \<Longrightarrow>
      bf_cur_block_num t = - 1 \<Longrightarrow> bf_clusters t = bf_clusters s \<Longrightarrow> Q (Again ()) t"
  shows "wlp (andthen (read_sectors fb (int ((rq_start rq + i) mod n)) (int l))
     (andthen (advance (int l)) (andthen (modify (\<lambda>s. s\<lparr>bf_cur_block_num := - 1\<rparr>)) (ret (Again ()))))) Q ovf s"
proof -
  let ?j = "rq_start rq + i"
  let ?r = "s\<lparr>bf_io_buf := blit (bf_io_buf s) (512 * i) (take (512 * l) (drop (512 * (?j mod n)) (fb_data fb)))\<rparr>"
  let ?t = "?r\<lparr>bf_sector_index := int (i + l), bf_sector_num := of_nat (?j + l), bf_cur_block_num := - 1\<rparr>"
  have g: "geo srv img s" and ca: "cache_ok srv img A s" using inv by (simp_all add: http_inv_def)
  obtain m where m: "nat (bf_block_size s) = 2 ^ m" by (rule geo_unit [OF g])
  have jm: "?j mod n < n" unfolding n m by simp
  have l': "0 < l" "i + l \<le> rq_n rq" "l \<le> n - ?j mod n" "?j mod n + l \<le> n" using l i jm by auto
  have ix: "bf_sector_index s = int i" "bf_sector_num s = of_nat ?j" using p by (simp_all add: progress_def)
  have "512 * (i + l) \<le> length (rq_buf rq)" using f l'(2) by (auto simp: fits_def)
  then have io: "512 * (i + l) \<le> length (bf_io_buf s)" using p by (simp add: progress_def blit_def)
  have lb: "512 * (?j mod n + l) \<le> length (fb_data fb)" using g l'(4) by (simp add: b geo_def n)
  have sec: "sector img s (?j + x) = chunk (fb_data fb) (?j mod n + x)" if "x < l" for x
  proof -
    have d: "(?j + x) div n = ?j div n" "(?j + x) mod n = ?j mod n + x" using div_mod_run [of x n ?j] that l'(3) by simp_all
    have "?j + x < rq_start rq + rq_n rq" using that l'(2) by linarith
    moreover have "unmixed (rq_start rq) (rq_start rq + rq_n rq) s" using f p(2) by (simp add: fits_def)
    ultimately have "bf_clusters s ! ((?j + x) div 8) = None" using none d(1) n unfolding unmixed_def by (metis le_add1)
    then show ?thesis using d by (simp add: sector_def b flip: n)
  qed
  have pr: "progress img D rq (i + l) ?t" by (rule progress_read [OF p l'(2) f g sec lb]) simp_all
  moreover have "geo srv img ?t" by (rule geo_cong [OF _ _ _ _ _ _ _ _ g]) simp_all
  moreover have "cache_ok srv img A ?t" using ca by (subst cache_cong) simp_all
  moreover have "rounds ?t < rounds s" by (rule rounds_advance [OF p(1) pr l'(1)])
  ultimately have "Q (Again ()) ?t" by (rule Q) (simp_all add: same_client_def)
  then have "wlp (andthen (advance (int l)) (andthen (modify (\<lambda>s. s\<lparr>bf_cur_block_num := - 1\<rparr>)) (ret (Again ())))) Q ovf ?r"
    unfolding wlp_andthen by (intro wp_advance [of _ i ?j]) (simp_all add: wlp_simps ix)
  then show ?thesis unfolding wlp_andthen [of "read_sectors _ _ _"] by (rule wp_read_sectors [OF ix(1) lb io])
qed

lemma no_block_waiting: "cache_ok srv img A s \<Longrightarrow> bf_cur_block_num s = - 1 \<Longrightarrow> \<not> waiting s"
  using cache_okD(3) [of srv img A s] by (fastforce simp: waiting_def loading_def holds_def block_ok_def u32_of_int_def)

lemma loaded_not_waiting:
  assumes "cache_ok srv img A s" "p \<in> set (bf_cached_blocks s)" "\<not> loading s p" "holds s p (u32_of_int (bf_cur_block_num s))"
  shows "\<not> waiting s"
  using cache_unique [OF assms(1,2) _ assms(4)] assms(3) by (auto simp: waiting_def loading_def)

lemma fits_cong:
  "bf_clusters t = bf_clusters s \<Longrightarrow> bf_block_size t = bf_block_size s \<Longrightarrow> bf_nb_sectors t = bf_nb_sectors s \<Longrightarrow> fits rq t = fits rq s"
  by (simp add: fits_def unmixed_def)

lemma rw_miss:
  assumes inv: "http_inv srv img A s" and p: "progress img D rq i s" and f: "fits rq s" and i: "i < rq_n rq"
    and none: "bf_clusters s ! ((rq_start rq + i) div 8) = None" and n: "n = nat (bf_block_size s)" and num: "num = int ((rq_start rq + i) div n)"
    and l: "l = min (rq_n rq - i) (n - (rq_start rq + i) mod n)" and cur: "bf_cur_block_num s = num"
    and Q: "\<And>r u. rw_post srv img D rq A i s r u \<Longrightarrow> Q r u"
  shows "wlp (bnd (bf_find_block (u32_of_int num)) (\<lambda>p.
             if p = 0 then andthen (bf_start_load_block num) (ret (Done True))
             else bnd (block_of p) (\<lambda>b.
               if cb_state b = CBLOCK_LOADING then ret (Done True)
               else if rq_write rq then andthen (new_cluster (int ((rq_start rq + i) div 8)) b) (ret (Again ()))
               else andthen (read_sectors (cb_fbuf b) (int ((rq_start rq + i) mod n)) (int l))
                 (andthen (advance (int l))
                 (andthen (modify (\<lambda>s. s\<lparr>bf_cur_block_num := - 1\<rparr>)) (ret (Again ()))))))) Q ovf s"
proof -
  let ?j = "rq_start rq + i"
  have g: "geo srv img s" and ca: "cache_ok srv img A s" using inv by (simp_all add: http_inv_def)
  have j: "?j < nat (bf_nb_sectors s)" using f i by (simp add: fits_def)
  note gs = geo_sector [OF g j, folded n]
  have k: "unat (u32_of_int num) = ?j div n" using gs(5) by (simp add: num unat_u32_of_int)
  have "unat (- 1 :: u32) = 4294967295" by (simp add: unsigned_minus_1_eq_mask mask_eq_exp_minus_1)
  then have k1: "u32_of_int num \<noteq> - 1" using k gs(5) by auto
  have bs: "0 < bf_block_size s" "\<forall>c n. host_mem (http_host s) c n" "0 < http_next s" using g by (auto simp: geo_def)
  have srv: "srv (BLK_FMT (bf_url s) (u32_of_int num)) = img (unat (u32_of_int num))" "length (img (unat (u32_of_int num))) = 512 * nat (bf_block_size s)"
  proof -
    have "int (unat (u32_of_int num)) < bf_nb_blocks s" unfolding k by (rule gs(4))
    then show "srv (BLK_FMT (bf_url s) (u32_of_int num)) = img (unat (u32_of_int num))" "length (img (unat (u32_of_int num))) = 512 * nat (bf_block_size s)"
      using g unfolding geo_def by blast+
  qed
  show ?thesis unfolding wlp_bnd [of "bf_find_block _"]
  proof (rule wp_bf_find_block [OF ca], goal_cases)
    case 1
    note fresh = 1
    show ?case unfolding if_P [OF refl] wlp_andthen
    proof (rule wp_start_load [OF ca 1 k1 bs srv], unfold wlp_ret, rule Q, goal_cases)
      case (1 p t u)
      obtain w r where u: "u = t\<lparr>bf_n_read_blocks := r, wgets := wgets t @ [w]\<rparr>" using 1(4) by blast
      have "waiting u" using 1(2,3) cache_step_fields(14) [OF 1(1)] cur by (auto simp: waiting_def loading_def holds_def u)
      moreover have "geo srv img u" by (rule geo_cong [OF _ _ _ _ _ _ _ _ geo_step [OF 1(1) g]]) (simp_all add: u)
      moreover have "progress img D rq i u" using p progress_step [OF 1(1)] by (subst progress_cong [of u t]) (simp_all add: u)
      moreover have "same_client s u" using same_client_step [OF 1(1)] by (rule same_client_trans) (simp add: same_client_def u)
      moreover have "length (wgets u) \<le> Suc (length (wgets s))" using cache_step_fields(8) [OF 1(1)] by (simp add: u)
      moreover have "bf_clusters u = bf_clusters s" using cache_step_fields(1) [OF 1(1)] by (simp add: u)
      moreover have "rounds u = rounds s" using cache_step_fields [OF 1(1)] by (simp add: rounds_def u)
      then have "blocked rq i s u" using cache_step_fields [OF 1(1)] cur num n fresh by (simp add: blocked_def u)
      ultimately show ?case using 1(5) i unfolding rw_post_def http_inv_def by auto
    qed
  next
    case (2 p ls)
    let ?s = "s\<lparr>bf_cached_blocks := ls\<rparr>"
    have ca': "cache_ok srv img A ?s" by (rule cache_perm [OF ca 2(3,4)])
    have st: "cache_step {} s ?s" by (rule perm_step [OF 2(4)])
    have g': "geo srv img ?s" by (rule geo_step [OF st g])
    have sc: "same_client s ?s" by (rule same_client_step [OF st])
    have inv': "http_inv srv img A ?s" using g' ca' by (simp add: http_inv_def)
    have p': "progress img D rq i ?s" using progress_step [OF st] p by simp
    have f': "fits rq ?s" using f by (subst fits_cong) simp_all
    have pp: "p \<noteq> 0" "p \<in> set (bf_cached_blocks ?s)" using 2(1,4) cache_okD(1) [OF ca] by simp_all
    obtain b where b: "cblocks s p = Some b" "block_num b = u32_of_int num" using 2(2) by (auto simp: holds_def)
    have hold: "holds ?s p (u32_of_int (bf_cur_block_num ?s))" using 2(2) cur by (simp add: holds_def)
    show ?case unfolding wlp_if if_not_P [OF pp(1)] wlp_bnd
    proof (rule wp_load [where a = b], goal_cases)
      case 3
      show ?case
      proof (cases "cb_state b")
        case CBLOCK_LOADING
        then have "loading ?s p" using pp b by (auto simp: loading_def)
        then have "waiting ?s" using hold by (auto simp: waiting_def)
        moreover have "loading s q" if "q \<in> set (bf_cached_blocks s)" "holds s q (u32_of_int num)" for q
          using cache_unique [OF ca _ that(1) 2(2) that(2)] 2(1,4) CBLOCK_LOADING b by (auto simp: loading_def)
        then have "blocked rq i s ?s" using cur num n by (simp add: blocked_def rounds_def)
        ultimately show ?thesis using CBLOCK_LOADING inv' p' i sc by (auto simp: wlp_ret rw_post_def intro!: Q)
      next
        case CBLOCK_LOADED
        then have nl: "\<not> loading ?s p" using b by (auto simp: loading_def)
        have nw: "\<not> waiting ?s" by (rule loaded_not_waiting [OF ca' pp(2) nl hold])
        have data: "fb_data (cb_fbuf b) = img (?j div n)" using cache_okD(3) [OF ca' pp(2)] b CBLOCK_LOADED k by (auto simp: block_ok_def)
        show ?thesis
        proof (cases "rq_write rq")
          case False
          have "wlp (andthen (read_sectors (cb_fbuf b) (int (?j mod n)) (int l)) (andthen (advance (int l))
              (andthen (modify (\<lambda>s. s\<lparr>bf_cur_block_num := - 1\<rparr>)) (ret (Again ()))))) Q ovf ?s"
          proof (rule rw_miss_read [OF inv' p' False f' i _ _ l data], goal_cases)
            case (3 t)
            then show ?case using no_block_waiting [OF 3(3,7)] same_client_trans [OF sc 3(5)]
              by (intro Q) (auto simp: rw_post_def http_inv_def rounds_def intro!: exI [of _ "i + l"])
          qed (use none n in simp_all)
          then show ?thesis using CBLOCK_LOADED False by simp
        next
          case True
          have "wlp (andthen (new_cluster (int (?j div 8)) b) (ret (Again ()))) Q ovf ?s"
            unfolding wlp_andthen wlp_ret
          proof (rule wp_new_cluster [OF g', where j = ?j], goal_cases)
            case (4 c fb a)
            let ?d = "take 4096 (drop (512 * (8 * (?j div 8) mod nat (bf_block_size ?s))) (img (?j div nat (bf_block_size ?s))))"
            let ?t = "?s\<lparr>http_calls := c, bf_clusters := (bf_clusters ?s)[?j div 8 := Some (fb\<lparr>fb_data := ?d\<rparr>)], bf_n_allocated_clusters := a\<rparr>"
            have j': "?j < nat (bf_nb_sectors ?s)" and none': "bf_clusters ?s ! (?j div 8) = None" using j none by simp_all
            note nc = new_cluster_data [OF g' j' none']
            have "512 * nat (bf_block_size ?s) = length (img (?j div nat (bf_block_size ?s)))" using g' unfolding geo_def by metis
            then have len: "length ?d = 4096" using nc(1) by simp
            have "geo srv img ?t" by (rule geo_cong [OF _ _ _ _ _ _ _ _ geo_cluster [OF g' len]]) simp_all
            moreover have "cache_ok srv img A ?t" using ca' by (subst cache_cong) simp_all
            moreover have "sector img ?t x = sector img ?s x" if "x < nat (bf_nb_sectors s)" for x by (rule nc(2)) (use that in simp_all)
            then have "progress img D rq i ?t" using p' by (simp add: progress_def)
            moreover have "waiting ?t = waiting ?s" by (rule waiting_cong) simp_all
            moreover have "unat (bf_sector_num s) = ?j" using p gs(1) by (simp only: progress_def u64_small)
            then have "rounds ?t < rounds s" using none gs(2) by (simp add: rounds_def)
            moreover have "same_client s ?t" by (rule same_client_trans [OF sc]) (simp add: same_client_def)
            ultimately show ?case using nw True by (intro Q) (auto simp: rw_post_def http_inv_def)
          qed (use j none data n in simp_all)
          then show ?thesis using CBLOCK_LOADED True by simp
        qed
      qed
    qed (use pp b in simp_all)
  qed
qed

section \<open>All rounds\<close>

lemma rw_post_cur: "rw_post srv img D rq A i (s\<lparr>bf_cur_block_num := n\<rparr>) = rw_post srv img D rq A i s"
proof -
  let ?s = "s\<lparr>bf_cur_block_num := n\<rparr>"
  have "keeps_loading ?s = keeps_loading s" by (simp add: fun_eq_iff keeps_loading_def loading_def)
  moreover have "holds ?s = holds s" "loading ?s = loading s" by (simp_all add: fun_eq_iff holds_def loading_def)
  ultimately have "same_client ?s = same_client s" "wgets ?s = wgets s" "rounds ?s = rounds s" "bf_clusters ?s = bf_clusters s" "blocked rq i' ?s = blocked rq i' s" for i'
    by (simp_all add: fun_eq_iff same_client_def rounds_def blocked_def)
  then show ?thesis unfolding fun_eq_iff rw_post_def by (simp only: simp_thms)
qed

lemma rw_step_rule:
  assumes inv: "http_inv srv img A s" and p: "progress img D rq i s" and f: "fits rq s" and w: "\<not> waiting s"
  shows "wlp (rw_step ()) (rw_post srv img D rq A i s) ovf s"
proof (cases "i = rq_n rq")
  case True
  then have "bf_sector_count s - bf_sector_index s = 0" using p by (simp add: progress_def)
  then show ?thesis unfolding rw_step_def wlp_bnd wlp_gets id_apply
    using True inv p w by (auto simp: wlp_simps int_in_range_def rw_post_def)
next
  case False
  then have i: "i < rq_n rq" using p by (simp add: progress_def)
  have g: "geo srv img s" and ca: "cache_ok srv img A s" using inv by (simp_all add: http_inv_def)
  have j: "rq_start rq + i < nat (bf_nb_sectors s)" using f i by (simp add: fits_def)
  show ?thesis
  proof (rule wp_rw_step [OF g p j i], goal_cases)
    case (1 c l)
    show ?case by (rule rw_hit [OF inv p f i w 1])
  next
    case (2 n num l)
    let ?s = "s\<lparr>bf_cur_block_num := num\<rparr>"
    have "geo srv img ?s" by (rule geo_cong [OF _ _ _ _ _ _ _ _ g]) simp_all
    moreover have "cache_ok srv img A ?s" using ca by (subst cache_cong) simp_all
    ultimately have inv': "http_inv srv img A ?s" by (simp add: http_inv_def)
    have p': "progress img D rq i ?s" using p by (subst progress_cong) simp_all
    have f': "fits rq ?s" using f by (subst fits_cong) simp_all
    show ?case
      by (rule rw_miss [OF inv' p' f' i _ _ 2(3,4), unfolded rw_post_cur]) (use 2 in simp_all)
  qed
qed

lemma wlp_loop_unfold:
  "wlp (loop body x) Q F s = wlp (body x) (\<lambda>r. case r of Again x' \<Rightarrow> wlp (loop body x') Q F | Done a \<Rightarrow> Q a) F s"
  unfolding wlp_def by (subst loop.simps) (auto simp: bnd_def split: option.splits sum.splits step.splits)

lemma rw_loop:
  assumes "http_inv srv img A s" "progress img D rq i s" "fits rq s" "\<not> waiting s"
  shows "wlp (loop rw_step ()) (\<lambda>w. rw_post srv img D rq A i s (Done w)) ovf s"
  using assms
proof (induction "rounds s" arbitrary: s i rule: less_induct)
  case less
  have "wlp (loop rw_step ()) (\<lambda>w. rw_post srv img D rq A i s (Done w)) ovf t" if t: "rw_post srv img D rq A i s (Again ()) t" for t
  proof -
    obtain i' where i': "progress img D rq i' t" "i \<le> i'" using t by (auto simp: rw_post_def)
    have "fits rq t" using t less.prems(3) by (auto simp: rw_post_def same_client_def fits_def unmixed_def)
    then have "wlp (loop rw_step ()) (\<lambda>w. rw_post srv img D rq A i' t (Done w)) ovf t"
      using t i' by (intro less.hyps) (auto simp: rw_post_def)
    then show ?thesis
    proof (rule wlp_mono)
      fix w u assume "rw_post srv img D rq A i' t (Done w) u"
      then show "rw_post srv img D rq A i s (Done w) u" using t i' same_client_trans [of s t u]
        by (auto simp: rw_post_def blocked_def intro: order_trans split: bool.splits)
    qed
  qed
  then show ?case
    by (subst wlp_loop_unfold, intro wlp_mono [OF rw_step_rule [OF less.prems]]) (auto split: step.splits)
qed

section \<open>Termination\<close>

lemma total_find_block [total_intros]: "total (find_block k ps)"
  by (induction ps; unfold find_block.simps; (intro total_intros | assumption)+)

lemma total_evict [total_intros]: "total (evict_blocks ps)"
  by (induction ps; unfold evict_blocks.simps bf_free_block_def add_n_cached_def; (intro total_intros | assumption)+)

lemma total_bf_find_block [total_intros]: "total (bf_find_block k)"
  unfolding bf_find_block_def by (intro total_intros)

lemma total_start_load [total_intros]: "total (bf_add_block k)" "total (bf_start_load_block num)"
  unfolding bf_start_load_block_def bf_add_block_def new_buffer_def add_n_cached_def fs_wget_http_def by (intro total_intros)+

lemma total_rw_step: "total (rw_step x)"
  unfolding rw_step_def read_sectors_def write_sectors_def advance_def new_cluster_def new_buffer_def Let_def by (intro total_intros)

end
