(* ===== verification/Http_Arrival.thy ===== *)
theory Http_Arrival
  imports Http_Request
begin

text \<open>
  The client of the block device over HTTP: the phases of its requests, the events of the device, and what the
  arrival of a block does.
\<close>

section \<open>Phases of a request\<close>

definition done_disk :: "(nat \<Rightarrow> bytes) \<Rightarrow> http_request \<Rightarrow> nat \<Rightarrow> bytes" where
  "done_disk D rq = (\<lambda>j. if rq_write rq \<and> rq_start rq \<le> j \<and> j < rq_start rq + rq_n rq then chunk (rq_buf rq) (j - rq_start rq) else D j)"

definition done_buf :: "(nat \<Rightarrow> bytes) \<Rightarrow> http_request \<Rightarrow> bytes" where
  "done_buf D rq = (if rq_write rq then rq_buf rq else blit (rq_buf rq) 0 (concat (map D [rq_start rq..<rq_start rq + rq_n rq])))"

text \<open>No request is under way and the disk is \<open>D\<close>, or the request \<open>rq\<close> waits that was made on the disk \<open>D\<close>.\<close>

definition phase :: "(nat \<Rightarrow> bytes) \<Rightarrow> (nat \<Rightarrow> bytes) \<Rightarrow> http_request option \<Rightarrow> 'w block_device_http_scheme \<Rightarrow> bool" where
  "phase img D pend s \<longleftrightarrow> (case pend of
     None \<Rightarrow> \<not> waiting s \<and> bf_sector_index s = bf_sector_count s \<and> (\<forall>j < nat (bf_nb_sectors s). sector img s j = D j)
   | Some rq \<Rightarrow> waiting s \<and> bf_cb s \<and> fits rq s \<and> (\<exists>i < rq_n rq. progress img D rq i s \<and>
       bf_cur_block_num s = int ((rq_start rq + i) div nat (bf_block_size s))))"

lemma progress_done:
  "progress img D rq (rq_n rq) s \<Longrightarrow> \<not> waiting s \<Longrightarrow> phase img (done_disk D rq) None s \<and> bf_io_buf s = done_buf D rq"
  by (simp add: progress_def phase_def done_disk_def done_buf_def)

lemma rw_post_phase:
  assumes "rw_post srv img D rq A i s (Done w) u" "fits rq s" "bf_cb s"
  shows "if w then phase img D (Some rq) u else phase img (done_disk D rq) None u \<and> bf_io_buf u = done_buf D rq"
proof (cases w)
  case True
  have "fits rq u" using assms(1,2) by (auto simp: rw_post_def same_client_def fits_def unmixed_def)
  then show ?thesis using True assms by (auto simp: rw_post_def phase_def blocked_def same_client_def)
next
  case False
  then show ?thesis using assms(1) progress_done by (auto simp: rw_post_def)
qed

text \<open>What is left to do: the rounds of the request and the transfers.\<close>

definition work :: "'w block_device_http_scheme \<Rightarrow> nat" where
  "work s = 2 * rounds s + length (wgets s)"

section \<open>The client\<close>

text \<open>A client that notes the result and the buffer of every request that completes.\<close>

record logged_http = block_device_http +
  http_done :: "(int \<times> bytes) list"

definition log_done :: "int \<Rightarrow> (logged_http, unit) vm" where
  "log_done r = modify (\<lambda>s. s\<lparr>http_done := http_done s @ [(r, bf_io_buf s)]\<rparr>)"

lemma same_client_log: "same_client s (u :: logged_http) \<Longrightarrow> http_done u = http_done s"
  by (cases s; cases u) (simp add: same_client_def)

lemma log_simps [simp]:
  fixes s :: logged_http
  shows "waiting (s\<lparr>http_done := l\<rparr>) = waiting s" "rounds (s\<lparr>http_done := l\<rparr>) = rounds s"
    "fits rq (s\<lparr>http_done := l\<rparr>) = fits rq s" "holds (s\<lparr>http_done := l\<rparr>) = holds s" "loading (s\<lparr>http_done := l\<rparr>) = loading s"
  by (simp_all add: waiting_def rounds_def fits_def unmixed_def holds_def loading_def fun_eq_iff)

lemma log_sector [simp]: "sector img (s\<lparr>http_done := l\<rparr>) = sector img s"
  by (rule sector_cong) simp_all

lemma http_inv_cong:
  assumes "http_inv srv img A s" "bf_sectors_per_cluster t = bf_sectors_per_cluster s" "bf_block_size t = bf_block_size s" "bf_nb_blocks t = bf_nb_blocks s"
    "bf_nb_sectors t = bf_nb_sectors s" "bf_clusters t = bf_clusters s" "http_host t = http_host s" "http_next t = http_next s" "bf_url t = bf_url s"
    "bf_cached_blocks t = bf_cached_blocks s" "cblocks t = cblocks s" "wgets t = wgets s"
  shows "http_inv srv img A t"
proof -
  have "geo srv img t" by (rule geo_cong [where s = s]) (use assms in \<open>simp_all add: http_inv_def\<close>)
  moreover have "cache_ok srv img A t" using assms by (subst cache_cong [where s = s]) (simp_all add: http_inv_def)
  ultimately show ?thesis by (simp add: http_inv_def)
qed

text \<open>
  How the client sees a step: nothing happened, or the waiting request has completed with the result
  \<open>0\<close> and changed the disk as it should.
\<close>

definition client_step :: "(nat \<Rightarrow> bytes) \<Rightarrow> http_request option \<Rightarrow> logged_http \<Rightarrow> (nat \<Rightarrow> bytes) \<Rightarrow> http_request option \<Rightarrow> logged_http \<Rightarrow> bool" where
  "client_step D pend s D' pend' u \<longleftrightarrow> (D' = D \<and> pend' = pend \<and> http_done u = http_done s)
     \<or> (\<exists>rq. pend = Some rq \<and> pend' = None \<and> D' = done_disk D rq \<and> http_done u = http_done s @ [(0, done_buf D rq)])"

definition arrived :: "(bytes \<Rightarrow> bytes) \<Rightarrow> (nat \<Rightarrow> bytes) \<Rightarrow> ptr list \<Rightarrow> (nat \<Rightarrow> bytes) \<Rightarrow> http_request option \<Rightarrow> logged_http \<Rightarrow> logged_http \<Rightarrow> bool" where
  "arrived srv img A D pend s u \<longleftrightarrow> http_inv srv img A u \<and> (\<exists>D' pend'. phase img D' pend' u \<and> client_step D pend s D' pend' u)
     \<and> bf_nb_sectors u = bf_nb_sectors s \<and> bf_block_size u = bf_block_size s \<and> work u \<le> work s
     \<and> (\<forall>q \<in> set A. cblocks u q = cblocks s q)"

section \<open>Arrival of a block\<close>

lemma cache_loaded:
  assumes inv: "cache_ok srv img (p # A) s" and b: "cblocks s p = Some b" and d: "d = img (unat (block_num b))" "length d = 512 * nat (bf_block_size s)"
  shows "cache_ok srv img A (s\<lparr>cblocks := (cblocks s)(p \<mapsto> b\<lparr>cb_fbuf := (cb_fbuf b)\<lparr>fb_data := d\<rparr>, cb_state := CBLOCK_LOADED\<rparr>)\<rparr>)"
    (is "cache_ok _ _ _ ?t")
proof -
  have h: "holds ?t = holds s" using b by (auto simp: fun_eq_iff holds_def)
  have "slices img ?t ps d = slices img s ps d" for ps d by (simp add: slices_def h)
  then have sv: "served srv img ?t u c = served srv img s u c" for u c by (cases c) simp_all
  have l: "loading ?t q \<longleftrightarrow> loading s q \<and> q \<noteq> p" for q by (auto simp: loading_def)
  have "p \<notin> set (A @ awaited (wgets s))" "distinct (A @ awaited (wgets s))" using inv by (auto simp: cache_ok_def)
  moreover have "q \<in> set (p # A @ awaited (wgets s)) \<longleftrightarrow> loading s q" for q using cache_awaited [OF inv, of q] by auto
  moreover have "block_ok img (bf_block_size s) (b\<lparr>cb_fbuf := (cb_fbuf b)\<lparr>fb_data := d\<rparr>, cb_state := CBLOCK_LOADED\<rparr>)"
    if "p \<in> set (bf_cached_blocks s)" using cache_okD(3) [OF inv that] b d by (simp add: block_ok_def)
  ultimately show ?thesis using inv unfolding cache_ok_def h sv l by auto
qed

lemma log_phase: "phase img D pend (s\<lparr>http_done := l\<rparr>) = phase img D pend (s :: logged_http)"
proof -
  have "progress img D rq i (s\<lparr>http_done := l\<rparr>) = progress img D rq i s" for rq i by (rule progress_cong) simp_all
  then show ?thesis by (simp add: phase_def split: option.splits)
qed

text \<open>The rounds of a request, as its client sees them.\<close>

definition rw_result :: "(bytes \<Rightarrow> bytes) \<Rightarrow> (nat \<Rightarrow> bytes) \<Rightarrow> (nat \<Rightarrow> bytes) \<Rightarrow> http_request \<Rightarrow> ptr list \<Rightarrow> 'w block_device_http_scheme \<Rightarrow> bool \<Rightarrow>
    'w block_device_http_scheme \<Rightarrow> bool" where
  "rw_result srv img D rq A s w u \<longleftrightarrow> http_inv srv img A u \<and> same_client s u \<and> (if w
     then phase img D (Some rq) u \<and> (\<exists>i. progress img D rq i u \<and> blocked rq i s u) \<and> length (wgets u) \<le> Suc (length (wgets s))
     else phase img (done_disk D rq) None u \<and> bf_io_buf u = done_buf D rq \<and> wgets u = wgets s \<and> rounds u \<le> 1)"

lemma rw_phase:
  assumes "http_inv srv img A s" "progress img D rq i s" "fits rq s" "\<not> waiting s" "bf_cb s"
  shows "wlp (loop rw_step ()) (rw_result srv img D rq A s) ovf s"
proof (rule wlp_mono [OF rw_loop [OF assms(1-4)]])
  fix w u assume u: "rw_post srv img D rq A i s (Done w) u"
  have "rounds u \<le> 1" if "\<not> w" using that u by (auto simp: rw_post_def rounds_def progress_def)
  then show "rw_result srv img D rq A s w u" using u rw_post_phase [OF u assms(3,5)]
    by (auto simp: rw_result_def rw_post_def split: if_splits)
qed

lemma update_rule:
  assumes inv: "http_inv srv img (p # A) s" and ph: "phase img D pend s" and k: "holds s p k"
    and d: "512 * nat (bf_block_size s) \<le> length data" "take (512 * nat (bf_block_size s)) data = img (unat k)"
  shows "wlp (bf_update_block log_done p data) (\<lambda>_. arrived srv img A D pend s) ovf s"
proof -
  have g: "geo srv img s" and ca: "cache_ok srv img (p # A) s" using inv by (simp_all add: http_inv_def)
  have lp: "loading s p" using cache_awaited [OF ca, of p] by simp
  obtain b where b: "cblocks s p = Some b" "cb_state b = CBLOCK_LOADING" "block_num b = k" "p \<in> set (bf_cached_blocks s)"
    using lp k by (auto simp: loading_def holds_def)
  have p0: "p \<noteq> 0" by (rule cache_okD(1) [OF ca b(4)])
  obtain m where m: "bf_block_size s = int (2 ^ m)" "nat (bf_block_size s) = 2 ^ m" by (rule geo_unit [OF g])
  let ?n = "512 * 2 ^ m :: nat"
  let ?s = "s\<lparr>cblocks := (cblocks s)(p \<mapsto> b\<lparr>cb_fbuf := (cb_fbuf b)\<lparr>fb_data := img (unat k)\<rparr>, cb_state := CBLOCK_LOADED\<rparr>)\<rparr>"
  have len: "length (img (unat k)) = ?n" using g m by (simp add: geo_def)
  have ca': "cache_ok srv img A ?s" by (rule cache_loaded [OF ca b(1)]) (use b(3) len m in simp_all)
  have "geo srv img ?s" by (rule geo_cong [OF _ _ _ _ _ _ _ _ g]) simp_all
  with ca' have inv': "http_inv srv img A ?s" by (simp add: http_inv_def)
  have l: "loading ?s q \<longleftrightarrow> loading s q \<and> q \<noteq> p" for q by (auto simp: loading_def)
  have h: "holds ?s = holds s" using b by (auto simp: fun_eq_iff holds_def)
  have pr: "progress img D rq i ?s = progress img D rq i s" for rq i by (rule progress_cong) simp_all
  have fi: "fits rq ?s = fits rq s" for rq by (rule fits_cong) simp_all
  have sec: "sector img ?s = sector img s" by (rule sector_cong) simp_all
  have ro: "rounds ?s = rounds s" by (simp add: rounds_def)
  have A: "loading ?s q \<and> q \<noteq> p" if "q \<in> set A" for q using cache_awaited [OF ca', of q] that l by auto
  have fin: "wlp (if k = u32_of_int (bf_cur_block_num s) then bnd (bf_rw_async1 log_done False) (\<lambda>_. ret ()) else ret ())
      (\<lambda>_. arrived srv img A D pend s) ovf ?s"
  proof (cases "k = u32_of_int (bf_cur_block_num s)")
    case False
    then have "waiting ?s = waiting s" using k l by (auto simp: waiting_def h holds_def)
    then have "phase img D pend ?s" using ph by (simp add: phase_def pr fi sec split: option.splits)
    then have "arrived srv img A D pend s ?s" using inv' A ro by (auto simp: arrived_def client_step_def work_def)
    then show ?thesis using False by (simp add: wlp_ret)
  next
    case True
    note kc = this
    have "waiting s" using lp k True by (auto simp: waiting_def)
    then obtain rq i where rq: "pend = Some rq" "bf_cb s" "fits rq s" "i < rq_n rq" "progress img D rq i s"
      "bf_cur_block_num s = int ((rq_start rq + i) div nat (bf_block_size s))" using ph by (auto simp: phase_def split: option.splits)
    have nw: "\<not> waiting ?s" by (rule loaded_not_waiting [OF ca', of p]) (use b(4) l k True h in simp_all)
    have "2 \<le> rounds s" using rq(4,5) by (simp add: rounds_def progress_def)
    have res: "arrived srv img A D pend s (if w then u else u\<lparr>http_done := http_done u @ [(0, bf_io_buf u)]\<rparr>)"
      if u: "rw_result srv img D rq A ?s w u" for w u
    proof -
      have sc: "same_client ?s u" and iu: "http_inv srv img A u" using u by (simp_all add: rw_result_def)
      have dn: "http_done u = http_done s" using same_client_log [OF sc] by simp
      have keep: "cblocks u q = cblocks s q" if "q \<in> set A" for q using sc A [OF that] by (auto simp: same_client_def keeps_loading_def)
      show ?thesis
      proof (cases w)
        case True
        then obtain i' where i': "progress img D rq i' u" "blocked rq i' ?s u" "phase img D (Some rq) u" "length (wgets u) \<le> Suc (length (wgets s))"
          using u by (auto simp: rw_result_def)
        have "rounds u < rounds s"
        proof (rule ccontr)
          assume "\<not> rounds u < rounds s"
          then have eq: "rounds u = rounds s" using i'(2) ro by (simp add: blocked_def)
          have "nat (bf_sector_count u - bf_sector_index u) = rq_n rq - i'" "nat (bf_sector_count s - bf_sector_index s) = rq_n rq - i" "i' \<le> rq_n rq"
            using i'(1) rq(5) by (simp_all add: progress_def nat_diff_distrib')
          then have "i' = i" using eq rq(4) by (simp add: rounds_def split: if_splits)
          then have "bf_cur_block_num u = bf_cur_block_num s" using i'(2) rq(6) sc by (simp add: blocked_def same_client_def)
          then have "holds ?s p (u32_of_int (bf_cur_block_num u))" unfolding h using k kc by simp
          moreover have "p \<in> set (bf_cached_blocks ?s)" using b(4) by simp
          ultimately have "loading ?s p" using i'(2) eq ro unfolding blocked_def by metis
          then show False using l by simp
        qed
        then have "work u \<le> work s" using i'(4) by (simp add: work_def)
        then show ?thesis using True iu i'(3) sc dn keep rq(1) unfolding arrived_def client_step_def by (auto simp: same_client_def)
      next
        case False
        then have f: "phase img (done_disk D rq) None u" "bf_io_buf u = done_buf D rq" "wgets u = wgets s" "rounds u \<le> 1" using u by (auto simp: rw_result_def)
        let ?u = "u\<lparr>http_done := http_done u @ [(0, bf_io_buf u)]\<rparr>"
        have "http_inv srv img A ?u" by (rule http_inv_cong [OF iu]) simp_all
        moreover have "work ?u \<le> work s" using f(3,4) \<open>2 \<le> rounds s\<close> by (simp add: work_def)
        moreover have "phase img (done_disk D rq) None ?u" using f(1) by (simp only: log_phase)
        moreover have "client_step D pend s (done_disk D rq) None ?u" using rq(1) f(2) dn by (simp add: client_step_def)
        ultimately show ?thesis using False sc keep unfolding arrived_def by (auto simp: same_client_def)
      qed
    qed
    have p': "progress img D rq i ?s" "fits rq ?s" "bf_cb ?s" using rq pr fi by simp_all
    have "wlp (bf_rw_async1 log_done False) (\<lambda>_. arrived srv img A D pend s) ovf ?s"
      unfolding bf_rw_async1_def wlp_bnd
    proof (rule wlp_mono [OF rw_phase [OF inv' p'(1,2) nw p'(3)]])
      fix w u assume u: "rw_result srv img D rq A ?s w u"
      have "bf_cb u" using u rq(2) by (simp add: rw_result_def same_client_def)
      then show "wlp (if w then ret 1 else andthen (if False then ret () else bnd (gets bf_cb) (\<lambda>set. andthen (guard NullDeref set) (log_done 0))) (ret 0))
          (\<lambda>_. arrived srv img A D pend s) ovf u"
        using res [OF u] by (auto simp: wlp_simps log_done_def)
    qed simp
    then show ?thesis unfolding if_P [OF True] wlp_bnd by (rule wlp_mono) (simp_all add: wlp_ret)
  qed
  have "peek data 0 ?n = Inr (img (unat k))" using peek_nat [of 0 ?n data] d unfolding m(2) by simp
  moreover have "poke (fb_data (cb_fbuf b)) 0 (img (unat k)) = Inr (img (unat k))"
    using poke_nat [of 0 "img (unat k)" "fb_data (cb_fbuf b)"] cache_okD(3) [OF ca b(4)] b len m by (simp add: block_ok_def blit_0_full)
  ultimately have "wlp (bnd (lift (peek data 0 (unat (usize (int ?n))))) (\<lambda>d. bnd (lift (poke (fb_data (cb_fbuf b)) 0 d)) (\<lambda>d'.
      andthen (upd_block p (\<lambda>b. b\<lparr>cb_fbuf := (cb_fbuf b)\<lparr>fb_data := d'\<rparr>, cb_state := CBLOCK_LOADED\<rparr>))
      (bnd (gets bf_cur_block_num) (\<lambda>cur. if block_num b = u32_of_int cur then bnd (bf_rw_async1 log_done False) (\<lambda>_. ret ()) else ret ()))))) 
      (\<lambda>_. arrived srv img A D pend s) ovf s" if "?n < 2147483648"
    using that fin p0 b by (simp add: usize_nat wlp_bnd wlp_lift wlp_andthen upd_block_def wlp_load wlp_modify wlp_gets del: of_nat_mult wlp_if)
  note rest = this
  show ?thesis unfolding bf_update_block_def wlp_bnd [of "block_of p"]
    by (rule wp_load [where heap = cblocks, OF b(1) p0], unfold wlp_andthen [of "guard _ _"] wlp_guard if_P [OF b(2)] wlp_bnd [of "gets bf_block_size"] wlp_gets
        wlp_bnd [of "cint _"] m(1), rule wp_cint_sectors, rule rest) simp_all
qed

text \<open>Two steps of the client in a row.\<close>

lemma client_step_trans:
  "client_step D pend s D1 pend1 t \<Longrightarrow> client_step D1 pend1 t D2 pend2 u \<Longrightarrow> client_step D pend s D2 pend2 u"
  by (auto simp: client_step_def)

lemma arrived_refl: "http_inv srv img A s \<Longrightarrow> phase img D pend s \<Longrightarrow> arrived srv img A D pend s s"
  by (auto simp: arrived_def client_step_def)

lemma group_rule:
  assumes "http_inv srv img (filter (\<lambda>p. p \<noteq> 0) ps) s" "phase img D pend s" "m = 512 * nat (bf_block_size s)" "m * (i + length ps) \<le> length data"
    and "\<forall>x < length ps. ps ! x \<noteq> 0 \<longrightarrow> (\<exists>k. holds s (ps ! x) k \<and> take m (drop (m * (i + x)) data) = img (unat k))"
  shows "wlp (update_group log_done (int m) ps (int i) data) (\<lambda>_. arrived srv img [] D pend s) ovf s"
  using assms
proof (induction ps arbitrary: s D pend i)
  case Nil
  then show ?case unfolding update_group.simps wlp_ret by (simp add: arrived_refl)
next
  case (Cons p ps)
  let ?A = "filter (\<lambda>p. p \<noteq> 0) ps"
  have rest: "wlp (update_group log_done (int m) ps (int i + 1) data) (\<lambda>_. arrived srv img [] D pend s) ovf t" if t: "arrived srv img ?A D pend s t" for t
  proof -
    obtain D' pend' where c: "phase img D' pend' t" "client_step D pend s D' pend' t" using t by (auto simp: arrived_def)
    have "\<exists>k. holds t (ps ! x) k \<and> take m (drop (m * (Suc i + x)) data) = img (unat k)" if "x < length ps" "ps ! x \<noteq> 0" for x
    proof -
      have "ps ! x \<in> set ?A" using that by auto
      then have "cblocks t (ps ! x) = cblocks s (ps ! x)" using t by (simp add: arrived_def)
      moreover have "\<exists>k. holds s (ps ! x) k \<and> take m (drop (m * (i + Suc x)) data) = img (unat k)" using Cons.prems(5) [rule_format, of "Suc x"] that by simp
      ultimately show ?thesis by (simp add: holds_def)
    qed
    moreover have "m * (Suc i + length ps) \<le> length data" using Cons.prems(4) by simp
    ultimately have "wlp (update_group log_done (int m) ps (int (Suc i)) data) (\<lambda>_. arrived srv img [] D' pend' t) ovf t"
      using t c(1) Cons.prems(3) by (intro Cons.IH) (auto simp: arrived_def)
    then have "wlp (update_group log_done (int m) ps (int i + 1) data) (\<lambda>_. arrived srv img [] D' pend' t) ovf t" by (simp add: add.commute)
    then show ?thesis
    proof (rule wlp_mono)
      fix u assume "arrived srv img [] D' pend' t u"
      then show "arrived srv img [] D pend s u" using t client_step_trans [OF c(2)] unfolding arrived_def by fastforce
    qed
  qed
  show ?case
  proof (cases "p = 0")
    case True
    then show ?thesis using rest [of s] arrived_refl Cons.prems by (simp add: wlp_andthen wlp_ret)
  next
    case False
    then obtain k where k: "holds s p k" "take m (drop (m * i) data) = img (unat k)" using Cons.prems(5) [rule_format, of 0] by auto
    have le: "m * i \<le> length data" "m \<le> length (drop (m * i) data)" using Cons.prems(4) by (auto simp: algebra_simps)
    have up: "wlp (bf_update_block log_done p (drop (m * i) data)) (\<lambda>_. arrived srv img ?A D pend s) ovf s"
      using Cons.prems(1) False by (intro update_rule [OF _ Cons.prems(2) k(1)]) (use le k(2) Cons.prems(3) in simp_all)
    have e: "int m * int i = int (m * i)" by simp
    have "wlp (bnd (cint (int m * int i)) (\<lambda>off. andthen (guard OutOfBounds (0 \<le> off \<and> off \<le> int (length data))) (bf_update_block log_done p (drop (nat off) data))))
        (\<lambda>_. arrived srv img ?A D pend s) ovf s"
      unfolding wlp_bnd e by (rule wlp_cint_nat) (use up le(1) in \<open>simp_all add: wlp_andthen wlp_guard del: of_nat_mult\<close>)
    then show ?thesis unfolding update_group.simps if_not_P [OF False] wlp_andthen [of "bnd (cint _) _"]
      by (rule wlp_mono) (rule rest)
  qed
qed

section \<open>Events\<close>

text \<open>The client makes a request, and notes one that completes at once; or the transfer in place \<open>i\<close> of those under way ends.\<close>

datatype http_event = Request http_request | Arrive nat

definition deliver :: "(bytes \<Rightarrow> bytes) \<Rightarrow> bytes \<times> http_client \<Rightarrow> (logged_http, unit) vm" where
  "deliver srv w = (case w of (url, c) \<Rightarrow> (case c of
       Wget_Config \<Rightarrow> ret ()
     | Wget_Block p \<Rightarrow> bf_read_onload log_done p 0 (srv url)
     | Wget_Group r \<Rightarrow> bf_prefetch_group_onload log_done r 0 (srv url)))"

fun http_step :: "(bytes \<Rightarrow> bytes) \<Rightarrow> http_event \<Rightarrow> (logged_http, unit) vm" where
  "http_step srv (Request rq) =
     bnd ((if rq_write rq then bf_write_async_http else bf_read_async_http) log_done (of_nat (rq_start rq)) (rq_buf rq) (int (rq_n rq)))
       (\<lambda>r. if r > 0 then ret () else log_done r)"
| "http_step srv (Arrive i) = bnd (gets wgets) (\<lambda>ws.
     andthen (modify (\<lambda>s. s\<lparr>wgets := take i ws @ drop (Suc i) ws\<rparr>)) (deliver srv (ws ! i)))"

lemma cache_take:
  assumes inv: "cache_ok srv img [] s" and i: "i < length (wgets s)" and c: "wgets s ! i = (url, c)"
  shows "cache_ok srv img (client_blocks c) (s\<lparr>wgets := take i (wgets s) @ drop (Suc i) (wgets s)\<rparr>)"
    and "served srv img (s\<lparr>wgets := take i (wgets s) @ drop (Suc i) (wgets s)\<rparr>) url c"
proof -
  let ?t = "s\<lparr>wgets := take i (wgets s) @ drop (Suc i) (wgets s)\<rparr>"
  have h: "holds ?t = holds s" by (rule holds_cong) simp
  have "slices img ?t ps d = slices img s ps d" for ps d by (simp add: slices_def h)
  then have sv: "served srv img ?t u d = served srv img s u d" for u d by (cases d) simp_all
  have ws: "wgets s = take i (wgets s) @ (url, c) # drop (Suc i) (wgets s)" using id_take_nth_drop [OF i] c by simp
  have aw: "awaited (wgets s) = awaited (take i (wgets s)) @ client_blocks c @ awaited (drop (Suc i) (wgets s))" by (subst ws) simp
  have l: "loading ?t q = loading s q" for q by (simp add: loading_def)
  have "(url, c) \<in> set (wgets s)" using i c by (metis nth_mem)
  from cache_served(1) [OF inv this] show "served srv img ?t url c" by (simp only: sv)
  have "set (take i (wgets s) @ drop (Suc i) (wgets s)) \<subseteq> set (wgets s)" by (auto dest: in_set_takeD in_set_dropD)
  then show "cache_ok srv img (client_blocks c) ?t" using inv unfolding cache_ok_def h sv l aw by auto
qed

lemma arrive_rule:
  assumes inv: "http_inv srv img [] s" and ph: "phase img D pend s" and i: "i < length (wgets s)"
  shows "wlp (http_step srv (Arrive i)) (\<lambda>_ u. arrived srv img [] D pend s u \<and> work u < work s) ovf s"
proof -
  obtain url c where c: "wgets s ! i = (url, c)" by (cases "wgets s ! i")
  let ?s = "s\<lparr>wgets := take i (wgets s) @ drop (Suc i) (wgets s)\<rparr>"
  have g: "geo srv img s" and ca: "cache_ok srv img [] s" using inv by (simp_all add: http_inv_def)
  have "geo srv img ?s" by (rule geo_cong [OF _ _ _ _ _ _ _ _ g]) simp_all
  with cache_take(1) [OF ca i c] have inv': "http_inv srv img (client_blocks c) ?s" by (simp add: http_inv_def)
  have sv: "served srv img ?s url c" by (rule cache_take(2) [OF ca i c])
  have pr: "progress img D rq i ?s = progress img D rq i s" for rq i by (rule progress_cong) simp_all
  have "fits rq ?s = fits rq s" for rq by (rule fits_cong) simp_all
  moreover have "waiting ?s = waiting s" by (rule waiting_cong) simp_all
  moreover have "sector img ?s = sector img s" by (rule sector_cong) simp_all
  ultimately have ph': "phase img D pend ?s" using ph by (simp add: phase_def pr split: option.splits)
  have "rounds ?s = rounds s" by (simp add: rounds_def)
  then have wk: "work ?s < work s" using i by (simp add: work_def)
  obtain m where m: "bf_block_size s = int (2 ^ m)" "nat (bf_block_size s) = 2 ^ m" by (rule geo_unit [OF g])
  let ?n = "512 * 2 ^ m :: nat"
  have "wlp (deliver srv (url, c)) (\<lambda>_. arrived srv img [] D pend ?s) ovf ?s"
  proof (cases c)
    case Wget_Config
    then show ?thesis using sv by simp
  next
    case (Wget_Block p)
    have ca': "cache_ok srv img [p] ?s" using inv' Wget_Block by (simp add: http_inv_def)
    have p: "p \<in> set (bf_cached_blocks ?s)" using cache_awaited [OF ca', of p] by (simp add: loading_def)
    have p0: "p \<noteq> 0" by (rule cache_okD(1) [OF ca' p])
    have "slices img ?s [p] (srv url)" using sv Wget_Block by simp
    then obtain k where k: "length (srv url) = 512 * nat (bf_block_size ?s)" "holds ?s p k" "take (512 * nat (bf_block_size ?s)) (srv url) = img (unat k)"
      using p0 by (auto simp: slices_def)
    obtain b where b: "cblocks ?s p = Some b" using k(2) by (auto simp: holds_def)
    have up: "wlp (bf_update_block log_done p (srv url)) (\<lambda>_. arrived srv img [] D pend ?s) ovf ?s"
      by (rule update_rule [OF _ ph' k(2) _ k(3)]) (use inv' Wget_Block k(1) in simp_all)
    have len: "length (srv url) = ?n" using k(1) m(2) by simp
    show ?thesis unfolding deliver_def prod.case Wget_Block http_client.case bf_read_onload_def wlp_bnd [of "block_of p"]
    proof (rule wp_load [where heap = cblocks, OF b p0], goal_cases)
      case 1
      have "wlp (cint (int (2 ^ m) * 512)) (\<lambda>sz. wlp (andthen (guard AssertFail (of_nat (length (srv url)) = usize sz)) (bf_update_block log_done p (srv url)))
          (\<lambda>_. arrived srv img [] D pend ?s) ovf) ovf ?s"
        by (rule wp_cint_sectors) (use up in \<open>simp_all add: wlp_andthen wlp_guard len usize_def\<close>)
      then show ?case using m(1) by (simp add: wlp_bnd wlp_gets)
    qed
  next
    case (Wget_Group r)
    let ?ps = "tab_block r"
    have sl: "slices img ?s ?ps (srv url)" using sv Wget_Group by simp
    then have len: "length (srv url) = ?n * length ?ps" by (simp add: slices_def m(2) del: of_nat_power)
    have n: "?n = 512 * nat (bf_block_size ?s)" using m(2) by simp
    have sl': "\<forall>x < length ?ps. ?ps ! x \<noteq> 0 \<longrightarrow> (\<exists>k. holds ?s (?ps ! x) k \<and> take ?n (drop (?n * (0 + x)) (srv url)) = img (unat k))"
      using sl unfolding slices_def n by simp
    have up: "wlp (update_group log_done (int ?n) ?ps (int 0) (srv url)) (\<lambda>_. arrived srv img [] D pend ?s) ovf ?s"
      by (rule group_rule [OF _ ph' n _ sl']) (use inv' Wget_Group len in simp_all)
    have "wlp (cint (int (2 ^ m) * 512)) (\<lambda>bb. wlp (bnd (cint (bb * int (length ?ps))) (\<lambda>total.
        andthen (guard AssertFail (of_nat (length (srv url)) = usize total)) (update_group log_done bb ?ps 0 (srv url))))
        (\<lambda>_. arrived srv img [] D pend ?s) ovf) ovf ?s"
    proof (rule wp_cint_sectors, goal_cases)
      case 1
      have e: "int ?n * int (length ?ps) = int (?n * length ?ps)" by simp
      show ?case unfolding wlp_bnd e
        by (rule wlp_cint_nat) (use up in \<open>simp_all add: wlp_andthen wlp_guard len usize_def\<close>)
    qed simp
    then show ?thesis using m(1) Wget_Group by (simp add: deliver_def bf_prefetch_group_onload_def wlp_bnd wlp_gets)
  qed
  then show ?thesis unfolding http_step.simps wlp_bnd wlp_gets wlp_andthen wlp_modify c
    by (rule wlp_mono) (use wk in \<open>auto simp: arrived_def client_step_def\<close>)
qed

end
