(* ===== verification/Http_Total.thy ===== *)
theory Http_Total
  imports Http_Arrival
begin

text \<open>
  Termination of the block device over HTTP: the rounds of a request end, and with them every callback, whatever is
  in the cache and in the clusters.
\<close>

unbundle bit_operations_syntax

section \<open>Rounds\<close>

text \<open>The sizes a configured device has, and a request that has not gone beyond its end.\<close>

definition shape :: "'w block_device_http_scheme \<Rightarrow> bool" where
  "shape s \<longleftrightarrow> bf_sectors_per_cluster s = 8 \<and> 0 < bf_block_size s \<and> bf_block_size s < 2147483648 \<and> bf_sector_index s \<le> bf_sector_count s"

definition todo :: "'w block_device_http_scheme \<Rightarrow> nat" where
  "todo s = 2 * nat (bf_sector_count s - bf_sector_index s)
     + (if bf_clusters s ! nat (int_of_u32 (ucast (bf_sector_num s div 8))) = None then 1 else 0)"

lemma todo_less: "nat (bf_sector_count u - bf_sector_index u) < nat (bf_sector_count s - bf_sector_index s) \<Longrightarrow> todo u < todo s"
  unfolding todo_def by (split if_split, split if_split) linarith

text \<open>The part of the state that tells where a request is.\<close>

definition place :: "'w block_device_http_scheme \<Rightarrow> 'w block_device_http_scheme \<Rightarrow> bool" where
  "place s t \<longleftrightarrow> bf_sectors_per_cluster t = bf_sectors_per_cluster s \<and> bf_block_size t = bf_block_size s \<and> bf_sector_index t = bf_sector_index s
     \<and> bf_sector_count t = bf_sector_count s \<and> bf_sector_num t = bf_sector_num s"

lemma place_shape: "shape s \<Longrightarrow> place s t \<Longrightarrow> shape t"
  by (simp add: shape_def place_def)

definition place_clusters :: "'w block_device_http_scheme \<Rightarrow> 'w block_device_http_scheme \<Rightarrow> bool" where
  "place_clusters s t \<longleftrightarrow> place s t \<and> bf_clusters t = bf_clusters s"

lemma keeps_sectors: "keeps (place s) (read_sectors fb offset n)" "keeps (place s) (write_sectors c fb offset n)"
  unfolding read_sectors_def write_sectors_def by (intro keeps_intros keeps_modify; simp add: place_def)+

lemma keeps_find_list: "keeps I (find_block k ps)"
  by (induction ps; unfold find_block.simps; (intro keeps_intros | assumption)+)

lemma keeps_find: "keeps (place_clusters s) (bf_find_block k)"
  unfolding bf_find_block_def by (intro keeps_intros keeps_find_list keeps_modify; simp add: place_clusters_def place_def)

lemma keeps_evict: "keeps (place_clusters s) (evict_blocks ps)"
  by (induction ps; unfold evict_blocks.simps bf_free_block_def add_n_cached_def;
    (intro keeps_intros keeps_modify | assumption | simp add: place_clusters_def place_def)+)

lemma keeps_start_load: "keeps (place_clusters s) (bf_start_load_block num)"
  unfolding bf_start_load_block_def bf_add_block_def new_buffer_def add_n_cached_def fs_wget_http_def
  by (intro keeps_intros keeps_evict keeps_modify; simp add: place_clusters_def place_def)

lemma offset_bounds:
  assumes "0 < n" "n < 2147483648"
  shows "0 \<le> int_of_u32 (ucast (x mod word_of_int n :: u64))" "int_of_u32 (ucast (x mod word_of_int n :: u64)) < n"
proof -
  have n: "unat (word_of_int n :: u64) = nat n" using assms by (simp add: unat_eq_nat_uint uint_word_of_int_eq take_bit_int_eq_self)
  have "unat (x mod word_of_int n) = unat x mod nat n" by (simp add: unat_mod n)
  then have lt: "unat (x mod word_of_int n) < nat n" using assms(1) by simp
  then have "int_of_u32 (ucast (x mod word_of_int n :: u64)) = int (unat (x mod word_of_int n))" using assms(2) by (intro int_of_u64) linarith
  then show "0 \<le> int_of_u32 (ucast (x mod word_of_int n :: u64))" "int_of_u32 (ucast (x mod word_of_int n :: u64)) < n" using lt assms(1) by linarith+
qed

text \<open>A round that goes on has less to do.\<close>

definition nearer :: "'w block_device_http_scheme \<Rightarrow> 'w block_device_http_scheme \<Rightarrow> bool" where
  "nearer s u \<longleftrightarrow> shape u \<and> todo u < todo s"

lemma wp_nearer:
  assumes "shape s" "place s t" "0 < n" "n \<le> bf_sector_count s - bf_sector_index s"
    and Q: "\<And>u. nearer s u \<Longrightarrow> Q () u"
  shows "wlp (advance n) Q (\<lambda>_. True) t"
proof -
  let ?u = "t\<lparr>bf_sector_index := bf_sector_index t + n, bf_sector_num := bf_sector_num t + word_of_int n\<rparr>"
  have "nat (bf_sector_count ?u - bf_sector_index ?u) < nat (bf_sector_count s - bf_sector_index s)" using assms by (simp add: place_def)
  then have "todo ?u < todo s" by (rule todo_less)
  then have "nearer s ?u" using assms(1,2,4) by (simp add: nearer_def shape_def place_def)
  then show ?thesis by (simp add: advance_def wlp_simps Q)
qed

lemma wp_cluster_nearer:
  assumes s: "shape s" and p: "place_clusters s t" and k: "k = int_of_u32 (ucast (bf_sector_num s div 8))"
    and none: "bf_clusters s ! nat k = None" "0 \<le> k \<and> k < int (length (bf_clusters s))" and Q: "\<And>u. nearer s u \<Longrightarrow> Q () u"
  shows "wlp (new_cluster k b) Q (\<lambda>_. True) t"
proof -
  have "nearer s (t\<lparr>http_calls := c, bf_clusters := (bf_clusters t)[nat k := Some fb], bf_n_allocated_clusters := a\<rparr>)" for c fb a
    using s p none by (simp add: nearer_def todo_def shape_def place_clusters_def place_def k [symmetric] nat_less_iff)
  then show ?thesis using Q unfolding new_cluster_def new_buffer_def by (simp add: wlp_simps split: sum.splits)
qed

lemma rw_step_nearer:
  fixes s :: "'a block_device_http_scheme"
  assumes s: "shape s"
  shows "wlp (rw_step ()) (\<lambda>r u. case r of Again _ \<Rightarrow> nearer s u | Done _ \<Rightarrow> shape u) (\<lambda>_. True) s"
proof -
  let ?Q = "\<lambda>(r :: (unit, bool) step) u. case r of Again _ \<Rightarrow> nearer s u | Done _ \<Rightarrow> shape u"
  let ?m = "bf_sector_count s - bf_sector_index s" and ?k = "int_of_u32 (ucast (bf_sector_num s div 8))"
  have pl: "place s s" "place_clusters s s" "place_clusters s (s\<lparr>bf_cur_block_num := x\<rparr>)" for x by (simp_all add: place_def place_clusters_def)
  have bs: "0 < bf_block_size s" "bf_block_size s < 2147483648" "bf_sectors_per_cluster s = 8" "0 \<le> ?m" using s by (simp_all add: shape_def)
  have part: "0 < min_int ?m (n - int_of_u32 (ucast (bf_sector_num s mod word_of_int n))) \<and> min_int ?m (n - int_of_u32 (ucast (bf_sector_num s mod word_of_int n))) \<le> ?m"
    if "0 < n" "n < 2147483648" "?m \<noteq> 0" for n using offset_bounds [OF that(1,2)] that(3) bs(4) by (auto simp: min_int_def)
  have copy: "wlp (andthen m (andthen (advance n) (andthen (modify (\<lambda>s. s\<lparr>bf_cur_block_num := - 1\<rparr>)) (ret (Again ()))))) ?Q (\<lambda>_. True) t"
      "wlp (andthen m (andthen (advance n) (ret (Again ())))) ?Q (\<lambda>_. True) t"
    if "keeps (place s) m" "place s t" "0 < n \<and> n \<le> ?m" for m :: "('a, unit) http_vm" and n t
  proof -
    have c: "nearer s u \<Longrightarrow> nearer s (u\<lparr>bf_cur_block_num := - 1\<rparr>)" for u by (simp add: nearer_def shape_def todo_def)
    show "wlp (andthen m (andthen (advance n) (andthen (modify (\<lambda>s. s\<lparr>bf_cur_block_num := - 1\<rparr>)) (ret (Again ()))))) ?Q (\<lambda>_. True) t"
      unfolding wlp_andthen using that by (intro wlp_keeps [OF that(1,2)] wp_nearer [OF s]) (simp_all add: wlp_simps c)
    show "wlp (andthen m (andthen (advance n) (ret (Again ())))) ?Q (\<lambda>_. True) t"
      unfolding wlp_andthen using that by (intro wlp_keeps [OF that(1,2)] wp_nearer [OF s]) (simp_all add: wlp_simps)
  qed
  have sh: "shape t" if "place_clusters s t" for t using that s place_shape by (auto simp: place_clusters_def)
  have miss: "wlp (bnd (bf_find_block (u32_of_int num)) (\<lambda>p.
             if p = 0 then andthen (bf_start_load_block num) (ret (Done True))
             else bnd (block_of p) (\<lambda>b.
               if cb_state b = CBLOCK_LOADING then ret (Done True)
               else if bf_is_write s then andthen (new_cluster ?k b) (ret (Again ()))
               else andthen (read_sectors (cb_fbuf b) off n)
                 (andthen (advance n)
                 (andthen (modify (\<lambda>s. s\<lparr>bf_cur_block_num := - 1\<rparr>)) (ret (Again ()))))))) ?Q (\<lambda>_. True) (s\<lparr>bf_cur_block_num := num\<rparr>)"
    if n: "0 < n \<and> n \<le> ?m" "bf_clusters s ! nat ?k = None" "0 \<le> ?k \<and> ?k < int (length (bf_clusters s))" for num off n
    unfolding wlp_bnd [of "bf_find_block _"]
  proof (rule wlp_keeps [OF keeps_find pl(3)])
    fix p t assume t: "place_clusters s t"
    have "wlp (andthen (bf_start_load_block num) (ret (Done True))) ?Q (\<lambda>_. True) t"
      unfolding wlp_andthen by (rule wlp_keeps [OF keeps_start_load t]) (simp add: wlp_ret sh)
    moreover have "wlp (andthen (new_cluster ?k b) (ret (Again ()))) ?Q (\<lambda>_. True) t" for b
      unfolding wlp_andthen by (rule wp_cluster_nearer [OF s t refl n(2,3)]) (simp add: wlp_ret)
    moreover note copy(1) [OF keeps_sectors(1) _ n(1), of t] t sh [OF t]
    ultimately show "wlp (if p = 0 then andthen (bf_start_load_block num) (ret (Done True))
             else bnd (block_of p) (\<lambda>b.
               if cb_state b = CBLOCK_LOADING then ret (Done True)
               else if bf_is_write s then andthen (new_cluster ?k b) (ret (Again ()))
               else andthen (read_sectors (cb_fbuf b) off n)
                 (andthen (advance n)
                 (andthen (modify (\<lambda>s. s\<lparr>bf_cur_block_num := - 1\<rparr>)) (ret (Again ())))))) ?Q (\<lambda>_. True) t"
      by (simp add: wlp_bnd wlp_load wlp_ret place_clusters_def split: option.splits)
  qed
  have hit: "wlp (andthen (if bf_is_write s then write_sectors ?k c off n else read_sectors c off n) (andthen (advance n) (ret (Again ())))) ?Q (\<lambda>_. True) s"
    if "0 < n \<and> n \<le> ?m" for c off n using copy(2) [OF keeps_sectors(1) pl(1) that] copy(2) [OF keeps_sectors(2) pl(1) that] by simp
  have p8: "?m \<noteq> 0 \<Longrightarrow> 0 < min_int ?m (8 - int_of_u32 (ucast (bf_sector_num s mod 8))) \<and> min_int ?m (8 - int_of_u32 (ucast (bf_sector_num s mod 8))) \<le> ?m"
    using part [of 8] by simp
  show ?thesis unfolding rw_step_def wlp_bnd [of "gets id"] wlp_gets id_apply wlp_bnd [of "cint _"] wlp_cint Let_def wlp_andthen [of "guard _ _"] wlp_guard bs(3)
      word_of_int_numeral
    using s hit [OF p8] miss [OF part [OF bs(1,2)], where num = "int_of_u32 (ucast (bf_sector_num s div word_of_int (bf_block_size s)))"] bs(1)
    by (cases "bf_clusters s ! nat ?k") (simp_all add: wlp_ret wlp_andthen [of "guard _ _"] wlp_guard wlp_andthen [of "modify _"] wlp_modify)
qed

lemma rw_loop_returns:
  assumes "shape s"
  shows "returns (loop rw_step ()) s"
  unfolding returns_def
proof (rule loop_returns [where P = "\<lambda>_. shape" and \<mu> = "\<lambda>_. todo"], goal_cases)
  case (2 x t)
  then show ?case using total_rw_step unfolding total_def returns_def by blast
next
  case (3 x t x' u)
  then have "nearer t u" using wlp_D(1) [OF rw_step_nearer [of t], of "Again x'" u] by simp
  then show ?case by (simp add: nearer_def)
qed (rule assms)

section \<open>Prefetching\<close>

lemma total_prefetch [total_intros]: "total (prefetch_blocks ks)" "total (bf_start_load_prefetch_group g ks)"
proof -
  show p: "total (prefetch_blocks ks)" for ks :: "int list"
    by (induction ks; unfold prefetch_blocks.simps; (intro total_intros | assumption)+)
  show "total (bf_start_load_prefetch_group g ks)" unfolding bf_start_load_prefetch_group_def fs_wget_http_def by (intro total_intros p)
qed

lemma total_prefetch_step: "total (prefetch_step x)"
  unfolding prefetch_step_def Let_def by (intro total_intros)

definition grouped :: "int \<Rightarrow> 'w block_device_http_scheme \<Rightarrow> bool" where
  "grouped len s \<longleftrightarrow> bf_prefetch_group_len s = len"

lemma keeps_grouped:
  "keeps (grouped len) (bf_find_block k)" "keeps (grouped len) (bf_add_block k)" "keeps (grouped len) (bf_start_load_block num)"
  "keeps (grouped len) (bf_start_load_prefetch_group g ks)"
proof -
  have ev: "keeps (grouped len) (evict_blocks ps)" for ps
    by (induction ps; unfold evict_blocks.simps bf_free_block_def add_n_cached_def; (intro keeps_intros keeps_modify | assumption | simp add: grouped_def)+)
  show f: "keeps (grouped len) (bf_find_block k)" for k
    unfolding bf_find_block_def by (intro keeps_intros keeps_find_list keeps_modify; simp add: grouped_def)
  show a: "keeps (grouped len) (bf_add_block k)" for k
    unfolding bf_add_block_def new_buffer_def add_n_cached_def by (intro keeps_intros ev keeps_modify; simp add: grouped_def)
  show "keeps (grouped len) (bf_start_load_block num)"
    unfolding bf_start_load_block_def fs_wget_http_def by (intro keeps_intros a keeps_modify; simp add: grouped_def)
  have pb: "keeps (grouped len) (prefetch_blocks ks)" for ks
    by (induction ks; unfold prefetch_blocks.simps; (intro keeps_intros f a | assumption)+)
  show "keeps (grouped len) (bf_start_load_prefetch_group g ks)"
    unfolding bf_start_load_prefetch_group_def fs_wget_http_def by (intro keeps_intros pb keeps_modify; simp add: grouped_def)
qed

lemma prefetch_shorter:
  fixes s :: "'a block_device_http_scheme"
  assumes "0 < len" "grouped len s"
  shows "wlp (prefetch_step (i, els)) (\<lambda>r u. case r of Again x \<Rightarrow> grouped len u \<and> length (snd x) < length els | Done _ \<Rightarrow> True) (\<lambda>_. True) s"
proof -
  let ?l = "min_int (int (length els)) len"
  let ?m = "if ?l = 1 then bnd (bf_find_block (u32_of_int (hd (map the (take (nat ?l) els))))) (\<lambda>p.
           if p = 0 then bf_start_load_block (hd (map the (take (nat ?l) els))) else ret ())
         else andthen (guard SignedOverflow (len \<noteq> 0)) (bf_start_load_prefetch_group (cdiv i len) (map the (take (nat ?l) els)))"
  have "keeps (grouped len) ?m" by (intro keeps_intros keeps_grouped)
  then have m: "wlp ?m (\<lambda>_. grouped len) (\<lambda>_. True) s" using assms(2) by (rule keeps_wlp)
  show ?thesis
  proof (cases "els = []")
    case False
    then have "length (drop (nat ?l) els) < length els" using assms(1) by (simp add: min_int_def)
    then have "wlp (bnd (cint (i + ?l)) (\<lambda>idx'. ret (Again (idx', drop (nat ?l) els))))
       (\<lambda>r u. case r of Again x \<Rightarrow> grouped len u \<and> length (snd x) < length els | Done _ \<Rightarrow> True) (\<lambda>_. True) u" if "grouped len u" for u :: "'a block_device_http_scheme"
      using that by (simp add: wlp_simps)
    then have "wlp (andthen ?m (bnd (cint (i + ?l)) (\<lambda>idx'. ret (Again (idx', drop (nat ?l) els)))))
       (\<lambda>r u. case r of Again x \<Rightarrow> grouped len u \<and> length (snd x) < length els | Done _ \<Rightarrow> True) (\<lambda>_. True) s"
      unfolding wlp_andthen [of ?m] by (rule wlp_mono [OF m])
    then show ?thesis unfolding prefetch_step_def prod.case if_not_P [OF False] wlp_bnd [of "gets _"] wlp_gets assms(2) [unfolded grouped_def] Let_def
      by (cases "None \<in> set (take (nat ?l) els)") (simp_all only: if_True if_False wlp_fault)
  qed (simp add: prefetch_step_def wlp_ret)
qed

lemma prefetch_returns:
  assumes "0 < len" "grouped len s"
  shows "returns (loop prefetch_step (i, els)) s"
  unfolding returns_def
proof (rule loop_returns [where P = "\<lambda>_. grouped len" and \<mu> = "\<lambda>x _. length (snd x)"], goal_cases)
  case (2 x t)
  then show ?case using total_prefetch_step unfolding total_def returns_def by blast
next
  case (3 x t x' u)
  then show ?case using wlp_D(1) [OF prefetch_shorter [OF assms(1), of t "fst x" "snd x"], of "Again x'" u] by simp
qed (rule assms(2))

lemma returns_rules:
  "total m \<Longrightarrow> (\<And>a t. returns (k a) t) \<Longrightarrow> returns (bnd m k) s" "total m \<Longrightarrow> (\<And>t. returns n t) \<Longrightarrow> returns (andthen m n) s"
  "returns (fault f) s" "(b \<Longrightarrow> returns m s) \<Longrightarrow> (\<not> b \<Longrightarrow> returns m' s) \<Longrightarrow> returns (if b then m else m') s"
  "(\<And>a. r = Some a \<Longrightarrow> returns (k a) s) \<Longrightarrow> returns (case r of None \<Rightarrow> fault f | Some a \<Rightarrow> k a) s"
  by (auto simp: returns_def total_def andthen_def bnd_def split: bind_splits sum.splits option.splits)

lemma returns_then: "returns n (h s) \<Longrightarrow> returns (andthen (modify h) n) s" "returns m s \<Longrightarrow> total n \<Longrightarrow> returns (andthen m n) s"
  by (auto simp: returns_def total_def andthen_def bnd_def split: bind_splits sum.splits)

text \<open>Initialisation ends for every configuration with a positive group length.\<close>

lemma init_returns:
  assumes "\<And>len. cfg_prefetch_group_len cfg = Some len \<Longrightarrow> 0 < len" "\<And>m. start_cb = Some m \<Longrightarrow> total m"
  shows "returns (bf_init_onload start_cb err cfg) s"
proof -
  have cb: "total (case start_cb of None \<Rightarrow> ret () | Some m \<Rightarrow> m)" by (intro total_intros assms(2))
  have pre: "returns (case cfg_prefetch cfg of Json_Undefined \<Rightarrow> ret () | Json_Other \<Rightarrow> fault Abort | Json_Array els \<Rightarrow> loop prefetch_step (0, els)) t"
    if "0 < len" "grouped len t" for len and t :: "'a block_device_http_scheme"
    using prefetch_returns [OF that] by (auto simp: returns_def split: json_prefetch.splits)
  have tail: "returns (case cfg_prefetch_group_len cfg of None \<Rightarrow> fault Abort | Some len \<Rightarrow>
      if len > PREFETCH_GROUP_LEN_MAX then fault Abort
      else andthen (modify (\<lambda>s. s\<lparr>bf_prefetch_group_len := len\<rparr>))
       (andthen (case cfg_prefetch cfg of Json_Undefined \<Rightarrow> ret () | Json_Other \<Rightarrow> fault Abort | Json_Array els \<Rightarrow> loop prefetch_step (0, els))
        (case start_cb of None \<Rightarrow> ret () | Some start \<Rightarrow> start))) t" for t :: "'a block_device_http_scheme"
    by (intro returns_rules(3-5) returns_then cb) (rule pre [OF assms(1)], auto simp: grouped_def)
  show ?thesis unfolding bf_init_onload_def Let_def by (intro tail returns_rules total_intros)
qed

section \<open>Callbacks\<close>

text \<open>A computation that returns from every such state, in such a state or in a fault.\<close>

definition stops :: "('w, 'a) http_vm \<Rightarrow> bool" where
  "stops m \<longleftrightarrow> (\<forall>s. shape s \<longrightarrow> returns m s) \<and> keeps shape m"

named_theorems stops_intros \<open>rules for computations that return\<close>

lemma stops_total: "total m \<Longrightarrow> keeps shape m \<Longrightarrow> stops m"
  by (simp add: stops_def total_def)

lemma stops_basic [stops_intros]:
  "stops (ret a)" "stops (fault f)" "stops (gets g)" "stops (guard f b)" "stops (cint i)" "stops (lift r)" "stops (load heap p)" "stops (cint64 i)"
  by (intro stops_total total_intros keeps_intros)+

lemma stops_modify: "(\<And>s. shape s \<Longrightarrow> shape (h s)) \<Longrightarrow> stops (modify h)"
  by (intro stops_total total_intros keeps_modify)

lemma stops_bnd [stops_intros]:
  assumes "stops m" and "\<And>a. stops (k a)"
  shows "stops (bnd m k)"
proof -
  have "keeps shape (bnd m k)" using assms by (intro keeps_bnd) (simp_all add: stops_def)
  moreover have "returns (bnd m k) s" if s: "shape s" for s
  proof -
    obtain r where r: "m s = Some r" using assms(1) s unfolding stops_def returns_def by blast
    show ?thesis
    proof (cases r)
      case (Inr p)
      then have "shape (snd p)" using assms(1) s r keepsD [of shape m s "fst p" "snd p"] by (simp add: stops_def)
      then have "returns (k (fst p)) (snd p)" using assms(2) by (simp add: stops_def)
      then show ?thesis using r Inr by (cases p) (simp add: returns_def bnd_def)
    qed (use r in \<open>simp add: returns_def bnd_def\<close>)
  qed
  ultimately show ?thesis by (simp add: stops_def)
qed

lemma stops_andthen [stops_intros]: "stops m \<Longrightarrow> stops k \<Longrightarrow> stops (andthen m k)"
  by (simp add: andthen_def stops_bnd)

lemma stops_if [stops_intros]: "(b \<Longrightarrow> stops m) \<Longrightarrow> (\<not> b \<Longrightarrow> stops m') \<Longrightarrow> stops (if b then m else m')"
  by simp

lemma stops_rw [stops_intros]: "stops (loop rw_step ())"
proof -
  have "wlp (loop rw_step ()) (\<lambda>_. shape) (\<lambda>_. True) s" if "shape s" for s :: "'a block_device_http_scheme"
  proof (rule wlp_loop [where J = "\<lambda>_. shape", OF that])
    fix x and t :: "'a block_device_http_scheme" assume "shape t"
    then show "wlp (rw_step x) (\<lambda>r t. case r of Again x' \<Rightarrow> shape t | Done a \<Rightarrow> shape t) (\<lambda>_. True) t" using rw_step_nearer [of t] by (auto simp: nearer_def elim!: wlp_mono split: step.splits)
  qed
  then show ?thesis by (simp add: stops_def rw_loop_returns keeps_def)
qed

lemma stops_rw_async:
  assumes "\<And>r. stops (cb r)"
  shows "stops (bf_rw_async1 cb is_sync)"
  unfolding bf_rw_async1_def using assms by (intro stops_intros)

lemma stops_upd_block: "stops (upd_block p g)"
  unfolding upd_block_def by (intro stops_intros stops_modify) (simp add: shape_def)

lemma stops_update_block:
  assumes "\<And>r. stops (cb r)"
  shows "stops (bf_update_block cb p data)"
  unfolding bf_update_block_def by (intro stops_intros stops_upd_block stops_rw_async assms)

lemma stops_onload:
  assumes "\<And>r. stops (cb r)"
  shows "stops (bf_read_onload cb p err data)" "stops (bf_prefetch_group_onload cb req err data)"
proof -
  have "stops (update_group cb bb ps i data)" for bb ps i
    by (induction ps arbitrary: i; unfold update_group.simps; (intro stops_intros stops_update_block assms | assumption)+)
  then show "stops (bf_prefetch_group_onload cb req err data)" unfolding bf_prefetch_group_onload_def by (intro stops_intros)
  show "stops (bf_read_onload cb p err data)" unfolding bf_read_onload_def by (intro stops_intros stops_update_block assms)
qed

lemma returns_modify: "returns (andthen (modify h) m) s = returns m (h s)"
  by (simp add: returns_def andthen_def bnd_def)

text \<open>A new request starts from its beginning, whatever was before it.\<close>

lemma request_returns:
  assumes "\<And>r. stops (cb r)" "shape (s\<lparr>bf_sector_index := 0, bf_sector_count := n\<rparr>)"
  shows "returns (bf_read_async_http cb num buf n) s" "returns (bf_write_async_http cb num buf n) s"
proof -
  let ?t = "\<lambda>w. s\<lparr>bf_is_write := w, bf_sector_num := num, bf_io_buf := buf, bf_sector_count := n, bf_sector_index := 0, bf_cb := True\<rparr>"
  have sh: "shape (?t w)" for w using assms(2) by (simp add: shape_def)
  have "stops (bnd (gets bf_n_read_sectors) (\<lambda>r. bnd (cint64 (r + n)) (\<lambda>r'. andthen (modify (\<lambda>s. s\<lparr>bf_n_read_sectors := r'\<rparr>)) (bf_rw_async1 cb True))))"
    "stops (bnd (gets bf_n_write_sectors) (\<lambda>r. bnd (cint64 (r + n)) (\<lambda>r'. andthen (modify (\<lambda>s. s\<lparr>bf_n_write_sectors := r'\<rparr>)) (bf_rw_async1 cb True))))"
    by (intro stops_intros stops_modify stops_rw_async assms(1); simp add: shape_def)+
  then show "returns (bf_read_async_http cb num buf n) s" "returns (bf_write_async_http cb num buf n) s"
    using sh unfolding bf_read_async_http_def bf_write_async_http_def returns_modify stops_def by blast+
qed

section \<open>Every operation returns\<close>

text \<open>
  C23: the operations of the block device over HTTP return, in a value or a fault, from every state with the sizes of a
  configured device, whatever its cache, its clusters and the data that arrived are, with every completion function that
  returns; a request may have any position and any length that is not negative.
\<close>

theorem http_operations_return:
  assumes "\<forall>r. stops (cb r)" "shape s"
  shows "returns (bf_read_onload cb p err data) s \<and> returns (bf_prefetch_group_onload cb req err data) s
    \<and> (0 \<le> n \<longrightarrow> returns (bf_read_async_http cb num buf n) s \<and> returns (bf_write_async_http cb num buf n) s)"
proof -
  have "shape (s\<lparr>bf_sector_index := 0, bf_sector_count := n\<rparr>)" if "0 \<le> n" using assms(2) that by (simp add: shape_def)
  then show ?thesis using stops_onload(1) [of cb p err data] stops_onload(2) [of cb req err data] request_returns [where cb = cb and s = s and n = n and num = num and buf = buf] assms
    by (simp add: stops_def)
qed

theorem http_operations_return_witness:
  "returns (bf_read_async_http (\<lambda>_. ret ()) 7 [1, 2] 3) ((zero_http \<lparr>host_time = (\<lambda>_. (7, 8)), host_mem = (\<lambda>_ _. True), host_junk = (\<lambda>_ _. 0)\<rparr>)
     \<lparr>bf_sectors_per_cluster := 8, bf_block_size := 8\<rparr>)" (is "returns _ ?s")
proof -
  have "shape ?s" by (simp add: shape_def zero_http_def)
  then show ?thesis using http_operations_return [where cb = "\<lambda>_. ret ()" and s = ?s and n = 3 and num = 7 and buf = "[1, 2]"] by (simp add: stops_intros)
qed

end
