(* ===== verification/Http_Init.thy ===== *)
theory Http_Init
  imports Http_Total
begin

text \<open>
  Start of the block device over HTTP: from a configuration that describes the files on the server,
  \<open>bf_init_onload\<close> makes a disk with the contents of the image, and starts the transfers of the blocks to prefetch.
\<close>

unbundle bit_operations_syntax

section \<open>The server\<close>

text \<open>
  The server has the blocks of the image \<open>img\<close> and the groups of blocks to prefetch under the names the device makes from
  \<open>url\<close>; a block is at least a cluster of 4 KB, and there are fewer clusters than an \<open>int\<close> can count.
\<close>

definition serves :: "(bytes \<Rightarrow> bytes) \<Rightarrow> (nat \<Rightarrow> bytes) \<Rightarrow> bytes \<Rightarrow> http_config \<Rightarrow> nat \<Rightarrow> nat \<Rightarrow> nat \<Rightarrow> bool" where
  "serves srv img url cfg m nb len \<longleftrightarrow> cfg_valid cfg \<and> cfg_block_size cfg = Some (2 ^ m) \<and> 2 \<le> m \<and> m < 30
     \<and> cfg_n_block cfg = Some (int nb) \<and> 0 < nb \<and> 2 ^ Suc m * nb \<le> 17179869176
     \<and> cfg_prefetch_group_len cfg = Some (int len) \<and> 0 < len \<and> len \<le> 32
     \<and> (\<forall>k. length (img k) = 512 * 2 ^ Suc m)
     \<and> (\<forall>k < nb. srv (BLK_FMT (url_dir url) (of_nat k)) = img k)
     \<and> (case cfg_prefetch cfg of Json_Undefined \<Rightarrow> True | Json_Other \<Rightarrow> False
        | Json_Array els \<Rightarrow> (\<forall>e \<in> set els. \<exists>k < nb. e = Some (int k))
            \<and> (\<forall>g. len * g < length els \<longrightarrow>
                 srv (GROUP_FMT (url_dir url) (of_nat g)) = concat (map (\<lambda>e. img (nat (the e))) (take len (drop (len * g) els)))))"

text \<open>The device has been made, and its configuration arrives.\<close>

definition made_http :: "host \<Rightarrow> logged_http" where
  "made_http h = block_device_http.extend (zero_http h) (logged_http.fields [])"

definition http_boot :: "bytes \<Rightarrow> int \<Rightarrow> http_config \<Rightarrow> (logged_http, unit) vm" where
  "http_boot url max_kb cfg = andthen (block_device_init_http url max_kb)
     (andthen (modify (\<lambda>s. s\<lparr>wgets := []\<rparr>)) (bf_init_onload None 0 cfg))"

section \<open>Prefetching\<close>

text \<open>A disk nothing has been written to, with no request under way.\<close>

definition unused :: "int \<Rightarrow> bytes \<Rightarrow> int \<Rightarrow> int \<Rightarrow> logged_http \<Rightarrow> bool" where
  "unused len url bs nb s \<longleftrightarrow> bf_prefetch_group_len s = len \<and> bf_url s = url \<and> bf_block_size s = bs \<and> bf_nb_blocks s = nb
     \<and> bf_cur_block_num s = - 1 \<and> bf_sector_index s = 0 \<and> bf_sector_count s = 0 \<and> set (bf_clusters s) \<subseteq> {None} \<and> http_done s = []"

lemma unused_step:
  assumes "cache_step N s t" "unused len url bs nb s"
  shows "unused len url bs nb t"
proof -
  obtain l n h q c where "t = s\<lparr>bf_cached_blocks := l, bf_n_cached_blocks := n, cblocks := h, http_next := q, http_calls := c\<rparr>"
    using assms(1) by (auto simp: cache_step_def)
  then show ?thesis using assms(2) by (simp add: unused_def)
qed

lemma u32_nat: "k < 2147483648 \<Longrightarrow> unat (u32_of_int (int k)) = k" "k < 2147483648 \<Longrightarrow> u32_of_int (int k) \<noteq> - 1"
proof -
  assume k: "k < 2147483648"
  show *: "unat (u32_of_int (int k)) = k" using k by (simp add: unat_u32_of_int)
  have "unat (- 1 :: u32) = 4294967295" by (simp add: unsigned_minus_1_eq_mask mask_eq_exp_minus_1)
  then show "u32_of_int (int k) \<noteq> - 1" using k * by auto
qed

lemma serves_blocks:
  assumes "serves srv img url cfg m nb len"
  shows "nb < 2147483648"
proof -
  have "(2 :: nat) ^ 2 \<le> 2 ^ m" using assms by (intro power_increasing) (simp_all add: serves_def)
  then have "4 * nb \<le> 2 ^ m * nb" using mult_le_mono1 [of 4 "2 ^ m" nb] by simp
  moreover have "2 ^ m * nb \<le> 8589934588" using assms by (simp add: serves_def mult.commute)
  ultimately show ?thesis by linarith
qed

text \<open>One round of the loop over the blocks to prefetch.\<close>

lemma prefetch_rule:
  assumes srv: "serves srv img url cfg m nb len" "cfg_prefetch cfg = Json_Array els"
    and inv: "http_inv srv img [] s" and un: "unused (int len) (url_dir url) (2 ^ Suc m) (int nb) s"
    and at: "els' = drop (len * g) els" "els' \<noteq> []"
  shows "wlp (prefetch_step (int (len * g), els')) (\<lambda>r u. http_inv srv img [] u \<and> unused (int len) (url_dir url) (2 ^ Suc m) (int nb) u
     \<and> (\<exists>i. r = Again (i, drop len els') \<and> (len < length els' \<longrightarrow> i = int (len * Suc g)))) ovf s"
proof -
  let ?P = "\<lambda>u. http_inv srv img [] u \<and> unused (int len) (url_dir url) (2 ^ Suc m) (int nb) u"
  let ?l = "min (length els') len" and ?ks = "map the (take (min (length els') len) els')"
  have len: "0 < len" using srv(1) by (simp add: serves_def)
  have nb: "nb < 2147483648" by (rule serves_blocks [OF srv(1)])
  have "set (take ?l els') \<subseteq> set els" using at(1) by (auto dest: in_set_takeD in_set_dropD)
  then have el: "\<exists>k < nb. e = Some (int k)" if "e \<in> set (take ?l els')" for e using srv that by (auto simp: serves_def)
  have ks: "\<exists>k' < nb. k = int k'" if "k \<in> set ?ks" for k using that el by fastforce
  have geo: "geo srv img s" "cache_ok srv img [] s" using inv by (simp_all add: http_inv_def)
  have pos: "0 < bf_block_size s" "\<forall>c n. host_mem (http_host s) c n" "0 < http_next s" using geo(1) by (auto simp: geo_def)
  have grp: "wlp (bf_start_load_prefetch_group (int g) ?ks) (\<lambda>_. ?P) ovf s"
  proof (rule wp_start_group [OF geo(2) _ pos], goal_cases)
    case 1
    then show ?case using ks nb u32_nat(2) by fastforce
  next
    case 2
    have "take ?l els' = take len els'" by (simp add: min_def)
    moreover have "img (unat (u32_of_int (the e))) = img (nat (the e))" if "e \<in> set (take ?l els')" for e
      using el [OF that] nb u32_nat(1) by (auto simp del: of_nat_less_iff)
    then have "map (\<lambda>k. img (unat (u32_of_int k))) ?ks = map (\<lambda>e. img (nat (the e))) (take ?l els')" by (simp add: o_def)
    moreover have "len * g < length els" using at by simp
    then have "srv (GROUP_FMT (url_dir url) (of_nat g)) = concat (map (\<lambda>e. img (nat (the e))) (take len els'))"
      using srv at(1) by (simp add: serves_def)
    moreover have "u32_of_int (int g) = of_nat g" "bf_url s = url_dir url" using un by (simp_all add: u32_of_int_def unused_def)
    ultimately show ?case by (simp only:)
  next
    case 3
    then show ?case using geo(1) by (simp add: geo_def)
  next
    case (4 N t u)
    have "geo srv img u" by (rule geo_cong [OF _ _ _ _ _ _ _ _ geo_step [OF 4(1) geo(1)]]) (use 4(2) in auto)
    then show ?case using 4(2,3) unused_step [OF 4(1) un] by (auto simp: http_inv_def unused_def)
  qed
  have one: "wlp (bnd (bf_find_block (u32_of_int (hd ?ks))) (\<lambda>p. if p = 0 then bf_start_load_block (hd ?ks) else ret ())) (\<lambda>_. ?P) ovf s"
  proof -
    have "?ks \<noteq> []" using at(2) len by simp
    then have "hd ?ks \<in> set ?ks" by (rule hd_in_set)
    from ks [OF this] obtain k where k: "hd ?ks = int k" "k < nb" by blast
    have u: "unat (u32_of_int (hd ?ks)) = k" "u32_of_int (hd ?ks) \<noteq> - 1" "u32_of_int (hd ?ks) = of_nat k"
      using u32_nat [of k] k nb by (simp_all add: u32_of_int_def)
    show ?thesis unfolding wlp_bnd
    proof (rule wp_bf_find_block [OF geo(2)], goal_cases)
      case 1
      show ?case unfolding if_P [OF refl]
      proof (rule wp_start_load [OF geo(2) 1 u(2) pos], goal_cases)
        case 1
        then show ?case using srv(1) un k u by (simp add: serves_def unused_def)
      next
        case 2
        then show ?case using geo(1) by (simp add: geo_def)
      next
        case (3 p t v)
        have "geo srv img v" by (rule geo_cong [OF _ _ _ _ _ _ _ _ geo_step [OF 3(1) geo(1)]]) (use 3(4) in auto)
        then show ?case using 3(4,5) unused_step [OF 3(1) un] by (auto simp: http_inv_def unused_def)
      qed
    next
      case (2 p l)
      have p: "p \<noteq> 0" using cache_okD(1) [OF geo(2), of p] 2 by simp
      have st: "cache_step {} s (s\<lparr>bf_cached_blocks := l\<rparr>)" by (rule perm_step [OF 2(4)])
      have "?P (s\<lparr>bf_cached_blocks := l\<rparr>)" using unused_step [OF st un] geo_step [OF st geo(1)] cache_perm [OF geo(2) 2(3,4)] by (simp add: http_inv_def)
      then show ?case using p by (simp add: wlp_ret)
    qed
  qed
  have l: "min_int (int (length els')) (int len) = int ?l" by (rule min_int_nat)
  have none: "None \<notin> set (take ?l els')" using el by blast
  have g: "cdiv (int (len * g)) (int len) = int g" using len by (simp add: cdiv_def mult_less_0_iff)
  have dr: "drop ?l els' = drop len els'" by (simp add: min_def)
  have fin: "wlp (bnd (cint (int (len * g) + int ?l)) (\<lambda>idx'. ret (Again (idx', drop ?l els')))) (\<lambda>r u. http_inv srv img [] u
     \<and> unused (int len) (url_dir url) (2 ^ Suc m) (int nb) u \<and> (\<exists>i. r = Again (i, drop len els') \<and> (len < length els' \<longrightarrow> i = int (len * Suc g)))) ovf u" if "?P u" for u
    using that dr by (simp add: wlp_bnd wlp_cint wlp_ret min_def)
  have glen: "bf_prefetch_group_len s = int len" using un by (simp add: unused_def)
  have l0: "(int len \<noteq> 0) = True" using len by simp
  have "wlp (if int ?l = 1 then bnd (bf_find_block (u32_of_int (hd ?ks))) (\<lambda>p. if p = 0 then bf_start_load_block (hd ?ks) else ret ())
      else andthen (guard SignedOverflow True) (bf_start_load_prefetch_group (int g) ?ks)) (\<lambda>_. ?P) ovf s"
    unfolding wlp_if wlp_andthen wlp_guard if_P [OF TrueI] using one grp by (rule if_split [THEN iffD2, OF conjI, OF impI impI])
  then show ?thesis unfolding prefetch_step_def prod.case if_not_P [OF at(2)] wlp_bnd [of "gets _"] wlp_gets glen Let_def l nat_int if_not_P [OF none] g
      l0 wlp_andthen [of "If _ _ _"]
    by (rule wlp_mono) (rule fin, assumption, assumption)
qed

section \<open>Initialisation\<close>

text \<open>The disk of an image.\<close>

definition image_disk :: "(nat \<Rightarrow> bytes) \<Rightarrow> nat \<Rightarrow> nat \<Rightarrow> bytes" where
  "image_disk img m j = chunk (img (j div 2 ^ Suc m)) (j mod 2 ^ Suc m)"

lemma unused_phase:
  assumes "unused len url (2 ^ Suc m) nb s" "http_inv srv img [] s"
  shows "phase img (image_disk img m) None s"
proof -
  have "bf_clusters s ! (j div 8) = None" if "j < nat (bf_nb_sectors s)" for j
    using geo_sector(2) [of srv img s j] that assms nth_mem [of "j div 8" "bf_clusters s"]
    unfolding http_inv_def unused_def by blast
  moreover have "\<not> waiting s" using assms no_block_waiting [of srv img "[]" s] by (simp add: http_inv_def unused_def)
  moreover have "nat (bf_block_size s) = 2 ^ Suc m" using assms(1) by (simp add: unused_def nat_mult_distrib nat_power_eq)
  ultimately show ?thesis using assms(1) by (simp add: phase_def unused_def sector_def image_disk_def)
qed

lemma prefetch_loop:
  assumes "serves srv img url cfg m nb len" "cfg_prefetch cfg = Json_Array els"
    and "http_inv srv img [] s" "unused (int len) (url_dir url) (2 ^ Suc m) (int nb) s"
  shows "wlp (loop prefetch_step (0, els)) (\<lambda>_ u. http_inv srv img [] u \<and> unused (int len) (url_dir url) (2 ^ Suc m) (int nb) u) ovf s"
proof (rule wlp_loop [where J = "\<lambda>(i, els') u. http_inv srv img [] u \<and> unused (int len) (url_dir url) (2 ^ Suc m) (int nb) u
    \<and> (els' = [] \<or> (\<exists>g. i = int (len * g) \<and> els' = drop (len * g) els))"], goal_cases)
  case 1
  then show ?case using assms by (auto intro: exI [of _ 0])
next
  case (2 x t)
  obtain i els' where x: "x = (i, els')" by (cases x)
  show ?case
  proof (cases "els' = []")
    case True
    then show ?thesis using 2 x by (simp add: prefetch_step_def wlp_ret)
  next
    case False
    then obtain g where g: "i = int (len * g)" "els' = drop (len * g) els" and t: "http_inv srv img [] t" "unused (int len) (url_dir url) (2 ^ Suc m) (int nb) t"
      using 2 x by auto
    have more: "drop len els' = [] \<or> (\<exists>g. j = int (len * g) \<and> drop len els' = drop (len * g) els)"
      if "len < length els' \<longrightarrow> j = int (len * Suc g)" for j
      using that g(2) by (cases "len < length els'") (auto intro!: exI [of _ "Suc g"] simp: add.commute algebra_simps)
    show ?thesis unfolding x g(1)
      by (rule wlp_mono [OF prefetch_rule [OF assms(1,2) t g(2) False]]) (use more in auto)
  qed
qed

lemma boot_geo:
  assumes "serves srv img url cfg m nb len" "bf_sectors_per_cluster s = 8" "bf_block_size s = 2 ^ Suc m" "bf_nb_blocks s = int nb"
    "bf_nb_sectors s = 2 ^ Suc m * int nb" "bf_clusters s = replicate ((2 ^ Suc m * nb) div 8) None" "\<forall>c n. host_mem (http_host s) c n" "0 < http_next s"
    "bf_url s = url_dir url"
  shows "geo srv img s"
proof -
  have m: "3 \<le> Suc m" "Suc m < 31" using assms(1) by (simp_all add: serves_def)
  have e: "nat (2 ^ Suc m) = 2 ^ Suc m" "nat (2 ^ Suc m * int nb) = 2 ^ Suc m * nb" by (simp_all add: nat_mult_distrib nat_power_eq)
  have "int (2 ^ Suc m * nb) \<le> int 17179869176" using assms(1) unfolding serves_def of_nat_le_iff by blast
  then have nb: "2 ^ Suc m * int nb \<le> 17179869176" by simp
  have b: "\<forall>k < nb. srv (BLK_FMT (url_dir url) (of_nat k)) = img k" using assms(1) unfolding serves_def by blast
  have "srv (BLK_FMT (bf_url s) k) = img (unat k)" if "int (unat k) < int nb" for k :: u32
    using b [rule_format, of "unat k"] that assms(9) by simp
  moreover have "\<forall>k. length (img k) = 512 * 2 ^ Suc m" using assms(1) unfolding serves_def by blast
  moreover have "\<exists>k. (2 :: int) ^ Suc m = 2 ^ k \<and> 3 \<le> k \<and> k < 31" using m by blast
  ultimately show ?thesis unfolding geo_def assms(2-6) e using nb assms(7,8) by simp
qed

lemma boot_numbers:
  assumes "serves srv img url cfg m nb len"
  shows "int_in_range (2 ^ Suc m)" "(2 ^ Suc m :: int) AND (2 ^ Suc m - 1) = 0"
    "sint (word_of_int (2 ^ Suc m) * word_of_int (int nb) :: u64) = 2 ^ Suc m * int nb"
    "2 ^ Suc m * int nb + 7 < 9223372036854775808"
    "int_of_u32 (ucast (word_of_int (cdiv (2 ^ Suc m * int nb + 7) 8) :: u64)) = int ((2 ^ Suc m * nb) div 8)"
proof -
  have m: "3 \<le> Suc m" "Suc m < 31" and nb: "2 ^ Suc m * nb \<le> 17179869176" using assms unfolding serves_def by auto
  have "(2 :: int) ^ Suc m < 2 ^ 31" by (rule power_strict_increasing [OF m(2)]) simp
  moreover have "0 \<le> (2 :: int) ^ Suc m" by simp
  moreover have "(2 :: int) ^ 31 = 2147483648" by simp
  ultimately show "int_in_range (2 ^ Suc m)" unfolding int_in_range_def by linarith
  have "take_bit (Suc m) ((2 :: int) ^ Suc m) = 0" by (simp add: take_bit_eq_mod)
  then show "(2 ^ Suc m :: int) AND (2 ^ Suc m - 1) = 0" by (simp only: take_bit_eq_mask mask_eq_exp_minus_1)
  have p: "2 ^ Suc m * int nb = int (2 ^ Suc m * nb)" by simp
  show "2 ^ Suc m * int nb + 7 < 9223372036854775808" unfolding p using nb by linarith
  have "sint (word_of_int (2 ^ Suc m) * word_of_int (int nb) :: u64) = signed_take_bit 63 (int (2 ^ Suc m * nb))"
    unfolding wi_hom_mult p by (subst signed_of_int) simp
  also have "\<dots> = int (2 ^ Suc m * nb)" by (rule signed_take_bit_int_eq_self) (use nb in \<open>simp_all del: of_nat_mult of_nat_power power_Suc\<close>)
  finally show "sint (word_of_int (2 ^ Suc m) * word_of_int (int nb) :: u64) = 2 ^ Suc m * int nb" by simp
  obtain c where c: "2 ^ Suc m * nb = 8 * c" using dvd_mult2 [OF le_imp_power_dvd [OF m(1), of "2 :: nat"], of nb] by (elim dvdE) simp
  have "cdiv (int (8 * c) + 7) 8 = int c" by (simp add: cdiv_def)
  then show "int_of_u32 (ucast (word_of_int (cdiv (2 ^ Suc m * int nb + 7) 8) :: u64)) = int ((2 ^ Suc m * nb) div 8)"
    using int_of_u64 [of "of_nat c"] nb unfolding p c by (simp add: unat_of_nat take_bit_nat_eq_self)
qed

lemma boot_rule:
  assumes srv: "serves srv img url cfg m nb len" and url: "length url < 1024" and h: "\<forall>c n. host_mem h c n"
  shows "wlp (http_boot url max_kb cfg) (\<lambda>_ u. http_inv srv img [] u \<and> phase img (image_disk img m) None u
    \<and> bf_block_size u = 2 ^ Suc m \<and> bf_nb_sectors u = 2 ^ Suc m * int nb \<and> http_done u = [] \<and> set (bf_clusters u) \<subseteq> {None}) ovf (made_http h)"
proof -
  let ?B = "2 ^ Suc m :: int"
  let ?u = "unused (int len) (url_dir url) ?B (int nb)"
  let ?s = "(made_http h)\<lparr>bf_url := url_dir url, bf_cached_blocks := [], bf_max_cache_size_kb := max_kb, wgets := [],
    bf_block_size := ?B, bf_nb_blocks := int nb, bf_nb_sectors := ?B * int nb, bf_n_cached_blocks := 0,
    bf_n_cached_blocks_max := max_int 1 (cdiv max_kb (2 ^ m)), bf_cur_block_num := - 1, bf_sectors_per_cluster := 8,
    bf_n_clusters := int ((2 ^ Suc m * nb) div 8), bf_clusters := replicate ((2 ^ Suc m * nb) div 8) None, bf_prefetch_group_len := int len\<rparr>"
  have made: "http_host (made_http h) = h" "http_next (made_http h) = 1" "bf_sector_index (made_http h) = 0" "bf_sector_count (made_http h) = 0"
    "http_done (made_http h) = []" "cblocks (made_http h) = Map.empty" "wgets (made_http h) = []"
    by (simp_all add: made_http_def zero_http_def block_device_http.extend_def logged_http.fields_def)
  have "geo srv img ?s" by (rule boot_geo [OF srv]) (simp_all add: h made)
  moreover have "cache_ok srv img [] ?s" by (simp add: cache_ok_def made loading_def)
  moreover have un: "?u ?s" by (auto simp: unused_def made)
  ultimately have inv: "http_inv srv img [] ?s" by (simp add: http_inv_def)
  have post: "wlp (case cfg_prefetch cfg of Json_Undefined \<Rightarrow> ret () | Json_Other \<Rightarrow> fault Abort | Json_Array els \<Rightarrow> loop prefetch_step (0, els))
     (\<lambda>_ u. http_inv srv img [] u \<and> ?u u) ovf ?s"
    using prefetch_loop [OF srv _ inv un] inv un srv by (auto simp: wlp_ret serves_def split: json_prefetch.splits)
  have fin: "phase img (image_disk img m) None u \<and> bf_block_size u = ?B \<and> bf_nb_sectors u = ?B * int nb \<and> http_done u = [] \<and> set (bf_clusters u) \<subseteq> {None}"
    if "http_inv srv img [] u" "?u u" for u
  proof -
    have "geo srv img u" using that(1) by (simp add: http_inv_def)
    then have "bf_nb_sectors u = bf_block_size u * bf_nb_blocks u" unfolding geo_def by blast
    then show ?thesis using that(2) unused_phase [OF that(2,1)] by (simp add: unused_def)
  qed
  have cfg: "cfg_valid cfg" "cfg_block_size cfg = Some (2 ^ m)" "cfg_n_block cfg = Some (int nb)" "\<not> int nb \<le> 0" "cfg_prefetch_group_len cfg = Some (int len)"
    "\<not> PREFETCH_GROUP_LEN_MAX < int len" using srv by (simp_all add: serves_def)
  have B: "(2 :: int) ^ m * 2 = ?B" "\<not> (?B \<le> 0 \<or> ?B AND (?B - 1) \<noteq> 0)" "?B * int nb + 8 - 1 = ?B * int nb + 7"
    "- 9223372036854775808 \<le> ?B * int nb + 7 \<and> ?B * int nb + 7 < 9223372036854775808"
    using boot_numbers(2,4) [OF srv] by (simp_all add: not_le)
  note n = boot_numbers(1,3,5) [OF srv]
  have e: "((0 :: int) < 0 \<or> \<not> cfg_valid cfg) = False" "(0 \<le> int ((2 ^ Suc m * nb) div 8)) = True" using cfg(1) by simp_all
  show ?thesis unfolding http_boot_def block_device_init_http_def bf_init_onload_def fs_wget_http_def cfg(2,3,5) option.case Let_def B(1) 
      cint64_def e if_False if_not_P [OF cfg(4)] if_not_P [OF cfg(6)] wlp_andthen wlp_guard wlp_modify if_P [OF url] wlp_bnd wlp_cint if_P [OF n(1)] wlp_gets
      if_not_P [OF B(2)] n(2) B(3) if_P [OF B(4)] wlp_ret n(3) nat_int if_True
    using wlp_mono [OF post, of "\<lambda>_ u. http_inv srv img [] u \<and> phase img (image_disk img m) None u
      \<and> bf_block_size u = ?B \<and> bf_nb_sectors u = ?B * int nb \<and> http_done u = [] \<and> set (bf_clusters u) \<subseteq> {None}" ovf] fin by simp
qed

lemma boot_returns:
  assumes "serves srv img url cfg m nb len"
  shows "returns (http_boot url max_kb cfg) s"
  unfolding http_boot_def block_device_init_http_def fs_wget_http_def
  by (intro returns_rules total_intros init_returns) (use assms in \<open>simp_all add: serves_def\<close>)

end
