(* ===== verification/Http_Correct.thy ===== *)
theory Http_Correct
  imports Http_Init
begin

text \<open>
  The block device over HTTP under every interleaving of requests and arriving blocks: requests refine reads and
  writes of a disk, and every request completes once what it waits for has arrived.
\<close>

section \<open>A request\<close>

lemma request_rule:
  assumes inv: "http_inv srv img [] s" and ph: "phase img D None s" and f: "fits rq s"
  shows "wlp (http_step srv (Request rq)) (\<lambda>_ u. http_inv srv img [] u \<and>
      (phase img D (Some rq) u \<and> http_done u = http_done s
       \<or> phase img (done_disk D rq) None u \<and> http_done u = http_done s @ [(0, done_buf D rq)])) ovf s"
proof -
  let ?s = "s\<lparr>bf_is_write := rq_write rq, bf_sector_num := of_nat (rq_start rq), bf_io_buf := rq_buf rq, bf_sector_count := int (rq_n rq),
       bf_sector_index := 0, bf_cb := True\<rparr>"
  let ?P = "\<lambda>u. http_inv srv img [] u \<and> (phase img D (Some rq) u \<and> http_done u = http_done s
       \<or> phase img (done_disk D rq) None u \<and> http_done u = http_done s @ [(0, done_buf D rq)])"
  have go: "wlp (bf_rw_async1 log_done True) (\<lambda>r. wlp (if r > 0 then ret () else log_done r) (\<lambda>_. ?P) ovf) ovf t"
    if t: "t = ?s\<lparr>bf_n_read_sectors := r\<rparr> \<or> t = ?s\<lparr>bf_n_write_sectors := r\<rparr>" for r t
  proof -
    have inv': "http_inv srv img [] t" by (rule http_inv_cong [OF inv]) (use t in auto)
    have "sector img t = sector img s" by (rule sector_cong) (use t in auto)
    then have p: "progress img D rq 0 t" using ph t by (auto simp: progress_def phase_def)
    have f': "fits rq t" using f t by (subst fits_cong) auto
    have "waiting t = waiting s" by (rule waiting_cong) (use t in auto)
    then have nw: "\<not> waiting t" using ph by (simp add: phase_def)
    show ?thesis unfolding bf_rw_async1_def wlp_bnd
    proof (rule wlp_mono [OF rw_phase [OF inv' p f' nw]])
      fix v u assume u: "rw_result srv img D rq [] t v u"
      have dn: "http_done u = http_done s" using same_client_log [of t u] u t by (auto simp: rw_result_def)
      have iu: "http_inv srv img [] u" using u by (simp add: rw_result_def)
      have il: "http_inv srv img [] (u\<lparr>http_done := l\<rparr>)" for l by (rule http_inv_cong [OF iu]) simp_all
      have ph': "if v then phase img D (Some rq) u else phase img (done_disk D rq) None u \<and> bf_io_buf u = done_buf D rq"
        using u by (cases v) (simp_all add: rw_result_def)
      show "wlp (if v then ret 1 else andthen (if True then ret () else bnd (gets bf_cb) (\<lambda>set. andthen (guard NullDeref set) (log_done 0))) (ret 0))
          (\<lambda>r. wlp (if r > 0 then ret () else log_done r) (\<lambda>_. ?P) ovf) ovf u"
      proof (cases v)
        case True
        then show ?thesis using iu ph' dn by (simp add: wlp_ret)
      next
        case False
        then have "?P (u\<lparr>http_done := http_done u @ [(0, bf_io_buf u)]\<rparr>)" using il ph' dn by (simp add: log_phase)
        then show ?thesis using False by (simp add: wlp_ret wlp_andthen log_done_def wlp_modify)
      qed
    qed (use t in auto)
  qed
  show ?thesis using go [OF disjI1 [OF refl]] go [OF disjI2 [OF refl]] by (cases "rq_write rq")
    (simp_all add: wlp_bnd wlp_andthen wlp_modify wlp_gets bf_read_async_http_def bf_write_async_http_def cint64_def wlp_ret wlp_fault)
qed

section \<open>Requests and arrivals\<close>

text \<open>What a disk that starts with the contents \<open>D\<close> answers to requests made one after the other.\<close>

primrec disk_after :: "(nat \<Rightarrow> bytes) \<Rightarrow> http_request list \<Rightarrow> nat \<Rightarrow> bytes" where
  "disk_after D [] = D"
| "disk_after D (rq # rqs) = disk_after (done_disk D rq) rqs"

primrec results :: "(nat \<Rightarrow> bytes) \<Rightarrow> http_request list \<Rightarrow> (int \<times> bytes) list" where
  "results D [] = []"
| "results D (rq # rqs) = (0, done_buf D rq) # results (done_disk D rq) rqs"

lemma disk_after_snoc [simp]: "disk_after D (rqs @ [rq]) = done_disk (disk_after D rqs) rq"
  by (induction rqs arbitrary: D) simp_all

lemma results_snoc [simp]: "results D (rqs @ [rq]) = results D rqs @ [(0, done_buf (disk_after D rqs) rq)]"
  by (induction rqs arbitrary: D) simp_all

lemma length_results [simp]: "length (results D rqs) = length rqs"
  by (induction rqs arbitrary: D) simp_all

definition http_idle :: "'w block_device_http_scheme \<Rightarrow> bool" where
  "http_idle s \<longleftrightarrow> bf_sector_index s = bf_sector_count s"

text \<open>The device works on one request at a time; a request is made when the one before it has completed, and transfers end in any order.\<close>

fun enabled :: "http_event \<Rightarrow> logged_http \<Rightarrow> bool" where
  "enabled (Request rq) s = (http_idle s \<and> fits rq s)"
| "enabled (Arrive i) s = (i < length (wgets s))"

fun requests_of :: "http_event \<Rightarrow> http_request list" where
  "requests_of (Request rq) = [rq]"
| "requests_of (Arrive i) = []"

inductive http_trace :: "(bytes \<Rightarrow> bytes) \<Rightarrow> logged_http \<Rightarrow> http_request list \<Rightarrow> logged_http \<Rightarrow> bool" for srv s0 where
  start: "http_trace srv s0 [] s0"
| event: "http_trace srv s0 rqs s \<Longrightarrow> enabled e s \<Longrightarrow> http_step srv e s = Some (Inr ((), t)) \<Longrightarrow> http_trace srv s0 (rqs @ requests_of e) t"

text \<open>The device and the reference disk: all requests have completed, or all but the last.\<close>

definition in_step :: "(bytes \<Rightarrow> bytes) \<Rightarrow> (nat \<Rightarrow> bytes) \<Rightarrow> (nat \<Rightarrow> bytes) \<Rightarrow> http_request list \<Rightarrow> logged_http \<Rightarrow> bool" where
  "in_step srv img D rqs s \<longleftrightarrow> http_inv srv img [] s \<and>
     (phase img (disk_after D rqs) None s \<and> http_done s = results D rqs
      \<or> (\<exists>old rq. rqs = old @ [rq] \<and> phase img (disk_after D old) (Some rq) s \<and> http_done s = results D old))"

lemma phase_idle: "phase img D pend s \<Longrightarrow> http_idle s \<longleftrightarrow> pend = None"
  by (auto simp: phase_def http_idle_def progress_def split: option.splits)

lemma phase_waits:
  assumes "phase img D (Some rq) s" "http_inv srv img [] s"
  shows "wgets s \<noteq> []"
proof -
  obtain p where "loading s p" using assms(1) by (auto simp: phase_def waiting_def)
  then show ?thesis using cache_awaited [of srv img "[]" s p] assms(2) by (auto simp: http_inv_def)
qed

lemma client_step_cases:
  assumes "client_step D pend s D' pend' u"
  obtains "D' = D" "pend' = pend" "http_done u = http_done s"
  | rq where "pend = Some rq" "pend' = None" "D' = done_disk D rq" "http_done u = http_done s @ [(0, done_buf D rq)]"
  using assms by (auto simp: client_step_def)

lemma step_rule:
  assumes inv: "in_step srv img D rqs s" and e: "enabled e s"
  shows "wlp (http_step srv e) (\<lambda>_ u. in_step srv img D (rqs @ requests_of e) u \<and> (requests_of e = [] \<longrightarrow> work u < work s)) ovf s"
proof (cases e)
  case (Request rq)
  have f: "http_idle s" "fits rq s" using e Request by simp_all
  have s: "phase img (disk_after D rqs) None s" "http_done s = results D rqs" "http_inv srv img [] s"
    using inv f(1) phase_idle by (auto simp: in_step_def)
  show ?thesis unfolding Request
    by (rule wlp_mono [OF request_rule [OF s(3,1) f(2)]]) (use s(2) in \<open>auto simp: in_step_def\<close>)
next
  case (Arrive i)
  have i: "i < length (wgets s)" and hi: "http_inv srv img [] s" using e Arrive inv by (simp_all add: in_step_def)
  obtain old pend where s: "phase img (disk_after D old) pend s" "http_done s = results D old" "rqs = old @ (case pend of None \<Rightarrow> [] | Some rq \<Rightarrow> [rq])"
    using inv unfolding in_step_def by (metis append_Nil2 option.case)
  show ?thesis unfolding Arrive
  proof (rule wlp_mono [OF arrive_rule [OF hi s(1) i]], goal_cases)
    case (1 a u)
    then obtain D' pend' where u: "http_inv srv img [] u" "phase img D' pend' u" "client_step (disk_after D old) pend s D' pend' u" "work u < work s"
      by (auto simp: arrived_def)
    from u(3) have "in_step srv img D rqs u"
    proof (elim client_step_cases, goal_cases)
      case 1
      then show ?case using u(1,2) s by (cases pend) (auto simp: in_step_def)
    next
      case (2 rq)
      then show ?case using u(1,2) s by (auto simp: in_step_def)
    qed
    then show ?case using u(4) by simp
  qed
qed

section \<open>Returning\<close>

lemma stops_log: "stops (log_done r)"
  unfolding log_done_def by (rule stops_modify) (simp add: shape_def)

lemma inv_shape:
  assumes "http_inv srv img A s" "bf_sector_index s \<le> bf_sector_count s"
  shows "shape s"
proof -
  obtain m where "bf_block_size s = int (2 ^ m)" "(2 :: nat) ^ m < 2147483648" "bf_sectors_per_cluster s = 8"
    using assms(1) geo_unit [of srv img s] by (metis http_inv_def)
  moreover from this have "int (2 ^ m) < 2147483648" by linarith
  ultimately show ?thesis using assms(2) by (simp add: shape_def)
qed

lemma returns_total: "returns m s \<Longrightarrow> (\<And>a. total (k a)) \<Longrightarrow> returns (bnd m k) s"
  by (auto simp: returns_def total_def bnd_def split: bind_splits sum.splits)

lemma returns_andthen: "returns m s \<Longrightarrow> wlp m (\<lambda>_. returns k) F s \<Longrightarrow> returns (andthen m k) s"
  by (auto simp: returns_def wlp_def andthen_def bnd_def split: bind_splits sum.splits)

lemma returns_gets: "returns (bnd (gets g) k) s = returns (k (g s)) s"
  by (simp add: returns_def bnd_def)

lemma step_returns:
  assumes inv: "in_step srv img D rqs s"
  shows "returns (http_step srv e) s"
proof (cases e)
  case (Request rq)
  have i0: "http_inv srv img [] s" using inv by (simp add: in_step_def)
  have hi: "http_inv srv img [] (s\<lparr>bf_sector_index := 0, bf_sector_count := int (rq_n rq)\<rparr>)" by (rule http_inv_cong [OF i0]) simp_all
  have sh: "shape (s\<lparr>bf_sector_index := 0, bf_sector_count := int (rq_n rq)\<rparr>)" by (rule inv_shape [OF hi]) simp
  have log: "total (if r > 0 then ret () else log_done r)" for r unfolding log_done_def by (intro total_intros)
  show ?thesis using request_returns [OF stops_log sh] log unfolding Request http_step.simps by (intro returns_total) simp_all
next
  case (Arrive i)
  have "bf_sector_index s \<le> bf_sector_count s" using inv by (auto simp: in_step_def phase_def progress_def)
  then have sh: "shape s" using inv by (intro inv_shape) (auto simp: in_step_def)
  have "stops (deliver srv w)" for w
    unfolding deliver_def by (cases w; cases "snd w") (simp_all add: stops_onload stops_log stops_intros)
  then have "stops (http_step srv e)" unfolding Arrive http_step.simps by (intro stops_intros stops_modify) (simp_all add: shape_def)
  then show ?thesis using sh by (simp add: stops_def)
qed

text \<open>Transfers end until none is left; \<open>cs\<close> chooses which one is next.\<close>

fun http_arrivals :: "(bytes \<Rightarrow> bytes) \<Rightarrow> nat list \<Rightarrow> (logged_http, unit) vm" where
  "http_arrivals srv [] = ret ()"
| "http_arrivals srv (c # cs) = bnd (gets wgets) (\<lambda>ws. if ws = [] then ret ()
     else andthen (http_step srv (Arrive (c mod length ws))) (http_arrivals srv cs))"

lemma idle_when_done:
  assumes "in_step srv img D rqs s" "wgets s = []"
  shows "http_idle s \<and> http_done s = results D rqs"
  using assms phase_waits phase_idle unfolding in_step_def by blast

lemma arrivals_rule:
  assumes "in_step srv img D rqs s" "work s \<le> length cs"
  shows "returns (http_arrivals srv cs) s \<and> wlp (http_arrivals srv cs) (\<lambda>_ u. wgets u = [] \<and> in_step srv img D rqs u) ovf s"
  using assms
proof (induction cs arbitrary: s)
  case Nil
  then show ?case unfolding http_arrivals.simps wlp_ret by (simp add: returns_def work_def)
next
  case (Cons c cs)
  show ?case
  proof (cases "wgets s = []")
    case True
    then show ?thesis using Cons.prems unfolding http_arrivals.simps returns_gets wlp_bnd wlp_gets if_P [OF True] wlp_ret by (simp add: returns_def)
  next
    case False
    let ?i = "c mod length (wgets s)"
    have e: "enabled (Arrive ?i) s" using False by simp
    note st = step_rule [OF Cons.prems(1) e]
    have "returns (http_arrivals srv cs) u \<and> wlp (http_arrivals srv cs) (\<lambda>_ u. wgets u = [] \<and> in_step srv img D rqs u) ovf u"
      if "in_step srv img D (rqs @ requests_of (Arrive ?i)) u \<and> (requests_of (Arrive ?i) = [] \<longrightarrow> work u < work s)" for u
      using that Cons.prems(2) by (intro Cons.IH) simp_all
    then have "wlp (http_step srv (Arrive ?i)) (\<lambda>_ u. returns (http_arrivals srv cs) u
        \<and> wlp (http_arrivals srv cs) (\<lambda>_ u. wgets u = [] \<and> in_step srv img D rqs u) ovf u) ovf s" by (rule wlp_mono [OF st])
    then show ?thesis using False step_returns [OF Cons.prems(1), of "Arrive ?i"]
      unfolding http_arrivals.simps wlp_bnd wlp_gets if_not_P [OF False] wlp_andthen wlp_conj
      by (auto intro!: returns_andthen simp: returns_gets)
  qed
qed

section \<open>Reachable states\<close>

text \<open>The states after a start from a configuration that describes the files on the server, requests and arrivals.\<close>

definition http_reachable :: "(bytes \<Rightarrow> bytes) \<Rightarrow> (nat \<Rightarrow> bytes) \<Rightarrow> bytes \<Rightarrow> int \<Rightarrow> http_config \<Rightarrow> host \<Rightarrow> nat \<Rightarrow> http_request list \<Rightarrow> logged_http \<Rightarrow> bool" where
  "http_reachable srv img url max_kb cfg h m rqs s \<longleftrightarrow> (\<exists>nb len s0. serves srv img url cfg m nb len \<and> length url < 1024 \<and> (\<forall>c n. host_mem h c n)
     \<and> http_boot url max_kb cfg (made_http h) = Some (Inr ((), s0)) \<and> http_trace srv s0 rqs s)"

lemma reachable_in_step:
  assumes "http_reachable srv img url max_kb cfg h m rqs s"
  shows "in_step srv img (image_disk img m) rqs s"
proof -
  obtain nb len s0 where s0: "serves srv img url cfg m nb len" "length url < 1024" "\<forall>c n. host_mem h c n"
    "http_boot url max_kb cfg (made_http h) = Some (Inr ((), s0))" and tr: "http_trace srv s0 rqs s"
    using assms by (auto simp: http_reachable_def)
  have "in_step srv img (image_disk img m) [] s0" using wlp_D(1) [OF boot_rule [OF s0(1-3)] s0(4)] by (simp add: in_step_def)
  with tr show ?thesis
  proof (induction rule: http_trace.induct)
    case (event rqs s e t)
    then show ?case using wlp_D(1) [OF step_rule [OF _ event.hyps(2)] event.hyps(3)] by blast
  qed
qed

section \<open>The disk after the start\<close>

text \<open>
  What the client gets to see of the disk: a read is made, and once as many transfers have ended as there is work left then,
  in any order, it has completed with the buffer \<open>r\<close>, unless a counter of the device overflows.
\<close>

definition reads_as :: "(bytes \<Rightarrow> bytes) \<Rightarrow> logged_http \<Rightarrow> nat \<Rightarrow> bytes \<Rightarrow> nat \<Rightarrow> bytes \<Rightarrow> bool" where
  "reads_as srv s start buf n r \<longleftrightarrow>
     (case http_step srv (Request \<lparr>rq_write = False, rq_start = start, rq_buf = buf, rq_n = n\<rparr>) s of
        None \<Rightarrow> False | Some (Inl f) \<Rightarrow> f = SignedOverflow
      | Some (Inr (_, u)) \<Rightarrow> \<forall>cs. work u \<le> length cs \<longrightarrow> (case http_arrivals srv cs u of
            None \<Rightarrow> False | Some (Inl f) \<Rightarrow> f = SignedOverflow
          | Some (Inr (_, t)) \<Rightarrow> http_done t = http_done s @ [(0, r)]))"

lemma concat_block:
  assumes "\<And>k. length (img k) = L" "k < nb"
  shows "take L (drop (L * k) (concat (map img [0..<nb]))) = img k"
proof -
  have l: "length (concat (map img [0..<k])) = L * k" by (induction k) (simp_all add: assms(1))
  have "[0..<nb] = [0..<k] @ k # [Suc k..<nb]"
    using upt_add_eq_append [of 0 k "nb - k"] assms(2) by (simp only: le0 add_0 le_add_diff_inverse less_imp_le upt_conv_Cons)
  then have "concat (map img [0..<nb]) = concat (map img [0..<k]) @ img k @ concat (map img [Suc k..<nb])" by simp
  then show ?thesis using l assms(1) by simp
qed

lemma image_disk_concat:
  assumes "\<forall>k. length (img k) = 512 * 2 ^ Suc m" "start + n \<le> 2 ^ Suc m * nb"
  shows "concat (map (image_disk img m) [start..<start + n]) = take (512 * n) (drop (512 * start) (concat (map img [0..<nb])))"
proof -
  let ?B = "2 ^ Suc m :: nat" and ?d = "concat (map img [0..<nb])"
  have "image_disk img m j = chunk ?d j" if "j < ?B * nb" for j
  proof -
    have k: "j div ?B < nb" "j mod ?B < ?B" using that by (simp_all add: less_mult_imp_div_less mult.commute)
    have "img (j div ?B) = take (512 * ?B) (drop (512 * (?B * (j div ?B))) ?d)"
      using concat_block [of img "512 * ?B" "j div ?B" nb] assms(1) k(1) by (simp add: mult.assoc)
    then have "image_disk img m j = chunk (take (512 * ?B) (drop (512 * (?B * (j div ?B))) ?d)) (j mod ?B)" by (simp only: image_disk_def)
    also have "\<dots> = chunk ?d (?B * (j div ?B) + j mod ?B)" by (rule chunk_chunk [OF k(2)])
    finally show ?thesis by simp
  qed
  then have "map (image_disk img m) [start..<start + n] = map (chunk ?d) [start..<start + n]" using assms(2) by (intro map_cong) auto
  then show ?thesis by (simp only: chunks_concat)
qed

lemma fresh_fits:
  assumes "geo srv img s" "set (bf_clusters s) \<subseteq> {None}" "start + n \<le> nat (bf_nb_sectors s)" "512 * n \<le> length buf"
  shows "fits \<lparr>rq_write = False, rq_start = start, rq_buf = buf, rq_n = n\<rparr> s"
proof -
  have "bf_clusters s ! (y div 8) = None" if "y < start + n" for y
    using geo_sector(2) [OF assms(1), of y] that assms(2,3) nth_mem by fastforce
  then show ?thesis using assms(3,4) by (simp add: fits_def unmixed_def)
qed

lemma ended_case:
  assumes "returns m s" "wlp m (\<lambda>_. Q) ovf s"
  shows "case m s of None \<Rightarrow> False | Some (Inl f) \<Rightarrow> f = SignedOverflow | Some (Inr (_, t)) \<Rightarrow> Q t"
  using assms by (auto simp: wlp_def returns_def ovf_def split: option.splits sum.splits prod.splits)

lemma http_read_rule:
  assumes s: "in_step srv img D rqs s" "http_idle s" and f: "fits \<lparr>rq_write = False, rq_start = start, rq_buf = buf, rq_n = n\<rparr> s"
  shows "reads_as srv s start buf n (blit buf 0 (concat (map (disk_after D rqs) [start..<start + n])))"
proof -
  let ?rq = "\<lparr>rq_write = False, rq_start = start, rq_buf = buf, rq_n = n\<rparr>"
  have e: "enabled (Request ?rq) s" using s(2) f by simp
  have d: "http_done s = results D rqs" using s phase_idle by (auto simp: in_step_def)
  have "case http_arrivals srv cs u of None \<Rightarrow> False | Some (Inl f) \<Rightarrow> f = SignedOverflow
      | Some (Inr (_, t)) \<Rightarrow> http_done t = http_done s @ [(0, done_buf (disk_after D rqs) ?rq)]"
    if u: "in_step srv img D (rqs @ [?rq]) u" "work u \<le> length cs" for u cs
  proof -
    note arr = arrivals_rule [OF u]
    have "wlp (http_arrivals srv cs) (\<lambda>_ t. http_done t = http_done s @ [(0, done_buf (disk_after D rqs) ?rq)]) ovf u"
      by (rule wlp_mono [OF arr [THEN conjunct2]]) (use idle_when_done d in auto)
    from ended_case [OF arr [THEN conjunct1] this] show ?thesis .
  qed
  moreover have "case http_step srv (Request ?rq) s of None \<Rightarrow> False | Some (Inl f) \<Rightarrow> f = SignedOverflow
      | Some (Inr (_, u)) \<Rightarrow> in_step srv img D (rqs @ [?rq]) u"
    by (rule ended_case [OF step_returns [OF s(1)] wlp_mono [OF step_rule [OF s(1) e]]]) simp_all
  ultimately have "reads_as srv s start buf n (done_buf (disk_after D rqs) ?rq)"
    unfolding reads_as_def by (cases "http_step srv (Request ?rq) s") (auto split: sum.splits simp del: http_step.simps)
  then show ?thesis by (simp add: done_buf_def)
qed

section \<open>Stale reads\<close>

text \<open>
  A read that reaches a cluster nobody has written takes the rest of the block from the server's data, also the clusters
  of that block that have been written.
\<close>

lemma stale_rule:
  assumes inv: "http_inv srv img [] s" and p: "p \<in> set (bf_cached_blocks s)" "holds s p (of_nat k)" "\<not> loading s p"
    and B: "B = nat (bf_block_size s)" "off + n \<le> B" "0 < n" "k * B + off + n \<le> nat (bf_nb_sectors s)"
    and c: "bf_clusters s ! ((k * B + off) div 8) = None" and buf: "512 * n \<le> length buf"
  shows "wlp (bf_read_async_http log_done (of_nat (k * B + off)) buf (int n))
    (\<lambda>r t. r = 0 \<and> bf_io_buf t = blit buf 0 (take (512 * n) (drop (512 * off) (img k)))) ovf s"
proof -
  let ?rq = "\<lparr>rq_write = False, rq_start = k * B + off, rq_buf = buf, rq_n = n\<rparr>"
  let ?t = "\<lambda>r. s\<lparr>bf_is_write := False, bf_sector_num := of_nat (k * B + off), bf_io_buf := buf, bf_sector_count := int n, bf_sector_index := 0,
    bf_cb := True, bf_n_read_sectors := r\<rparr>"
  let ?Q = "\<lambda>(_ :: bool) t. bf_io_buf t = blit buf 0 (take (512 * n) (drop (512 * off) (img k)))"
  have lp: "wlp (loop rw_step ()) (\<lambda>w t. \<not> w \<and> ?Q w t) ovf (?t r)" for r
  proof -
    have g: "geo srv img (?t r)" and ca: "cache_ok srv img [] (?t r)"
      using http_inv_cong [OF inv, of "?t r"] by (simp_all add: http_inv_def)
    have pr: "progress img (sector img (?t r)) ?rq 0 (?t r)" by (simp add: progress_def)
    show ?thesis
    proof (subst wlp_loop_unfold, rule wp_rw_step [OF g pr], goal_cases)
      case (4 b num l)
      let ?s = "(?t r)\<lparr>bf_cur_block_num := num\<rparr>"
      have "B \<noteq> 0" "off < B" using B by auto
      then have dm: "(k * B + off) div B = k" "(k * B + off) mod B = off" by simp_all
      then have e: "num = int k" "l = n" "b = B" using 4(2-4) B by simp_all
      have "k < 2147483648" using geo_sector(5) [OF g, of "k * B + off"] B dm by simp
      then have k: "unat (u32_of_int (int k)) = k" "u32_of_int (int k) = of_nat k" using u32_nat(1) by (simp_all add: u32_of_int_def)
      have ca': "cache_ok srv img [] ?s" using ca by (subst cache_cong) simp_all
      show ?case unfolding wlp_bnd [of "bf_find_block _"] e(1) k(2)
      proof (rule wp_bf_find_block [OF ca' [unfolded e(1)]], goal_cases)
        case 1
        then have False using p by (auto simp: holds_def)
        then show ?case ..
      next
        case (2 q ls)
        have q: "q = p" using cache_unique [OF ca', of q p "of_nat k"] 2 p by (simp add: holds_def)
        obtain b' where b': "cblocks s p = Some b'" "block_num b' = of_nat k" using p(2) by (auto simp: holds_def)
        have ld: "cb_state b' = CBLOCK_LOADED" using p(1,3) b'(1) by (cases "cb_state b'") (auto simp: loading_def)
        have d: "fb_data (cb_fbuf b') = img k" "length (img k) = 512 * B"
          using cache_okD(3) [OF ca, of p] p(1) b' ld k g B(1) by (auto simp: block_ok_def geo_def)
        have p0: "p \<noteq> 0" using cache_okD(1) [OF ca, of p] p(1) by simp
        let ?u = "(?t r)\<lparr>bf_cur_block_num := int k, bf_cached_blocks := ls\<rparr>"
        have lb: "512 * (off + n) \<le> length (fb_data (cb_fbuf b'))" unfolding d by (rule mult_le_mono2 [OF B(2)])
        have last: "wlp (loop rw_step ()) (\<lambda>w t. \<not> w \<and> ?Q w t) ovf u"
          if "bf_sector_count u = bf_sector_index u" "bf_io_buf u = blit buf 0 (take (512 * n) (drop (512 * off) (img k)))" for u :: logged_http
          using that by (subst wlp_loop_unfold) (simp add: rw_step_def wlp_bnd wlp_gets wlp_cint wlp_ret int_in_range_def)
        have "wlp (andthen (read_sectors (cb_fbuf b') (int off) (int n)) (andthen (advance (int n))
            (andthen (modify (\<lambda>s. s\<lparr>bf_cur_block_num := - 1\<rparr>)) (ret (Again ())))))
            (\<lambda>r. case r of Again x \<Rightarrow> wlp (loop rw_step x) (\<lambda>w t. \<not> w \<and> ?Q w t) ovf | Done a \<Rightarrow> \<lambda>t. \<not> a \<and> ?Q a t) ovf ?u"
          unfolding wlp_andthen
        proof (rule wp_read_sectors [where i = 0, OF _ lb])
          show "wlp (advance (int n)) (\<lambda>_. wlp (modify (\<lambda>s. s\<lparr>bf_cur_block_num := - 1\<rparr>)) (\<lambda>_. wlp (ret (Again ()))
            (\<lambda>r. case r of Again x \<Rightarrow> wlp (loop rw_step x) (\<lambda>w t. \<not> w \<and> ?Q w t) ovf | Done a \<Rightarrow> \<lambda>t. \<not> a \<and> ?Q a t) ovf) ovf) ovf
            (?u\<lparr>bf_io_buf := blit (bf_io_buf ?u) (512 * 0) (take (512 * n) (drop (512 * off) (fb_data (cb_fbuf b'))))\<rparr>)"
            by (rule wp_advance [where i = 0 and j = "k * B + off"]) (simp_all add: wlp_simps last d(1))
        qed (use buf in simp_all)
        then show ?case using q b'(1) p0 ld dm e by (simp add: wlp_bnd wlp_load) (erule wlp_mono; auto split: step.splits)
      qed
    qed (use B c in simp_all)
  qed
  have "wlp (bf_rw_async1 log_done True) (\<lambda>r t. r = 0 \<and> bf_io_buf t = blit buf 0 (take (512 * n) (drop (512 * off) (img k)))) ovf (?t r)" for r
    unfolding bf_rw_async1_def wlp_bnd by (rule wlp_mono [OF lp]) (simp_all add: wlp_ret wlp_andthen)
  then show ?thesis unfolding bf_read_async_http_def by (simp add: wlp_andthen wlp_bnd wlp_modify wlp_gets cint64_def wlp_ret wlp_fault)
qed

section \<open>A sample device\<close>

text \<open>Two blocks of 8 KB, which are prefetched as one group.\<close>

definition http_sample_url :: bytes where
  "http_sample_url = [0x68, 0x2f, 0x64]"

definition http_sample_image :: "nat \<Rightarrow> bytes" where
  "http_sample_image k = replicate 8192 (of_nat k)"

definition http_sample_server :: "bytes \<Rightarrow> bytes" where
  "http_sample_server name = (if name = GROUP_FMT [0x68, 0x2f] 0 then http_sample_image 1 @ http_sample_image 0
     else if name = BLK_FMT [0x68, 0x2f] 1 then http_sample_image 1 else http_sample_image 0)"

definition http_sample_config :: http_config where
  "http_sample_config = \<lparr>cfg_valid = True, cfg_block_size = Some 8, cfg_n_block = Some 2, cfg_prefetch_group_len = Some 2,
     cfg_prefetch = Json_Array [Some 1, Some 0]\<rparr>"

definition http_sample_host :: host where
  "http_sample_host = \<lparr>host_time = (\<lambda>_. (7, 8)), host_mem = (\<lambda>_ _. True), host_junk = (\<lambda>_ _. 0xaa)\<rparr>"

definition http_sample_write :: http_request where
  "http_sample_write = \<lparr>rq_write = True, rq_start = 24, rq_buf = replicate 512 7, rq_n = 1\<rparr>"

lemma sample_url_dir: "url_dir http_sample_url = [0x68, 0x2f]"
  by (simp add: url_dir_def http_sample_url_def)

lemma sample_names:
  "BLK_FMT [0x68, 0x2f] 0 \<noteq> BLK_FMT [0x68, 0x2f] 1" "BLK_FMT [0x68, 0x2f] 0 \<noteq> GROUP_FMT [0x68, 0x2f] 0" "BLK_FMT [0x68, 0x2f] 1 \<noteq> GROUP_FMT [0x68, 0x2f] 0"
  by code_simp+

lemma sample_serves: "serves http_sample_server http_sample_image http_sample_url http_sample_config 3 2 2"
proof -
  have "2 * g < Suc (Suc 0) \<longleftrightarrow> g = 0" for g :: nat by auto
  then show ?thesis using sample_names
    by (auto simp: serves_def http_sample_config_def sample_url_dir http_sample_server_def http_sample_image_def less_2_cases_iff)
qed

lemmas boot_eval = http_boot_def block_device_init_http_def bf_init_onload_def fs_wget_http_def http_sample_config_def sample_url_dir made_http_def
  zero_http_def block_device_http.extend_def logged_http.fields_def max_int_def cdiv_def int_of_u32_def prefetch_step_def min_int_def
  bf_start_load_prefetch_group_def bf_find_block_def bf_add_block_def new_buffer_def add_n_cached_def http_sample_host_def load_def
  http_sample_url_def [THEN arg_cong [where f = length]] usize_def u32_of_int_def bnd_def andthen_def guard_def cint_def int_in_range_def cint64_def
  Let_def loop_again loop_done

lemma sample_boot:
  obtains s b0 b1 where "http_boot http_sample_url 64 http_sample_config (made_http http_sample_host) = Some (Inr ((), s))"
    "bf_nb_sectors s = 32" "bf_sectors_per_cluster s = 8" "bf_block_size s = 16" "bf_clusters s = replicate 4 None" "bf_n_write_sectors s = 0"
    "bf_sector_index s = 0" "bf_sector_count s = 0" "bf_cached_blocks s = [Suc (Suc 0), Suc 0]"
    "cblocks s (Suc (Suc 0)) = Some b0" "block_num b0 = 0" "cblocks s (Suc 0) = Some b1" "block_num b1 = 1" "cb_state b1 = CBLOCK_LOADING"
  by (simp add: boot_eval)

text \<open>A request for a block that is being loaded waits.\<close>

lemma sample_waits:
  assumes "bf_sectors_per_cluster s = 8" "bf_block_size s = 16" "bf_clusters s = replicate 4 None" "bf_cached_blocks s = [Suc (Suc 0), Suc 0]"
    "cblocks s (Suc (Suc 0)) = Some b0" "block_num b0 = 0" "cblocks s (Suc 0) = Some b1" "block_num b1 = 1" "cb_state b1 = CBLOCK_LOADING"
    "bf_sector_num s = 24" "bf_sector_index s = 0" "bf_sector_count s = 1"
  shows "\<exists>t. rw_step () s = Some (Inr (Done True, t))"
proof -
  let ?s = "s\<lparr>bf_cur_block_num := 1\<rparr>"
  have "bf_find_block 1 ?s = Some (Inr (Suc 0, ?s\<lparr>bf_cached_blocks := [Suc 0, Suc (Suc 0)]\<rparr>))"
    using assms by (simp add: bf_find_block_def load_def bnd_def andthen_def)
  then show ?thesis using assms by (simp add: rw_step_def int_of_u32_def load_def u32_of_int_def bnd_run andthen_run cint_def int_in_range_def Let_def)
qed

lemma sample_requested:
  obtains s where "http_reachable http_sample_server http_sample_image http_sample_url 64 http_sample_config http_sample_host 3 [http_sample_write] s"
proof -
  obtain s b0 b1 where s: "http_boot http_sample_url 64 http_sample_config (made_http http_sample_host) = Some (Inr ((), s))"
    "bf_nb_sectors s = 32" "bf_sectors_per_cluster s = 8" "bf_block_size s = 16" "bf_clusters s = replicate 4 None" "bf_n_write_sectors s = 0"
    "bf_sector_index s = 0" "bf_sector_count s = 0" "bf_cached_blocks s = [Suc (Suc 0), Suc 0]"
    "cblocks s (Suc (Suc 0)) = Some b0" "block_num b0 = 0" "cblocks s (Suc 0) = Some b1" "block_num b1 = 1" "cb_state b1 = CBLOCK_LOADING"
    by (rule sample_boot)
  let ?s = "s\<lparr>bf_is_write := True, bf_sector_num := 24, bf_io_buf := replicate 512 7, bf_sector_count := 1, bf_sector_index := 0, bf_cb := True, bf_n_write_sectors := 1\<rparr>"
  have "\<exists>t. rw_step () ?s = Some (Inr (Done True, t))" by (rule sample_waits [of _ b0 b1]) (use s in simp_all)
  then obtain t where "rw_step () ?s = Some (Inr (Done True, t))" ..
  then have "http_step http_sample_server (Request http_sample_write) s = Some (Inr ((), t))" using s(6)
    by (simp add: http_sample_write_def bf_write_async_http_def bf_rw_async1_def bnd_run andthen_run cint64_def loop_done)
  moreover have "enabled (Request http_sample_write) s" using s(2,7,8) by (simp add: http_idle_def fits_def http_sample_write_def)
  ultimately have "http_trace http_sample_server s [http_sample_write] t"
    using http_trace.event [OF http_trace.start, of "Request http_sample_write" s http_sample_server t] by simp
  then show ?thesis using that [of t] s(1) sample_serves by (auto simp: http_reachable_def http_sample_url_def http_sample_host_def)
qed

section \<open>Properties\<close>

text \<open>
  C4: requests to the block device over HTTP refine requests to a plain disk.  The client only notes the results and makes a
  request when the one before it has completed; every request lies within the disk, and a read does not go from a cluster that was
  never written into a written one of the same block (\<open>fits\<close>; what such a read returns is the subject of
  \<open>http_read_stale\<close>).  After any sequence of such requests and of ends of
  transfers, in whatever order these end, the requests that have completed are the first ones made, each with the result
  0, and each read has in its buffer what the disk with the contents of the image on the server has after the requests before it; at most
  one request is open, and none when the device is idle.
\<close>

theorem http_requests_refine:
  assumes "http_reachable srv img url max_kb cfg h m rqs s"
  shows "http_done s = results (image_disk img m) (take (length (http_done s)) rqs) \<and> length rqs \<le> Suc (length (http_done s))
    \<and> (http_idle s \<longrightarrow> http_done s = results (image_disk img m) rqs)"
  using reachable_in_step [OF assms] phase_idle by (auto simp: in_step_def)

theorem http_requests_refine_witness:
  "\<exists>s. http_reachable http_sample_server http_sample_image http_sample_url 64 http_sample_config http_sample_host 3 [http_sample_write] s
    \<and> (http_idle s \<longrightarrow> http_done s = results (image_disk http_sample_image 3) [http_sample_write])"
proof -
  obtain s where "http_reachable http_sample_server http_sample_image http_sample_url 64 http_sample_config http_sample_host 3 [http_sample_write] s"
    by (rule sample_requested)
  with http_requests_refine [OF this] show ?thesis by blast
qed

text \<open>
  C5: an open request completes.  From every state the device can reach, once as many transfers have ended as there is work left, in
  any order (\<open>cs\<close> chooses the next one), no transfer is left, the device is idle and every request made has its
  result, unless a counter of the device overflows.
\<close>

theorem http_request_completes:
  assumes "http_reachable srv img url max_kb cfg h m rqs s" "work s \<le> length cs"
  shows "case http_arrivals srv cs s of None \<Rightarrow> False | Some (Inl f) \<Rightarrow> f = SignedOverflow
    | Some (Inr (_, t)) \<Rightarrow> wgets t = [] \<and> http_idle t \<and> http_done t = results (image_disk img m) rqs"
proof -
  note arr = arrivals_rule [OF reachable_in_step [OF assms(1)] assms(2)]
  have "wlp (http_arrivals srv cs) (\<lambda>_ t. wgets t = [] \<and> http_idle t \<and> http_done t = results (image_disk img m) rqs) ovf s"
    by (rule wlp_mono [OF arr [THEN conjunct2]]) (use idle_when_done in auto)
  then show ?thesis using arr [THEN conjunct1] by (auto simp: wlp_def returns_def ovf_def split: option.splits sum.splits prod.splits)
qed

theorem http_request_completes_witness:
  "\<exists>s. http_reachable http_sample_server http_sample_image http_sample_url 64 http_sample_config http_sample_host 3 [http_sample_write] s
    \<and> (case http_arrivals http_sample_server (replicate (work s) 0) s of None \<Rightarrow> False | Some (Inl f) \<Rightarrow> f = SignedOverflow
       | Some (Inr (_, t)) \<Rightarrow> wgets t = [] \<and> http_idle t \<and> http_done t = results (image_disk http_sample_image 3) [http_sample_write])"
proof -
  obtain s where s: "http_reachable http_sample_server http_sample_image http_sample_url 64 http_sample_config http_sample_host 3 [http_sample_write] s"
    by (rule sample_requested)
  have "work s \<le> length (replicate (work s) (0 :: nat))" by simp
  from http_request_completes [OF s this] s show ?thesis by blast
qed

text \<open>
  C6: the events of the block device over HTTP are safe: in every state it can reach, a request that fits and the end of any transfer
  return without an access outside a buffer or an array, through a null pointer or to a freed block, and without a failed
  assertion; only a counter can overflow.
\<close>

theorem http_events_safe:
  assumes "http_reachable srv img url max_kb cfg h m rqs s" "enabled e s"
  shows "case http_step srv e s of None \<Rightarrow> False | Some (Inl f) \<Rightarrow> f = SignedOverflow | Some (Inr _) \<Rightarrow> True"
  using step_returns [OF reachable_in_step [OF assms(1)], of e] step_rule [OF reachable_in_step [OF assms(1)] assms(2)]
  by (auto simp: wlp_def returns_def ovf_def split: option.splits sum.splits)

theorem http_events_safe_witness:
  "\<exists>s. http_reachable http_sample_server http_sample_image http_sample_url 64 http_sample_config http_sample_host 3 [] s
    \<and> enabled (Request http_sample_write) s
    \<and> (case http_step http_sample_server (Request http_sample_write) s of None \<Rightarrow> False | Some (Inl f) \<Rightarrow> f = SignedOverflow | Some (Inr _) \<Rightarrow> True)"
proof -
  obtain s where s: "http_boot http_sample_url 64 http_sample_config (made_http http_sample_host) = Some (Inr ((), s))"
    "bf_nb_sectors s = 32" "bf_sector_index s = 0" "bf_sector_count s = 0" by (rule sample_boot)
  then have r: "http_reachable http_sample_server http_sample_image http_sample_url 64 http_sample_config http_sample_host 3 [] s"
    using sample_serves http_trace.start [of http_sample_server s] unfolding http_reachable_def by (auto simp: http_sample_url_def http_sample_host_def)
  have e: "enabled (Request http_sample_write) s" using s by (simp add: http_idle_def fits_def http_sample_write_def)
  from http_events_safe [OF r e] r e show ?thesis by blast
qed

text \<open>
  C21: started from a configuration, the device has the number of sectors the configuration gives, and a first read
  anywhere within them, made while any of the prefetched blocks are still on their way, completes with the bytes of the
  concatenated blocks of the image once the transfers have ended, in any order; before that the device is idle, and start, read and
  transfers end, unless a counter overflows.
\<close>

theorem http_boot_disk:
  assumes "serves srv img url cfg m nb len" "length url < 1024" "\<forall>c n. host_mem h c n"
    and "start + n \<le> 2 ^ Suc m * nb" "512 * n \<le> length buf"
  shows "case http_boot url max_kb cfg (made_http h) of None \<Rightarrow> False | Some (Inl f) \<Rightarrow> f = SignedOverflow
    | Some (Inr (_, s)) \<Rightarrow> http_idle s \<and> http_done s = [] \<and> bf_get_sector_count_http s = of_nat (2 ^ Suc m * nb)
        \<and> reads_as srv s start buf n (blit buf 0 (take (512 * n) (drop (512 * start) (concat (map img [0..<nb])))))"
proof -
  let ?r = "blit buf 0 (take (512 * n) (drop (512 * start) (concat (map img [0..<nb]))))"
  have img: "\<forall>k. length (img k) = 512 * 2 ^ Suc m" using assms(1) unfolding serves_def by blast
  have "wlp (http_boot url max_kb cfg) (\<lambda>_ s. http_idle s \<and> http_done s = [] \<and> bf_get_sector_count_http s = of_nat (2 ^ Suc m * nb)
      \<and> reads_as srv s start buf n ?r) ovf (made_http h)"
  proof (rule wlp_mono [OF boot_rule [OF assms(1-3)]], goal_cases)
    case (1 a s)
    have sec: "nat (bf_nb_sectors s) = 2 ^ Suc m * nb" "bf_nb_sectors s = int (2 ^ Suc m * nb)" using 1 by (simp_all add: nat_mult_distrib nat_power_eq)
    have i: "http_idle s" "in_step srv img (image_disk img m) [] s" using 1 by (simp_all add: phase_def http_idle_def in_step_def)
    have "geo srv img s" using 1 by (simp add: http_inv_def)
    then have f: "fits \<lparr>rq_write = False, rq_start = start, rq_buf = buf, rq_n = n\<rparr> s"
      by (rule fresh_fits) (use 1 sec assms(4,5) in simp_all)
    have "reads_as srv s start buf n ?r" using http_read_rule [OF i(2,1) f] image_disk_concat [OF img assms(4)] by simp
    then show ?case using 1 i(1) sec by (simp add: bf_get_sector_count_http_def)
  qed
  then show ?thesis using boot_returns [OF assms(1), of max_kb "made_http h"]
    by (auto simp: wlp_def returns_def ovf_def split: option.splits sum.splits prod.splits)
qed

theorem http_boot_disk_witness:
  "\<exists>s. http_boot http_sample_url 64 http_sample_config (made_http http_sample_host) = Some (Inr ((), s)) \<and> bf_get_sector_count_http s = 32
    \<and> reads_as http_sample_server s 15 (replicate 1024 9) 2 (replicate 512 0 @ replicate 512 1)"
proof -
  obtain s where s: "http_boot http_sample_url 64 http_sample_config (made_http http_sample_host) = Some (Inr ((), s))" by (rule sample_boot)
  have "case http_boot http_sample_url 64 http_sample_config (made_http http_sample_host) of None \<Rightarrow> False | Some (Inl f) \<Rightarrow> f = SignedOverflow
    | Some (Inr (_, s)) \<Rightarrow> http_idle s \<and> http_done s = [] \<and> bf_get_sector_count_http s = of_nat (2 ^ Suc 3 * 2)
        \<and> reads_as http_sample_server s 15 (replicate 1024 9) 2
            (blit (replicate 1024 9) 0 (take (512 * 2) (drop (512 * 15) (concat (map http_sample_image [0..<2])))))"
    by (rule http_boot_disk [OF sample_serves]) (simp_all add: http_sample_url_def http_sample_host_def)
  then show ?thesis unfolding s by (simp add: http_sample_image_def upt_rec blit_def)
qed

text \<open>
  C22: a read of the block device over HTTP can return old data: when it starts in a cluster that was never written, it copies
  all it needs of the block from the data the server sent, also the sectors of clusters that have been written since.
\<close>

theorem http_read_stale:
  assumes "http_inv srv img [] s" and "p \<in> set (bf_cached_blocks s)" "holds s p (of_nat k)" "\<not> loading s p"
    and "off + n \<le> nat (bf_block_size s)" "0 < n" "k * nat (bf_block_size s) + off + n \<le> nat (bf_nb_sectors s)"
    and "bf_clusters s ! ((k * nat (bf_block_size s) + off) div 8) = None" "512 * n \<le> length buf"
  shows "case bf_read_async_http log_done (of_nat (k * nat (bf_block_size s) + off)) buf (int n) s of
      None \<Rightarrow> False | Some (Inl f) \<Rightarrow> f = SignedOverflow
    | Some (Inr (r, t)) \<Rightarrow> r = 0 \<and> bf_io_buf t = blit buf 0 (take (512 * n) (drop (512 * off) (img k)))"
proof -
  have "http_inv srv img [] (s\<lparr>bf_sector_index := 0, bf_sector_count := int n\<rparr>)" by (rule http_inv_cong [OF assms(1)]) simp_all
  then have "shape (s\<lparr>bf_sector_index := 0, bf_sector_count := int n\<rparr>)" by (rule inv_shape) simp
  from request_returns(1) [OF stops_log this] stale_rule [OF assms(1-4) refl assms(5-9)]
  show ?thesis by (auto simp: wlp_def returns_def ovf_def split: option.splits sum.splits)
qed

text \<open>Block 0 is in the cache and its second cluster has been written.\<close>

definition http_sample_mixed :: logged_http where
  "http_sample_mixed = (made_http http_sample_host)\<lparr>bf_url := url_dir http_sample_url, bf_block_size := 16, bf_nb_blocks := 2, bf_nb_sectors := 32,
     bf_sectors_per_cluster := 8, bf_cached_blocks := [1], http_next := 2,
     cblocks := [1 \<mapsto> \<lparr>block_num = 0, cb_state = CBLOCK_LOADED, cb_fbuf = \<lparr>fb_data = http_sample_image 0, allocated_size = 8192\<rparr>\<rparr>],
     bf_clusters := (replicate 4 None)[1 := Some \<lparr>fb_data = replicate 4096 7, allocated_size = 4096\<rparr>]\<rparr>"

lemma sample_mixed_inv: "http_inv http_sample_server http_sample_image [] http_sample_mixed"
proof -
  let ?t = "http_sample_mixed\<lparr>bf_clusters := replicate 4 None\<rparr>"
  have "geo http_sample_server http_sample_image ?t"
    by (rule boot_geo [OF sample_serves]) (simp_all add: http_sample_mixed_def made_http_def zero_http_def block_device_http.extend_def logged_http.fields_def http_sample_host_def)
  from geo_cluster [OF this, of "replicate 4096 7" 1 "\<lparr>fb_data = [], allocated_size = 4096\<rparr>"]
  have "geo http_sample_server http_sample_image http_sample_mixed" by (simp add: http_sample_mixed_def)
  moreover have "cache_ok http_sample_server http_sample_image [] http_sample_mixed"
    by (auto simp: cache_ok_def http_sample_mixed_def made_http_def zero_http_def block_device_http.extend_def logged_http.fields_def loading_def holds_def
        block_ok_def http_sample_image_def)
  ultimately show ?thesis by (simp add: http_inv_def)
qed

theorem http_read_stale_witness:
  "sector http_sample_image http_sample_mixed 8 = replicate 512 7 \<and>
   (case bf_read_async_http log_done 0 (replicate 8192 9) 16 http_sample_mixed of None \<Rightarrow> False | Some (Inl f) \<Rightarrow> f = SignedOverflow
    | Some (Inr (r, t)) \<Rightarrow> r = 0 \<and> bf_io_buf t = replicate 8192 0)"
proof -
  have f: "bf_block_size http_sample_mixed = 16" "bf_nb_sectors http_sample_mixed = 32" "bf_clusters http_sample_mixed ! 0 = None" "bf_cached_blocks http_sample_mixed = [1]"
    "holds http_sample_mixed 1 (of_nat 0)" "\<not> loading http_sample_mixed 1"
    by (simp_all add: http_sample_mixed_def holds_def loading_def)
  have "take 8192 (drop 0 (http_sample_image 0)) = replicate 8192 0" by (simp add: http_sample_image_def)
  moreover have "blit (replicate 8192 9) 0 (replicate 8192 (0 :: u8)) = replicate 8192 0" by (rule blit_0_full) simp
  ultimately have "case bf_read_async_http log_done 0 (replicate 8192 9) 16 http_sample_mixed of None \<Rightarrow> False | Some (Inl f) \<Rightarrow> f = SignedOverflow
    | Some (Inr (r, t)) \<Rightarrow> r = 0 \<and> bf_io_buf t = replicate 8192 0"
    using http_read_stale [OF sample_mixed_inv, of 1 0 0 16 "replicate 8192 9"] f by (simp split: option.splits sum.splits prod.splits)
  moreover have "sector http_sample_image http_sample_mixed 8 = replicate 512 7"
    by (simp add: sector_def http_sample_mixed_def chunk_def)
  ultimately show ?thesis by blast
qed

end
