(* ===== verification/Spec2Isabelle.thy ===== *)
theory Spec2Isabelle
  imports Queue_Correct Block_File Device_Correct Regs_Correct P9_Correct Bus_Correct Virtio_Notify List_Head Pbkdf2 Fs_Transfer Fs_Correct Cmd_Correct Http_Correct
begin

text \<open>
  A verification development of the virtio device emulator in \<open>src/src\<close>: the C devices of TinyEMU,
  serving a guest on an FPGA whose memory is reached through the \<open>fmem\<close> driver.

  \<^bold>\<open>The program.\<close>  A guest programs the registers of a device (\<open>virtio_mmio_*\<close> or \<open>virtio_pci_*\<close>
  in \<open>virtio.c\<close>), puts chains of buffer descriptors into its memory and announces them in a ring.  A
  write to the notify register posts the queue to a worker thread, which walks the chains
  (\<open>queue_notify\<close>), hands each to the handler of the device, writes the answer into the guest's
  buffers and returns them in the used ring with an interrupt.  The handlers stand between the guest
  and a backend: a disk image (\<open>bf_*\<close> in \<open>temu.c\<close>, or in \<open>block_net.c\<close> for an image on a server), an Ethernet interface, a terminal, the system's
  random source, an input device, or a file system (\<open>fs.h\<close>) such as that of \<open>fs_net.c\<close>, which keeps
  its files in memory and loads them from a server, decrypted by \<open>fs_wget.c\<close>, when they are opened.  On a PCI machine the registers are
  found through the bus of \<open>pci.c\<close>; the address space is the table of ranges of \<open>iomem.c\<close>.

  \<^bold>\<open>Conventions.\<close>  Machine integers are words of their width; a C \<open>int\<close> is an \<open>int\<close> whose range is
  checked where the code computes (\<open>cint\<close>).  Stateful code is written in the monad of \<open>Prelude\<close>: a
  computation returns a value and a state, or ends in a fault (abort, failed assertion, access out
  of bounds, signed overflow, null pointer), or does not return.  Loops whose end depends on guest
  memory are the \<open>partial_function\<close> \<open>loop\<close>, where not returning is the value \<open>None\<close>; no fuel
  is used anywhere.  Code outside the repository is a parameter: the two \<open>ioctl\<close> calls of the driver
  (\<open>fmem_ops\<close>), the Ethernet, terminal and file system interfaces (records of computations),
  \<open>getrandom\<close>, the contents of fresh memory (\<open>junk\<close>), AES and SHA-256 (\<open>aes_lib\<close>, \<open>sha_lib\<close>), the files of a server, the path
  functions and parsers of a missing header (\<open>net_lib\<close>, \<open>fs_utils\<close>), the clock and the allocator (\<open>host\<close>).  What is relied on of
  them is named (\<open>fmem_ram\<close>, \<open>getrandom_ok\<close>, \<open>cbc_law\<close>, \<open>sha_law\<close>, \<open>parsers_advance\<close>, \<open>serves\<close>) and instantiated for the witnesses.

  \<^bold>\<open>Theories.\<close>
  \<^item> \<open>Prelude\<close>: types, faults, the monad, its weakest preconditions (\<open>wlp\<close>), preservation of
    invariants (\<open>keeps\<close>), totality (\<open>total\<close>), checked access to arrays.
  \<^item> \<open>Cutils\<close> (\<open>cutils.c\<close>, \<open>cutils.h\<close>): byte order with the locale \<open>codec\<close> and its instances,
    strings, growable buffers.
  \<^item> \<open>Fmem\<close> (\<open>fmem.h\<close>): access to guest memory; that it behaves as a byte memory.
  \<^item> \<open>Virtio_Core\<close> (\<open>virtio.c\<close> 110--590): device and queue state, reset, descriptor chains, copying
    to and from them, the used ring, \<open>queue_notify\<close>; the device invariant \<open>dev_inv\<close> and the locales
    \<open>device_handler\<close> and \<open>sync_handler\<close> for what a handler owes the core.
  \<^item> \<open>Virtio_Chain\<close>: the chain of a request as a list of descriptors and of bytes; what each routine of
    the core does with it; \<open>notify_one\<close>, which lifts the run of a handler to the notification.
  \<^item> \<open>Virtio_Regs\<close> (590--1030): configuration space and both register blocks; the locale
    \<open>virtio_callbacks\<close> of a device with its two callbacks, interpreted for all six devices.
  \<^item> \<open>Virtio_Block\<close>, \<open>Block_File\<close>: the block device with the locale \<open>block_backend\<close> of a disk, and the
    file-backed disk of \<open>temu.c\<close> in its read-write and snapshot modes as two instances.
  \<^item> \<open>Block_Http\<close> (\<open>block_net.c\<close>): the disk over HTTP: a cache of blocks with transfers under way, clusters of
    written data, requests that wait for a block and go on when it arrives, prefetching, the configuration.
  \<^item> \<open>Http_Cache\<close>, \<open>Http_Disk\<close>, \<open>Http_Request\<close>, \<open>Http_Arrival\<close>, \<open>Http_Total\<close>, \<open>Http_Init\<close>, \<open>Http_Correct\<close>: the invariant of its
    cache, the disk its blocks and clusters stand for, one round and all rounds of a request, the end of a
    transfer, termination, the start from a configuration, and the properties over traces of requests and arrivals.
  \<^item> \<open>Virtio_Net\<close>, \<open>Virtio_Console\<close>, \<open>Virtio_Entropy\<close>, \<open>Virtio_Input\<close>: the other simple devices.
  \<^item> \<open>Fs_Device\<close> (\<open>fs.h\<close>, \<open>fs.c\<close>), \<open>P9_Wire\<close>, \<open>Virtio_9P\<close>: the file system interface, the table of
    identifiers with the locale \<open>fid_table\<close>, messages, and one definition per request of 9P2000.L.
  \<^item> \<open>List_Head\<close> (\<open>list.h\<close>): the linked lists over a heap of nodes and the sequences they represent.
  \<^item> \<open>Fs_Wget\<close>, \<open>Pbkdf2\<close> (\<open>fs_wget.c\<close>): incremental decryption with the locale \<open>write_sink\<close> of the callback
    that takes the plaintext, and key derivation.
  \<^item> \<open>Fs_Node\<close>, \<open>Fs_Load\<close>, \<open>Fs_Mem\<close> (\<open>fs_net.c\<close>): the file system as heaps of inodes, directory entries,
    handles, transfers and base URLs; reference counting, file buffers, directories; the cache, transfers,
    archives and preloading; and one definition per operation of \<open>FSDevice\<close>, collected in \<open>fs_mem_ops\<close>.
  \<^item> \<open>Fs_Cmd\<close>, \<open>Fs_Start\<close>: downloads into a file (\<open>fs_wget_file2\<close> of \<open>fs_wget.c\<close> and its callbacks), the commands a guest writes
    to the command file (\<open>fs_cmd_*\<close>), the parsers of file and preload lists, and the start of a network file system (\<open>fs_net_init\<close> to
    \<open>kernel_load_cb\<close>), in which the recursion over directories is a stack and callbacks are named by a datatype.
  \<^item> \<open>Fs_Inv\<close>, \<open>Fs_Safe\<close>, \<open>Fs_Content\<close>, \<open>Fs_Reach\<close>, \<open>Fs_Total\<close>: the invariant \<open>fs_ok\<close> of the file system, that
    every operation keeps it and fails only in an assertion or on a counter, what operations do to the
    contents of files, the states reached by calls within the contract \<open>op_ok\<close>, and that all operations end.
  \<^item> \<open>Fs_Transfer\<close>, \<open>Fs_Correct\<close>: the properties of the file system; the first interprets \<open>write_sink\<close> on
    \<open>fs_open_write_cb\<close>.
  \<^item> \<open>Cmd_Correct\<close>: the properties of the command file, of downloads and of the parsers.
  \<^item> \<open>Virtio_Notify\<close>: the worker thread, its start and its end as an interleaving of atomic steps, over \<open>queue_notify\<close> of the
    devices it serves.
  \<^item> \<open>Iomem\<close>, \<open>Pci\<close>, \<open>Virtio_Init\<close>: the memory map, the bus with the i440FX bridge, and how a device
    attaches to them.
  \<^item> \<open>Sample\<close>: a concrete guest memory and device for the witnesses.
  \<^item> \<open>Queue_Correct\<close>, \<open>Device_Correct\<close>, \<open>Regs_Correct\<close>, \<open>P9_Correct\<close>, \<open>Bus_Correct\<close>: the properties
    of the components, with those of \<open>Block_File\<close>, \<open>Virtio_Notify\<close> and \<open>Cutils\<close> in their own theories.

  \<^bold>\<open>What is shown.\<close>  A disk image behind a notified request changes and reads back exactly as the
  request says, and in snapshot mode not at all; the chain routines move exactly the bytes of the
  chain; packets, characters, random bytes and input events arrive unchanged; 9p requests act on
  the identifiers and the file system as specified and are refused otherwise; no notification is
  lost, and the worker serves all of them unless a queue is never done; any sequence of guest accesses keeps the device invariant,
  which ties the interrupt line to the interrupt status; the two transports agree register by
  register; the bus keeps its interrupt lines, identification and capability list; lookups in the
  memory map stay in bounds.  The file system counts its references exactly, never reaches freed memory
  or leaves a buffer, keeps what is written, and loads an encrypted file as its plaintext however the
  transfer is cut; linked lists behave as sequences; derived keys are those of the standard, and a guest that asks for one through the command file reads it there; file lists are read in finite time.  Requests to the disk over HTTP
  have the results of a plain disk with the contents of the image, whatever the order in which blocks arrive and are
  dropped from the cache, and each of them completes.  Some
  properties and theorems show where the code fails: cyclic chains, descriptors of length 0xffffffff,
  devices without configuration space, resets, long mount tags, key derivation with a salt that cannot be read,
  downloads that do not decrypt, comments in preload lists, reads of the disk over HTTP behind a written cluster; and \<open>fs_calls_out_of_contract\<close> shows what
  happens, in every reachable state of a file system, to calls outside the contract \<open>op_ok\<close>.

  \<^bold>\<open>Scope of single statements.\<close>  The disk image of the program is opened for reading and writing; its notified reads and writes are
  shown for this mode, reads also for snapshots.  The properties of the disk over HTTP are those of a client that notes its results and
  makes the next request from outside the callback; its reads fit the disk and do not go from a cluster that was never
  written into a written one of the same block, which is where the code fails (\<open>http_read_stale\<close>).  The disk such a
  device stands for (\<open>sector\<close>) takes sectors that were never written from the image; what ties the blocks in the cache to the image is the
  invariant \<open>cache_ok\<close>, and reads are the way the client sees both (\<open>reads_as\<close>).  \<open>endless\<close> describes cycles of descriptors of one
  direction; a cycle of both directions is refused by \<open>get_desc_rw_size\<close>.  \<open>pci_to_mmio\<close> is a table of the registers of the two
  transports that have the same name, not code of the program.

  \<^bold>\<open>Simplifications.\<close>  The read function of a block backend returns the buffer it was given, filled, so that a backend cannot fill it
  after its callback was called.  The streams of \<open>stdio\<close> read short only at the end of the file and do not fail.
  \<open>sizeof(FSDirEntry)\<close> is 32, as on a machine with pointers of 64 bits.  The notification worker is started when no worker runs,
  as the program does, which joins the thread it has stopped.

  \<^bold>\<open>Not modelled.\<close>  \<open>slirp/\<close> is a vendored TCP/IP stack behind the Ethernet interface.  Of \<open>fs_net.c\<close> the recording
  of the cache (\<open>fs_dump_cache_load\<close>, which nothing calls) and the file import of the browser build are left out, and so is the transport
  of \<open>fs_wget.c\<close>, calls of libcurl.  The invariant \<open>fs_ok\<close> is that of a file system without command file and without files on a server.
  The JSON parser of \<open>block_net.c\<close> is not in the repository: what it gives is the record \<open>http_config\<close>.  The
  terminal, TUN and select code of \<open>temu.c\<close> consists of operating system calls.  The C++ files start
  the program and talk to the FPGA.  Functions that only free memory (\<open>fs_end\<close>, \<open>phys_mem_map_end\<close>)
  have no counterpart, and leaks are not visible.  Debug output is left out.  Within a single access
  memory is sequentially consistent; the worker thread is the only concurrency in the program.
\<close>

end
